(* ===== verification/Prelude.thy ===== *)
theory Prelude
  imports Main "HOL-Library.Word" "HOL-Library.Monad_Syntax"
begin

text \<open>
  Shared base of the development: the C integer types as words, the byte-addressed memory
  with 32-bit little-endian access, the part of the machine every kernel component uses
  (memory, the log of port accesses, the interrupt flag), the port and interrupt primitives
  of \<open>student-distrib/lib.h\<close>, and the lemmas on words, regions of memory and loops that the
  component theories share.
\<close>

unbundle bit_operations_syntax

section \<open>Types\<close>

type_synonym u8 = "8 word"
type_synonym u16 = "16 word"
type_synonym u32 = "32 word"
type_synonym memory = "u32 \<Rightarrow> u8"

text \<open>
  A port access. The devices are not part of the repository: a device is a function from the
  log of all port accesses so far to the byte a port delivers next.
\<close>

datatype io_event = Outb u8 u16 | Inb u16 u8

type_synonym device = "io_event list \<Rightarrow> u16 \<Rightarrow> u8"

text \<open>The collections of rewrite rules that the component proofs name.\<close>

named_theorems region_simps \<open>membership in regions of memory\<close>
named_theorems frame_simps \<open>fields of the state that an operation leaves alone\<close>

section \<open>Memory\<close>

definition region :: "u32 \<Rightarrow> nat \<Rightarrow> u32 set" where
  "region a n = {x. unat (x - a) < n}"

definition load32 :: "memory \<Rightarrow> u32 \<Rightarrow> u32" where
  "load32 m a = ucast (m a) OR push_bit 8 (ucast (m (a + 1)))
     OR push_bit 16 (ucast (m (a + 2))) OR push_bit 24 (ucast (m (a + 3)))"

definition store32 :: "memory \<Rightarrow> u32 \<Rightarrow> u32 \<Rightarrow> memory" where
  "store32 m a w = m(a := ucast w, a + 1 := ucast (drop_bit 8 w),
     a + 2 := ucast (drop_bit 16 w), a + 3 := ucast (drop_bit 24 w))"

definition bytes_at :: "memory \<Rightarrow> u32 \<Rightarrow> nat \<Rightarrow> u8 list" where
  "bytes_at m a n = map (\<lambda>i. m (a + of_nat i)) [0..<n]"

fun write_bytes :: "memory \<Rightarrow> u32 \<Rightarrow> u8 list \<Rightarrow> memory" where
  "write_bytes m a [] = m"
| "write_bytes m a (x # xs) = write_bytes (m(a := x)) (a + 1) xs"

text \<open>
  The string held by a field of \<open>n\<close> bytes: up to the first NUL, or all of the field when it has
  none. And a NUL-terminated string.
\<close>

definition field_string :: "memory \<Rightarrow> u32 \<Rightarrow> nat \<Rightarrow> u8 list" where
  "field_string m a n = takeWhile (\<lambda>c. c \<noteq> 0) (bytes_at m a n)"

definition cstr_at :: "memory \<Rightarrow> u32 \<Rightarrow> u8 list \<Rightarrow> bool" where
  "cstr_at m a xs \<longleftrightarrow> length xs < 4294967296 \<and> 0 \<notin> set xs \<and> bytes_at m a (length xs) = xs
     \<and> m (a + of_nat (length xs)) = 0"

text \<open>What a block copy and a block fill are meant to do, in one step.\<close>

definition copy_spec :: "memory \<Rightarrow> u32 \<Rightarrow> u32 \<Rightarrow> nat \<Rightarrow> memory" where
  "copy_spec m d s n = (\<lambda>a. if a \<in> region d n then m (s + (a - d)) else m a)"

definition fill_spec :: "memory \<Rightarrow> u32 \<Rightarrow> u8 \<Rightarrow> nat \<Rightarrow> memory" where
  "fill_spec m d c n = (\<lambda>a. if a \<in> region d n then c else m a)"

section \<open>The machine\<close>

record machine =
  ram :: memory
  io :: "io_event list"
  iflag :: bool

definition outb :: "u8 \<Rightarrow> u16 \<Rightarrow> 'a machine_scheme \<Rightarrow> 'a machine_scheme" where
  "outb data port s = s\<lparr>io := io s @ [Outb data port]\<rparr>"

definition inb :: "device \<Rightarrow> u16 \<Rightarrow> 'a machine_scheme \<Rightarrow> u8 \<times> 'a machine_scheme" where
  "inb dev port s = (let v = dev (io s) port in (v, s\<lparr>io := io s @ [Inb port v]\<rparr>))"

definition cli :: "'a machine_scheme \<Rightarrow> 'a machine_scheme" where
  "cli s = s\<lparr>iflag := False\<rparr>"

definition sti :: "'a machine_scheme \<Rightarrow> 'a machine_scheme" where
  "sti s = s\<lparr>iflag := True\<rparr>"

text \<open>
  Busy waiting: the code polls a condition that only an interrupt handler can make true. The
  list holds what the handlers that run between two polls do to the state; the wait ends at the
  first poll that succeeds, and is still waiting (\<open>None\<close>) when the list is used up.
\<close>

fun spin_until :: "('s \<Rightarrow> bool) \<Rightarrow> ('s \<Rightarrow> 's) list \<Rightarrow> 's \<Rightarrow> 's option" where
  "spin_until b [] s = (if b s then Some s else None)"
| "spin_until b (h # hs) s = (if b s then Some s else spin_until b hs (h s))"

text \<open>The byte last written to a port, if any.\<close>

fun last_out :: "u16 \<Rightarrow> io_event list \<Rightarrow> u8 option" where
  "last_out p [] = None"
| "last_out p (Outb v q # es) = (case last_out p es of Some w \<Rightarrow> Some w | None \<Rightarrow> if q = p then Some v else None)"
| "last_out p (Inb q v # es) = last_out p es"

section \<open>Words and regions\<close>

lemma unat_of_nat32 [simp]: "n < 4294967296 \<Longrightarrow> unat (of_nat n :: u32) = n"
  by (simp add: unsigned_of_nat take_bit_eq_mod)

lemma unat_lt32 [simp]: "unat (x :: u32) < 4294967296"
proof -
  have "unat x < 2 ^ LENGTH(32)" by (rule unsigned_less)
  then show ?thesis by simp
qed

lemma unat_le32 [simp]: "unat (x :: u32) \<le> 4294967296"
  by (simp add: less_imp_le)

lemma unat_pred: "(x :: u32) \<noteq> 0 \<Longrightarrow> unat x = Suc (unat (x - 1))"
  by (simp add: unat_minus_one Suc_pred unat_gt_0 flip: One_nat_def)

lemma unat_Suc_pred: "unat (x :: u32) = Suc n \<Longrightarrow> x \<noteq> 0 \<and> unat (x - 1) = n"
  using unat_pred [of x] by (cases "x = 0") auto

lemma of_nat32_inj:
  "\<lbrakk>i < 4294967296; j < 4294967296\<rbrakk> \<Longrightarrow> ((of_nat i :: u32) = of_nat j) = (i = j)"
  by (metis unat_of_nat32)

lemma sint_of_int32: "-2147483648 \<le> i \<Longrightarrow> i < 2147483648 \<Longrightarrow> sint (of_int i :: u32) = i"
  by (simp add: signed_of_int signed_take_bit_int_eq_self)

lemma uint_of_int32: "0 \<le> i \<Longrightarrow> i < 4294967296 \<Longrightarrow> uint (of_int i :: u32) = i"
  by (simp add: unsigned_of_int take_bit_eq_mod)

lemma of_int32_inj:
  "\<lbrakk>0 \<le> i; i < 4294967296; 0 \<le> j; j < 4294967296\<rbrakk> \<Longrightarrow> ((of_int i :: u32) = of_int j) = (i = j)"
  by (metis uint_of_int32)

lemma offset_int:
  obtains k where "0 \<le> k" "k < 4294967296" "uint (a - s :: u32) = k" "a = s + of_int k"
proof (rule that [of "uint (a - s)"])
  show "uint (a - s) < 4294967296"
    using uint_bounded [of "a - s"] by simp
qed simp_all

lemma in_region_iff [region_simps]: "x \<in> region a n \<longleftrightarrow> unat (x - a) < n"
  by (simp add: region_def)

lemma region_0 [simp]: "region a 0 = {}"
  by (simp add: region_def)

lemma region_base [simp]: "a \<in> region a n \<longleftrightarrow> 0 < n"
  by (simp add: region_def)

lemma in_region_offset [region_simps]:
  "i < 4294967296 \<Longrightarrow> a + of_nat i \<in> region a n \<longleftrightarrow> i < n"
  by (simp add: region_def)

lemma region_Suc: "Suc n \<le> 4294967296 \<Longrightarrow> region a (Suc n) = insert (a + of_nat n) (region a n)"
proof -
  assume n: "Suc n \<le> 4294967296"
  have "x \<in> region a (Suc n) \<longleftrightarrow> x = a + of_nat n \<or> x \<in> region a n" for x
  proof -
    have "unat (x - a) = n \<longleftrightarrow> x - a = of_nat n"
      using n by (simp add: word_unat_eq_iff)
    also have "\<dots> \<longleftrightarrow> x = a + of_nat n"
      by (auto simp: algebra_simps)
    finally show ?thesis by (auto simp: region_def less_Suc_eq)
  qed
  then show ?thesis by auto
qed

lemma region_obtain:
  assumes "x \<in> region a n"
  obtains i where "i < n" "i < 4294967296" "x = a + of_nat i"
proof -
  have "unat (x - a) < 4294967296"
    using unsigned_less [of "x - a"] by simp
  then show ?thesis
    using that [of "unat (x - a)"] assms by (simp add: region_def)
qed


lemma region_add:
  "i + j \<le> 4294967296 \<Longrightarrow> region a (i + j) = region a i \<union> region (a + of_nat i) j"
  by (induction j) (simp_all add: region_Suc algebra_simps)

lemma region_mono: "i \<le> j \<Longrightarrow> region a i \<subseteq> region a j"
  by (auto simp: region_def)

lemma region_Suc_base:
  "Suc n \<le> 4294967296 \<Longrightarrow> region a (Suc n) = insert a (region (a + 1) n)"
proof -
  assume "Suc n \<le> 4294967296"
  moreover have "region a (Suc 0) = {a}"
    using region_Suc [of 0 a] by simp
  ultimately show ?thesis
    using region_add [of "Suc 0" n a] by simp
qed

lemma region_4: "region a 4 = {a, a + 1, a + 2, a + 3}"
proof -
  have "region a (Suc (Suc (Suc (Suc 0)))) = {a, a + 1, a + 1 + 1, a + 1 + 1 + 1}"
    by (simp add: region_Suc_base)
  then show ?thesis
    by (simp add: eval_nat_numeral add.assoc del: add_2_eq_Suc')
qed

lemma region_2: "region a 2 = {a, a + 1}"
proof -
  have "region a (Suc (Suc 0)) = {a, a + 1}"
    by (simp add: region_Suc_base)
  then show ?thesis by (simp add: eval_nat_numeral del: add_2_eq_Suc')
qed

lemma region_disjoint:
  assumes "unat a + n \<le> unat b" "unat b + k \<le> 4294967296"
  shows "region a n \<inter> region b k = {}"
proof -
  have False if "x \<in> region a n" "x \<in> region b k" for x
    using that assms unat_lt32 [of x]
    by (auto simp: region_def unat_sub_if' split: if_splits)
  then show ?thesis by auto
qed

text \<open>Two nested counting loops over a table of width \<open>w\<close> are one loop over its cells.\<close>

lemma fold_nested:
  "fold (\<lambda>y. fold (\<lambda>x. g (w * y + x)) [0..<w]) [0..<h] s = fold g [0..<w * h] s"
proof (induction h)
  case (Suc h)
  have "[0..<w * Suc h] = [0..<w * h] @ map (\<lambda>x. w * h + x) [0..<w]"
    using upt_add_eq_append [of 0 "w * h" w] by (simp add: map_add_upt add.commute)
  then show ?case using Suc by (simp add: fold_map comp_def)
qed simp

section \<open>Copying and filling\<close>

lemma copy_spec_0 [simp]: "copy_spec m d s 0 = m"
  by (simp add: copy_spec_def)

lemma fill_spec_0 [simp]: "fill_spec m d c 0 = m"
  by (simp add: fill_spec_def)

lemma fill_spec_outside [simp]: "a \<notin> region d n \<Longrightarrow> fill_spec m d c n a = m a"
  by (simp add: fill_spec_def)

lemma fill_spec_inside [simp]: "a \<in> region d n \<Longrightarrow> fill_spec m d c n a = c"
  by (simp add: fill_spec_def)

lemma copy_spec_outside [simp]: "a \<notin> region d n \<Longrightarrow> copy_spec m d s n a = m a"
  by (simp add: copy_spec_def)

lemma fill_spec_add:
  "i + j \<le> 4294967296 \<Longrightarrow>
     fill_spec (fill_spec m d c i) (d + of_nat i) c j = fill_spec m d c (i + j)"
  by (rule ext) (simp add: fill_spec_def region_add)

lemma copy_spec_add:
  assumes "i + j \<le> 4294967296"
    and "region (s + of_nat i) j \<inter> region d i = {}"
  shows "copy_spec (copy_spec m d s i) (d + of_nat i) (s + of_nat i) j = copy_spec m d s (i + j)"
proof
  fix a
  let ?b = "s + (a - d)"
  have "?b \<in> region (s + of_nat i) j" if "a \<in> region (d + of_nat i) j"
    using that by (simp add: region_def algebra_simps)
  then show "copy_spec (copy_spec m d s i) (d + of_nat i) (s + of_nat i) j a
      = copy_spec m d s (i + j) a"
    using assms by (auto simp: copy_spec_def region_add algebra_simps)
qed

text \<open>A copy that runs upwards reads no byte it has already overwritten.\<close>

definition forward_safe :: "u32 \<Rightarrow> u32 \<Rightarrow> nat \<Rightarrow> bool" where
  "forward_safe d s n \<longleftrightarrow> (\<forall>k<n. s + of_nat k \<notin> region d k)"

lemma forward_safe_disjoint:
  "region s n \<inter> region d n = {} \<Longrightarrow> n \<le> 4294967296 \<Longrightarrow> forward_safe d s n"
  unfolding forward_safe_def
proof (intro allI impI)
  fix k assume "region s n \<inter> region d n = {}" "n \<le> 4294967296" "k < n"
  moreover from this have "s + of_nat k \<in> region s n"
    by (simp add: in_region_offset)
  ultimately show "s + of_nat k \<notin> region d k"
    using region_mono [of k n d] by auto
qed

lemma forward_safe_le:
  assumes "d \<le> s" and "unat s + n \<le> 4294967296"
  shows "forward_safe d s n"
  unfolding forward_safe_def
proof (intro allI impI)
  fix k assume k: "k < n"
  have "unat (s - d + of_nat k) = unat s - unat d + k"
    using assms k by (simp add: unat_word_ariths unat_sub_if' word_le_nat_alt)
  then show "s + of_nat k \<notin> region d k"
    by (simp add: region_def algebra_simps)
qed

lemma forward_safe_split:
  assumes "forward_safe d s (i + j)" and "i + j \<le> 4294967296"
  shows "region (s + of_nat i) j \<inter> region d i = {}"
proof -
  have "s + of_nat i + of_nat k \<notin> region d i" if "k < j" for k
  proof -
    have "s + of_nat (i + k) \<notin> region d (i + k)"
      using assms(1) that unfolding forward_safe_def by (blast intro: add_strict_left_mono)
    then show ?thesis
      using region_mono [of i "i + k" d] by (auto simp: add.assoc)
  qed
  then show ?thesis by (auto elim: region_obtain)
qed

lemma forward_safe_drop:
  assumes "forward_safe d s (i + j)" and "i + j \<le> 4294967296"
  shows "forward_safe (d + of_nat i) (s + of_nat i) j"
proof -
  have "s + of_nat i + of_nat k \<notin> region (d + of_nat i) k" if "k < j" for k
  proof -
    have "s + of_nat (i + k) \<notin> region d (i + k)"
      using assms(1) that unfolding forward_safe_def by (blast intro: add_strict_left_mono)
    then show ?thesis
      using assms(2) that by (simp add: region_add add.assoc)
  qed
  then show ?thesis by (simp add: forward_safe_def)
qed

lemma forward_safe_take: "forward_safe d s (i + j) \<Longrightarrow> forward_safe d s i"
  by (simp add: forward_safe_def)

lemma copy_spec_forward:
  "forward_safe d s (i + j) \<Longrightarrow> i + j \<le> 4294967296 \<Longrightarrow>
     copy_spec (copy_spec m d s i) (d + of_nat i) (s + of_nat i) j = copy_spec m d s (i + j)"
  by (simp add: copy_spec_add forward_safe_split)

lemma copy_spec_1: "copy_spec m d s (Suc 0) = m(d := m s)"
  using region_Suc_base [of 0 d] by (auto simp: copy_spec_def fun_eq_iff)

lemma fill_spec_1: "fill_spec m d c (Suc 0) = m(d := c)"
  using region_Suc_base [of 0 d] by (auto simp: fill_spec_def fun_eq_iff)

section \<open>Little-endian words\<close>

lemma load32_byte0: "(ucast (load32 m a) :: u8) = m a"
  unfolding load32_def by (rule bit_word_eqI) (auto simp: bit_simps)

lemma load32_byte1: "(ucast (drop_bit 8 (load32 m a)) :: u8) = m (a + 1)"
  unfolding load32_def by (rule bit_word_eqI) (auto simp: bit_simps dest: bit_imp_le_length)

lemma load32_byte2: "(ucast (drop_bit 16 (load32 m a)) :: u8) = m (a + 2)"
  unfolding load32_def by (rule bit_word_eqI) (auto simp: bit_simps dest: bit_imp_le_length)

lemma load32_byte3: "(ucast (drop_bit 24 (load32 m a)) :: u8) = m (a + 3)"
  unfolding load32_def by (rule bit_word_eqI) (auto simp: bit_simps dest: bit_imp_le_length)

lemmas load32_bytes = load32_byte0 load32_byte1 load32_byte2 load32_byte3

lemma store32_load32: "store32 m d (load32 m s) = copy_spec m d s 4"
  unfolding store32_def load32_bytes
  by (auto simp: copy_spec_def region_4 fun_eq_iff)

lemma load32_store32 [simp]: "load32 (store32 m a w) a = w"
proof (rule bit_word_eqI)
  fix n assume "n < LENGTH(32)"
  then consider "n < 8" | "8 \<le> n" "n < 16" | "16 \<le> n" "n < 24" | "24 \<le> n" "n < 32"
    by force
  then show "bit (load32 (store32 m a w) a) n = bit w n"
    by cases (auto simp: load32_def store32_def bit_simps)
qed

lemma load32_cong:
  "(\<And>x. x \<in> region a 4 \<Longrightarrow> m x = m' x) \<Longrightarrow> load32 m a = load32 m' a"
  by (simp add: load32_def region_4)

lemma store32_outside [simp]: "x \<notin> region a 4 \<Longrightarrow> store32 m a w x = m x"
  by (auto simp: store32_def region_4)

section \<open>Bytes read from memory\<close>

lemma length_bytes_at [simp]: "length (bytes_at m a n) = n"
  by (simp add: bytes_at_def)

lemma nth_bytes_at [simp]: "i < n \<Longrightarrow> bytes_at m a n ! i = m (a + of_nat i)"
  by (simp add: bytes_at_def)

lemma bytes_at_cong:
  assumes "\<And>x. x \<in> region a n \<Longrightarrow> m x = m' x" and "n \<le> 4294967296"
  shows "bytes_at m a n = bytes_at m' a n"
  using assms by (auto simp: bytes_at_def in_region_offset)

lemma bytes_at_copy_spec:
  "n \<le> 4294967296 \<Longrightarrow> bytes_at (copy_spec m d s n) d n = bytes_at m s n"
  by (auto simp: bytes_at_def copy_spec_def in_region_offset)

lemma bytes_at_0 [simp]: "bytes_at m a 0 = []"
  by (simp add: bytes_at_def)

lemma bytes_at_Suc: "bytes_at m a (Suc n) = m a # bytes_at m (a + 1) n"
  by (rule nth_equalityI) (auto simp: nth_Cons algebra_simps split: nat.splits)

lemma bytes_at_add: "bytes_at m a (i + j) = bytes_at m a i @ bytes_at m (a + of_nat i) j"
  by (rule nth_equalityI) (auto simp: nth_append of_nat_diff)

lemma write_bytes_outside [simp]:
  "x \<notin> region a (length xs) \<Longrightarrow> length xs \<le> 4294967296 \<Longrightarrow> write_bytes m a xs x = m x"
  by (induction xs arbitrary: m a) (auto simp: region_Suc_base)

lemma bytes_at_write_bytes [simp]:
  "length xs \<le> 4294967296 \<Longrightarrow> bytes_at (write_bytes m a xs) a (length xs) = xs"
proof (induction xs arbitrary: m a)
  case (Cons x xs)
  have "unat (a - (a + 1)) = 4294967295"
    by (simp add: unsigned_minus_1_eq_mask mask_eq_exp_minus_1)
  then have "a \<notin> region (a + 1) (length xs)"
    using Cons.prems by (simp add: region_def)
  with Cons show ?case by (simp add: bytes_at_Suc)
qed simp

lemma write_bytes_append:
  "write_bytes m a (xs @ ys) = write_bytes (write_bytes m a xs) (a + of_nat (length xs)) ys"
  by (induction xs arbitrary: m a) (simp_all add: algebra_simps)

lemma field_string_0 [simp]: "field_string m a 0 = []"
  by (simp add: field_string_def)

lemma field_string_Suc:
  "field_string m a (Suc n) = (if m a = 0 then [] else m a # field_string m (a + 1) n)"
  by (simp add: field_string_def bytes_at_Suc)

lemma length_field_string: "length (field_string m a n) \<le> n"
  unfolding field_string_def by (metis length_bytes_at length_takeWhile_le)

lemma field_string_cong:
  "(\<And>x. x \<in> region a n \<Longrightarrow> m x = m' x) \<Longrightarrow> n \<le> 4294967296 \<Longrightarrow>
     field_string m a n = field_string m' a n"
  unfolding field_string_def by (metis bytes_at_cong)

lemma cstr_at_Nil [simp]: "cstr_at m a [] \<longleftrightarrow> m a = 0"
  by (simp add: cstr_at_def)

lemma cstr_at_Cons:
  "cstr_at m a (x # xs) \<longleftrightarrow>
     x \<noteq> 0 \<and> m a = x \<and> cstr_at m (a + 1) xs \<and> Suc (length xs) < 4294967296"
  by (auto simp: cstr_at_def bytes_at_Suc algebra_simps)

lemma cstr_at_unique: "cstr_at m a xs \<Longrightarrow> cstr_at m a ys \<Longrightarrow> xs = ys"
proof (induction xs arbitrary: a ys)
  case Nil then show ?case by (cases ys) (auto simp: cstr_at_Cons)
next
  case (Cons x xs) then show ?case by (cases ys) (auto simp: cstr_at_Cons)
qed

lemma cstr_at_nth:
  "cstr_at m a xs \<Longrightarrow> i < length xs \<Longrightarrow> m (a + of_nat i) = xs ! i \<and> xs ! i \<noteq> 0"
  by (metis cstr_at_def nth_bytes_at nth_mem)

lemma cstr_at_end: "cstr_at m a xs \<Longrightarrow> m (a + of_nat (length xs)) = 0"
  by (simp add: cstr_at_def)

lemma cstr_at_cong:
  assumes "\<And>x. x \<in> region a (Suc (length xs)) \<Longrightarrow> m x = m' x"
  shows "cstr_at m a xs = cstr_at m' a xs"
proof (cases "length xs < 4294967296")
  case True
  then have "bytes_at m a (length xs) = bytes_at m' a (length xs)"
    using assms region_mono [of "length xs" "Suc (length xs)" a] by (intro bytes_at_cong) auto
  moreover from True have "m (a + of_nat (length xs)) = m' (a + of_nat (length xs))"
    by (intro assms) (simp add: in_region_offset)
  ultimately show ?thesis by (simp add: cstr_at_def)
qed (simp add: cstr_at_def)

section \<open>Port and interrupt primitives\<close>

lemma outb_simps [simp]:
  "io (outb v p s) = io s @ [Outb v p]" "ram (outb v p s) = ram s"
  "iflag (outb v p s) = iflag s"
  by (simp_all add: outb_def)

lemma last_out_append:
  "last_out p (xs @ ys) = (case last_out p ys of Some w \<Rightarrow> Some w | None \<Rightarrow> last_out p xs)"
  by (induction p xs rule: last_out.induct) (auto split: option.splits)

lemma spin_until_Some: "spin_until b hs s = Some t \<Longrightarrow> b t"
  by (induction b hs s rule: spin_until.induct) (auto split: if_splits)

text \<open>A wait ends when one of the handlers establishes the condition.\<close>

lemma spin_until_returns:
  "h \<in> set hs \<Longrightarrow> (\<And>s. b (h s)) \<Longrightarrow> \<exists>t. spin_until b hs s = Some t"
proof (induction hs arbitrary: s)
  case (Cons g hs)
  show ?case
  proof (cases "h \<in> set hs")
    case False
    with Cons.prems have "g = h" by simp
    with Cons.prems(2) show ?thesis by (cases hs) auto
  qed (use Cons in auto)
qed simp

lemma cli_sti_simps [simp]:
  "io (cli s) = io s" "ram (cli s) = ram s" "iflag (cli s) = False"
  "io (sti s) = io s" "ram (sti s) = ram s" "iflag (sti s) = True"
  by (simp_all add: cli_def sti_def)

lemma inb_simps [simp]:
  "fst (inb dev p s) = dev (io s) p"
  "io (snd (inb dev p s)) = io s @ [Inb p (dev (io s) p)]"
  "ram (snd (inb dev p s)) = ram s" "iflag (snd (inb dev p s)) = iflag s"
  by (simp_all add: inb_def Let_def)

end
