(* ===== verification/Pic.thy ===== *)
theory Pic
  imports Prelude
begin

text \<open>
  The two cascaded 8259 interrupt controllers, \<open>student-distrib/i8259.c\<close>: the shadow copies of
  the interrupt mask registers and the port writes of \<open>i8259_init\<close>, \<open>enable_irq\<close>,
  \<open>disable_irq\<close> and \<open>send_eoi\<close>. The lemmas show that the shadow masks always equal what was last
  written to the controllers, that the operations act as insertion and removal on the set of
  enabled lines, and what an end-of-interrupt acknowledges.
\<close>

section \<open>State and operations\<close>

record pic_state = machine +
  master_mask :: u8
  slave_mask :: u8

definition i8259_init :: "'a pic_state_scheme \<Rightarrow> 'a pic_state_scheme" where
  "i8259_init s =
     (let s = s\<lparr>master_mask := 0xFB, slave_mask := 0xFF\<rparr>;
          s = outb 0x11 0x20 s; s = outb 0x11 0xA0 s;
          s = outb 0x20 0x21 s; s = outb 0x28 0xA1 s;
          s = outb 0x04 0x21 s; s = outb 0x02 0xA1 s;
          s = outb 0x01 0x21 s; s = outb 0x01 0xA1 s;
          s = outb (master_mask s) 0x21 s; s = outb (slave_mask s) 0xA1 s
      in s)"

text \<open>\<open>1 << irq\<close> on a 32-bit operand; the processor uses the low five bits of the count.\<close>

definition line_bit :: "u32 \<Rightarrow> u8" where
  "line_bit irq = ucast (push_bit (unat irq mod 32) (1 :: u32))"

definition enable_irq :: "u32 \<Rightarrow> 'a pic_state_scheme \<Rightarrow> 'a pic_state_scheme" where
  "enable_irq irq_num s =
     (if irq_num < 8 then
        let v = master_mask s AND NOT (line_bit irq_num)
        in outb v 0x21 (s\<lparr>master_mask := v\<rparr>)
      else
        let v = slave_mask s AND NOT (line_bit (irq_num - 8))
        in outb v 0xA1 (s\<lparr>slave_mask := v\<rparr>))"

definition disable_irq :: "u32 \<Rightarrow> 'a pic_state_scheme \<Rightarrow> 'a pic_state_scheme" where
  "disable_irq irq_num s =
     (if irq_num < 8 then
        let v = master_mask s OR line_bit irq_num
        in outb v 0x21 (s\<lparr>master_mask := v\<rparr>)
      else
        let v = slave_mask s OR line_bit (irq_num - 8)
        in outb v 0xA1 (s\<lparr>slave_mask := v\<rparr>))"

definition send_eoi :: "u32 \<Rightarrow> 'a pic_state_scheme \<Rightarrow> 'a pic_state_scheme" where
  "send_eoi irq_num s =
     (let (irq_num, s) =
        (if irq_num \<ge> 8 then
           let irq_num = irq_num - 8;
               s = outb (0x60 OR ucast irq_num) 0xA0 s;
               s = outb (0x60 OR 2) 0x20 s
           in (irq_num, s)
         else (irq_num, s))
      in outb (0x60 OR ucast irq_num) 0x20 s)"

section \<open>Specification\<close>

text \<open>The lines the controllers let through.\<close>

definition enabled_lines :: "'a pic_state_scheme \<Rightarrow> nat set" where
  "enabled_lines s = {i. i < 8 \<and> \<not> bit (master_mask s) i} \<union> {i. 8 \<le> i \<and> i < 16 \<and> \<not> bit (slave_mask s) (i - 8)}"

text \<open>The shadow masks agree with the mask registers: each is what its data port got last.\<close>

definition pic_synced :: "'a pic_state_scheme \<Rightarrow> bool" where
  "pic_synced s \<longleftrightarrow> last_out 0x21 (io s) = Some (master_mask s) \<and> last_out 0xA1 (io s) = Some (slave_mask s)"

text \<open>
  A specific end-of-interrupt command, \<open>0x60 | n\<close> on a command port, clears bit \<open>n\<close> of that
  controller's in-service register (8259A data sheet, OCW2).
\<close>

fun acked :: "u16 \<Rightarrow> io_event list \<Rightarrow> nat set" where
  "acked p [] = {}"
| "acked p (Outb v q # es) = (if q = p \<and> v AND 0xF8 = 0x60 then {unat (v AND 7)} else {}) \<union> acked p es"
| "acked p (Inb q v # es) = acked p es"

section \<open>Lemmas\<close>

lemma pic_io_simps [simp]:
  "master_mask (outb v p s) = master_mask s" "slave_mask (outb v p s) = slave_mask s"
  "master_mask (cli s) = master_mask s" "slave_mask (cli s) = slave_mask s"
  "master_mask (sti s) = master_mask s" "slave_mask (sti s) = slave_mask s"
  by (simp_all add: outb_def cli_def sti_def)

lemma bit_line_bit: "i < 8 \<Longrightarrow> irq < 32 \<Longrightarrow> bit (line_bit irq) i \<longleftrightarrow> i = unat irq"
  by (auto simp: line_bit_def bit_simps word_less_nat_alt)

lemma outb_other_port_synced:
  "p \<noteq> 0x21 \<Longrightarrow> p \<noteq> 0xA1 \<Longrightarrow> pic_synced (outb v p s) = pic_synced s"
  by (simp add: pic_synced_def last_out_append)

lemma i8259_init_synced: "pic_synced (i8259_init s)"
  by (simp add: pic_synced_def i8259_init_def Let_def last_out_append)

lemma enable_irq_synced: "pic_synced s \<Longrightarrow> pic_synced (enable_irq irq s)"
  by (simp add: pic_synced_def enable_irq_def Let_def last_out_append)

lemma disable_irq_synced: "pic_synced s \<Longrightarrow> pic_synced (disable_irq irq s)"
  by (simp add: pic_synced_def disable_irq_def Let_def last_out_append)

lemma send_eoi_synced: "pic_synced s \<Longrightarrow> pic_synced (send_eoi irq s)"
  by (simp add: pic_synced_def send_eoi_def Let_def last_out_append)

lemma enabled_i8259_init: "enabled_lines (i8259_init s) = {2}"
proof -
  have "\<forall>i\<in>set [0..<8]. bit (0xFB :: u8) i \<longleftrightarrow> i \<noteq> 2" "\<forall>i\<in>set [0..<8]. bit (0xFF :: u8) i"
    by code_simp+
  then show ?thesis
    by (auto simp: enabled_lines_def i8259_init_def Let_def)
qed

lemma line_cases:
  fixes irq :: u32
  assumes "irq < 16"
  obtains "irq < 8" "unat irq < 8" | "\<not> irq < 8" "8 \<le> unat irq" "unat irq < 16" "irq - 8 < 32" "unat (irq - 8) = unat irq - 8"
proof (cases "irq < 8")
  case True
  then show ?thesis using that(1) by (simp add: word_less_nat_alt)
next
  case False
  then have "unat (irq - 8) = unat irq - 8"
    by (simp add: unat_sub word_le_nat_alt linorder_not_less)
  with False assms show ?thesis using that(2) by (simp add: word_less_nat_alt)
qed

lemma enabled_enable_irq:
  assumes "irq < 16"
  shows "enabled_lines (enable_irq irq s) = insert (unat irq) (enabled_lines s)"
  using assms
proof (cases irq rule: line_cases)
  case 1
  then have "irq < 32" by (simp add: word_less_nat_alt)
  with 1 show ?thesis
    by (auto simp: enabled_lines_def enable_irq_def Let_def bit_simps bit_line_bit)
next
  case 2
  then show ?thesis
    by (auto simp: enabled_lines_def enable_irq_def Let_def bit_simps bit_line_bit)
qed

lemma enabled_disable_irq:
  assumes "irq < 16"
  shows "enabled_lines (disable_irq irq s) = enabled_lines s - {unat irq}"
  using assms
proof (cases irq rule: line_cases)
  case 1
  then have "irq < 32" by (simp add: word_less_nat_alt)
  with 1 show ?thesis
    by (auto simp: enabled_lines_def disable_irq_def Let_def bit_simps bit_line_bit)
next
  case 2
  then show ?thesis
    by (auto simp: enabled_lines_def disable_irq_def Let_def bit_simps bit_line_bit)
qed


text \<open>The events an operation appends to the log.\<close>

lemma acked_append: "acked p (xs @ ys) = acked p xs \<union> acked p ys"
  by (induction p xs rule: acked.induct) auto

lemma eoi_byte:
  assumes "n < 8"
  shows "(0x60 OR ucast n :: u8) AND 0xF8 = 0x60" "unat ((0x60 OR ucast (n :: u32) :: u8) AND 7) = unat n"
proof -
  have "\<forall>k\<in>set [0..<8]. (0x60 OR ucast (of_nat k :: u32) :: u8) AND 0xF8 = 0x60
      \<and> unat ((0x60 OR ucast (of_nat k :: u32) :: u8) AND 7) = k"
    by code_simp
  moreover have "unat n \<in> set [0..<8]" using assms by (simp add: word_less_nat_alt)
  ultimately have "(0x60 OR ucast (of_nat (unat n) :: u32) :: u8) AND 0xF8 = 0x60
      \<and> unat ((0x60 OR ucast (of_nat (unat n) :: u32) :: u8) AND 7) = unat n"
    by blast
  then show "(0x60 OR ucast n :: u8) AND 0xF8 = 0x60" "unat ((0x60 OR ucast n :: u8) AND 7) = unat n"
    by simp_all
qed

section \<open>Properties\<close>

text \<open>
  Initialisation writes both interrupt mask registers, and every later operation of the
  controller code keeps the shadow masks equal to the bytes last written to the two data ports.
\<close>

theorem pic_shadow_masks:
  "pic_synced (i8259_init s)
   \<and> (pic_synced t \<longrightarrow> pic_synced (enable_irq irq t) \<and> pic_synced (disable_irq irq t) \<and> pic_synced (send_eoi irq t))"
  by (simp add: i8259_init_synced enable_irq_synced disable_irq_synced send_eoi_synced)

theorem pic_shadow_masks_witness:
  "pic_synced (send_eoi 8 (i8259_init \<lparr>ram = \<lambda>_. 0, io = [], iflag = False, master_mask = 0, slave_mask = 0\<rparr>))"
  using pic_shadow_masks [of _ "i8259_init \<lparr>ram = \<lambda>_. 0, io = [], iflag = False, master_mask = 0, slave_mask = 0\<rparr>" 8]
  by blast

text \<open>
  C37: the controller code refines a set of enabled lines: initialisation leaves only the cascade
  line 2 enabled, \<open>enable_irq\<close> adds its line and \<open>disable_irq\<close> removes it, and neither touches
  any of the other fifteen lines.
\<close>

theorem pic_refines_line_set:
  assumes "irq < 16"
  shows "enabled_lines (i8259_init s) = {2}
    \<and> enabled_lines (enable_irq irq s) = insert (unat irq) (enabled_lines s)
    \<and> enabled_lines (disable_irq irq s) = enabled_lines s - {unat irq}"
  using assms by (simp add: enabled_i8259_init enabled_enable_irq enabled_disable_irq)

theorem pic_refines_line_set_witness:
  "enabled_lines (enable_irq 8 (i8259_init \<lparr>ram = \<lambda>_. 0, io = [], iflag = False, master_mask = 0, slave_mask = 0\<rparr>)) = {2, 8}"
  using pic_refines_line_set [of 8 "\<lparr>ram = \<lambda>_. 0, io = [], iflag = False, master_mask = 0, slave_mask = 0\<rparr>"]
    pic_refines_line_set [of 8 "i8259_init \<lparr>ram = \<lambda>_. 0, io = [], iflag = False, master_mask = 0, slave_mask = 0\<rparr>"]
  by (simp add: insert_commute)

text \<open>
  What \<open>send_eoi\<close> acknowledges. For a master line it acknowledges exactly that line. For a
  slave line it acknowledges the line on the slave and the cascade line 2 on the master, but it
  falls through to the last \<open>outb\<close> and acknowledges the master line with the number reduced by
  eight as well: for the RTC (line 8) that is line 0, the timer.
\<close>

theorem send_eoi_acknowledges:
  assumes "irq < 16" and "io s = []"
  shows "acked 0x20 (io (send_eoi irq s)) = (if irq < 8 then {unat irq} else {2, unat irq - 8})
    \<and> acked 0xA0 (io (send_eoi irq s)) = (if irq < 8 then {} else {unat irq - 8})"
  using assms(1)
proof (cases irq rule: line_cases)
  case 1
  then have "\<not> 8 \<le> irq" by simp
  with 1 assms show ?thesis by (simp add: send_eoi_def eoi_byte)
next
  case 2
  then have "irq - 8 < 8" by (simp add: word_less_nat_alt)
  moreover from 2 have "8 \<le> irq" by (simp add: linorder_not_less)
  moreover note 2 assms
  ultimately show ?thesis
    by (auto simp: send_eoi_def Let_def eoi_byte)
qed

theorem send_eoi_acknowledges_witness:
  "acked 0x20 (io (send_eoi 8 \<lparr>ram = \<lambda>_. 0, io = [], iflag = False, master_mask = 0, slave_mask = 0\<rparr>)) = {2, 0}"
  using send_eoi_acknowledges [of 8 "\<lparr>ram = \<lambda>_. 0, io = [], iflag = False, master_mask = 0, slave_mask = 0\<rparr>"]
  by simp

end
