(* ===== verification/Rtc.thy ===== *)
theory Rtc
  imports Pic
begin

text \<open>
  The real-time clock driver, \<open>student-distrib/rtc.c\<close>: initialisation, the interrupt handler, and
  the open, close, read and write operations of the RTC file with the wrappers the system call
  table uses. The CMOS chip is a parameter (\<open>dev\<close>). The results are about the rate the driver
  programs, about the registers it must leave alone and about when a blocking read returns.
\<close>

section \<open>State and operations\<close>

record rtc_state = pic_state +
  RTC_ctr :: u32
  RTC_flag :: int

definition CMOS_ADDR :: u16 where "CMOS_ADDR = 0x70"
definition CMOS_DATA :: u16 where "CMOS_DATA = 0x71"
definition DISABLE_NMI :: u8 where "DISABLE_NMI = 0x80"
definition STATUS_REG_A :: u8 where "STATUS_REG_A = 0x0A"
definition STATUS_REG_B :: u8 where "STATUS_REG_B = 0x0B"
definition STATUS_REG_C :: u8 where "STATUS_REG_C = 0x0C"
definition RATE_MASK :: u8 where "RATE_MASK = 0xF0"

lemmas rtc_consts = CMOS_ADDR_def CMOS_DATA_def DISABLE_NMI_def STATUS_REG_A_def STATUS_REG_B_def
  STATUS_REG_C_def RATE_MASK_def

text \<open>
  The sequence that \<open>rtc_init\<close>, \<open>rtc_open\<close> and \<open>rtc_write\<close> share: select register A, read it,
  select it again, write it back with a new rate in the low bits.
\<close>

definition set_rate :: "device \<Rightarrow> u8 \<Rightarrow> 'a rtc_state_scheme \<Rightarrow> 'a rtc_state_scheme" where
  "set_rate dev freq s =
     (let s = outb (DISABLE_NMI OR STATUS_REG_A) CMOS_ADDR s;
          (prev_A, s) = inb dev CMOS_DATA s;
          s = outb (DISABLE_NMI OR STATUS_REG_A) CMOS_ADDR s
      in outb ((prev_A AND RATE_MASK) OR freq) CMOS_DATA s)"

definition rtc_init :: "device \<Rightarrow> 'a rtc_state_scheme \<Rightarrow> 'a rtc_state_scheme" where
  "rtc_init dev s =
     (let s = enable_irq 8 s;
          s = set_rate dev 0x0F s;
          s = outb (DISABLE_NMI OR STATUS_REG_B) CMOS_ADDR s;
          (prev_B, s) = inb dev CMOS_DATA s;
          s = outb (DISABLE_NMI OR STATUS_REG_B) CMOS_ADDR s;
          s = outb (prev_B OR 0x40) CMOS_DATA s
      in s\<lparr>RTC_flag := 0\<rparr>)"

definition rtc_int_handler :: "device \<Rightarrow> 'a rtc_state_scheme \<Rightarrow> 'a rtc_state_scheme" where
  "rtc_int_handler dev s =
     (let s = cli s;
          s = s\<lparr>RTC_ctr := RTC_ctr s + 1\<rparr>;
          s = s\<lparr>RTC_flag := 1\<rparr>;
          s = outb STATUS_REG_C CMOS_ADDR s;
          (_, s) = inb dev CMOS_DATA s;
          s = send_eoi 8 s
      in sti s)"

definition rtc_open :: "device \<Rightarrow> 'a rtc_state_scheme \<Rightarrow> int \<times> 'a rtc_state_scheme" where
  "rtc_open dev s = (0, set_rate dev 0x0F s)"

definition rtc_close :: "'a rtc_state_scheme \<Rightarrow> int \<times> 'a rtc_state_scheme" where
  "rtc_close s = (0, s)"

text \<open>\<open>hs\<close>: the interrupt handlers that run while the read polls \<open>RTC_flag\<close>.\<close>

definition rtc_read ::
  "('a rtc_state_scheme \<Rightarrow> 'a rtc_state_scheme) list \<Rightarrow> 'a rtc_state_scheme \<Rightarrow> (int \<times> 'a rtc_state_scheme) option" where
  "rtc_read hs s = map_option (\<lambda>s. (0, s\<lparr>RTC_flag := 0\<rparr>)) (spin_until (\<lambda>s. RTC_flag s \<noteq> 0) hs s)"

definition convert_freq :: "u32 \<Rightarrow> u32" where
  "convert_freq freq =
     (if freq = 2 then 0x0F else if freq = 4 then 0x0E else if freq = 8 then 0x0D
      else if freq = 16 then 0x0C else if freq = 32 then 0x0B else if freq = 64 then 0x0A
      else if freq = 128 then 0x02 else if freq = 256 then 0x01 else if freq = 512 then 0x07
      else if freq = 1024 then 0x06 else -1)"

text \<open>The frequency is read through the pointer \<open>buf\<close> in \<open>mem\<close>, the memory the caller sees.\<close>

definition rtc_write :: "device \<Rightarrow> memory \<Rightarrow> u32 \<Rightarrow> int \<Rightarrow> 'a rtc_state_scheme \<Rightarrow> int \<times> 'a rtc_state_scheme" where
  "rtc_write dev mem buf nbytes s =
     (let s = cli s in
      if buf = 0 \<or> nbytes \<noteq> 4 then (-1, sti s)
      else
        let freq = convert_freq (load32 mem buf) in
        if freq = -1 then (-1, sti s)
        else (nbytes, sti (set_rate dev (ucast freq) s)))"

text \<open>The entries of the RTC file's jump table; they drop the inode and the offset.\<close>

definition rtc_read_wrapper where
  "rtc_read_wrapper hs (inode :: u32) (offset :: u32) (buf :: u32) (count :: u32) s = rtc_read hs s"

definition rtc_write_wrapper where
  "rtc_write_wrapper dev mem (inode :: u32) (offset :: u32) (buf :: u32) (count :: u32) s =
     rtc_write dev mem buf (sint count) s"

definition rtc_open_wrapper where
  "rtc_open_wrapper dev (inode :: u32) (offset :: u32) (buf :: u32) (count :: u32) s = rtc_open dev s"

definition rtc_close_wrapper where
  "rtc_close_wrapper (inode :: u32) (offset :: u32) (buf :: u32) (count :: u32) s = rtc_close s"

section \<open>Specification\<close>

text \<open>
  The periodic rate of the MC146818 with a 32.768 kHz time base, by the four rate bits of
  register A (data sheet): rates 1 and 2 give 256 Hz and 128 Hz, a rate \<open>r\<close> from 3 to 15 gives
  \<open>32768 >> (r - 1)\<close>, rate 0 switches the interrupt off.
\<close>

definition rate_hz :: "nat \<Rightarrow> nat" where
  "rate_hz r = (if r = 0 then 0 else if r = 1 then 256 else if r = 2 then 128 else 32768 div 2 ^ (r - 1))"

text \<open>
  The CMOS register file: a write to the address port selects a register (bit 7 masks NMI), a
  write to the data port stores into it. A device behaves like the chip when the data port
  delivers the selected register.
\<close>

fun cmos_run :: "u8 \<times> (u8 \<Rightarrow> u8) \<Rightarrow> io_event list \<Rightarrow> u8 \<times> (u8 \<Rightarrow> u8)" where
  "cmos_run c [] = c"
| "cmos_run (i, r) (Outb v p # es) =
     (if p = 0x70 then cmos_run (v AND 0x7F, r) es
      else if p = 0x71 then cmos_run (i, r(i := v)) es else cmos_run (i, r) es)"
| "cmos_run c (Inb p v # es) = cmos_run c es"

definition cmos_chip :: "(u8 \<Rightarrow> u8) \<Rightarrow> device" where
  "cmos_chip r0 log p = (let (i, r) = cmos_run (0, r0) log in if p = 0x71 then r i else 0)"

definition cmos_reg :: "(u8 \<Rightarrow> u8) \<Rightarrow> io_event list \<Rightarrow> u8 \<Rightarrow> u8" where
  "cmos_reg r0 log = snd (cmos_run (0, r0) log)"


section \<open>Lemmas\<close>

lemma rtc_io_simps [simp]:
  "RTC_ctr (outb v p s) = RTC_ctr s" "RTC_flag (outb v p s) = RTC_flag s"
  "RTC_ctr (cli s) = RTC_ctr s" "RTC_flag (cli s) = RTC_flag s"
  "RTC_ctr (sti s) = RTC_ctr s" "RTC_flag (sti s) = RTC_flag s"
  "RTC_ctr (send_eoi i s) = RTC_ctr s" "RTC_flag (send_eoi i s) = RTC_flag s"
  by (simp_all add: outb_def cli_def sti_def send_eoi_def Let_def)

lemma rtc_inb_simps [simp]:
  "RTC_ctr (snd (inb dev p s)) = RTC_ctr s" "RTC_flag (snd (inb dev p s)) = RTC_flag s"
  "master_mask (snd (inb dev p s)) = master_mask s" "slave_mask (snd (inb dev p s)) = slave_mask s"
  by (simp_all add: inb_def Let_def)

lemma cmos_run_append: "cmos_run c (xs @ ys) = cmos_run (cmos_run c xs) ys"
  by (induction c xs rule: cmos_run.induct) auto

lemma set_rate_frame [simp]:
  "ram (set_rate dev f s) = ram s" "iflag (set_rate dev f s) = iflag s"
  "RTC_flag (set_rate dev f s) = RTC_flag s" "RTC_ctr (set_rate dev f s) = RTC_ctr s"
  by (simp_all add: set_rate_def Let_def case_prod_beta)

lemma cmos_run_outb:
  "cmos_run c (Outb v p # es) =
     (if p = 0x70 then cmos_run (v AND 0x7F, snd c) es
      else if p = 0x71 then cmos_run (fst c, (snd c)(fst c := v)) es else cmos_run c es)"
  by (cases c) simp

lemmas cmos_simps = cmos_reg_def cmos_run_append cmos_run_outb Let_def case_prod_beta rtc_consts

lemma enable_irq_cmos [simp]: "cmos_reg r0 (io (enable_irq i s)) = cmos_reg r0 (io s)"
  by (simp add: enable_irq_def cmos_simps)

lemma set_rate_cmos:
  assumes chip: "\<And>log. dev log CMOS_DATA = cmos_chip r0 log CMOS_DATA"
  shows "cmos_reg r0 (io (set_rate dev f s)) =
    (cmos_reg r0 (io s))(STATUS_REG_A := (cmos_reg r0 (io s) STATUS_REG_A AND RATE_MASK) OR f)"
  using chip by (simp add: set_rate_def cmos_chip_def cmos_simps)

lemma convert_freq_cases:
  obtains "f = 2" | "f = 4" | "f = 8" | "f = 16" | "f = 32" | "f = 64" | "f = 128" | "f = 256"
    | "f = 512" | "f = 1024" | "convert_freq f = -1" "f \<notin> {2, 4, 8, 16, 32, 64, 128, 256, 512, 1024}"
  using that unfolding convert_freq_def by (auto split: if_splits)

lemma convert_freq_rate:
  "convert_freq f = -1 \<and> f \<notin> {2, 4, 8, 16, 32, 64, 128, 256, 512, 1024}
   \<or> convert_freq f \<noteq> -1 \<and> f \<in> {2, 4, 8, 16, 32, 64, 128, 256, 512, 1024}
       \<and> unat (convert_freq f) < 16 \<and> rate_hz (unat (convert_freq f)) = unat f"
  by (cases f rule: convert_freq_cases) (simp_all add: convert_freq_def rate_hz_def)

text \<open>The rate bits and the other bits of register A are separate.\<close>

lemma rate_bits:
  fixes a :: u8 and r :: u32
  assumes "unat r < 16"
  shows "((a AND 0xF0) OR ucast r) AND 0x0F = ucast r" "((a AND 0xF0) OR ucast r) AND 0xF0 = a AND 0xF0"
    "unat (ucast r :: u8) = unat r"
proof -
  have r: "ucast r = (ucast r :: u8) AND 0x0F" "(ucast r :: u8) AND 0xF0 = 0" "unat (ucast r :: u8) = unat r"
  proof -
    have "\<forall>k\<in>set [0..<16]. ucast (of_nat k :: u32) = (ucast (of_nat k :: u32) :: u8) AND 0x0F
        \<and> (ucast (of_nat k :: u32) :: u8) AND 0xF0 = 0 \<and> unat (ucast (of_nat k :: u32) :: u8) = k"
      by code_simp
    moreover have "unat r \<in> set [0..<16]" using assms by simp
    ultimately have "ucast (of_nat (unat r) :: u32) = (ucast (of_nat (unat r) :: u32) :: u8) AND 0x0F
        \<and> (ucast (of_nat (unat r) :: u32) :: u8) AND 0xF0 = 0 \<and> unat (ucast (of_nat (unat r) :: u32) :: u8) = unat r"
      by blast
    then show "ucast r = (ucast r :: u8) AND 0x0F" "(ucast r :: u8) AND 0xF0 = 0" "unat (ucast r :: u8) = unat r"
      by simp_all
  qed
  have "(a AND 0xF0) AND 0x0F = 0" by (simp add: and.assoc)
  with r show "((a AND 0xF0) OR ucast r) AND 0x0F = ucast r"
    by (simp add: bit.conj_disj_distrib2)
  show "((a AND 0xF0) OR ucast r) AND 0xF0 = a AND 0xF0"
    using r by (simp add: bit.conj_disj_distrib2 and.assoc)
  show "unat (ucast r :: u8) = unat r" by (rule r)
qed

lemma rtc_int_handler_flag [simp]: "RTC_flag (rtc_int_handler dev s) = 1"
  by (simp add: rtc_int_handler_def Let_def case_prod_beta)

section \<open>Properties\<close>

text \<open>
  \<open>convert_freq\<close> accepts exactly the powers of two from 2 Hz to 1024 Hz, and the rate it
  returns makes the chip run at the requested frequency.
\<close>

theorem convert_freq_programs_frequency:
  "(convert_freq f \<noteq> -1 \<longleftrightarrow> (\<exists>k. 1 \<le> k \<and> k \<le> 10 \<and> unat f = 2 ^ k))
   \<and> (convert_freq f = -1 \<or> rate_hz (unat (convert_freq f)) = unat f)"
proof -
  have "(\<exists>k. 1 \<le> k \<and> k \<le> 10 \<and> unat f = 2 ^ k) \<longleftrightarrow> unat f \<in> (\<lambda>k. 2 ^ k) ` set [1..<11]"
    by auto
  also have "\<dots> \<longleftrightarrow> unat f \<in> {2, 4, 8, 16, 32, 64, 128, 256, 512, 1024}"
    by (simp add: upt_rec)
  also have "\<dots> \<longleftrightarrow> f \<in> {2, 4, 8, 16, 32, 64, 128, 256, 512, 1024}"
    by (simp add: word_unat_eq_iff)
  finally show ?thesis using convert_freq_rate [of f] by blast
qed

text \<open>
  A write of four bytes holding a supported frequency returns 4 and, on a chip that
  behaves as documented, leaves register A with the rate of that frequency and its other four
  bits, and every other CMOS register, as they were. Any other call returns -1 and touches no
  port. Interrupts are enabled on return and memory is unchanged in both cases.
\<close>

theorem rtc_write_rate:
  assumes chip: "\<And>log. dev log CMOS_DATA = cmos_chip r0 log CMOS_DATA"
    and res: "rtc_write dev mem buf nbytes s = (ret, t)"
  shows "iflag t \<and> ram t = ram s
    \<and> (if buf \<noteq> 0 \<and> nbytes = 4 \<and> load32 mem buf \<in> {2, 4, 8, 16, 32, 64, 128, 256, 512, 1024}
       then ret = 4
         \<and> rate_hz (unat (cmos_reg r0 (io t) STATUS_REG_A AND 0x0F)) = unat (load32 mem buf)
         \<and> cmos_reg r0 (io t) STATUS_REG_A AND 0xF0 = cmos_reg r0 (io s) STATUS_REG_A AND 0xF0
         \<and> (\<forall>i. i \<noteq> STATUS_REG_A \<longrightarrow> cmos_reg r0 (io t) i = cmos_reg r0 (io s) i)
       else ret = -1 \<and> io t = io s)"
proof -
  let ?f = "load32 mem buf"
  show ?thesis
  proof (cases "buf \<noteq> 0 \<and> nbytes = 4 \<and> ?f \<in> {2, 4, 8, 16, 32, 64, 128, 256, 512, 1024}")
    case True
    then have f: "convert_freq ?f \<noteq> -1" "unat (convert_freq ?f) < 16" "rate_hz (unat (convert_freq ?f)) = unat ?f"
      using convert_freq_rate [of ?f] by blast+
    with True res have t: "ret = 4" "t = sti (set_rate dev (ucast (convert_freq ?f)) (cli s))"
      by (auto simp: rtc_write_def Let_def)
    then show ?thesis
      using f True by (simp add: set_rate_cmos [of dev r0, OF chip] RATE_MASK_def rate_bits)
  next
    case False
    then have "buf = 0 \<or> nbytes \<noteq> 4 \<or> convert_freq ?f = -1"
      using convert_freq_rate [of ?f] by blast
    with res have "ret = -1" "t = sti (cli s)"
      by (auto simp: rtc_write_def Let_def split: if_splits)
    with False show ?thesis by auto
  qed
qed

definition rtc_boot :: rtc_state where
  "rtc_boot = \<lparr>ram = (\<lambda>_. 0)(0x1000 := 32), io = [], iflag = True, master_mask = 0xFB, slave_mask = 0xFF,
     RTC_ctr = 0, RTC_flag = 0\<rparr>"

theorem rtc_write_rate_witness:
  "rate_hz (unat (cmos_reg (\<lambda>_. 0x26) (io (snd (rtc_write (cmos_chip (\<lambda>_. 0x26)) (ram rtc_boot) 0x1000 4 rtc_boot))) STATUS_REG_A AND 0x0F)) = 32"
proof -
  have "load32 (ram rtc_boot) 0x1000 = 32"
    by (simp add: load32_def rtc_boot_def)
  then show ?thesis
    using rtc_write_rate [where dev = "cmos_chip (\<lambda>_. 0x26)" and ?r0.0 = "\<lambda>_. 0x26" and mem = "ram rtc_boot" and buf = "0x1000"
        and nbytes = 4 and s = rtc_boot, OF refl surjective_pairing]
    by simp
qed

text \<open>
  C38: a blocking read returns 0 with the flag cleared as soon as an RTC interrupt is among the
  interrupts that arrive while it polls, it never returns while the flag is clear, and it
  returns at once when an earlier interrupt has left the flag set: it does not always block until the
  next interrupt, as the comment above \<open>rtc_read\<close> says.
\<close>

theorem rtc_read_waits_for_interrupt:
  "(rtc_int_handler dev \<in> set hs \<longrightarrow> (\<exists>t. rtc_read hs s = Some (0, t) \<and> RTC_flag t = 0))
   \<and> ((\<forall>h\<in>set hs. \<forall>u. RTC_flag (h u) = RTC_flag u) \<and> RTC_flag s = 0 \<longrightarrow> rtc_read hs s = None)
   \<and> (RTC_flag s \<noteq> 0 \<longrightarrow> rtc_read hs s = Some (0, s\<lparr>RTC_flag := 0\<rparr>))"
proof (intro conjI impI)
  assume "rtc_int_handler dev \<in> set hs"
  then obtain t where "spin_until (\<lambda>s. RTC_flag s \<noteq> 0) hs s = Some t"
    using spin_until_returns [of "rtc_int_handler dev" hs "\<lambda>s. RTC_flag s \<noteq> 0" s] by auto
  then show "\<exists>t. rtc_read hs s = Some (0, t) \<and> RTC_flag t = 0"
    by (simp add: rtc_read_def)
next
  assume "(\<forall>h\<in>set hs. \<forall>u. RTC_flag (h u) = RTC_flag u) \<and> RTC_flag s = 0"
  then have "spin_until (\<lambda>s. RTC_flag s \<noteq> 0) hs s = None"
    by (induction hs arbitrary: s) auto
  then show "rtc_read hs s = None" by (simp add: rtc_read_def)
next
  assume "RTC_flag s \<noteq> 0"
  then show "rtc_read hs s = Some (0, s\<lparr>RTC_flag := 0\<rparr>)"
    by (cases hs) (simp_all add: rtc_read_def)
qed

theorem rtc_read_waits_for_interrupt_witness:
  "\<exists>t. rtc_read [rtc_int_handler (\<lambda>_ _. 0)] rtc_boot = Some (0, t) \<and> RTC_flag t = 0"
  using rtc_read_waits_for_interrupt [of "\<lambda>_ _. 0" "[rtc_int_handler (\<lambda>_ _. 0)]" rtc_boot] by simp

end
