(* ===== verification/Lib_String.thy ===== *)
theory Lib_String
  imports Prelude
begin

text \<open>
  The string routines of \<open>student-distrib/lib.c\<close> (\<open>strlen\<close>, \<open>strrev\<close>, \<open>strncmp\<close>, \<open>strcpy\<close>,
  \<open>strncpy\<close>, \<open>itoa\<close>) over a byte memory and start addresses. A loop that runs until it meets a
  NUL has no bound of its own, so it is a partial function into \<open>option\<close> and each result about
  it first shows that it returns on a terminated string. An access outside \<open>itoa\<close>'s digit
  table and a division by zero are \<open>None\<close> as well.
\<close>

section \<open>Definitions\<close>

partial_function (option) strlen_loop :: "memory \<Rightarrow> u32 \<Rightarrow> u32 \<Rightarrow> u32 option" where
  "strlen_loop m s len = (if m (s + len) \<noteq> 0 then strlen_loop m s (len + 1) else Some len)"

definition strlen :: "memory \<Rightarrow> u32 \<Rightarrow> u32 option" where
  "strlen m s = strlen_loop m s 0"

text \<open>\<open>beg\<close> and \<open>end\<close> are C \<open>int32_t\<close> indices; \<open>end\<close> starts at -1 for the empty string.\<close>

function strrev_loop :: "memory \<Rightarrow> u32 \<Rightarrow> int \<Rightarrow> int \<Rightarrow> memory" where
  "strrev_loop m s beg en =
     (if beg < en
      then let tmp = m (s + of_int en) in
        strrev_loop (m(s + of_int en := m (s + of_int beg), s + of_int beg := tmp)) s (beg + 1) (en - 1)
      else m)"
  by pat_completeness auto
termination
  by (relation "measure (\<lambda>(m, s, beg, en). nat (en - beg))") auto

definition strrev :: "memory \<Rightarrow> u32 \<Rightarrow> memory option" where
  "strrev m s = do { n \<leftarrow> strlen m s; Some (strrev_loop m s 0 (sint (n - 1))) }"

text \<open>
  \<open>strncmp\<close> compares \<open>char\<close>s, which are signed here. Its strings may live in different objects,
  hence one memory for each.
\<close>

function strncmp_loop :: "memory \<Rightarrow> u32 \<Rightarrow> memory \<Rightarrow> u32 \<Rightarrow> nat \<Rightarrow> nat \<Rightarrow> int" where
  "strncmp_loop m1 s1 m2 s2 n i =
     (if i < n then
        if m1 (s1 + of_nat i) \<noteq> m2 (s2 + of_nat i) \<or> m1 (s1 + of_nat i) = 0
        then sint (m1 (s1 + of_nat i)) - sint (m2 (s2 + of_nat i))
        else strncmp_loop m1 s1 m2 s2 n (Suc i)
      else 0)"
  by pat_completeness auto
termination
  by (relation "measure (\<lambda>(m1, s1, m2, s2, n, i). n - i)") auto

definition strncmp :: "memory \<Rightarrow> u32 \<Rightarrow> memory \<Rightarrow> u32 \<Rightarrow> u32 \<Rightarrow> int" where
  "strncmp m1 s1 m2 s2 n = strncmp_loop m1 s1 m2 s2 (unat n) 0"

partial_function (option) strcpy_loop :: "memory \<Rightarrow> u32 \<Rightarrow> u32 \<Rightarrow> u32 \<Rightarrow> memory option" where
  "strcpy_loop m dest src i =
     (if m (src + i) \<noteq> 0
      then strcpy_loop (m(dest + i := m (src + i))) dest src (i + 1)
      else Some (m(dest + i := 0)))"

definition strcpy :: "memory \<Rightarrow> u32 \<Rightarrow> u32 \<Rightarrow> memory option" where
  "strcpy m dest src = strcpy_loop m dest src 0"

function strncpy_pad :: "memory \<Rightarrow> u32 \<Rightarrow> nat \<Rightarrow> nat \<Rightarrow> memory" where
  "strncpy_pad m dest n i =
     (if i < n then strncpy_pad (m(dest + of_nat i := 0)) dest n (Suc i) else m)"
  by pat_completeness auto
termination
  by (relation "measure (\<lambda>(m, dest, n, i). n - i)") auto

function strncpy_loop :: "memory \<Rightarrow> u32 \<Rightarrow> u32 \<Rightarrow> nat \<Rightarrow> nat \<Rightarrow> memory" where
  "strncpy_loop m dest src n i =
     (if m (src + of_nat i) \<noteq> 0 \<and> i < n
      then strncpy_loop (m(dest + of_nat i := m (src + of_nat i))) dest src n (Suc i)
      else strncpy_pad m dest n i)"
  by pat_completeness auto
termination
  by (relation "measure (\<lambda>(m, dest, src, n, i). n - i)") auto

definition strncpy :: "memory \<Rightarrow> u32 \<Rightarrow> u32 \<Rightarrow> u32 \<Rightarrow> memory" where
  "strncpy m dest src n = strncpy_loop m dest src (unat n) 0"

text \<open>The digit table of \<open>itoa\<close>, with its terminating NUL.\<close>

definition itoa_lookup :: "u8 list" where
  "itoa_lookup = map of_nat ([48..<58] @ [65..<91]) @ [0]"

partial_function (option) itoa_loop :: "memory \<Rightarrow> u32 \<Rightarrow> u32 \<Rightarrow> u32 \<Rightarrow> (memory \<times> u32) option" where
  "itoa_loop m newbuf newval radix =
     (if newval > 0
      then if radix = 0 then None
        else let i = unat (newval mod radix) in
          if i < length itoa_lookup
          then itoa_loop (m(newbuf := itoa_lookup ! i)) (newbuf + 1) (newval div radix) radix
          else None
      else Some (m, newbuf))"

definition itoa :: "u32 \<Rightarrow> memory \<Rightarrow> u32 \<Rightarrow> u32 \<Rightarrow> memory option" where
  "itoa v m buf radix =
     (if v = 0 then Some (m(buf := 48, buf + 1 := 0))
      else do {
        (m', newbuf) \<leftarrow> itoa_loop m buf v radix;
        strrev (m'(newbuf := 0)) buf })"

declare strrev_loop.simps [simp del] strncmp_loop.simps [simp del]
  strncpy_pad.simps [simp del] strncpy_loop.simps [simp del]

text \<open>The reference for \<open>itoa\<close>: the digits of a number, least significant first and printed.\<close>

function digits_rev :: "nat \<Rightarrow> nat \<Rightarrow> nat list" where
  "digits_rev b n = (if b < 2 \<or> n = 0 then [] else n mod b # digits_rev b (n div b))"
  by pat_completeness auto
termination
  by (relation "measure (\<lambda>(b, n). n)") auto

declare digits_rev.simps [simp del]

definition digits :: "nat \<Rightarrow> nat \<Rightarrow> nat list" where
  "digits b n = (if n = 0 then [0] else rev (digits_rev b n))"

definition digit_char :: "nat \<Rightarrow> u8" where
  "digit_char d = (if d < 10 then of_nat (48 + d) else of_nat (55 + d))"

definition char_digit :: "u8 \<Rightarrow> nat" where
  "char_digit c = (if c < 58 then unat c - 48 else unat c - 55)"

definition number_of :: "nat \<Rightarrow> u8 list \<Rightarrow> nat" where
  "number_of b cs = foldl (\<lambda>v c. v * b + char_digit c) 0 cs"

section \<open>The contract of a bounded comparison\<close>

lemma field_string_cstr: "cstr_at m a zs \<Longrightarrow> field_string m a k = take k zs"
proof (induction k arbitrary: a zs)
  case (Suc k)
  then show ?case by (cases zs) (auto simp: field_string_Suc cstr_at_Cons)
qed simp

locale string_compare =
  fixes cmp :: "memory \<Rightarrow> u32 \<Rightarrow> memory \<Rightarrow> u32 \<Rightarrow> u32 \<Rightarrow> int"
  assumes cmp_zero:
    "cmp m1 s1 m2 s2 n = 0 \<longleftrightarrow> field_string m1 s1 (unat n) = field_string m2 s2 (unat n)"
begin

lemma cmp_sym: "cmp m1 s1 m2 s2 n = 0 \<longleftrightarrow> cmp m2 s2 m1 s1 n = 0"
  by (auto simp: cmp_zero)

lemma cmp_trans: "cmp m1 s1 m2 s2 n = 0 \<Longrightarrow> cmp m2 s2 m3 s3 n = 0 \<Longrightarrow> cmp m1 s1 m3 s3 n = 0"
  by (simp add: cmp_zero)

text \<open>On terminated strings a zero result says that the first \<open>n\<close> characters agree.\<close>

lemma cmp_cstr:
  assumes "cstr_at m1 s1 xs" "cstr_at m2 s2 ys"
  shows "cmp m1 s1 m2 s2 n = 0 \<longleftrightarrow> take (unat n) xs = take (unat n) ys"
  using assms by (simp add: cmp_zero field_string_cstr)

text \<open>
  A linear search for a name stops at the first entry whose name field equals it; a directory
  lookup is such a search.
\<close>

lemma search_first:
  assumes "find (\<lambda>i. cmp m1 s1 m2 (f i) n = 0) [0..<k] = Some i"
  shows "field_string m2 (f i) (unat n) = field_string m1 s1 (unat n)
    \<and> i < k \<and> (\<forall>j<i. field_string m2 (f j) (unat n) \<noteq> field_string m1 s1 (unat n))"
  using assms by (fastforce simp: find_Some_iff cmp_zero)

lemma search_none:
  "find (\<lambda>i. cmp m1 s1 m2 (f i) n = 0) [0..<k] = None \<longleftrightarrow>
     (\<forall>i<k. field_string m2 (f i) (unat n) \<noteq> field_string m1 s1 (unat n))"
  by (auto simp: find_None_iff cmp_zero)

end

section \<open>strlen\<close>

lemma strlen_loop_cstr:
  assumes "cstr_at m s xs" "i \<le> length xs"
  shows "strlen_loop m s (of_nat i) = Some (of_nat (length xs))"
  using assms(2)
proof (induction "length xs - i" arbitrary: i)
  case 0
  then show ?case
    using cstr_at_end [OF assms(1)] by (simp add: strlen_loop.simps)
next
  case (Suc k)
  then have "strlen_loop m s (of_nat (Suc i)) = Some (of_nat (length xs))"
    by (intro Suc.hyps(1)) auto
  moreover have "m (s + of_nat i) \<noteq> 0"
    using Suc.hyps(2) cstr_at_nth [OF assms(1), of i] by auto
  ultimately show ?case
    by (simp add: strlen_loop.simps [of m s "of_nat i"] add.commute)
qed

lemma strlen_cstr: "cstr_at m s xs \<Longrightarrow> strlen m s = Some (of_nat (length xs))"
  using strlen_loop_cstr [of m s xs 0] by (simp add: strlen_def)

section \<open>strncmp\<close>

lemma strncmp_loop_zero:
  "i \<le> n \<Longrightarrow> strncmp_loop m1 s1 m2 s2 n i = 0 \<longleftrightarrow>
     field_string m1 (s1 + of_nat i) (n - i) = field_string m2 (s2 + of_nat i) (n - i)"
proof (induction "n - i" arbitrary: i)
  case 0
  then show ?case by (simp add: strncmp_loop.simps)
next
  case (Suc k)
  let ?a = "m1 (s1 + of_nat i)" and ?b = "m2 (s2 + of_nat i)"
  from Suc.hyps(2) have i: "i < n" and k: "n - i = Suc k" "n - Suc i = k" by auto
  have IH: "strncmp_loop m1 s1 m2 s2 n (Suc i) = 0 \<longleftrightarrow>
      field_string m1 (s1 + of_nat i + 1) k = field_string m2 (s2 + of_nat i + 1) k"
    using Suc.hyps(1) [of "Suc i"] i k by (simp add: algebra_simps)
  have "sint ?a - sint ?b = 0 \<longleftrightarrow> ?a = ?b"
    using signed_word_eqI by fastforce
  then show ?case
    using i IH by (auto simp: strncmp_loop.simps [of m1 s1 m2 s2 n i] field_string_Suc k)
qed

interpretation strncmp: string_compare strncmp
  using strncmp_loop_zero [of 0] by unfold_locales (simp add: strncmp_def)


lemma strncmp_loop_first_difference:
  "strncmp_loop m1 s1 m2 s2 n i = d \<Longrightarrow> d \<noteq> 0 \<Longrightarrow>
     \<exists>k. i \<le> k \<and> k < n \<and> (\<forall>j. i \<le> j \<and> j < k \<longrightarrow> m1 (s1 + of_nat j) = m2 (s2 + of_nat j) \<and> m1 (s1 + of_nat j) \<noteq> 0)
       \<and> d = sint (m1 (s1 + of_nat k)) - sint (m2 (s2 + of_nat k))"
proof (induction "n - i" arbitrary: i)
  case 0
  then show ?case by (simp add: strncmp_loop.simps)
next
  case (Suc k)
  then have i: "i < n" by simp
  show ?case
  proof (cases "m1 (s1 + of_nat i) \<noteq> m2 (s2 + of_nat i) \<or> m1 (s1 + of_nat i) = 0")
    case True
    with i Suc.prems show ?thesis
      by (intro exI [of _ i]) (auto simp: strncmp_loop.simps [of m1 s1 m2 s2 n i])
  next
    case False
    with i Suc.prems have d: "strncmp_loop m1 s1 m2 s2 n (Suc i) = d"
      by (simp add: strncmp_loop.simps [of m1 s1 m2 s2 n i])
    have k: "k = n - Suc i" using Suc.hyps(2) by simp
    obtain k' where k': "Suc i \<le> k'" "k' < n"
        "\<forall>j. Suc i \<le> j \<and> j < k' \<longrightarrow> m1 (s1 + of_nat j) = m2 (s2 + of_nat j) \<and> m1 (s1 + of_nat j) \<noteq> 0"
        "d = sint (m1 (s1 + of_nat k')) - sint (m2 (s2 + of_nat k'))"
      using Suc.hyps(1) [OF k d Suc.prems(2)] by (elim exE conjE)
    have "m1 (s1 + of_nat j) = m2 (s2 + of_nat j) \<and> m1 (s1 + of_nat j) \<noteq> 0" if "i \<le> j" "j < k'" for j
    proof -
      from that(1) consider "i = j" | "Suc i \<le> j" by linarith
      then show ?thesis using False k'(3) that(2) by cases auto
    qed
    moreover have "i \<le> k'" using k'(1) by simp
    ultimately show ?thesis using k'(2,4) by blast
  qed
qed

section \<open>strrev\<close>

lemma strrev_loop_spec:
  "0 \<le> b \<Longrightarrow> e < 4294967296 \<Longrightarrow> strrev_loop m s b e =
     (\<lambda>a. if b \<le> uint (a - s) \<and> uint (a - s) \<le> e then m (s + of_int (b + e - uint (a - s))) else m a)"
proof (induction "nat (e - b)" arbitrary: m b e rule: less_induct)
  case less
  show ?case
  proof (cases "b < e")
    case False
    show ?thesis
    proof
      fix a
      obtain k where k: "uint (a - s) = k" "a = s + of_int k"
        by (rule offset_int)
      have "m (s + of_int (b + e - k)) = m a" if "b \<le> k" "k \<le> e"
      proof -
        from that False have "b + e - k = k" by simp
        then show ?thesis by (simp only: k(2))
      qed
      with False show "strrev_loop m s b e a = (if b \<le> uint (a - s) \<and> uint (a - s) \<le> e
          then m (s + of_int (b + e - uint (a - s))) else m a)"
        unfolding k(1) by (simp add: strrev_loop.simps [of m s b e] del: of_int_diff of_int_add)
    qed
  next
    case True
    let ?m = "m(s + of_int e := m (s + of_int b), s + of_int b := m (s + of_int e))"
    have IH: "strrev_loop ?m s (b + 1) (e - 1) = (\<lambda>a. if b + 1 \<le> uint (a - s) \<and> uint (a - s) \<le> e - 1
        then ?m (s + of_int (b + 1 + (e - 1) - uint (a - s))) else ?m a)"
      using True less.prems by (intro less.hyps) auto
    show ?thesis
    proof
      fix a
      obtain k where k: "0 \<le> k" "k < 4294967296" "uint (a - s) = k" "a = s + of_int k"
        by (rule offset_int)
      have "strrev_loop m s b e a = (if b + 1 \<le> k \<and> k \<le> e - 1 then ?m (s + of_int (b + e - k)) else ?m a)"
        using True IH k by (simp add: strrev_loop.simps [of m s b e] Let_def fun_upd_def)
      also have "\<dots> = (if b \<le> k \<and> k \<le> e then m (s + of_int (b + e - k)) else m a)"
        using True less.prems k(1,2) by (auto simp: k(4) of_int32_inj simp del: of_int_diff of_int_add)
      finally show "strrev_loop m s b e a = (if b \<le> uint (a - s) \<and> uint (a - s) \<le> e
          then m (s + of_int (b + e - uint (a - s))) else m a)"
        by (simp add: k(3))
    qed
  qed
qed

lemma strrev_cstr:
  assumes xs: "cstr_at m s xs" and len: "length xs < 2147483648"
  shows "\<exists>m'. strrev m s = Some m' \<and> cstr_at m' s (rev xs) \<and> (\<forall>a. a \<notin> region s (length xs) \<longrightarrow> m' a = m a)"
proof -
  let ?n = "length xs"
  define m' where "m' = strrev_loop m s 0 (int ?n - 1)"
  have "sint (of_int (int ?n - 1) :: u32) = int ?n - 1"
    unfolding signed_of_int using len by (simp add: signed_take_bit_int_eq_self)
  then have "strrev m s = Some m'"
    using strlen_cstr [OF xs] by (simp add: strrev_def m'_def)
  moreover have "0 \<notin> set (rev xs)"
    using xs by (simp add: cstr_at_def)
  moreover have spec: "m' a = (if uint (a - s) < int ?n then m (s + of_int (int ?n - 1 - uint (a - s))) else m a)" for a
    using len by (simp add: m'_def strrev_loop_spec)
  moreover have "bytes_at m' s ?n = rev xs"
  proof (rule nth_equalityI)
    fix i assume "i < length (bytes_at m' s ?n)"
    then have i: "i < ?n" by simp
    have "uint (of_nat i :: u32) = int i"
      using i len by (simp add: uint_nat)
    then have "m' (s + of_nat i) = m (s + of_nat (?n - Suc i))"
      using i by (simp add: spec of_nat_diff algebra_simps)
    then show "bytes_at m' s ?n ! i = rev xs ! i"
      using i cstr_at_nth [OF xs, of "?n - Suc i"] by (simp add: rev_nth)
  qed simp
  moreover have "m' (s + of_nat ?n) = 0"
    using len cstr_at_end [OF xs] by (simp add: spec uint_nat)
  moreover have "m' a = m a" if "a \<notin> region s ?n" for a
  proof -
    have "\<not> uint (a - s) < int ?n"
      using that unfolding in_region_iff uint_nat by linarith
    then show ?thesis by (simp only: spec if_False)
  qed
  ultimately show ?thesis
    using xs len by (intro exI [of _ m']) (simp add: cstr_at_def)
qed


section \<open>strcpy and strncpy\<close>

lemma strcpy_loop_cstr:
  assumes "cstr_at m (src + of_nat i) xs" "i + length xs < 4294967296"
    and "region src (Suc (i + length xs)) \<inter> region dest (Suc (i + length xs)) = {}"
  shows "strcpy_loop m dest src (of_nat i) = Some (write_bytes m (dest + of_nat i) (xs @ [0]))"
  using assms
proof (induction xs arbitrary: m i)
  case Nil
  then show ?case by (simp add: strcpy_loop.simps [of m dest src "of_nat i"] fun_upd_def)
next
  case (Cons x xs)
  let ?m = "m(dest + of_nat i := x)"
  have x: "m (src + of_nat i) = x" "x \<noteq> 0" and tl: "cstr_at m (src + of_nat (Suc i)) xs"
    using Cons.prems(1) by (auto simp: cstr_at_Cons algebra_simps)
  have "?m y = m y" if "y \<in> region (src + of_nat (Suc i)) (Suc (length xs))" for y
  proof -
    have "y \<in> region src (Suc (i + length (x # xs)))"
      using that region_add [of "Suc i" "Suc (length xs)" src] Cons.prems(2) by simp
    moreover have "dest + of_nat i \<in> region dest (Suc (i + length (x # xs)))"
      using Cons.prems(2) by (simp add: in_region_offset)
    ultimately show ?thesis using Cons.prems(3) by (auto simp: disjoint_iff)
  qed
  then have "cstr_at ?m (src + of_nat (Suc i)) xs"
    using tl cstr_at_cong [of "src + of_nat (Suc i)" xs ?m m] by simp
  then have "strcpy_loop ?m dest src (of_nat (Suc i)) = Some (write_bytes ?m (dest + of_nat (Suc i)) (xs @ [0]))"
    using Cons.prems by (intro Cons.IH) (simp_all add: fun_upd_def)
  then show ?case
    using x by (simp add: strcpy_loop.simps [of m dest src "of_nat i"] algebra_simps)
qed

lemma strcpy_cstr:
  assumes "cstr_at m src xs" and "region src (Suc (length xs)) \<inter> region dest (Suc (length xs)) = {}"
  shows "strcpy m dest src = Some (write_bytes m dest (xs @ [0]))"
  using strcpy_loop_cstr [of m src 0 xs dest] assms by (simp add: strcpy_def cstr_at_def)


section \<open>itoa\<close>

text \<open>
  What a caller of \<open>itoa\<close> relies on: for a radix the digit table covers, the buffer holds the
  terminated numeral of the value and nothing behind it is written.
\<close>

locale int_to_ascii =
  fixes conv :: "u32 \<Rightarrow> memory \<Rightarrow> u32 \<Rightarrow> u32 \<Rightarrow> memory option"
  assumes conv_numeral:
    "\<lbrakk>2 \<le> unat radix; unat radix \<le> 36\<rbrakk> \<Longrightarrow>
       \<exists>m'. conv v m buf radix = Some m'
         \<and> cstr_at m' buf (map digit_char (digits (unat radix) (unat v)))
         \<and> (\<forall>a. a \<notin> region buf (Suc (length (digits (unat radix) (unat v)))) \<longrightarrow> m' a = m a)"

lemma itoa_lookup_digit: "d < 36 \<Longrightarrow> itoa_lookup ! d = digit_char d"
proof -
  have "\<forall>d\<in>set [0..<36]. itoa_lookup ! d = digit_char d"
    by code_simp
  then show "d < 36 \<Longrightarrow> itoa_lookup ! d = digit_char d" by simp
qed

lemma digit_char_roundtrip: "d < 36 \<Longrightarrow> char_digit (digit_char d) = d \<and> digit_char d \<noteq> 0"
proof -
  have "\<forall>d\<in>set [0..<36]. char_digit (digit_char d) = d \<and> digit_char d \<noteq> 0"
    by code_simp
  then show "d < 36 \<Longrightarrow> char_digit (digit_char d) = d \<and> digit_char d \<noteq> 0" by simp
qed

lemma digits_rev_less: "2 \<le> b \<Longrightarrow> d \<in> set (digits_rev b n) \<Longrightarrow> d < b"
proof (induction b n rule: digits_rev.induct)
  case (1 b n)
  then show ?case by (auto simp: digits_rev.simps [of b n] split: if_splits)
qed

lemma digits_less: "2 \<le> b \<Longrightarrow> d \<in> set (digits b n) \<Longrightarrow> d < b"
  by (auto simp: digits_def digits_rev_less split: if_splits)

lemma digits_rev_power:
  "2 \<le> b \<Longrightarrow> 0 < n \<Longrightarrow> b ^ (length (digits_rev b n) - 1) \<le> n \<and> digits_rev b n \<noteq> []"
proof (induction b n rule: digits_rev.induct)
  case (1 b n)
  show ?case
  proof (cases "n div b = 0")
    case True
    with 1 show ?thesis by (simp add: digits_rev.simps [of b n] digits_rev.simps [of b 0])
  next
    case False
    with 1 have IH: "b ^ (length (digits_rev b (n div b)) - 1) \<le> n div b" "digits_rev b (n div b) \<noteq> []"
      by auto
    then have "b * b ^ (length (digits_rev b (n div b)) - 1) \<le> n"
      by (meson le_trans mult_le_mono2 times_div_less_eq_dividend)
    with 1 IH(2) show ?thesis
      by (cases "digits_rev b (n div b)") (auto simp: digits_rev.simps [of b n])
  qed
qed

lemma foldr_digits_rev: "2 \<le> b \<Longrightarrow> foldr (\<lambda>d v. v * b + d) (digits_rev b n) 0 = n"
proof (induction b n rule: digits_rev.induct)
  case (1 b n)
  then show ?case by (simp add: digits_rev.simps [of b n])
qed

lemma number_of_digits:
  assumes "2 \<le> b" "b \<le> 36"
  shows "number_of b (map digit_char (digits b n)) = n"
proof -
  have "foldl (\<lambda>v c. v * b + char_digit c) a (map digit_char ds) = foldl (\<lambda>v d. v * b + d) a ds"
    if "\<forall>d\<in>set ds. d < 36" for a ds
    using that by (induction ds arbitrary: a) (simp_all add: digit_char_roundtrip)
  moreover have "\<forall>d\<in>set (digits b n). d < 36"
    using assms digits_less by fastforce
  moreover have "foldl (\<lambda>v d. v * b + d) 0 (digits b n) = n"
    using assms(1) by (simp add: digits_def foldl_conv_foldr foldr_digits_rev)
  ultimately show ?thesis by (simp add: number_of_def)
qed

lemma digits_length:
  assumes "2 \<le> b" "n < b ^ k" "0 < k"
  shows "length (digits b n) \<le> k"
proof (cases "n = 0")
  case False
  have "b ^ (length (digits_rev b n) - 1) < b ^ k"
    using digits_rev_power [of b n] assms False by linarith
  then have "length (digits_rev b n) - 1 < k"
    using assms(1) by (simp add: power_strict_increasing_iff)
  with False show ?thesis by (simp add: digits_def)
qed (use assms in \<open>simp add: digits_def\<close>)

lemma digits_nonempty: "2 \<le> b \<Longrightarrow> digits b n \<noteq> []"
  by (simp add: digits_def digits_rev.simps [of b n])

lemma digits_hd: "2 \<le> b \<Longrightarrow> n \<noteq> 0 \<Longrightarrow> hd (digits b n) \<noteq> 0"
proof -
  have "last (digits_rev b n) \<noteq> 0" if "2 \<le> b" "n \<noteq> 0"
    using that
  proof (induction b n rule: digits_rev.induct)
    case (1 b n)
    have ne: "n div b \<noteq> 0 \<Longrightarrow> digits_rev b (n div b) \<noteq> []" using 1(2) by (simp add: digits_rev.simps [of b "n div b"])
    show ?case
    proof (cases "n div b = 0")
      case True
      then have "n < b" using 1(2) by (simp add: div_eq_0_iff)
      with 1(2,3) show ?thesis by (simp add: digits_rev.simps [of b n] digits_rev.simps [of b 0])
    next
      case False
      with 1 ne show ?thesis by (simp add: digits_rev.simps [of b n])
    qed
  qed
  then show "2 \<le> b \<Longrightarrow> n \<noteq> 0 \<Longrightarrow> hd (digits b n) \<noteq> 0" by (simp add: digits_def hd_rev)
qed

context int_to_ascii
begin

text \<open>
  Reading the printed numeral back gives the value, so distinct values print differently; the
  numeral has a digit and no leading zero, which leaves no other numeral of the value.
\<close>

lemma conv_canonical:
  assumes "2 \<le> unat radix" "unat radix \<le> 36"
  shows "\<exists>m' cs. conv v m buf radix = Some m' \<and> cstr_at m' buf cs \<and> number_of (unat radix) cs = unat v
    \<and> cs \<noteq> [] \<and> set cs \<subseteq> digit_char ` {..<unat radix} \<and> (hd cs \<noteq> 48 \<or> v = 0 \<and> cs = [48])
    \<and> (\<forall>a. a \<notin> region buf (Suc (length cs)) \<longrightarrow> m' a = m a)"
proof -
  let ?ds = "digits (unat radix) (unat v)"
  let ?cs = "map digit_char ?ds"
  obtain m' where m': "conv v m buf radix = Some m'" "cstr_at m' buf ?cs" "\<forall>a. a \<notin> region buf (Suc (length ?cs)) \<longrightarrow> m' a = m a"
    using conv_numeral [OF assms, of v m buf] by auto
  have "set ?cs \<subseteq> digit_char ` {..<unat radix}" using digits_less [OF assms(1)] by auto
  moreover have "hd ?cs \<noteq> 48 \<or> v = 0 \<and> ?cs = [48]"
  proof (cases "v = 0")
    case False
    then have "unat v \<noteq> 0" by (simp add: unsigned_eq_0_iff)
    then have "hd ?ds \<noteq> 0" by (rule digits_hd [OF assms(1)])
    moreover have "hd ?ds < 36" using digits_less [OF assms(1), of "hd ?ds" "unat v"] digits_nonempty [OF assms(1)] assms(2) by fastforce
    ultimately have "digit_char (hd ?ds) \<noteq> 48" using digit_char_roundtrip [of "hd ?ds"] by (auto simp: char_digit_def)
    then show ?thesis by (simp add: hd_map digits_nonempty [OF assms(1)])
  qed (simp add: digits_def digit_char_def)
  ultimately show ?thesis using m' number_of_digits [OF assms] digits_nonempty [OF assms(1)] by (intro exI [of _ m'] exI [of _ ?cs]) auto
qed

lemma conv_inj:
  assumes "2 \<le> unat radix" "unat radix \<le> 36"
    and "conv v m buf radix = Some m1" "conv w m buf radix = Some m2"
    and "cstr_at m1 buf cs" "cstr_at m2 buf cs"
  shows "v = w"
proof -
  have "cs = map digit_char (digits (unat radix) (unat v))"
    using conv_numeral [OF assms(1,2), of v m buf] assms(3,5) by (auto dest: cstr_at_unique)
  moreover have "cs = map digit_char (digits (unat radix) (unat w))"
    using conv_numeral [OF assms(1,2), of w m buf] assms(4,6) by (auto dest: cstr_at_unique)
  ultimately have "unat v = unat w"
    by (metis assms(1,2) number_of_digits)
  then show ?thesis by (simp add: word_unat_eq_iff)
qed

text \<open>Decimal numerals need at most ten characters and hexadecimal ones at most eight.\<close>

lemma conv_length:
  assumes "radix = 10 \<and> k = 10 \<or> radix = 16 \<and> k = 8"
  shows "\<exists>m' cs. conv v m buf radix = Some m' \<and> cstr_at m' buf cs \<and> length cs \<le> k"
proof -
  have r: "2 \<le> unat radix" "unat radix \<le> 36" "0 < k" using assms by auto
  have "4294967296 \<le> unat radix ^ k" using assms by auto
  then have "unat v < unat radix ^ k" using unat_lt32 [of v] by linarith
  then have "length (digits (unat radix) (unat v)) \<le> k"
    using r by (intro digits_length) auto
  then show ?thesis using conv_numeral [OF r(1,2), of v m buf] by force
qed

end

lemma itoa_loop_digits:
  assumes r: "2 \<le> unat radix" "unat radix \<le> 36"
  shows "itoa_loop m newbuf v radix =
    Some (write_bytes m newbuf (map digit_char (digits_rev (unat radix) (unat v))),
          newbuf + of_nat (length (digits_rev (unat radix) (unat v))))"
proof (induction "unat v" arbitrary: m newbuf v rule: less_induct)
  case less
  show ?case
  proof (cases "v = 0")
    case True
    then show ?thesis by (simp add: itoa_loop.simps digits_rev.simps)
  next
    case False
    have "radix \<noteq> 0" using r by auto
    have mod: "unat (v mod radix) = unat v mod unat radix" and dv: "unat (v div radix) = unat v div unat radix"
      by (simp_all add: unat_mod_distrib unat_div_distrib)
    have "unat v mod unat radix < unat radix" using r by simp
    then have d: "unat v mod unat radix < 36" using r by linarith
    then have i: "unat (v mod radix) < length itoa_lookup"
      by (simp add: mod itoa_lookup_def)
    have "unat (v div radix) < unat v"
      using False r by (simp add: dv unat_gt_0)
    note IH = less [OF this, of "m(newbuf := digit_char (unat v mod unat radix))" "newbuf + 1"]
    have "itoa_loop m newbuf v radix =
        itoa_loop (m(newbuf := digit_char (unat v mod unat radix))) (newbuf + 1) (v div radix) radix"
      using False i \<open>radix \<noteq> 0\<close> d
      by (simp add: itoa_loop.simps [of m newbuf v radix] Let_def mod itoa_lookup_digit word_gt_0 fun_upd_def)
    also have "\<dots> = Some (write_bytes m newbuf (map digit_char (digits_rev (unat radix) (unat v))),
          newbuf + of_nat (length (digits_rev (unat radix) (unat v))))"
      unfolding IH using False r
      by (simp add: digits_rev.simps [of "unat radix" "unat v"] dv unsigned_eq_0_iff algebra_simps)
    finally show ?thesis .
  qed
qed


lemma digits_rev_length: "2 \<le> b \<Longrightarrow> n < 4294967296 \<Longrightarrow> length (digits_rev b n) \<le> 32"
proof (cases "n = 0")
  case False
  assume b: "2 \<le> b" and n: "n < 4294967296"
  have "(4294967296::nat) = 2 ^ 32" by simp
  also have "\<dots> \<le> b ^ 32" using b by (rule power_mono) simp
  finally have "n < b ^ 32" using n by simp
  then show ?thesis using digits_length [of b n 32] b False by (simp add: digits_def)
qed (simp add: digits_rev.simps)

lemma itoa_numeral:
  assumes r: "2 \<le> unat radix" "unat radix \<le> 36"
  shows "\<exists>m'. itoa v m buf radix = Some m'
    \<and> cstr_at m' buf (map digit_char (digits (unat radix) (unat v)))
    \<and> (\<forall>a. a \<notin> region buf (Suc (length (digits (unat radix) (unat v)))) \<longrightarrow> m' a = m a)"
proof (cases "v = 0")
  case True
  then show ?thesis
    using region_Suc_base [of 0 buf] region_Suc_base [of 1 buf] region_Suc_base [of 0 "buf + 1"]
    by (simp add: itoa_def digits_def cstr_at_Cons digit_char_def)
next
  case False
  let ?b = "unat radix"
  let ?ds = "map digit_char (digits_rev ?b (unat v))"
  let ?n = "length ?ds"
  define m1 where "m1 = write_bytes m buf ?ds"
  define m2 where "m2 = m1(buf + of_nat ?n := 0)"
  have n: "?n \<le> 32" using digits_rev_length [OF r(1) unat_lt32] by simp
  have nz: "0 \<notin> set ?ds"
  proof
    assume "0 \<in> set ?ds"
    then obtain d where "d \<in> set (digits_rev ?b (unat v))" "digit_char d = 0" by auto
    then show False using digits_rev_less [OF r(1)] r(2) digit_char_roundtrip [of d] by fastforce
  qed
  have "bytes_at m2 buf ?n = bytes_at m1 buf ?n"
    using n by (intro bytes_at_cong) (auto simp: m2_def in_region_offset)
  also have "\<dots> = ?ds" using n unfolding m1_def by (intro bytes_at_write_bytes) simp
  finally have cstr: "cstr_at m2 buf ?ds"
    using n nz by (simp add: cstr_at_def m2_def)
  obtain m' where m': "strrev m2 buf = Some m'" "cstr_at m' buf (rev ?ds)"
      "\<forall>a. a \<notin> region buf ?n \<longrightarrow> m' a = m2 a"
    using strrev_cstr [OF cstr] n by auto
  have "itoa v m buf radix = Some m'"
    using False m'(1) by (simp add: itoa_def itoa_loop_digits [OF r] m1_def m2_def fun_upd_def)
  moreover have "rev ?ds = map digit_char (digits ?b (unat v))"
    using False by (simp add: digits_def rev_map unsigned_eq_0_iff)
  moreover have "m' a = m a" if "a \<notin> region buf (Suc ?n)" for a
    using that m'(3) n by (simp add: region_Suc m2_def m1_def)
  ultimately show ?thesis
    using m'(2) False by (intro exI [of _ m']) (simp add: digits_def unsigned_eq_0_iff)
qed

interpretation itoa: int_to_ascii itoa
  by unfold_locales (rule itoa_numeral)

section \<open>Properties\<close>

text \<open>
  On a terminated string \<open>strlen\<close> returns, with the number of its characters, and
  \<open>strrev\<close> returns with the string reversed in place and nothing behind it touched.
\<close>

theorem strlen_strrev_correct:
  assumes "cstr_at m s xs" and "length xs < 2147483648"
  shows "strlen m s = Some (of_nat (length xs))
    \<and> (\<exists>m'. strrev m s = Some m' \<and> cstr_at m' s (rev xs) \<and> (\<forall>a. a \<notin> region s (length xs) \<longrightarrow> m' a = m a))"
  using assms by (simp add: strlen_cstr strrev_cstr)

theorem strlen_strrev_correct_witness:
  "\<exists>m'. strrev ((\<lambda>_. 0)(8 := 97, 9 := 98, 10 := 99)) 8 = Some m' \<and> cstr_at m' 8 [99, 98, 97]"
  using strlen_strrev_correct [of "(\<lambda>_. 0)(8 := 97, 9 := 98, 10 := 99)" 8 "[97, 98, 99]"]
  by (auto simp: cstr_at_Cons)

text \<open>
  \<open>strncmp\<close> returns 0 exactly when the two strings agree up to the first NUL or the first
  \<open>n\<close> characters, and otherwise the difference of the first pair of characters that differ.
\<close>

theorem strncmp_compares:
  "if strncmp m1 s1 m2 s2 n = 0
   then field_string m1 s1 (unat n) = field_string m2 s2 (unat n)
   else \<exists>k<unat n. bytes_at m1 s1 k = bytes_at m2 s2 k
     \<and> strncmp m1 s1 m2 s2 n = sint (m1 (s1 + of_nat k)) - sint (m2 (s2 + of_nat k))"
proof (cases "strncmp m1 s1 m2 s2 n = 0")
  case False
  then obtain k where k: "k < unat n" "\<forall>j<k. m1 (s1 + of_nat j) = m2 (s2 + of_nat j)"
      "strncmp m1 s1 m2 s2 n = sint (m1 (s1 + of_nat k)) - sint (m2 (s2 + of_nat k))"
    using strncmp_loop_first_difference [of m1 s1 m2 s2 "unat n" 0 "strncmp m1 s1 m2 s2 n"]
    by (auto simp: strncmp_def)
  from k(2) have "bytes_at m1 s1 k = bytes_at m2 s2 k" by (simp add: bytes_at_def)
  with k False show ?thesis by auto
qed (simp add: strncmp.cmp_zero)

text \<open>
  \<open>strcpy\<close> returns when the source is terminated and apart from the destination, and leaves
  at the destination exactly the string with its NUL.
\<close>

theorem strcpy_copies_string:
  assumes "cstr_at m src xs" and "region src (Suc (length xs)) \<inter> region dest (Suc (length xs)) = {}"
  shows "\<exists>m'. strcpy m dest src = Some m' \<and> cstr_at m' dest xs \<and> (\<forall>a. a \<notin> region dest (Suc (length xs)) \<longrightarrow> m' a = m a)"
proof -
  let ?m = "write_bytes m dest (xs @ [0])"
  have len: "Suc (length xs) \<le> 4294967296" and nz: "0 \<notin> set xs" using assms(1) by (auto simp: cstr_at_def)
  then have b: "bytes_at ?m dest (Suc (length xs)) = xs @ [0]"
    using bytes_at_write_bytes [of "xs @ [0]" m dest] by simp
  have "bytes_at ?m dest (length xs) = take (length xs) (bytes_at ?m dest (Suc (length xs)))"
    by (simp add: bytes_at_def take_map)
  then have "bytes_at ?m dest (length xs) = xs" using b by simp
  moreover have "?m (dest + of_nat (length xs)) = (xs @ [0]) ! length xs"
    using nth_bytes_at [of "length xs" "Suc (length xs)" ?m dest] b by simp
  ultimately have "cstr_at ?m dest xs" using len nz by (simp add: cstr_at_def)
  then show ?thesis using strcpy_cstr [OF assms] len by simp
qed

theorem strcpy_copies_string_witness:
  "\<exists>m'. strcpy ((\<lambda>_. 0)(8 := 97, 9 := 98)) 0x40 8 = Some m' \<and> cstr_at m' 0x40 [97, 98]"
proof -
  have "region 8 3 \<inter> region 0x40 3 = {}" by (rule region_disjoint) simp_all
  then show ?thesis
    using strcpy_copies_string [of "(\<lambda>_. 0)(8 := 97, 9 := 98)" 8 "[97, 98]" "0x40"]
    by (auto simp: cstr_at_Cons numeral_3_eq_3)
qed

text \<open>
  C40: for every radix from 2 to 36 \<open>itoa\<close> returns and leaves the terminated numeral of the
  value: at least one character, each a digit of the radix (0 to 9, then A to Z), most significant
  first, no leading zero unless the value is 0, which is printed as the single digit 0; reading
  it back in that radix gives the value. Nothing behind the numeral's NUL is touched.
\<close>

theorem itoa_roundtrip:
  assumes "2 \<le> unat radix" and "unat radix \<le> 36"
  shows "\<exists>m' cs. itoa v m buf radix = Some m' \<and> cstr_at m' buf cs \<and> number_of (unat radix) cs = unat v
    \<and> cs \<noteq> [] \<and> set cs \<subseteq> digit_char ` {..<unat radix} \<and> (hd cs \<noteq> 48 \<or> v = 0 \<and> cs = [48])
    \<and> (\<forall>a. a \<notin> region buf (Suc (length cs)) \<longrightarrow> m' a = m a)"
  using itoa.conv_canonical [OF assms, of v m buf] by blast

theorem itoa_roundtrip_witness:
  "\<exists>m' cs. itoa 391 (\<lambda>_. 0) 0x100 10 = Some m' \<and> cstr_at m' 0x100 cs \<and> number_of 10 cs = 391 \<and> hd cs \<noteq> 48"
  using itoa_roundtrip [of 10 391 "\<lambda>_. 0" "0x100"] by auto

end
