(* ===== verification/Screen.thy ===== *)
theory Screen
  imports Rtc Lib_Memory Lib_String
begin

text \<open>
  The text console of \<open>student-distrib/lib.c\<close>. Three terminals share one text-mode screen: video
  memory at \<open>0xB8000\<close> shows the displayed terminal, and each terminal has a 4 KB buffer behind it
  that holds its text while another terminal is displayed. \<open>putc_scroll\<close> writes for the
  terminal whose process runs, \<open>putc_scroll_display\<close>, \<open>delete_c\<close> and \<open>clear\<close> for the displayed
  one; \<open>putc\<close>, \<open>puts\<close> and \<open>printf\<close> are the older console with one cursor of its own.
\<close>

section \<open>State and operations\<close>

record screen_state = rtc_state +
  screen_x :: int
  screen_y :: int
  screen_x_array :: "nat \<Rightarrow> int"
  screen_y_array :: "nat \<Rightarrow> int"
  display_terminal :: nat
  active_terminal :: nat

definition video_mem :: u32 where "video_mem = 0xB8000"

definition terminal_mem :: "nat \<Rightarrow> u32" where
  "terminal_mem t = video_mem + of_nat (t + 1) * 0x1000"

text \<open>A character cell of a text page: the character, then the attribute byte.\<close>

definition cell_addr :: "u32 \<Rightarrow> int \<Rightarrow> int \<Rightarrow> u32" where
  "cell_addr b x y = b + of_int ((80 * y + x) * 2)"

definition put_cell :: "u32 \<Rightarrow> int \<Rightarrow> int \<Rightarrow> u8 \<Rightarrow> memory \<Rightarrow> memory" where
  "put_cell b x y c m = m(cell_addr b x y := c, cell_addr b x y + 1 := 7)"

definition get_active_terminal :: "'a screen_state_scheme \<Rightarrow> nat" where
  "get_active_terminal s = active_terminal s"

definition get_display_terminal :: "'a screen_state_scheme \<Rightarrow> nat" where
  "get_display_terminal s = display_terminal s"

definition update_cursor :: "int \<Rightarrow> int \<Rightarrow> 'a screen_state_scheme \<Rightarrow> 'a screen_state_scheme" where
  "update_cursor x y s =
     (let pos = (of_int (y * 80 + x) :: u16);
          s = outb 0x0F 0x3D4 s;
          s = outb (ucast (pos AND 0xFF)) 0x3D5 s;
          s = outb 0x0E 0x3D4 s
      in outb (ucast (drop_bit 8 pos AND 0xFF)) 0x3D5 s)"

text \<open>Updates of the cursor arrays.\<close>

definition set_x :: "nat \<Rightarrow> int \<Rightarrow> 'a screen_state_scheme \<Rightarrow> 'a screen_state_scheme" where
  "set_x t v s = s\<lparr>screen_x_array := (screen_x_array s)(t := v)\<rparr>"

definition set_y :: "nat \<Rightarrow> int \<Rightarrow> 'a screen_state_scheme \<Rightarrow> 'a screen_state_scheme" where
  "set_y t v s = s\<lparr>screen_y_array := (screen_y_array s)(t := v)\<rparr>"

definition delete_c :: "'a screen_state_scheme \<Rightarrow> 'a screen_state_scheme" where
  "delete_c s =
     (let d = display_terminal s;
          s = (if screen_x_array s d = 0
               then let s = set_x d 79 s in set_y d (screen_y_array s d - 1) s
               else set_x d (screen_x_array s d - 1) s);
          s = s\<lparr>ram := put_cell video_mem (screen_x_array s d) (screen_y_array s d) 0x20 (ram s)\<rparr>
      in update_cursor (screen_x_array s d) (screen_y_array s d) s)"

definition clear :: "'a screen_state_scheme \<Rightarrow> 'a screen_state_scheme" where
  "clear s =
     (let d = display_terminal s;
          s = set_x d 0 s;
          s = set_y d 0 s;
          s = s\<lparr>ram := fold (\<lambda>i m. m(video_mem + of_nat (2 * i) := 0x20, video_mem + of_nat (2 * i) + 1 := 7))
                   [0..<2000] (ram s)\<rparr>
      in update_cursor (screen_x_array s d) (screen_y_array s d) s)"

text \<open>The two loops with which \<open>shift_up_display\<close> and \<open>shift_up\<close> move a page up by one row.\<close>

definition shift_rows :: "u32 \<Rightarrow> memory \<Rightarrow> memory" where
  "shift_rows b m =
     (let m = fold (\<lambda>y m. fold (\<lambda>x m.
                put_cell b (int x) (int y) (m (cell_addr b (int x) (int y + 1))) m) [0..<80] m) [0..<24] m
      in fold (\<lambda>x m. put_cell b (int x) 24 0x20 m) [0..<80] m)"

definition shift_up_display :: "'a screen_state_scheme \<Rightarrow> 'a screen_state_scheme" where
  "shift_up_display s =
     (let s = s\<lparr>ram := shift_rows video_mem (ram s)\<rparr>;
          s = set_y (display_terminal s) 24 s
      in set_x (display_terminal s) 0 s)"

definition shift_up :: "'a screen_state_scheme \<Rightarrow> 'a screen_state_scheme" where
  "shift_up s =
     (let s = s\<lparr>ram := shift_rows (terminal_mem (active_terminal s)) (ram s)\<rparr>;
          s = set_y (active_terminal s) 24 s
      in set_x (active_terminal s) 0 s)"

lemma screen_set_simps [simp]:
  "ram (set_x t v s) = ram s" "ram (set_y t v s) = ram s" "io (set_x t v s) = io s" "io (set_y t v s) = io s"
  "screen_x_array (set_x t v s) = (screen_x_array s)(t := v)" "screen_y_array (set_x t v s) = screen_y_array s"
  "screen_y_array (set_y t v s) = (screen_y_array s)(t := v)" "screen_x_array (set_y t v s) = screen_x_array s"
  "display_terminal (set_x t v s) = display_terminal s" "display_terminal (set_y t v s) = display_terminal s"
  "active_terminal (set_x t v s) = active_terminal s" "active_terminal (set_y t v s) = active_terminal s"
  by (simp_all add: set_x_def set_y_def)

lemma shift_up_simps [simp]:
  "ram (shift_up_display s) = shift_rows video_mem (ram s)"
  "ram (shift_up s) = shift_rows (terminal_mem (active_terminal s)) (ram s)"
  "screen_x_array (shift_up_display s) = (screen_x_array s)(display_terminal s := 0)"
  "screen_y_array (shift_up_display s) = (screen_y_array s)(display_terminal s := 24)"
  "screen_x_array (shift_up s) = (screen_x_array s)(active_terminal s := 0)"
  "screen_y_array (shift_up s) = (screen_y_array s)(active_terminal s := 24)"
  "display_terminal (shift_up_display s) = display_terminal s" "display_terminal (shift_up s) = display_terminal s"
  "active_terminal (shift_up_display s) = active_terminal s" "active_terminal (shift_up s) = active_terminal s"
  by (simp_all add: shift_up_display_def shift_up_def Let_def)

text \<open>The \<open>while\<close> loops around the scrolling; a scroll sets the row to 24, so each ends.\<close>

function scroll_active :: "'a screen_state_scheme \<Rightarrow> 'a screen_state_scheme" where
  "scroll_active s =
     (if screen_y_array s (active_terminal s) \<ge> 25
      then scroll_active (if active_terminal s = display_terminal s then shift_up_display s else shift_up s)
      else s)"
  by pat_completeness auto
termination
  by (relation "measure (\<lambda>s. nat (screen_y_array s (active_terminal s)))") auto

function scroll_display :: "'a screen_state_scheme \<Rightarrow> 'a screen_state_scheme" where
  "scroll_display s =
     (if screen_y_array s (display_terminal s) \<ge> 25 then scroll_display (shift_up_display s) else s)"
  by pat_completeness auto
termination
  by (relation "measure (\<lambda>s. nat (screen_y_array s (display_terminal s)))") auto

declare scroll_active.simps [simp del] scroll_display.simps [simp del]

text \<open>Advance the cursor of terminal \<open>t\<close> by one cell, wrapping into the next row.\<close>

definition advance :: "nat \<Rightarrow> 'a screen_state_scheme \<Rightarrow> 'a screen_state_scheme" where
  "advance t s =
     (let s = set_x t (screen_x_array s t + 1) s;
          s = set_y t (screen_y_array s t + screen_x_array s t div 80) s
      in set_x t (screen_x_array s t mod 80) s)"

definition putc_scroll :: "u8 \<Rightarrow> 'a screen_state_scheme \<Rightarrow> 'a screen_state_scheme" where
  "putc_scroll c s =
     (let a = active_terminal s;
          s = (if c = 10 \<or> c = 13 then
                 let s = set_y a (screen_y_array s a + 1) s; s = set_x a 0 s in scroll_active s
               else
                 let s = scroll_active s;
                     b = (if a = display_terminal s then video_mem else video_mem + of_nat (a + 1) * 0x1000);
                     s = s\<lparr>ram := put_cell b (screen_x_array s a) (screen_y_array s a) c (ram s)\<rparr>
                 in advance a s)
      in if a = display_terminal s then update_cursor (screen_x_array s a) (screen_y_array s a) s else s)"

definition putc_scroll_display :: "u8 \<Rightarrow> 'a screen_state_scheme \<Rightarrow> 'a screen_state_scheme" where
  "putc_scroll_display c s =
     (let d = display_terminal s;
          s = (if c = 10 \<or> c = 13 then
                 let s = set_y d (screen_y_array s d + 1) s; s = set_x d 0 s in scroll_display s
               else
                 let s = scroll_display s;
                     s = s\<lparr>ram := put_cell video_mem (screen_x_array s d) (screen_y_array s d) c (ram s)\<rparr>
                 in advance d s)
      in update_cursor (screen_x_array s d) (screen_y_array s d) s)"

text \<open>
  \<open>puts_scroll\<close> on the object \<open>src\<close> that holds the characters. A length of -1 asks for the
  length of the string; any other negative length prints nothing.
\<close>

definition puts_scroll :: "memory \<Rightarrow> u32 \<Rightarrow> int \<Rightarrow> 'a screen_state_scheme \<Rightarrow> (int \<times> 'a screen_state_scheme) option" where
  "puts_scroll src a len s =
     do { lim \<leftarrow> (if len = -1 then map_option sint (strlen src a) else Some len);
          Some (max 0 lim, fold (\<lambda>i. putc_scroll (src (a + of_nat i))) [0..<nat lim] s) }"

definition screen_y_change :: "int \<Rightarrow> 'a screen_state_scheme \<Rightarrow> 'a screen_state_scheme" where
  "screen_y_change n s = s\<lparr>screen_y := screen_y s + n\<rparr>"

definition get_screen_y :: "'a screen_state_scheme \<Rightarrow> int" where
  "get_screen_y s = screen_y s"

text \<open>The plain console. C's \<open>/\<close> and \<open>%\<close> truncate; the operands here are never negative.\<close>

definition putc :: "u8 \<Rightarrow> 'a screen_state_scheme \<Rightarrow> 'a screen_state_scheme" where
  "putc c s =
     (if c = 10 \<or> c = 13 then s\<lparr>screen_y := screen_y s + 1, screen_x := 0\<rparr>
      else
        let s = s\<lparr>ram := put_cell video_mem (screen_x s) (screen_y s) c (ram s)\<rparr>;
            s = s\<lparr>screen_x := screen_x s + 1\<rparr>;
            s = s\<lparr>screen_x := screen_x s mod 80\<rparr>
        in s\<lparr>screen_y := (screen_y s + screen_x s div 80) mod 25\<rparr>)"

text \<open>\<open>puts\<close> reads its string from \<open>src\<close> when that is a local object, from memory otherwise.\<close>

partial_function (option) puts_loop ::
  "memory option \<Rightarrow> u32 \<Rightarrow> u32 \<Rightarrow> 'a screen_state_scheme \<Rightarrow> (u32 \<times> 'a screen_state_scheme) option" where
  "puts_loop src a index s =
     (let c = (case src of Some m \<Rightarrow> m (a + index) | None \<Rightarrow> ram s (a + index))
      in if c \<noteq> 0 then puts_loop src a (index + 1) (putc c s) else Some (index, s))"

definition puts :: "memory option \<Rightarrow> u32 \<Rightarrow> 'a screen_state_scheme \<Rightarrow> (u32 \<times> 'a screen_state_scheme) option" where
  "puts src a s = puts_loop src a 0 s"

definition test_interrupts :: "'a screen_state_scheme \<Rightarrow> 'a screen_state_scheme" where
  "test_interrupts s =
     s\<lparr>ram := fold (\<lambda>i m. m(video_mem + of_nat (2 * i) := m (video_mem + of_nat (2 * i)) + 1)) [0..<2000] (ram s)\<rparr>"


section \<open>Specification: a terminal as a grid of characters\<close>

text \<open>
  A terminal is 25 rows of 80 characters and a cursor. Row 25 is the position behind the last
  row: a character typed there scrolls first. Scrolling drops the top row.
\<close>

record vterm =
  rows :: "u8 list list"
  col :: nat
  row :: nat

definition blank_row :: "u8 list" where "blank_row = replicate 80 0x20"

definition v_scroll :: "vterm \<Rightarrow> vterm" where
  "v_scroll v = \<lparr>rows = tl (rows v) @ [blank_row], col = 0, row = 24\<rparr>"

definition v_newline :: "vterm \<Rightarrow> vterm" where
  "v_newline v = (if row v + 1 \<ge> 25 then v_scroll v else v\<lparr>col := 0, row := row v + 1\<rparr>)"

definition v_set :: "nat \<Rightarrow> nat \<Rightarrow> u8 \<Rightarrow> u8 list list \<Rightarrow> u8 list list" where
  "v_set x y c rs = rs[y := (rs ! y)[x := c]]"

definition v_type :: "u8 \<Rightarrow> vterm \<Rightarrow> vterm" where
  "v_type c v =
     (let v = (if row v \<ge> 25 then v_scroll v else v)
      in if col v < 79 then v\<lparr>rows := v_set (col v) (row v) c (rows v), col := col v + 1\<rparr>
         else v\<lparr>rows := v_set (col v) (row v) c (rows v), col := 0, row := row v + 1\<rparr>)"

definition v_putc :: "u8 \<Rightarrow> vterm \<Rightarrow> vterm" where
  "v_putc c v = (if c = 10 \<or> c = 13 then v_newline v else v_type c v)"

definition v_back :: "vterm \<Rightarrow> vterm" where
  "v_back v =
     (let v = (if col v = 0 then v\<lparr>col := 79, row := row v - 1\<rparr> else v\<lparr>col := col v - 1\<rparr>)
      in v\<lparr>rows := v_set (col v) (row v) 0x20 (rows v)\<rparr>)"

definition v_clear :: "vterm \<Rightarrow> vterm" where
  "v_clear v = \<lparr>rows = replicate 25 blank_row, col = 0, row = 0\<rparr>"

text \<open>The characters of a text page and the terminal that is kept in it.\<close>

definition page_char :: "u32 \<Rightarrow> memory \<Rightarrow> nat \<Rightarrow> u8" where
  "page_char b m k = m (b + of_nat (2 * k))"

definition grid :: "(nat \<Rightarrow> u8) \<Rightarrow> u8 list list" where
  "grid p = map (\<lambda>y. map (\<lambda>x. p (80 * y + x)) [0..<80]) [0..<25]"

definition page_of :: "'a screen_state_scheme \<Rightarrow> nat \<Rightarrow> u32" where
  "page_of s t = (if t = display_terminal s then video_mem else terminal_mem t)"

definition vterm_of :: "'a screen_state_scheme \<Rightarrow> nat \<Rightarrow> vterm" where
  "vterm_of s t =
     \<lparr>rows = grid (page_char (page_of s t) (ram s)),
      col = nat (screen_x_array s t), row = nat (screen_y_array s t)\<rparr>"

definition cursor_ok :: "int \<Rightarrow> int \<Rightarrow> bool" where
  "cursor_ok x y \<longleftrightarrow> 0 \<le> x \<and> x < 80 \<and> 0 \<le> y \<and> (y < 25 \<or> y = 25 \<and> x = 0)"

definition console_ok :: "'a screen_state_scheme \<Rightarrow> bool" where
  "console_ok s \<longleftrightarrow> display_terminal s < 3 \<and> active_terminal s < 3
     \<and> (\<forall>t<3. cursor_ok (screen_x_array s t) (screen_y_array s t))"

section \<open>Text pages\<close>

text \<open>
  What the console code needs of a page: writing a cell and moving the page up act on the
  characters of the page as on a table of 2000 entries.
\<close>

locale text_page =
  fixes chars :: "memory \<Rightarrow> nat \<Rightarrow> u8"
    and put :: "int \<Rightarrow> int \<Rightarrow> u8 \<Rightarrow> memory \<Rightarrow> memory"
    and scroll :: "memory \<Rightarrow> memory"
  assumes chars_put:
      "\<lbrakk>0 \<le> x; x < 80; 0 \<le> y; y < 25; k < 2000\<rbrakk> \<Longrightarrow>
         chars (put x y c m) k = (if int k = 80 * y + x then c else chars m k)"
    and chars_scroll:
      "k < 2000 \<Longrightarrow> chars (scroll m) k = (if k < 1920 then chars m (k + 80) else 0x20)"
begin

lemma grid_put:
  assumes "0 \<le> x" "x < 80" "0 \<le> y" "y < 25"
  shows "grid (chars (put x y c m)) = v_set (nat x) (nat y) c (grid (chars m))"
proof (rule nth_equalityI)
  fix i assume "i < length (grid (chars (put x y c m)))"
  then have i: "i < 25" by (simp add: grid_def)
  show "grid (chars (put x y c m)) ! i = v_set (nat x) (nat y) c (grid (chars m)) ! i"
  proof (rule nth_equalityI)
    show "length (grid (chars (put x y c m)) ! i) = length (v_set (nat x) (nat y) c (grid (chars m)) ! i)"
      using i assms by (cases "nat y = i") (simp_all add: grid_def v_set_def)
    fix j assume "j < length (grid (chars (put x y c m)) ! i)"
    then have j: "j < 80" using i by (simp add: grid_def)
    have "int (80 * i + j) = 80 * y + x \<longleftrightarrow> int i = y \<and> int j = x"
      using assms i j by (cases "int i" y rule: linorder_cases) auto
    then have "grid (chars (put x y c m)) ! i ! j = (if int i = y \<and> int j = x then c else chars m (80 * i + j))"
      using i j assms by (simp add: grid_def chars_put)
    also have "\<dots> = v_set (nat x) (nat y) c (grid (chars m)) ! i ! j"
      using i j assms by (auto simp: grid_def v_set_def nth_list_update)
    finally show "grid (chars (put x y c m)) ! i ! j = v_set (nat x) (nat y) c (grid (chars m)) ! i ! j" .
  qed
qed (simp add: grid_def v_set_def)

lemma grid_scroll: "grid (chars (scroll m)) = tl (grid (chars m)) @ [blank_row]"
proof (rule nth_equalityI)
  fix i assume "i < length (grid (chars (scroll m)))"
  then have i: "i < 25" by (simp add: grid_def)
  show "grid (chars (scroll m)) ! i = (tl (grid (chars m)) @ [blank_row]) ! i"
  proof (cases "i = 24")
    case True
    then show ?thesis
      by (auto intro!: nth_equalityI simp: grid_def blank_row_def chars_scroll nth_append)
  next
    case False
    with i have "i < 24" by simp
    then show ?thesis
      by (auto intro!: nth_equalityI simp: grid_def chars_scroll nth_append nth_tl algebra_simps)
  qed
qed (simp add: grid_def)

end

text \<open>A write of cell \<open>k\<close> of a page, character and attribute.\<close>

definition set_cell :: "u32 \<Rightarrow> nat \<Rightarrow> u8 \<Rightarrow> memory \<Rightarrow> memory" where
  "set_cell b k c m = m(b + of_nat (2 * k) := c, b + of_nat (2 * k) + 1 := 7)"

lemma put_cell_set_cell:
  "put_cell b (int x) (int y) c m = set_cell b (80 * y + x) c m"
  by (simp add: put_cell_def cell_addr_def set_cell_def algebra_simps)

lemma put_cell_nat:
  assumes "0 \<le> x" "0 \<le> y"
  shows "put_cell b x y c m = set_cell b (nat (80 * y + x)) c m"
proof -
  have "put_cell b (int (nat x)) (int (nat y)) c m = set_cell b (80 * nat y + nat x) c m"
    by (rule put_cell_set_cell)
  moreover have "80 * nat y + nat x = nat (80 * y + x)" using assms by simp
  ultimately show ?thesis using assms by (simp only: int_nat_eq if_True)
qed

lemma page_char_set_cell:
  assumes "i < 2000" "k < 2000"
  shows "page_char b (set_cell b i c m) k = (if k = i then c else page_char b m k)"
proof -
  have "((of_nat (2 * k) :: u32) = of_nat (2 * i)) = (2 * k = 2 * i)"
    using assms by (intro of_nat32_inj) simp_all
  moreover have "((of_nat (2 * k) :: u32) = of_nat (2 * i + 1)) = (2 * k = 2 * i + 1)"
    using assms by (intro of_nat32_inj) simp_all
  moreover have "2 * k \<noteq> 2 * i + 1" by presburger
  ultimately show ?thesis
    by (simp add: page_char_def set_cell_def add.assoc add.commute [of _ 1] del: of_nat_mult)
qed

lemma set_cell_frame:
  assumes "i < 2000" "a \<notin> region b 4000"
  shows "set_cell b i c m a = m a"
proof -
  have "b + of_nat (2 * i) \<in> region b 4000" "b + of_nat (2 * i + 1) \<in> region b 4000"
    using assms(1) by (subst in_region_offset; simp)+
  then show ?thesis
    using assms(2) by (auto simp: set_cell_def algebra_simps)
qed

text \<open>One step of the row copy, on cell indices.\<close>

definition move_up :: "u32 \<Rightarrow> nat \<Rightarrow> memory \<Rightarrow> memory" where
  "move_up b k m = set_cell b k (page_char b m (k + 80)) m"

lemma shift_rows_flat:
  "shift_rows b m = fold (\<lambda>x. set_cell b (1920 + x) 0x20) [0..<80] (fold (move_up b) [0..<1920] m)"
proof -
  have "(\<lambda>x m. put_cell b (int x) (int y) (m (cell_addr b (int x) (int y + 1))) m) = (\<lambda>x. move_up b (80 * y + x))" for y
    by (intro ext) (simp add: put_cell_set_cell move_up_def page_char_def cell_addr_def algebra_simps)
  moreover have "(\<lambda>x. put_cell b (int x) 24 0x20) = (\<lambda>x. set_cell b (1920 + x) 0x20)"
    using put_cell_set_cell [of b _ 24 "0x20"] by (intro ext) simp
  ultimately show ?thesis
    using fold_nested [of "move_up b" 80 24 m] by (simp add: shift_rows_def)
qed

lemma move_up_fold:
  "n \<le> 1920 \<Longrightarrow> k < 2000 \<Longrightarrow>
     page_char b (fold (move_up b) [0..<n] m) k = (if k < n then page_char b m (k + 80) else page_char b m k)"
proof (induction n arbitrary: k)
  case (Suc n)
  then show ?case by (auto simp: move_up_def page_char_set_cell)
qed simp

lemma move_up_frame:
  "n \<le> 1920 \<Longrightarrow> a \<notin> region b 4000 \<Longrightarrow> fold (move_up b) [0..<n] m a = m a"
  by (induction n) (simp_all add: move_up_def set_cell_frame)

lemma blank_fold:
  "n \<le> 80 \<Longrightarrow> k < 2000 \<Longrightarrow>
     page_char b (fold (\<lambda>x. set_cell b (1920 + x) 0x20) [0..<n] m) k
       = (if 1920 \<le> k \<and> k < 1920 + n then 0x20 else page_char b m k)"
  by (induction n arbitrary: k) (auto simp: page_char_set_cell)

lemma blank_frame:
  "n \<le> 80 \<Longrightarrow> a \<notin> region b 4000 \<Longrightarrow> fold (\<lambda>x. set_cell b (1920 + x) 0x20) [0..<n] m a = m a"
  by (induction n) (simp_all add: set_cell_frame)

lemma shift_rows_frame: "a \<notin> region b 4000 \<Longrightarrow> shift_rows b m a = m a"
  by (simp add: shift_rows_flat blank_frame move_up_frame)

lemma put_cell_frame:
  "\<lbrakk>0 \<le> x; x < 80; 0 \<le> y; y < 25; a \<notin> region b 4000\<rbrakk> \<Longrightarrow> put_cell b x y c m a = m a"
  by (simp add: put_cell_nat set_cell_frame)

interpretation page: text_page "page_char b" "put_cell b" "shift_rows b" for b
proof unfold_locales
  fix x y :: int and k :: nat and c m
  assume a: "0 \<le> x" "x < 80" "0 \<le> y" "y < 25" "k < 2000"
  then have "nat (80 * y + x) < 2000" "k = nat (80 * y + x) \<longleftrightarrow> int k = 80 * y + x" by auto
  then show "page_char b (put_cell b x y c m) k = (if int k = 80 * y + x then c else page_char b m k)"
    using a by (simp add: put_cell_nat page_char_set_cell)
next
  fix k :: nat and m assume "k < 2000"
  then show "page_char b (shift_rows b m) k = (if k < 1920 then page_char b m (k + 80) else 0x20)"
    by (auto simp: shift_rows_flat blank_fold move_up_fold)
qed

section \<open>Terminals in memory\<close>

lemma terminal_mem_simps [simp]:
  "terminal_mem 0 = 0xB9000" "terminal_mem (Suc 0) = 0xBA000" "terminal_mem 2 = 0xBB000"
  by (simp_all add: terminal_mem_def video_mem_def)

lemma less_3_cases: "(t :: nat) < 3 \<Longrightarrow> t = 0 \<or> t = Suc 0 \<or> t = 2"
  by auto

lemma unat_page_of:
  assumes "t < 3"
  shows "unat (page_of s t) = (if t = display_terminal s then 0xB8000 else 0xB9000 + t * 0x1000)"
proof -
  have "unat (terminal_mem t) = 0xB9000 + t * 0x1000"
    using less_3_cases [OF assms] by (elim disjE) simp_all
  then show ?thesis by (simp add: page_of_def video_mem_def)
qed

lemma page_disjoint:
  assumes "t < 3" "u < 3" "t \<noteq> u"
  shows "region (page_of s t) 4000 \<inter> region (page_of s u) 4000 = {}"
proof -
  have "unat (page_of s t) + 4000 \<le> unat (page_of s u) \<and> unat (page_of s u) + 4000 \<le> 4294967296
      \<or> unat (page_of s u) + 4000 \<le> unat (page_of s t) \<and> unat (page_of s t) + 4000 \<le> 4294967296"
    using assms by (simp add: unat_page_of) arith
  then show ?thesis
    using region_disjoint by (metis inf_commute)
qed

lemma grid_frame:
  assumes "\<And>a. a \<in> region b 4000 \<Longrightarrow> m' a = m a"
  shows "grid (page_char b m') = grid (page_char b m)"
proof -
  have "page_char b m' k = page_char b m k" if "k < 2000" for k
    using that in_region_offset [of "2 * k" b 4000] by (simp add: page_char_def assms)
  then show ?thesis by (auto simp: grid_def)
qed

text \<open>A step that touches the page and the cursor of terminal \<open>t\<close> only.\<close>

definition only_terminal :: "nat \<Rightarrow> 'a screen_state_scheme \<Rightarrow> 'a screen_state_scheme \<Rightarrow> bool" where
  "only_terminal t s s' \<longleftrightarrow> display_terminal s' = display_terminal s \<and> active_terminal s' = active_terminal s
     \<and> (\<forall>a. a \<notin> region (page_of s t) 4000 \<longrightarrow> ram s' a = ram s a)
     \<and> (\<forall>u. u \<noteq> t \<longrightarrow> screen_x_array s' u = screen_x_array s u \<and> screen_y_array s' u = screen_y_array s u)"

lemma page_of_cong: "display_terminal s' = display_terminal s \<Longrightarrow> page_of s' t = page_of s t"
  by (simp add: page_of_def)

lemma only_terminal_refl [simp]: "only_terminal t s s"
  by (simp add: only_terminal_def)

lemma only_terminal_trans:
  "only_terminal t s s' \<Longrightarrow> only_terminal t s' s'' \<Longrightarrow> only_terminal t s s''"
  unfolding only_terminal_def by (metis page_of_cong)

lemma only_terminal_other:
  assumes "only_terminal t s s'" "t < 3" "u < 3" "u \<noteq> t"
  shows "vterm_of s' u = vterm_of s u"
proof -
  have "ram s' a = ram s a" if "a \<in> region (page_of s u) 4000" for a
    using that assms page_disjoint [of t u s] by (auto simp: only_terminal_def)
  then show ?thesis
    using assms page_of_cong [of s' s u]
    by (simp add: only_terminal_def vterm_of_def grid_frame [of "page_of s u" "ram s'" "ram s"])
qed

lemma only_terminal_console_ok:
  assumes "only_terminal t s s'" "console_ok s" "cursor_ok (screen_x_array s' t) (screen_y_array s' t)"
  shows "console_ok s'"
  using assms unfolding only_terminal_def console_ok_def by metis

text \<open>The operations on terminal \<open>t\<close> that the console functions are made of.\<close>

definition scrolled :: "nat \<Rightarrow> 'a screen_state_scheme \<Rightarrow> 'a screen_state_scheme" where
  "scrolled t s = set_x t 0 (set_y t 24 (s\<lparr>ram := shift_rows (page_of s t) (ram s)\<rparr>))"

definition typed :: "nat \<Rightarrow> u8 \<Rightarrow> 'a screen_state_scheme \<Rightarrow> 'a screen_state_scheme" where
  "typed t c s = advance t (s\<lparr>ram := put_cell (page_of s t) (screen_x_array s t) (screen_y_array s t) c (ram s)\<rparr>)"

definition putc_at :: "nat \<Rightarrow> u8 \<Rightarrow> 'a screen_state_scheme \<Rightarrow> 'a screen_state_scheme" where
  "putc_at t c s =
     (if c = 10 \<or> c = 13
      then if screen_y_array s t + 1 \<ge> 25 then scrolled t (set_x t 0 (set_y t (screen_y_array s t + 1) s))
           else set_x t 0 (set_y t (screen_y_array s t + 1) s)
      else typed t c (if screen_y_array s t \<ge> 25 then scrolled t s else s))"

lemma page_of_update [simp]:
  "page_of (set_x t v s) u = page_of s u" "page_of (set_y t v s) u = page_of s u"
  "page_of (s\<lparr>ram := m\<rparr>) u = page_of s u" "page_of (update_cursor x y s) u = page_of s u"
  by (simp_all add: page_of_def update_cursor_def outb_def Let_def)

lemma update_cursor_simps [simp]:
  "ram (update_cursor x y s) = ram s" "screen_x_array (update_cursor x y s) = screen_x_array s"
  "screen_y_array (update_cursor x y s) = screen_y_array s"
  "display_terminal (update_cursor x y s) = display_terminal s"
  "active_terminal (update_cursor x y s) = active_terminal s"
  by (simp_all add: update_cursor_def outb_def Let_def)

lemma vterm_of_update_cursor [simp]: "vterm_of (update_cursor x y s) t = vterm_of s t"
  by (simp add: vterm_of_def)

lemma console_ok_update_cursor [simp]: "console_ok (update_cursor x y s) = console_ok s"
  by (simp add: console_ok_def)

lemma advance_simps [simp]:
  "ram (advance t s) = ram s" "display_terminal (advance t s) = display_terminal s"
  "active_terminal (advance t s) = active_terminal s"
  "screen_x_array (advance t s) = (screen_x_array s)(t := (screen_x_array s t + 1) mod 80)"
  "screen_y_array (advance t s) = (screen_y_array s)(t := screen_y_array s t + (screen_x_array s t + 1) div 80)"
  by (simp_all add: advance_def Let_def)

lemma scrolled_simps [simp]:
  "ram (scrolled t s) = shift_rows (page_of s t) (ram s)" "display_terminal (scrolled t s) = display_terminal s"
  "active_terminal (scrolled t s) = active_terminal s"
  "screen_x_array (scrolled t s) = (screen_x_array s)(t := 0)"
  "screen_y_array (scrolled t s) = (screen_y_array s)(t := 24)"
  by (simp_all add: scrolled_def)

lemma scroll_active_once:
  "scroll_active s = (if screen_y_array s (active_terminal s) \<ge> 25 then scrolled (active_terminal s) s else s)"
proof -
  have "shift_up_display s = scrolled (display_terminal s) s"
    by (simp add: shift_up_display_def scrolled_def page_of_def)
  moreover have "active_terminal s \<noteq> display_terminal s \<Longrightarrow> shift_up s = scrolled (active_terminal s) s"
    by (simp add: shift_up_def scrolled_def page_of_def)
  ultimately show ?thesis
    by (subst scroll_active.simps) (simp add: scroll_active.simps)
qed

lemma scroll_display_once:
  "scroll_display s = (if screen_y_array s (display_terminal s) \<ge> 25 then scrolled (display_terminal s) s else s)"
proof -
  have "shift_up_display s = scrolled (display_terminal s) s"
    by (simp add: shift_up_display_def scrolled_def page_of_def)
  then show ?thesis
    by (subst scroll_display.simps) (simp add: scroll_display.simps)
qed

lemma putc_scroll_at:
  "putc_scroll c s =
     (let a = active_terminal s; s' = putc_at a c s
      in if a = display_terminal s then update_cursor (screen_x_array s' a) (screen_y_array s' a) s' else s')"
  by (simp add: putc_scroll_def putc_at_def scroll_active_once typed_def page_of_def terminal_mem_def Let_def)

lemma putc_scroll_display_at:
  "putc_scroll_display c s =
     (let d = display_terminal s; s' = putc_at d c s
      in update_cursor (screen_x_array s' d) (screen_y_array s' d) s')"
  by (simp add: putc_scroll_display_def putc_at_def scroll_display_once typed_def page_of_def Let_def)

lemma page_of_same [simp]:
  "page_of (scrolled t s) u = page_of s u" "page_of (advance t s) u = page_of s u"
  by (simp_all add: page_of_def)

lemma vterm_of_scrolled: "vterm_of (scrolled t s) t = v_scroll (vterm_of s t)"
  by (simp add: vterm_of_def v_scroll_def page.grid_scroll)

lemma only_terminal_cursor [simp]:
  "only_terminal t s (set_x t v s)" "only_terminal t s (set_y t v s)"
  "only_terminal t s (set_x t v (set_y t w s))"
  by (simp_all add: only_terminal_def)

lemma only_terminal_scrolled [simp]: "only_terminal t s (scrolled t s)"
  by (simp add: only_terminal_def shift_rows_frame)

lemma typed_facts:
  assumes "0 \<le> screen_x_array s t" "screen_x_array s t < 80" "0 \<le> screen_y_array s t" "screen_y_array s t < 25"
  shows "only_terminal t s (typed t c s)"
    and "vterm_of (typed t c s) t = v_type c (vterm_of s t)"
    and "cursor_ok (screen_x_array (typed t c s) t) (screen_y_array (typed t c s) t)"
proof -
  show "only_terminal t s (typed t c s)"
    using assms by (simp add: only_terminal_def typed_def put_cell_frame)
  consider "screen_x_array s t = 79" | "screen_x_array s t < 79" using assms by linarith
  then have "vterm_of (typed t c s) t = v_type c (vterm_of s t)
      \<and> cursor_ok (screen_x_array (typed t c s) t) (screen_y_array (typed t c s) t)"
    using assms
    by cases (auto simp: typed_def vterm_of_def v_type_def Let_def page.grid_put cursor_ok_def nat_add_distrib nat_less_iff)
  then show "vterm_of (typed t c s) t = v_type c (vterm_of s t)"
    and "cursor_ok (screen_x_array (typed t c s) t) (screen_y_array (typed t c s) t)" by simp_all
qed

lemma v_type_scroll: "row v \<ge> 25 \<Longrightarrow> v_type c v = v_type c (v_scroll v)"
  by (simp add: v_type_def v_scroll_def)

lemma putc_at_facts:
  assumes "cursor_ok (screen_x_array s t) (screen_y_array s t)"
  shows "only_terminal t s (putc_at t c s) \<and> vterm_of (putc_at t c s) t = v_putc c (vterm_of s t)
    \<and> cursor_ok (screen_x_array (putc_at t c s) t) (screen_y_array (putc_at t c s) t)"
proof (cases "c = 10 \<or> c = 13")
  case True
  then show ?thesis
    using assms only_terminal_trans [OF only_terminal_cursor(3) only_terminal_scrolled]
    by (auto simp: putc_at_def v_putc_def v_newline_def v_scroll_def cursor_ok_def vterm_of_scrolled)
       (auto simp: vterm_of_def nat_add_distrib)
next
  case False
  let ?s = "if screen_y_array s t \<ge> 25 then scrolled t s else s"
  have ok: "0 \<le> screen_x_array ?s t" "screen_x_array ?s t < 80" "0 \<le> screen_y_array ?s t" "screen_y_array ?s t < 25"
    using assms by (auto simp: cursor_ok_def)
  have "v_type c (vterm_of ?s t) = v_type c (vterm_of s t)"
    using v_type_scroll [of "vterm_of s t" c] by (simp add: vterm_of_scrolled) (simp add: vterm_of_def)
  moreover have "only_terminal t s ?s" by simp
  moreover note typed_facts [OF ok, of c] False
  ultimately show ?thesis
    by (simp add: putc_at_def v_putc_def only_terminal_trans [of t s ?s])
qed

lemma console_ok_cursor: "console_ok s \<Longrightarrow> t < 3 \<Longrightarrow> cursor_ok (screen_x_array s t) (screen_y_array s t)"
  by (simp add: console_ok_def)

lemma putc_at_refines:
  assumes "console_ok s" "t < 3"
  shows "console_ok (putc_at t c s)"
    and "u < 3 \<Longrightarrow> vterm_of (putc_at t c s) u = (if u = t then v_putc c (vterm_of s t) else vterm_of s u)"
    and "display_terminal (putc_at t c s) = display_terminal s" "active_terminal (putc_at t c s) = active_terminal s"
proof -
  note f = putc_at_facts [OF console_ok_cursor [OF assms], of c]
  show "console_ok (putc_at t c s)" using f assms only_terminal_console_ok by blast
  show "u < 3 \<Longrightarrow> vterm_of (putc_at t c s) u = (if u = t then v_putc c (vterm_of s t) else vterm_of s u)"
    using f assms only_terminal_other [of t s "putc_at t c s" u] by simp
  show "display_terminal (putc_at t c s) = display_terminal s" "active_terminal (putc_at t c s) = active_terminal s"
    using f by (simp_all add: only_terminal_def)
qed

lemma putc_scroll_refines:
  assumes "console_ok s"
  shows "console_ok (putc_scroll c s)"
    and "u < 3 \<Longrightarrow> vterm_of (putc_scroll c s) u =
      (if u = active_terminal s then v_putc c (vterm_of s u) else vterm_of s u)"
    and "display_terminal (putc_scroll c s) = display_terminal s" "active_terminal (putc_scroll c s) = active_terminal s"
  using assms putc_at_refines [OF assms, of "active_terminal s"]
  by (auto simp: putc_scroll_at Let_def console_ok_def [of s])

lemma putc_scroll_display_refines:
  assumes "console_ok s"
  shows "console_ok (putc_scroll_display c s)"
    and "u < 3 \<Longrightarrow> vterm_of (putc_scroll_display c s) u =
      (if u = display_terminal s then v_putc c (vterm_of s u) else vterm_of s u)"
  using assms putc_at_refines [OF assms, of "display_terminal s"]
  by (auto simp: putc_scroll_display_at Let_def console_ok_def [of s])

lemma puts_fold_refines:
  assumes "console_ok s"
  shows "console_ok (fold putc_scroll cs s)
    \<and> (\<forall>u<3. vterm_of (fold putc_scroll cs s) u = (if u = active_terminal s then fold v_putc cs (vterm_of s u) else vterm_of s u))
    \<and> display_terminal (fold putc_scroll cs s) = display_terminal s
    \<and> active_terminal (fold putc_scroll cs s) = active_terminal s"
  using assms by (induction cs arbitrary: s) (simp_all add: putc_scroll_refines)

text \<open>Clearing and deleting.\<close>

lemma clear_fold:
  "n \<le> 2000 \<Longrightarrow> (\<forall>k<2000. page_char b (fold (\<lambda>i. set_cell b i 0x20) [0..<n] m) k = (if k < n then 0x20 else page_char b m k))
     \<and> (\<forall>a. a \<notin> region b 4000 \<longrightarrow> fold (\<lambda>i. set_cell b i 0x20) [0..<n] m a = m a)"
  by (induction n) (auto simp: page_char_set_cell set_cell_frame)

lemma clear_refines:
  assumes "console_ok s"
  shows "only_terminal (display_terminal s) s (clear s)"
    and "vterm_of (clear s) (display_terminal s) = v_clear (vterm_of s (display_terminal s))"
    and "console_ok (clear s)"
proof -
  let ?m = "fold (\<lambda>i. set_cell video_mem i 0x20) [0..<2000] (ram s)"
  have cl: "ram (clear s) = ?m" "screen_x_array (clear s) = (screen_x_array s)(display_terminal s := 0)"
    "screen_y_array (clear s) = (screen_y_array s)(display_terminal s := 0)"
    "display_terminal (clear s) = display_terminal s" "active_terminal (clear s) = active_terminal s"
    by (simp_all add: clear_def Let_def set_cell_def [abs_def])
  have "grid (page_char video_mem ?m) = replicate 25 blank_row"
    using clear_fold [of 2000 video_mem "ram s"]
    by (auto intro!: nth_equalityI simp: grid_def blank_row_def)
  then show "vterm_of (clear s) (display_terminal s) = v_clear (vterm_of s (display_terminal s))"
    by (simp add: vterm_of_def v_clear_def page_of_def cl)
  show o: "only_terminal (display_terminal s) s (clear s)"
    using clear_fold [of 2000 video_mem "ram s"] by (simp add: only_terminal_def cl page_of_def)
  show "console_ok (clear s)"
    by (rule only_terminal_console_ok [OF o assms]) (simp add: cl cursor_ok_def)
qed

lemma delete_c_refines:
  assumes "console_ok s" and "(col v, row v) \<noteq> (0, 0)" and v: "v = vterm_of s (display_terminal s)"
  shows "only_terminal (display_terminal s) s (delete_c s)"
    and "vterm_of (delete_c s) (display_terminal s) = v_back v"
    and "console_ok (delete_c s)"
proof -
  let ?d = "display_terminal s"
  let ?x = "if screen_x_array s ?d = 0 then 79 else screen_x_array s ?d - 1"
  let ?y = "if screen_x_array s ?d = 0 then screen_y_array s ?d - 1 else screen_y_array s ?d"
  have b: "0 \<le> ?x" "?x < 80" "0 \<le> ?y" "?y < 25"
    using assms console_ok_cursor [OF assms(1), of ?d]
    by (auto simp: console_ok_def cursor_ok_def vterm_of_def)
  have cl: "ram (delete_c s) = put_cell video_mem ?x ?y 0x20 (ram s)"
    "screen_x_array (delete_c s) = (screen_x_array s)(?d := ?x)"
    "screen_y_array (delete_c s) = (screen_y_array s)(?d := ?y)"
    "display_terminal (delete_c s) = ?d" "active_terminal (delete_c s) = active_terminal s"
    by (auto simp: delete_c_def Let_def)
  show o: "only_terminal ?d s (delete_c s)"
    using put_cell_frame [OF b] by (simp add: only_terminal_def cl page_of_def)
  show "console_ok (delete_c s)"
    by (rule only_terminal_console_ok [OF o assms(1)]) (use b in \<open>simp add: cl cursor_ok_def\<close>)
  have "col (v_back v) = nat ?x" "row (v_back v) = nat ?y"
    using b by (auto simp: v v_back_def vterm_of_def Let_def nat_diff_distrib split: if_splits)
  moreover from this have "rows (v_back v) = v_set (nat ?x) (nat ?y) 0x20 (rows v)"
    by (auto simp: v_back_def Let_def)
  moreover have "vterm_of (delete_c s) ?d = \<lparr>rows = v_set (nat ?x) (nat ?y) 0x20 (rows v), col = nat ?x, row = nat ?y\<rparr>"
    using page.grid_put [OF b, of video_mem "0x20" "ram s"] by (simp add: vterm_of_def cl page_of_def v)
  ultimately show "vterm_of (delete_c s) ?d = v_back v" by simp
qed

text \<open>The console code touches nothing beyond the console's own state.\<close>

lemma screen_more [simp, frame_simps]:
  "screen_state.more (set_x t v s) = screen_state.more s" "screen_state.more (set_y t v s) = screen_state.more s"
  "screen_state.more (update_cursor x y s) = screen_state.more s" "screen_state.more (scrolled t s) = screen_state.more s"
  "screen_state.more (advance t s) = screen_state.more s" "screen_state.more (putc_at t c s) = screen_state.more s"
  "screen_state.more (putc c s) = screen_state.more s"
  by (simp_all add: set_x_def set_y_def update_cursor_def outb_def Let_def scrolled_def advance_def putc_at_def typed_def putc_def)

lemma console_more [simp, frame_simps]:
  "screen_state.more (putc_scroll c s) = screen_state.more s"
  "screen_state.more (putc_scroll_display c s) = screen_state.more s"
  "screen_state.more (delete_c s) = screen_state.more s" "screen_state.more (clear s) = screen_state.more s"
  by (simp_all add: putc_scroll_at putc_scroll_display_at delete_c_def clear_def Let_def)

lemma console_fold_more [simp, frame_simps]:
  "screen_state.more (fold putc_scroll cs s) = screen_state.more s"
  "screen_state.more (fold putc_scroll_display cs s) = screen_state.more s"
  "screen_state.more (fold putc cs s) = screen_state.more s"
  by (induction cs arbitrary: s) simp_all

text \<open>No output changes which terminal is written to and which one is shown.\<close>

lemma scroll_terminals [simp]:
  "active_terminal (scroll_active s) = active_terminal s" "display_terminal (scroll_active s) = display_terminal s"
  "active_terminal (scroll_display s) = active_terminal s" "display_terminal (scroll_display s) = display_terminal s"
proof -
  show "active_terminal (scroll_active s) = active_terminal s" "display_terminal (scroll_active s) = display_terminal s"
    by (induction s rule: scroll_active.induct) (subst scroll_active.simps, simp)+
  show "active_terminal (scroll_display s) = active_terminal s" "display_terminal (scroll_display s) = display_terminal s"
    by (induction s rule: scroll_display.induct) (subst scroll_display.simps, simp)+
qed

lemma console_terminals [simp]:
  "active_terminal (putc_scroll c s) = active_terminal s" "display_terminal (putc_scroll c s) = display_terminal s"
  "active_terminal (putc_scroll_display c s) = active_terminal s" "display_terminal (putc_scroll_display c s) = display_terminal s"
  "active_terminal (delete_c s) = active_terminal s" "display_terminal (delete_c s) = display_terminal s"
  "active_terminal (clear s) = active_terminal s" "display_terminal (clear s) = display_terminal s"
  by (simp_all add: putc_scroll_def putc_scroll_display_def delete_c_def clear_def advance_def update_cursor_def outb_def Let_def)

lemma console_fold_terminals [simp]:
  "active_terminal (fold putc_scroll cs s) = active_terminal s" "display_terminal (fold putc_scroll cs s) = display_terminal s"
  "active_terminal (fold putc_scroll_display cs s) = active_terminal s" "display_terminal (fold putc_scroll_display cs s) = display_terminal s"
  by (induction cs arbitrary: s) simp_all

section \<open>Properties\<close>

text \<open>
  C11: \<open>putc_scroll\<close> refines a character terminal. In a console whose cursors are on the
  screen, writing a character for the running terminal types it there (a newline or carriage
  return starts a row, a full row wraps, the bottom row scrolls), whether that terminal is
  displayed (video memory) or not (its own buffer); the text and cursors of the other two
  terminals stay as they are, and the cursors stay on the screen.
\<close>

theorem putc_scroll_refines_terminal:
  assumes "console_ok s" and "t < 3"
  shows "console_ok (putc_scroll c s)
    \<and> vterm_of (putc_scroll c s) t = (if t = active_terminal s then v_putc c (vterm_of s t) else vterm_of s t)"
  using assms by (simp add: putc_scroll_refines)

definition screen_boot :: screen_state where
  "screen_boot = \<lparr>ram = \<lambda>_. 0, io = [], iflag = False, master_mask = 0xFB, slave_mask = 0xFF, RTC_ctr = 0, RTC_flag = 0,
     screen_x = 0, screen_y = 0, screen_x_array = \<lambda>_. 0, screen_y_array = \<lambda>_. 24,
     display_terminal = 0, active_terminal = 1\<rparr>"

lemma screen_boot_ok: "console_ok screen_boot"
  by (simp add: console_ok_def screen_boot_def cursor_ok_def)

theorem putc_scroll_refines_terminal_witness:
  "vterm_of (putc_scroll 10 screen_boot) 1 = v_putc 10 (vterm_of screen_boot 1)
   \<and> vterm_of (putc_scroll 10 screen_boot) 0 = vterm_of screen_boot 0"
  using putc_scroll_refines_terminal [OF screen_boot_ok, of 1 10] putc_scroll_refines_terminal [OF screen_boot_ok, of 0 10]
  by (simp add: screen_boot_def)

text \<open>
  \<open>puts_scroll\<close> with an explicit length types exactly that many characters, in order,
  on the running terminal, and returns their number.
\<close>

theorem puts_scroll_types_all:
  assumes "console_ok s" and "0 \<le> len" and "t < 3"
  shows "\<exists>s'. puts_scroll src a len s = Some (len, s') \<and> console_ok s'
    \<and> vterm_of s' t = (if t = active_terminal s then fold v_putc (bytes_at src a (nat len)) (vterm_of s t) else vterm_of s t)"
proof -
  have "fold (\<lambda>i. putc_scroll (src (a + of_nat i))) [0..<nat len] s = fold putc_scroll (bytes_at src a (nat len)) s"
    by (simp add: bytes_at_def fold_map comp_def)
  then show ?thesis
    using assms puts_fold_refines [OF assms(1), of "bytes_at src a (nat len)"] by (simp add: puts_scroll_def)
qed

theorem puts_scroll_types_all_witness:
  "\<exists>s'. puts_scroll (\<lambda>_. 65) 0 2 screen_boot = Some (2, s') \<and> vterm_of s' 1 = v_putc 65 (v_putc 65 (vterm_of screen_boot 1))"
  using puts_scroll_types_all [OF screen_boot_ok, of 2 1 "\<lambda>_. 65" 0]
  by (auto simp: screen_boot_def bytes_at_def numeral_2_eq_2)

text \<open>
  Backspace and screen clearing act on the displayed terminal only. Away from the upper left
  corner \<open>delete_c\<close> steps the cursor back, into the previous row when needed, and blanks
  the cell there; \<open>clear\<close> blanks the screen and homes the cursor.
\<close>

theorem delete_and_clear_refine_terminal:
  assumes "console_ok s" and "t < 3" and "(col (vterm_of s (display_terminal s)), row (vterm_of s (display_terminal s))) \<noteq> (0, 0)"
  shows "console_ok (delete_c s) \<and> console_ok (clear s)
    \<and> vterm_of (delete_c s) t = (if t = display_terminal s then v_back (vterm_of s t) else vterm_of s t)
    \<and> vterm_of (clear s) t = (if t = display_terminal s then v_clear (vterm_of s t) else vterm_of s t)"
proof -
  have d: "display_terminal s < 3" using assms(1) by (simp add: console_ok_def)
  note delete = delete_c_refines [OF assms(1,3) refl] and clear = clear_refines [OF assms(1)]
  show ?thesis
    using delete(2,3) clear(2,3) only_terminal_other [OF delete(1) d assms(2)] only_terminal_other [OF clear(1) d assms(2)]
    by auto
qed

theorem delete_and_clear_refine_terminal_witness:
  "vterm_of (delete_c screen_boot) 0 = v_back (vterm_of screen_boot 0) \<and> vterm_of (clear screen_boot) 2 = vterm_of screen_boot 2"
  using delete_and_clear_refine_terminal [OF screen_boot_ok, of 0] delete_and_clear_refine_terminal [OF screen_boot_ok, of 2]
  by (simp add: screen_boot_def vterm_of_def)

text \<open>
  The older \<open>putc\<close> never moves to a new row when it fills one: the column is reduced modulo
  80 before the row is advanced, so after the last column writing goes on at the start of the
  same row.
\<close>

theorem putc_never_wraps_row:
  "c \<noteq> 10 \<Longrightarrow> c \<noteq> 13 \<Longrightarrow> screen_y (putc c s) = screen_y s mod 25"
proof -
  assume "c \<noteq> 10" "c \<noteq> 13"
  moreover have "(screen_x s + 1) mod 80 div 80 = 0"
    by simp
  ultimately show ?thesis by (simp add: putc_def Let_def)
qed

theorem putc_never_wraps_row_witness: "screen_y (putc 65 (screen_boot\<lparr>screen_x := 79, screen_y := 3\<rparr>)) = 3"
  using putc_never_wraps_row [of 65 "screen_boot\<lparr>screen_x := 79, screen_y := 3\<rparr>"] by simp

end
