(* ===== verification/Printf.thy ===== *)
theory Printf
  imports Screen
begin

text \<open>
  \<open>printf\<close> of \<open>student-distrib/lib.c\<close>: the loop over the format string, the scan over \<open>#\<close>
  modifiers (the \<open>goto\<close>) and the conversions. The format string is an object of its own, the
  other arguments are the stack slots behind it, and \<open>stack\<close> is what the uninitialised
  conversion buffer holds. \<open>None\<close> stands for a loop that does not end.
\<close>

section \<open>Definitions\<close>

partial_function (option) skip_alternate :: "memory \<Rightarrow> u32 \<Rightarrow> bool \<Rightarrow> (bool \<times> u32) option" where
  "skip_alternate fmt buf alternate =
     (if fmt buf = 35 then skip_alternate fmt (buf + 1) True else Some (alternate, buf))"

definition conv_x :: "bool \<Rightarrow> u32 \<Rightarrow> memory \<Rightarrow> 'a screen_state_scheme \<Rightarrow> 'a screen_state_scheme option" where
  "conv_x alternate v stack s =
     (if \<not> alternate
      then do { conv_buf \<leftarrow> itoa v stack 0 16; map_option snd (puts (Some conv_buf) 0 s) }
      else do {
        conv_buf \<leftarrow> itoa v stack 8 16;
        starting_index \<leftarrow> strlen conv_buf 8;
        let conv_buf = fold (\<lambda>i b. b(of_nat i := 48)) [nat (sint starting_index)..<8] conv_buf;
        map_option snd (puts (Some conv_buf) starting_index s) })"

definition conv_u :: "u32 \<Rightarrow> memory \<Rightarrow> 'a screen_state_scheme \<Rightarrow> 'a screen_state_scheme option" where
  "conv_u v stack s = do { conv_buf \<leftarrow> itoa v stack 0 10; map_option snd (puts (Some conv_buf) 0 s) }"

definition conv_d :: "u32 \<Rightarrow> memory \<Rightarrow> 'a screen_state_scheme \<Rightarrow> 'a screen_state_scheme option" where
  "conv_d v stack s =
     do { conv_buf \<leftarrow> (if sint v < 0 then itoa (- v) (stack(0 := 45)) 1 10 else itoa v stack 0 10);
          map_option snd (puts (Some conv_buf) 0 s) }"

text \<open>One conversion: the slots it consumes and the state after it.\<close>

definition conversion ::
  "u8 \<Rightarrow> bool \<Rightarrow> u32 \<Rightarrow> memory \<Rightarrow> 'a screen_state_scheme \<Rightarrow> (nat \<times> 'a screen_state_scheme) option" where
  "conversion c alternate arg stack s =
     (if c = 37 then Some (0, putc 37 s)
      else if c = 120 then map_option (Pair 1) (conv_x alternate arg stack s)
      else if c = 117 then map_option (Pair 1) (conv_u arg stack s)
      else if c = 100 then map_option (Pair 1) (conv_d arg stack s)
      else if c = 99 then Some (1, putc (ucast arg) s)
      else if c = 115 then map_option (Pair 1 \<circ> snd) (puts None arg s)
      else Some (0, s))"

partial_function (option) printf_loop ::
  "memory \<Rightarrow> u32 \<Rightarrow> (nat \<Rightarrow> u32) \<Rightarrow> nat \<Rightarrow> memory \<Rightarrow> 'a screen_state_scheme \<Rightarrow> (u32 \<times> 'a screen_state_scheme) option" where
  "printf_loop fmt buf args esp stack s =
     (if fmt buf = 0 then Some (buf, s)
      else if fmt buf = 37 then
        do { (alternate, buf) \<leftarrow> skip_alternate fmt (buf + 1) False;
             (n, s) \<leftarrow> conversion (fmt buf) alternate (args esp) stack s;
             printf_loop fmt (buf + 1) args (esp + n) stack s }
      else printf_loop fmt (buf + 1) args esp stack (putc (fmt buf) s))"

definition printf ::
  "memory \<Rightarrow> u32 \<Rightarrow> (nat \<Rightarrow> u32) \<Rightarrow> memory \<Rightarrow> 'a screen_state_scheme \<Rightarrow> (u32 \<times> 'a screen_state_scheme) option" where
  "printf fmt format args stack s =
     map_option (\<lambda>(buf, s). (buf - format, s)) (printf_loop fmt format args 0 stack s)"

text \<open>
  Printing a literal without conversions, as the kernel's messages are. The lemma
  \<open>printf_literal\<close> below shows that this is what \<open>printf\<close> does with such a format.
\<close>

definition chars :: "string \<Rightarrow> u8 list" where
  "chars cs = map of_char cs"

definition print_lit :: "string \<Rightarrow> 'a screen_state_scheme \<Rightarrow> 'a screen_state_scheme" where
  "print_lit cs s = fold putc (chars cs) s"

text \<open>What a numeric conversion is meant to print.\<close>

definition numeral_text :: "u8 \<Rightarrow> bool \<Rightarrow> u32 \<Rightarrow> u8 list" where
  "numeral_text c alternate v =
     (if c = 120 then
        let ds = map digit_char (digits 16 (unat v))
        in if alternate then replicate (8 - length ds) 48 @ ds else ds
      else if c = 100 \<and> sint v < 0 then 45 # map digit_char (digits 10 (nat (- sint v)))
      else map digit_char (digits 10 (unat v)))"

section \<open>Lemmas\<close>

lemma puts_loop_cstr:
  "cstr_at m (a + index) cs \<Longrightarrow>
     puts_loop (Some m) a index s = Some (index + of_nat (length cs), fold putc cs s)"
proof (induction cs arbitrary: index s)
  case Nil
  then show ?case by (simp add: puts_loop.simps [of "Some m" a index s])
next
  case (Cons c cs)
  then show ?case
    by (simp add: puts_loop.simps [of "Some m" a index s] cstr_at_Cons algebra_simps)
qed

lemma puts_cstr: "cstr_at m a cs \<Longrightarrow> puts (Some m) a s = Some (of_nat (length cs), fold putc cs s)"
  using puts_loop_cstr [of m a 0 cs s] by (simp add: puts_def)

lemma conv_u_text: "conv_u v stack s = Some (fold putc (numeral_text 117 alt v) s)"
  using itoa.conv_numeral [of 10 v stack 0]
  by (auto simp: conv_u_def numeral_text_def puts_cstr)

lemma unat_neg_sint:
  fixes v :: u32
  assumes "sint v < 0"
  shows "unat (- v) = nat (- sint v)"
proof -
  have "- v = of_int (- sint v)" by simp
  moreover have "0 \<le> - sint v" "- sint v < 4294967296"
    using assms sint_ge [of v] by simp_all
  ultimately have "uint (- v) = - sint v"
    by (simp only: uint_of_int32)
  then show ?thesis by (metis unat_eq_nat_uint)
qed

lemma numeral_lengths:
  "length (digits 10 (unat (v :: u32))) \<le> 10" "length (digits 16 (unat v)) \<le> 8"
proof -
  have "unat v < 10 ^ 10" "unat v < 16 ^ 8"
    by (rule less_le_trans [OF unat_lt32], simp)+
  then show "length (digits 10 (unat v)) \<le> 10" "length (digits 16 (unat v)) \<le> 8"
    by (auto intro!: digits_length)
qed

lemma conv_d_text: "conv_d v stack s = Some (fold putc (numeral_text 100 alt v) s)"
proof (cases "sint v < 0")
  case True
  let ?ds = "map digit_char (digits 10 (unat (- v)))"
  have len: "length (digits 10 (unat (- v))) \<le> 10" by (rule numeral_lengths)
  obtain m where m: "itoa (- v) (stack(0 := 45)) 1 10 = Some m" "cstr_at m 1 ?ds"
      "\<forall>a. a \<notin> region 1 (Suc (length (digits 10 (unat (- v))))) \<longrightarrow> m a = (stack(0 := 45)) a"
    using itoa.conv_numeral [of 10 "- v" "stack(0 := 45)" 1] by auto
  have "(0 :: u32) \<notin> region 1 (Suc (length (digits 10 (unat (- v)))))"
  proof
    assume "(0 :: u32) \<in> region 1 (Suc (length (digits 10 (unat (- v)))))"
    then obtain i where i: "i < Suc (length (digits 10 (unat (- v))))" "(0 :: u32) = 1 + of_nat i"
      by (rule region_obtain)
    from i(2) have "(of_nat 0 :: u32) = of_nat (Suc i)" by simp
    then have "0 = Suc i" using i(1) len by (subst (asm) of_nat32_inj) simp_all
    then show False by simp
  qed
  then have "m 0 = 45" using m(3) by simp
  then have "cstr_at m 0 (45 # ?ds)"
    using m(2) len by (simp add: cstr_at_Cons)
  then show ?thesis
    using True m(1) by (simp add: conv_d_def puts_cstr numeral_text_def unat_neg_sint fun_upd_def)
next
  case False
  then show ?thesis
    using itoa.conv_numeral [of 10 v stack 0] by (auto simp: conv_d_def numeral_text_def puts_cstr)
qed

lemma fold_zeros:
  "n \<le> 8 \<Longrightarrow> fold (\<lambda>i b. b(of_nat i := 48)) [n..<8] m a
     = (if n \<le> unat a \<and> unat a < 8 then 48 else m (a :: u32))"
proof (induction "8 - n" arbitrary: n m)
  case (Suc k)
  then have "[n..<8] = n # [Suc n..<8]" by (simp add: upt_rec)
  moreover have "a = of_nat n \<longleftrightarrow> unat a = n"
    using Suc.prems by (auto simp: word_unat_eq_iff)
  ultimately show ?case
    using Suc by (auto simp: not_less_eq_eq fun_upd_def)
qed auto

lemma fold_zeros_frame: "8 \<le> unat a \<Longrightarrow> n \<le> 8 \<Longrightarrow> fold (\<lambda>i b. b(of_nat i := 48)) [n..<8] m (a :: u32) = m a"
  by (simp add: fold_zeros)

lemma cstr_at_zeros:
  "cstr_at m 8 ds \<Longrightarrow> (\<And>a. n \<le> unat a \<Longrightarrow> unat a < 8 \<Longrightarrow> m a = 48) \<Longrightarrow> n \<le> 8 \<Longrightarrow> length ds \<le> 8 \<Longrightarrow>
     cstr_at m (of_nat n) (replicate (8 - n) 48 @ ds)"
proof (induction "8 - n" arbitrary: n)
  case (Suc k)
  then have "cstr_at m (of_nat (Suc n)) (replicate (8 - Suc n) 48 @ ds)"
    by (intro Suc.hyps) auto
  moreover have "replicate (8 - n) 48 @ ds = 48 # (replicate (8 - Suc n) 48 @ ds)"
    using Suc.hyps(2) by (simp flip: replicate_Suc)
  moreover have "m (of_nat n) = 48" using Suc by simp
  moreover have "(48 :: u8) \<noteq> 0" by simp
  moreover have "Suc (length (replicate (8 - Suc n) (48 :: u8) @ ds)) < 4294967296" using Suc.prems by simp
  ultimately show ?case by (simp only: cstr_at_Cons of_nat_Suc add.commute simp_thms)
qed simp

lemma conv_x_text: "conv_x alt v stack s = Some (fold putc (numeral_text 120 alt v) s)"
proof (cases alt)
  case False
  then show ?thesis
    using itoa.conv_numeral [of 16 v stack 0] by (auto simp: conv_x_def numeral_text_def puts_cstr)
next
  case True
  let ?ds = "map digit_char (digits 16 (unat v))"
  let ?n = "length ?ds"
  have n: "?n \<le> 8" by (simp add: numeral_lengths)
  obtain m where m: "itoa v stack 8 16 = Some m" "cstr_at m 8 ?ds"
    using itoa.conv_numeral [of 16 v stack 8] by auto
  define b where "b = fold (\<lambda>i b. b(of_nat i := 48)) [?n..<8] m"
  have "b a = m a" if "a \<in> region 8 (Suc ?n)" for a
  proof -
    from that obtain i where "i < Suc ?n" "a = 8 + of_nat i" by (rule region_obtain)
    then have "a = of_nat (8 + i)" "8 + i < 4294967296" using n by auto
    then have "8 \<le> unat a" by (simp only: unat_of_nat32)
    then show ?thesis using n by (simp add: b_def fold_zeros_frame)
  qed
  then have "cstr_at b 8 ?ds" using m(2) cstr_at_cong [of 8 ?ds b m] by simp
  then have "cstr_at b (of_nat ?n) (replicate (8 - ?n) 48 @ ?ds)"
    by (rule cstr_at_zeros) (use n in \<open>simp_all add: b_def fold_zeros\<close>)
  moreover have "sint (of_nat ?n :: u32) = int ?n"
    using n by (simp add: signed_of_nat signed_take_bit_int_eq_self)
  ultimately show ?thesis
    using True m strlen_cstr [OF m(2)]
    by (simp add: conv_x_def numeral_text_def puts_cstr b_def Let_def)
qed

lemma printf_loop_plain:
  "cstr_at fmt buf cs \<Longrightarrow> 37 \<notin> set cs \<Longrightarrow>
     printf_loop fmt buf args esp stack s = Some (buf + of_nat (length cs), fold putc cs s)"
proof (induction cs arbitrary: buf s)
  case Nil
  then show ?case by (simp add: printf_loop.simps [of fmt buf])
next
  case (Cons c cs)
  then show ?case by (simp add: printf_loop.simps [of fmt buf] cstr_at_Cons algebra_simps)
qed

lemma printf_literal:
  "cstr_at fmt format (chars cs) \<Longrightarrow> 37 \<notin> set (chars cs) \<Longrightarrow>
     printf fmt format args stack s = Some (of_nat (length cs), print_lit cs s)"
  by (simp add: printf_def printf_loop_plain print_lit_def) (simp add: chars_def)

section \<open>Properties\<close>

text \<open>
  The numeric conversions of \<open>printf\<close> print the value. \<open>%x\<close> and \<open>%u\<close> print the hexadecimal
  and decimal numeral, \<open>%d\<close> the signed decimal numeral (also of the smallest integer), and
  \<open>%#x\<close> the hexadecimal numeral padded with zeros to exactly eight digits; each consumes one
  argument and returns, whatever the uninitialised conversion buffer held.
\<close>

theorem printf_numbers:
  "c \<in> {100, 117, 120} \<Longrightarrow>
     conversion c alt v stack s = Some (1, fold putc (numeral_text c alt v) s)
     \<and> (c = 120 \<and> alt \<longrightarrow> length (numeral_text c alt v) = 8)"
proof -
  have "length (digits 16 (unat v)) \<le> 8" by (rule numeral_lengths)
  then show "c \<in> {100, 117, 120} \<Longrightarrow> ?thesis"
    using conv_u_text [of v stack s alt] conv_d_text [of v stack s alt] conv_x_text [of alt v stack s]
    by (auto simp: conversion_def) (simp add: numeral_text_def Let_def)
qed

theorem printf_numbers_witness:
  "conversion 120 True 14 (\<lambda>_. 0) screen_boot = Some (1, fold putc [48, 48, 48, 48, 48, 48, 48, 69] screen_boot)"
proof -
  have "numeral_text 120 True 14 = [48, 48, 48, 48, 48, 48, 48, 69]" by code_simp
  then show ?thesis using printf_numbers [of 120 True 14 "\<lambda>_. 0" screen_boot] by simp
qed

end
