(* ===== verification/Bitfield.thy ===== *)
theory Bitfield
  imports Prelude
begin

text \<open>
  C bit-fields in a 32-bit unit, as the page table entries of \<open>student-distrib/paging.h\<close> and the
  descriptors of \<open>student-distrib/x86_desc.h\<close> use them. A field is its lowest bit and its width.
  The laws are those of independent variables: a field reads back what was stored into it and a
  store leaves every field that does not overlap as it was.
\<close>

type_synonym field = "nat \<times> nat"

definition get_field :: "field \<Rightarrow> u32 \<Rightarrow> u32" where
  "get_field f e = take_bit (snd f) (drop_bit (fst f) e)"

definition set_field :: "field \<Rightarrow> u32 \<Rightarrow> u32 \<Rightarrow> u32" where
  "set_field f v e = (e AND NOT (push_bit (fst f) (mask (snd f)))) OR push_bit (fst f) (take_bit (snd f) v)"

definition in_unit :: "field \<Rightarrow> bool" where
  "in_unit f \<longleftrightarrow> fst f + snd f \<le> 32"

definition apart :: "field \<Rightarrow> field \<Rightarrow> bool" where
  "apart f g \<longleftrightarrow> fst f + snd f \<le> fst g \<or> fst g + snd g \<le> fst f"

text \<open>Storing a list of fields in order.\<close>

definition set_fields :: "(field \<times> u32) list \<Rightarrow> u32 \<Rightarrow> u32" where
  "set_fields fs e = fold (\<lambda>(f, v). set_field f v) fs e"

lemma bit_set_field:
  "n < 32 \<Longrightarrow> bit (set_field f v e) n = (if fst f \<le> n \<and> n < fst f + snd f then bit v (n - fst f) else bit e n)"
  by (auto simp: set_field_def bit_simps)

lemma get_set_field: "in_unit f \<Longrightarrow> get_field f (set_field f v e) = take_bit (snd f) v"
  unfolding get_field_def in_unit_def
  by (rule bit_word_eqI) (auto simp: bit_simps bit_set_field)

lemma get_set_apart: "apart f g \<Longrightarrow> in_unit g \<Longrightarrow> get_field g (set_field f v e) = get_field g e"
  unfolding get_field_def in_unit_def apart_def
  by (rule bit_word_eqI) (auto simp: bit_simps bit_set_field)

lemma set_fields_simps [simp]:
  "set_fields [] e = e" "set_fields ((f, v) # fs) e = set_fields fs (set_field f v e)"
  by (simp_all add: set_fields_def)

lemma bit_set_fields_other:
  "n < 32 \<Longrightarrow> \<forall>(f, v)\<in>set fs. \<not> (fst f \<le> n \<and> n < fst f + snd f) \<Longrightarrow> bit (set_fields fs e) n = bit e n"
  by (induction fs arbitrary: e) (auto simp: bit_set_field)

text \<open>Fields that tile the unit determine it: what the unit held before does not matter.\<close>

definition covers :: "field list \<Rightarrow> bool" where
  "covers fs \<longleftrightarrow> (\<forall>n\<in>set [0..<32]. \<exists>f\<in>set fs. fst f \<le> n \<and> n < fst f + snd f)"

lemma set_fields_cong_bit:
  "n < 32 \<Longrightarrow> (\<exists>f\<in>set (map fst fs). fst f \<le> n \<and> n < fst f + snd f) \<Longrightarrow>
     bit (set_fields fs e) n = bit (set_fields fs e') n"
proof (induction fs arbitrary: e e')
  case (Cons fv fs)
  obtain f v where fv: "fv = (f, v)" by (cases fv)
  show ?case
  proof (cases "\<exists>f\<in>set (map fst fs). fst f \<le> n \<and> n < fst f + snd f")
    case True
    with Cons show ?thesis by (simp add: fv)
  next
    case False
    then have "\<forall>(g, w)\<in>set fs. \<not> (fst g \<le> n \<and> n < fst g + snd g)" by force
    moreover from False Cons.prems have "fst f \<le> n \<and> n < fst f + snd f" by (auto simp: fv)
    ultimately show ?thesis
      using Cons.prems(1) by (simp add: fv bit_set_fields_other bit_set_field)
  qed
qed simp

lemma set_fields_covers: "covers (map fst fs) \<Longrightarrow> set_fields fs e = set_fields fs e'"
  unfolding covers_def
  by (rule bit_word_eqI) (simp add: set_fields_cong_bit)

lemmas bitfield_simps = get_set_field get_set_apart in_unit_def apart_def

end
