(* ===== verification/Paging.thy ===== *)
theory Paging
  imports Printf Bitfield
begin

text \<open>
  Paging, \<open>student-distrib/paging.c\<close>: the page directory, the page table of the first 4 MB and
  the page table of the user video window, with the field layout of \<open>paging.h\<close>. The processor's
  address translation is the function \<open>translate\<close>; the lemmas say exactly which virtual
  addresses are mapped, to what and with which rights, after each operation.
\<close>

section \<open>State and operations\<close>

text \<open>Where the linker puts the three tables. The source asks for 4096-byte alignment.\<close>

record layout =
  addr_page_directory :: u32
  addr_page_table :: u32
  addr_vidMem_table :: u32

text \<open>
  \<open>tlb\<close> is what the translation cache may hold: the tables as they were when \<open>cr3\<close> was last
  loaded.
\<close>

record paging_state = screen_state +
  page_directory :: "nat \<Rightarrow> u32"
  page_table :: "nat \<Rightarrow> u32"
  vidMem_table :: "nat \<Rightarrow> u32"
  cr0 :: u32
  cr3 :: u32
  cr4 :: u32
  tlb :: "(nat \<Rightarrow> u32) \<times> (nat \<Rightarrow> u32) \<times> (nat \<Rightarrow> u32)"

definition pt_present :: field where "pt_present = (0, 1)"
definition pt_rw :: field where "pt_rw = (1, 1)"
definition pt_us :: field where "pt_us = (2, 1)"
definition pt_wthrough :: field where "pt_wthrough = (3, 1)"
definition pt_cache_da :: field where "pt_cache_da = (4, 1)"
definition pt_accessed :: field where "pt_accessed = (5, 1)"
definition pt_dirty :: field where "pt_dirty = (6, 1)"
definition pt_size :: field where "pt_size = (7, 1)"
definition pt_global :: field where "pt_global = (8, 1)"
definition pt_avail :: field where "pt_avail = (9, 3)"
definition kb_base_addr :: field where "kb_base_addr = (12, 20)"
definition mb_attr :: field where "mb_attr = (12, 1)"
definition mb_reserved :: field where "mb_reserved = (13, 9)"
definition mb_base_addr :: field where "mb_base_addr = (22, 10)"

text \<open>In a page table entry bit 7 is \<open>page_attr\<close>; the other fields lie as in a directory entry.\<close>

lemmas field_defs = pt_present_def pt_rw_def pt_us_def pt_wthrough_def pt_cache_da_def pt_accessed_def
  pt_dirty_def pt_size_def pt_global_def pt_avail_def kb_base_addr_def mb_attr_def mb_reserved_def mb_base_addr_def

text \<open>
  The local \<open>pdt_entry\<close> is uninitialised before its fields are assigned, so the entry is built
  from an arbitrary word; \<open>init_entries\<close> below shows that the word does not matter.
\<close>

definition kb_fields :: "(field \<times> u32) list" where
  "kb_fields = [(pt_present, 0), (pt_rw, 0), (pt_us, 0), (pt_wthrough, 0), (pt_cache_da, 0), (pt_accessed, 0),
     (pt_dirty, 0), (pt_size, 0), (pt_global, 0), (pt_avail, 0), (kb_base_addr, 0)]"

definition mb_fields :: "(field \<times> u32) list" where
  "mb_fields = [(pt_present, 0), (pt_rw, 0), (pt_us, 0), (pt_wthrough, 0), (pt_cache_da, 0), (pt_accessed, 0),
     (pt_dirty, 0), (pt_size, 1), (pt_global, 0), (pt_avail, 0), (mb_attr, 0), (mb_reserved, 0), (mb_base_addr, 0)]"

definition set_pde :: "nat \<Rightarrow> (field \<times> u32) list \<Rightarrow> 'a paging_state_scheme \<Rightarrow> 'a paging_state_scheme" where
  "set_pde idx fs s = s\<lparr>page_directory := (page_directory s)(idx := set_fields fs (page_directory s idx))\<rparr>"

definition set_pte :: "nat \<Rightarrow> (field \<times> u32) list \<Rightarrow> 'a paging_state_scheme \<Rightarrow> 'a paging_state_scheme" where
  "set_pte idx fs s = s\<lparr>page_table := (page_table s)(idx := set_fields fs (page_table s idx))\<rparr>"

definition set_vte :: "nat \<Rightarrow> (field \<times> u32) list \<Rightarrow> 'a paging_state_scheme \<Rightarrow> 'a paging_state_scheme" where
  "set_vte idx fs s = s\<lparr>vidMem_table := (vidMem_table s)(idx := set_fields fs (vidMem_table s idx))\<rparr>"

definition pdt_init_kb :: "u32 \<Rightarrow> nat \<Rightarrow> 'a paging_state_scheme \<Rightarrow> 'a paging_state_scheme" where
  "pdt_init_kb pdt_entry idx s = s\<lparr>page_directory := (page_directory s)(idx := set_fields kb_fields pdt_entry)\<rparr>"

definition pdt_init_mb :: "u32 \<Rightarrow> nat \<Rightarrow> 'a paging_state_scheme \<Rightarrow> 'a paging_state_scheme" where
  "pdt_init_mb pdt_entry idx s = s\<lparr>page_directory := (page_directory s)(idx := set_fields mb_fields pdt_entry)\<rparr>"

definition pt_init :: "u32 \<Rightarrow> nat \<Rightarrow> 'a paging_state_scheme \<Rightarrow> 'a paging_state_scheme" where
  "pt_init pt_entry idx s = s\<lparr>page_table := (page_table s)(idx := set_fields kb_fields pt_entry)\<rparr>"

text \<open>A load of \<open>cr3\<close> empties the translation cache.\<close>

definition load_cr3 :: "u32 \<Rightarrow> 'a paging_state_scheme \<Rightarrow> 'a paging_state_scheme" where
  "load_cr3 v s = s\<lparr>cr3 := v, tlb := (page_directory s, page_table s, vidMem_table s)\<rparr>"

definition flush_tlb :: "'a paging_state_scheme \<Rightarrow> 'a paging_state_scheme" where
  "flush_tlb s = load_cr3 (cr3 s) s"

definition mark_video :: "nat \<Rightarrow> 'a paging_state_scheme \<Rightarrow> 'a paging_state_scheme" where
  "mark_video i s = set_pte i [(pt_present, 1), (pt_rw, 1), (pt_cache_da, 1), (kb_base_addr, of_nat i)] s"

text \<open>The two loops of \<open>paging_init\<close>.\<close>

definition init_pdes :: "u32 \<Rightarrow> nat \<Rightarrow> nat \<Rightarrow> 'a paging_state_scheme \<Rightarrow> 'a paging_state_scheme" where
  "init_pdes stack a b s = fold (\<lambda>i s. set_pde i [(mb_base_addr, of_nat i)] (pdt_init_mb stack i s)) [a..<b] s"

definition init_ptes :: "u32 \<Rightarrow> nat \<Rightarrow> 'a paging_state_scheme \<Rightarrow> 'a paging_state_scheme" where
  "init_ptes stack b s =
     fold (\<lambda>i s. set_pte i [(pt_present, 0), (kb_base_addr, of_nat i)] (pt_init stack i s)) [0..<b] s"

definition paging_init :: "layout \<Rightarrow> u32 \<Rightarrow> 'a paging_state_scheme \<Rightarrow> 'a paging_state_scheme" where
  "paging_init L stack s =
     (let s = init_pdes stack 2 1024 s;
          s = init_ptes stack 1024 s;
          s = pdt_init_kb stack 0 s;
          s = set_pde 0 [(pt_present, 1), (pt_rw, 1), (kb_base_addr, drop_bit 12 (addr_page_table L))] s;
          s = mark_video 0xB8 s;
          s = mark_video (0xB8 + 1) s;
          s = mark_video (0xB8 + 2) s;
          s = mark_video (0xB8 + 3) s;
          s = mark_video (0xB8 + 4) s;
          s = pdt_init_mb stack 1 s;
          s = set_pde 1 [(pt_present, 1), (pt_rw, 1), (mb_base_addr, 1)] s;
          s = print_lit ''PAGE_INIT OK\<newline>'' s;
          s = load_cr3 (addr_page_directory L) s;
          s = s\<lparr>cr4 := cr4 s OR 0x10\<rparr>
      in s\<lparr>cr0 := cr0 s OR 0x80000001\<rparr>)"

definition pid_page_map :: "int \<Rightarrow> 'a paging_state_scheme \<Rightarrow> 'a paging_state_scheme" where
  "pid_page_map pid s =
     (let s = set_pde 32 [(pt_present, 1), (pt_size, 1), (pt_us, 1), (pt_rw, 1),
                (mb_base_addr, of_int ((pid * 0x400000 + 0x800000) div 0x400000))] s
      in flush_tlb s)"

text \<open>The callers pass \<open>132 * _MB_\<close>; the index \<open>vAddr >> 22\<close> is not negative.\<close>

definition vidMem_page_map :: "layout \<Rightarrow> u32 \<Rightarrow> int \<Rightarrow> int \<Rightarrow> 'a paging_state_scheme \<Rightarrow> 'a paging_state_scheme" where
  "vidMem_page_map L stack vAddr t_id s =
     (let t_display = int (get_display_terminal s);
          pd_i = nat (vAddr div 0x400000);
          s = pdt_init_kb stack pd_i s;
          s = set_pde pd_i [(pt_present, 1), (pt_us, 1), (pt_rw, 1),
                (kb_base_addr, drop_bit 12 (addr_vidMem_table L))] s;
          s = set_vte 0 [(pt_present, 1), (pt_rw, 1), (pt_us, 1), (pt_wthrough, 0), (pt_cache_da, 0),
                (pt_accessed, 0), (pt_dirty, 0), (pt_size, 0), (pt_global, 0), (pt_avail, 0)] s;
          s = (if t_id = t_display then set_vte 0 [(kb_base_addr, 0xB8)] s
               else set_vte 0 [(kb_base_addr, 0)] s)
      in flush_tlb s)"

definition set_active_terminal_paging :: "int \<Rightarrow> 'a paging_state_scheme \<Rightarrow> 'a paging_state_scheme" where
  "set_active_terminal_paging terminal_id s = flush_tlb (set_pte 0xB8 [(kb_base_addr, 0xB8)] s)"

section \<open>Address translation\<close>

text \<open>
  How the processor translates (Intel SDM vol. 3, 32-bit paging with 4 MB pages enabled): the
  physical address and whether user mode may access and write. The only page tables are the two
  arrays of the kernel.
\<close>

record mapping_info =
  frame_addr :: u32
  user_ok :: bool
  writable :: bool

definition table_at :: "layout \<Rightarrow> 'a paging_state_scheme \<Rightarrow> u32 \<Rightarrow> (nat \<Rightarrow> u32) option" where
  "table_at L s base =
     (if base = drop_bit 12 (addr_page_table L) then Some (page_table s)
      else if base = drop_bit 12 (addr_vidMem_table L) then Some (vidMem_table s)
      else None)"

definition translate :: "layout \<Rightarrow> 'a paging_state_scheme \<Rightarrow> u32 \<Rightarrow> mapping_info option" where
  "translate L s va =
     (let pde = page_directory s (unat (drop_bit 22 va))
      in if get_field pt_present pde = 0 then None
         else if get_field pt_size pde = 1 then
           Some \<lparr>frame_addr = push_bit 22 (get_field mb_base_addr pde) + take_bit 22 va,
                 user_ok = (get_field pt_us pde = 1), writable = (get_field pt_rw pde = 1)\<rparr>
         else case table_at L s (get_field kb_base_addr pde) of None \<Rightarrow> None
         | Some pt \<Rightarrow>
           let pte = pt (unat (take_bit 10 (drop_bit 12 va)))
           in if get_field pt_present pte = 0 then None
              else Some \<lparr>frame_addr = push_bit 12 (get_field kb_base_addr pte) + take_bit 12 va,
                user_ok = (get_field pt_us pde = 1 \<and> get_field pt_us pte = 1),
                writable = (get_field pt_rw pde = 1 \<and> get_field pt_rw pte = 1)\<rparr>)"

definition layout_ok :: "layout \<Rightarrow> bool" where
  "layout_ok L \<longleftrightarrow> take_bit 12 (addr_page_table L) = 0 \<and> take_bit 12 (addr_vidMem_table L) = 0
     \<and> addr_page_table L \<noteq> addr_vidMem_table L"

text \<open>
  The kernel's accesses through a pointer a program passed. A store to an unmapped address raises
  a page fault, whose handler never returns: that is \<open>None\<close>.
\<close>

definition view :: "layout \<Rightarrow> 'a paging_state_scheme \<Rightarrow> memory" where
  "view L s = (\<lambda>a. case translate L s a of Some i \<Rightarrow> ram s (frame_addr i) | None \<Rightarrow> 0)"

definition store_byte :: "layout \<Rightarrow> u32 \<Rightarrow> u8 \<Rightarrow> 'a paging_state_scheme \<Rightarrow> 'a paging_state_scheme option" where
  "store_byte L a v s =
     (case translate L s a of None \<Rightarrow> None | Some i \<Rightarrow> Some (s\<lparr>ram := (ram s)(frame_addr i := v)\<rparr>))"

fun store_bytes :: "layout \<Rightarrow> u32 \<Rightarrow> u8 list \<Rightarrow> 'a paging_state_scheme \<Rightarrow> 'a paging_state_scheme option" where
  "store_bytes L a [] s = Some s"
| "store_bytes L a (x # xs) s = do { s \<leftarrow> store_byte L a x s; store_bytes L (a + 1) xs s }"

text \<open>No stale translation: the cache was emptied after the last change of a table.\<close>

definition tlb_fresh :: "'a paging_state_scheme \<Rightarrow> bool" where
  "tlb_fresh s \<longleftrightarrow> tlb s = (page_directory s, page_table s, vidMem_table s)"

section \<open>Lemmas\<close>

lemma init_entries [simp]: "set_fields kb_fields e = 0" "set_fields mb_fields e = 0x80"
proof -
  have "covers (map fst kb_fields)" "covers (map fst mb_fields)"
    by code_simp+
  moreover have "set_fields kb_fields 0 = 0" "set_fields mb_fields 0 = 0x80"
    by code_simp+
  ultimately show "set_fields kb_fields e = 0" "set_fields mb_fields e = 0x80"
    by (metis set_fields_covers)+
qed

text \<open>Fields of an entry after field stores.\<close>

lemma get_fields:
  "get_field g (set_field f v e) = (if f = g then take_bit (snd g) v else get_field g e)"
  if "in_unit g" "f = g \<or> apart f g"
  using that by (auto simp: get_set_field get_set_apart)

lemma get_field_zero [simp]: "get_field f 0 = 0"
  by (simp add: get_field_def)

lemma get_field_80 [simp]:
  "get_field pt_present 0x80 = 0" "get_field pt_size 0x80 = 1" "get_field pt_us 0x80 = 0"
  by code_simp+

lemma paging_frames [simp]:
  "page_directory (set_pte i fs s) = page_directory s" "page_directory (set_vte i fs s) = page_directory s"
  "page_table (set_pde i fs s) = page_table s" "page_table (set_vte i fs s) = page_table s"
  "vidMem_table (set_pde i fs s) = vidMem_table s" "vidMem_table (set_pte i fs s) = vidMem_table s"
  "page_table (pdt_init_kb e i s) = page_table s" "page_table (pdt_init_mb e i s) = page_table s"
  "vidMem_table (pdt_init_kb e i s) = vidMem_table s" "vidMem_table (pdt_init_mb e i s) = vidMem_table s"
  "page_directory (pt_init e i s) = page_directory s" "vidMem_table (pt_init e i s) = vidMem_table s"
  "page_directory (flush_tlb s) = page_directory s" "page_table (flush_tlb s) = page_table s"
  "vidMem_table (flush_tlb s) = vidMem_table s"
  "page_directory (mark_video i s) = page_directory s" "vidMem_table (mark_video i s) = vidMem_table s"
  "display_terminal (set_pde i fs s) = display_terminal s" "display_terminal (pdt_init_kb e i s) = display_terminal s"
  by (simp_all add: set_pde_def set_pte_def set_vte_def pdt_init_kb_def pdt_init_mb_def pt_init_def
      flush_tlb_def load_cr3_def mark_video_def)

lemma paging_updates [simp]:
  "page_directory (set_pde i fs s) = (page_directory s)(i := set_fields fs (page_directory s i))"
  "page_table (set_pte i fs s) = (page_table s)(i := set_fields fs (page_table s i))"
  "vidMem_table (set_vte i fs s) = (vidMem_table s)(i := set_fields fs (vidMem_table s i))"
  "page_directory (pdt_init_kb e i s) = (page_directory s)(i := 0)"
  "page_directory (pdt_init_mb e i s) = (page_directory s)(i := 0x80)"
  "page_table (pt_init e i s) = (page_table s)(i := 0)"
  "page_table (mark_video i s) = (page_table s)
     (i := set_fields [(pt_present, 1), (pt_rw, 1), (pt_cache_da, 1), (kb_base_addr, of_nat i)] (page_table s i))"
  by (simp_all add: set_pde_def set_pte_def set_vte_def pdt_init_kb_def pdt_init_mb_def pt_init_def mark_video_def
      del: set_fields_simps)

lemma putc_paging [simp]:
  "page_directory (putc c s) = page_directory s" "page_table (putc c s) = page_table s"
  "vidMem_table (putc c s) = vidMem_table s" "display_terminal (putc c s) = display_terminal s"
  by (simp_all add: putc_def Let_def)

lemma print_lit_paging [simp]:
  "page_directory (print_lit cs s) = page_directory s" "page_table (print_lit cs s) = page_table s"
  "vidMem_table (print_lit cs s) = vidMem_table s"
proof -
  have "page_directory (fold putc xs t) = page_directory t \<and> page_table (fold putc xs t) = page_table t
      \<and> vidMem_table (fold putc xs t) = vidMem_table t" for xs and t :: "'a paging_state_scheme"
    by (induction xs arbitrary: t) simp_all
  then show "page_directory (print_lit cs s) = page_directory s" "page_table (print_lit cs s) = page_table s"
    "vidMem_table (print_lit cs s) = vidMem_table s"
    by (simp_all add: print_lit_def)
qed

lemma pde_loop:
  "page_directory (init_pdes e a b s) j
     = (if a \<le> j \<and> j < b then set_field mb_base_addr (of_nat j) 0x80 else page_directory s j)
   \<and> page_table (init_pdes e a b s) = page_table s"
  unfolding init_pdes_def by (induction b) (auto simp: le_Suc_eq)

lemma pte_loop:
  "page_table (init_ptes e b s) j
     = (if j < b then set_field kb_base_addr (of_nat j) (set_field pt_present 0 0) else page_table s j)
   \<and> page_directory (init_ptes e b s) = page_directory s"
  unfolding init_ptes_def by (induction b) (auto simp: less_Suc_eq)

lemma paging_init_directory:
  "i < 1024 \<Longrightarrow> page_directory (paging_init L e s) i =
     (if i = 0 then set_fields [(pt_present, 1), (pt_rw, 1), (kb_base_addr, drop_bit 12 (addr_page_table L))] 0
      else if i = 1 then set_fields [(pt_present, 1), (pt_rw, 1), (mb_base_addr, 1)] 0x80
      else set_field mb_base_addr (of_nat i) 0x80)"
  by (simp add: paging_init_def Let_def pde_loop pte_loop load_cr3_def del: set_fields_simps)

lemma paging_init_table:
  "j < 1024 \<Longrightarrow> page_table (paging_init L e s) j =
     (if 0xB8 \<le> j \<and> j \<le> 0xBC
      then set_fields [(pt_present, 1), (pt_rw, 1), (pt_cache_da, 1), (kb_base_addr, of_nat j)]
             (set_field kb_base_addr (of_nat j) (set_field pt_present 0 0))
      else set_field kb_base_addr (of_nat j) (set_field pt_present 0 0))"
proof -
  assume "j < 1024"
  moreover have "0xB8 \<le> j \<and> j \<le> 0xBC \<longleftrightarrow> j = 0xB8 \<or> j = 0xB9 \<or> j = 0xBA \<or> j = 0xBB \<or> j = 0xBC"
    by auto
  ultimately show ?thesis
    by (auto simp add: paging_init_def Let_def pte_loop load_cr3_def simp del: set_fields_simps)
qed

text \<open>Directory and table index of an address.\<close>

lemma dir_index: "unat (drop_bit 22 va) = unat (va :: u32) div 4194304" "unat (drop_bit 22 va) < 1024"
proof -
  show "unat (drop_bit 22 va) = unat va div 4194304"
    by (simp add: drop_bit_eq_div unat_div_distrib)
  then show "unat (drop_bit 22 va) < 1024"
    using unat_lt32 [of va] by (simp add: div_less_iff_less_mult)
qed

lemma page_index: "unat (take_bit 10 (drop_bit 12 va)) = unat (va :: u32) div 4096 mod 1024"
  by (simp add: drop_bit_eq_div unat_div_distrib take_bit_eq_mod unat_mod_distrib)

lemma large_identity: "push_bit 22 (take_bit 10 (drop_bit 22 va)) + take_bit 22 va = (va :: u32)"
proof -
  have "take_bit 10 (drop_bit 22 va) = drop_bit 22 va"
    by (rule bit_word_eqI) (auto simp: bit_simps dest: bit_imp_le_length)
  then show ?thesis by (simp add: bits_ident)
qed

lemma take_page_number [simp]: "take_bit 20 (drop_bit 12 a) = drop_bit 12 (a :: u32)"
  by (rule bit_word_eqI) (auto simp: bit_simps dest: bit_imp_le_length)

lemma page_number_word: "of_nat (unat va div 4096) = drop_bit 12 (va :: u32)"
proof -
  have "unat va div 4096 = unat (drop_bit 12 va)"
    by (simp add: drop_bit_eq_div unat_div_distrib)
  then show ?thesis by simp
qed

lemma small_identity: "push_bit 12 (take_bit 20 (of_nat (unat va div 4096))) + take_bit 12 va = (va :: u32)"
  by (simp only: page_number_word take_page_number bits_ident)

lemma small_identity': "push_bit 12 (of_nat (unat va div 4096)) + take_bit 12 va = (va :: u32)"
  by (simp only: page_number_word bits_ident)

lemma video_range: "(184 \<le> n div 4096 \<and> n div 4096 \<le> 188) = (753664 \<le> n \<and> n < 774144)" for n :: nat
proof -
  have "n div 4096 \<le> 188 \<longleftrightarrow> n div 4096 < 189" by auto
  then show ?thesis by (simp add: less_eq_div_iff_mult_less_eq div_less_iff_less_mult)
qed

lemma table_at_page_table: "layout_ok L \<Longrightarrow> table_at L s (take_bit 20 (drop_bit 12 (addr_page_table L))) = Some (page_table s)"
  by (simp add: table_at_def)

lemma table_at_vidMem: "layout_ok L \<Longrightarrow> table_at L s (take_bit 20 (drop_bit 12 (addr_vidMem_table L))) = Some (vidMem_table s)"
proof -
  assume L: "layout_ok L"
  have "drop_bit 12 (addr_vidMem_table L) \<noteq> drop_bit 12 (addr_page_table L)"
    using L bits_ident [of 12 "addr_page_table L"] bits_ident [of 12 "addr_vidMem_table L"]
    by (auto simp: layout_ok_def)
  then show ?thesis by (simp add: table_at_def)
qed

lemma get_field_raw [simp]:
  "get_field (0, Suc 0) 128 = 0" "get_field (7, Suc 0) 128 = 1" "get_field (2, Suc 0) 128 = 0"
  by code_simp+

lemmas entry_simps = get_fields in_unit_def apart_def field_defs

definition direct :: "u32 \<Rightarrow> mapping_info" where
  "direct va = \<lparr>frame_addr = va, user_ok = False, writable = True\<rparr>"

lemma translate_init_low:
  assumes "layout_ok L" "unat va < 4194304"
  shows "translate L (paging_init L e s) va = (if 0xB8000 \<le> unat va \<and> unat va < 0xBD000 then Some (direct va) else None)"
proof -
  let ?s = "paging_init L e s"
  have dir: "page_directory ?s (unat (drop_bit 22 va))
      = set_fields [(pt_present, 1), (pt_rw, 1), (kb_base_addr, drop_bit 12 (addr_page_table L))] 0"
    using assms(2) by (simp add: dir_index(1) paging_init_directory)
  have "unat va div 4096 < 1024" using assms(2) by (simp add: div_less_iff_less_mult)
  then have page: "page_table ?s (unat (take_bit 10 (drop_bit 12 va))) =
      (if 0xB8 \<le> unat va div 4096 \<and> unat va div 4096 \<le> 0xBC
       then set_fields [(pt_present, 1), (pt_rw, 1), (pt_cache_da, 1), (kb_base_addr, of_nat (unat va div 4096))]
              (set_field kb_base_addr (of_nat (unat va div 4096)) (set_field pt_present 0 0))
       else set_field kb_base_addr (of_nat (unat va div 4096)) (set_field pt_present 0 0))"
    by (simp add: page_index paging_init_table del: set_fields_simps)
  show ?thesis
    using assms table_at_page_table [OF assms(1), of ?s]
    by (simp add: translate_def dir page Let_def entry_simps direct_def small_identity video_range)
qed

lemma dir_one: "4194304 \<le> n \<Longrightarrow> n < 4294967296 \<Longrightarrow>
  n div 4194304 < 1024 \<and> n div 4194304 \<noteq> 0 \<and> (n div 4194304 = 1 \<longleftrightarrow> n < 8388608)" for n :: nat
proof -
  assume n: "4194304 \<le> n" "n < 4294967296"
  have "n div 4194304 < 2 \<longleftrightarrow> n < 8388608" by (simp add: div_less_iff_less_mult)
  moreover have "1 \<le> n div 4194304" using n(1) by (simp add: less_eq_div_iff_mult_less_eq)
  moreover have "n div 4194304 < 1024" using n(2) by (simp add: div_less_iff_less_mult)
  ultimately show ?thesis by linarith
qed

lemma translate_init_high:
  assumes "4194304 \<le> unat va"
  shows "translate L (paging_init L e s) va = (if unat va < 8388608 then Some (direct va) else None)"
proof -
  note i = dir_one [OF assms unat_lt32]
  have "push_bit 22 1 + take_bit 22 va = va" if "unat va < 8388608"
  proof -
    have "unat (drop_bit 22 va) = unat (1 :: u32)" using i that by (simp add: dir_index(1))
    then have "drop_bit 22 va = 1" by (simp only: word_unat_eq_iff)
    then show ?thesis using large_identity [of va] by simp
  qed
  with i show ?thesis
    by (simp add: translate_def dir_index(1) Let_def paging_init_directory entry_simps direct_def)
qed

section \<open>The address space as a whole\<close>

text \<open>
  What the paging code keeps: the kernel's identity mapping, at 128 MB the page of one process,
  and at 132 MB one frame for user video memory.
\<close>

record aspace =
  user :: "int option"
  video :: "u32 option"

definition as_translate :: "aspace \<Rightarrow> u32 \<Rightarrow> mapping_info option" where
  "as_translate A va =
     (if 0xB8000 \<le> unat va \<and> unat va < 0xBD000 \<or> 0x400000 \<le> unat va \<and> unat va < 0x800000
      then Some \<lparr>frame_addr = va, user_ok = False, writable = True\<rparr>
      else if 0x8000000 \<le> unat va \<and> unat va < 0x8400000
      then map_option (\<lambda>p. \<lparr>frame_addr = 0x800000 + of_int p * 0x400000 + (va - 0x8000000), user_ok = True, writable = True\<rparr>) (user A)
      else if 0x8400000 \<le> unat va \<and> unat va < 0x8401000
      then map_option (\<lambda>f. \<lparr>frame_addr = f + (va - 0x8400000), user_ok = True, writable = True\<rparr>) (video A)
      else None)"

text \<open>The fields of an entry: present, size, user, write and base.\<close>

definition entry :: "field \<Rightarrow> u32 \<Rightarrow> u32 \<times> u32 \<times> u32 \<times> u32" where
  "entry base e = (get_field pt_present e, get_field pt_us e, get_field pt_rw e, get_field base e)"

definition pde_ok :: "layout \<Rightarrow> aspace \<Rightarrow> nat \<Rightarrow> u32 \<Rightarrow> bool" where
  "pde_ok L A i e =
     (if i = 0 then get_field pt_size e = 0 \<and> entry kb_base_addr e = (1, 0, 1, drop_bit 12 (addr_page_table L))
      else if i = 1 then get_field pt_size e = 1 \<and> entry mb_base_addr e = (1, 0, 1, 1)
      else if i = 32 then
        (case user A of None \<Rightarrow> get_field pt_present e = 0
         | Some p \<Rightarrow> get_field pt_size e = 1 \<and> entry mb_base_addr e = (1, 1, 1, of_int (p + 2)))
      else if i = 33 then
        (case video A of None \<Rightarrow> get_field pt_present e = 0
         | Some f \<Rightarrow> get_field pt_size e = 0 \<and> entry kb_base_addr e = (1, 1, 1, drop_bit 12 (addr_vidMem_table L)))
      else get_field pt_present e = 0)"

definition pte_ok :: "nat \<Rightarrow> u32 \<Rightarrow> bool" where
  "pte_ok j e = (if 0xB8 \<le> j \<and> j \<le> 0xBC then entry kb_base_addr e = (1, 0, 1, of_nat j) else get_field pt_present e = 0)"

definition vte_ok :: "aspace \<Rightarrow> nat \<Rightarrow> u32 \<Rightarrow> bool" where
  "vte_ok A j e =
     (if j = 0 then case video A of None \<Rightarrow> True | Some f \<Rightarrow> entry kb_base_addr e = (1, 1, 1, drop_bit 12 f)
      else get_field pt_present e = 0)"

definition address_space :: "layout \<Rightarrow> 'a paging_state_scheme \<Rightarrow> aspace \<Rightarrow> bool" where
  "address_space L s A \<longleftrightarrow> (\<forall>i<1024. pde_ok L A i (page_directory s i)) \<and> (\<forall>j<1024. pte_ok j (page_table s j))
     \<and> (\<forall>j<1024. vte_ok A j (vidMem_table s j))
     \<and> (case user A of None \<Rightarrow> True | Some p \<Rightarrow> 0 \<le> p \<and> p < 6) \<and> (case video A of None \<Rightarrow> True | Some f \<Rightarrow> take_bit 12 f = 0)"

lemma dir_range:
  "unat va div 4194304 = 0 \<longleftrightarrow> unat va < 0x400000"
  "unat va div 4194304 = 1 \<longleftrightarrow> 0x400000 \<le> unat va \<and> unat va < 0x800000"
  "unat va div 4194304 = 32 \<longleftrightarrow> 0x8000000 \<le> unat va \<and> unat va < 0x8400000"
  "unat va div 4194304 = 33 \<longleftrightarrow> 0x8400000 \<le> unat va \<and> unat va < 0x8800000"
proof -
  have "n div 4194304 = k \<longleftrightarrow> k * 4194304 \<le> n \<and> n < Suc k * 4194304" for n k :: nat
    by (metis div_nat_eqI dividend_less_div_times div_times_less_eq_dividend less_mult_imp_div_less
        mult.commute mult_Suc add.commute zero_less_numeral)
  from this [of "unat va"] show
    "unat va div 4194304 = 0 \<longleftrightarrow> unat va < 0x400000"
    "unat va div 4194304 = 1 \<longleftrightarrow> 0x400000 \<le> unat va \<and> unat va < 0x800000"
    "unat va div 4194304 = 32 \<longleftrightarrow> 0x8000000 \<le> unat va \<and> unat va < 0x8400000"
    "unat va div 4194304 = 33 \<longleftrightarrow> 0x8400000 \<le> unat va \<and> unat va < 0x8800000"
    by simp_all
qed

lemma large_offset: "drop_bit 22 va = k \<Longrightarrow> take_bit 22 va = va - push_bit 22 k" for va :: u32
  using bits_ident [of 22 va] by (auto simp: algebra_simps)

lemma user_frame:
  assumes "0 \<le> p" "p < (6 :: int)"
  shows "push_bit 22 (take_bit 10 (of_int (p + 2))) = (0x800000 + of_int p * 0x400000 :: u32)"
    and "take_bit 10 (of_int (p + 2)) = (of_int (p + 2) :: u32)"
proof -
  have "p = 0 \<or> p = 1 \<or> p = 2 \<or> p = 3 \<or> p = 4 \<or> p = 5" using assms by auto
  then show "push_bit 22 (take_bit 10 (of_int (p + 2))) = (0x800000 + of_int p * 0x400000 :: u32)"
    "take_bit 10 (of_int (p + 2)) = (of_int (p + 2) :: u32)"
    by (elim disjE; simp)+
qed

lemma dir_word: "unat (drop_bit 22 va) = unat (k :: u32) \<Longrightarrow> drop_bit 22 va = k"
  by (simp only: word_unat_eq_iff)

lemma as_pde: "address_space L s A \<Longrightarrow> pde_ok L A (unat va div 4194304) (page_directory s (unat (drop_bit 22 va)))" for va :: u32
  using dir_index [of va] by (simp add: address_space_def)

lemma as_pte: "address_space L s A \<Longrightarrow> pte_ok (unat va div 4096 mod 1024) (page_table s (unat (take_bit 10 (drop_bit 12 va))))" for va :: u32
  by (simp add: address_space_def page_index)

lemma as_vte: "address_space L s A \<Longrightarrow> vte_ok A (unat va div 4096 mod 1024) (vidMem_table s (unat (take_bit 10 (drop_bit 12 va))))" for va :: u32
  by (simp add: address_space_def page_index)

lemma address_space_kernel:
  assumes "layout_ok L" "address_space L s A" "unat va < 0x800000"
  shows "translate L s va = as_translate A va"
proof (cases "unat va < 0x400000")
  case True
  then have "unat va div 4194304 = 0" "unat va div 4096 mod 1024 = unat va div 4096"
    by (simp_all add: div_less_iff_less_mult)
  then show ?thesis
    using as_pde [OF assms(2), of va] as_pte [OF assms(2), of va] table_at_page_table [OF assms(1), of s]
      small_identity' [of va] True
    by (auto simp: pde_ok_def pte_ok_def entry_def translate_def as_translate_def Let_def video_range)
next
  case False
  then have i: "unat va div 4194304 = 1" using assms(3) by (simp add: dir_range)
  then have "drop_bit 22 va = 1" by (intro dir_word) (simp add: dir_index(1))
  then have "push_bit 22 1 + take_bit 22 va = va" using bits_ident [of 22 va] by simp
  then show ?thesis
    using as_pde [OF assms(2), of va] False assms(3) i
    by (auto simp: pde_ok_def entry_def translate_def as_translate_def Let_def)
qed

lemma address_space_user:
  assumes "layout_ok L" "address_space L s A" "0x800000 \<le> unat va"
  shows "translate L s va = as_translate A va"
proof -
  note pde = as_pde [OF assms(2), of va] and vte = as_vte [OF assms(2), of va]
  have i: "unat va div 4194304 \<noteq> 0" "unat va div 4194304 \<noteq> 1" using assms(3) by (simp_all add: dir_range)
  consider "unat va div 4194304 = 32" | "unat va div 4194304 = 33" | "unat va div 4194304 \<notin> {32, 33}" by auto
  then show ?thesis
  proof cases
    case 1
    then have "take_bit 22 va = va - 0x8000000"
      using large_offset [of va 32] dir_word [of va 32] by (simp add: dir_index(1))
    moreover have "0 \<le> p \<and> p < 6" if "user A = Some p" for p using that assms(2) by (simp add: address_space_def)
    ultimately show ?thesis
      using 1 pde user_frame dir_range(3) [of va]
      by (cases "user A") (auto simp: pde_ok_def entry_def translate_def as_translate_def Let_def)
  next
    case 2
    then have r: "0x8400000 \<le> unat va" "unat va < 0x8800000" by (simp_all add: dir_range)
    show ?thesis
    proof (cases "unat va < 0x8401000")
      case True
      then have "unat va div 4096 = 0x8400" using r by (simp add: div_nat_eqI)
      moreover from this have "drop_bit 12 va = 0x8400"
        by (simp add: word_unat_eq_iff drop_bit_eq_div unat_div_distrib)
      then have "take_bit 12 va = va - 0x8400000"
        using bits_ident [of 12 va] by (simp add: algebra_simps)
      moreover have "push_bit 12 (drop_bit 12 f) = f" if "video A = Some f" for f
        using that assms(2) bits_ident [of 12 f] by (simp add: address_space_def)
      ultimately show ?thesis
        using True 2 pde vte r table_at_vidMem [OF assms(1), of s]
        by (cases "video A") (auto simp: pde_ok_def vte_ok_def entry_def translate_def as_translate_def Let_def)
    next
      case False
      then have q: "0x8401 \<le> unat va div 4096" "unat va div 4096 < 0x8800"
        using r by (simp_all add: less_eq_div_iff_mult_less_eq div_less_iff_less_mult)
      then obtain k where "unat va div 4096 = 0x8400 + k" "0 < k" "k < 1024"
        by (intro that [of "unat va div 4096 - 0x8400"]) linarith+
      then have "unat va div 4096 mod 1024 \<noteq> 0"
        using mod_add_left_eq [of "0x8400" 1024 k] by simp
      then show ?thesis
        using False 2 pde vte r table_at_vidMem [OF assms(1), of s]
        by (cases "video A") (auto simp: pde_ok_def vte_ok_def entry_def translate_def as_translate_def Let_def)
    qed
  next
    case 3
    then have "\<not> (0x8000000 \<le> unat va \<and> unat va < 0x8400000)" "\<not> (0x8400000 \<le> unat va \<and> unat va < 0x8401000)"
      using dir_range [of va] by auto
    then show ?thesis
      using 3 i pde assms(3) by (auto simp: pde_ok_def translate_def as_translate_def)
  qed
qed

lemma address_space_translate: "layout_ok L \<Longrightarrow> address_space L s A \<Longrightarrow> translate L s va = as_translate A va"
  using address_space_kernel [of L s A va] address_space_user [of L s A va] by (cases "unat va < 0x800000") simp_all

text \<open>How the operations change the address space.\<close>

lemma paging_init_vidMem: "vidMem_table (paging_init L e s) = vidMem_table s"
proof -
  have "vidMem_table (init_pdes e a b t) = vidMem_table t" for a b and t :: "'a paging_state_scheme"
    unfolding init_pdes_def by (induction b) auto
  moreover have "vidMem_table (init_ptes e b t) = vidMem_table t" for b and t :: "'a paging_state_scheme"
    unfolding init_ptes_def by (induction b) auto
  ultimately show ?thesis by (simp add: paging_init_def Let_def load_cr3_def)
qed

lemma get_field_80_rw [simp]: "get_field (Suc 0, Suc 0) 128 = 0" by code_simp

lemma paging_init_address_space:
  assumes "vidMem_table s = (\<lambda>_. 0)"
  shows "address_space L (paging_init L e s) \<lparr>user = None, video = None\<rparr>"
  unfolding address_space_def
proof (intro conjI allI impI)
  fix i :: nat assume "i < 1024"
  then show "pde_ok L \<lparr>user = None, video = None\<rparr> i (page_directory (paging_init L e s) i)"
    by (auto simp: paging_init_directory pde_ok_def entry_def entry_simps)
next
  fix j :: nat assume "j < 1024"
  moreover have "take_bit 20 (of_nat j) = (of_nat j :: u32)" if "j < 1024" for j
    using that by (simp add: take_bit_of_nat take_bit_nat_eq_self)
  ultimately show "pte_ok j (page_table (paging_init L e s) j)"
    by (auto simp: paging_init_table pte_ok_def entry_def entry_simps)
qed (use assms in \<open>simp_all add: paging_init_vidMem vte_ok_def\<close>)

lemma pid_page_map_address_space:
  assumes "address_space L s A" "0 \<le> p" "p < 6"
  shows "address_space L (pid_page_map p s) (A\<lparr>user := Some p\<rparr>)"
proof -
  have d: "(p * 4194304 + 8388608) div 4194304 = p + 2" using assms by simp
  have "pde_ok L (A\<lparr>user := Some p\<rparr>) i (page_directory (pid_page_map p s) i)" if "i < 1024" for i
    using that assms(1) user_frame(2) [OF assms(2,3)]
    by (cases "i = 32") (auto simp: pid_page_map_def d address_space_def pde_ok_def entry_def entry_simps)
  then show ?thesis
    using assms by (auto simp: address_space_def pid_page_map_def vte_ok_def)
qed

lemma vidMem_page_map_address_space:
  assumes "address_space L s A"
  shows "address_space L (vidMem_page_map L e 0x8400000 t s)
    (A\<lparr>video := Some (if t = int (display_terminal s) then 0xB8000 else 0)\<rparr>)"
proof -
  let ?A = "A\<lparr>video := Some (if t = int (display_terminal s) then 0xB8000 else 0)\<rparr>"
  let ?s = "vidMem_page_map L e 0x8400000 t s"
  have d: "page_directory ?s = (page_directory s)(33 := set_fields [(pt_present, 1), (pt_us, 1), (pt_rw, 1),
      (kb_base_addr, drop_bit 12 (addr_vidMem_table L))] 0)"
    by (simp add: vidMem_page_map_def Let_def del: set_fields_simps)
  have "pde_ok L ?A i (page_directory ?s i)" if "i < 1024" for i
    using that assms by (cases "i = 33") (auto simp: d address_space_def pde_ok_def entry_def entry_simps)
  moreover have "vte_ok ?A j (vidMem_table ?s j)" if "j < 1024" for j
    using that assms
    by (cases "j = 0") (auto simp: vidMem_page_map_def Let_def get_display_terminal_def address_space_def vte_ok_def entry_def entry_simps)
  moreover have "page_table ?s = page_table s" by (simp add: vidMem_page_map_def Let_def)
  ultimately show ?thesis using assms by (auto simp: address_space_def)
qed

lemma set_active_terminal_paging_address_space:
  assumes "address_space L s A"
  shows "address_space L (set_active_terminal_paging t s) A"
proof -
  have "pte_ok 0xB8 (page_table s 0xB8)" using assms by (simp add: address_space_def)
  then have "pte_ok 0xB8 (page_table (set_active_terminal_paging t s) 0xB8)"
    by (simp add: set_active_terminal_paging_def pte_ok_def entry_def entry_simps)
  then have "pte_ok j (page_table (set_active_terminal_paging t s) j)" if "j < 1024" for j
    using that assms by (cases "j = 0xB8") (simp_all add: set_active_terminal_paging_def address_space_def)
  then show ?thesis using assms by (simp add: address_space_def set_active_terminal_paging_def)
qed

lemma flush_fresh: "tlb_fresh (pid_page_map p s)" "tlb_fresh (vidMem_page_map L e v t s)" "tlb_fresh (set_active_terminal_paging t s)"
  by (simp_all add: pid_page_map_def vidMem_page_map_def set_active_terminal_paging_def Let_def tlb_fresh_def flush_tlb_def load_cr3_def)

lemma window_unat: "va \<in> region 0x8000000 0x400000 \<Longrightarrow> unat va = 0x8000000 + unat (va - 0x8000000) \<and> unat (va - 0x8000000) < 0x400000"
proof -
  assume "va \<in> region 0x8000000 0x400000"
  then obtain k where k: "k < 0x400000" "va = 0x8000000 + of_nat k" by (rule region_obtain)
  then have "va = of_nat (0x8000000 + k)" "va - 0x8000000 = of_nat k" by simp_all
  then have "unat va = 0x8000000 + k" "unat (va - 0x8000000) = k" using k(1) by (simp_all only: unat_of_nat32)
  with k(1) show ?thesis by simp
qed

lemma user_translate:
  assumes "layout_ok L" "address_space L s A" "0 \<le> p" "p < 6" "va \<in> region 0x8000000 0x400000"
  shows "\<exists>i. translate L (pid_page_map p s) va = Some i
    \<and> frame_addr i = 0x800000 + of_int p * 0x400000 + (va - 0x8000000)
    \<and> unat (frame_addr i) = 0x800000 + nat p * 0x400000 + unat (va - 0x8000000)"
proof -
  let ?f = "0x800000 + of_int p * 0x400000 + (va - 0x8000000)"
  note w = window_unat [OF assms(5)]
  have "?f = of_nat (0x800000 + nat p * 0x400000 + unat (va - 0x8000000))"
    using assms(3) by (simp add: of_nat_nat)
  moreover have "0x800000 + nat p * 0x400000 + unat (va - 0x8000000) < 4294967296"
    using assms(3,4) w by linarith
  ultimately have "unat ?f = 0x800000 + nat p * 0x400000 + unat (va - 0x8000000)"
    by (simp only: unat_of_nat32)
  moreover have "translate L (pid_page_map p s) va = Some \<lparr>frame_addr = ?f, user_ok = True, writable = True\<rparr>"
    using address_space_translate [OF assms(1) pid_page_map_address_space [OF assms(2-4)], of va] w
    by (simp add: as_translate_def)
  ultimately show ?thesis by simp
qed

text \<open>Access to the page of the process that is mapped.\<close>

definition in_window :: "u32 \<Rightarrow> nat \<Rightarrow> bool" where
  "in_window a n \<longleftrightarrow> 0x8000000 \<le> unat a \<and> unat a + n \<le> 0x8400000"

definition user_phys :: "int \<Rightarrow> u32 \<Rightarrow> u32" where
  "user_phys p a = 0x800000 + of_int p * 0x400000 + (a - 0x8000000)"

definition user_mapped :: "layout \<Rightarrow> int \<Rightarrow> 'a paging_state_scheme \<Rightarrow> bool" where
  "user_mapped L p s \<longleftrightarrow> layout_ok L \<and> (\<exists>A. address_space L s A \<and> user A = Some p)"

lemma user_mapped_translate:
  "user_mapped L p s \<Longrightarrow> in_window a (Suc n) \<Longrightarrow>
     translate L s a = Some \<lparr>frame_addr = user_phys p a, user_ok = True, writable = True\<rparr>"
  by (auto simp: user_mapped_def in_window_def address_space_translate as_translate_def user_phys_def)

lemma in_window_step: "in_window a (Suc n) \<Longrightarrow> in_window (a + 1) n"
proof -
  assume w: "in_window a (Suc n)"
  then have "unat (a + 1) = unat a + 1" by (simp add: in_window_def unat_word_ariths)
  with w show ?thesis by (simp add: in_window_def)
qed

lemma in_window_offset: "in_window a n \<Longrightarrow> i < n \<Longrightarrow> in_window (a + of_nat i) (Suc 0)"
proof (induction i arbitrary: a n)
  case 0
  then show ?case by (simp add: in_window_def)
next
  case (Suc i)
  then obtain k where k: "n = Suc k" "i < k" by (cases n) auto
  then have "in_window (a + 1) k" using Suc.prems by (simp add: in_window_step)
  then have "in_window (a + 1 + of_nat i) (Suc 0)" by (rule Suc.IH) (rule k)
  then show ?case by (simp add: add.assoc)
qed

lemma user_phys_add: "user_phys p (a + k) = user_phys p a + k"
  by (simp add: user_phys_def)

lemma table_at_ram [simp]: "table_at L (s\<lparr>ram := m\<rparr>) = table_at L s"
  by (rule ext) (simp add: table_at_def)

lemma translate_ram [simp]: "translate L (s\<lparr>ram := m\<rparr>) va = translate L s va"
  by (simp add: translate_def Let_def)

lemma user_mapped_ram [simp]: "user_mapped L p (s\<lparr>ram := m\<rparr>) = user_mapped L p s"
  by (simp add: user_mapped_def address_space_def)

lemma store_bytes_user:
  "user_mapped L p s \<Longrightarrow> in_window a (length bs) \<Longrightarrow>
     store_bytes L a bs s = Some (s\<lparr>ram := write_bytes (ram s) (user_phys p a) bs\<rparr>)"
proof (induction bs arbitrary: a s)
  case (Cons b bs)
  then have t: "translate L s a = Some \<lparr>frame_addr = user_phys p a, user_ok = True, writable = True\<rparr>"
    using user_mapped_translate [of L p s a "length bs"] by simp
  have w: "in_window (a + 1) (length bs)" using Cons.prems(2) by (simp add: in_window_step)
  then show ?case
    using Cons.IH [of "s\<lparr>ram := (ram s)(user_phys p a := b)\<rparr>" "a + 1"] Cons.prems(1) t
    by (simp add: store_byte_def user_phys_add fun_upd_def)
qed simp

lemma view_user: "user_mapped L p s \<Longrightarrow> in_window a (Suc 0) \<Longrightarrow> view L s a = ram s (user_phys p a)"
  by (simp add: view_def user_mapped_translate)

lemma bytes_at_view_user:
  "user_mapped L p s \<Longrightarrow> in_window a n \<Longrightarrow> bytes_at (view L s) a n = bytes_at (ram s) (user_phys p a) n"
  by (simp add: bytes_at_def view_user in_window_offset user_phys_add)

lemma store_bytes_read_back:
  assumes "user_mapped L p s" "in_window a (length bs)"
  shows "\<exists>m. store_bytes L a bs s = Some (s\<lparr>ram := m\<rparr>) \<and> bytes_at (view L (s\<lparr>ram := m\<rparr>)) a (length bs) = bs"
proof -
  have "length bs \<le> 4294967296" using assms(2) by (simp add: in_window_def)
  then show ?thesis
    using assms by (intro exI [of _ "write_bytes (ram s) (user_phys p a) bs"])
      (simp add: store_bytes_user bytes_at_view_user bytes_at_write_bytes)
qed

lemma store_bytes_more: "store_bytes L a bs s = Some s' \<Longrightarrow> \<exists>m. s' = s\<lparr>ram := m\<rparr>"
proof (induction bs arbitrary: a s)
  case Nil
  then show ?case by (intro exI [of _ "ram s"]) simp
next
  case (Cons b bs)
  then show ?case by (force simp: store_byte_def bind_eq_Some_conv split: option.splits)
qed

section \<open>Properties\<close>

text \<open>
  The kernel's address space after \<open>paging_init\<close>. Exactly the five pages from \<open>0xB8000\<close>
  (video memory and the four pages of terminal buffers) and the kernel's 4 MB page from 4 MB are
  mapped, each onto itself, writable and for the kernel only; every other address, the null page
  included, is unmapped. Paging and 4 MB pages are switched on, \<open>cr3\<close> points to the page
  directory and no stale translation is left.
\<close>

theorem paging_init_identity_map:
  assumes "layout_ok L"
  shows "translate L (paging_init L e s) va =
      (if 0xB8000 \<le> unat va \<and> unat va < 0xBD000 \<or> 0x400000 \<le> unat va \<and> unat va < 0x800000
       then Some \<lparr>frame_addr = va, user_ok = False, writable = True\<rparr> else None)
    \<and> tlb_fresh (paging_init L e s) \<and> cr3 (paging_init L e s) = addr_page_directory L
    \<and> bit (cr0 (paging_init L e s)) 31 \<and> bit (cr4 (paging_init L e s)) 4"
proof -
  have "translate L (paging_init L e s) va =
      (if 0xB8000 \<le> unat va \<and> unat va < 0xBD000 \<or> 0x400000 \<le> unat va \<and> unat va < 0x800000
       then Some (direct va) else None)"
    using translate_init_low [OF assms, of va e s] translate_init_high [of va L e s]
    by (cases "unat va < 4194304") simp_all
  moreover have "tlb_fresh (paging_init L e s)" "cr3 (paging_init L e s) = addr_page_directory L"
    "bit (cr0 (paging_init L e s)) 31" "bit (cr4 (paging_init L e s)) 4"
    by (simp_all add: paging_init_def Let_def tlb_fresh_def load_cr3_def bit_or_iff)
  ultimately show ?thesis by (simp add: direct_def)
qed

definition boot_layout :: layout where
  "boot_layout = \<lparr>addr_page_directory = 0x410000, addr_page_table = 0x411000, addr_vidMem_table = 0x412000\<rparr>"

definition paging_boot :: paging_state where
  "paging_boot = \<lparr>ram = \<lambda>_. 0, io = [], iflag = False, master_mask = 0xFB, slave_mask = 0xFF, RTC_ctr = 0, RTC_flag = 0,
     screen_x = 0, screen_y = 0, screen_x_array = \<lambda>_. 0, screen_y_array = \<lambda>_. 0,
     display_terminal = 0, active_terminal = 0, page_directory = \<lambda>_. 0, page_table = \<lambda>_. 0, vidMem_table = \<lambda>_. 0,
     cr0 = 0, cr3 = 0, cr4 = 0, tlb = (\<lambda>_. 0, \<lambda>_. 0, \<lambda>_. 0)\<rparr>"

lemma boot_layout_ok: "layout_ok boot_layout"
  by (simp add: layout_ok_def boot_layout_def)

lemma paging_boot_space: "address_space boot_layout (paging_init boot_layout 0 paging_boot) \<lparr>user = None, video = None\<rparr>"
  by (rule paging_init_address_space) (simp add: paging_boot_def)

theorem paging_init_identity_map_witness:
  "translate boot_layout (paging_init boot_layout 0 paging_boot) 0xB8004 = Some \<lparr>frame_addr = 0xB8004, user_ok = False, writable = True\<rparr>
   \<and> translate boot_layout (paging_init boot_layout 0 paging_boot) 0 = None"
  using paging_init_identity_map [OF boot_layout_ok, of 0 paging_boot "0xB8004"]
    paging_init_identity_map [OF boot_layout_ok, of 0 paging_boot 0] by simp

text \<open>
  C17: the paging operations refine an abstract address space. From a state that implements the
  space \<open>A\<close>, mapping a process puts its own 4 MB page (\<open>8 MB + pid * 4 MB\<close>) at 128 MB, user
  accessible and writable, and changes nothing else; mapping the video window puts one page at
  132 MB, the screen when the terminal is displayed and physical page 0 otherwise; refreshing the
  terminal page changes nothing. Every address is covered, and no stale translation is left.
\<close>

theorem paging_refines_address_space:
  assumes "layout_ok L" and "address_space L s A" and "0 \<le> pid" and "pid < 6"
  shows "translate L (pid_page_map pid s) va = as_translate (A\<lparr>user := Some pid\<rparr>) va
    \<and> translate L (vidMem_page_map L e 0x8400000 t s) va
        = as_translate (A\<lparr>video := Some (if t = int (display_terminal s) then 0xB8000 else 0)\<rparr>) va
    \<and> translate L (set_active_terminal_paging t s) va = translate L s va
    \<and> tlb_fresh (pid_page_map pid s) \<and> tlb_fresh (vidMem_page_map L e 0x8400000 t s)"
  using address_space_translate [OF assms(1) pid_page_map_address_space [OF assms(2-4)]]
    address_space_translate [OF assms(1) vidMem_page_map_address_space [OF assms(2)]]
    address_space_translate [OF assms(1) set_active_terminal_paging_address_space [OF assms(2)]]
    address_space_translate [OF assms(1,2)]
  by (simp add: flush_fresh)

theorem paging_refines_address_space_witness:
  "translate boot_layout (pid_page_map 2 (paging_init boot_layout 0 paging_boot)) 0x8048000
     = Some \<lparr>frame_addr = 0x1048000, user_ok = True, writable = True\<rparr>"
  using paging_refines_address_space [OF boot_layout_ok paging_boot_space, of 2 "0x8048000" 0 0]
  by (simp add: as_translate_def)

text \<open>
  C8: processes are isolated. Whatever address of the user page two different processes use, the
  physical bytes are different, and each lies in the 4 MB frame of its process, outside video
  memory and outside the kernel's page.
\<close>

theorem user_pages_isolated:
  assumes "layout_ok L" and "address_space L s A" and "address_space L t B"
    and "0 \<le> p" and "p < 6" and "0 \<le> q" and "q < 6" and "p \<noteq> q"
    and "va \<in> region 0x8000000 0x400000" and "vb \<in> region 0x8000000 0x400000"
  shows "\<exists>i j. translate L (pid_page_map p s) va = Some i \<and> translate L (pid_page_map q t) vb = Some j
    \<and> frame_addr i \<in> region (0x800000 + of_int p * 0x400000) 0x400000 \<and> frame_addr i \<noteq> frame_addr j
    \<and> 0x800000 \<le> unat (frame_addr i) \<and> unat (frame_addr i) < 0x2000000"
proof -
  obtain i where i: "translate L (pid_page_map p s) va = Some i"
      "frame_addr i = 0x800000 + of_int p * 0x400000 + (va - 0x8000000)"
      "unat (frame_addr i) = 0x800000 + nat p * 0x400000 + unat (va - 0x8000000)"
    using user_translate [OF assms(1,2,4,5,9)] by blast
  obtain j where j: "translate L (pid_page_map q t) vb = Some j"
      "unat (frame_addr j) = 0x800000 + nat q * 0x400000 + unat (vb - 0x8000000)"
    using user_translate [OF assms(1,3,6,7,10)] by blast
  have w: "unat (va - 0x8000000) < 0x400000" "unat (vb - 0x8000000) < 0x400000"
    using window_unat assms(9,10) by blast+
  have n: "nat p \<noteq> nat q" "nat p < 6" using assms by simp_all
  then have "unat (frame_addr i) \<noteq> unat (frame_addr j)"
    unfolding i(3) j(2) using w by (cases "nat p" "nat q" rule: linorder_cases) linarith+
  moreover have "frame_addr i - (0x800000 + of_int p * 0x400000) = va - 0x8000000"
    by (simp add: i(2))
  then have "frame_addr i \<in> region (0x800000 + of_int p * 0x400000) 0x400000"
    unfolding region_def mem_Collect_eq using w(1) by (simp only:)
  moreover have "0x800000 \<le> unat (frame_addr i)" "unat (frame_addr i) < 0x2000000"
    unfolding i(3) using w n by linarith+
  ultimately show ?thesis using i(1) j(1) by auto
qed

theorem user_pages_isolated_witness:
  "\<exists>i j. translate boot_layout (pid_page_map 0 (paging_init boot_layout 0 paging_boot)) 0x8048000 = Some i
     \<and> translate boot_layout (pid_page_map 1 (paging_init boot_layout 0 paging_boot)) 0x8048000 = Some j \<and> frame_addr i \<noteq> frame_addr j"
  using user_pages_isolated [OF boot_layout_ok paging_boot_space paging_boot_space, of 0 1 "0x8048000" "0x8048000"]
  by (auto simp: region_def)

end
