(* ===== verification/Terminal.thy ===== *)
theory Terminal
  imports Paging
begin

text \<open>
  Switching terminals, \<open>student-distrib/lib.c\<close>: which terminal the running process writes to
  (\<open>set_active_terminal\<close>) and which one is on the screen (\<open>set_disiplay_terminal\<close>, spelled as
  in the source). A switch saves video memory to the buffer of the old terminal and loads the
  buffer of the new one; the lemmas show that no terminal notices.
\<close>

section \<open>Operations\<close>

definition set_active_terminal :: "nat \<Rightarrow> 'a paging_state_scheme \<Rightarrow> 'a paging_state_scheme" where
  "set_active_terminal terminal_id s =
     (let s = (if terminal_id = display_terminal s then set_active_terminal_paging (int terminal_id) s else s)
      in s\<lparr>active_terminal := terminal_id\<rparr>)"

definition set_disiplay_terminal :: "nat \<Rightarrow> 'a paging_state_scheme \<Rightarrow> 'a paging_state_scheme" where
  "set_disiplay_terminal terminal_id s =
     (let s = s\<lparr>ram := memcpy (ram s) (terminal_mem (display_terminal s)) video_mem 0x1000\<rparr>;
          s = s\<lparr>ram := memcpy (ram s) video_mem (terminal_mem terminal_id) 0x1000\<rparr>;
          s = s\<lparr>display_terminal := terminal_id\<rparr>;
          s = set_active_terminal (active_terminal s) s
      in update_cursor (screen_x_array s terminal_id) (screen_y_array s terminal_id) s)"

section \<open>Lemmas\<close>

lemma set_active_terminal_simps [simp]:
  "ram (set_active_terminal t s) = ram s" "display_terminal (set_active_terminal t s) = display_terminal s"
  "active_terminal (set_active_terminal t s) = t"
  "screen_x_array (set_active_terminal t s) = screen_x_array s"
  "screen_y_array (set_active_terminal t s) = screen_y_array s"
  by (simp_all add: set_active_terminal_def set_active_terminal_paging_def flush_tlb_def load_cr3_def set_pte_def Let_def)

lemma plane_disjoint:
  assumes "t < 3" "u < 3"
  shows "region video_mem 4096 \<inter> region (terminal_mem t) 4096 = {}"
    and "t \<noteq> u \<Longrightarrow> region (terminal_mem t) 4096 \<inter> region (terminal_mem u) 4096 = {}"
proof -
  have u: "unat (terminal_mem t) = 0xB9000 + t * 0x1000" if "t < 3" for t
    using less_3_cases [OF that] by (elim disjE) simp_all
  show "region video_mem 4096 \<inter> region (terminal_mem t) 4096 = {}"
    using assms by (intro region_disjoint) (simp_all add: u video_mem_def)
  assume "t \<noteq> u"
  then consider "t < u" | "u < t" by linarith
  then show "region (terminal_mem t) 4096 \<inter> region (terminal_mem u) 4096 = {}"
  proof cases
    case 1 then show ?thesis using assms by (intro region_disjoint) (simp_all add: u)
  next
    case 2
    then have "region (terminal_mem u) 4096 \<inter> region (terminal_mem t) 4096 = {}"
      using assms by (intro region_disjoint) (simp_all add: u)
    then show ?thesis by (simp add: Int_commute)
  qed
qed

lemma grid_copied: "grid (page_char d (copy_spec m d b 4096)) = grid (page_char b m)"
proof -
  have "page_char d (copy_spec m d b 4096) k = page_char b m k" if "k < 2000" for k
    using that in_region_offset [of "2 * k" d 4096] by (simp add: page_char_def copy_spec_def)
  then show ?thesis by (auto simp: grid_def)
qed

lemma grid_not_copied:
  assumes "region d 4096 \<inter> region p 4096 = {}"
  shows "grid (page_char p (copy_spec m d b 4096)) = grid (page_char p m)"
proof (rule grid_frame)
  fix a assume "a \<in> region p 4000"
  then have "a \<in> region p 4096" using region_mono [of 4000 4096 p] by auto
  then show "copy_spec m d b 4096 a = m a" using assms by (intro copy_spec_outside) auto
qed

lemma display_ram:
  assumes "display_terminal s < 3" "t < 3"
  shows "ram (set_disiplay_terminal t s) =
    copy_spec (copy_spec (ram s) (terminal_mem (display_terminal s)) video_mem 4096) video_mem (terminal_mem t) 4096"
proof -
  have "memcpy m (terminal_mem u) video_mem 0x1000 = copy_spec m (terminal_mem u) video_mem 4096"
    "memcpy m video_mem (terminal_mem u) 0x1000 = copy_spec m video_mem (terminal_mem u) 4096" if "u < 3" for m u
    using plane_disjoint(1) [OF that that] memcpy.cp_disjoint [of video_mem "0x1000" "terminal_mem u" m]
      memcpy.cp_disjoint [of "terminal_mem u" "0x1000" video_mem m] by (auto simp: Int_commute)
  then show ?thesis using assms by (simp add: set_disiplay_terminal_def Let_def)
qed

lemma display_simps [simp]:
  "display_terminal (set_disiplay_terminal t s) = t" "active_terminal (set_disiplay_terminal t s) = active_terminal s"
  "screen_x_array (set_disiplay_terminal t s) = screen_x_array s"
  "screen_y_array (set_disiplay_terminal t s) = screen_y_array s"
  by (simp_all add: set_disiplay_terminal_def Let_def)

lemma display_grid:
  assumes "display_terminal s < 3" "t < 3" "u < 3"
  shows "grid (page_char (page_of (set_disiplay_terminal t s) u) (ram (set_disiplay_terminal t s)))
    = grid (page_char (page_of s u) (ram s))"
proof -
  let ?d = "display_terminal s"
  show ?thesis
  proof (cases "u = t")
    case True
    then show ?thesis
      using assms grid_not_copied [of "terminal_mem ?d" "terminal_mem t"] plane_disjoint(2) [of ?d t]
      by (cases "t = ?d") (simp_all add: page_of_def display_ram grid_copied)
  next
    case False
    then show ?thesis
      using assms grid_not_copied [of video_mem "terminal_mem u"] plane_disjoint(1) [of u u]
        grid_not_copied [of "terminal_mem ?d" "terminal_mem u"] plane_disjoint(2) [of ?d u]
      by (cases "u = ?d") (simp_all add: page_of_def display_ram grid_copied)
  qed
qed

section \<open>Properties\<close>

text \<open>
  C35: switching the displayed terminal preserves all three terminals. The requested terminal is
  displayed afterwards, and the text and the cursor of each terminal, the old one, the new one
  and the third, are what they were: the old screen is saved before the new buffer is loaded,
  also when a terminal is switched to itself.
\<close>

theorem display_switch_preserves_terminals:
  assumes "console_ok s" and "t < 3" and "u < 3"
  shows "display_terminal (set_disiplay_terminal t s) = t \<and> console_ok (set_disiplay_terminal t s)
    \<and> vterm_of (set_disiplay_terminal t s) u = vterm_of s u"
  using assms display_grid [of s t u] by (simp add: console_ok_def vterm_of_def)

lemma paging_boot_console: "console_ok paging_boot"
  by (simp add: console_ok_def paging_boot_def cursor_ok_def)

theorem display_switch_preserves_terminals_witness:
  "vterm_of (set_disiplay_terminal 2 paging_boot) 0 = vterm_of paging_boot 0 \<and> display_terminal (set_disiplay_terminal 2 paging_boot) = 2"
  using display_switch_preserves_terminals [OF paging_boot_console, of 2 0] by simp

end
