(* ===== verification/Keyboard.thy ===== *)
theory Keyboard
  imports Terminal
begin

text \<open>
  The keyboard's tables and buffers, \<open>student-distrib/scan_code.c\<close> and the parts of
  \<open>student-distrib/keyboard.c\<close> that need no other process: the scan code tables, \<open>char_match\<close>,
  \<open>init_keyboard\<close>, the line editing of the interrupt handler (typing, Enter, backspace, Ctrl-L)
  and \<open>terminal_read\<close> / \<open>terminal_write\<close>. The handler itself, which can start shells, is in a
  later theory. An access outside an array is \<open>None\<close>.
\<close>

section \<open>Scan codes\<close>

definition shift_convert_entries :: "(nat \<times> char) list" where
  "shift_convert_entries =
     [(0x10, CHR ''Q''), (0x11, CHR ''W''), (0x12, CHR ''E''), (0x13, CHR ''R''), (0x14, CHR ''T''), (0x15, CHR ''Y''),
      (0x16, CHR ''U''), (0x17, CHR ''I''), (24, CHR ''O''), (25, CHR ''P''), (30, CHR ''A''), (31, CHR ''S''),
      (32, CHR ''D''), (33, CHR ''F''), (34, CHR ''G''), (35, CHR ''H''), (36, CHR ''J''), (37, CHR ''K''),
      (38, CHR ''L''), (44, CHR ''Z''), (45, CHR ''X''), (46, CHR ''C''), (47, CHR ''V''), (48, CHR ''B''),
      (49, CHR ''N''), (50, CHR ''M''),
      (0x29, CHR 0x7E), (0x02, CHR 0x21), (0x03, CHR 0x40), (0x04, CHR 0x23), (0x05, CHR 0x24), (0x06, CHR 0x25),
      (0x07, CHR 0x5E), (0x08, CHR 0x26), (0x09, CHR 0x2A), (0x0A, CHR 0x28), (0x0B, CHR 0x29),
      (12, CHR 0x5F), (13, CHR 0x2B), (26, CHR 0x7B), (27, CHR 0x7D), (0x2B, CHR 0x7C), (0x27, CHR 0x3A),
      (0x28, CHR 0x22), (51, CHR 0x3C), (52, CHR 0x3E), (0x35, CHR 0x3F)]"

definition scan_code_entries :: "(nat \<times> char) list" where
  "scan_code_entries =
     [(0x10, CHR ''q''), (0x11, CHR ''w''), (0x12, CHR ''e''), (0x13, CHR ''r''), (0x14, CHR ''t''), (0x15, CHR ''y''),
      (0x16, CHR ''u''), (0x17, CHR ''i''), (24, CHR ''o''), (25, CHR ''p''), (30, CHR ''a''), (31, CHR ''s''),
      (32, CHR ''d''), (33, CHR ''f''), (34, CHR ''g''), (35, CHR ''h''), (36, CHR ''j''), (37, CHR ''k''),
      (38, CHR ''l''), (44, CHR ''z''), (45, CHR ''x''), (46, CHR ''c''), (47, CHR ''v''), (48, CHR ''b''),
      (49, CHR ''n''), (50, CHR ''m''),
      (0x29, CHR 0x60), (0x02, CHR ''1''), (0x03, CHR ''2''), (0x04, CHR ''3''), (0x05, CHR ''4''), (0x06, CHR ''5''),
      (0x07, CHR ''6''), (0x08, CHR ''7''), (0x09, CHR ''8''), (0x0A, CHR ''9''), (0x0B, CHR ''0''),
      (82, CHR ''0''), (79, CHR ''1''), (80, CHR ''2''), (81, CHR ''3''), (75, CHR ''4''), (76, CHR ''5''),
      (77, CHR ''6''), (71, CHR ''7''), (72, CHR ''8''), (73, CHR ''9''), (96, CHR 0x0A), (78, CHR 0x2B),
      (74, CHR 0x2D), (0x37, CHR 0x2A),
      (12, CHR 0x2D), (13, CHR 0x3D), (26, CHR 0x5B), (27, CHR 0x5D), (0x2B, CHR 0x5C), (0x27, CHR 0x3B),
      (0x28, CHR 0x27), (51, CHR 0x2C), (52, CHR 0x2E), (0x35, CHR 0x2F), (15, CHR 0x09), (0x1C, CHR 0x0A),
      (57, CHR 0x20)]"

text \<open>A table that is zero everywhere before the assignments.\<close>

definition assign_all :: "(nat \<times> char) list \<Rightarrow> nat \<Rightarrow> u8" where
  "assign_all es = fold (\<lambda>(i, c) f. f(i := of_char c)) es (\<lambda>_. 0)"

section \<open>State\<close>

text \<open>\<open>keyboard_buffer\<close> has rows of 129 bytes; \<open>print_buffer\<close> is kept flat, in rows of 2050.\<close>

record kbd_state = paging_state +
  scan_code :: "nat \<Rightarrow> u8"
  shift_convert :: "nat \<Rightarrow> u8"
  pressed_key :: "nat \<Rightarrow> u8"
  keyboard_buffer :: "nat \<Rightarrow> nat \<Rightarrow> u8"
  print_buffer :: "nat \<Rightarrow> u8"
  cap_status :: int
  cursor_ind :: "nat \<Rightarrow> nat"
  terminal_read_ready :: "nat \<Rightarrow> int"
  terminal_2_running :: int
  terminal_3_running :: int

definition init_scan_code :: "'a kbd_state_scheme \<Rightarrow> 'a kbd_state_scheme" where
  "init_scan_code s = s\<lparr>scan_code := assign_all scan_code_entries, shift_convert := assign_all shift_convert_entries\<rparr>"

definition init_keyboard :: "'a kbd_state_scheme \<Rightarrow> 'a kbd_state_scheme" where
  "init_keyboard s =
     (let s = init_scan_code s;
          s = enable_irq 1 s;
          s = s\<lparr>pressed_key := \<lambda>_. 0\<rparr>;
          s = s\<lparr>keyboard_buffer := \<lambda>_ _. 0\<rparr>;
          s = s\<lparr>cursor_ind := \<lambda>_. 0\<rparr>;
          s = s\<lparr>terminal_read_ready := \<lambda>_. 0\<rparr>
      in s\<lparr>cap_status := 0\<rparr>)"

text \<open>\<open>shift_convert\<close> has 80 entries.\<close>

definition shift_lookup :: "u8 \<Rightarrow> 'a kbd_state_scheme \<Rightarrow> u8 option" where
  "shift_lookup c s = (if unat c < 80 then Some (shift_convert s (unat c)) else None)"

definition shift_held :: "'a kbd_state_scheme \<Rightarrow> bool" where
  "shift_held s \<longleftrightarrow> pressed_key s 42 = 1 \<or> pressed_key s 54 = 1"

definition char_match :: "u8 \<Rightarrow> 'a kbd_state_scheme \<Rightarrow> u8 option" where
  "char_match c s =
     (if scan_code s (unat c) = 0 then Some 0
      else let res = scan_code s (unat c) in
        if cap_status s = 1 \<and> 97 \<le> res \<and> res \<le> 122 then
          if shift_held s then Some (if c = 0x1C then 10 else scan_code s (unat c))
          else shift_lookup c s
        else if shift_held s then map_option (\<lambda>r. if c = 0x1C then 10 else r) (shift_lookup c s)
        else Some res)"

section \<open>Line editing\<close>

text \<open>The branches of the interrupt handler's loop body that edit the line of terminal \<open>t\<close>.\<close>

definition key_clear :: "nat \<Rightarrow> 'a kbd_state_scheme \<Rightarrow> 'a kbd_state_scheme" where
  "key_clear t s =
     (let s = clear s;
          s = fold putc_scroll_display (chars ''391OS> '') s;
          s = s\<lparr>keyboard_buffer := (keyboard_buffer s)(t := \<lambda>_. 0)\<rparr>
      in s\<lparr>cursor_ind := (cursor_ind s)(t := 0)\<rparr>)"

definition key_type :: "u8 \<Rightarrow> nat \<Rightarrow> 'a kbd_state_scheme \<Rightarrow> 'a kbd_state_scheme option" where
  "key_type input t s =
     (if cursor_ind s t \<ge> 128 then
        if input = 0x1C then do { c \<leftarrow> char_match input s; Some (putc_scroll_display c s) } else Some s
      else do {
        c \<leftarrow> char_match input s;
        let s = s\<lparr>keyboard_buffer := (keyboard_buffer s)(t := (keyboard_buffer s t)(cursor_ind s t := c))\<rparr>;
        let s = s\<lparr>cursor_ind := (cursor_ind s)(t := cursor_ind s t + 1)\<rparr>;
        Some (putc_scroll_display c s) })"

definition key_enter :: "nat \<Rightarrow> 'a kbd_state_scheme \<Rightarrow> 'a kbd_state_scheme" where
  "key_enter t s =
     (let s = s\<lparr>print_buffer := \<lambda>k. if 2050 * t \<le> k \<and> k < 2050 * t + 2050 then 0 else print_buffer s k\<rparr>;
          s = s\<lparr>print_buffer := \<lambda>k. if 2050 * t \<le> k \<and> k < 2050 * t + 129 then keyboard_buffer s t (k - 2050 * t)
                                   else print_buffer s k\<rparr>;
          s = s\<lparr>keyboard_buffer := (keyboard_buffer s)(t := \<lambda>_. 0)\<rparr>;
          s = s\<lparr>terminal_read_ready := (terminal_read_ready s)(t := 1)\<rparr>
      in s\<lparr>cursor_ind := (cursor_ind s)(t := 0)\<rparr>)"

definition key_backspace :: "nat \<Rightarrow> 'a kbd_state_scheme \<Rightarrow> 'a kbd_state_scheme" where
  "key_backspace t s =
     (if cursor_ind s t \<noteq> 0 then
        let s = s\<lparr>cursor_ind := (cursor_ind s)(t := cursor_ind s t - 1)\<rparr>;
            s = s\<lparr>keyboard_buffer := (keyboard_buffer s)(t := (keyboard_buffer s t)(cursor_ind s t := 0))\<rparr>
        in delete_c s
      else s)"

section \<open>Terminal read and write\<close>

text \<open>
  \<open>terminal_write\<close> copies from \<open>src\<close> at \<open>buf\<close>. The two \<open>None\<close> cases are a negative count, which
  \<open>memcpy\<close> takes for more than 2 GB, and the NUL stored one past the end of the whole buffer.
\<close>

definition terminal_write :: "memory \<Rightarrow> u32 \<Rightarrow> int \<Rightarrow> 'a kbd_state_scheme \<Rightarrow> (int \<times> 'a kbd_state_scheme) option" where
  "terminal_write src buf count s =
     (let s = cli s;
          idx = get_active_terminal s;
          lim = (if count < 2050 then count else 2050)
      in if lim < 0 then None
         else
           let s = s\<lparr>print_buffer := \<lambda>k. if 2050 * idx \<le> k \<and> k < 2050 * idx + nat lim then src (buf + of_nat (k - 2050 * idx))
                                        else print_buffer s k\<rparr>
           in if 2050 * idx + nat lim < 6150 then
                let s = s\<lparr>print_buffer := (print_buffer s)(2050 * idx + nat lim := 0)\<rparr>
                in do { (n, s) \<leftarrow> puts_scroll (\<lambda>a. print_buffer s (2050 * idx + unat a)) 0 lim s;
                        Some (count, sti s) }
              else None)"

definition terminal_write_wrap ::
  "layout \<Rightarrow> u32 \<Rightarrow> u32 \<Rightarrow> u32 \<Rightarrow> u32 \<Rightarrow> 'a kbd_state_scheme \<Rightarrow> (int \<times> 'a kbd_state_scheme) option" where
  "terminal_write_wrap L inode offset buf count s = terminal_write (view L s) buf (sint count) s"

text \<open>
  \<open>terminal_read\<close> waits for a finished line; \<open>hs\<close> is what the interrupt handlers (and the
  processes they switch to) do meanwhile.
\<close>

definition terminal_read ::
  "layout \<Rightarrow> ('a kbd_state_scheme \<Rightarrow> 'a kbd_state_scheme) list \<Rightarrow> u32 \<Rightarrow> int \<Rightarrow> 'a kbd_state_scheme \<Rightarrow> (int \<times> 'a kbd_state_scheme) option" where
  "terminal_read L hs buf count s =
     (let s = sti s;
          idx = get_active_terminal s
      in do {
        s \<leftarrow> spin_until (\<lambda>s. terminal_read_ready s idx = 1) hs s;
        if count < 0 \<or> 2050 * idx + nat count > 6150 then None
        else do {
          s \<leftarrow> store_bytes L buf (map (\<lambda>k. print_buffer s (2050 * idx + k)) [0..<nat count]) s;
          let s = s\<lparr>terminal_read_ready := (terminal_read_ready s)(idx := 0)\<rparr>;
          n \<leftarrow> strlen (view L s) buf;
          Some (sint n, s) } })"

definition terminal_read_wrap ::
  "layout \<Rightarrow> ('a kbd_state_scheme \<Rightarrow> 'a kbd_state_scheme) list \<Rightarrow> u32 \<Rightarrow> u32 \<Rightarrow> u32 \<Rightarrow> u32 \<Rightarrow> 'a kbd_state_scheme \<Rightarrow> (int \<times> 'a kbd_state_scheme) option" where
  "terminal_read_wrap L hs inode offset buf count s = terminal_read L hs buf (sint count) s"

definition terminal_wrong :: "'a kbd_state_scheme \<Rightarrow> (int \<times> 'a kbd_state_scheme) option" where
  "terminal_wrong s = Some (-1, s)"

definition terminal_nothing :: "'a kbd_state_scheme \<Rightarrow> (int \<times> 'a kbd_state_scheme) option" where
  "terminal_nothing s = Some (0, s)"

section \<open>Specification\<close>

text \<open>The line being typed on a terminal, and the bytes a finished line is handed over in.\<close>

definition line_of :: "'a kbd_state_scheme \<Rightarrow> nat \<Rightarrow> u8 list" where
  "line_of s t = map (keyboard_buffer s t) [0..<cursor_ind s t]"

definition handed_over :: "'a kbd_state_scheme \<Rightarrow> nat \<Rightarrow> u8 list" where
  "handed_over s t = map (\<lambda>k. print_buffer s (2050 * t + k)) [0..<129]"

text \<open>A line has at most 128 characters and the rest of its buffer is zero.\<close>

definition kbd_ok :: "'a kbd_state_scheme \<Rightarrow> bool" where
  "kbd_ok s \<longleftrightarrow> (\<forall>t<3. cursor_ind s t \<le> 128 \<and> (\<forall>k. cursor_ind s t \<le> k \<longrightarrow> k < 129 \<longrightarrow> keyboard_buffer s t k = 0))"

definition line_add :: "u8 \<Rightarrow> u8 list \<Rightarrow> u8 list" where
  "line_add c l = (if length l < 128 then l @ [c] else l)"

section \<open>Lemmas\<close>

lemma kbd_more:
  assumes "screen_state.more s' = screen_state.more s"
  shows "keyboard_buffer s' = keyboard_buffer s" "cursor_ind s' = cursor_ind s" "print_buffer s' = print_buffer s"
    "terminal_read_ready s' = terminal_read_ready s" "page_directory s' = page_directory s"
    "page_table s' = page_table s" "vidMem_table s' = vidMem_table s"
proof -
  have "keyboard_buffer s' = keyboard_buffer s \<and> cursor_ind s' = cursor_ind s \<and> print_buffer s' = print_buffer s
      \<and> terminal_read_ready s' = terminal_read_ready s \<and> page_directory s' = page_directory s
      \<and> page_table s' = page_table s \<and> vidMem_table s' = vidMem_table s"
    using assms by (cases s, cases s') simp
  then show "keyboard_buffer s' = keyboard_buffer s" "cursor_ind s' = cursor_ind s" "print_buffer s' = print_buffer s"
    "terminal_read_ready s' = terminal_read_ready s" "page_directory s' = page_directory s"
    "page_table s' = page_table s" "vidMem_table s' = vidMem_table s" by simp_all
qed

lemma kbd_screen_simps [simp]:
  "keyboard_buffer (putc_scroll_display c s) = keyboard_buffer s" "cursor_ind (putc_scroll_display c s) = cursor_ind s"
  "keyboard_buffer (delete_c s) = keyboard_buffer s" "cursor_ind (delete_c s) = cursor_ind s"
  "keyboard_buffer (clear s) = keyboard_buffer s" "cursor_ind (clear s) = cursor_ind s"
  "keyboard_buffer (fold putc_scroll_display cs s) = keyboard_buffer s" "cursor_ind (fold putc_scroll_display cs s) = cursor_ind s"
  "keyboard_buffer (fold putc_scroll cs s) = keyboard_buffer s" "cursor_ind (fold putc_scroll cs s) = cursor_ind s"
  by (rule kbd_more, simp)+

lemma kbd_okD:
  assumes "kbd_ok s" "t < 3"
  shows "cursor_ind s t \<le> 128" "length (line_of s t) = cursor_ind s t"
    "\<lbrakk>cursor_ind s t \<le> k; k < 129\<rbrakk> \<Longrightarrow> keyboard_buffer s t k = 0"
  using assms by (auto simp: kbd_ok_def line_of_def)

lemma key_type_line:
  assumes "kbd_ok s" "t < 3" "char_match input s = Some c"
  shows "\<exists>s'. key_type input t s = Some s' \<and> kbd_ok s' \<and> line_of s' t = line_add c (line_of s t)
    \<and> (\<forall>u. u \<noteq> t \<longrightarrow> line_of s' u = line_of s u)"
proof (cases "cursor_ind s t \<ge> 128")
  case True
  with assms kbd_okD [OF assms(1,2)] show ?thesis
    by (auto simp: key_type_def kbd_ok_def line_of_def line_add_def)
next
  case False
  with assms kbd_okD [OF assms(1,2)] show ?thesis
    by (auto simp: key_type_def kbd_ok_def line_of_def line_add_def)
qed

lemma key_backspace_line:
  assumes "kbd_ok s" "t < 3"
  shows "kbd_ok (key_backspace t s) \<and> line_of (key_backspace t s) t = butlast (line_of s t)
    \<and> (\<forall>u. u \<noteq> t \<longrightarrow> line_of (key_backspace t s) u = line_of s u)"
proof (cases "cursor_ind s t")
  case 0
  then show ?thesis using assms by (simp add: key_backspace_def line_of_def)
next
  case (Suc n)
  have "map (keyboard_buffer s t) [0..<n] = butlast (line_of s t)"
    by (simp add: line_of_def Suc)
  then show ?thesis
    using assms Suc by (auto simp: key_backspace_def kbd_ok_def line_of_def)
qed

lemma key_enter_line:
  assumes "kbd_ok s" "t < 3"
  shows "kbd_ok (key_enter t s) \<and> line_of (key_enter t s) t = [] \<and> (\<forall>u. u \<noteq> t \<longrightarrow> line_of (key_enter t s) u = line_of s u)"
    and "handed_over (key_enter t s) t = line_of s t @ replicate (129 - length (line_of s t)) 0"
    and "terminal_read_ready (key_enter t s) t = 1"
    and "u \<noteq> t \<Longrightarrow> handed_over (key_enter t s) u = handed_over s u"
proof -
  show "kbd_ok (key_enter t s) \<and> line_of (key_enter t s) t = [] \<and> (\<forall>u. u \<noteq> t \<longrightarrow> line_of (key_enter t s) u = line_of s u)"
    using assms by (auto simp: key_enter_def kbd_ok_def line_of_def Let_def)
  show "terminal_read_ready (key_enter t s) t = 1" by (simp add: key_enter_def Let_def)
  show "handed_over (key_enter t s) t = line_of s t @ replicate (129 - length (line_of s t)) 0"
    using kbd_okD [OF assms]
    by (auto intro!: nth_equalityI simp: handed_over_def key_enter_def Let_def line_of_def nth_append)
  assume "u \<noteq> t"
  then have "\<not> (2050 * t \<le> 2050 * u + k \<and> 2050 * u + k < 2050 * t + 2050)" if "k < 129" for k
    using that by (cases u t rule: linorder_cases) auto
  then show "handed_over (key_enter t s) u = handed_over s u"
    by (auto simp: handed_over_def key_enter_def Let_def)
qed

lemma key_clear_line:
  assumes "kbd_ok s" "t < 3"
  shows "kbd_ok (key_clear t s) \<and> line_of (key_clear t s) t = [] \<and> (\<forall>u. u \<noteq> t \<longrightarrow> line_of (key_clear t s) u = line_of s u)"
  using assms by (auto simp: key_clear_def kbd_ok_def line_of_def Let_def)

lemma key_enter_paging [simp]:
  "user_mapped L p (key_enter t s) = user_mapped L p s" "active_terminal (key_enter t s) = active_terminal s"
  by (simp_all add: user_mapped_def address_space_def key_enter_def Let_def)

lemma sti_paging [simp]:
  "user_mapped L p (sti s) = user_mapped L p s" "active_terminal (sti s) = active_terminal s"
  "terminal_read_ready (sti s) = terminal_read_ready s" "kbd_ok (sti s) = kbd_ok s" "line_of (sti s) = line_of s"
  by (simp_all add: user_mapped_def address_space_def kbd_ok_def line_of_def [abs_def] sti_def)

lemma view_cong:
  assumes "ram s' = ram s" "page_directory s' = page_directory s" "page_table s' = page_table s" "vidMem_table s' = vidMem_table s"
  shows "view L s' = view L s"
proof -
  have "table_at L s' = table_at L s" using assms by (intro ext) (simp add: table_at_def)
  then have "translate L s' = translate L s" using assms by (intro ext) (simp add: translate_def Let_def)
  then show ?thesis using assms by (simp add: view_def cong: option.case_cong)
qed

text \<open>A finished line is handed to the reader's buffer.\<close>

lemma cstr_at_bytes:
  "bytes_at m a n = cs @ 0 # zs \<Longrightarrow> 0 \<notin> set cs \<Longrightarrow> n < 4294967296 \<Longrightarrow> cstr_at m a cs"
proof -
  assume b: "bytes_at m a n = cs @ 0 # zs" and nz: "0 \<notin> set cs" and n: "n < 4294967296"
  have len: "n = Suc (length cs + length zs)" using b length_bytes_at [of m a n] by simp
  have "bytes_at m a (length cs) = take (length cs) (bytes_at m a n)"
    using len by (simp add: bytes_at_def take_map)
  then have "bytes_at m a (length cs) = cs" by (simp add: b)
  moreover have "m (a + of_nat (length cs)) = bytes_at m a n ! length cs" using len by simp
  then have "m (a + of_nat (length cs)) = 0" by (simp add: b nth_append)
  ultimately show ?thesis using nz n len by (simp add: cstr_at_def)
qed

lemma handed_over_length [simp]: "length (handed_over s t) = 129"
  by (simp add: handed_over_def)

lemma terminal_read_line:
  assumes "spin_until (\<lambda>s. terminal_read_ready s t = 1) hs (sti s) = Some s1" and t: "t = active_terminal s" "t < 3"
    and "user_mapped L p s1" "in_window buf count" "length cs < count" "count \<le> 2050"
    and line: "handed_over s1 t = cs @ 0 # zs" "0 \<notin> set cs"
  shows "\<exists>m. terminal_read L hs buf (int count) s
      = Some (int (length cs), s1\<lparr>ram := m, terminal_read_ready := (terminal_read_ready s1)(t := 0)\<rparr>)
    \<and> bytes_at (view L (s1\<lparr>ram := m\<rparr>)) buf (Suc (length cs)) = cs @ [0]"
proof -
  let ?bs = "map (\<lambda>k. print_buffer s1 (2050 * t + k)) [0..<count]"
  let ?v = "\<lambda>m. view L (s1\<lparr>ram := m\<rparr>)"
  obtain m where m: "store_bytes L buf ?bs s1 = Some (s1\<lparr>ram := m\<rparr>)" "bytes_at (?v m) buf count = ?bs"
    using store_bytes_read_back [of L p s1 buf ?bs] assms(4,5) by auto
  have len: "Suc (length cs) \<le> 129" using arg_cong [OF line(1), of length] by simp
  then have "take (Suc (length cs)) ?bs = take (Suc (length cs)) (handed_over s1 t)"
    using assms(6) by (simp add: handed_over_def take_map min_def)
  then have head: "take (Suc (length cs)) ?bs = cs @ [0]" by (simp add: line(1))
  then have bs: "?bs = cs @ 0 # drop (Suc (length cs)) ?bs"
    using append_take_drop_id [of "Suc (length cs)" ?bs] by simp
  let ?s = "s1\<lparr>ram := m, terminal_read_ready := (terminal_read_ready s1)(t := 0)\<rparr>"
  have v: "view L ?s = ?v m" by (rule view_cong) simp_all
  have cstr: "cstr_at (?v m) buf cs"
    using m(2) bs line(2) assms(7) by (intro cstr_at_bytes [of _ _ count]) simp_all
  have "bytes_at (?v m) buf (Suc (length cs)) = take (Suc (length cs)) (bytes_at (?v m) buf count)"
    using assms(6) by (simp add: bytes_at_def take_map min_def)
  then have "bytes_at (?v m) buf (Suc (length cs)) = cs @ [0]" by (simp only: m(2) head)
  moreover have "sint (of_nat (length cs) :: u32) = int (length cs)"
    using len by (simp add: signed_of_nat signed_take_bit_int_eq_self)
  moreover have "\<not> 2050 * t + count > 6150" using t assms(7) by auto
  moreover note strlen_cstr [OF cstr]
  ultimately show ?thesis
    using assms(1) m(1)
    by (intro exI [of _ m]) (simp add: terminal_read_def get_active_terminal_def v flip: t(1))
qed

section \<open>Properties\<close>

text \<open>The keys of the letters and of the digits, and the tables loaded.\<close>

definition letter_keys :: "u8 list" where
  "letter_keys = [0x10, 0x11, 0x12, 0x13, 0x14, 0x15, 0x16, 0x17, 24, 25, 30, 31, 32, 33, 34, 35, 36, 37, 38, 44, 45, 46, 47, 48, 49, 50]"

definition digit_keys :: "u8 list" where
  "digit_keys = [2, 3, 4, 5, 6, 7, 8, 9, 10, 11]"

definition keyboard_ready :: "'a kbd_state_scheme \<Rightarrow> bool" where
  "keyboard_ready s \<longleftrightarrow> scan_code s = assign_all scan_code_entries \<and> shift_convert s = assign_all shift_convert_entries"

lemma letter_table:
  "\<forall>k\<in>set letter_keys. let c = assign_all scan_code_entries (unat k); d = assign_all shift_convert_entries (unat k)
     in 97 \<le> c \<and> c \<le> 122 \<and> c \<noteq> 0 \<and> unat k < 80 \<and> k \<noteq> 0x1C \<and> d = c - 32"
  by code_simp

lemma digit_table:
  "\<forall>k\<in>set digit_keys. let c = assign_all scan_code_entries (unat k)
     in \<not> (97 \<le> c \<and> c \<le> 122) \<and> c \<noteq> 0 \<and> unat k < 80 \<and> c = (if k = 11 then 48 else 47 + k)"
  by code_simp

text \<open>
  The key tables. For every letter key, \<open>char_match\<close> gives the lower-case letter; with
  exactly one of Caps Lock and Shift it gives the upper-case letter, and with both the
  lower-case one again. The digits, unlike the letters, are not affected by Caps Lock.
\<close>

theorem char_match_letters:
  assumes "keyboard_ready s" and "k \<in> set letter_keys" and "d \<in> set digit_keys" and "cap_status s \<in> {0, 1}"
  shows "char_match k s = Some (if (cap_status s = 1) = shift_held s then scan_code s (unat k) else scan_code s (unat k) - 32)
    \<and> 97 \<le> scan_code s (unat k) \<and> scan_code s (unat k) \<le> 122
    \<and> (\<not> shift_held s \<longrightarrow> char_match d s = Some (if d = 11 then 48 else 47 + d))"
proof -
  have k: "97 \<le> scan_code s (unat k)" "scan_code s (unat k) \<le> 122" "scan_code s (unat k) \<noteq> 0" "unat k < 80" "k \<noteq> 0x1C"
      "shift_convert s (unat k) = scan_code s (unat k) - 32"
    using assms(1,2) letter_table by (auto simp: keyboard_ready_def Let_def)
  have d: "\<not> (97 \<le> scan_code s (unat d) \<and> scan_code s (unat d) \<le> 122)" "scan_code s (unat d) \<noteq> 0"
      "scan_code s (unat d) = (if d = 11 then 48 else 47 + d)"
    using assms(1,3) digit_table by (auto simp: keyboard_ready_def Let_def)
  have "char_match k s = Some (if (cap_status s = 1) = shift_held s then scan_code s (unat k) else scan_code s (unat k) - 32)"
    using assms(4) k by (auto simp: char_match_def shift_lookup_def Let_def)
  moreover have "\<not> shift_held s \<Longrightarrow> char_match d s = Some (if d = 11 then 48 else 47 + d)"
    using d by (simp only: char_match_def Let_def if_False simp_thms)
  ultimately show ?thesis using k by simp
qed

definition kbd_boot :: kbd_state where
  "kbd_boot = init_keyboard \<lparr>ram = \<lambda>_. 0, io = [], iflag = False, master_mask = 0xFB, slave_mask = 0xFF, RTC_ctr = 0, RTC_flag = 0,
     screen_x = 0, screen_y = 0, screen_x_array = \<lambda>_. 0, screen_y_array = \<lambda>_. 0,
     display_terminal = 0, active_terminal = 0, page_directory = \<lambda>_. 0, page_table = \<lambda>_. 0, vidMem_table = \<lambda>_. 0,
     cr0 = 0, cr3 = 0, cr4 = 0, tlb = (\<lambda>_. 0, \<lambda>_. 0, \<lambda>_. 0),
     scan_code = \<lambda>_. 0, shift_convert = \<lambda>_. 0, pressed_key = \<lambda>_. 0, keyboard_buffer = \<lambda>_ _. 0, print_buffer = \<lambda>_. 0,
     cap_status = 0, cursor_ind = \<lambda>_. 0, terminal_read_ready = \<lambda>_. 0, terminal_2_running = 0, terminal_3_running = 0\<rparr>"

lemma kbd_boot_fields [simp]:
  "keyboard_ready kbd_boot" "cap_status kbd_boot = 0" "pressed_key kbd_boot = (\<lambda>_. 0)" "kbd_ok kbd_boot"
  "active_terminal kbd_boot = 0" "display_terminal kbd_boot = 0" "terminal_read_ready kbd_boot = (\<lambda>_. 0)" "vidMem_table kbd_boot = (\<lambda>_. 0)"
  by (simp_all add: kbd_boot_def init_keyboard_def init_scan_code_def keyboard_ready_def kbd_ok_def enable_irq_def outb_def Let_def)

lemma boot_q: "scan_code kbd_boot 16 = 113" "\<not> shift_held kbd_boot"
proof -
  have "assign_all scan_code_entries 16 = 113" by code_simp
  then show "scan_code kbd_boot 16 = 113" using kbd_boot_fields(1) by (simp add: keyboard_ready_def)
  show "\<not> shift_held kbd_boot" by (simp add: shift_held_def)
qed

theorem char_match_letters_witness:
  "char_match 0x10 kbd_boot = Some 113 \<and> char_match 11 kbd_boot = Some 48"
  using char_match_letters [of kbd_boot "0x10" 11] boot_q by (simp add: letter_keys_def digit_keys_def)

text \<open>
  C36: line editing refines a list of at most 128 characters. Typing appends the character while
  there is room, backspace drops the last one, Ctrl-L and Enter empty the line, and Enter hands
  it over followed by zeros and marks it ready; the lines of the other terminals are untouched
  and the buffer never overflows.
\<close>

theorem line_editing_refines_list:
  assumes "kbd_ok s" and "t < 3" and "u < 3" and "char_match input s = Some c"
  shows "(\<exists>s'. key_type input t s = Some s' \<and> kbd_ok s' \<and> line_of s' u = (if u = t then line_add c (line_of s t) else line_of s u))
    \<and> kbd_ok (key_backspace t s) \<and> line_of (key_backspace t s) u = (if u = t then butlast (line_of s t) else line_of s u)
    \<and> kbd_ok (key_clear t s) \<and> line_of (key_clear t s) u = (if u = t then [] else line_of s u)
    \<and> kbd_ok (key_enter t s) \<and> line_of (key_enter t s) u = (if u = t then [] else line_of s u)
    \<and> handed_over (key_enter t s) t = line_of s t @ replicate (129 - length (line_of s t)) 0
    \<and> terminal_read_ready (key_enter t s) t = 1 \<and> length (line_of s t) \<le> 128"
  using key_type_line [OF assms(1,2,4)] key_backspace_line [OF assms(1,2)] key_clear_line [OF assms(1,2)]
    key_enter_line(1-3) [OF assms(1,2)] kbd_okD(1,2) [OF assms(1,2)]
  by auto

theorem line_editing_refines_list_witness:
  "\<exists>s'. key_type 0x10 0 kbd_boot = Some s' \<and> line_of s' 0 = line_add 113 (line_of kbd_boot 0)"
proof -
  have "char_match 0x10 kbd_boot = Some 113" using boot_q by (simp add: char_match_def)
  then show ?thesis using line_editing_refines_list [of kbd_boot 0 0 "0x10" 113] by auto
qed

text \<open>A terminal with a process and a letter typed.\<close>

definition kbd_running :: kbd_state where
  "kbd_running =
     (let P = pid_page_map 0 (paging_init boot_layout 0 paging_boot)
      in kbd_boot\<lparr>page_directory := page_directory P, page_table := page_table P, vidMem_table := vidMem_table P,
           keyboard_buffer := (\<lambda>_ _. 0)(0 := (\<lambda>_. 0)(0 := 113)), cursor_ind := (\<lambda>_. 0)(0 := 1)\<rparr>)"

lemma kbd_running_facts:
  "user_mapped boot_layout 0 kbd_running" "kbd_ok kbd_running" "active_terminal kbd_running = 0"
  "terminal_read_ready kbd_running = (\<lambda>_. 0)" "line_of kbd_running 0 = [113]"
proof -
  have "address_space boot_layout (pid_page_map 0 (paging_init boot_layout 0 paging_boot)) \<lparr>user = Some 0, video = None\<rparr>"
    using pid_page_map_address_space [OF paging_boot_space, of 0] by simp
  then have "address_space boot_layout kbd_running \<lparr>user = Some 0, video = None\<rparr>"
    by (simp add: kbd_running_def address_space_def Let_def)
  then show "user_mapped boot_layout 0 kbd_running"
    unfolding user_mapped_def using boot_layout_ok by (intro conjI exI [of _ "\<lparr>user = Some 0, video = None\<rparr>"]) simp_all
  show "kbd_ok kbd_running" by (auto simp: kbd_ok_def kbd_running_def Let_def)
  show "active_terminal kbd_running = 0" "terminal_read_ready kbd_running = (\<lambda>_. 0)" "line_of kbd_running 0 = [113]"
    by (simp_all add: kbd_running_def Let_def line_of_def)
qed

end
