(* ===== verification/Filesys.thy ===== *)
theory Filesys
  imports Keyboard
begin

text \<open>
  The read-only file system, \<open>student-distrib/filesys_read.c\<close>. The image is a boot module:
  \<open>fs_mem\<close> is its contents by address, an object no kernel code writes. A block is 4096 bytes:
  first the boot block with the directory entries, then the inodes, then the data blocks. A call
  that fills a buffer delivers the bytes it stores; the wrappers store them for the caller.
\<close>

section \<open>State and operations\<close>

record dentry =
  fname :: "u8 list"
  ftype :: u32
  inode :: u32
  reserved :: "u8 list"

record fs_state = kbd_state +
  fs_mem :: memory
  num_dentry :: int
  num_inodes :: int
  num_dataBlocks :: int
  dentry_start :: u32
  inode_start :: u32
  datablk_start :: u32
  read_dir_index :: int
  temp_counter :: int

definition read_filesys_bootblock :: "u32 \<Rightarrow> 'a fs_state_scheme \<Rightarrow> 'a fs_state_scheme" where
  "read_filesys_bootblock bootBlk_addr s =
     (let s = s\<lparr>temp_counter := 0\<rparr>;
          s = s\<lparr>num_dentry := sint (load32 (fs_mem s) bootBlk_addr)\<rparr>;
          s = s\<lparr>num_inodes := sint (load32 (fs_mem s) (bootBlk_addr + 4))\<rparr>;
          s = s\<lparr>num_dataBlocks := sint (load32 (fs_mem s) (bootBlk_addr + 8))\<rparr>;
          s = s\<lparr>dentry_start := bootBlk_addr + 64\<rparr>;
          s = s\<lparr>inode_start := bootBlk_addr + 4096\<rparr>
      in s\<lparr>datablk_start := bootBlk_addr + of_int ((num_inodes s + 1) * 4096)\<rparr>)"

text \<open>\<open>dentry_start[i]\<close>, a 64-byte structure.\<close>

definition dentry_addr :: "'a fs_state_scheme \<Rightarrow> nat \<Rightarrow> u32" where
  "dentry_addr s i = dentry_start s + of_nat (64 * i)"

definition dentry_at :: "'a fs_state_scheme \<Rightarrow> nat \<Rightarrow> dentry" where
  "dentry_at s i =
     (let a = dentry_addr s i
      in \<lparr>fname = bytes_at (fs_mem s) a 32, ftype = load32 (fs_mem s) (a + 32),
          inode = load32 (fs_mem s) (a + 36), reserved = bytes_at (fs_mem s) (a + 40) 24\<rparr>)"

text \<open>The name is a string in \<open>nm\<close> at \<open>a\<close>. \<open>None\<close> is the return value -1.\<close>

definition read_dentry_by_name :: "memory \<Rightarrow> u32 \<Rightarrow> 'a fs_state_scheme \<Rightarrow> dentry option" where
  "read_dentry_by_name nm a s =
     map_option (dentry_at s)
       (find (\<lambda>i. strncmp nm a (fs_mem s) (dentry_addr s i) 32 = 0) [0..<nat (num_dentry s)])"

text \<open>\<open>index >= num_dentry\<close> compares unsigned.\<close>

definition read_dentry_by_index :: "u32 \<Rightarrow> 'a fs_state_scheme \<Rightarrow> dentry option" where
  "read_dentry_by_index index s =
     (if index \<ge> of_int (num_dentry s) then None else Some (dentry_at s (unat index)))"

definition inode_addr :: "'a fs_state_scheme \<Rightarrow> u32 \<Rightarrow> u32" where
  "inode_addr s ino = inode_start s + ino * 4096"

definition inode_length :: "'a fs_state_scheme \<Rightarrow> u32 \<Rightarrow> nat" where
  "inode_length s ino = unat (load32 (fs_mem s) (inode_addr s ino))"

definition data_block :: "'a fs_state_scheme \<Rightarrow> u32 \<Rightarrow> nat \<Rightarrow> u32" where
  "data_block s ino k = load32 (fs_mem s) (inode_addr s ino + 4 + of_nat (4 * k))"

text \<open>The copying loop: \<open>i\<close> bytes are stored, \<open>blk\<close> and \<open>off\<close> say where the next one is.\<close>

function read_data_loop :: "'a fs_state_scheme \<Rightarrow> u32 \<Rightarrow> nat \<Rightarrow> nat \<Rightarrow> nat \<Rightarrow> nat \<Rightarrow> u8 list \<Rightarrow> nat \<times> u8 list" where
  "read_data_loop s ino len i blk off buf =
     (if i < len then
        if i \<ge> inode_length s ino then (i, buf)
        else
          let (blk, off) = (if off = 4096 then (blk + 1, 0) else (blk, off));
              byte = fs_mem s (datablk_start s + data_block s ino blk * 4096 + of_nat off)
          in read_data_loop s ino len (i + 1) blk (off + 1) (buf @ [byte])
      else (len, buf))"
  by pat_completeness auto
termination
  by (relation "measure (\<lambda>(s, ino, len, i, blk, off, buf). len - i)") auto

declare read_data_loop.simps [simp del]

definition read_data :: "u32 \<Rightarrow> u32 \<Rightarrow> u32 \<Rightarrow> u32 \<Rightarrow> 'a fs_state_scheme \<Rightarrow> int \<times> u8 list" where
  "read_data ino offset buf len s =
     (if buf = 0 then (-1, [])
      else if ino = 0 \<or> ino \<ge> of_int (num_inodes s) then (-1, [])
      else if unat offset \<ge> inode_length s ino then (0, [])
      else
        let (n, bytes) = read_data_loop s ino (unat len) 0 (unat offset div 4096) (unat offset mod 4096) []
        in (sint (of_nat n :: u32), bytes))"

definition read_f_by_name :: "memory \<Rightarrow> u32 \<Rightarrow> u32 \<Rightarrow> u32 \<Rightarrow> u32 \<Rightarrow> 'a fs_state_scheme \<Rightarrow> int \<times> u8 list" where
  "read_f_by_name nm a offset buf len s =
     (case read_dentry_by_name nm a s of None \<Rightarrow> (-1, []) | Some d \<Rightarrow> read_data (inode d) offset buf len s)"

definition read_f_by_index :: "u32 \<Rightarrow> int \<Rightarrow> u32 \<Rightarrow> u32 \<Rightarrow> 'a fs_state_scheme \<Rightarrow> int \<times> u8 list" where
  "read_f_by_index index offset buf len s =
     (case read_dentry_by_index index s of None \<Rightarrow> (-1, []) | Some d \<Rightarrow> read_data (inode d) (of_int offset) buf len s)"

definition load_f :: "memory \<Rightarrow> u32 \<Rightarrow> u32 \<Rightarrow> 'a fs_state_scheme \<Rightarrow> int \<times> u8 list" where
  "load_f nm a buffer s =
     (case read_dentry_by_name nm a s of None \<Rightarrow> (-1, [])
      | Some d \<Rightarrow> let len = load32 (fs_mem s) (inode_addr s (inode d)) in read_data (inode d) 0 buffer len s)"

definition read_f :: "u32 \<Rightarrow> u32 \<Rightarrow> 'a fs_state_scheme \<Rightarrow> int \<times> u8 list" where
  "read_f ino buf s = read_data ino 0 buf 0x400000 s"

definition write_f :: int where "write_f = -1"
definition open_f :: int where "open_f = 0"
definition close_f :: int where "close_f = 0"

definition open_dir :: "'a fs_state_scheme \<Rightarrow> int \<times> 'a fs_state_scheme" where
  "open_dir s = (0, s\<lparr>read_dir_index := 0\<rparr>)"

definition close_dir :: "'a fs_state_scheme \<Rightarrow> int \<times> 'a fs_state_scheme" where
  "close_dir s = (0, s\<lparr>read_dir_index := 0\<rparr>)"

definition read_dir :: "'a fs_state_scheme \<Rightarrow> int \<times> u8 list \<times> 'a fs_state_scheme" where
  "read_dir s =
     (if read_dir_index s > num_dentry s then (-1, [], s)
      else case read_dentry_by_index (of_int (read_dir_index s)) s of None \<Rightarrow> (0, [], s)
      | Some d \<Rightarrow> (32, fname d, s\<lparr>read_dir_index := read_dir_index s + 1\<rparr>))"

definition write_dir :: int where "write_dir = -1"

section \<open>Wrappers\<close>

definition read_dir_wrapper ::
  "layout \<Rightarrow> u32 \<Rightarrow> u32 \<Rightarrow> u32 \<Rightarrow> u32 \<Rightarrow> 'a fs_state_scheme \<Rightarrow> (int \<times> 'a fs_state_scheme) option" where
  "read_dir_wrapper L ino offset buf count s =
     (let (n, bytes, s) = read_dir s in map_option (Pair n) (store_bytes L buf bytes s))"

definition write_dir_wrapper :: "u32 \<Rightarrow> u32 \<Rightarrow> u32 \<Rightarrow> u32 \<Rightarrow> 'a fs_state_scheme \<Rightarrow> (int \<times> 'a fs_state_scheme) option" where
  "write_dir_wrapper ino offset buf count s = Some (write_dir, s)"

definition open_dir_wrapper :: "u32 \<Rightarrow> u32 \<Rightarrow> u32 \<Rightarrow> u32 \<Rightarrow> 'a fs_state_scheme \<Rightarrow> (int \<times> 'a fs_state_scheme) option" where
  "open_dir_wrapper ino offset buf count s = Some (open_dir s)"

definition close_dir_wrapper :: "u32 \<Rightarrow> u32 \<Rightarrow> u32 \<Rightarrow> u32 \<Rightarrow> 'a fs_state_scheme \<Rightarrow> (int \<times> 'a fs_state_scheme) option" where
  "close_dir_wrapper ino offset buf count s = Some (close_dir s)"

definition read_f_wrapper ::
  "layout \<Rightarrow> u32 \<Rightarrow> u32 \<Rightarrow> u32 \<Rightarrow> u32 \<Rightarrow> 'a fs_state_scheme \<Rightarrow> (int \<times> 'a fs_state_scheme) option" where
  "read_f_wrapper L ino offset buf count s =
     (let (n, bytes) = read_data ino offset buf count s in map_option (Pair n) (store_bytes L buf bytes s))"

definition write_f_wrapper :: "u32 \<Rightarrow> u32 \<Rightarrow> u32 \<Rightarrow> u32 \<Rightarrow> 'a fs_state_scheme \<Rightarrow> (int \<times> 'a fs_state_scheme) option" where
  "write_f_wrapper ino offset buf count s = Some (write_f, s)"

definition open_f_wrapper :: "u32 \<Rightarrow> u32 \<Rightarrow> u32 \<Rightarrow> u32 \<Rightarrow> 'a fs_state_scheme \<Rightarrow> (int \<times> 'a fs_state_scheme) option" where
  "open_f_wrapper ino offset buf count s = Some (open_f, s)"

definition close_f_wrapper :: "u32 \<Rightarrow> u32 \<Rightarrow> u32 \<Rightarrow> u32 \<Rightarrow> 'a fs_state_scheme \<Rightarrow> (int \<times> 'a fs_state_scheme) option" where
  "close_f_wrapper ino offset buf count s = Some (close_f, s)"

section \<open>Specification\<close>

text \<open>Byte \<open>k\<close> of the blocks of a file, and the file: its first \<open>inode_length\<close> bytes.\<close>

definition file_byte :: "'a fs_state_scheme \<Rightarrow> u32 \<Rightarrow> nat \<Rightarrow> u8" where
  "file_byte s ino k = fs_mem s (datablk_start s + data_block s ino (k div 4096) * 4096 + of_nat (k mod 4096))"

definition file_contents :: "'a fs_state_scheme \<Rightarrow> u32 \<Rightarrow> u8 list" where
  "file_contents s ino = map (file_byte s ino) [0..<inode_length s ino]"

definition dir_names :: "'a fs_state_scheme \<Rightarrow> u8 list list" where
  "dir_names s = map (\<lambda>i. fname (dentry_at s i)) [0..<nat (num_dentry s)]"

definition valid_inode :: "'a fs_state_scheme \<Rightarrow> u32 \<Rightarrow> bool" where
  "valid_inode s ino \<longleftrightarrow> ino \<noteq> 0 \<and> ino < of_int (num_inodes s)"

section \<open>Lemmas\<close>

lemma read_data_loop_spec:
  assumes "n = min len (inode_length s ino)" "i \<le> n" "pos = 4096 * blk + off" "off \<le> 4096"
  shows "read_data_loop s ino len i blk off buf = (n, buf @ map (file_byte s ino) [pos..<pos + (n - i)])"
  using assms(2-)
proof (induction "n - i" arbitrary: i blk off pos buf)
  case 0
  then have "i = n" by simp
  then show ?case using assms(1) by (subst read_data_loop.simps) (auto simp: min_def)
next
  case (Suc k)
  then have i: "i < len" "i < inode_length s ino" using assms(1) by (auto simp: min_def split: if_splits)
  define blk' off' where "blk' = (if off = 4096 then blk + 1 else blk)" and "off' = (if off = 4096 then 0 else off)"
  have pos: "pos div 4096 = blk'" "pos mod 4096 = off'" "off' < 4096" "pos = 4096 * blk' + off'"
    using Suc.prems by (auto simp: blk'_def off'_def)
  have "read_data_loop s ino len i blk off buf = read_data_loop s ino len (i + 1) blk' (off' + 1) (buf @ [file_byte s ino pos])"
    using i by (simp add: read_data_loop.simps [of s ino len i] blk'_def off'_def file_byte_def pos(1,2) Let_def)
  also have "\<dots> = (n, (buf @ [file_byte s ino pos]) @ map (file_byte s ino) [Suc pos..<Suc pos + (n - (i + 1))])"
    using Suc.hyps(2) pos by (intro Suc.hyps(1)) auto
  also have "\<dots> = (n, buf @ map (file_byte s ino) [pos..<pos + (n - i)])"
  proof -
    have k: "n - i = Suc k" "n - (i + 1) = k" using Suc.hyps(2) by simp_all
    have "[pos..<pos + Suc k] = pos # [Suc pos..<Suc pos + k]" by (simp add: upt_conv_Cons)
    then show ?thesis unfolding k by simp
  qed
  finally show ?case .
qed

lemma read_data_spec:
  assumes "valid_inode s ino" "buf \<noteq> 0" "unat offset < inode_length s ino"
  shows "read_data ino offset buf len s =
    (let n = min (unat len) (inode_length s ino)
     in (sint (of_nat n :: u32), map (file_byte s ino) [unat offset..<unat offset + n]))"
proof -
  have "read_data_loop s ino (unat len) 0 (unat offset div 4096) (unat offset mod 4096) []
      = (min (unat len) (inode_length s ino), map (file_byte s ino) [unat offset..<unat offset + min (unat len) (inode_length s ino)])"
    using read_data_loop_spec [of _ "unat len" s ino 0 "unat offset" "unat offset div 4096" "unat offset mod 4096" "[]"]
    by (simp add: less_imp_le)
  then show ?thesis
    using assms by (auto simp: read_data_def valid_inode_def Let_def)
qed

lemma read_data_end: "valid_inode s ino \<Longrightarrow> buf \<noteq> 0 \<Longrightarrow> inode_length s ino \<le> unat offset \<Longrightarrow> read_data ino offset buf len s = (0, [])"
  by (simp add: read_data_def valid_inode_def linorder_not_le)

lemma read_data_invalid: "\<not> valid_inode s ino \<or> buf = 0 \<Longrightarrow> read_data ino offset buf len s = (-1, [])"
  by (auto simp: read_data_def valid_inode_def linorder_not_le)

lemma sint_small: "n < 2147483648 \<Longrightarrow> sint (of_nat n :: u32) = int n"
  by (simp add: signed_of_nat signed_take_bit_int_eq_self)

lemma dentry_name_field: "takeWhile (\<lambda>c. c \<noteq> 0) (fname (dentry_at s i)) = field_string (fs_mem s) (dentry_addr s i) 32"
  by (simp add: dentry_at_def field_string_def Let_def)

lemma read_dentry_by_name_None:
  "read_dentry_by_name nm a s = None \<longleftrightarrow>
     (\<forall>i<nat (num_dentry s). takeWhile (\<lambda>c. c \<noteq> 0) (fname (dentry_at s i)) \<noteq> field_string nm a 32)"
  using strncmp.search_none [of nm a "fs_mem s" "dentry_addr s" 32 "nat (num_dentry s)"]
  by (simp add: read_dentry_by_name_def dentry_name_field)

lemma read_dentry_by_name_Some:
  assumes "read_dentry_by_name nm a s = Some d"
  shows "\<exists>i<nat (num_dentry s). d = dentry_at s i \<and> takeWhile (\<lambda>c. c \<noteq> 0) (fname d) = field_string nm a 32
    \<and> (\<forall>j<i. takeWhile (\<lambda>c. c \<noteq> 0) (fname (dentry_at s j)) \<noteq> field_string nm a 32)"
proof -
  obtain i where i: "find (\<lambda>i. strncmp nm a (fs_mem s) (dentry_addr s i) 32 = 0) [0..<nat (num_dentry s)] = Some i"
      "d = dentry_at s i"
    using assms by (auto simp: read_dentry_by_name_def)
  then show ?thesis
    using strncmp.search_first [OF i(1)] by (intro exI [of _ i]) (simp add: dentry_name_field)
qed

lemma read_dentry_by_index_small:
  assumes "0 \<le> num_dentry s" "num_dentry s < 2147483648" "0 \<le> i" "i \<le> num_dentry s"
  shows "read_dentry_by_index (of_int i) s = (if i < num_dentry s then Some (dentry_at s (nat i)) else None)"
proof -
  have "uint (of_int i :: u32) = i" "uint (of_int (num_dentry s) :: u32) = num_dentry s"
    using assms by (simp_all add: uint_of_int32)
  moreover from this have "unat (of_int i :: u32) = nat i" by (metis unat_eq_nat_uint)
  ultimately show ?thesis by (simp add: read_dentry_by_index_def word_le_def linorder_not_le)
qed

text \<open>Successive calls of \<open>read_dir\<close>.\<close>

fun read_dirs :: "nat \<Rightarrow> 'a fs_state_scheme \<Rightarrow> (int \<times> u8 list) list" where
  "read_dirs 0 s = []"
| "read_dirs (Suc k) s = (let (n, bytes, s') = read_dir s in (n, bytes) # read_dirs k s')"

lemma dir_names_cong [simp]: "dir_names (s\<lparr>read_dir_index := i\<rparr>) = dir_names s"
  by (simp add: dir_names_def dentry_at_def dentry_addr_def Let_def)

lemma read_dirs_from:
  assumes "0 \<le> num_dentry s" "num_dentry s < 2147483648" "0 \<le> read_dir_index s" "read_dir_index s \<le> num_dentry s"
  shows "read_dirs (Suc (nat (num_dentry s - read_dir_index s))) s
    = map (Pair 32) (drop (nat (read_dir_index s)) (dir_names s)) @ [(0, [])]"
  using assms
proof (induction "nat (num_dentry s - read_dir_index s)" arbitrary: s)
  case 0
  then have "read_dir_index s = num_dentry s" by simp
  with 0 show ?case by (simp add: read_dir_def read_dentry_by_index_small dir_names_def)
next
  case (Suc k)
  let ?i = "read_dir_index s"
  let ?s = "s\<lparr>read_dir_index := ?i + 1\<rparr>"
  have i: "?i < num_dentry s" and k: "k = nat (num_dentry ?s - read_dir_index ?s)" using Suc.hyps(2) by auto
  have IH: "read_dirs (Suc k) ?s = map (Pair 32) (drop (Suc (nat ?i)) (dir_names s)) @ [(0, [])]"
    using Suc.hyps(1) [OF k] Suc.prems i by (simp add: k Suc_nat_eq_nat_zadd1 add.commute)
  have "read_dir s = (32, fname (dentry_at s (nat ?i)), ?s)"
    using Suc.prems i by (simp add: read_dir_def read_dentry_by_index_small)
  moreover have "drop (nat ?i) (dir_names s) = fname (dentry_at s (nat ?i)) # drop (Suc (nat ?i)) (dir_names s)"
    using Suc.prems i by (subst Cons_nth_drop_Suc [symmetric]) (simp_all add: dir_names_def)
  ultimately show ?case
    using IH by (simp only: Suc.hyps(2) [symmetric] read_dirs.simps(2) [of "Suc k"] Let_def case_prod_conv) simp
qed

lemma read_data_start:
  assumes "inode_length s ino < 2147483648"
  shows "read_data ino 0 buf len s =
    (if \<not> valid_inode s ino \<or> buf = 0 then (-1, [])
     else (int (length (take (unat len) (file_contents s ino))), take (unat len) (file_contents s ino)))"
proof (cases "\<not> valid_inode s ino \<or> buf = 0")
  case True
  then show ?thesis by (auto simp: read_data_invalid)
next
  case False
  show ?thesis
  proof (cases "inode_length s ino = 0")
    case True
    with False show ?thesis by (simp add: read_data_end file_contents_def)
  next
    case nz: False
    let ?n = "min (unat len) (inode_length s ino)"
    have "map (file_byte s ino) [0..<?n] = take (unat len) (file_contents s ino)"
      by (simp add: file_contents_def take_map min_def)
    then show ?thesis
      using False nz assms by (simp add: read_data_spec Let_def sint_small file_contents_def min.commute)
  qed
qed

section \<open>Properties\<close>

text \<open>
  Looking a file up by name. The call succeeds exactly when some directory entry has the
  name (compared up to a NUL or 32 characters), and it then delivers the first such entry with
  its type and inode number; it never looks outside the \<open>num_dentry\<close> entries.
\<close>

theorem dentry_lookup_by_name:
  "case read_dentry_by_name nm a s of
     None \<Rightarrow> \<forall>i<nat (num_dentry s). takeWhile (\<lambda>c. c \<noteq> 0) (fname (dentry_at s i)) \<noteq> field_string nm a 32
   | Some d \<Rightarrow> \<exists>i<nat (num_dentry s). d = dentry_at s i \<and> takeWhile (\<lambda>c. c \<noteq> 0) (fname d) = field_string nm a 32
       \<and> (\<forall>j<i. takeWhile (\<lambda>c. c \<noteq> 0) (fname (dentry_at s j)) \<noteq> field_string nm a 32)"
  using read_dentry_by_name_None [of nm a s] read_dentry_by_name_Some [of nm a s] by (auto split: option.splits)

text \<open>
  \<open>read_data\<close> from the start of a file delivers exactly the file: the first \<open>len\<close> bytes of
  its contents, or all of it when it is shorter, across any number of blocks, with their number
  as the result; -1 for a bad inode or a null buffer and 0 at the end of the file.
\<close>

theorem read_data_from_start:
  assumes "inode_length s ino < 2147483648"
  shows "read_data ino 0 buf len s =
    (if \<not> valid_inode s ino \<or> buf = 0 then (-1, [])
     else (int (length (take (unat len) (file_contents s ino))), take (unat len) (file_contents s ino)))"
  using assms by (rule read_data_start)

definition demo_image :: memory where
  "demo_image =
     (let m = store32 (\<lambda>_. 0) 0x500000 1; m = store32 m 0x500004 2; m = store32 m 0x500008 1;
          m = write_bytes m 0x500040 [102, 49]; m = store32 m 0x500060 2; m = store32 m 0x500064 1;
          m = store32 m 0x502000 3; m = store32 m 0x502004 0
      in write_bytes m 0x503000 [65, 66, 67, 68, 69])"

definition fs_demo :: fs_state where
  "fs_demo = read_filesys_bootblock 0x500000 (kbd_state.extend kbd_running
     (fs_state.fields demo_image 0 0 0 0 0 0 0 0))"

lemma demo_image_words:
  "load32 demo_image 0x500000 = 1" "load32 demo_image 0x500004 = 2" "load32 demo_image 0x502000 = 3" "load32 demo_image 0x502004 = 0"
  "map (\<lambda>k. demo_image (0x503000 + of_nat k)) [0..<5] = [65, 66, 67, 68, 69]"
  by code_simp+

lemma fs_demo_layout:
  "fs_mem fs_demo = demo_image" "num_dentry fs_demo = 1" "num_inodes fs_demo = 2"
  "dentry_start fs_demo = 0x500040" "inode_start fs_demo = 0x501000" "datablk_start fs_demo = 0x503000"
  by (simp_all add: fs_demo_def read_filesys_bootblock_def Let_def kbd_state.defs fs_state.defs demo_image_words)

lemma fs_demo_file:
  "valid_inode fs_demo 1" "inode_length fs_demo 1 = 3" "map (file_byte fs_demo 1) [0..<5] = [65, 66, 67, 68, 69]"
proof -
  have a: "inode_addr fs_demo 1 = 0x502000" by (simp add: inode_addr_def fs_demo_layout)
  show "valid_inode fs_demo 1" by (simp add: valid_inode_def fs_demo_layout)
  show "inode_length fs_demo 1 = 3" by (simp add: inode_length_def a fs_demo_layout demo_image_words)
  have "file_byte fs_demo 1 k = demo_image (0x503000 + of_nat k)" if "k < 5" for k
    using that by (simp add: file_byte_def data_block_def a fs_demo_layout demo_image_words)
  then have "map (file_byte fs_demo 1) [0..<5] = map (\<lambda>k. demo_image (0x503000 + of_nat k)) [0..<5]"
    by (intro map_cong) simp_all
  then show "map (file_byte fs_demo 1) [0..<5] = [65, 66, 67, 68, 69]" by (simp only: demo_image_words)
qed

theorem read_data_from_start_witness: "read_data 1 0 0x8100000 100 fs_demo = (3, [65, 66, 67])"
  using read_data_from_start [of fs_demo 1 "0x8100000" 100] fs_demo_file
  by (simp add: file_contents_def upt_rec numeral_3_eq_3)

text \<open>
  C31: what \<open>read_data\<close> does at an offset inside the file. It delivers consecutive bytes of the
  file's blocks from the offset on, and exactly the requested part when that lies inside the
  file. But it compares the count of bytes copied, not the position, with the file length: a
  request that reaches over the end is cut only at the length of the whole file, so the result
  counts, and the buffer gets, bytes behind the end of the file.
\<close>

theorem read_data_at_offset:
  assumes "valid_inode s ino" and "buf \<noteq> 0" and "unat offset < inode_length s ino" and "inode_length s ino < 2147483648"
  shows "read_data ino offset buf len s =
      (int (min (unat len) (inode_length s ino)),
       map (file_byte s ino) [unat offset..<unat offset + min (unat len) (inode_length s ino)])
    \<and> (unat offset + unat len \<le> inode_length s ino \<longrightarrow>
         snd (read_data ino offset buf len s) = take (unat len) (drop (unat offset) (file_contents s ino)))
    \<and> (unat offset + unat len > inode_length s ino \<and> offset \<noteq> 0 \<longrightarrow>
         fst (read_data ino offset buf len s) > int (length (drop (unat offset) (file_contents s ino))))"
proof -
  let ?n = "min (unat len) (inode_length s ino)"
  have r: "read_data ino offset buf len s = (int ?n, map (file_byte s ino) [unat offset..<unat offset + ?n])"
    using assms by (simp add: read_data_spec Let_def sint_small)
  have "inode_length s ino - unat offset < ?n" if "unat offset + unat len > inode_length s ino \<and> offset \<noteq> 0"
  proof -
    have "0 < unat offset" using that by (simp add: unat_gt_0)
    with that assms(3) show ?thesis by (simp add: less_diff_conv2 add.commute)
  qed
  then have "int (length (drop (unat offset) (file_contents s ino))) < int ?n"
    if "unat offset + unat len > inode_length s ino \<and> offset \<noteq> 0"
    using that by (simp only: of_nat_less_iff file_contents_def length_drop length_map length_upt diff_zero simp_thms)
  moreover have "map (file_byte s ino) [unat offset..<unat offset + ?n] = take (unat len) (drop (unat offset) (file_contents s ino))"
    if "unat offset + unat len \<le> inode_length s ino"
    using that by (simp add: file_contents_def drop_map take_map min_def)
  ultimately show ?thesis by (simp add: r)
qed

theorem read_data_at_offset_witness: "read_data 1 2 0x8100000 2 fs_demo = (2, [67, 68])"
proof -
  have "[2..<2 + 2] = take 2 (drop 2 [0..<5 :: nat])" by code_simp
  then have "map (file_byte fs_demo 1) [2..<2 + 2] = take 2 (drop 2 (map (file_byte fs_demo 1) [0..<5]))"
    by (simp only: drop_map take_map)
  then have "map (file_byte fs_demo 1) [2..<2 + 2] = [67, 68]"
    by (simp only: fs_demo_file) simp
  then show ?thesis
    using read_data_at_offset [of fs_demo 1 "0x8100000" 2 2] fs_demo_file by simp
qed

text \<open>
  Reading a directory. After \<open>open_dir\<close>, successive calls of \<open>read_dir\<close> deliver the names of
  all directory entries in order, each once and 32 bytes long, and then 0.
\<close>

theorem read_dir_lists_directory:
  assumes "0 \<le> num_dentry s" and "num_dentry s < 2147483648"
  shows "read_dirs (Suc (nat (num_dentry s))) (snd (open_dir s)) = map (Pair 32) (dir_names s) @ [(0, [])]"
  using read_dirs_from [of "s\<lparr>read_dir_index := 0\<rparr>"] assms by (simp add: open_dir_def)

theorem read_dir_lists_directory_witness:
  "read_dirs 2 (snd (open_dir fs_demo)) = map (Pair 32) (dir_names fs_demo) @ [(0, [])]"
  using read_dir_lists_directory [of fs_demo] by (simp add: fs_demo_layout numeral_2_eq_2)

theorem dentry_lookup_by_name_witness:
  "read_dentry_by_name demo_image 0x500040 fs_demo = Some (dentry_at fs_demo 0)"
proof -
  have "takeWhile (\<lambda>c. c \<noteq> 0) (fname (dentry_at fs_demo 0)) = field_string demo_image 0x500040 32"
    by (simp add: dentry_name_field dentry_addr_def fs_demo_layout)
  then show ?thesis
    using dentry_lookup_by_name [where nm = demo_image and a = "0x500040" and s = fs_demo] by (simp add: fs_demo_layout split: option.splits)
qed

end
