(* ===== verification/Files.thy ===== *)
theory Files
  imports Filesys
begin

text \<open>
  The process control block and the system calls on file descriptors, \<open>student-distrib/syscall.h\<close>
  and the second half of \<open>student-distrib/syscall.c\<close>: \<open>read\<close>, \<open>write\<close>, \<open>open\<close>, \<open>close\<close>,
  \<open>getargs\<close>, \<open>vidmap\<close> and the two unused signal calls. The jump table of a descriptor is the
  datatype \<open>fop\<close> of the functions the kernel stores there. The calls that have the name of an outer
  keyword or of another function carry the prefix \<open>sys_\<close>.
\<close>

section \<open>State\<close>

datatype fop =
    Terminal_read_wrap | Terminal_write_wrap | Terminal_wrong | Terminal_nothing
  | Rtc_read_wrapper | Rtc_write_wrapper | Rtc_open_wrapper | Rtc_close_wrapper
  | Read_dir_wrapper | Write_dir_wrapper | Open_dir_wrapper | Close_dir_wrapper
  | Read_f_wrapper | Write_f_wrapper | Open_f_wrapper | Close_f_wrapper

record file_desc =
  fop_open :: fop
  fop_close :: fop
  fop_read :: fop
  fop_write :: fop
  fd_inode :: int
  file_pos :: int
  flag :: int

record pcb =
  pcb_pid :: int
  p_pid :: int
  parent_esp :: u32
  parent_ebp :: u32
  current_esp :: u32
  current_ebp :: u32
  pcb_terminal :: int
  file_array :: "nat \<Rightarrow> file_desc"
  bitmap :: "nat \<Rightarrow> int"

text \<open>\<open>pcbs p\<close> is the block at \<open>GET_PCB(p)\<close>.\<close>

record sys_state = fs_state +
  t_curr :: "nat \<Rightarrow> int"
  proc_state :: "nat \<Rightarrow> int"
  argBuf :: "nat \<Rightarrow> u8"
  argSize :: u32
  curr :: int
  pcbs :: "int \<Rightarrow> pcb"
  tss_ss0 :: u16
  tss_esp0 :: u32

definition GET_PCB :: "int \<Rightarrow> u32" where
  "GET_PCB x = 0x7FF000 - 0x1000 * of_int x"

definition GET_ESP :: "int \<Rightarrow> u32" where
  "GET_ESP x = 0x800000 - 0x1000 * of_int x - 0x10"

definition set_pcb :: "int \<Rightarrow> (pcb \<Rightarrow> pcb) \<Rightarrow> 'a sys_state_scheme \<Rightarrow> 'a sys_state_scheme" where
  "set_pcb p f s = s\<lparr>pcbs := (pcbs s)(p := f (pcbs s p))\<rparr>"

definition set_fd :: "nat \<Rightarrow> (file_desc \<Rightarrow> file_desc) \<Rightarrow> pcb \<Rightarrow> pcb" where
  "set_fd i f b = b\<lparr>file_array := (file_array b)(i := f (file_array b i))\<rparr>"

definition set_bitmap :: "nat \<Rightarrow> int \<Rightarrow> pcb \<Rightarrow> pcb" where
  "set_bitmap i v b = b\<lparr>bitmap := (bitmap b)(i := v)\<rparr>"

section \<open>Operations\<close>

text \<open>A call through a descriptor's jump table; all entries have the same C type.\<close>

definition call_op ::
  "layout \<Rightarrow> device \<Rightarrow> ('a sys_state_scheme \<Rightarrow> 'a sys_state_scheme) list \<Rightarrow> fop \<Rightarrow> u32 \<Rightarrow> u32 \<Rightarrow> u32 \<Rightarrow> u32
   \<Rightarrow> 'a sys_state_scheme \<Rightarrow> (int \<times> 'a sys_state_scheme) option" where
  "call_op L dev hs op ino offset buf count s =
     (case op of
        Terminal_read_wrap \<Rightarrow> terminal_read_wrap L hs ino offset buf count s
      | Terminal_write_wrap \<Rightarrow> terminal_write_wrap L ino offset buf count s
      | Terminal_wrong \<Rightarrow> terminal_wrong s
      | Terminal_nothing \<Rightarrow> terminal_nothing s
      | Rtc_read_wrapper \<Rightarrow> rtc_read_wrapper hs ino offset buf count s
      | Rtc_write_wrapper \<Rightarrow> Some (rtc_write_wrapper dev (view L s) ino offset buf count s)
      | Rtc_open_wrapper \<Rightarrow> Some (rtc_open_wrapper dev ino offset buf count s)
      | Rtc_close_wrapper \<Rightarrow> Some (rtc_close_wrapper ino offset buf count s)
      | Read_dir_wrapper \<Rightarrow> read_dir_wrapper L ino offset buf count s
      | Write_dir_wrapper \<Rightarrow> write_dir_wrapper ino offset buf count s
      | Open_dir_wrapper \<Rightarrow> open_dir_wrapper ino offset buf count s
      | Close_dir_wrapper \<Rightarrow> close_dir_wrapper ino offset buf count s
      | Read_f_wrapper \<Rightarrow> read_f_wrapper L ino offset buf count s
      | Write_f_wrapper \<Rightarrow> write_f_wrapper ino offset buf count s
      | Open_f_wrapper \<Rightarrow> open_f_wrapper ino offset buf count s
      | Close_f_wrapper \<Rightarrow> close_f_wrapper ino offset buf count s)"

definition sys_read ::
  "layout \<Rightarrow> device \<Rightarrow> ('a sys_state_scheme \<Rightarrow> 'a sys_state_scheme) list \<Rightarrow> int \<Rightarrow> u32 \<Rightarrow> u32
   \<Rightarrow> 'a sys_state_scheme \<Rightarrow> (int \<times> 'a sys_state_scheme) option" where
  "sys_read L dev hs fd buf nbytes s =
     (if buf = 0 then Some (-1, s)
      else if fd \<ge> 8 \<or> fd < 0 then Some (-1, s)
      else
        let p = curr s; f = file_array (pcbs s p) (nat fd) in
        if flag f = 0 then Some (-1, s)
        else do {
          (count, s) \<leftarrow> call_op L dev hs (fop_read f) (of_int (fd_inode f)) (of_int (file_pos f)) buf nbytes s;
          if count < 0 then Some (-1, s)
          else Some (count, set_pcb p (set_fd (nat fd) (\<lambda>f. f\<lparr>file_pos := file_pos f + count\<rparr>)) s) })"

definition sys_write ::
  "layout \<Rightarrow> device \<Rightarrow> ('a sys_state_scheme \<Rightarrow> 'a sys_state_scheme) list \<Rightarrow> int \<Rightarrow> u32 \<Rightarrow> u32
   \<Rightarrow> 'a sys_state_scheme \<Rightarrow> (int \<times> 'a sys_state_scheme) option" where
  "sys_write L dev hs fd buf nbytes s =
     (if buf = 0 then Some (-1, s)
      else if fd \<ge> 8 \<or> fd < 0 \<or> buf = 0 then Some (-1, s)
      else
        let p = curr s; f = file_array (pcbs s p) (nat fd) in
        if bitmap (pcbs s p) (nat fd) = 0 then Some (-1, s)
        else do {
          (count, s) \<leftarrow> call_op L dev hs (fop_write f) (of_int (fd_inode f)) 0 buf nbytes s;
          if count < 0 then Some (-1, s) else Some (count, s) })"

text \<open>The loop of \<open>open\<close> that looks for a free descriptor from 2 on.\<close>

definition free_desc :: "(nat \<Rightarrow> int) \<Rightarrow> int" where
  "free_desc bm = (case find (\<lambda>i. bm i = 0) [2..<8] of Some i \<Rightarrow> int i | None \<Rightarrow> -1)"

definition fops_of :: "fop \<Rightarrow> fop \<Rightarrow> fop \<Rightarrow> fop \<Rightarrow> file_desc \<Rightarrow> file_desc" where
  "fops_of r w opn cls f = f\<lparr>fop_read := r, fop_write := w, fop_open := opn, fop_close := cls\<rparr>"

definition sys_open :: "layout \<Rightarrow> u32 \<Rightarrow> 'a sys_state_scheme \<Rightarrow> int \<times> 'a sys_state_scheme" where
  "sys_open L filename s =
     (if filename = 0 then (-1, s)
      else case read_dentry_by_name (view L s) filename s of None \<Rightarrow> (-1, s)
      | Some d \<Rightarrow>
        let p = curr s; i = free_desc (bitmap (pcbs s p)) in
        if i = -1 then (-1, s)
        else
          let s = set_pcb p (set_bitmap (nat i) 1) s;
              s = (if ftype d = 0 then set_pcb p (set_fd (nat i)
                     (fops_of Rtc_read_wrapper Rtc_write_wrapper Rtc_open_wrapper Rtc_close_wrapper)) s else s);
              s = (if ftype d = 1 then
                     let (_, s) = open_dir s in set_pcb p (set_fd (nat i)
                     (fops_of Read_dir_wrapper Write_dir_wrapper Open_dir_wrapper Close_dir_wrapper)) s else s);
              s = (if ftype d = 2 then set_pcb p (set_fd (nat i)
                     (fops_of Read_f_wrapper Write_f_wrapper Open_f_wrapper Close_f_wrapper)) s else s);
              s = set_pcb p (set_fd (nat i) (\<lambda>f. f\<lparr>fd_inode := sint (inode d), flag := 1, file_pos := 0\<rparr>)) s
          in (i, s))"

text \<open>
  \<open>close\<close> lets \<open>fd = 8\<close> pass. \<open>file_array[8].flag\<close> is the word 24 bytes behind the end of the
  array, which is \<open>bitmap[6]\<close>; \<open>bitmap[8]\<close> lies behind the block, in no object of the kernel.
\<close>

definition get_flag :: "int \<Rightarrow> pcb \<Rightarrow> int" where
  "get_flag fd b = (if fd = 8 then bitmap b 6 else flag (file_array b (nat fd)))"

definition clear_flag :: "int \<Rightarrow> pcb \<Rightarrow> pcb" where
  "clear_flag fd b = (if fd = 8 then set_bitmap 6 0 b else set_fd (nat fd) (\<lambda>f. f\<lparr>flag := 0\<rparr>) b)"

definition clear_bitmap :: "int \<Rightarrow> pcb \<Rightarrow> pcb" where
  "clear_bitmap fd b = (if fd = 8 then b else set_bitmap (nat fd) 0 b)"

definition sys_close :: "int \<Rightarrow> 'a sys_state_scheme \<Rightarrow> int \<times> 'a sys_state_scheme" where
  "sys_close fd s =
     (if fd > 8 \<or> fd < 2 then (-1, s)
      else
        let p = curr s in
        if get_flag fd (pcbs s p) = 0 then (-1, s)
        else
          let s = set_pcb p (clear_flag fd) s;
              s = set_pcb p (clear_bitmap fd) s
          in (0, s))"

definition getargs :: "layout \<Rightarrow> u32 \<Rightarrow> int \<Rightarrow> 'a sys_state_scheme \<Rightarrow> (int \<times> 'a sys_state_scheme) option" where
  "getargs L buf nbytes s =
     (if buf = 0 \<or> argSize s = 0 then Some (-1, s)
      else do {
        n \<leftarrow> strlen (view L s) buf;
        s \<leftarrow> store_bytes L buf (replicate (unat n) 0) s;
        k \<leftarrow> strlen (\<lambda>a. argBuf s (unat a)) 0;
        s \<leftarrow> store_bytes L buf (map (argBuf s) [0..<unat k]) s;
        s \<leftarrow> store_byte L (buf + k) 0 s;
        Some (0, s) })"

definition vidmap :: "layout \<Rightarrow> u32 \<Rightarrow> u32 \<Rightarrow> 'a sys_state_scheme \<Rightarrow> (int \<times> 'a sys_state_scheme) option" where
  "vidmap L stack start_screen s =
     (if start_screen = 0 \<or> start_screen = 0x400000 then Some (-1, s)
      else
        let t_display = int (get_display_terminal s);
            s = vidMem_page_map L stack (132 * 0x100000) t_display s
        in do {
          s \<leftarrow> store_bytes L start_screen [0x00, 0x00, 0x40, 0x08] s;
          Some (132 * 0x100000, s) })"

definition set_handler :: "int \<Rightarrow> u32 \<Rightarrow> int" where
  "set_handler signum handler_address = 0"

definition sigreturn :: int where
  "sigreturn = 0"

section \<open>Allocation of the first free slot\<close>

text \<open>
  Descriptors and process numbers are handed out the same way: the lowest slot of a table that
  is not in use, and -1 when there is none.
\<close>

locale first_free =
  fixes lo hi :: nat and used :: "'s \<Rightarrow> nat \<Rightarrow> bool" and alloc :: "'s \<Rightarrow> int"
  assumes alloc_lowest:
      "alloc s \<noteq> -1 \<Longrightarrow> \<exists>i. alloc s = int i \<and> lo \<le> i \<and> i < hi \<and> \<not> used s i \<and> (\<forall>j. lo \<le> j \<longrightarrow> j < i \<longrightarrow> used s j)"
    and alloc_full: "alloc s = -1 \<longleftrightarrow> (\<forall>i. lo \<le> i \<longrightarrow> i < hi \<longrightarrow> used s i)"
begin

lemma alloc_range: "alloc s \<noteq> -1 \<Longrightarrow> int lo \<le> alloc s \<and> alloc s < int hi \<and> \<not> used s (nat (alloc s))"
  using alloc_lowest by fastforce

lemma alloc_succeeds: "lo \<le> i \<Longrightarrow> i < hi \<Longrightarrow> \<not> used s i \<Longrightarrow> alloc s \<noteq> -1 \<and> alloc s \<le> int i"
proof -
  assume i: "lo \<le> i" "i < hi" "\<not> used s i"
  then have "alloc s \<noteq> -1" using alloc_full by blast
  moreover from this obtain k where "alloc s = int k" "\<forall>j. lo \<le> j \<longrightarrow> j < k \<longrightarrow> used s j" using alloc_lowest by blast
  ultimately show ?thesis using i by (metis linorder_not_le of_nat_le_iff)
qed

lemma alloc_distinct: "alloc s \<noteq> -1 \<Longrightarrow> used s' (nat (alloc s)) \<Longrightarrow> alloc s' \<noteq> alloc s"
  using alloc_range by metis

end

lemma find_upt_Some:
  assumes "find P [lo..<hi] = Some i"
  shows "lo \<le> i \<and> i < hi \<and> P i \<and> (\<forall>j. lo \<le> j \<longrightarrow> j < i \<longrightarrow> \<not> P j)"
proof -
  obtain k where k: "k < length [lo..<hi]" "P ([lo..<hi] ! k)" "i = [lo..<hi] ! k" "\<forall>j<k. \<not> P ([lo..<hi] ! j)"
    using assms unfolding find_Some_iff by (elim exE conjE)
  have nth: "[lo..<hi] ! j = lo + j" if "j \<le> k" for j using that k(1) by simp
  have "\<not> P j" if "lo \<le> j" "j < i" for j
  proof -
    have "j - lo < k" using that k(3) nth [of k] by simp
    then have "\<not> P ([lo..<hi] ! (j - lo))" using k(4) by blast
    then show ?thesis using nth [of "j - lo"] \<open>j - lo < k\<close> that(1) by simp
  qed
  then show ?thesis using k(1,2,3) nth [of k] by simp
qed

lemma find_first_free:
  assumes "f = (case find (\<lambda>i. \<not> used i) [lo..<hi] of Some i \<Rightarrow> int i | None \<Rightarrow> -1)"
  shows "f \<noteq> -1 \<Longrightarrow> \<exists>i. f = int i \<and> lo \<le> i \<and> i < hi \<and> \<not> used i \<and> (\<forall>j. lo \<le> j \<longrightarrow> j < i \<longrightarrow> used j)"
    and "f = -1 \<longleftrightarrow> (\<forall>i. lo \<le> i \<longrightarrow> i < hi \<longrightarrow> used i)"
proof -
  have none: "find (\<lambda>i. \<not> used i) [lo..<hi] = None \<longleftrightarrow> (\<forall>i. lo \<le> i \<longrightarrow> i < hi \<longrightarrow> used i)"
    by (auto simp: find_None_iff)
  show "f = -1 \<longleftrightarrow> (\<forall>i. lo \<le> i \<longrightarrow> i < hi \<longrightarrow> used i)"
  proof (cases "find (\<lambda>i. \<not> used i) [lo..<hi]")
    case None
    with assms none show ?thesis by simp
  next
    case (Some i)
    with assms none show ?thesis by auto
  qed
  assume "f \<noteq> -1"
  then obtain i where "find (\<lambda>i. \<not> used i) [lo..<hi] = Some i" "f = int i"
    using assms by (cases "find (\<lambda>i. \<not> used i) [lo..<hi]") simp_all
  then show "\<exists>i. f = int i \<and> lo \<le> i \<and> i < hi \<and> \<not> used i \<and> (\<forall>j. lo \<le> j \<longrightarrow> j < i \<longrightarrow> used j)"
    using find_upt_Some [of "\<lambda>i. \<not> used i" lo hi i] by auto
qed

interpretation desc: first_free 2 8 "\<lambda>bm i. bm i \<noteq> 0" free_desc
proof unfold_locales
  fix bm :: "nat \<Rightarrow> int"
  have f: "free_desc bm = (case find (\<lambda>i. \<not> bm i \<noteq> 0) [2..<8] of Some i \<Rightarrow> int i | None \<Rightarrow> -1)"
    by (simp add: free_desc_def)
  show "free_desc bm \<noteq> -1 \<Longrightarrow> \<exists>i. free_desc bm = int i \<and> 2 \<le> i \<and> i < 8 \<and> \<not> bm i \<noteq> 0 \<and> (\<forall>j. 2 \<le> j \<longrightarrow> j < i \<longrightarrow> bm j \<noteq> 0)"
    by (rule find_first_free(1) [OF f])
  show "(free_desc bm = -1) = (\<forall>i. 2 \<le> i \<longrightarrow> i < 8 \<longrightarrow> bm i \<noteq> 0)"
    by (rule find_first_free(2) [OF f])
qed

section \<open>Lemmas\<close>

lemma set_pcb_simps [simp]:
  "pcbs (set_pcb p f s) = (pcbs s)(p := f (pcbs s p))" "curr (set_pcb p f s) = curr s" "ram (set_pcb p f s) = ram s"
  "page_directory (set_pcb p f s) = page_directory s" "page_table (set_pcb p f s) = page_table s"
  "vidMem_table (set_pcb p f s) = vidMem_table s" "fs_mem (set_pcb p f s) = fs_mem s"
  "num_dentry (set_pcb p f s) = num_dentry s" "num_inodes (set_pcb p f s) = num_inodes s"
  "dentry_start (set_pcb p f s) = dentry_start s" "inode_start (set_pcb p f s) = inode_start s"
  "datablk_start (set_pcb p f s) = datablk_start s" "t_curr (set_pcb p f s) = t_curr s" "proc_state (set_pcb p f s) = proc_state s"
  by (simp_all add: set_pcb_def)

lemma pcb_field_simps [simp]:
  "file_array (set_fd i f b) = (file_array b)(i := f (file_array b i))" "bitmap (set_fd i f b) = bitmap b"
  "bitmap (set_bitmap i v b) = (bitmap b)(i := v)" "file_array (set_bitmap i v b) = file_array b"
  "pcb_pid (set_fd i f b) = pcb_pid b" "p_pid (set_fd i f b) = p_pid b" "pcb_terminal (set_fd i f b) = pcb_terminal b"
  "pcb_pid (set_bitmap i v b) = pcb_pid b" "p_pid (set_bitmap i v b) = p_pid b" "pcb_terminal (set_bitmap i v b) = pcb_terminal b"
  by (simp_all add: set_fd_def set_bitmap_def)

text \<open>A descriptor is in use in both tables or in neither.\<close>

definition fds_ok :: "pcb \<Rightarrow> bool" where
  "fds_ok b \<longleftrightarrow> (\<forall>i. 2 \<le> i \<longrightarrow> i < 8 \<longrightarrow> (flag (file_array b i) = 0 \<longleftrightarrow> bitmap b i = 0))"

lemma sys_open_cases:
  "sys_open L filename s =
     (case (if filename = 0 then None else read_dentry_by_name (view L s) filename s) of None \<Rightarrow> (-1, s)
      | Some d \<Rightarrow> if free_desc (bitmap (pcbs s (curr s))) = -1 then (-1, s) else (free_desc (bitmap (pcbs s (curr s))), snd (sys_open L filename s)))"
  by (auto simp: sys_open_def Let_def split: option.splits)

lemma sys_open_pcb:
  assumes "filename \<noteq> 0" "read_dentry_by_name (view L s) filename s = Some d" "free_desc (bitmap (pcbs s (curr s))) = int i"
  shows "pcbs (snd (sys_open L filename s)) = (pcbs s)(curr s :=
    set_fd i (\<lambda>f. f\<lparr>fd_inode := sint (inode d), flag := 1, file_pos := 0\<rparr>)
     (set_fd i (if ftype d = 0 then fops_of Rtc_read_wrapper Rtc_write_wrapper Rtc_open_wrapper Rtc_close_wrapper
        else if ftype d = 1 then fops_of Read_dir_wrapper Write_dir_wrapper Open_dir_wrapper Close_dir_wrapper
        else if ftype d = 2 then fops_of Read_f_wrapper Write_f_wrapper Open_f_wrapper Close_f_wrapper else id)
      (set_bitmap i 1 (pcbs s (curr s)))))"
  using assms by (auto simp: sys_open_def Let_def open_dir_def set_pcb_def set_fd_def)

lemma fds_ok_open:
  assumes "fds_ok (pcbs s (curr s))"
  shows "fds_ok (pcbs (snd (sys_open L filename s)) (curr s))"
proof (cases "filename = 0 \<or> read_dentry_by_name (view L s) filename s = None \<or> free_desc (bitmap (pcbs s (curr s))) = -1")
  case True
  then show ?thesis using assms by (auto simp: sys_open_def Let_def split: option.splits)
next
  case False
  then obtain d i where di: "read_dentry_by_name (view L s) filename s = Some d" "free_desc (bitmap (pcbs s (curr s))) = int i"
    using desc.alloc_lowest [of "bitmap (pcbs s (curr s))"] by auto
  have "filename \<noteq> 0" using False by simp
  then show ?thesis
    using assms by (simp add: sys_open_pcb [OF _ di] fds_ok_def fops_of_def)
qed

lemma sys_close_pcb:
  "2 \<le> fd \<Longrightarrow> fd < 8 \<Longrightarrow> flag (file_array (pcbs s (curr s)) (nat fd)) \<noteq> 0 \<Longrightarrow>
     sys_close fd s = (0, set_pcb (curr s) (set_bitmap (nat fd) 0 \<circ> set_fd (nat fd) (\<lambda>f. f\<lparr>flag := 0\<rparr>)) s)"
  by (simp add: sys_close_def get_flag_def clear_flag_def clear_bitmap_def set_pcb_def Let_def)

lemma fds_ok_close:
  assumes "fds_ok (pcbs s (curr s))" "fd \<noteq> 8"
  shows "fds_ok (pcbs (snd (sys_close fd s)) (curr s))"
proof (cases "2 \<le> fd \<and> fd < 8 \<and> flag (file_array (pcbs s (curr s)) (nat fd)) \<noteq> 0")
  case True
  then show ?thesis using assms by (simp add: sys_close_pcb fds_ok_def)
next
  case False
  then have "sys_close fd s = (-1, s)" using assms(2) by (auto simp: sys_close_def get_flag_def Let_def)
  then show ?thesis using assms(1) by simp
qed

lemma set_pcb_view [simp]: "view L (set_pcb p f s) = view L s"
  by (rule view_cong) simp_all

lemma set_pcb_mapped [simp]: "user_mapped L q (set_pcb p f s) = user_mapped L q s"
  by (simp add: user_mapped_def address_space_def)

lemma set_pcb_files [simp]:
  "valid_inode (set_pcb p f s) ino = valid_inode s ino" "inode_length (set_pcb p f s) ino = inode_length s ino"
  "file_contents (set_pcb p f s) ino = file_contents s ino"
  by (simp_all add: valid_inode_def inode_length_def inode_addr_def file_contents_def file_byte_def [abs_def] data_block_def)

lemma sys_open_regular:
  assumes "filename \<noteq> 0" "read_dentry_by_name (view L s) filename s = Some d" "ftype d = 2"
    and "free_desc (bitmap (pcbs s (curr s))) = int i"
  shows "\<exists>g. sys_open L filename s = (int i, set_pcb (curr s) g s)
    \<and> (let f = file_array (g (pcbs s (curr s))) i in flag f = 1 \<and> file_pos f = 0 \<and> fd_inode f = sint (inode d) \<and> fop_read f = Read_f_wrapper)"
  using assms
  by (intro exI [of _ "\<lambda>b. set_fd i (\<lambda>f. f\<lparr>fd_inode := sint (inode d), flag := 1, file_pos := 0\<rparr>)
       (set_fd i (fops_of Read_f_wrapper Write_f_wrapper Open_f_wrapper Close_f_wrapper) (set_bitmap i 1 b))"])
     (simp add: sys_open_def Let_def set_pcb_def fops_of_def)

lemma view_ram_pcb: "view L (set_pcb p f (s\<lparr>ram := m\<rparr>)) = view L (s\<lparr>ram := m\<rparr>)"
  by simp

section \<open>Properties\<close>

text \<open>
  \<open>open\<close> on every branch. It fails with -1 and changes nothing when the name is null or
  not in the directory or all six descriptors are taken; otherwise it returns the lowest free
  descriptor from 2 to 7, now in use at position 0 with the file's inode and the operations of
  its type, and leaves every other descriptor and every other process alone.
\<close>

theorem open_allocates_descriptor:
  "let b = pcbs s (curr s); r = sys_open L filename s; found = (if filename = 0 then None else read_dentry_by_name (view L s) filename s)
   in case found of
        None \<Rightarrow> r = (-1, s)
      | Some d \<Rightarrow>
          (\<forall>i\<in>{2..<8}. bitmap b i \<noteq> 0) \<and> r = (-1, s)
        \<or> (\<exists>i\<in>{2..<8}. bitmap b i = 0 \<and> (\<forall>j\<in>{2..<i}. bitmap b j \<noteq> 0) \<and> fst r = int i
            \<and> (let b' = pcbs (snd r) (curr s); f = file_array b' i
               in bitmap b' i = 1 \<and> flag f = 1 \<and> file_pos f = 0 \<and> fd_inode f = sint (inode d)
                \<and> (ftype d = 0 \<longrightarrow> fop_read f = Rtc_read_wrapper \<and> fop_write f = Rtc_write_wrapper)
                \<and> (ftype d = 1 \<longrightarrow> fop_read f = Read_dir_wrapper \<and> fop_write f = Write_dir_wrapper)
                \<and> (ftype d = 2 \<longrightarrow> fop_read f = Read_f_wrapper \<and> fop_write f = Write_f_wrapper)
                \<and> (\<forall>j. j \<noteq> i \<longrightarrow> file_array b' j = file_array b j \<and> bitmap b' j = bitmap b j)
                \<and> (\<forall>p. p \<noteq> curr s \<longrightarrow> pcbs (snd r) p = pcbs s p)))"
proof (cases "if filename = 0 then None else read_dentry_by_name (view L s) filename s")
  case None
  then show ?thesis using sys_open_cases [of L filename s] by (simp add: Let_def)
next
  case (Some d)
  then have d: "filename \<noteq> 0" "read_dentry_by_name (view L s) filename s = Some d" by (auto split: if_splits)
  show ?thesis
  proof (cases "free_desc (bitmap (pcbs s (curr s))) = -1")
    case True
    then have "sys_open L filename s = (-1, s)" using sys_open_cases [of L filename s] d by simp
    moreover have "\<forall>i\<in>{2..<8}. bitmap (pcbs s (curr s)) i \<noteq> 0" using True desc.alloc_full by auto
    ultimately show ?thesis using Some by (simp add: Let_def)
  next
    case False
    then obtain i where i: "free_desc (bitmap (pcbs s (curr s))) = int i" "2 \<le> i" "i < 8"
        "bitmap (pcbs s (curr s)) i = 0" "\<forall>j. 2 \<le> j \<longrightarrow> j < i \<longrightarrow> bitmap (pcbs s (curr s)) j \<noteq> 0"
      using desc.alloc_lowest [OF False] by auto
    have "fst (sys_open L filename s) = int i" by (subst sys_open_cases) (simp add: d False i(1))
    moreover note sys_open_pcb [OF d i(1)]
    ultimately show ?thesis
      using Some i by (auto simp: Let_def fops_of_def intro!: bexI [of _ i])
  qed
qed

text \<open>
  C10: opening a regular file and reading it delivers the file. After a successful \<open>open\<close>, the
  first \<open>read\<close> stores the beginning of the file into the caller's buffer, as much as was asked
  for or the whole file, returns the number of bytes and advances the position by it.
\<close>

theorem open_then_read_delivers_file:
  assumes "user_mapped L p s" and "filename \<noteq> 0" and "read_dentry_by_name (view L s) filename s = Some d" and "ftype d = 2"
    and "i \<in> {2..<8}" and "bitmap (pcbs s (curr s)) i = 0" and "valid_inode s (inode d)"
    and "inode_length s (inode d) < 2147483648" and "in_window buf (unat n)"
  shows "\<exists>fd s1 s2. sys_open L filename s = (fd, s1) \<and> 2 \<le> fd \<and> fd < 8
    \<and> sys_read L dev hs fd buf n s1 = Some (int (length (take (unat n) (file_contents s (inode d)))), s2)
    \<and> bytes_at (view L s2) buf (length (take (unat n) (file_contents s (inode d)))) = take (unat n) (file_contents s (inode d))
    \<and> file_pos (file_array (pcbs s2 (curr s)) (nat fd)) = int (length (take (unat n) (file_contents s (inode d))))"
proof -
  let ?bs = "take (unat n) (file_contents s (inode d))"
  obtain j where j: "free_desc (bitmap (pcbs s (curr s))) = int j" "2 \<le> j" "j < 8"
    using desc.alloc_succeeds [of i "bitmap (pcbs s (curr s))"] desc.alloc_lowest [of "bitmap (pcbs s (curr s))"] assms(5,6) by auto
  obtain g where g: "sys_open L filename s = (int j, set_pcb (curr s) g s)"
      "flag (file_array (g (pcbs s (curr s))) j) = 1" "file_pos (file_array (g (pcbs s (curr s))) j) = 0"
      "fd_inode (file_array (g (pcbs s (curr s))) j) = sint (inode d)" "fop_read (file_array (g (pcbs s (curr s))) j) = Read_f_wrapper"
    using sys_open_regular [OF assms(2-4) j(1)] by (auto simp: Let_def)
  let ?s = "set_pcb (curr s) g s"
  have buf: "buf \<noteq> 0" using assms(9) by (auto simp: in_window_def)
  have data: "read_data (inode d) 0 buf n ?s = (int (length ?bs), ?bs)"
    using read_data_start [of ?s "inode d" buf n] assms(7,8) buf by simp
  have "in_window buf (length ?bs)" using assms(9) by (simp add: in_window_def min_def)
  then obtain m where m: "store_bytes L buf ?bs ?s = Some (?s\<lparr>ram := m\<rparr>)" "bytes_at (view L (?s\<lparr>ram := m\<rparr>)) buf (length ?bs) = ?bs"
    using store_bytes_read_back [of L p ?s buf ?bs] assms(1) by auto
  have "call_op L dev hs Read_f_wrapper (inode d) 0 buf n ?s = Some (int (length ?bs), ?s\<lparr>ram := m\<rparr>)"
    by (simp add: call_op_def read_f_wrapper_def data m(1))
  then have "sys_read L dev hs (int j) buf n ?s = Some (int (length ?bs),
      set_pcb (curr s) (set_fd j (\<lambda>f. f\<lparr>file_pos := file_pos f + int (length ?bs)\<rparr>)) (?s\<lparr>ram := m\<rparr>))"
    using j buf g(2-) by (simp add: sys_read_def Let_def)
  then show ?thesis using g j m(2) by auto
qed

text \<open>
  C16: descriptors stay consistent. A descriptor is marked in use in the file array exactly when
  it is marked in the bitmap: \<open>open\<close> keeps this, and so does \<open>close\<close> of every descriptor but 8;
  after a successful \<open>close\<close> of a descriptor below 8, reads and writes on it return -1.
\<close>

theorem descriptors_consistent:
  assumes "fds_ok (pcbs s (curr s))" and "fd \<noteq> 8"
  shows "fds_ok (pcbs (snd (sys_open L filename s)) (curr s)) \<and> fds_ok (pcbs (snd (sys_close fd s)) (curr s))
    \<and> (fst (sys_close fd s) = 0 \<longrightarrow> sys_read L dev hs fd buf n (snd (sys_close fd s)) = Some (-1, snd (sys_close fd s))
        \<and> sys_write L dev hs fd buf n (snd (sys_close fd s)) = Some (-1, snd (sys_close fd s)))"
proof (intro conjI impI)
  assume z: "fst (sys_close fd s) = 0"
  have fd: "2 \<le> fd" "fd < 8" "flag (file_array (pcbs s (curr s)) (nat fd)) \<noteq> 0"
    using z assms(2) by (auto simp: sys_close_def get_flag_def Let_def split: if_splits)
  then show "sys_read L dev hs fd buf n (snd (sys_close fd s)) = Some (-1, snd (sys_close fd s))"
    "sys_write L dev hs fd buf n (snd (sys_close fd s)) = Some (-1, snd (sys_close fd s))"
    by (simp_all add: sys_close_pcb sys_read_def sys_write_def Let_def)
qed (use fds_ok_open [OF assms(1)] fds_ok_close [OF assms] in simp_all)

text \<open>
  C34: \<open>close(8)\<close> is not rejected. While descriptor 6 is in use the call succeeds and frees
  the bitmap entry of descriptor 6 behind its owner's back: the file stays readable, but its
  number can be handed out again.
\<close>

theorem close_eight_frees_descriptor_six:
  assumes "fds_ok (pcbs s (curr s))" and "flag (file_array (pcbs s (curr s)) 6) \<noteq> 0"
  shows "fst (sys_close 8 s) = 0 \<and> bitmap (pcbs (snd (sys_close 8 s)) (curr s)) 6 = 0
    \<and> flag (file_array (pcbs (snd (sys_close 8 s)) (curr s)) 6) \<noteq> 0"
proof -
  have "bitmap (pcbs s (curr s)) 6 \<noteq> 0" using assms by (simp add: fds_ok_def)
  then show ?thesis
    using assms(2) by (simp add: sys_close_def get_flag_def clear_flag_def clear_bitmap_def Let_def)
qed

text \<open>The state the witnesses use: the demo file system and one process with nothing open.\<close>

definition idle_fd :: file_desc where
  "idle_fd = \<lparr>fop_open = Terminal_nothing, fop_close = Terminal_nothing, fop_read = Terminal_wrong, fop_write = Terminal_wrong,
     fd_inode = 0, file_pos = 0, flag = 0\<rparr>"

definition idle_pcb :: pcb where
  "idle_pcb = \<lparr>pcb_pid = 0, p_pid = 0, parent_esp = 0, parent_ebp = 0, current_esp = 0, current_ebp = 0, pcb_terminal = 0,
     file_array = \<lambda>_. idle_fd, bitmap = \<lambda>_. 0\<rparr>"

definition sys_demo :: sys_state where
  "sys_demo = (fs_state.extend fs_demo
     (sys_state.fields (\<lambda>t. if t = 0 then 0 else -1) (\<lambda>p. if p = 0 then 1 else 0) (\<lambda>_. 0) 0 0 (\<lambda>_. idle_pcb) 0x18 0))
     \<lparr>ram := (\<lambda>_. 0)(0x800100 := 102, 0x800101 := 49)\<rparr>"

lemma sys_demo_fields:
  "fs_mem sys_demo = demo_image" "num_dentry sys_demo = 1" "num_inodes sys_demo = 2" "dentry_start sys_demo = 0x500040"
  "inode_start sys_demo = 0x501000" "datablk_start sys_demo = 0x503000"
  "ram sys_demo = (\<lambda>_. 0)(0x800100 := 102, 0x800101 := 49)" "curr sys_demo = 0" "pcbs sys_demo = (\<lambda>_. idle_pcb)"
  "page_directory sys_demo = page_directory kbd_running" "page_table sys_demo = page_table kbd_running"
  "vidMem_table sys_demo = vidMem_table kbd_running"
  by (simp_all add: sys_demo_def fs_demo_def read_filesys_bootblock_def Let_def kbd_state.defs fs_state.defs sys_state.defs demo_image_words)

lemma sys_demo_mapped: "user_mapped boot_layout 0 sys_demo"
  using kbd_running_facts(1) by (simp add: user_mapped_def address_space_def sys_demo_fields)

lemma sys_demo_lookup:
  "\<exists>d. read_dentry_by_name (view boot_layout sys_demo) 0x8000100 sys_demo = Some d \<and> ftype d = 2 \<and> inode d = 1"
proof -
  have "bytes_at (view boot_layout sys_demo) 0x8000100 32 = bytes_at (ram sys_demo) (user_phys 0 0x8000100) 32"
    using bytes_at_view_user [OF sys_demo_mapped, of "0x8000100" 32] by (simp add: in_window_def)
  also have "\<dots> = [102, 49] @ replicate 30 0" unfolding sys_demo_fields by code_simp
  finally have n: "field_string (view boot_layout sys_demo) 0x8000100 32 = [102, 49]" by (simp add: field_string_def)
  have "field_string demo_image 0x500040 32 = [102, 49]" by code_simp
  then have "takeWhile (\<lambda>c. c \<noteq> 0) (fname (dentry_at sys_demo 0)) = [102, 49]"
    by (simp add: dentry_name_field dentry_addr_def sys_demo_fields)
  then have "read_dentry_by_name (view boot_layout sys_demo) 0x8000100 sys_demo \<noteq> None"
    using read_dentry_by_name_None [of "view boot_layout sys_demo" "0x8000100" sys_demo] n sys_demo_fields(2) by auto
  then obtain d where d: "read_dentry_by_name (view boot_layout sys_demo) 0x8000100 sys_demo = Some d" by auto
  then have "d = dentry_at sys_demo 0"
    using read_dentry_by_name_Some [OF d] sys_demo_fields(2) by auto
  moreover have "load32 demo_image 0x500060 = 2" "load32 demo_image 0x500064 = 1" by code_simp+
  ultimately show ?thesis using d by (simp add: dentry_at_def dentry_addr_def sys_demo_fields)
qed

lemma sys_demo_file: "valid_inode sys_demo 1" "inode_length sys_demo 1 = 3" "file_contents sys_demo 1 = file_contents fs_demo 1"
  using fs_demo_file by (simp_all add: valid_inode_def inode_length_def inode_addr_def file_contents_def file_byte_def [abs_def]
      data_block_def sys_demo_fields fs_demo_layout)

theorem open_allocates_descriptor_witness:
  "fst (sys_open boot_layout 0x8000100 sys_demo) = 2 \<and> bitmap (pcbs (snd (sys_open boot_layout 0x8000100 sys_demo)) 0) 2 = 1"
proof -
  obtain d where d: "read_dentry_by_name (view boot_layout sys_demo) 0x8000100 sys_demo = Some d"
    using sys_demo_lookup by blast
  have "bitmap (pcbs sys_demo (curr sys_demo)) = (\<lambda>_. 0)" by (simp add: sys_demo_fields idle_pcb_def)
  then obtain i where i: "i \<in> {2..<8}" "\<forall>j\<in>{2..<i}. False" "fst (sys_open boot_layout 0x8000100 sys_demo) = int i"
      "bitmap (pcbs (snd (sys_open boot_layout 0x8000100 sys_demo)) (curr sys_demo)) i = 1"
    using open_allocates_descriptor [of sys_demo boot_layout "0x8000100"] d by (auto simp: Let_def)
  have "i = 2" using i(1,2) by (metis atLeastLessThan_iff le_less le_refl)
  then show ?thesis using i(3,4) by (simp add: sys_demo_fields)
qed

theorem open_then_read_delivers_file_witness:
  "\<exists>fd s1 s2. sys_open boot_layout 0x8000100 sys_demo = (fd, s1) \<and> sys_read boot_layout (\<lambda>_ _. 0) [] fd 0x8100000 100 s1 = Some (3, s2)"
proof -
  obtain d where d: "read_dentry_by_name (view boot_layout sys_demo) 0x8000100 sys_demo = Some d" "ftype d = 2" "inode d = 1"
    using sys_demo_lookup by blast
  have "bitmap (pcbs sys_demo (curr sys_demo)) 2 = 0" by (simp add: sys_demo_fields idle_pcb_def)
  moreover have "length (take 100 (file_contents fs_demo 1)) = 3" using fs_demo_file by (simp add: file_contents_def)
  ultimately show ?thesis
    using open_then_read_delivers_file [OF sys_demo_mapped _ d(1,2), of 2 "0x8100000" 100 "\<lambda>_ _. 0" "[]"] sys_demo_file d(3)
    by (auto simp: in_window_def)
qed

theorem descriptors_consistent_witness: "fds_ok (pcbs (snd (sys_open boot_layout 0x8000100 sys_demo)) (curr sys_demo))"
proof -
  have "fds_ok (pcbs sys_demo (curr sys_demo))" by (simp add: fds_ok_def sys_demo_fields idle_pcb_def idle_fd_def)
  then show ?thesis using descriptors_consistent [of sys_demo 3 boot_layout "0x8000100"] by simp
qed

theorem close_eight_frees_descriptor_six_witness:
  "fst (sys_close 8 (set_pcb 0 (set_bitmap 6 1 \<circ> set_fd 6 (\<lambda>f. f\<lparr>flag := 1\<rparr>)) sys_demo)) = 0"
proof -
  let ?s = "set_pcb 0 (set_bitmap 6 1 \<circ> set_fd 6 (\<lambda>f. f\<lparr>flag := 1\<rparr>)) sys_demo"
  have "fds_ok (pcbs ?s (curr ?s))" "flag (file_array (pcbs ?s (curr ?s)) 6) \<noteq> 0"
    by (simp_all add: fds_ok_def sys_demo_fields idle_pcb_def idle_fd_def)
  then show ?thesis using close_eight_frees_descriptor_six [of ?s] by simp
qed

end
