(* ===== verification/Process.thy ===== *)
theory Process
  imports Files
begin

text \<open>
  Processes, the first half of \<open>student-distrib/syscall.c\<close>: \<open>pcb_init\<close>, \<open>get_pid\<close>, \<open>halt\<close>,
  \<open>execute\<close>, \<open>execute_with_terminal_num\<close> and \<open>verify_file\<close>, and the dispatcher \<open>syscall_asm\<close>
  of \<open>interrupt_service_wrapper.S\<close>. A call ends by returning, by entering a program in user mode
  or by resuming the parent's \<open>execute\<close>. An access outside an array is \<open>None\<close>.
\<close>

section \<open>Operations\<close>

datatype outcome =
    Returned int
  | Enter_user int u32
  | Resume_parent u32 u32 u32

definition stdin_fd :: "file_desc \<Rightarrow> file_desc" where
  "stdin_fd f = f\<lparr>fop_read := Terminal_read_wrap, fop_write := Terminal_wrong,
     fop_open := Terminal_nothing, fop_close := Terminal_nothing, flag := 1\<rparr>"

definition stdout_fd :: "file_desc \<Rightarrow> file_desc" where
  "stdout_fd f = f\<lparr>fop_read := Terminal_wrong, fop_write := Terminal_write_wrap,
     fop_open := Terminal_nothing, fop_close := Terminal_nothing, flag := 1\<rparr>"

definition pcb_init :: "int \<Rightarrow> nat \<Rightarrow> 'a sys_state_scheme \<Rightarrow> 'a sys_state_scheme" where
  "pcb_init pid terminal_num s =
     (let c = curr s;
          s = set_pcb pid (\<lambda>b. b\<lparr>pcb_pid := pid\<rparr>) s;
          s = set_pcb pid (set_bitmap 0 1 \<circ> set_fd 0 stdin_fd) s;
          s = set_pcb pid (set_bitmap 1 1 \<circ> set_fd 1 stdout_fd) s;
          s = set_pcb pid (\<lambda>b. b\<lparr>current_ebp := GET_ESP pid, current_esp := GET_ESP pid\<rparr>) s;
          s = fold (\<lambda>i. set_pcb pid (set_fd i (\<lambda>f. f\<lparr>flag := 0\<rparr>))) [2..<8] s;
          s = (if t_curr s terminal_num = -1
               then set_pcb pid (\<lambda>b. b\<lparr>p_pid := pid, parent_esp := GET_ESP pid\<rparr>) s
               else let p_pcb = pcbs s c in
                 set_pcb pid (\<lambda>b. b\<lparr>p_pid := pcb_pid p_pcb, parent_ebp := current_ebp p_pcb, parent_esp := current_ebp p_pcb\<rparr>) s);
          s = s\<lparr>curr := pid\<rparr>;
          s = s\<lparr>t_curr := (t_curr s)(terminal_num := pid)\<rparr>
      in set_pcb pid (\<lambda>b. b\<lparr>pcb_terminal := int terminal_num\<rparr>) s)"

definition get_pid :: "'a sys_state_scheme \<Rightarrow> int" where
  "get_pid s = (case find (\<lambda>i. proc_state s i = 0) [0..<6] of Some i \<Rightarrow> int i | None \<Rightarrow> -1)"

text \<open>\<open>inFile\<close> and \<open>argBuf\<close> have 129 bytes.\<close>

function parse_name :: "memory \<Rightarrow> u32 \<Rightarrow> nat \<Rightarrow> nat \<Rightarrow> (nat \<Rightarrow> u8) \<Rightarrow> (nat \<times> (nat \<Rightarrow> u8)) option" where
  "parse_name m cmd n i inFile =
     (if i < n then
        if m (cmd + of_nat i) = 32 then Some (i, inFile)
        else if i < 129 then parse_name m cmd n (Suc i) (inFile(i := m (cmd + of_nat i)))
        else None
      else Some (i, inFile))"
  by pat_completeness auto
termination
  by (relation "measure (\<lambda>(m, cmd, n, i, inFile). n - i)") auto

declare parse_name.simps [simp del]

partial_function (option) parse_args ::
  "memory \<Rightarrow> u32 \<Rightarrow> u32 \<Rightarrow> (nat \<Rightarrow> u8) \<Rightarrow> u32 \<Rightarrow> ((nat \<Rightarrow> u8) \<times> u32) option" where
  "parse_args m cmd i buf sz =
     (if m (cmd + i) = 0 then Some (buf, sz)
      else if m (cmd + i) = 32 then parse_args m cmd (i + 1) buf sz
      else if unat sz < 129 then parse_args m cmd (i + 1) (buf(unat sz := m (cmd + i))) (sz + 1)
      else None)"

text \<open>
  \<open>verify_file\<close>, with the part that looks at the file as \<open>check_file\<close>: the inner \<open>None\<close> is the
  return value -1, otherwise the file name and the entry point. \<open>stack\<close> is what the uninitialised \<open>fileBuf\<close> (bytes 0 to 3) and \<open>v_addr\<close> (4 to 7) hold.
\<close>

definition array_mem :: "(nat \<Rightarrow> u8) \<Rightarrow> memory" where
  "array_mem f = (\<lambda>a. f (unat a))"

definition magicBuf :: memory where
  "magicBuf = write_bytes (\<lambda>_. 0) 0 [0x7F, 0x45, 0x4C, 0x46]"

definition check_file :: "(nat \<Rightarrow> u8) \<Rightarrow> memory \<Rightarrow> 'a sys_state_scheme \<Rightarrow> ((nat \<Rightarrow> u8) \<times> u32) option" where
  "check_file inFile stack s =
     (case read_dentry_by_name (array_mem inFile) 0 s of None \<Rightarrow> None
      | Some d \<Rightarrow>
        let (r, bs) = read_f_by_name (array_mem inFile) 0 0 1 4 s;
            fileBuf = write_bytes stack 0 bs
        in if strncmp fileBuf 0 magicBuf 0 4 \<noteq> 0 then None
           else
             let (r, bs) = read_f_by_name (array_mem inFile) 0 24 1 4 s;
                 v = write_bytes stack 4 bs
             in Some (inFile, load32 v 4))"

definition verify_file ::
  "memory \<Rightarrow> u32 \<Rightarrow> memory \<Rightarrow> 'a sys_state_scheme \<Rightarrow> (((nat \<Rightarrow> u8) \<times> u32) option \<times> 'a sys_state_scheme) option" where
  "verify_file m cmd stack s =
     (if cmd = 0 then Some (None, s)
      else do {
        n \<leftarrow> strlen m cmd;
        (i, inFile) \<leftarrow> parse_name m cmd (unat n) 0 (\<lambda>_. 0);
        if i \<ge> 129 then None
        else do {
          let inFile = inFile(i := 0);
          let s = s\<lparr>argSize := argSize s - argSize s\<rparr>;
          let s = s\<lparr>argBuf := \<lambda>k. if k < 129 then 0 else argBuf s k\<rparr>;
          (ab, sz) \<leftarrow> parse_args m cmd (of_nat i) (argBuf s) (argSize s);
          let s = s\<lparr>argBuf := ab, argSize := sz\<rparr>;
          Some (check_file inFile stack s, s) } })"

text \<open>A string literal of the kernel, at a non-null address.\<close>

definition lit_mem :: "string \<Rightarrow> memory" where
  "lit_mem cs = (\<lambda>a. if 1 \<le> unat a \<and> unat a \<le> length cs then chars cs ! (unat a - 1) else 0)"

text \<open>
  \<open>regs\<close> are \<open>ebp\<close> and \<open>esp\<close> where the code saves them. The command is read in \<open>m\<close>, the
  caller's memory. What follows the checks is \<open>start_process\<close>: the new process block and its
  page, the image, and the entry point for the switch to user mode; what the switch does to the
  segment registers and the stack, \<open>enter_user\<close> in Boot, depends only on the entry point.
\<close>

definition new_process :: "u32 \<times> u32 \<Rightarrow> int \<Rightarrow> nat \<Rightarrow> 'a sys_state_scheme \<Rightarrow> 'a sys_state_scheme" where
  "new_process regs pid terminal_num s =
     (let s = s\<lparr>proc_state := (proc_state s)(nat pid := 1)\<rparr>;
          s = pcb_init pid terminal_num s;
          s = set_pcb pid (\<lambda>b. b\<lparr>parent_ebp := fst regs, parent_esp := snd regs\<rparr>) s;
          s = pid_page_map pid s
      in set_active_terminal terminal_num s)"

definition enter_process :: "int \<Rightarrow> 'a sys_state_scheme \<Rightarrow> 'a sys_state_scheme" where
  "enter_process pid s =
     (let s = s\<lparr>tss_ss0 := 0x18, tss_esp0 := GET_ESP pid\<rparr>;
          s = set_pcb pid (\<lambda>b. b\<lparr>current_ebp := tss_esp0 s, current_esp := tss_esp0 s\<rparr>) s
      in sti s)"

definition start_process ::
  "layout \<Rightarrow> u32 \<times> u32 \<Rightarrow> int \<Rightarrow> nat \<Rightarrow> (nat \<Rightarrow> u8) \<Rightarrow> u32 \<Rightarrow> 'a sys_state_scheme \<Rightarrow> (outcome \<times> 'a sys_state_scheme) option" where
  "start_process L regs pid terminal_num inFile v_addr s =
     (let s = new_process regs pid terminal_num s
      in do {
        d \<leftarrow> read_dentry_by_name (array_mem inFile) 0 s;
        s \<leftarrow> store_bytes L 0x8048000 (snd (read_f (inode d) 0x8048000 s)) s;
        Some (Enter_user pid v_addr, enter_process pid s) })"

definition execute_with_terminal_num ::
  "layout \<Rightarrow> memory \<Rightarrow> u32 \<times> u32 \<Rightarrow> memory \<Rightarrow> u32 \<Rightarrow> nat \<Rightarrow> 'a sys_state_scheme \<Rightarrow> (outcome \<times> 'a sys_state_scheme) option" where
  "execute_with_terminal_num L stack regs m command terminal_num s =
     (if command = 0 then Some (Returned (-1), s)
      else
        let s = cli s in
        do {
          (v, s) \<leftarrow> verify_file m command stack s;
          case v of None \<Rightarrow> Some (Returned (-1), s)
          | Some (inFile, v_addr) \<Rightarrow>
            (let pid = get_pid s in
             if pid = -1 then
               do { (_, s) \<leftarrow> terminal_write (lit_mem (''TOO MANY PROCESSES OPEN!'' @ [CHR 0x0A])) 1 26 s;
                    Some (Returned 0, s) }
             else start_process L regs pid terminal_num inFile v_addr s) })"

definition execute ::
  "layout \<Rightarrow> memory \<Rightarrow> u32 \<times> u32 \<Rightarrow> u32 \<Rightarrow> 'a sys_state_scheme \<Rightarrow> (outcome \<times> 'a sys_state_scheme) option" where
  "execute L stack regs command s =
     execute_with_terminal_num L stack regs (view L s) command (nat (pcb_terminal (pcbs s (curr s)))) s"

text \<open>The loop of \<open>halt\<close> that closes the descriptors of process \<open>c\<close>.\<close>

definition close_all :: "int \<Rightarrow> 'a sys_state_scheme \<Rightarrow> 'a sys_state_scheme" where
  "close_all c s =
     fold (\<lambda>i s. let s = (if flag (file_array (pcbs s c) i) \<noteq> 0 then snd (sys_close (int i) s) else s)
                 in set_pcb c (set_fd i (\<lambda>f. f\<lparr>flag := 0\<rparr>)) s) [0..<8] s"

definition halt ::
  "layout \<Rightarrow> memory \<Rightarrow> u32 \<times> u32 \<Rightarrow> u8 \<Rightarrow> 'a sys_state_scheme \<Rightarrow> (outcome \<times> 'a sys_state_scheme) option" where
  "halt L stack regs status s =
     (let s = cli s;
          c = curr s;
          par = p_pid (pcbs s c);
          s = s\<lparr>proc_state := (proc_state s)(nat (pcb_pid (pcbs s c)) := 0)\<rparr>;
          s = close_all c s;
          s = s\<lparr>curr := p_pid (pcbs s c)\<rparr>;
          s = s\<lparr>t_curr := (t_curr s)(nat (pcb_terminal (pcbs s c)) := p_pid (pcbs s c))\<rparr>
      in do {
        (r, s) \<leftarrow> (if pcb_pid (pcbs s c) = p_pid (pcbs s c)
                  then execute_with_terminal_num L stack regs (lit_mem ''shell'') 1 (nat (pcb_terminal (pcbs s c))) s
                  else Some (Returned 0, s));
        case r of
          Returned _ \<Rightarrow>
            (let s = pid_page_map (pcb_pid (pcbs s par)) s;
                 s = s\<lparr>tss_esp0 := parent_esp (pcbs s c)\<rparr>
             in Some (Resume_parent (parent_esp (pcbs s c)) (parent_ebp (pcbs s c)) (ucast status), sti s))
        | _ \<Rightarrow> Some (r, s) })"

text \<open>The dispatcher: the call number in \<open>eax\<close>, the arguments in \<open>ebx\<close>, \<open>ecx\<close> and \<open>edx\<close>.\<close>

definition returning :: "(int \<times> 's) option \<Rightarrow> (outcome \<times> 's) option" where
  "returning r = map_option (\<lambda>(v, s). (Returned v, s)) r"

definition syscall_asm ::
  "layout \<Rightarrow> device \<Rightarrow> ('a sys_state_scheme \<Rightarrow> 'a sys_state_scheme) list \<Rightarrow> memory \<Rightarrow> u32 \<times> u32
   \<Rightarrow> u32 \<Rightarrow> u32 \<Rightarrow> u32 \<Rightarrow> u32 \<Rightarrow> 'a sys_state_scheme \<Rightarrow> (outcome \<times> 'a sys_state_scheme) option" where
  "syscall_asm L dev hs stack regs eax ebx ecx edx s =
     (if eax \<ge> 9 \<or> eax \<le> 0 then Some (Returned (-1), s)
      else if eax = 1 then halt L stack regs (ucast ebx) s
      else if eax = 2 then execute L stack regs ebx s
      else if eax = 3 then returning (sys_read L dev hs (sint ebx) ecx edx s)
      else if eax = 4 then returning (sys_write L dev hs (sint ebx) ecx edx s)
      else if eax = 5 then returning (Some (sys_open L ebx s))
      else if eax = 6 then returning (Some (sys_close (sint ebx) s))
      else if eax = 7 then returning (getargs L ebx (sint ecx) s)
      else returning (vidmap L (load32 stack 8) ebx s))"

section \<open>Specification\<close>

text \<open>A process number in use.\<close>

definition live :: "'a sys_state_scheme \<Rightarrow> int \<Rightarrow> bool" where
  "live s p \<longleftrightarrow> 0 \<le> p \<and> p < 6 \<and> proc_state s (nat p) \<noteq> 0"

definition all_closed :: "pcb \<Rightarrow> bool" where
  "all_closed b \<longleftrightarrow> (\<forall>i. 2 \<le> i \<longrightarrow> i < 8 \<longrightarrow> flag (file_array b i) = 0 \<and> bitmap b i = 0)"

text \<open>Process \<open>p\<close> was started by process \<open>q\<close>.\<close>

definition child :: "'a sys_state_scheme \<Rightarrow> int \<Rightarrow> int \<Rightarrow> bool" where
  "child s p q \<longleftrightarrow> live s p \<and> p \<noteq> q \<and> p_pid (pcbs s p) = q"

text \<open>
  The process table: every live process has its own number, a terminal, a live parent on the same
  terminal and consistent descriptors; free process blocks have no open descriptors; the
  process a terminal runs, if any, is live and belongs to it; no process has two children, and
  the processes the terminals run have none.
\<close>

definition procs_ok :: "'a sys_state_scheme \<Rightarrow> bool" where
  "procs_ok s \<longleftrightarrow>
     (\<forall>p. live s p \<longrightarrow> pcb_pid (pcbs s p) = p \<and> 0 \<le> pcb_terminal (pcbs s p) \<and> pcb_terminal (pcbs s p) < 3
        \<and> live s (p_pid (pcbs s p)) \<and> pcb_terminal (pcbs s (p_pid (pcbs s p))) = pcb_terminal (pcbs s p) \<and> fds_ok (pcbs s p))
     \<and> (\<forall>p. 0 \<le> p \<and> p < 6 \<and> \<not> live s p \<longrightarrow> all_closed (pcbs s p))
     \<and> (\<forall>t<3. t_curr s t = -1 \<or> live s (t_curr s t) \<and> pcb_terminal (pcbs s (t_curr s t)) = int t)
     \<and> (\<forall>p p' q. child s p q \<longrightarrow> child s p' q \<longrightarrow> p = p') \<and> (\<forall>t<3. \<forall>p. \<not> child s p (t_curr s t))"

text \<open>The running process is the one its terminal runs.\<close>

definition running :: "'a sys_state_scheme \<Rightarrow> int \<Rightarrow> nat \<Rightarrow> bool" where
  "running s c t \<longleftrightarrow> curr s = c \<and> live s c \<and> t < 3 \<and> pcb_terminal (pcbs s c) = int t \<and> t_curr s t = c"

section \<open>Lemmas\<close>

interpretation pids: first_free 0 6 "\<lambda>s i. proc_state s i \<noteq> 0" get_pid
proof unfold_locales
  fix s :: "'a sys_state_scheme"
  have f: "get_pid s = (case find (\<lambda>i. \<not> proc_state s i \<noteq> 0) [0..<6] of Some i \<Rightarrow> int i | None \<Rightarrow> -1)"
    by (simp add: get_pid_def)
  show "get_pid s \<noteq> -1 \<Longrightarrow> \<exists>i. get_pid s = int i \<and> 0 \<le> i \<and> i < 6 \<and> \<not> proc_state s i \<noteq> 0 \<and> (\<forall>j. 0 \<le> j \<longrightarrow> j < i \<longrightarrow> proc_state s j \<noteq> 0)"
    by (rule find_first_free(1) [OF f])
  show "(get_pid s = -1) = (\<forall>i. 0 \<le> i \<longrightarrow> i < 6 \<longrightarrow> proc_state s i \<noteq> 0)"
    by (rule find_first_free(2) [OF f])
qed

lemma get_pid_free: "get_pid s \<noteq> -1 \<Longrightarrow> 0 \<le> get_pid s \<and> get_pid s < 6 \<and> \<not> live s (get_pid s)"
  using pids.alloc_range [of s] by (simp add: live_def)

lemma set_pcb_set_pcb [simp]: "set_pcb p f (set_pcb p g s) = set_pcb p (f \<circ> g) s"
  by (simp add: set_pcb_def)

lemma fold_set_pcb: "fold (\<lambda>i. set_pcb p (g i)) xs s = set_pcb p (fold g xs) s"
  by (induction xs arbitrary: s) (simp_all add: set_pcb_def)

lemma clear_flags:
  "bitmap (fold (\<lambda>i. set_fd i (\<lambda>f. f\<lparr>flag := 0\<rparr>)) xs b) = bitmap b"
  "file_array (fold (\<lambda>i. set_fd i (\<lambda>f. f\<lparr>flag := 0\<rparr>)) xs b) j
     = (if j \<in> set xs then (file_array b j)\<lparr>flag := 0\<rparr> else file_array b j)"
  "pcb_pid (fold (\<lambda>i. set_fd i (\<lambda>f. f\<lparr>flag := 0\<rparr>)) xs b) = pcb_pid b"
  "p_pid (fold (\<lambda>i. set_fd i (\<lambda>f. f\<lparr>flag := 0\<rparr>)) xs b) = p_pid b"
  "pcb_terminal (fold (\<lambda>i. set_fd i (\<lambda>f. f\<lparr>flag := 0\<rparr>)) xs b) = pcb_terminal b"
  by (induction xs arbitrary: b) auto

lemma pcb_init_fields:
  "curr (pcb_init pid t s) = pid" "t_curr (pcb_init pid t s) = (t_curr s)(t := pid)"
  "proc_state (pcb_init pid t s) = proc_state s" "p \<noteq> pid \<Longrightarrow> pcbs (pcb_init pid t s) p = pcbs s p"
  "pcb_pid (pcbs (pcb_init pid t s) pid) = pid" "pcb_terminal (pcbs (pcb_init pid t s) pid) = int t"
  "p_pid (pcbs (pcb_init pid t s) pid) = (if t_curr s t = -1 \<or> curr s = pid then pid else pcb_pid (pcbs s (curr s)))"
  by (simp_all add: pcb_init_def Let_def fold_set_pcb clear_flags set_pcb_def del: upt_rec_numeral)

lemma pcb_init_closed: "all_closed (pcbs s pid) \<Longrightarrow> all_closed (pcbs (pcb_init pid t s) pid)"
  by (simp add: all_closed_def pcb_init_def Let_def fold_set_pcb clear_flags set_pcb_def del: upt_rec_numeral)

lemma all_closed_fds_ok: "all_closed b \<Longrightarrow> fds_ok b"
  by (simp add: all_closed_def fds_ok_def)

text \<open>The invariant does not look at the saved stack pointers.\<close>

definition core :: "pcb \<Rightarrow> int \<times> int \<times> int \<times> (nat \<Rightarrow> file_desc) \<times> (nat \<Rightarrow> int)" where
  "core b = (pcb_pid b, p_pid b, pcb_terminal b, file_array b, bitmap b)"

lemma procs_ok_cong:
  assumes "t_curr s' = t_curr s" "proc_state s' = proc_state s" "\<And>p. core (pcbs s' p) = core (pcbs s p)"
  shows "procs_ok s' = procs_ok s"
proof -
  have c: "pcb_pid (pcbs s' p) = pcb_pid (pcbs s p)" "p_pid (pcbs s' p) = p_pid (pcbs s p)"
    "pcb_terminal (pcbs s' p) = pcb_terminal (pcbs s p)" "fds_ok (pcbs s' p) = fds_ok (pcbs s p)"
    "all_closed (pcbs s' p) = all_closed (pcbs s p)" for p
    using assms(3) [of p] by (auto simp: core_def fds_ok_def all_closed_def)
  show ?thesis unfolding procs_ok_def child_def live_def c using assms(1,2) by simp
qed

lemma procs_okD:
  assumes "procs_ok s"
  shows "live s p \<Longrightarrow> pcb_pid (pcbs s p) = p" "live s p \<Longrightarrow> 0 \<le> pcb_terminal (pcbs s p) \<and> pcb_terminal (pcbs s p) < 3"
    "live s p \<Longrightarrow> live s (p_pid (pcbs s p)) \<and> pcb_terminal (pcbs s (p_pid (pcbs s p))) = pcb_terminal (pcbs s p)"
    "live s p \<Longrightarrow> fds_ok (pcbs s p)" "0 \<le> p \<Longrightarrow> p < 6 \<Longrightarrow> \<not> live s p \<Longrightarrow> all_closed (pcbs s p)"
    "t < 3 \<Longrightarrow> t_curr s t \<noteq> -1 \<Longrightarrow> live s (t_curr s t) \<and> pcb_terminal (pcbs s (t_curr s t)) = int t"
    "child s p q \<Longrightarrow> child s p' q \<Longrightarrow> p = p'" "t < 3 \<Longrightarrow> \<not> child s p (t_curr s t)"
  using assms unfolding procs_ok_def by metis+

lemma procs_okI:
  assumes "\<And>p. live s p \<Longrightarrow> pcb_pid (pcbs s p) = p \<and> 0 \<le> pcb_terminal (pcbs s p) \<and> pcb_terminal (pcbs s p) < 3
      \<and> live s (p_pid (pcbs s p)) \<and> pcb_terminal (pcbs s (p_pid (pcbs s p))) = pcb_terminal (pcbs s p) \<and> fds_ok (pcbs s p)"
    and "\<And>p. 0 \<le> p \<Longrightarrow> p < 6 \<Longrightarrow> \<not> live s p \<Longrightarrow> all_closed (pcbs s p)"
    and "\<And>t. t < 3 \<Longrightarrow> t_curr s t \<noteq> -1 \<Longrightarrow> live s (t_curr s t) \<and> pcb_terminal (pcbs s (t_curr s t)) = int t"
    and "\<And>p p' q. child s p q \<Longrightarrow> child s p' q \<Longrightarrow> p = p'" and "\<And>t p. t < 3 \<Longrightarrow> \<not> child s p (t_curr s t)"
  shows "procs_ok s"
  using assms unfolding procs_ok_def by blast

lemma live_nonneg: "live s p \<Longrightarrow> p \<noteq> -1"
  by (auto simp: live_def)

text \<open>Adding a process: a free number, on a terminal that runs nothing or runs its parent.\<close>

lemma new_process_ok:
  assumes ok: "procs_ok s" and pid: "0 \<le> pid" "pid < 6" "\<not> live s pid" and t: "t < 3"
    and parent: "t_curr s t = -1 \<or> t_curr s t = curr s"
    and s': "s' = pcb_init pid t (s\<lparr>proc_state := (proc_state s)(nat pid := 1)\<rparr>)"
  shows "procs_ok s'"
proof -
  let ?q = "p_pid (pcbs s' pid)"
  have live: "live s' p \<longleftrightarrow> live s p \<or> p = pid" for p
    using pid by (auto simp: live_def s' pcb_init_fields)
  have other: "pcbs s' p = pcbs s p" if "p \<noteq> pid" for p
    using that by (simp add: s' pcb_init_fields)
  have new: "pcb_pid (pcbs s' pid) = pid" "pcb_terminal (pcbs s' pid) = int t" "t_curr s' = (t_curr s)(t := pid)"
    by (simp_all add: s' pcb_init_fields)
  have fds: "fds_ok (pcbs s' pid)"
    unfolding s' using procs_okD(5) [OF ok pid] by (intro all_closed_fds_ok pcb_init_closed) simp
  have q: "t_curr s t = -1 \<and> ?q = pid \<or> t_curr s t = ?q \<and> live s ?q \<and> ?q \<noteq> pid \<and> pcb_terminal (pcbs s ?q) = int t"
  proof (cases "t_curr s t = -1")
    case False
    with parent procs_okD(6) [OF ok t] have c: "live s (curr s)" "pcb_terminal (pcbs s (curr s)) = int t" "t_curr s t = curr s" by auto
    then have "curr s \<noteq> pid" using pid(3) by auto
    then have "?q = curr s" using False procs_okD(1) [OF ok c(1)] by (simp add: s' pcb_init_fields)
    then show ?thesis using c \<open>curr s \<noteq> pid\<close> by simp
  qed (simp add: s' pcb_init_fields)
  have child: "child s' p r \<longleftrightarrow> child s p r \<or> p = pid \<and> r = ?q \<and> ?q \<noteq> pid" for p r
    using pid(3) live [of p] other [of p] by (cases "p = pid") (auto simp: child_def)
  have np: "p_pid (pcbs s p) \<noteq> pid" if "live s p" for p
    using procs_okD(3) [OF ok that] pid(3) by auto
  show ?thesis
  proof (rule procs_okI)
    fix p assume "live s' p"
    then show "pcb_pid (pcbs s' p) = p \<and> 0 \<le> pcb_terminal (pcbs s' p) \<and> pcb_terminal (pcbs s' p) < 3
      \<and> live s' (p_pid (pcbs s' p)) \<and> pcb_terminal (pcbs s' (p_pid (pcbs s' p))) = pcb_terminal (pcbs s' p) \<and> fds_ok (pcbs s' p)"
      using new fds t q live other np [of p] procs_okD(1-4) [OF ok, of p] by (cases "p = pid") auto
  next
    fix p assume "0 \<le> p" "p < 6" "\<not> live s' p"
    then show "all_closed (pcbs s' p)" using procs_okD(5) [OF ok] live other by auto
  next
    fix u :: nat assume u: "u < 3" "t_curr s' u \<noteq> -1"
    show "live s' (t_curr s' u) \<and> pcb_terminal (pcbs s' (t_curr s' u)) = int u"
    proof (cases "u = t")
      case False
      then have "t_curr s' u = t_curr s u" by (simp add: new)
      then show ?thesis using procs_okD(6) [OF ok u(1)] u(2) live other pid(3) by metis
    qed (use new live in simp)
  next
    fix p p' r assume "child s' p r" "child s' p' r"
    moreover have False if "child s x ?q" "?q \<noteq> pid" for x
      using that q procs_okD(8) [OF ok t, of x] by metis
    ultimately show "p = p'" using child procs_okD(7) [OF ok] by metis
  next
    fix u :: nat and p assume u: "u < 3"
    show "\<not> child s' p (t_curr s' u)"
    proof (cases "u = t")
      case True
      then show ?thesis using child np by (auto simp: new child_def)
    next
      case False
      have "\<not> (?q = t_curr s u \<and> ?q \<noteq> pid)"
        using q False procs_okD(6) [OF ok u] live_nonneg [of s ?q] by auto
      then show ?thesis using False child procs_okD(8) [OF ok u] by (auto simp: new)
    qed
  qed
qed

lemma paging_sys_frame [simp]:
  "t_curr (pid_page_map p s) = t_curr s" "proc_state (pid_page_map p s) = proc_state s" "pcbs (pid_page_map p s) = pcbs s"
  "curr (pid_page_map p s) = curr s" "ram (pid_page_map p s) = ram s"
  by (simp_all add: pid_page_map_def set_pde_def flush_tlb_def load_cr3_def)

lemma terminal_sys_frame [simp]:
  "t_curr (set_active_terminal t s) = t_curr s" "proc_state (set_active_terminal t s) = proc_state s"
  "pcbs (set_active_terminal t s) = pcbs s" "curr (set_active_terminal t s) = curr s"
  by (simp_all add: set_active_terminal_def set_active_terminal_paging_def set_pte_def flush_tlb_def load_cr3_def Let_def)

lemma flag_sys_frame [simp]:
  "t_curr (cli s) = t_curr s" "proc_state (cli s) = proc_state s" "pcbs (cli s) = pcbs s" "curr (cli s) = curr s"
  "t_curr (sti s) = t_curr s" "proc_state (sti s) = proc_state s" "pcbs (sti s) = pcbs s" "curr (sti s) = curr s"
  by (simp_all add: cli_def sti_def)

text \<open>Reading the command changes only the argument buffer.\<close>

lemma verify_file_frame:
  assumes "verify_file m cmd stack s = Some (v, s')"
  shows "\<exists>ab sz. s' = s\<lparr>argBuf := ab, argSize := sz\<rparr>"
proof (cases "cmd = 0")
  case True
  with assms have "s' = s" by (simp add: verify_file_def)
  then show ?thesis by (intro exI [of _ "argBuf s"] exI [of _ "argSize s"]) simp
next
  case False
  with assms show ?thesis
    by (auto simp: verify_file_def bind_eq_Some_conv Let_def split: if_splits)
qed

lemma sys_of_screen_more:
  assumes "screen_state.more s' = screen_state.more s"
  shows "t_curr s' = t_curr s \<and> proc_state s' = proc_state s \<and> pcbs s' = pcbs s \<and> curr s' = curr s"
  using assms by (cases s, cases s') simp

lemma puts_scroll_more: "puts_scroll src a len s = Some (n, s') \<Longrightarrow> screen_state.more s' = screen_state.more s"
proof -
  assume "puts_scroll src a len s = Some (n, s')"
  then obtain lim where "s' = fold (\<lambda>i. putc_scroll (src (a + of_nat i))) [0..<nat lim] s"
    by (auto simp: puts_scroll_def bind_eq_Some_conv split: if_splits)
  then have "s' = fold putc_scroll (map (\<lambda>i. src (a + of_nat i)) [0..<nat lim]) s" by (simp add: fold_map comp_def)
  then show ?thesis by simp
qed

lemma puts_scroll_active: "puts_scroll src a len s = Some (n, s') \<Longrightarrow> active_terminal s' = active_terminal s"
proof -
  assume "puts_scroll src a len s = Some (n, s')"
  then obtain lim where "s' = fold (\<lambda>i. putc_scroll (src (a + of_nat i))) [0..<nat lim] s"
    by (auto simp: puts_scroll_def bind_eq_Some_conv split: if_splits)
  then have "s' = fold putc_scroll (map (\<lambda>i. src (a + of_nat i)) [0..<nat lim]) s" by (simp add: fold_map comp_def)
  then show ?thesis by simp
qed

lemma terminal_write_frame:
  assumes "terminal_write src buf count s = Some (r, s')"
  shows "t_curr s' = t_curr s \<and> proc_state s' = proc_state s \<and> pcbs s' = pcbs s \<and> curr s' = curr s"
proof -
  obtain pb s1 src' lim k where p: "puts_scroll src' 0 lim ((cli s)\<lparr>print_buffer := pb\<rparr>) = Some (k, s1)" and s': "s' = sti s1"
    using assms by (auto simp: terminal_write_def Let_def bind_eq_Some_conv split: if_splits)
  show ?thesis
    using sys_of_screen_more [OF puts_scroll_more [OF p]] by (simp add: s')
qed

lemma execute_shape:
  assumes "execute_with_terminal_num L stack regs m command t s = Some (r, s')"
  obtains (null) "r = Returned (-1)" "s' = s"
  | (fail) ab sz where "r = Returned (-1)" "s' = (cli s)\<lparr>argBuf := ab, argSize := sz\<rparr>"
  | (full) ab sz k where "r = Returned 0" "get_pid s = -1"
      "terminal_write (lit_mem (''TOO MANY PROCESSES OPEN!'' @ [CHR 0x0A])) 1 26 ((cli s)\<lparr>argBuf := ab, argSize := sz\<rparr>) = Some (k, s')"
  | (enter) ab sz eip mm where "r = Enter_user (get_pid s) eip" "get_pid s \<noteq> -1"
      "s' = enter_process (get_pid s) ((new_process regs (get_pid s) t ((cli s)\<lparr>argBuf := ab, argSize := sz\<rparr>))\<lparr>ram := mm\<rparr>)"
proof (cases "command = 0")
  case True
  with assms show ?thesis by (intro null) (simp_all add: execute_with_terminal_num_def)
next
  case False
  with assms obtain v s1 where v: "verify_file m command stack (cli s) = Some (v, s1)"
    by (auto simp: execute_with_terminal_num_def bind_eq_Some_conv Let_def)
  then obtain ab sz where s1: "s1 = (cli s)\<lparr>argBuf := ab, argSize := sz\<rparr>" using verify_file_frame by blast
  have pid: "get_pid s1 = get_pid s" by (simp add: s1 get_pid_def)
  show ?thesis
  proof (cases v)
    case None
    with False assms v show ?thesis by (intro fail [of sz ab]) (simp_all add: execute_with_terminal_num_def Let_def s1)
  next
    case (Some nv)
    then obtain inFile v_addr where nv: "v = Some (inFile, v_addr)" by (cases nv) simp
    show ?thesis
    proof (cases "get_pid s = -1")
      case True
      then obtain k where "r = Returned 0" "terminal_write (lit_mem (''TOO MANY PROCESSES OPEN!'' @ [CHR 0x0A])) 1 26 s1 = Some (k, s')"
        using False assms v pid by (auto simp: execute_with_terminal_num_def Let_def nv bind_eq_Some_conv)
      with True show ?thesis by (intro full) (simp_all add: s1)
    next
      case pidok: False
      have "start_process L regs (get_pid s) t inFile v_addr s1 = Some (r, s')"
        using False assms v pid pidok by (simp add: execute_with_terminal_num_def Let_def nv)
      then obtain s2 where "r = Enter_user (get_pid s) v_addr" "s' = enter_process (get_pid s) s2"
          "\<exists>mm. s2 = (new_process regs (get_pid s) t s1)\<lparr>ram := mm\<rparr>"
        using store_bytes_more by (fastforce simp: start_process_def Let_def bind_eq_Some_conv)
      with pidok show ?thesis using enter s1 by blast
    qed
  qed
qed

lemma screen_more_video: "screen_state.more s' = screen_state.more s \<Longrightarrow> vidMem_table s' = vidMem_table s"
  by (cases s, cases s') simp

lemma terminal_write_video:
  assumes "terminal_write src buf count s = Some (r, s')"
  shows "vidMem_table s' = vidMem_table s \<and> active_terminal s' = active_terminal s"
proof -
  obtain pb s1 src' lim k where p: "puts_scroll src' 0 lim ((cli s)\<lparr>print_buffer := pb\<rparr>) = Some (k, s1)" and s': "s' = sti s1"
    using assms by (auto simp: terminal_write_def Let_def bind_eq_Some_conv split: if_splits)
  show ?thesis
    using screen_more_video [OF puts_scroll_more [OF p]] puts_scroll_active [OF p] by (simp add: s' sti_def cli_def)
qed

text \<open>The terminal written to after a program has been started is the one it runs on.\<close>

lemma execute_terminal:
  assumes "execute_with_terminal_num L stack regs m command t s = Some (r, s')"
  shows "vidMem_table s' = vidMem_table s \<and> active_terminal s' = (case r of Enter_user _ _ \<Rightarrow> t | _ \<Rightarrow> active_terminal s)"
  using assms
proof (cases rule: execute_shape)
  case (full ab sz k)
  then show ?thesis using terminal_write_video [OF full(3)] by (simp add: cli_def)
next
  case (enter ab sz eip mm)
  have "vidMem_table (set_active_terminal t u) = vidMem_table u" for u :: "'a sys_state_scheme"
    by (simp add: set_active_terminal_def set_active_terminal_paging_def set_pte_def flush_tlb_def load_cr3_def Let_def)
  then have "vidMem_table (new_process regs p t u) = vidMem_table u" "active_terminal (new_process regs p t u) = t" for p and u :: "'a sys_state_scheme"
    by (simp_all add: new_process_def pcb_init_def set_pcb_def Let_def fold_set_pcb pid_page_map_def set_pde_def flush_tlb_def load_cr3_def
        del: upt_rec_numeral)
  then show ?thesis by (simp add: enter enter_process_def set_pcb_def sti_def cli_def Let_def)
qed (simp_all add: cli_def)

text \<open>Descriptor 0 of a new process is the keyboard of its terminal.\<close>

lemma execute_stdin:
  assumes "execute_with_terminal_num L stack regs m command t s = Some (Enter_user p eip, s')"
  shows "fop_read (file_array (pcbs s' p) 0) = Terminal_read_wrap \<and> flag (file_array (pcbs s' p) 0) = 1"
  using assms
proof (cases rule: execute_shape)
  case (enter ab sz eip mm)
  have c: "flag (file_array (fold (\<lambda>i. set_fd i (\<lambda>f. f\<lparr>flag := 0\<rparr>)) [2..<8] b) 0) = flag (file_array b 0)
      \<and> fop_read (file_array (fold (\<lambda>i. set_fd i (\<lambda>f. f\<lparr>flag := 0\<rparr>)) [2..<8] b) 0) = fop_read (file_array b 0)" for b
    by (simp add: set_fd_def upt_rec)
  show ?thesis
    using enter(1) by (simp add: enter(3) enter_process_def new_process_def pcb_init_def fold_set_pcb c Let_def del: upt_rec_numeral)
      (simp add: set_fd_def set_bitmap_def stdin_fd_def stdout_fd_def)
qed simp_all

lemma execute_cases:
  assumes "execute_with_terminal_num L stack regs m command t s = Some (r, s')"
  obtains (fail) "r = Returned (-1)" "t_curr s' = t_curr s" "proc_state s' = proc_state s" "pcbs s' = pcbs s" "curr s' = curr s"
  | (full) "r = Returned 0" "get_pid s = -1" "t_curr s' = t_curr s" "proc_state s' = proc_state s" "pcbs s' = pcbs s" "curr s' = curr s"
  | (enter) ab sz eip where "r = Enter_user (get_pid s) eip" "get_pid s \<noteq> -1"
      "let s1 = pcb_init (get_pid s) t ((cli s)\<lparr>argBuf := ab, argSize := sz, proc_state := (proc_state s)(nat (get_pid s) := 1)\<rparr>)
       in t_curr s' = t_curr s1 \<and> proc_state s' = proc_state s1 \<and> curr s' = curr s1 \<and> (\<forall>p. core (pcbs s' p) = core (pcbs s1 p))
         \<and> (\<forall>p. p \<noteq> get_pid s \<longrightarrow> pcbs s' p = pcbs s p)"
  using assms
proof (cases rule: execute_shape)
  case null
  then show ?thesis by (intro fail) simp_all
next
  case (fail ab sz)
  then show ?thesis using that(1) by simp
next
  case (full ab sz k)
  then show ?thesis using that(2) terminal_write_frame [OF full(3)] by simp
next
  case (enter ab sz eip mm)
  then show ?thesis
    by (intro that(3) [where ab = ab and sz = sz and eip = eip])
      (auto simp: Let_def core_def pcb_init_fields new_process_def enter_process_def)
qed

text \<open>What closing does to the block of the process.\<close>

definition shut :: "nat \<Rightarrow> pcb \<Rightarrow> pcb" where
  "shut i b = set_fd i (\<lambda>f. f\<lparr>flag := 0\<rparr>) (if flag (file_array b i) \<noteq> 0 \<and> 2 \<le> i then set_bitmap i 0 (set_fd i (\<lambda>f. f\<lparr>flag := 0\<rparr>) b) else b)"

lemma close_all_shut: "curr s = c \<Longrightarrow> close_all c s = set_pcb c (fold shut [0..<8]) s"
proof -
  have step: "set_pcb c (set_fd i (\<lambda>f. f\<lparr>flag := 0\<rparr>)) (if flag (file_array (pcbs s c) i) \<noteq> 0 then snd (sys_close (int i) s) else s)
      = set_pcb c (shut i) s" if "i < 8" "curr s = c" for i and s :: "'a sys_state_scheme"
  proof (cases "flag (file_array (pcbs s c) i) \<noteq> 0 \<and> 2 \<le> i")
    case True
    with that show ?thesis using sys_close_pcb [of "int i" s] by (simp add: shut_def) (simp add: set_pcb_def shut_def)
  next
    case False
    with that have "(if flag (file_array (pcbs s c) i) \<noteq> 0 then snd (sys_close (int i) s) else s) = s"
      by (auto simp: sys_close_def)
    with False show ?thesis by (auto simp: set_pcb_def shut_def)
  qed
  have "fold (\<lambda>i s. let s = (if flag (file_array (pcbs s c) i) \<noteq> 0 then snd (sys_close (int i) s) else s)
                 in set_pcb c (set_fd i (\<lambda>f. f\<lparr>flag := 0\<rparr>)) s) xs s = set_pcb c (fold shut xs) s"
    if "set xs \<subseteq> {..<8}" "curr s = c" for xs and s :: "'a sys_state_scheme"
    using that
  proof (induction xs arbitrary: s)
    case Nil
    then show ?case by (simp add: set_pcb_def)
  next
    case (Cons x xs)
    then show ?case using step [of x s] by (simp add: Let_def) (simp add: set_pcb_def)
  qed
  moreover have "set [0..<8] \<subseteq> {..<8::nat}" by auto
  ultimately show "curr s = c \<Longrightarrow> ?thesis" unfolding close_all_def by blast
qed

lemma fold_shut:
  "pcb_pid (fold shut xs b) = pcb_pid b \<and> p_pid (fold shut xs b) = p_pid b \<and> pcb_terminal (fold shut xs b) = pcb_terminal b
   \<and> parent_esp (fold shut xs b) = parent_esp b \<and> parent_ebp (fold shut xs b) = parent_ebp b
   \<and> (fds_ok b \<longrightarrow> fds_ok (fold shut xs b)) \<and> (\<forall>i\<in>set xs. flag (file_array (fold shut xs b) i) = 0)"
proof (induction xs rule: rev_induct)
  case (snoc x xs)
  then show ?case by (auto simp: shut_def fds_ok_def set_fd_def set_bitmap_def)
qed simp

lemma closed_block: "fds_ok b \<Longrightarrow> all_closed (fold shut [0..<8] b)"
proof -
  assume "fds_ok b"
  then have f: "fds_ok (fold shut [0..<8] b)" and z: "\<forall>i\<in>set [0..<8]. flag (file_array (fold shut [0..<8] b) i) = 0"
    using fold_shut [where xs = "[0..<8]" and b = b] by blast+
  show ?thesis
    unfolding all_closed_def
  proof (intro allI impI)
    fix i :: nat assume i: "2 \<le> i" "i < 8"
    then have "flag (file_array (fold shut [0..<8] b) i) = 0" using z by auto
    then show "flag (file_array (fold shut [0..<8] b) i) = 0 \<and> bitmap (fold shut [0..<8] b) i = 0"
      using f i unfolding fds_ok_def by blast
  qed
qed

text \<open>Removing a running process that is not the root of its terminal.\<close>

definition remove_process :: "int \<Rightarrow> 'a sys_state_scheme \<Rightarrow> 'a sys_state_scheme" where
  "remove_process c s =
     (let s = s\<lparr>proc_state := (proc_state s)(nat (pcb_pid (pcbs s c)) := 0)\<rparr>;
          s = close_all c s;
          s = s\<lparr>curr := p_pid (pcbs s c)\<rparr>
      in s\<lparr>t_curr := (t_curr s)(nat (pcb_terminal (pcbs s c)) := p_pid (pcbs s c))\<rparr>)"

lemma remove_process_fields:
  assumes "procs_ok s" "running s c t"
  shows "proc_state (remove_process c s) = (proc_state s)(nat c := 0)" "curr (remove_process c s) = p_pid (pcbs s c)"
    "t_curr (remove_process c s) = (t_curr s)(t := p_pid (pcbs s c))"
    "pcbs (remove_process c s) = (pcbs s)(c := fold shut [0..<8] (pcbs s c))"
proof -
  have c: "pcb_pid (pcbs s c) = c" "pcb_terminal (pcbs s c) = int t" "curr s = c"
    using assms procs_okD(1) [OF assms(1), of c] by (simp_all add: running_def)
  then show "proc_state (remove_process c s) = (proc_state s)(nat c := 0)" "curr (remove_process c s) = p_pid (pcbs s c)"
    "t_curr (remove_process c s) = (t_curr s)(t := p_pid (pcbs s c))"
    "pcbs (remove_process c s) = (pcbs s)(c := fold shut [0..<8] (pcbs s c))"
    by (simp_all add: remove_process_def Let_def close_all_shut fold_shut del: upt_rec_numeral)
qed

lemma remove_process_ok:
  assumes ok: "procs_ok s" and run: "running s c t" and par: "p_pid (pcbs s c) \<noteq> c"
  shows "procs_ok (remove_process c s)"
proof -
  let ?s = "remove_process c s"
  let ?q = "p_pid (pcbs s c)"
  note f = remove_process_fields [OF ok run]
  have c: "live s c" "t < 3" "pcb_terminal (pcbs s c) = int t" "t_curr s t = c" using run by (simp_all add: running_def)
  have live: "live ?s p \<longleftrightarrow> live s p \<and> p \<noteq> c" for p
    using c(1) by (auto simp: live_def f)
  have other: "pcbs ?s p = pcbs s p" if "p \<noteq> c" for p using that by (simp add: f)
  have np: "p_pid (pcbs s p) \<noteq> c" if "live s p" "p \<noteq> c" for p
    using procs_okD(8) [OF ok c(2), of p] that c(4) by (auto simp: child_def)
  have q: "live s ?q" "pcb_terminal (pcbs s ?q) = int t" using procs_okD(3) [OF ok c(1)] c(3) by auto
  have child: "child ?s p r \<longleftrightarrow> child s p r \<and> p \<noteq> c" for p r
    using live [of p] other [of p] by (auto simp: child_def)
  show ?thesis
  proof (rule procs_okI)
    fix p assume "live ?s p"
    then show "pcb_pid (pcbs ?s p) = p \<and> 0 \<le> pcb_terminal (pcbs ?s p) \<and> pcb_terminal (pcbs ?s p) < 3
      \<and> live ?s (p_pid (pcbs ?s p)) \<and> pcb_terminal (pcbs ?s (p_pid (pcbs ?s p))) = pcb_terminal (pcbs ?s p) \<and> fds_ok (pcbs ?s p)"
      using live other np [of p] procs_okD(1-4) [OF ok, of p] by auto
  next
    fix p assume "0 \<le> p" "p < 6" "\<not> live ?s p"
    then show "all_closed (pcbs ?s p)"
      using procs_okD(5) [OF ok, of p] live [of p] closed_block [OF procs_okD(4) [OF ok c(1)]] by (cases "p = c") (simp_all add: f)
  next
    fix u :: nat assume u: "u < 3" "t_curr ?s u \<noteq> -1"
    show "live ?s (t_curr ?s u) \<and> pcb_terminal (pcbs ?s (t_curr ?s u)) = int u"
    proof (cases "u = t")
      case True
      then show ?thesis using q par live other by (simp add: f(3))
    next
      case False
      then have e: "t_curr ?s u = t_curr s u" by (simp add: f(3))
      have "t_curr s u \<noteq> c" using procs_okD(6) [OF ok u(1)] u(2) e c(3) False by auto
      then show ?thesis using procs_okD(6) [OF ok u(1)] u(2) e live other by auto
    qed
  next
    fix p p' r assume "child ?s p r" "child ?s p' r"
    then show "p = p'" using child procs_okD(7) [OF ok] by blast
  next
    fix u :: nat and p assume u: "u < 3"
    have "child s c ?q" using c(1) par by (simp add: child_def)
    then show "\<not> child ?s p (t_curr ?s u)"
      using child procs_okD(7,8) [OF ok] u by (cases "u = t") (auto simp: f(3))
  qed
qed

lemma halt_resumes:
  assumes "procs_ok s" and "running s c t" and "p_pid (pcbs s c) \<noteq> c"
  shows "\<exists>s'. halt L stack regs status s = Some (Resume_parent (parent_esp (pcbs s c)) (parent_ebp (pcbs s c)) (ucast status), s')
    \<and> procs_ok s' \<and> running s' (p_pid (pcbs s c)) t \<and> \<not> live s' c \<and> all_closed (pcbs s' c)
    \<and> (\<forall>p. p \<noteq> c \<longrightarrow> pcbs s' p = pcbs s p) \<and> tss_esp0 s' = parent_esp (pcbs s c) \<and> iflag s'
    \<and> page_directory s' = page_directory (pid_page_map (p_pid (pcbs s c)) s)
    \<and> page_table s' = page_table s \<and> vidMem_table s' = vidMem_table s \<and> t_curr s' = (t_curr s)(t := p_pid (pcbs s c))
    \<and> terminal_2_running s' = terminal_2_running s \<and> terminal_3_running s' = terminal_3_running s \<and> active_terminal s' = active_terminal s"
proof -
  let ?q = "p_pid (pcbs s c)"
  define s1 where "s1 = remove_process c (cli s)"
  have ok: "procs_ok (cli s)" and run: "running (cli s) c t"
    using assms(1,2) procs_ok_cong [of "cli s" s] by (simp_all add: running_def live_def)
  note f = remove_process_fields [OF ok run, folded s1_def]
  have c: "live s c" "curr s = c" "pcb_pid (pcbs s c) = c" "t < 3" "pcb_terminal (pcbs s c) = int t"
    using assms(2) procs_okD(1) [OF assms(1), of c] by (simp_all add: running_def)
  have q: "live s ?q" "pcb_terminal (pcbs s ?q) = int t" "pcb_pid (pcbs s ?q) = ?q"
    using procs_okD(1,3) [OF assms(1)] c by auto
  have ok1: "procs_ok s1" unfolding s1_def using assms(3) by (intro remove_process_ok [OF ok run]) simp
  have blk: "pcb_pid (pcbs s1 c) = c" "p_pid (pcbs s1 c) = ?q" "parent_esp (pcbs s1 c) = parent_esp (pcbs s c)"
      "parent_ebp (pcbs s1 c) = parent_ebp (pcbs s c)" "pcb_pid (pcbs s1 ?q) = ?q"
    using c(3) q(3) assms(3) fold_shut [of "[0..<8]" "pcbs s c"] by (simp_all add: f del: upt_rec_numeral)
  let ?s' = "sti ((pid_page_map ?q s1)\<lparr>tss_esp0 := parent_esp (pcbs s c)\<rparr>)"
  have halt: "halt L stack regs status s = Some (Resume_parent (parent_esp (pcbs s c)) (parent_ebp (pcbs s c)) (ucast status), ?s')"
    using c(2) blk assms(3) unfolding halt_def Let_def
    by (simp add: s1_def remove_process_def Let_def)
  have "procs_ok ?s'" using ok1 procs_ok_cong [of ?s' s1] by simp
  moreover have "nat ?q \<noteq> nat c" using q(1) c(1) assms(3) by (auto simp: live_def)
  then have "running ?s' ?q t"
    using q c(4) assms(3) by (auto simp: running_def live_def f)
  moreover have "\<not> live ?s' c" by (auto simp: live_def f)
  moreover have "all_closed (pcbs ?s' c)" using closed_block [OF procs_okD(4) [OF assms(1) c(1)]] by (simp add: f)
  moreover have "page_directory s1 = page_directory s \<and> page_table s1 = page_table s \<and> vidMem_table s1 = vidMem_table s
      \<and> terminal_2_running s1 = terminal_2_running s \<and> terminal_3_running s1 = terminal_3_running s \<and> active_terminal s1 = active_terminal s"
    by (simp add: s1_def remove_process_def Let_def close_all_shut c(2) cli_def set_pcb_def)
  then have "page_directory ?s' = page_directory (pid_page_map ?q s) \<and> page_table ?s' = page_table s \<and> vidMem_table ?s' = vidMem_table s
      \<and> terminal_2_running ?s' = terminal_2_running s \<and> terminal_3_running ?s' = terminal_3_running s \<and> active_terminal ?s' = active_terminal s"
    by (simp add: pid_page_map_def set_pde_def flush_tlb_def load_cr3_def sti_def)
  ultimately show ?thesis using halt by (intro exI [of _ ?s']) (simp add: f sti_def)
qed

section \<open>Properties\<close>

text \<open>
  C5: halting a program that was started by another one resumes the parent with the status.
  The process number is free afterwards, all descriptors are closed, the parent is again the
  running process of the terminal, its page is mapped, and the process table is in order.
\<close>

theorem halt_resumes_parent:
  assumes "procs_ok s" and "running s c t" and "p_pid (pcbs s c) \<noteq> c"
  shows "\<exists>s'. halt L stack regs status s = Some (Resume_parent (parent_esp (pcbs s c)) (parent_ebp (pcbs s c)) (ucast status), s')
    \<and> procs_ok s' \<and> running s' (p_pid (pcbs s c)) t \<and> \<not> live s' c \<and> all_closed (pcbs s' c)
    \<and> (\<forall>p. p \<noteq> c \<longrightarrow> pcbs s' p = pcbs s p) \<and> tss_esp0 s' = parent_esp (pcbs s c) \<and> iflag s'
    \<and> page_directory s' = page_directory (pid_page_map (p_pid (pcbs s c)) s)"
  using halt_resumes [OF assms, of L stack regs status] by blast

definition two_procs :: sys_state where
  "two_procs = sys_demo\<lparr>curr := 1, t_curr := (\<lambda>_. -1)(0 := 1), proc_state := (\<lambda>_. 0)(0 := 1, 1 := 1),
     pcbs := (\<lambda>_. idle_pcb)(1 := idle_pcb\<lparr>pcb_pid := 1, p_pid := 0, parent_esp := 0x7FFF00, parent_ebp := 0x7FFF40\<rparr>)\<rparr>"

lemma two_procs_fields:
  "curr two_procs = 1" "t_curr two_procs = (\<lambda>_. -1)(0 := 1)" "proc_state two_procs = (\<lambda>_. 0)(0 := 1, 1 := 1)"
  "pcbs two_procs p = (if p = 1 then idle_pcb\<lparr>pcb_pid := 1, p_pid := 0, parent_esp := 0x7FFF00, parent_ebp := 0x7FFF40\<rparr> else idle_pcb)"
  by (simp_all add: two_procs_def)

lemma two_procs_ok: "procs_ok two_procs" "running two_procs 1 0"
proof -
  have live: "live two_procs p \<longleftrightarrow> p = 0 \<or> p = 1" for p
    by (auto simp: live_def two_procs_fields)
  have p: "pcb_pid idle_pcb = 0" "p_pid idle_pcb = 0" "pcb_terminal idle_pcb = 0" and idle: "all_closed idle_pcb"
    by (simp_all add: all_closed_def idle_pcb_def idle_fd_def)
  from idle have closed: "all_closed (pcbs two_procs p)" for p
    by (simp add: two_procs_fields all_closed_def)
  have child: "child two_procs p q \<longleftrightarrow> p = 1 \<and> q = 0" for p q
    by (auto simp: child_def live two_procs_fields p)
  show "running two_procs 1 0" by (simp add: running_def live two_procs_fields p)
  show "procs_ok two_procs"
  proof (rule procs_okI)
    fix q assume "live two_procs q"
    then show "pcb_pid (pcbs two_procs q) = q \<and> 0 \<le> pcb_terminal (pcbs two_procs q) \<and> pcb_terminal (pcbs two_procs q) < 3
      \<and> live two_procs (p_pid (pcbs two_procs q)) \<and> pcb_terminal (pcbs two_procs (p_pid (pcbs two_procs q))) = pcb_terminal (pcbs two_procs q)
      \<and> fds_ok (pcbs two_procs q)"
      using all_closed_fds_ok [OF closed [of q]] by (auto simp: live two_procs_fields p)
  qed (auto simp: idle child live two_procs_fields p split: if_splits)
qed

theorem halt_resumes_parent_witness:
  "\<exists>s'. halt boot_layout (\<lambda>_. 0) (0, 0) 7 two_procs = Some (Resume_parent 0x7FFF00 0x7FFF40 7, s') \<and> curr s' = 0"
proof -
  have "p_pid (pcbs two_procs 1) = 0" "parent_esp (pcbs two_procs 1) = 0x7FFF00" "parent_ebp (pcbs two_procs 1) = 0x7FFF40"
    by (simp_all add: two_procs_def)
  then show ?thesis
    using halt_resumes_parent [OF two_procs_ok, of boot_layout "\<lambda>_. 0" "(0, 0)" 7] by (auto simp: running_def)
qed

end
