(* ===== verification/Loader.thy ===== *)
theory Loader
  imports Process
begin

text \<open>
  What \<open>execute\<close> does with a command line: the splitting into a file name and arguments by
  \<open>verify_file\<close>, the check of the executable, the loading of its image and the way the
  arguments reach \<open>getargs\<close>. The definitions are those of the theories Process, Files and Filesys.
\<close>

section \<open>The command line\<close>

definition name_of :: "u8 list \<Rightarrow> u8 list" where
  "name_of cs = takeWhile (\<lambda>c. c \<noteq> 32) cs"

text \<open>All characters behind the name but the spaces.\<close>

definition args_of :: "u8 list \<Rightarrow> u8 list" where
  "args_of cs = filter (\<lambda>c. c \<noteq> 32) (dropWhile (\<lambda>c. c \<noteq> 32) cs)"

definition arr :: "u8 list \<Rightarrow> nat \<Rightarrow> u8" where
  "arr xs j = (if j < length xs then xs ! j else 0)"

lemma parse_name_spec:
  assumes "cstr_at m cmd cs" "k = length (name_of cs)" "k \<le> 129" "i \<le> k"
  shows "parse_name m cmd (length cs) i f = Some (k, \<lambda>j. if i \<le> j \<and> j < k then cs ! j else f j)"
  using assms(4)
proof (induction "k - i" arbitrary: i f)
  case 0
  then have i: "i = k" by simp
  have "k = length cs \<or> k < length cs \<and> cs ! k = 32"
    unfolding assms(2) name_of_def using nth_length_takeWhile [of "\<lambda>c. c \<noteq> 32" cs] length_takeWhile_le [of "\<lambda>c. c \<noteq> 32" cs] by linarith
  then show ?case
    using cstr_at_nth [OF assms(1), of k] by (subst parse_name.simps) (auto simp: i fun_eq_iff)
next
  case (Suc n)
  have i: "i < length cs" using Suc.hyps(2) assms(2) length_takeWhile_le [of "\<lambda>c. c \<noteq> 32" cs] by (simp add: name_of_def)
  have n: "i < length (takeWhile (\<lambda>c. c \<noteq> 32) cs)" using Suc.hyps(2) assms(2) by (simp add: name_of_def)
  have c: "cs ! i \<noteq> 32" using set_takeWhileD [OF nth_mem [OF n]] takeWhile_nth [OF n] by simp
  have "parse_name m cmd (length cs) i f = parse_name m cmd (length cs) (Suc i) (f(i := cs ! i))"
    using i c cstr_at_nth [OF assms(1) i] Suc.hyps(2) assms(3) by (subst parse_name.simps) auto
  also have "\<dots> = Some (k, \<lambda>j. if Suc i \<le> j \<and> j < k then cs ! j else (f(i := cs ! i)) j)"
    using Suc.hyps by (intro Suc.hyps(1)) auto
  also have "\<dots> = Some (k, \<lambda>j. if i \<le> j \<and> j < k then cs ! j else f j)"
    using Suc.hyps(2) by (auto intro!: ext)
  finally show ?case .
qed

lemma parse_args_spec:
  assumes "cstr_at m (cmd + i) ys" "unat sz + length (filter (\<lambda>c. c \<noteq> 32) ys) \<le> 129"
  shows "parse_args m cmd i buf sz =
    Some (\<lambda>j. if unat sz \<le> j \<and> j < unat sz + length (filter (\<lambda>c. c \<noteq> 32) ys) then filter (\<lambda>c. c \<noteq> 32) ys ! (j - unat sz) else buf j,
      sz + of_nat (length (filter (\<lambda>c. c \<noteq> 32) ys)))"
  using assms
proof (induction ys arbitrary: i buf sz)
  case Nil
  then show ?case by (subst parse_args.simps) (auto simp: fun_eq_iff)
next
  case (Cons y ys)
  then have y: "y \<noteq> 0" "m (cmd + i) = y" "cstr_at m (cmd + (i + 1)) ys" by (auto simp: cstr_at_Cons add.assoc)
  show ?case
  proof (cases "y = 32")
    case True
    then show ?thesis using y Cons by (subst parse_args.simps) (simp cong: if_cong)
  next
    case False
    have sz: "unat sz < 129" "unat (sz + 1) = unat sz + 1" using Cons.prems(2) False by (simp_all add: unat_word_ariths)
    have "parse_args m cmd i buf sz = parse_args m cmd (i + 1) (buf(unat sz := y)) (sz + 1)"
      using y False sz(1) by (subst parse_args.simps) simp
    also have "\<dots> = Some (\<lambda>j. if unat (sz + 1) \<le> j \<and> j < unat (sz + 1) + length (filter (\<lambda>c. c \<noteq> 32) ys)
          then filter (\<lambda>c. c \<noteq> 32) ys ! (j - unat (sz + 1)) else (buf(unat sz := y)) j,
        sz + 1 + of_nat (length (filter (\<lambda>c. c \<noteq> 32) ys)))"
      using Cons.prems(2) False sz(2) by (intro Cons.IH y(3)) simp
    also have "\<dots> = Some (\<lambda>j. if unat sz \<le> j \<and> j < unat sz + length (filter (\<lambda>c. c \<noteq> 32) (y # ys))
          then filter (\<lambda>c. c \<noteq> 32) (y # ys) ! (j - unat sz) else buf j, sz + of_nat (length (filter (\<lambda>c. c \<noteq> 32) (y # ys))))"
      using False unfolding sz(2) by (auto simp: nth_Cons' fun_eq_iff)
    finally show ?thesis .
  qed
qed

text \<open>The command line read by \<open>verify_file\<close>.\<close>

definition parsed :: "u8 list \<Rightarrow> 'a sys_state_scheme \<Rightarrow> 'a sys_state_scheme" where
  "parsed cs s = s\<lparr>argBuf := \<lambda>j. if j < 129 then arr (args_of cs) j else argBuf s j, argSize := of_nat (length (args_of cs))\<rparr>"

lemma cstr_at_drop: "cstr_at m a xs \<Longrightarrow> k \<le> length xs \<Longrightarrow> cstr_at m (a + of_nat k) (drop k xs)"
proof (induction k arbitrary: a xs)
  case (Suc k)
  then obtain x ys where xs: "xs = x # ys" by (cases xs) auto
  then have "cstr_at m (a + 1) ys" "k \<le> length ys" using Suc.prems by (simp_all add: cstr_at_Cons)
  from Suc.IH [OF this] show ?case by (simp add: xs add.assoc)
qed simp

lemma verify_file_spec:
  assumes "cstr_at m cmd cs" "cmd \<noteq> 0" "length (name_of cs) \<le> 128" "length (args_of cs) \<le> 129"
  shows "verify_file m cmd stack s = Some (check_file (arr (name_of cs)) stack (parsed cs s), parsed cs s)"
proof -
  let ?k = "length (name_of cs)"
  have len: "strlen m cmd = Some (of_nat (length cs))" "unat (of_nat (length cs) :: u32) = length cs"
    using strlen_cstr [OF assms(1)] assms(1) by (simp_all add: cstr_at_def unat_of_nat)
  have name: "(\<lambda>j. if 0 \<le> j \<and> j < ?k then cs ! j else 0)(?k := 0) = arr (name_of cs)"
    by (auto simp: arr_def name_of_def takeWhile_nth fun_eq_iff)
  have "drop ?k cs = dropWhile (\<lambda>c. c \<noteq> 32) cs" by (simp add: name_of_def dropWhile_eq_drop)
  then have rest: "cstr_at m (cmd + of_nat ?k) (dropWhile (\<lambda>c. c \<noteq> 32) cs)"
    using cstr_at_drop [OF assms(1), of ?k] length_takeWhile_le [of "\<lambda>c. c \<noteq> 32" cs] by (simp add: name_of_def)
  have p: "parse_name m cmd (length cs) 0 (\<lambda>_. 0) = Some (?k, \<lambda>j. if 0 \<le> j \<and> j < ?k then cs ! j else 0)"
    using assms(3) by (intro parse_name_spec [OF assms(1)]) simp_all
  have a: "parse_args m cmd (of_nat ?k) (\<lambda>k. if k < 129 then 0 else argBuf s k) 0
      = Some (argBuf (parsed cs s), argSize (parsed cs s))"
    using parse_args_spec [OF rest, of 0] assms(4) by (auto simp: args_of_def parsed_def arr_def fun_eq_iff)
  show ?thesis
    using assms(2,3) p a by (simp add: verify_file_def len name [simplified] Let_def cong: if_cong) (simp add: parsed_def)
qed

section \<open>The executable\<close>

definition elf_magic :: "u8 list" where
  "elf_magic = [0x7F, 0x45, 0x4C, 0x46]"

text \<open>The bytes of a word in memory order.\<close>

definition le_bytes :: "u32 \<Rightarrow> u8 list" where
  "le_bytes w = [ucast w, ucast (drop_bit 8 w), ucast (drop_bit 16 w), ucast (drop_bit 24 w)]"

lemma le_bytes_load32: "le_bytes (load32 m a) = bytes_at m a 4"
  by (simp add: le_bytes_def load32_bytes bytes_at_def upt_rec)

text \<open>The fields of the state the file system is read from.\<close>

definition fs_core :: "'a fs_state_scheme \<Rightarrow> memory \<times> int \<times> int \<times> u32 \<times> u32 \<times> u32" where
  "fs_core s = (fs_mem s, num_dentry s, num_inodes s, dentry_start s, inode_start s, datablk_start s)"

lemma fs_core_lookup: "fs_core s' = fs_core s \<Longrightarrow> read_dentry_by_name nm a s' = read_dentry_by_name nm a s"
proof -
  assume c: "fs_core s' = fs_core s"
  then have "dentry_at s' = dentry_at s" by (intro ext) (simp add: dentry_addr_def dentry_at_def fs_core_def)
  with c show ?thesis by (simp add: read_dentry_by_name_def dentry_addr_def fs_core_def)
qed

lemma fs_core_file:
  assumes "fs_core s' = fs_core s"
  shows "valid_inode s' ino = valid_inode s ino" "inode_length s' ino = inode_length s ino" "file_contents s' ino = file_contents s ino"
proof -
  show l: "valid_inode s' ino = valid_inode s ino" "inode_length s' ino = inode_length s ino"
    using assms by (simp_all add: valid_inode_def inode_length_def inode_addr_def fs_core_def)
  have "file_byte s' ino = file_byte s ino"
    using assms by (intro ext) (simp add: file_byte_def data_block_def inode_addr_def fs_core_def)
  then show "file_contents s' ino = file_contents s ino" by (simp add: file_contents_def l)
qed

lemma check_file_spec:
  assumes "read_dentry_by_name (array_mem inFile) 0 s = Some d" "valid_inode s (inode d)"
    "28 \<le> inode_length s (inode d)" "inode_length s (inode d) < 2147483648"
  shows "if take 4 (file_contents s (inode d)) = elf_magic
    then \<exists>eip. check_file inFile stack s = Some (inFile, eip) \<and> le_bytes eip = take 4 (drop 24 (file_contents s (inode d)))
    else check_file inFile stack s = None"
proof -
  let ?c = "file_contents s (inode d)"
  have len: "length ?c = inode_length s (inode d)" by (simp add: file_contents_def)
  have head: "read_f_by_name (array_mem inFile) 0 0 1 4 s = (4, take 4 ?c)"
    using assms by (simp add: read_f_by_name_def read_data_start len)
  have "take 4 (drop 24 ?c) = map (file_byte s (inode d)) [24..<28]"
    using assms(3) by (simp add: file_contents_def take_map drop_map del: upt_rec_numeral)
  then have entry: "snd (read_f_by_name (array_mem inFile) 0 24 1 4 s) = take 4 (drop 24 ?c)"
    using assms by (simp add: read_f_by_name_def read_data_spec Let_def min_def del: upt_rec_numeral)
  have four: "length (take 4 ?c) = 4" "length (take 4 (drop 24 ?c)) = 4" using assms(3) len by simp_all
  have buf: "bytes_at (write_bytes stack 0 (take 4 ?c)) 0 4 = take 4 ?c"
      "bytes_at (write_bytes stack 4 (take 4 (drop 24 ?c))) 4 4 = take 4 (drop 24 ?c)"
    using bytes_at_write_bytes [of "take 4 ?c" stack 0] bytes_at_write_bytes [of "take 4 (drop 24 ?c)" stack 4] four by simp_all
  have magic: "field_string magicBuf 0 4 = elf_magic" by code_simp
  have "takeWhile (\<lambda>c. c \<noteq> 0) (take 4 ?c) = elf_magic \<longleftrightarrow> take 4 ?c = elf_magic"
  proof
    assume t: "takeWhile (\<lambda>c. c \<noteq> 0) (take 4 ?c) = elf_magic"
    then have "length (takeWhile (\<lambda>c. c \<noteq> 0) (take 4 ?c)) = length (take 4 ?c)" unfolding t four(1) by (simp add: elf_magic_def)
    then show "take 4 ?c = elf_magic" using t by (metis takeWhile_eq_take take_all_iff order_refl)
  qed (simp add: elf_magic_def)
  then have "strncmp (write_bytes stack 0 (take 4 ?c)) 0 magicBuf 0 4 = 0 \<longleftrightarrow> take 4 ?c = elf_magic"
    using magic by (simp add: strncmp.cmp_zero field_string_def buf)
  then show ?thesis
    using head entry assms(1) le_bytes_load32 [of "write_bytes stack 4 (take 4 (drop 24 ?c))" 4] buf(2)
    by (auto simp: check_file_def Let_def split: prod.splits)
qed

section \<open>Loading\<close>

lemma pcb_init_frame:
  "fs_core (pcb_init pid t s) = fs_core s" "ram (pcb_init pid t s) = ram s"
  "page_directory (pcb_init pid t s) = page_directory s" "page_table (pcb_init pid t s) = page_table s"
  "vidMem_table (pcb_init pid t s) = vidMem_table s" "argBuf (pcb_init pid t s) = argBuf s" "argSize (pcb_init pid t s) = argSize s"
  by (simp_all add: pcb_init_def Let_def fold_set_pcb set_pcb_def fs_core_def del: upt_rec_numeral)

lemma paging_fs_frame [simp]:
  "fs_core (pid_page_map p s) = fs_core s" "fs_core (set_active_terminal t s) = fs_core s"
  "argBuf (pid_page_map p s) = argBuf s" "argBuf (set_active_terminal t s) = argBuf s"
  "argSize (pid_page_map p s) = argSize s" "argSize (set_active_terminal t s) = argSize s"
  by (simp_all add: fs_core_def pid_page_map_def set_active_terminal_def set_active_terminal_paging_def set_pte_def set_pde_def
      flush_tlb_def load_cr3_def Let_def)

lemma address_space_cong:
  "page_directory s' = page_directory s \<Longrightarrow> page_table s' = page_table s \<Longrightarrow> vidMem_table s' = vidMem_table s \<Longrightarrow>
     address_space L s' A = address_space L s A"
  by (simp add: address_space_def)

lemma set_active_terminal_address_space: "address_space L s A \<Longrightarrow> address_space L (set_active_terminal t s) A"
proof -
  assume a: "address_space L s A"
  have "address_space L (if t = display_terminal s then set_active_terminal_paging (int t) s else s) A"
    using a by (simp add: set_active_terminal_paging_address_space)
  then show ?thesis by (simp add: set_active_terminal_def Let_def address_space_def)
qed

lemma new_process_frame:
  "fs_core (new_process regs pid t s) = fs_core s" "ram (new_process regs pid t s) = ram s"
  "argBuf (new_process regs pid t s) = argBuf s" "argSize (new_process regs pid t s) = argSize s"
proof -
  have "fs_core (set_pcb p f s) = fs_core s" for p f and s :: "'a sys_state_scheme" by (simp add: fs_core_def)
  moreover have "fs_core (s\<lparr>proc_state := x\<rparr>) = fs_core s" for x by (simp add: fs_core_def)
  ultimately show "fs_core (new_process regs pid t s) = fs_core s" by (simp add: new_process_def Let_def pcb_init_frame)
  show "ram (new_process regs pid t s) = ram s"
    "argBuf (new_process regs pid t s) = argBuf s" "argSize (new_process regs pid t s) = argSize s"
    by (simp_all add: new_process_def Let_def pcb_init_frame) (simp_all add: set_pcb_def pcb_init_frame)
qed

lemma new_process_mapped:
  assumes "layout_ok L" "address_space L s A" "0 \<le> pid" "pid < 6"
  shows "user_mapped L pid (new_process regs pid t s)"
proof -
  let ?s = "set_pcb pid (\<lambda>b. b\<lparr>parent_ebp := fst regs, parent_esp := snd regs\<rparr>)
    (pcb_init pid t (s\<lparr>proc_state := (proc_state s)(nat pid := 1)\<rparr>))"
  have "address_space L ?s A"
    using assms(2) by (subst address_space_cong [where s = s]) (simp_all add: pcb_init_frame)
  then have "address_space L (set_active_terminal t (pid_page_map pid ?s)) (A\<lparr>user := Some pid\<rparr>)"
    by (intro set_active_terminal_address_space pid_page_map_address_space assms)
  then show ?thesis using assms(1) by (auto simp: user_mapped_def new_process_def Let_def intro!: exI [of _ "A\<lparr>user := Some pid\<rparr>"])
qed

lemma start_process_loads:
  assumes L: "layout_ok L" "address_space L s A" and pid: "0 \<le> pid" "pid < 6"
    and d: "read_dentry_by_name (array_mem inFile) 0 s = Some d" "valid_inode s (inode d)"
    and len: "length (file_contents s (inode d)) \<le> 0x3B8000"
  shows "\<exists>s'. start_process L regs pid t inFile eip s = Some (Enter_user pid eip, s') \<and> user_mapped L pid s'
    \<and> bytes_at (view L s') 0x8048000 (length (file_contents s (inode d))) = file_contents s (inode d)
    \<and> ram s' = write_bytes (ram s) (user_phys pid 0x8048000) (file_contents s (inode d))
    \<and> argBuf s' = argBuf s \<and> argSize s' = argSize s \<and> fs_core s' = fs_core s \<and> tss_ss0 s' = 0x18 \<and> tss_esp0 s' = GET_ESP pid \<and> iflag s'"
proof -
  let ?n = "new_process regs pid t s" and ?c = "file_contents s (inode d)"
  note fr = new_process_frame [of regs pid t s]
  have m: "user_mapped L pid ?n" by (rule new_process_mapped [OF L pid])
  have il: "inode_length s (inode d) \<le> 0x3B8000" using len by (simp add: file_contents_def)
  have r: "read_f (inode d) 0x8048000 ?n = (int (length ?c), ?c)"
    using d(2) il len by (simp add: read_f_def read_data_start fs_core_file [OF fr(1)])
  have w: "in_window 0x8048000 (length ?c)" using len by (simp add: in_window_def)
  let ?m = "write_bytes (ram s) (user_phys pid 0x8048000) ?c"
  let ?s' = "enter_process pid (?n\<lparr>ram := ?m\<rparr>)"
  have st: "store_bytes L 0x8048000 ?c ?n = Some (?n\<lparr>ram := ?m\<rparr>)"
    using store_bytes_user [OF m w] by (simp add: fr(2))
  have s': "start_process L regs pid t inFile eip s = Some (Enter_user pid eip, ?s')"
    using d(1) by (simp add: start_process_def Let_def fs_core_lookup [OF fr(1)] r st)
  have pg: "page_directory ?s' = page_directory ?n" "page_table ?s' = page_table ?n" "vidMem_table ?s' = vidMem_table ?n" "ram ?s' = ?m"
      "argBuf ?s' = argBuf s" "argSize ?s' = argSize s" "fs_core ?s' = fs_core ?n" "tss_ss0 ?s' = 0x18" "tss_esp0 ?s' = GET_ESP pid" "iflag ?s'"
    using fr by (simp_all add: enter_process_def Let_def sti_def set_pcb_def fs_core_def)
  have um: "user_mapped L pid ?s'"
    using m by (simp add: user_mapped_def address_space_cong [OF pg(1-3)])
  have "bytes_at (view L ?s') 0x8048000 (length ?c) = ?c"
    using bytes_at_view_user [OF um w] len by (simp add: pg(4))
  then show ?thesis using s' um pg fr(1) by (intro exI [of _ ?s']) simp
qed

lemma field_string_arr:
  assumes "0 \<notin> set xs" "n \<le> 4294967296"
  shows "field_string (array_mem (arr xs)) 0 n = take n xs"
proof (cases "n \<le> length xs")
  case True
  then have "bytes_at (array_mem (arr xs)) 0 n = take n xs"
    using assms(2) by (intro nth_equalityI) (auto simp: array_mem_def arr_def unat_of_nat)
  moreover have "takeWhile (\<lambda>c. c \<noteq> 0) (take n xs) = take n xs" using assms(1) by (auto dest: in_set_takeD)
  ultimately show ?thesis by (simp add: field_string_def)
next
  case False
  have "bytes_at (array_mem (arr xs)) 0 n = xs @ 0 # replicate (n - Suc (length xs)) 0"
    using False assms(2) by (intro nth_equalityI) (auto simp: array_mem_def arr_def unat_of_nat nth_append nth_Cons')
  moreover have "takeWhile (\<lambda>c. c \<noteq> 0) (xs @ 0 # ys) = xs" for ys using assms(1) by (subst takeWhile_append2) auto
  ultimately show ?thesis using False by (simp add: field_string_def)
qed

lemma lookup_arr:
  assumes "0 \<notin> set xs" "i < nat (num_dentry s)" "takeWhile (\<lambda>c. c \<noteq> 0) (fname (dentry_at s i)) = take 32 xs"
    "\<forall>j<i. takeWhile (\<lambda>c. c \<noteq> 0) (fname (dentry_at s j)) \<noteq> take 32 xs"
  shows "read_dentry_by_name (array_mem (arr xs)) 0 s = Some (dentry_at s i)"
proof -
  have f: "field_string (array_mem (arr xs)) 0 32 = take 32 xs" by (rule field_string_arr [OF assms(1)]) simp
  then have "read_dentry_by_name (array_mem (arr xs)) 0 s \<noteq> None"
    using assms(2,3) by (auto simp: read_dentry_by_name_None)
  then obtain d where d: "read_dentry_by_name (array_mem (arr xs)) 0 s = Some d" by blast
  obtain k where k: "d = dentry_at s k" "takeWhile (\<lambda>c. c \<noteq> 0) (fname d) = take 32 xs"
      "\<forall>j<k. takeWhile (\<lambda>c. c \<noteq> 0) (fname (dentry_at s j)) \<noteq> take 32 xs"
    using read_dentry_by_name_Some [OF d] f by auto
  then have "k = i" using assms(3,4) by (metis linorder_cases)
  then show ?thesis using d k(1) by simp
qed

lemma parsed_fields [simp]:
  "fs_core (parsed cs s) = fs_core s" "ram (parsed cs s) = ram s" "get_pid (parsed cs s) = get_pid s"
  "argBuf (parsed cs s) j = (if j < 129 then arr (args_of cs) j else argBuf s j)" "argSize (parsed cs s) = of_nat (length (args_of cs))"
  "address_space L (parsed cs s) A = address_space L s A"
  by (simp_all add: parsed_def fs_core_def get_pid_def address_space_def)

lemma cli_fields [simp]:
  "fs_core (cli s) = fs_core s" "ram (cli s) = ram s" "get_pid (cli s) = get_pid s" "address_space L (cli s) A = address_space L s A"
  by (simp_all add: cli_def fs_core_def get_pid_def address_space_def)

lemma execute_loads:
  assumes "layout_ok L" and "address_space L s A" and "get_pid s \<noteq> -1"
    and "cstr_at m command cs" and "command \<noteq> 0" and "length (name_of cs) \<le> 128" and "length (args_of cs) \<le> 128"
    and "i < nat (num_dentry s)" and "takeWhile (\<lambda>c. c \<noteq> 0) (fname (dentry_at s i)) = take 32 (name_of cs)"
    and "\<forall>j<i. takeWhile (\<lambda>c. c \<noteq> 0) (fname (dentry_at s j)) \<noteq> take 32 (name_of cs)"
    and "c = file_contents s (inode (dentry_at s i))" and "valid_inode s (inode (dentry_at s i))" and "28 \<le> length c" and "length c \<le> 0x3B8000"
  shows "if take 4 c = elf_magic
    then \<exists>eip s'. execute_with_terminal_num L stack regs m command t s = Some (Enter_user (get_pid s) eip, s')
      \<and> le_bytes eip = take 4 (drop 24 c) \<and> user_mapped L (get_pid s) s' \<and> bytes_at (view L s') 0x8048000 (length c) = c
      \<and> (\<forall>a. a \<notin> region (user_phys (get_pid s) 0x8048000) (length c) \<longrightarrow> ram s' a = ram s a)
      \<and> (\<forall>j<129. argBuf s' j = arr (args_of cs) j) \<and> argSize s' = of_nat (length (args_of cs))
      \<and> tss_ss0 s' = 0x18 \<and> tss_esp0 s' = GET_ESP (get_pid s) \<and> iflag s'
    else \<exists>s'. execute_with_terminal_num L stack regs m command t s = Some (Returned (-1), s')"
proof -
  let ?d = "dentry_at s i" and ?p = "parsed cs (cli s)" and ?nm = "arr (name_of cs)"
  have core: "fs_core ?p = fs_core s" by simp
  have "0 \<notin> set (name_of cs)" using assms(4) by (auto simp: cstr_at_def name_of_def dest: set_takeWhileD)
  then have d: "read_dentry_by_name (array_mem ?nm) 0 ?p = Some ?d"
    using lookup_arr [OF _ assms(8-10)] fs_core_lookup [OF core] by simp
  note ff = fs_core_file [OF core, of "inode ?d"]
  have len: "length c = inode_length s (inode ?d)" by (simp add: assms(11) file_contents_def)
  have pid: "0 \<le> get_pid s" "get_pid s < 6" using get_pid_free [OF assms(3)] by simp_all
  have v: "verify_file m command stack (cli s) = Some (check_file ?nm stack ?p, ?p)"
    using assms(7) by (intro verify_file_spec assms) simp
  have ck: "if take 4 c = elf_magic then \<exists>eip. check_file ?nm stack ?p = Some (?nm, eip) \<and> le_bytes eip = take 4 (drop 24 c)
      else check_file ?nm stack ?p = None"
    using check_file_spec [OF d, of stack] assms(11-14) len by (simp add: ff cong: if_cong)
  show ?thesis
  proof (cases "take 4 c = elf_magic")
    case True
    then obtain eip where eip: "check_file ?nm stack ?p = Some (?nm, eip)" "le_bytes eip = take 4 (drop 24 c)" using ck by auto
    have "length c \<le> 4294967296" using assms(14) by simp
    then show ?thesis
      using start_process_loads [of L ?p A "get_pid s" ?nm ?d regs t eip] True eip v d assms(1-3,5,12,14) pid
      by (auto simp: execute_with_terminal_num_def Let_def ff assms(11) [symmetric])
  next
    case False
    then show ?thesis using ck v assms(5) by (simp add: execute_with_terminal_num_def Let_def)
  qed
qed

section \<open>Properties\<close>

text \<open>
  C4: \<open>execute\<close> loads programs. For a command whose first word names a file of at least 28
  bytes (the first directory entry of that name counts) and with a free process number, the call
  enters the program at the address the file has in bytes 24 to 27 if the file starts with the ELF
  magic number, and fails otherwise. The image of the file is then in the new process's memory at
  \<open>0x8048000\<close>, no other byte of memory has changed, the arguments are the characters behind the
  file name without the spaces, and the processor takes the process's kernel stack on the next
  interrupt.
\<close>

theorem execute_loads_program:
  assumes "layout_ok L" and "address_space L s A" and "get_pid s \<noteq> -1"
    and "cstr_at m command cs" and "command \<noteq> 0" and "length (name_of cs) \<le> 128" and "length (args_of cs) \<le> 128"
    and "i < nat (num_dentry s)" and "takeWhile (\<lambda>c. c \<noteq> 0) (fname (dentry_at s i)) = take 32 (name_of cs)"
    and "\<forall>j<i. takeWhile (\<lambda>c. c \<noteq> 0) (fname (dentry_at s j)) \<noteq> take 32 (name_of cs)"
    and "c = file_contents s (inode (dentry_at s i))" and "valid_inode s (inode (dentry_at s i))" and "28 \<le> length c" and "length c \<le> 0x3B8000"
  shows "if take 4 c = elf_magic
    then \<exists>eip s'. execute_with_terminal_num L stack regs m command t s = Some (Enter_user (get_pid s) eip, s')
      \<and> le_bytes eip = take 4 (drop 24 c) \<and> user_mapped L (get_pid s) s' \<and> bytes_at (view L s') 0x8048000 (length c) = c
      \<and> (\<forall>a. a \<notin> region (user_phys (get_pid s) 0x8048000) (length c) \<longrightarrow> ram s' a = ram s a)
      \<and> (\<forall>j<129. argBuf s' j = arr (args_of cs) j) \<and> argSize s' = of_nat (length (args_of cs))
      \<and> tss_ss0 s' = 0x18 \<and> tss_esp0 s' = GET_ESP (get_pid s) \<and> iflag s'
    else \<exists>s'. execute_with_terminal_num L stack regs m command t s = Some (Returned (-1), s')"
  using assms by (rule execute_loads)

lemma execute_keeps:
  assumes "procs_ok s" and "t < 3" and "t_curr s t = -1 \<or> t_curr s t = curr s"
    and "execute_with_terminal_num L stack regs m command t s = Some (r, s')"
  shows "procs_ok s'
    \<and> (case r of
         Enter_user pid eip \<Rightarrow> \<not> live s pid \<and> live s' pid \<and> running s' pid t
           \<and> p_pid (pcbs s' pid) = (if t_curr s t = -1 then pid else curr s) \<and> (\<forall>p. p \<noteq> pid \<longrightarrow> pcbs s' p = pcbs s p \<and> live s' p = live s p)
       | Returned v \<Rightarrow> (v = 0 \<and> (\<forall>p\<in>{0..<6}. live s p) \<or> v = -1)
           \<and> pcbs s' = pcbs s \<and> proc_state s' = proc_state s \<and> t_curr s' = t_curr s \<and> curr s' = curr s
       | Resume_parent _ _ _ \<Rightarrow> False)"
  using assms(4)
proof (cases rule: execute_cases)
  case fail
  then show ?thesis using assms(1) procs_ok_cong [of s' s] by simp
next
  case full
  have "\<forall>p\<in>{0..<6}. live s p"
  proof
    fix p :: int assume p: "p \<in> {0..<6}"
    then have "proc_state s (nat p) \<noteq> 0" using pids.alloc_full [of s] full(2) by auto
    with p show "live s p" by (simp add: live_def)
  qed
  with full show ?thesis using assms(1) procs_ok_cong [of s' s] by simp
next
  case (enter ab sz eip)
  let ?pid = "get_pid s"
  let ?init = "(cli s)\<lparr>argBuf := ab, argSize := sz\<rparr>"
  define s1 where "s1 = pcb_init ?pid t (?init\<lparr>proc_state := (proc_state ?init)(nat ?pid := 1)\<rparr>)"
  have s0: "procs_ok ?init" "\<not> live ?init ?pid" "t_curr ?init t = -1 \<or> t_curr ?init t = curr ?init"
    using assms(1,3) procs_ok_cong [of ?init s] get_pid_free [OF enter(2)] by (simp_all add: live_def)
  have pid: "0 \<le> ?pid" "?pid < 6" "\<not> live s ?pid" using get_pid_free [OF enter(2)] by simp_all
  have ok1: "procs_ok s1" by (rule new_process_ok [OF s0(1) pid(1,2) s0(2) assms(2) s0(3) s1_def])
  have e: "t_curr s' = t_curr s1" "proc_state s' = proc_state s1" "curr s' = curr s1" "\<And>p. core (pcbs s' p) = core (pcbs s1 p)"
      "\<And>p. p \<noteq> ?pid \<Longrightarrow> pcbs s' p = pcbs s p"
    using enter(3) by (simp_all add: s1_def Let_def)
  have fields: "t_curr s' = (t_curr s)(t := ?pid)" "proc_state s' = (proc_state s)(nat ?pid := 1)" "curr s' = ?pid"
    unfolding e(1-3) by (simp_all add: s1_def pcb_init_fields)
  have live: "live s' p \<longleftrightarrow> live s p \<or> p = ?pid" for p
    using pid by (auto simp: live_def fields)
  have trm: "pcb_terminal (pcbs s' ?pid) = int t" "p_pid (pcbs s' ?pid) = p_pid (pcbs s1 ?pid)"
    using e(4) [of ?pid] by (auto simp: core_def s1_def pcb_init_fields)
  have "p_pid (pcbs s1 ?pid) = (if t_curr s t = -1 then ?pid else curr s)"
  proof (cases "t_curr s t = -1")
    case False
    then have "live s (curr s)" using procs_okD(6) [OF assms(1,2)] assms(3) by auto
    then show ?thesis using False procs_okD(1) [OF assms(1)] pid(3) by (auto simp: s1_def pcb_init_fields)
  qed (simp add: s1_def pcb_init_fields)
  moreover have "procs_ok s'" using ok1 procs_ok_cong [of s' s1] e by simp
  ultimately show ?thesis
    using enter(1) live pid(3) trm e(5) assms(2) by (auto simp: running_def fields)
qed


text \<open>
  \<open>execute\<close> keeps the process table in order. Started by the running process or on a
  terminal that runs nothing, a call that enters a program has taken a process number that was
  free, made it the running process of its terminal with the caller as parent (itself for a
  first shell), and left every other process block untouched; a call that returns has changed no
  process at all: with all six numbers in use it returns 0, otherwise it fails with -1.
\<close>

theorem execute_keeps_processes:
  assumes "procs_ok s" and "t < 3" and "t_curr s t = -1 \<or> t_curr s t = curr s"
    and "execute_with_terminal_num L stack regs m command t s = Some (r, s')"
  shows "procs_ok s'
    \<and> (case r of
         Enter_user pid eip \<Rightarrow> \<not> live s pid \<and> live s' pid \<and> running s' pid t
           \<and> p_pid (pcbs s' pid) = (if t_curr s t = -1 then pid else curr s) \<and> (\<forall>p. p \<noteq> pid \<longrightarrow> pcbs s' p = pcbs s p \<and> live s' p = live s p)
       | Returned v \<Rightarrow> (v = 0 \<and> (\<forall>p\<in>{0..<6}. live s p) \<or> v = -1)
           \<and> pcbs s' = pcbs s \<and> proc_state s' = proc_state s \<and> t_curr s' = t_curr s \<and> curr s' = curr s
       | Resume_parent _ _ _ \<Rightarrow> False)"
  using assms by (rule execute_keeps)

text \<open>
  C32: the arguments of a command reach the program. The characters behind the file name,
  without the spaces, are what \<open>getargs\<close> stores as a string in the buffer of the program, whatever
  string the buffer held before; without arguments it fails and leaves the buffer alone. (It
  does not look at the size of the buffer.)
\<close>

theorem getargs_delivers_arguments:
  assumes "cstr_at m command cs" and "command \<noteq> 0" and "length (name_of cs) \<le> 128" and "length (args_of cs) \<le> 128"
    and "verify_file m command stack s = Some (v, s1)" and "argBuf s2 = argBuf s1" and "argSize s2 = argSize s1"
    and "user_mapped L p s2" and "cstr_at (view L s2) buf old" and "in_window buf (Suc (max (length old) (length (args_of cs))))"
  shows "if args_of cs = [] then getargs L buf nbytes s2 = Some (-1, s2)
    else \<exists>s3. getargs L buf nbytes s2 = Some (0, s3) \<and> cstr_at (view L s3) buf (args_of cs)"
proof (cases "args_of cs = []")
  case True
  then have "argSize s1 = 0" using verify_file_spec [of m command cs stack s] assms(1-5) by auto
  with True show ?thesis using assms(7) by (simp add: getargs_def)
next
  case False
  let ?a = "args_of cs" and ?u = "user_phys p buf"
  have s1: "s1 = parsed cs s" using verify_file_spec [of m command cs stack s] assms(1-5) by auto
  have nz: "0 \<notin> set ?a" using assms(1) by (auto simp: args_of_def cstr_at_def dest: set_dropWhileD)
  have small: "length ?a < 129" "length old < 4194304" "buf \<noteq> 0"
    using assms(4,10) by (auto simp: in_window_def)
  have w: "in_window buf (length old)" "in_window buf (length ?a)" "in_window buf (Suc (length ?a))"
    using assms(10) by (auto simp: in_window_def)
  have ab: "argBuf s2 j = arr ?a j" if "j < 129" for j using that by (simp add: assms(6) s1)
  have "bytes_at (\<lambda>x. argBuf s2 (unat x)) 0 (length ?a) = ?a"
    using small by (intro nth_equalityI) (simp_all add: ab arr_def unat_of_nat)
  then have "cstr_at (\<lambda>x. argBuf s2 (unat x)) 0 ?a"
    using nz small ab [of "length ?a"] by (simp add: cstr_at_def arr_def unat_of_nat)
  then have k: "strlen (\<lambda>x. argBuf s2 (unat x)) 0 = Some (of_nat (length ?a))" by (rule strlen_cstr)
  have ma: "map (argBuf s2) [0..<length ?a] = ?a"
    using small by (intro nth_equalityI) (simp_all add: ab arr_def)
  have n: "strlen (view L s2) buf = Some (of_nat (length old))" by (rule strlen_cstr [OF assms(9)])
  let ?m = "write_bytes (ram s2) ?u (replicate (length old) 0)"
  let ?m' = "write_bytes (write_bytes ?m ?u ?a) (?u + of_nat (length ?a)) [0]"
  have e: "translate L s2 (buf + of_nat (length ?a)) = Some \<lparr>frame_addr = ?u + of_nat (length ?a), user_ok = True, writable = True\<rparr>"
    using user_mapped_translate [OF assms(8) in_window_offset [OF w(3), of "length ?a"]] by (simp add: user_phys_add)
  have nd: "\<not> 4294967296 dvd length ?a" using small(1) False nat_dvd_not_less [of "length ?a" 4294967296] by simp
  have g: "getargs L buf nbytes s2 = Some (0, s2\<lparr>ram := ?m'\<rparr>)"
    using nd small k n assms(7) e store_bytes_user [OF assms(8), of buf "replicate (length old) 0"] w
      store_bytes_user [of L p "s2\<lparr>ram := ?m\<rparr>" buf ?a] assms(8)
    by (simp add: getargs_def s1 unat_of_nat ma store_byte_def word_of_nat_eq_0_iff fun_upd_def)
  have "bytes_at ?m' ?u (Suc (length ?a)) = ?a @ [0]"
    using bytes_at_write_bytes [of "?a @ [0]" ?m ?u] small by (simp add: write_bytes_append)
  then have b: "bytes_at (view L (s2\<lparr>ram := ?m'\<rparr>)) buf (Suc (length ?a)) = ?a @ [0]"
    using bytes_at_view_user [of L p "s2\<lparr>ram := ?m'\<rparr>" buf "Suc (length ?a)"] assms(8) w(3) by simp
  then have "cstr_at (view L (s2\<lparr>ram := ?m'\<rparr>)) buf ?a"
    using nz small bytes_at_add [of "view L (s2\<lparr>ram := ?m'\<rparr>)" buf "length ?a" 1] by (simp add: cstr_at_def bytes_at_Suc)
  then show ?thesis using g False by auto
qed

lemma shell_command: "cstr_at (lit_mem ''shell'') 1 [115, 104, 101, 108, 108]"
  "name_of [115, 104, 101, 108, 108] = [115, 104, 101, 108, 108]" "args_of [115, 104, 101, 108, 108] = []"
proof -
  have b: "bytes_at (lit_mem ''shell'') 1 5 = [115, 104, 101, 108, 108]" "lit_mem ''shell'' 6 = 0" by code_simp+
  have l: "length [115, 104, 101, 108, 108 :: u8] = 5" by simp
  show "cstr_at (lit_mem ''shell'') 1 [115, 104, 101, 108, 108]" unfolding cstr_at_def l using b by simp
qed (simp_all add: name_of_def args_of_def)

lemma halt_first_shell:
  assumes "procs_ok s" and "running s c t" and "p_pid (pcbs s c) = c"
    and "halt L stack regs status s = Some (Enter_user pid eip, s')"
  shows "curr s' = pid \<and> t_curr s' t = pid \<and> live s' pid \<and> pcb_terminal (pcbs s' pid) = int t \<and> p_pid (pcbs s' pid) = c \<and> pid \<le> c
    \<and> (\<forall>q. 0 \<le> q \<and> q < pid \<longrightarrow> live s q) \<and> (pid \<noteq> c \<longrightarrow> \<not> live s' c \<and> \<not> procs_ok s')"
proof -
  let ?r = "remove_process c (cli s)"
  have ok: "procs_ok (cli s)" and run: "running (cli s) c t"
    using assms(1,2) procs_ok_cong [of "cli s" s] by (simp_all add: running_def live_def)
  note f = remove_process_fields [OF ok run, simplified]
  have c: "live s c" "curr s = c" "pcb_pid (pcbs s c) = c" "pcb_terminal (pcbs s c) = int t"
    using assms(2) procs_okD(1) [OF assms(1), of c] by (simp_all add: running_def)
  then have cr: "0 \<le> c" "c < 6" by (simp_all add: live_def)
  have blk: "pcb_pid (pcbs ?r c) = c" "p_pid (pcbs ?r c) = c" "pcb_terminal (pcbs ?r c) = int t"
    using c assms(3) fold_shut [of "[0..<8]" "pcbs s c"] by (simp_all add: f del: upt_rec_numeral)
  have ex: "execute_with_terminal_num L stack regs (lit_mem ''shell'') 1 t ?r = Some (Enter_user pid eip, s')"
    using assms(4) c(2) blk unfolding halt_def Let_def
    by (auto simp: remove_process_def Let_def bind_eq_Some_conv split: outcome.splits) (metis outcome.exhaust)
  have "\<not> proc_state ?r (nat c) \<noteq> 0" "nat c < 6" using cr by (simp_all add: f)
  then have le: "get_pid ?r \<le> c" using pids.alloc_succeeds [of "nat c" ?r] cr by simp
  show ?thesis
    using ex
  proof (cases rule: execute_cases)
    case (enter ab sz eip')
    then have pid: "pid = get_pid ?r" "pid \<noteq> -1" by simp_all
    have pr: "0 \<le> pid" "pid < 6" using get_pid_free [of ?r] pid by auto
    have e: "t_curr s' t = pid" "curr s' = pid" "proc_state s' = (proc_state ?r)(nat pid := 1)"
        "core (pcbs s' pid) = core (pcbs (pcb_init pid t ((cli ?r)\<lparr>argBuf := ab, argSize := sz, proc_state := (proc_state ?r)(nat pid := 1)\<rparr>)) pid)"
      using enter(3) by (simp_all add: pid(1) Let_def pcb_init_fields f)
    have par: "p_pid (pcbs s' pid) = c" "pcb_terminal (pcbs s' pid) = int t"
      using e(4) live_nonneg [OF c(1)] blk assms(3) by (auto simp: core_def pcb_init_fields f)
    have live: "live s' pid" "pid \<noteq> c \<Longrightarrow> \<not> live s' c" using pr cr by (auto simp: live_def e(3) f)
    have "live s q" if q: "0 \<le> q" "q < pid" for q
    proof -
      obtain i where i: "get_pid ?r = int i" "\<forall>j. 0 \<le> j \<longrightarrow> j < i \<longrightarrow> proc_state ?r j \<noteq> 0"
        using pids.alloc_lowest [of ?r] pid by auto
      then have "proc_state ?r (nat q) \<noteq> 0" using q pid(1) by simp
      moreover have "nat q \<noteq> nat c" using q le pid(1) cr by simp
      ultimately show ?thesis using q pr by (simp add: live_def f)
    qed
    moreover have "\<not> procs_ok s'" if "pid \<noteq> c"
      using procs_okD(3) [of s' pid] live par that by auto
    ultimately show ?thesis using e(1,2) live par le pid(1) by simp
  qed simp_all
qed

text \<open>
  C33: halting the first shell of a terminal starts the program \<open>shell\<close> there again, provided the file
  system holds an executable of that name: \<open>halt\<close> enters it at the address in bytes 24 to 27 of the
  file, with its image in the user page and no arguments. The new process gets the lowest
  free process number, which may be below that of the shell that halts; its parent is then
  the dead process, so that the process table is no longer in order (the terminal is not marked
  as running nothing before the new shell is started).
\<close>

theorem halt_restarts_shell:
  assumes "layout_ok L" and "address_space L s A" and "procs_ok s" and "running s c t" and "p_pid (pcbs s c) = c"
    and "i < nat (num_dentry s)" and "takeWhile (\<lambda>c. c \<noteq> 0) (fname (dentry_at s i)) = [115, 104, 101, 108, 108]"
    and "\<forall>j<i. takeWhile (\<lambda>c. c \<noteq> 0) (fname (dentry_at s j)) \<noteq> [115, 104, 101, 108, 108]"
    and "file = file_contents s (inode (dentry_at s i))" and "valid_inode s (inode (dentry_at s i))"
    and "28 \<le> length file" and "length file \<le> 0x3B8000" and "take 4 file = elf_magic"
  shows "\<exists>pid eip s'. halt L stack regs status s = Some (Enter_user pid eip, s')
    \<and> le_bytes eip = take 4 (drop 24 file) \<and> user_mapped L pid s' \<and> bytes_at (view L s') 0x8048000 (length file) = file \<and> argSize s' = 0
    \<and> curr s' = pid \<and> t_curr s' t = pid \<and> live s' pid \<and> pcb_terminal (pcbs s' pid) = int t \<and> p_pid (pcbs s' pid) = c
    \<and> 0 \<le> pid \<and> pid \<le> c \<and> (\<forall>q. 0 \<le> q \<and> q < pid \<longrightarrow> live s q) \<and> (pid = c \<or> \<not> live s' c \<and> \<not> procs_ok s')"
proof -
  let ?r = "remove_process c (cli s)"
  have ok: "procs_ok (cli s)" and run: "running (cli s) c t"
    using assms(3,4) procs_ok_cong [of "cli s" s] by (simp_all add: running_def live_def)
  note f = remove_process_fields [OF ok run, simplified]
  have c: "live s c" "curr s = c" "pcb_pid (pcbs s c) = c" "pcb_terminal (pcbs s c) = int t"
    using assms(4) procs_okD(1) [OF assms(3), of c] by (simp_all add: running_def)
  then have cr: "0 \<le> c" "c < 6" by (simp_all add: live_def)
  have blk: "pcb_pid (pcbs ?r c) = c" "p_pid (pcbs ?r c) = c" "pcb_terminal (pcbs ?r c) = int t"
    using c assms(5) fold_shut [of "[0..<8]" "pcbs s c"] by (simp_all add: f del: upt_rec_numeral)
  have "\<not> proc_state ?r (nat c) \<noteq> 0" "nat c < 6" using cr by (simp_all add: f)
  then have pid: "get_pid ?r \<noteq> -1" using pids.alloc_succeeds [of "nat c" ?r] by simp
  have A: "address_space L ?r A" and core: "fs_core ?r = fs_core s"
    using assms(2) c(2) by (simp_all add: remove_process_def Let_def close_all_shut) (simp_all add: set_pcb_def cli_def address_space_def fs_core_def)
  have d: "dentry_at ?r k = dentry_at s k" "num_dentry ?r = num_dentry s" for k
    using core by (simp_all add: dentry_at_def dentry_addr_def fs_core_def)
  obtain eip s' where x: "execute_with_terminal_num L stack regs (lit_mem ''shell'') 1 t ?r = Some (Enter_user (get_pid ?r) eip, s')"
      "le_bytes eip = take 4 (drop 24 file) \<and> user_mapped L (get_pid ?r) s' \<and> bytes_at (view L s') 0x8048000 (length file) = file \<and> argSize s' = 0"
    using execute_loads [OF assms(1) A pid shell_command(1), of i "file" stack regs t] assms(6-13) by (auto simp: d fs_core_file [OF core] shell_command)
  have h: "halt L stack regs status s = Some (Enter_user (get_pid ?r) eip, s')"
    using x(1) blk c(2,4) unfolding halt_def Let_def by (simp add: remove_process_def Let_def)
  have "0 \<le> get_pid ?r" using get_pid_free [OF pid] by simp
  with h x(2) halt_first_shell [OF assms(3-5) h] show ?thesis by auto
qed

section \<open>Witnesses\<close>

text \<open>A file system with the program \<open>shell\<close> of 28 bytes, and the machine with one process.\<close>

definition elf_file :: "u8 list" where
  "elf_file = elf_magic @ replicate 20 0 @ [0x00, 0x90, 0x04, 0x08]"

definition elf_image :: memory where
  "elf_image =
     (let m = store32 (\<lambda>_. 0) 0x500000 1; m = store32 m 0x500004 2; m = store32 m 0x500008 1;
          m = write_bytes m 0x500040 [115, 104, 101, 108, 108]; m = store32 m 0x500060 2; m = store32 m 0x500064 1;
          m = store32 m 0x502000 28; m = store32 m 0x502004 0
      in write_bytes m 0x503000 elf_file)"

definition elf_demo :: sys_state where
  "elf_demo = sys_demo\<lparr>fs_mem := elf_image\<rparr>"

lemma elf_demo_fields:
  "fs_mem elf_demo = elf_image" "num_dentry elf_demo = 1" "num_inodes elf_demo = 2" "dentry_start elf_demo = 0x500040"
  "inode_start elf_demo = 0x501000" "datablk_start elf_demo = 0x503000" "proc_state elf_demo = (\<lambda>p. if p = 0 then 1 else 0)"
  "t_curr elf_demo = (\<lambda>t. if t = 0 then 0 else -1)" "curr elf_demo = 0" "pcbs elf_demo = (\<lambda>_. idle_pcb)"
  by (simp_all add: elf_demo_def sys_demo_fields) (simp_all add: sys_demo_def fs_state.defs sys_state.defs)

lemma elf_demo_file:
  "inode (dentry_at elf_demo 0) = 1" "takeWhile (\<lambda>c. c \<noteq> 0) (fname (dentry_at elf_demo 0)) = [115, 104, 101, 108, 108]"
  "valid_inode elf_demo 1" "file_contents elf_demo 1 = elf_file"
proof -
  have "load32 elf_image 0x500064 = 1" "field_string elf_image 0x500040 32 = [115, 104, 101, 108, 108]" by code_simp+
  then show "inode (dentry_at elf_demo 0) = 1" "takeWhile (\<lambda>c. c \<noteq> 0) (fname (dentry_at elf_demo 0)) = [115, 104, 101, 108, 108]"
    by (simp_all add: dentry_name_field) (simp_all add: dentry_at_def dentry_addr_def elf_demo_fields)
  show "valid_inode elf_demo 1" by (simp add: valid_inode_def elf_demo_fields)
  have w: "load32 elf_image 0x502000 = 28" "load32 elf_image 0x502004 = 0" "bytes_at elf_image 0x503000 28 = elf_file" by code_simp+
  have "file_byte elf_demo 1 k = elf_image (0x503000 + of_nat k)" if "k < 28" for k
    using that by (simp add: file_byte_def data_block_def inode_addr_def elf_demo_fields w)
  then have "map (file_byte elf_demo 1) [0..<28] = bytes_at elf_image 0x503000 28" unfolding bytes_at_def by (intro map_cong) auto
  then show "file_contents elf_demo 1 = elf_file"
    by (simp add: file_contents_def inode_length_def inode_addr_def elf_demo_fields w del: upt_rec_numeral)
qed

lemma elf_demo_space: "\<exists>A. address_space boot_layout elf_demo A" "layout_ok boot_layout"
  using sys_demo_mapped by (auto simp: user_mapped_def elf_demo_def address_space_def)

lemma elf_demo_pid: "get_pid elf_demo = 1"
proof -
  have "[0..<6] = [0, 1, 2, 3, 4, 5 :: nat]" by code_simp
  then show ?thesis by (simp add: get_pid_def elf_demo_fields)
qed

lemma elf_command: "cstr_at (lit_mem ''shell -x y'') 1 [115, 104, 101, 108, 108, 32, 45, 120, 32, 121]"
  "name_of [115, 104, 101, 108, 108, 32, 45, 120, 32, 121] = [115, 104, 101, 108, 108]" "args_of [115, 104, 101, 108, 108, 32, 45, 120, 32, 121] = [45, 120, 121]"
proof -
  have b: "bytes_at (lit_mem ''shell -x y'') 1 10 = [115, 104, 101, 108, 108, 32, 45, 120, 32, 121]" "lit_mem ''shell -x y'' 11 = 0" by code_simp+
  have l: "length [115, 104, 101, 108, 108, 32, 45, 120, 32, 121 :: u8] = 10" by simp
  show "cstr_at (lit_mem ''shell -x y'') 1 [115, 104, 101, 108, 108, 32, 45, 120, 32, 121]" unfolding cstr_at_def l using b by simp
qed (simp_all add: name_of_def args_of_def)

lemma shell_executes:
  assumes "fs_core s = fs_core elf_demo" "address_space boot_layout s A" "get_pid s \<noteq> -1"
    "cstr_at m 1 cs" "name_of cs = [115, 104, 101, 108, 108]" "length (args_of cs) \<le> 128"
  shows "\<exists>eip s'. execute_with_terminal_num boot_layout stack regs m 1 t s = Some (Enter_user (get_pid s) eip, s')"
proof -
  have f: "length elf_file = 28" "take 4 elf_file = elf_magic" by (simp_all add: elf_file_def elf_magic_def)
  have d: "dentry_at s 0 = dentry_at elf_demo 0" "num_dentry s = 1"
    using assms(1) by (simp_all add: dentry_at_def dentry_addr_def fs_core_def elf_demo_fields)
  show ?thesis
    using execute_loads [OF elf_demo_space(2) assms(2-4), of 0 elf_file stack regs t] f assms(5,6)
    by (auto simp: elf_demo_file d fs_core_file [OF assms(1)])
qed

lemma elf_demo_execute:
  "\<exists>eip s'. execute_with_terminal_num boot_layout (\<lambda>_. 0) (0, 0) (lit_mem ''shell -x y'') 1 0 elf_demo = Some (Enter_user 1 eip, s')"
  using shell_executes [OF refl _ _ elf_command(1)] elf_demo_space by (auto simp: elf_demo_pid elf_command)

lemma elf_demo_ok: "procs_ok elf_demo"
proof -
  have live: "live elf_demo p \<longleftrightarrow> p = 0" for p by (auto simp: live_def elf_demo_fields)
  have p: "pcb_pid idle_pcb = 0" "p_pid idle_pcb = 0" "pcb_terminal idle_pcb = 0" "all_closed idle_pcb"
    by (simp_all add: idle_pcb_def all_closed_def idle_fd_def)
  show ?thesis
    using all_closed_fds_ok [OF p(4)] by (intro procs_okI) (auto simp: live child_def elf_demo_fields p split: if_splits)
qed

theorem execute_keeps_processes_witness:
  "\<exists>eip s'. execute_with_terminal_num boot_layout (\<lambda>_. 0) (0, 0) (lit_mem ''shell -x y'') 1 0 elf_demo = Some (Enter_user 1 eip, s')
     \<and> procs_ok s' \<and> running s' 1 0 \<and> p_pid (pcbs s' 1) = 0"
proof -
  obtain eip s' where "execute_with_terminal_num boot_layout (\<lambda>_. 0) (0, 0) (lit_mem ''shell -x y'') 1 0 elf_demo = Some (Enter_user 1 eip, s')"
    using elf_demo_execute by blast
  from this execute_keeps_processes [OF elf_demo_ok _ _ this] show ?thesis by (simp add: elf_demo_fields)
qed

theorem execute_loads_program_witness:
  "\<exists>eip s'. execute_with_terminal_num boot_layout (\<lambda>_. 0) (0, 0) (lit_mem ''shell -x y'') 1 0 elf_demo = Some (Enter_user 1 eip, s')
     \<and> le_bytes eip = [0x00, 0x90, 0x04, 0x08] \<and> bytes_at (view boot_layout s') 0x8048000 28 = elf_file"
proof -
  obtain A where A: "address_space boot_layout elf_demo A" using elf_demo_space by blast
  have f: "length elf_file = 28" "take 4 elf_file = elf_magic" "take 4 (drop 24 elf_file) = [0x00, 0x90, 0x04, 0x08]"
    by (simp_all add: elf_file_def elf_magic_def)
  show ?thesis
    using execute_loads_program [OF elf_demo_space(2) A _ elf_command(1), of 0 elf_file "\<lambda>_. 0" "(0, 0)" 0] f
    by (auto simp: elf_demo_pid elf_demo_file elf_demo_fields elf_command)
qed

theorem getargs_delivers_arguments_witness:
  "\<exists>v s1 s3. verify_file (lit_mem ''shell -x y'') 1 (\<lambda>_. 0) elf_demo = Some (v, s1)
     \<and> getargs boot_layout 0x8100000 128 s1 = Some (0, s3) \<and> cstr_at (view boot_layout s3) 0x8100000 [45, 120, 121]"
proof -
  let ?s = "parsed [115, 104, 101, 108, 108, 32, 45, 120, 32, 121] elf_demo"
  have v: "verify_file (lit_mem ''shell -x y'') 1 (\<lambda>_. 0) elf_demo = Some (check_file (arr [115, 104, 101, 108, 108]) (\<lambda>_. 0) ?s, ?s)"
    using verify_file_spec [OF elf_command(1), of "\<lambda>_. 0" elf_demo] by (simp add: elf_command)
  have m: "user_mapped boot_layout 0 ?s"
    using sys_demo_mapped by (simp add: user_mapped_def elf_demo_def address_space_def parsed_def)
  have "view boot_layout ?s 0x8100000 = 0"
    using view_user [OF m, of "0x8100000"] by (simp add: in_window_def user_phys_def) (simp add: elf_demo_def sys_demo_fields)
  then have "cstr_at (view boot_layout ?s) 0x8100000 []" by simp
  from getargs_delivers_arguments [OF elf_command(1) _ _ _ v refl refl m this, of 128] v show ?thesis
    by (simp add: elf_command in_window_def)
qed

definition late_shell :: sys_state where
  "late_shell = elf_demo\<lparr>curr := 1, t_curr := (\<lambda>_. -1)(0 := 1), proc_state := (\<lambda>_. 0)(1 := 1),
     pcbs := (\<lambda>_. idle_pcb)(1 := idle_pcb\<lparr>pcb_pid := 1, p_pid := 1\<rparr>)\<rparr>"

lemma late_shell_fields:
  "curr late_shell = 1" "t_curr late_shell = (\<lambda>_. -1)(0 := 1)" "proc_state late_shell = (\<lambda>_. 0)(1 := 1)"
  "pcbs late_shell p = (if p = 1 then idle_pcb\<lparr>pcb_pid := 1, p_pid := 1\<rparr> else idle_pcb)"
  by (simp_all add: late_shell_def)

lemma late_shell_ok: "procs_ok late_shell" "running late_shell 1 0"
proof -
  have live: "live late_shell p \<longleftrightarrow> p = 1" for p by (auto simp: live_def late_shell_fields)
  have p: "pcb_pid idle_pcb = 0" "p_pid idle_pcb = 0" "pcb_terminal idle_pcb = 0" and idle: "all_closed idle_pcb"
    by (simp_all add: all_closed_def idle_pcb_def idle_fd_def)
  have "fds_ok (idle_pcb\<lparr>pcb_pid := 1, p_pid := 1\<rparr>)"
    using all_closed_fds_ok [OF idle] by (simp add: fds_ok_def)
  then show "procs_ok late_shell"
    using idle by (intro procs_okI) (auto simp: live child_def late_shell_fields p split: if_splits)
  show "running late_shell 1 0" by (simp add: running_def live late_shell_fields p)
qed

theorem halt_restarts_shell_witness:
  "\<exists>eip s'. halt boot_layout (\<lambda>_. 0) (0, 0) 0 late_shell = Some (Enter_user 0 eip, s') \<and> le_bytes eip = [0x00, 0x90, 0x04, 0x08]
     \<and> bytes_at (view boot_layout s') 0x8048000 28 = elf_file \<and> p_pid (pcbs s' 0) = 1 \<and> \<not> live s' 1"
proof -
  obtain A where "address_space boot_layout elf_demo A" using elf_demo_space by blast
  then have A: "address_space boot_layout late_shell A" and core: "fs_core late_shell = fs_core elf_demo"
    by (simp_all add: late_shell_def address_space_def fs_core_def)
  have p: "p_pid (pcbs late_shell 1) = 1" by (simp add: late_shell_fields)
  have d: "dentry_at late_shell 0 = dentry_at elf_demo 0" "num_dentry late_shell = 1"
    using core by (simp_all add: dentry_at_def dentry_addr_def fs_core_def elf_demo_fields)
  have f: "length elf_file = 28" "take 4 elf_file = elf_magic" "take 4 (drop 24 elf_file) = [0x00, 0x90, 0x04, 0x08]"
    by (simp_all add: elf_file_def elf_magic_def)
  have "\<not> live late_shell 0" by (simp add: live_def late_shell_fields)
  with halt_restarts_shell [OF elf_demo_space(2) A late_shell_ok p, of 0 elf_file "\<lambda>_. 0" "(0, 0)" 0] show ?thesis
    by (auto simp: d f elf_demo_file fs_core_file [OF core] order_le_less)
qed

end
