(* ===== verification/Scheduler.thy ===== *)
theory Scheduler
  imports Loader
begin

text \<open>
  The interval timer and the scheduler, \<open>student-distrib/timer.c\<close>: \<open>pit_init\<close> and
  \<open>pit_int_handler\<close>, which on every tick passes the processor to the process of the next terminal
  that runs one. The lemmas show that a tick saves and restores the right context, keeps the
  process table in order, and how many ticks a terminal can be from its turn.
\<close>

section \<open>Operations\<close>

text \<open>How a tick ends: with the stack of the next process, or in a new shell.\<close>

datatype tick =
    Switch_to u32 u32
  | Enter_shell int u32

definition pit_init :: "'a pic_state_scheme \<Rightarrow> 'a pic_state_scheme" where
  "pit_init s =
     (let divisor = (1193180 div 50 :: int);
          s = enable_irq 0 s;
          s = outb 0x36 0x43 s;
          s = outb (of_int (divisor mod 256)) 0x40 s
      in outb (of_int (divisor div 256)) 0x40 s)"

definition GET_NEXT_TERM :: "nat \<Rightarrow> nat" where
  "GET_NEXT_TERM x = (x + 1) mod 3"

text \<open>The search for a terminal that runs a process does not end if there is none.\<close>

partial_function (option) next_terminal :: "(nat \<Rightarrow> int) \<Rightarrow> nat \<Rightarrow> nat option" where
  "next_terminal tc n = (if tc n = -1 then next_terminal tc (GET_NEXT_TERM n) else Some n)"

text \<open>The part of the handler from the choice of the next process on; \<open>regs\<close> are \<open>ebp\<close> and \<open>esp\<close>.\<close>

definition switch_process ::
  "layout \<Rightarrow> u32 \<Rightarrow> u32 \<times> u32 \<Rightarrow> 'a sys_state_scheme \<Rightarrow> (tick \<times> 'a sys_state_scheme) option" where
  "switch_process L e regs s =
     (let c = curr s
      in do {
        n \<leftarrow> next_terminal (t_curr s) (GET_NEXT_TERM (nat (pcb_terminal (pcbs s c))));
        let q = t_curr s n;
        let s = pid_page_map (pcb_pid (pcbs s q)) s;
        let s = vidMem_page_map L e (132 * 0x100000) (pcb_terminal (pcbs s q)) s;
        let s = s\<lparr>tss_ss0 := 0x18, tss_esp0 := GET_ESP (pcb_pid (pcbs s q))\<rparr>;
        let s = s\<lparr>curr := pcb_pid (pcbs s q)\<rparr>;
        let s = set_active_terminal (nat (pcb_terminal (pcbs s q))) s;
        let s = sti s;
        let s = set_pcb c (\<lambda>b. b\<lparr>current_ebp := fst regs, current_esp := snd regs\<rparr>) s;
        Some (Switch_to (current_esp (pcbs s q)) (current_ebp (pcbs s q)), s) })"

definition pit_int_handler ::
  "layout \<Rightarrow> memory \<Rightarrow> u32 \<Rightarrow> u32 \<times> u32 \<Rightarrow> 'a sys_state_scheme \<Rightarrow> (tick \<times> 'a sys_state_scheme) option" where
  "pit_int_handler L stack e regs s =
     (let s = cli s;
          s = send_eoi 0 s
      in if t_curr s 0 = -1 then
           let s = clear s
           in do {
             (r, s) \<leftarrow> execute_with_terminal_num L stack regs (lit_mem ''shell'') 1 0 s;
             case r of Enter_user pid eip \<Rightarrow> Some (Enter_shell pid eip, s) | _ \<Rightarrow> switch_process L e regs s }
         else switch_process L e regs s)"

section \<open>The search\<close>

text \<open>The terminals in the order they are tried, starting behind \<open>t\<close>.\<close>

definition turn :: "(nat \<Rightarrow> int) \<Rightarrow> nat \<Rightarrow> nat" where
  "turn tc t = (if tc ((t + 1) mod 3) \<noteq> -1 then (t + 1) mod 3 else if tc ((t + 2) mod 3) \<noteq> -1 then (t + 2) mod 3 else t)"

lemma next_terminal_turn:
  assumes "t < 3" "tc t \<noteq> -1"
  shows "next_terminal tc (GET_NEXT_TERM t) = Some (turn tc t)"
proof -
  have m: "GET_NEXT_TERM t = (t + 1) mod 3" "GET_NEXT_TERM ((t + 1) mod 3) = (t + 2) mod 3" "GET_NEXT_TERM ((t + 2) mod 3) = t"
    using less_3_cases [OF assms(1)] by (auto simp: GET_NEXT_TERM_def)
  note n = next_terminal.simps [of tc "(t + 1) mod 3", unfolded m] next_terminal.simps [of tc "(t + 2) mod 3", unfolded m]
    next_terminal.simps [of tc t]
  show ?thesis unfolding m(1) turn_def using assms(2) n by presburger
qed

lemma turn_active: "t < 3 \<Longrightarrow> tc t \<noteq> -1 \<Longrightarrow> turn tc t < 3 \<and> tc (turn tc t) \<noteq> -1"
  by (simp add: turn_def)

text \<open>
  The most ticks it can take until terminal \<open>u\<close> has its turn, when \<open>t\<close> has it now, even if a further
  terminal is opened and gets the processor at once: with all three in use their distance in the
  round, with fewer one more than the others in use.
\<close>

definition ticks_left :: "(nat \<Rightarrow> int) \<Rightarrow> nat \<Rightarrow> nat \<Rightarrow> nat" where
  "ticks_left tc t u =
     (if tc 0 \<noteq> -1 \<and> tc 1 \<noteq> -1 \<and> tc 2 \<noteq> -1
      then (if u = (t + 1) mod 3 then 1 else if u = (t + 2) mod 3 then 2 else 3)
      else if u = t then 3 else 2)"

lemma ticks_left_le: "ticks_left tc t u \<le> 3" and ticks_left_pos: "0 < ticks_left tc t u"
  by (simp_all add: ticks_left_def)

lemma ticks_left_cong: "(\<And>v. tc' v = -1 \<longleftrightarrow> tc v = -1) \<Longrightarrow> ticks_left tc' t u = ticks_left tc t u"
  by (simp add: ticks_left_def)

text \<open>A tick gives \<open>u\<close> its turn or brings it nearer; opening a terminal does not put it off.\<close>

lemma turn_ticks_left:
  assumes "t < 3" "tc t \<noteq> -1" "u < 3" "tc u \<noteq> -1"
  shows "turn tc t = u \<or> ticks_left tc (turn tc t) u < ticks_left tc t u"
  using less_3_cases [OF assms(1)] less_3_cases [OF assms(3)] assms(2,4)
  by (elim disjE) (auto simp: turn_def ticks_left_def numeral_2_eq_2)

lemma open_ticks_left:
  assumes "t < 3" "tc t \<noteq> -1" "u < 3" "tc u \<noteq> -1" "v < 3" "tc v = -1" "p \<noteq> -1"
  shows "ticks_left (tc(v := p)) v u \<le> ticks_left tc t u"
  using less_3_cases [OF assms(1)] less_3_cases [OF assms(3)] less_3_cases [OF assms(5)] assms(2,4,6,7)
  by (elim disjE) (auto simp: ticks_left_def numeral_2_eq_2)

section \<open>A switch\<close>

lemma vidmap_sys_frame [simp]:
  "t_curr (vidMem_page_map L e v t s) = t_curr s" "proc_state (vidMem_page_map L e v t s) = proc_state s"
  "pcbs (vidMem_page_map L e v t s) = pcbs s" "curr (vidMem_page_map L e v t s) = curr s" "ram (vidMem_page_map L e v t s) = ram s"
  by (simp_all add: vidMem_page_map_def set_pde_def set_vte_def pdt_init_kb_def flush_tlb_def load_cr3_def Let_def)

lemma eoi_sys_frame [simp]:
  "t_curr (send_eoi i s) = t_curr s" "proc_state (send_eoi i s) = proc_state s" "pcbs (send_eoi i s) = pcbs s"
  "curr (send_eoi i s) = curr s" "ram (send_eoi i s) = ram s" "page_directory (send_eoi i s) = page_directory s"
  "page_table (send_eoi i s) = page_table s" "vidMem_table (send_eoi i s) = vidMem_table s"
  by (simp_all add: send_eoi_def outb_def Let_def)

lemma switch_process_spec:
  assumes "procs_ok s" "running s c t" "address_space L s A" "layout_ok L" "u = turn (t_curr s) t" "q = t_curr s u"
  shows "\<exists>s'. switch_process L e regs s = Some (Switch_to (current_esp (pcbs s' q)) (current_ebp (pcbs s' q)), s')
    \<and> procs_ok s' \<and> running s' q u \<and> active_terminal s' = u \<and> user_mapped L q s' \<and> tss_esp0 s' = GET_ESP q \<and> tss_ss0 s' = 0x18 \<and> iflag s'
    \<and> t_curr s' = t_curr s \<and> ram s' = ram s
    \<and> pcbs s' = (pcbs s)(c := (pcbs s c)\<lparr>current_ebp := fst regs, current_esp := snd regs\<rparr>)"
proof -
  have c: "curr s = c" "live s c" "t < 3" "pcb_terminal (pcbs s c) = int t" "t_curr s t \<noteq> -1"
    using assms(2) live_nonneg by (auto simp: running_def)
  note u = turn_active [of t "t_curr s", OF c(3,5), folded assms(5)]
  have q: "live s q" "pcb_terminal (pcbs s q) = int u" using procs_okD(6) [OF assms(1)] u assms(6) by auto
  then have qp: "pcb_pid (pcbs s q) = q" "0 \<le> q" "q < 6" using procs_okD(1) [OF assms(1)] by (auto simp: live_def)
  let ?v = "vidMem_page_map L e 0x8400000 (int u) (pid_page_map q s)"
  let ?w = "set_active_terminal u (?v\<lparr>tss_ss0 := 0x18, tss_esp0 := GET_ESP q, curr := q\<rparr>)"
  let ?s' = "set_pcb c (\<lambda>b. b\<lparr>current_ebp := fst regs, current_esp := snd regs\<rparr>) (sti ?w)"
  have sw: "switch_process L e regs s = Some (Switch_to (current_esp (pcbs ?s' q)) (current_ebp (pcbs ?s' q)), ?s')"
    using next_terminal_turn [of t "t_curr s", OF c(3,5), folded assms(5)] c(1,4) q qp assms(6)
    by (simp add: switch_process_def Let_def)
  have "procs_ok ?s'"
    using assms(1) by (subst procs_ok_cong [where s = s]) (simp_all add: core_def)
  moreover have "running ?s' q u" using q u assms(6) by (auto simp: running_def live_def)
  moreover obtain B where B: "address_space L ?v B" "user B = Some q"
    using vidMem_page_map_address_space [OF pid_page_map_address_space [OF assms(3) qp(2,3)], of e "int u"] by auto
  then have "address_space L (?v\<lparr>tss_ss0 := 0x18, tss_esp0 := GET_ESP q, curr := q\<rparr>) B"
    by (subst address_space_cong [where s = ?v]) simp_all
  then have "address_space L ?w B" by (rule set_active_terminal_address_space)
  then have "address_space L ?s' B"
    by (subst address_space_cong [where s = ?w]) (simp_all add: sti_def)
  then have "user_mapped L q ?s'" using B(2) assms(4) by (auto simp: user_mapped_def)
  moreover have "active_terminal ?s' = u" "tss_esp0 ?s' = GET_ESP q" "tss_ss0 ?s' = 0x18" "iflag ?s'" "ram ?s' = ram s"
    by (simp_all add: set_pcb_def sti_def)
      (simp_all add: set_active_terminal_def set_active_terminal_paging_def set_pte_def flush_tlb_def load_cr3_def Let_def)
  ultimately show ?thesis using sw by (intro exI [of _ ?s']) simp
qed

text \<open>The scheduler's invariant: some process runs, and the first terminal has a shell.\<close>

definition sched_ok :: "layout \<Rightarrow> nat \<Rightarrow> 'a sys_state_scheme \<Rightarrow> bool" where
  "sched_ok L t s \<longleftrightarrow> procs_ok s \<and> running s (curr s) t \<and> t_curr s 0 \<noteq> -1 \<and> (\<exists>A. address_space L s A)"

lemma pit_switch:
  assumes "layout_ok L" "procs_ok s" "running s c t" "address_space L s A" "t_curr s 0 \<noteq> -1" "u = turn (t_curr s) t" "q = t_curr s u"
  shows "\<exists>s'. pit_int_handler L stack e regs s = Some (Switch_to (current_esp (pcbs s' q)) (current_ebp (pcbs s' q)), s')
    \<and> procs_ok s' \<and> running s' q u \<and> active_terminal s' = u \<and> user_mapped L q s' \<and> tss_esp0 s' = GET_ESP q \<and> tss_ss0 s' = 0x18 \<and> iflag s'
    \<and> t_curr s' = t_curr s \<and> ram s' = ram s
    \<and> pcbs s' = (pcbs s)(c := (pcbs s c)\<lparr>current_ebp := fst regs, current_esp := snd regs\<rparr>)"
proof -
  let ?s = "send_eoi 0 (cli s)"
  have "procs_ok ?s" "running ?s c t" using assms(2,3) by (simp_all add: procs_ok_cong [of ?s s] running_def live_def)
  moreover have "address_space L ?s A" using assms(4) by (subst address_space_cong [where s = s]) (simp_all add: cli_def)
  moreover have "u = turn (t_curr ?s) t" "q = t_curr ?s u" using assms(6,7) by simp_all
  moreover have "pit_int_handler L stack e regs s = switch_process L e regs ?s"
    using assms(5) by (simp add: pit_int_handler_def Let_def)
  ultimately show ?thesis using switch_process_spec [of ?s c t L A u q e regs] assms(1) by simp
qed

lemma pit_init_effect:
  "last_out 0x40 (io (pit_init s)) = Some 93 \<and> 0 \<in> enabled_lines (pit_init s) \<and> (55 + 256 * 93 :: int) = 1193180 div 50"
  by (simp add: pit_init_def Let_def last_out_append enabled_lines_def enable_irq_def line_bit_def outb_def bit_simps)

section \<open>Properties\<close>

text \<open>
  C9: a timer tick passes the processor on. The next process is the one of the next terminal,
  in cyclic order, that runs a process; the tick saves the stack pointers of the interrupted
  process in its block, leaves with those the next process was interrupted with, maps the next
  process's page, sets its kernel stack and its terminal as the one written to, and keeps the
  process table in order and all other blocks and the memory unchanged.
\<close>

theorem tick_switches_context:
  assumes "layout_ok L" and "procs_ok s" and "running s c t" and "address_space L s A" and "t_curr s 0 \<noteq> -1"
    and "u = turn (t_curr s) t" and "q = t_curr s u"
  shows "\<exists>s'. pit_int_handler L stack e regs s
      = Some (if q = c then Switch_to (snd regs) (fst regs) else Switch_to (current_esp (pcbs s q)) (current_ebp (pcbs s q)), s')
    \<and> procs_ok s' \<and> running s' q u \<and> active_terminal s' = u \<and> user_mapped L q s' \<and> tss_esp0 s' = GET_ESP q \<and> tss_ss0 s' = 0x18 \<and> iflag s'
    \<and> t_curr s' = t_curr s \<and> ram s' = ram s
    \<and> pcbs s' = (pcbs s)(c := (pcbs s c)\<lparr>current_ebp := fst regs, current_esp := snd regs\<rparr>)"
  using pit_switch [OF assms, of stack e regs] by auto

section \<open>Witnesses\<close>

text \<open>Process 0 runs on the first terminal, process 1 waits on the third.\<close>

definition two_terms :: sys_state where
  "two_terms = elf_demo\<lparr>curr := 0, t_curr := (\<lambda>_. -1)(0 := 0, 2 := 1), proc_state := (\<lambda>_. 0)(0 := 1, 1 := 1),
     pcbs := (\<lambda>_. idle_pcb)(1 := idle_pcb\<lparr>pcb_pid := 1, p_pid := 1, pcb_terminal := 2, current_esp := 0x7FEF00, current_ebp := 0x7FEF20\<rparr>)\<rparr>"

lemma two_terms_fields:
  "curr two_terms = 0" "t_curr two_terms = (\<lambda>_. -1)(0 := 0, 2 := 1)" "proc_state two_terms = (\<lambda>_. 0)(0 := 1, 1 := 1)"
  "pcbs two_terms p = (if p = 1 then idle_pcb\<lparr>pcb_pid := 1, p_pid := 1, pcb_terminal := 2, current_esp := 0x7FEF00, current_ebp := 0x7FEF20\<rparr>
     else idle_pcb)"
  by (simp_all add: two_terms_def)

lemma two_terms_ok: "procs_ok two_terms" "running two_terms 0 0" "\<exists>A. address_space boot_layout two_terms A"
proof -
  have live: "live two_terms p \<longleftrightarrow> p = 0 \<or> p = 1" for p by (auto simp: live_def two_terms_fields)
  have p: "pcb_pid idle_pcb = 0" "p_pid idle_pcb = 0" "pcb_terminal idle_pcb = 0" and idle: "all_closed idle_pcb"
    by (simp_all add: all_closed_def idle_pcb_def idle_fd_def)
  have closed: "all_closed (pcbs two_terms q)" for q using idle by (simp add: two_terms_fields all_closed_def)
  show "procs_ok two_terms"
  proof (rule procs_okI)
    fix q assume "live two_terms q"
    then show "pcb_pid (pcbs two_terms q) = q \<and> 0 \<le> pcb_terminal (pcbs two_terms q) \<and> pcb_terminal (pcbs two_terms q) < 3
      \<and> live two_terms (p_pid (pcbs two_terms q)) \<and> pcb_terminal (pcbs two_terms (p_pid (pcbs two_terms q))) = pcb_terminal (pcbs two_terms q)
      \<and> fds_ok (pcbs two_terms q)"
      using all_closed_fds_ok [OF closed [of q]] by (auto simp: live two_terms_fields p)
  qed (auto simp: idle child_def live two_terms_fields p split: if_splits)
  show "running two_terms 0 0" by (simp add: running_def live two_terms_fields p)
  show "\<exists>A. address_space boot_layout two_terms A"
    using elf_demo_space(1) by (simp add: two_terms_def address_space_def)
qed

theorem tick_switches_context_witness:
  "\<exists>s'. pit_int_handler boot_layout (\<lambda>_. 0) 0 (5, 6) two_terms = Some (Switch_to 0x7FEF00 0x7FEF20, s') \<and> running s' 1 2 \<and> current_esp (pcbs s' 0) = 6"
proof -
  obtain A where A: "address_space boot_layout two_terms A" using two_terms_ok(3) by blast
  have "turn (t_curr two_terms) 0 = 2" by (simp add: turn_def two_terms_fields)
  then show ?thesis
    using tick_switches_context [OF elf_demo_space(2) two_terms_ok(1,2) A _ refl refl, of "\<lambda>_. 0" 0 "(5, 6)"]
    by (auto simp: two_terms_fields)
qed

end
