(* ===== verification/Keyboard_Handler.thy ===== *)
theory Keyboard_Handler
  imports Loader
begin

text \<open>
  The keyboard interrupt, \<open>keyboard_handler\<close> of \<open>student-distrib/keyboard.c\<close>. It reads scan codes
  from the controller until none is left; the branches that edit a line are those of the theory
  Keyboard, the ones that switch terminals and start shells are here. The lemmas show which codes
  are handled in which order and what a terminal hot key does.
\<close>

section \<open>Operations\<close>

text \<open>
  How the handling of a scan code ends: the loop goes on, the handler returns, or a shell has
  been entered.
\<close>

datatype key_end =
    Next
  | Return
  | Shell int u32

text \<open>Alt and F2 or F3: \<open>n\<close> is the terminal, \<open>run\<close> its variable \<open>terminal_2_running\<close> or \<open>terminal_3_running\<close>.\<close>

definition open_terminal ::
  "layout \<Rightarrow> memory \<Rightarrow> u32 \<times> u32 \<Rightarrow> nat \<Rightarrow> ('a sys_state_scheme \<Rightarrow> int) \<Rightarrow> ('a sys_state_scheme \<Rightarrow> 'a sys_state_scheme)
   \<Rightarrow> 'a sys_state_scheme \<Rightarrow> (key_end \<times> 'a sys_state_scheme) option" where
  "open_terminal L stack regs n run set_run s =
     (let s = set_disiplay_terminal n s
      in if run s = 0 then
           if get_pid s = -1 then Some (Return, s)
           else
             let s = set_run s
             in do {
               (r, s) \<leftarrow> execute_with_terminal_num L stack regs (lit_mem ''shell'') 1 n s;
               Some (case r of Enter_user pid eip \<Rightarrow> Shell pid eip | _ \<Rightarrow> Next, s) }
         else Some (Next, s))"

definition key_alt ::
  "layout \<Rightarrow> memory \<Rightarrow> u32 \<times> u32 \<Rightarrow> u8 \<Rightarrow> 'a sys_state_scheme \<Rightarrow> (key_end \<times> 'a sys_state_scheme) option" where
  "key_alt L stack regs input s =
     (if input = 59 then Some (Next, set_disiplay_terminal 0 s)
      else if input = 60 then open_terminal L stack regs 1 terminal_2_running (\<lambda>s. s\<lparr>terminal_2_running := 1\<rparr>) s
      else if input = 61 then open_terminal L stack regs 2 terminal_3_running (\<lambda>s. s\<lparr>terminal_3_running := 1\<rparr>) s
      else Some (Next, s))"

text \<open>The body of the loop, for one scan code.\<close>

definition handle_key ::
  "layout \<Rightarrow> memory \<Rightarrow> u32 \<times> u32 \<Rightarrow> u8 \<Rightarrow> 'a sys_state_scheme \<Rightarrow> (key_end \<times> 'a sys_state_scheme) option" where
  "handle_key L stack regs input s =
     (let terminal_id = get_display_terminal s
      in do {
        (k, s) \<leftarrow>
          (if input > 127 then Some (Next, s\<lparr>pressed_key := (pressed_key s)(unat (input - 128) := 0)\<rparr>)
           else
             let s = s\<lparr>pressed_key := (pressed_key s)(unat input := 1)\<rparr>;
                 s = (if input = 58 then s\<lparr>cap_status := 1 - cap_status s\<rparr> else s)
             in if input = 38 \<and> pressed_key s 0x1D = 1 then Some (Next, key_clear terminal_id s)
                else if pressed_key s 56 = 1 then key_alt L stack regs input s
                else if scan_code s (unat input) \<noteq> 0 then do { s \<leftarrow> key_type input terminal_id s; Some (Next, s) }
                else Some (Next, s));
        if k = Next then
          let s = (if input = 0x1C then key_enter terminal_id s else s);
              s = (if input = 0x0E then key_backspace terminal_id s else s)
          in Some (Next, s)
        else Some (k, s) })"

partial_function (option) kbd_loop ::
  "layout \<Rightarrow> device \<Rightarrow> memory \<Rightarrow> u32 \<times> u32 \<Rightarrow> 'a sys_state_scheme \<Rightarrow> (key_end \<times> 'a sys_state_scheme) option" where
  "kbd_loop L dev stack regs s =
     (let (st, s) = inb dev 0x64 s
      in if st AND 1 > 0 then
           let (input, s) = inb dev 0x60 s
           in do {
             (k, s) \<leftarrow> handle_key L stack regs input s;
             if k = Next then kbd_loop L dev stack regs s else Some (k, s) }
         else Some (Next, s))"

definition keyboard_handler ::
  "layout \<Rightarrow> device \<Rightarrow> memory \<Rightarrow> u32 \<times> u32 \<Rightarrow> 'a sys_state_scheme \<Rightarrow> (key_end \<times> 'a sys_state_scheme) option" where
  "keyboard_handler L dev stack regs s =
     (let s = cli s;
          s = send_eoi 1 s
      in do {
        (k, s) \<leftarrow> kbd_loop L dev stack regs s;
        Some (if k = Next then (Return, sti s) else (k, s)) })"

section \<open>The controller\<close>

text \<open>
  The keyboard controller (8042) holds the scan codes that are waiting: bit 0 of the status port
  is set while there is one, and reading the data port takes the next. \<open>taken es\<close> is the number of
  codes read in the history \<open>es\<close>.
\<close>

definition taken :: "io_event list \<Rightarrow> nat" where
  "taken es = length (filter (\<lambda>e. case e of Inb q v \<Rightarrow> q = 0x60 | _ \<Rightarrow> False) es)"

definition kbd_controller :: "u8 list \<Rightarrow> device" where
  "kbd_controller codes es p =
     (if p = 0x64 then if taken es < length codes then 1 else 0
      else if p = 0x60 then if taken es < length codes then codes ! taken es else 0 else 0)"

text \<open>The handler's work on a list of codes, with the port reads that take them.\<close>

definition polled :: "u16 \<Rightarrow> u8 \<Rightarrow> 'a machine_scheme \<Rightarrow> 'a machine_scheme" where
  "polled p v s = s\<lparr>io := io s @ [Inb p v]\<rparr>"

fun key_list ::
  "layout \<Rightarrow> memory \<Rightarrow> u32 \<times> u32 \<Rightarrow> u8 list \<Rightarrow> 'a sys_state_scheme \<Rightarrow> (key_end \<times> 'a sys_state_scheme) option" where
  "key_list L stack regs [] s = Some (Next, polled 0x64 0 s)"
| "key_list L stack regs (c # cs) s =
     do { (k, s) \<leftarrow> handle_key L stack regs c (polled 0x60 c (polled 0x64 1 s));
          if k = Next then key_list L stack regs cs s else Some (k, s) }"

section \<open>No branch reads the controller\<close>

lemma taken_simps [simp]:
  "taken [] = 0" "taken (es @ fs) = taken es + taken fs"
  "taken (Outb v p # es) = taken es" "taken (Inb p v # es) = (if p = 0x60 then Suc (taken es) else taken es)"
  by (simp_all add: taken_def)

lemma io_scroll [simp]: "io (shift_up_display s) = io s" "io (shift_up s) = io s" "io (advance t s) = io s"
  by (simp_all add: shift_up_display_def shift_up_def advance_def Let_def)

lemma io_scroll_display [simp]: "io (scroll_display s) = io s"
  by (induction s rule: scroll_display.induct) (subst scroll_display.simps, simp)

lemma taken_update_cursor [simp]: "taken (io (update_cursor x y s)) = taken (io s)"
  by (simp add: update_cursor_def Let_def)

lemma taken_screen [simp]:
  "taken (io (putc_scroll_display c s)) = taken (io s)" "taken (io (delete_c s)) = taken (io s)" "taken (io (clear s)) = taken (io s)"
  by (simp_all add: putc_scroll_display_def delete_c_def clear_def Let_def)

lemma taken_fold [simp]: "taken (io (fold putc_scroll_display cs s)) = taken (io s)"
  by (induction cs arbitrary: s) simp_all

lemma taken_keys [simp]:
  "taken (io (key_clear t s)) = taken (io s)" "taken (io (key_enter t s)) = taken (io s)" "taken (io (key_backspace t s)) = taken (io s)"
  "key_type c t s = Some s' \<Longrightarrow> taken (io s') = taken (io s)"
  by (auto simp: key_clear_def key_enter_def key_backspace_def key_type_def Let_def bind_eq_Some_conv split: if_splits)

lemma taken_display [simp]: "taken (io (set_disiplay_terminal t s)) = taken (io s)"
  by (simp add: set_disiplay_terminal_def set_active_terminal_def set_active_terminal_paging_def set_pte_def flush_tlb_def load_cr3_def Let_def)

lemma execute_failed:
  assumes "execute_with_terminal_num L stack regs m command t s = Some (Returned v, s')" "get_pid s \<noteq> -1"
  shows "v = -1 \<and> io s' = io s"
  using assms(1) by (cases rule: execute_shape) (use assms(2) in simp_all)

lemma execute_outcome:
  "execute_with_terminal_num L stack regs m command t s = Some (r, s') \<Longrightarrow> (\<exists>v. r = Returned v) \<or> (\<exists>pid eip. r = Enter_user pid eip)"
  by (erule execute_cases) auto

lemma taken_alt: "key_alt L stack regs c s = Some (Next, s') \<Longrightarrow> taken (io s') = taken (io s)"
proof -
  have op: "taken (io s') = taken (io s)"
    if "open_terminal L stack regs n run set_run s = Some (Next, s')" "\<And>s. io (set_run s) = io s" "\<And>s. get_pid (set_run s) = get_pid s"
    for n run set_run and s s' :: "'a sys_state_scheme"
    using that execute_failed [of L stack regs "lit_mem ''shell''" 1 n "set_run (set_disiplay_terminal n s)"]
      execute_outcome [of L stack regs "lit_mem ''shell''" 1 n "set_run (set_disiplay_terminal n s)"]
    by (auto simp: open_terminal_def Let_def bind_eq_Some_conv split: if_splits outcome.splits) (metis outcome.exhaust)
  assume "key_alt L stack regs c s = Some (Next, s')"
  then show ?thesis
    using op [of 1 terminal_2_running "\<lambda>s. s\<lparr>terminal_2_running := 1\<rparr>" s s'] op [of 2 terminal_3_running "\<lambda>s. s\<lparr>terminal_3_running := 1\<rparr>" s s']
    by (auto simp: key_alt_def get_pid_def split: if_splits)
qed

lemma taken_handle_key: "handle_key L stack regs c s = Some (Next, s') \<Longrightarrow> taken (io s') = taken (io s)"
  by (auto simp: handle_key_def Let_def bind_eq_Some_conv split: if_splits dest!: taken_alt)

lemma kbd_loop_list:
  assumes "taken (io s) = length past"
  shows "kbd_loop L (kbd_controller (past @ codes)) stack regs s = key_list L stack regs codes s"
  using assms
proof (induction codes arbitrary: past s)
  case Nil
  then show ?case by (subst kbd_loop.simps) (simp add: inb_def kbd_controller_def polled_def)
next
  case (Cons c cs)
  let ?s = "polled 0x60 c (polled 0x64 1 s)"
  have t: "taken (io ?s) = length (past @ [c])" using Cons.prems by (simp add: polled_def)
  have one: "kbd_loop L (kbd_controller (past @ c # cs)) stack regs s =
      do { (k, s) \<leftarrow> handle_key L stack regs c ?s; if k = Next then kbd_loop L (kbd_controller (past @ c # cs)) stack regs s else Some (k, s) }"
    using Cons.prems by (subst kbd_loop.simps) (simp add: inb_def kbd_controller_def polled_def Let_def)
  show ?case
  proof (cases "handle_key L stack regs c ?s")
    case None
    then show ?thesis by (simp add: one)
  next
    case (Some ks)
    obtain k s' where ks: "ks = (k, s')" by (cases ks)
    have "kbd_loop L (kbd_controller (past @ c # cs)) stack regs s' = key_list L stack regs cs s'" if "k = Next"
      using Cons.IH [of s' "past @ [c]"] taken_handle_key [of L stack regs c ?s s'] Some ks that t by simp
    then show ?thesis using Some ks by (simp add: one)
  qed
qed

section \<open>Typing\<close>

text \<open>No modifier key but Caps Lock is held.\<close>

definition typing :: "nat \<Rightarrow> 'a kbd_state_scheme \<Rightarrow> bool" where
  "typing t s \<longleftrightarrow> keyboard_ready s \<and> kbd_ok s \<and> t < 3 \<and> display_terminal s = t \<and> cap_status s \<in> {0, 1}
     \<and> (\<forall>k\<in>{42, 54, 0x1D, 56}. pressed_key s k \<noteq> 1)"

text \<open>The character of a letter key.\<close>

definition letter_char :: "int \<Rightarrow> u8 \<Rightarrow> u8" where
  "letter_char cap k = (let c = assign_all scan_code_entries (unat k) in if cap = 1 then c - 32 else c)"

lemma typing_more:
  assumes "screen_state.more s' = screen_state.more s"
  shows "keyboard_ready s' = keyboard_ready s \<and> pressed_key s' = pressed_key s \<and> cap_status s' = cap_status s"
  using assms by (cases s, cases s') (simp add: keyboard_ready_def)

lemma typing_putc [simp]:
  "keyboard_ready (putc_scroll_display c s) = keyboard_ready s" "pressed_key (putc_scroll_display c s) = pressed_key s"
  "cap_status (putc_scroll_display c s) = cap_status s"
  using typing_more [of "putc_scroll_display c s" s] by simp_all

text \<open>What handling a key of a line leaves alone: the terminal written to and the page tables.\<close>

definition kept :: "'a kbd_state_scheme \<Rightarrow> 'a kbd_state_scheme \<Rightarrow> bool" where
  "kept s s' \<longleftrightarrow> active_terminal s' = active_terminal s \<and> page_directory s' = page_directory s \<and> page_table s' = page_table s
     \<and> vidMem_table s' = vidMem_table s"

lemma kept_refl [simp]: "kept s s"
  by (simp add: kept_def)

lemma kept_trans: "kept s t \<Longrightarrow> kept t u \<Longrightarrow> kept s u"
  by (simp add: kept_def)

lemma kept_more:
  assumes "screen_state.more s' = screen_state.more s"
  shows "page_directory s' = page_directory s \<and> page_table s' = page_table s \<and> vidMem_table s' = vidMem_table s
    \<and> terminal_read_ready s' = terminal_read_ready s \<and> print_buffer s' = print_buffer s"
  using assms by (cases s, cases s') simp

lemma kept_putc: "kept s (putc_scroll_display c s)"
  using kept_more [of "putc_scroll_display c s" s] by (simp add: kept_def)


lemma print_putc [simp]:
  "terminal_read_ready (putc_scroll_display c s) = terminal_read_ready s" "print_buffer (putc_scroll_display c s) = print_buffer s"
  using kept_more [of "putc_scroll_display c s" s] by simp_all

text \<open>
  What typing a line comes to: the line so far, and the last line handed over, if Enter has been
  pressed. A code above 127 is the release of a key.
\<close>

definition typed_key :: "int \<Rightarrow> u8 \<Rightarrow> u8 list \<times> u8 list option \<Rightarrow> u8 list \<times> u8 list option" where
  "typed_key cap c e =
     (if c > 127 then e
      else if c = 0x1C then ([], Some (line_add 10 (fst e)))
      else (line_add (letter_char cap c) (fst e), snd e))"

text \<open>\<open>r\<close> says whether a line is ready as long as Enter has not been pressed.\<close>

definition shows_line :: "nat \<Rightarrow> int \<Rightarrow> 'a kbd_state_scheme \<Rightarrow> u8 list \<times> u8 list option \<Rightarrow> bool" where
  "shows_line t r s e \<longleftrightarrow> line_of s t = fst e
     \<and> (case snd e of None \<Rightarrow> terminal_read_ready s t = r
        | Some l \<Rightarrow> terminal_read_ready s t = 1 \<and> handed_over s t = l @ replicate (129 - length l) 0)"

definition line_code :: "u8 \<Rightarrow> bool" where
  "line_code c \<longleftrightarrow> c \<in> set letter_keys \<or> c > 127"

lemma shows_line_cong:
  "line_of s' t = line_of s t \<Longrightarrow> terminal_read_ready s' = terminal_read_ready s \<Longrightarrow> print_buffer s' = print_buffer s
    \<Longrightarrow> shows_line t r s' e = shows_line t r s e"
  by (cases "snd e") (simp_all add: shows_line_def handed_over_def)

lemma key_type_typing:
  assumes "typing t s" "char_match k s = Some c"
  shows "\<exists>s'. key_type k t s = Some s' \<and> typing t s' \<and> line_of s' t = line_add c (line_of s t) \<and> cap_status s' = cap_status s
    \<and> kept s s' \<and> terminal_read_ready s' = terminal_read_ready s \<and> print_buffer s' = print_buffer s"
proof -
  obtain s' where s': "key_type k t s = Some s'" "kbd_ok s'" "line_of s' t = line_add c (line_of s t)"
    using key_type_line [of s t k c] assms by (auto simp: typing_def)
  have "keyboard_ready s' = keyboard_ready s \<and> pressed_key s' = pressed_key s \<and> cap_status s' = cap_status s \<and> display_terminal s' = display_terminal s
      \<and> terminal_read_ready s' = terminal_read_ready s \<and> print_buffer s' = print_buffer s"
    using s'(1) by (auto simp: key_type_def bind_eq_Some_conv keyboard_ready_def [of "s\<lparr>cursor_ind := _, keyboard_buffer := _\<rparr>"] Let_def split: if_splits)
      (auto simp: keyboard_ready_def)
  moreover have "kept s s'"
  proof -
    have "s' = s \<or> (\<exists>c. s' = putc_scroll_display c s)
        \<or> (\<exists>c f g. s' = putc_scroll_display c (s\<lparr>keyboard_buffer := f, cursor_ind := g\<rparr>))"
      using s'(1) by (fastforce simp: key_type_def bind_eq_Some_conv Let_def split: if_splits)
    moreover have "kept s (s\<lparr>keyboard_buffer := f, cursor_ind := g\<rparr>)" for f g by (simp add: kept_def)
    ultimately show ?thesis using kept_putc kept_trans by (metis kept_refl)
  qed
  ultimately show ?thesis using s' assms(1) by (auto simp: typing_def)
qed

lemma letter_codes:
  "\<forall>k\<in>set letter_keys. k \<le> 127 \<and> k \<noteq> 58 \<and> unat k \<notin> {42, 54, 0x1D, 56} \<and> k \<noteq> 0x1C \<and> k \<noteq> 0x0E \<and> assign_all scan_code_entries (unat k) \<noteq> 0"
  by code_simp


lemma typing_pressed:
  assumes "typing t s" "unat k \<notin> {42, 54, 0x1D, 56}"
  shows "typing t (s\<lparr>pressed_key := (pressed_key s)(unat k := v)\<rparr>)"
  using assms by (auto simp: typing_def keyboard_ready_def kbd_ok_def)

lemma handle_letter:
  assumes "typing t s" "k \<in> set letter_keys" "shows_line t r s e"
  shows "\<exists>s'. handle_key L stack regs k s = Some (Next, s') \<and> typing t s' \<and> cap_status s' = cap_status s \<and> kept s s'
    \<and> shows_line t r s' (line_add (letter_char (cap_status s) k) (fst e), snd e)"
proof -
  let ?s = "s\<lparr>pressed_key := (pressed_key s)(unat k := 1)\<rparr>"
  have k: "k \<le> 127" "k \<noteq> 58" "unat k \<notin> {42, 54, 0x1D, 56}" "k \<noteq> 0x1C" "k \<noteq> 0x0E" "scan_code s (unat k) \<noteq> 0"
    using letter_codes assms by (auto simp: typing_def keyboard_ready_def)
  have t: "typing t ?s" "line_of ?s t = line_of s t"
    using typing_pressed [OF assms(1) k(3)] by (simp_all add: line_of_def)
  have nosh: "\<not> shift_held ?s" using t(1) by (auto simp: typing_def shift_held_def)
  have "scan_code s (unat k) \<ge> 97 \<and> scan_code s (unat k) \<le> 122 \<and> unat k < 80 \<and> shift_convert s (unat k) = scan_code s (unat k) - 32"
    using assms letter_table by (auto simp: typing_def keyboard_ready_def Let_def)
  then have "char_match k ?s = Some (letter_char (cap_status s) k)"
    using k nosh assms(1) by (auto simp: char_match_def shift_lookup_def letter_char_def typing_def keyboard_ready_def Let_def)
  from key_type_typing [OF t(1) this] obtain s' where s': "key_type k t ?s = Some s'" "typing t s'"
      "line_of s' t = line_add (letter_char (cap_status s) k) (line_of s t)" "cap_status s' = cap_status s"
      "kept ?s s'" "terminal_read_ready s' = terminal_read_ready s" "print_buffer s' = print_buffer s"
    using t(2) by auto
  have "kept s s'" using s'(5) by (simp add: kept_def)
  moreover have "shows_line t r s' (line_add (letter_char (cap_status s) k) (fst e), snd e)"
    using assms(3) s'(3,6,7) by (cases "snd e") (simp_all add: shows_line_def handed_over_def)
  moreover have "pressed_key ?s 0x1D \<noteq> 1" "pressed_key ?s 56 \<noteq> 1" "display_terminal s = t"
    using t(1) assms(1) by (auto simp: typing_def)
  ultimately show ?thesis
    using k s'(1,2,4) by (auto simp: handle_key_def Let_def get_display_terminal_def linorder_not_less)
qed

lemma handle_release:
  assumes "typing t s" "k > 127"
  shows "\<exists>s'. handle_key L stack regs k s = Some (Next, s') \<and> typing t s' \<and> cap_status s' = cap_status s \<and> kept s s'
    \<and> shows_line t r s' e = shows_line t r s e"
proof -
  let ?s = "s\<lparr>pressed_key := (pressed_key s)(unat (k - 128) := 0)\<rparr>"
  have "k \<noteq> 0x1C" "k \<noteq> 0x0E" using assms(2) by auto
  then have "handle_key L stack regs k s = Some (Next, ?s)" using assms(2) by (simp add: handle_key_def Let_def)
  moreover have "typing t ?s" using assms(1) by (auto simp: typing_def keyboard_ready_def kbd_ok_def)
  moreover have "shows_line t r ?s e = shows_line t r s e" by (rule shows_line_cong) (simp_all add: line_of_def)
  ultimately show ?thesis by (intro exI [of _ ?s]) (simp add: kept_def)
qed

lemma typing_enter: "typing t s \<Longrightarrow> typing t (key_enter t s) \<and> cap_status (key_enter t s) = cap_status s \<and> kept s (key_enter t s)"
  using key_enter_line(1) [of s t] by (auto simp: typing_def keyboard_ready_def key_enter_def kept_def Let_def)

lemma handle_enter:
  assumes "typing t s" "shows_line t r s e"
  shows "\<exists>s'. handle_key L stack regs 0x1C s = Some (Next, s') \<and> typing t s' \<and> cap_status s' = cap_status s \<and> kept s s'
    \<and> shows_line t r s' ([], Some (line_add 10 (fst e)))"
proof -
  let ?s = "s\<lparr>pressed_key := (pressed_key s)(28 := 1)\<rparr>"
  have e: "assign_all scan_code_entries 28 = 10" by code_simp
  have t: "typing t ?s" "line_of ?s t = line_of s t"
    using typing_pressed [OF assms(1), of "28 :: u8"] by (simp_all add: line_of_def)
  have "char_match 0x1C ?s = Some 10"
    using t(1) assms(1) e by (auto simp: char_match_def shift_held_def typing_def keyboard_ready_def)
  from key_type_typing [OF t(1) this] obtain s' where s': "key_type 0x1C t ?s = Some s'" "typing t s'" "line_of s' t = line_add 10 (line_of s t)"
      "cap_status s' = cap_status s" "kept ?s s'"
    using t(2) by auto
  have ok: "kbd_ok s'" "t < 3" using s'(2) by (simp_all add: typing_def)
  have "kept s (key_enter t s')" using s'(5) typing_enter [OF s'(2)] by (simp add: kept_def)
  moreover have "shows_line t r (key_enter t s') ([], Some (line_add 10 (fst e)))"
    using key_enter_line [OF ok] s'(3) assms(2) by (simp add: shows_line_def)
  moreover have "pressed_key ?s 0x1D \<noteq> 1" "pressed_key ?s 56 \<noteq> 1" "display_terminal s = t" "scan_code s 28 = 10"
    using t(1) assms(1) e by (auto simp: typing_def keyboard_ready_def)
  ultimately show ?thesis
    using s'(1,4) typing_enter [OF s'(2)] by (auto simp: handle_key_def Let_def get_display_terminal_def)
qed

lemma handle_typed:
  assumes "typing t s" "line_code c \<or> c = 0x1C" "shows_line t r s e"
  shows "\<exists>s'. handle_key L stack regs c s = Some (Next, s') \<and> typing t s' \<and> cap_status s' = cap_status s \<and> kept s s'
    \<and> shows_line t r s' (typed_key (cap_status s) c e)"
proof -
  consider "c > 127" | "c \<in> set letter_keys" "c \<le> 127" "c \<noteq> 0x1C" | "c = 0x1C"
    using assms(2) letter_codes by (auto simp: line_code_def)
  then show ?thesis
  proof cases
    case 1
    then show ?thesis using handle_release [OF assms(1) 1, of L stack regs r e] assms(3) by (auto simp: typed_key_def)
  next
    case 2
    then have "typed_key (cap_status s) c e = (line_add (letter_char (cap_status s) c) (fst e), snd e)" by (auto simp: typed_key_def)
    then show ?thesis using handle_letter [OF assms(1) 2(1) assms(3)] by simp
  next
    case 3
    then show ?thesis using handle_enter [OF assms(1,3)] by (simp add: typed_key_def)
  qed
qed

lemma typing_polled [simp]: "typing t (polled p v s) = typing t s" "line_of (polled p v s) = line_of s" "cap_status (polled p v s) = cap_status s"
    "kept (polled p v s) s' = kept s s'" "kept s' (polled p v s) = kept s' s"
  by (simp_all add: typing_def polled_def keyboard_ready_def kbd_ok_def line_of_def [abs_def] kept_def)

lemma shows_line_frame [simp]:
  "shows_line t r (polled p v s) e = shows_line t r s e" "shows_line t r (sti s) e = shows_line t r s e"
  "shows_line t r (send_eoi i (cli s)) e = shows_line t r s e"
  by (rule shows_line_cong; simp add: line_of_def polled_def sti_def cli_def send_eoi_def outb_def Let_def)+

lemma key_list_typed:
  assumes "typing t s" "\<forall>c\<in>set codes. line_code c \<or> c = 0x1C" "shows_line t r s e"
  shows "\<exists>s'. key_list L stack regs codes s = Some (Next, s') \<and> typing t s' \<and> cap_status s' = cap_status s \<and> kept s s'
    \<and> shows_line t r s' (fold (typed_key (cap_status s)) codes e) \<and> taken (io s') = taken (io s) + length codes"
  using assms
proof (induction codes arbitrary: s e)
  case Nil
  have "taken (io (polled 0x64 0 s)) = taken (io s)" by (simp add: polled_def)
  then show ?case using Nil by simp
next
  case (Cons c cs)
  let ?s = "polled 0x60 c (polled 0x64 1 s)"
  obtain s1 where s1: "handle_key L stack regs c ?s = Some (Next, s1)" "typing t s1" "cap_status s1 = cap_status s" "kept s s1"
      "shows_line t r s1 (typed_key (cap_status s) c e)"
    using handle_typed [of t ?s c r e L stack regs] Cons.prems by auto
  have t: "taken (io s1) = Suc (taken (io s))" using taken_handle_key [OF s1(1)] by (simp add: polled_def)
  obtain s2 where "key_list L stack regs cs s1 = Some (Next, s2)" "typing t s2" "cap_status s2 = cap_status s1" "kept s1 s2"
      "shows_line t r s2 (fold (typed_key (cap_status s1)) cs (typed_key (cap_status s) c e))" "taken (io s2) = taken (io s1) + length cs"
    using Cons.IH [OF s1(2) _ s1(5)] Cons.prems(2) by auto
  then show ?case using s1(1,3) t kept_trans [OF s1(4)] by (intro exI [of _ s2]) simp
qed

text \<open>
  A run of keyboard interrupts: at each of them the codes of the next burst wait in the
  controller, those of the bursts before have been read. The run goes on while the handler returns.
\<close>

fun kbd_interrupts ::
  "layout \<Rightarrow> memory \<Rightarrow> u32 \<times> u32 \<Rightarrow> u8 list \<Rightarrow> u8 list list \<Rightarrow> 'a sys_state_scheme \<Rightarrow> 'a sys_state_scheme option" where
  "kbd_interrupts L stack regs past [] s = Some s"
| "kbd_interrupts L stack regs past (b # bs) s =
     do { (k, s) \<leftarrow> keyboard_handler L (kbd_controller (past @ b)) stack regs s;
          if k = Return then kbd_interrupts L stack regs (past @ b) bs s else None }"

lemma handler_list:
  assumes "taken (io s) = length past"
  shows "keyboard_handler L (kbd_controller (past @ codes)) stack regs s =
    do { (k, s) \<leftarrow> key_list L stack regs codes (send_eoi 1 (cli s));
         Some (if k = Next then (Return, sti s) else (k, s)) }"
  using kbd_loop_list [of "send_eoi 1 (cli s)" past L codes stack regs] assms
  by (simp add: keyboard_handler_def Let_def send_eoi_def)

lemma typing_eoi [simp]:
  "typing t (send_eoi i (cli s)) = typing t s" "cap_status (send_eoi i (cli s)) = cap_status s"
  "kept (send_eoi i (cli s)) s' = kept s s'"
  "taken (io (send_eoi i (cli s))) = taken (io s)"
  by (simp_all add: typing_def keyboard_ready_def kbd_ok_def kept_def send_eoi_def cli_def outb_def Let_def)

lemma typing_sti [simp]:
  "typing t (sti s) = typing t s" "cap_status (sti s) = cap_status s" "kept s' (sti s) = kept s' s" "kept (sti s) s' = kept s s'"
  "io (sti s) = io s"
  by (simp_all add: typing_def keyboard_ready_def kbd_ok_def kept_def sti_def)

lemma burst_typed:
  assumes "typing t s" "\<forall>c\<in>set codes. line_code c \<or> c = 0x1C" "shows_line t r s e" "taken (io s) = length past"
  shows "\<exists>s'. keyboard_handler L (kbd_controller (past @ codes)) stack regs s = Some (Return, s') \<and> typing t s' \<and> cap_status s' = cap_status s
    \<and> kept s s' \<and> shows_line t r s' (fold (typed_key (cap_status s)) codes e) \<and> taken (io s') = length (past @ codes) \<and> iflag s'"
proof -
  obtain s1 where "key_list L stack regs codes (send_eoi 1 (cli s)) = Some (Next, s1)" "typing t s1" "cap_status s1 = cap_status s" "kept s s1"
      "shows_line t r s1 (fold (typed_key (cap_status s)) codes e)" "taken (io s1) = taken (io s) + length codes"
    using key_list_typed [of t "send_eoi 1 (cli s)" codes r e L stack regs] assms(1-3) by auto
  moreover have "iflag (sti s1)" by (simp add: sti_def)
  ultimately show ?thesis using assms(4) by (intro exI [of _ "sti s1"]) (simp add: handler_list)
qed

lemma interrupts_typed:
  assumes "typing t s" "\<forall>c\<in>set (concat bs). line_code c \<or> c = 0x1C" "shows_line t r s e" "taken (io s) = length past"
  shows "\<exists>s'. kbd_interrupts L stack regs past bs s = Some s' \<and> typing t s' \<and> cap_status s' = cap_status s \<and> kept s s'
    \<and> shows_line t r s' (fold (typed_key (cap_status s)) (concat bs) e) \<and> taken (io s') = length (past @ concat bs) \<and> (bs = [] \<or> iflag s')"
  using assms
proof (induction bs arbitrary: s e past)
  case (Cons b bs)
  obtain s1 where s1: "keyboard_handler L (kbd_controller (past @ b)) stack regs s = Some (Return, s1)" "typing t s1" "cap_status s1 = cap_status s"
      "kept s s1" "shows_line t r s1 (fold (typed_key (cap_status s)) b e)" "taken (io s1) = length (past @ b)" "iflag s1"
    using burst_typed [OF Cons.prems(1) _ Cons.prems(3,4), of b L stack regs] Cons.prems(2) by auto
  show ?case
  proof (cases "bs = []")
    case False
    then show ?thesis using Cons.IH [OF s1(2) _ s1(5,6)] Cons.prems(2) s1(1,3,4) kept_trans [OF s1(4)] by fastforce
  qed (use s1 in simp)
qed auto

text \<open>Letters, up to 127 on a line, then Enter, then releases of keys.\<close>

definition letters_of :: "int \<Rightarrow> u8 list \<Rightarrow> u8 list" where
  "letters_of cap codes = map (letter_char cap) (filter (\<lambda>c. c \<le> 127) codes)"

lemma fold_letters:
  assumes "\<forall>c\<in>set codes. line_code c" "length l + length (filter (\<lambda>c. c \<le> 127) codes) \<le> 128"
  shows "fold (typed_key cap) codes (l, h) = (l @ letters_of cap codes, h)"
  using assms
proof (induction codes arbitrary: l)
  case (Cons c cs)
  have "c \<le> 127 \<Longrightarrow> c \<noteq> 0x1C" using Cons.prems(1) letter_codes by (auto simp: line_code_def)
  then show ?case
    using Cons by (cases "c > 127") (auto simp: typed_key_def letters_of_def line_add_def linorder_not_less)
qed (simp add: letters_of_def)

lemma fold_releases: "\<forall>c\<in>set rel. c > 127 \<Longrightarrow> fold (typed_key cap) rel e = e"
  by (induction rel) (auto simp: typed_key_def)

lemma fold_line:
  assumes "\<forall>c\<in>set codes. line_code c" "length l + length (filter (\<lambda>c. c \<le> 127) codes) \<le> 127" "\<forall>c\<in>set rel. c > 127"
  shows "fold (typed_key cap) (codes @ 0x1C # rel) (l, h) = ([], Some (l @ letters_of cap codes @ [10]))"
proof -
  have "length (letters_of cap codes) = length (filter (\<lambda>c. c \<le> 127) codes)" by (simp add: letters_of_def)
  then have "line_add 10 (l @ letters_of cap codes) = l @ letters_of cap codes @ [10]" using assms(2) by (simp add: line_add_def)
  then show ?thesis using assms by (simp add: fold_letters typed_key_def [of _ "0x1C"] fold_releases)
qed

section \<open>A reader that waits\<close>




section \<open>Processes\<close>

text \<open>A terminal whose shell has not been started runs nothing.\<close>

definition hot_ok :: "'a sys_state_scheme \<Rightarrow> bool" where
  "hot_ok s \<longleftrightarrow> (terminal_2_running s = 0 \<longrightarrow> t_curr s 1 = -1) \<and> (terminal_3_running s = 0 \<longrightarrow> t_curr s 2 = -1)"

text \<open>What of the state the process table and the hot keys depend on.\<close>

definition proc_view :: "'a sys_state_scheme \<Rightarrow> (int \<Rightarrow> pcb) \<times> (nat \<Rightarrow> int) \<times> (nat \<Rightarrow> int) \<times> int \<times> int \<times> int" where
  "proc_view s = (pcbs s, proc_state s, t_curr s, curr s, terminal_2_running s, terminal_3_running s)"

lemma proc_view_ok:
  assumes "proc_view s' = proc_view s"
  shows "procs_ok s' = procs_ok s" "hot_ok s' = hot_ok s" "get_pid s' = get_pid s" "live s' p = live s p"
proof -
  have e: "pcbs s' = pcbs s" "proc_state s' = proc_state s" "t_curr s' = t_curr s"
      "terminal_2_running s' = terminal_2_running s" "terminal_3_running s' = terminal_3_running s"
    using assms by (simp_all add: proc_view_def)
  show "procs_ok s' = procs_ok s" by (rule procs_ok_cong) (simp_all add: e)
  show "hot_ok s' = hot_ok s" "get_pid s' = get_pid s" "live s' p = live s p"
    by (simp_all add: hot_ok_def get_pid_def live_def e)
qed

lemma proc_view_screen:
  assumes "screen_state.more s' = screen_state.more s"
  shows "proc_view s' = proc_view s"
  using assms by (cases s, cases s') (simp add: proc_view_def)

lemma proc_view_updates [simp]:
  "proc_view (s\<lparr>pressed_key := a\<rparr>) = proc_view s" "proc_view (s\<lparr>cap_status := b\<rparr>) = proc_view s"
  "proc_view (s\<lparr>keyboard_buffer := c\<rparr>) = proc_view s" "proc_view (s\<lparr>cursor_ind := d\<rparr>) = proc_view s"
  "proc_view (s\<lparr>print_buffer := e\<rparr>) = proc_view s" "proc_view (s\<lparr>terminal_read_ready := f\<rparr>) = proc_view s"
  "proc_view (s\<lparr>ram := m\<rparr>) = proc_view s" "proc_view (s\<lparr>display_terminal := t\<rparr>) = proc_view s"
  by (simp_all add: proc_view_def)

lemma proc_view_ops [simp]:
  "proc_view (putc_scroll_display c s) = proc_view s" "proc_view (delete_c s) = proc_view s" "proc_view (clear s) = proc_view s"
  "proc_view (fold putc_scroll_display cs s) = proc_view s" "proc_view (update_cursor x y s) = proc_view s"
  by (rule proc_view_screen, simp add: update_cursor_def Let_def outb_def)+

lemma proc_view_set_active [simp]: "proc_view (set_active_terminal t s) = proc_view s"
  by (simp add: proc_view_def set_active_terminal_def set_active_terminal_paging_def set_pte_def flush_tlb_def load_cr3_def Let_def)

lemma proc_view_display [simp]: "proc_view (set_disiplay_terminal t s) = proc_view s"
  by (simp add: set_disiplay_terminal_def Let_def)

lemma proc_view_keys [simp]:
  "proc_view (key_clear t s) = proc_view s" "proc_view (key_enter t s) = proc_view s" "proc_view (key_backspace t s) = proc_view s"
  "key_type c t s = Some s' \<Longrightarrow> proc_view s' = proc_view s"
  by (auto simp: key_clear_def key_enter_def key_backspace_def key_type_def Let_def bind_eq_Some_conv split: if_splits)

text \<open>Starting a process does not touch the keyboard's variables or the displayed terminal.\<close>

definition kbd_view :: "'a kbd_state_scheme \<Rightarrow> int \<times> int \<times> nat" where
  "kbd_view s = (terminal_2_running s, terminal_3_running s, display_terminal s)"

lemma kbd_view_updates [simp]:
  "kbd_view (set_pcb p f s) = kbd_view s" "kbd_view (pid_page_map p s) = kbd_view s" "kbd_view (set_active_terminal t s) = kbd_view s"
  "kbd_view (pcb_init p t s) = kbd_view s" "kbd_view (enter_process p s) = kbd_view s" "kbd_view (s\<lparr>ram := m\<rparr>) = kbd_view s"
proof -
  show p: "kbd_view (set_pcb p f s) = kbd_view s" for p f and s :: "'a sys_state_scheme" by (simp add: kbd_view_def set_pcb_def)
  show "kbd_view (pid_page_map p s) = kbd_view s" "kbd_view (set_active_terminal t s) = kbd_view s" "kbd_view (s\<lparr>ram := m\<rparr>) = kbd_view s"
    by (simp_all add: kbd_view_def pid_page_map_def set_active_terminal_def set_active_terminal_paging_def set_pte_def set_pde_def
        flush_tlb_def load_cr3_def Let_def)
  show "kbd_view (pcb_init p t s) = kbd_view s"
    by (simp add: kbd_view_def pcb_init_def fold_set_pcb set_pcb_def Let_def del: upt_rec_numeral)
  show "kbd_view (enter_process p s) = kbd_view s"
    by (simp add: kbd_view_def enter_process_def set_pcb_def sti_def Let_def)
qed

lemma kbd_view_new_process [simp]: "kbd_view (new_process regs p t s) = kbd_view s"
  unfolding new_process_def Let_def kbd_view_updates by (simp add: kbd_view_def)

lemma execute_kbd_view:
  assumes "execute_with_terminal_num L stack regs m command t s = Some (r, s')" "get_pid s \<noteq> -1"
  shows "kbd_view s' = kbd_view s"
  using assms(1) by (cases rule: execute_shape) (use assms(2) in simp_all, simp_all add: kbd_view_def cli_def)

lemma hot_key_processes:
  fixes s s' :: "'a sys_state_scheme" and run :: "'a sys_state_scheme \<Rightarrow> int"
  assumes "procs_ok s" "hot_ok s" and "n < 3" "run s = 0 \<longrightarrow> t_curr s n = -1"
    and run: "\<And>s'. proc_view s' = proc_view s \<Longrightarrow> run s' = run s"
    and set_run: "\<And>s :: 'a sys_state_scheme. pcbs (set_run s) = pcbs s \<and> proc_state (set_run s) = proc_state s \<and> t_curr (set_run s) = t_curr s \<and> curr (set_run s) = curr s"
      "\<And>s s' :: 'a sys_state_scheme. hot_ok s \<Longrightarrow> kbd_view s' = kbd_view (set_run s) \<Longrightarrow> (\<And>u. u \<noteq> n \<Longrightarrow> t_curr s' u = t_curr s u) \<Longrightarrow> hot_ok s'"
      "\<And>s :: 'a sys_state_scheme. display_terminal (set_run s) = display_terminal s"
    and "open_terminal L stack regs n run set_run s = Some (k, s')"
  shows "procs_ok s' \<and> hot_ok s' \<and> display_terminal s' = n
    \<and> (case k of Shell pid eip \<Rightarrow> \<not> live s pid \<and> running s' pid n \<and> p_pid (pcbs s' pid) = pid
        | _ \<Rightarrow> pcbs s' = pcbs s \<and> proc_state s' = proc_state s \<and> t_curr s' = t_curr s \<and> curr s' = curr s)"
proof -
  let ?d = "set_disiplay_terminal n s"
  have pv: "proc_view ?d = proc_view s" by simp
  then have d: "pcbs ?d = pcbs s" "proc_state ?d = proc_state s" "t_curr ?d = t_curr s" "curr ?d = curr s" by (simp_all add: proc_view_def)
  note ok = proc_view_ok [OF pv] and rd = run [OF pv]
  show ?thesis
  proof (cases "run s = 0 \<and> get_pid s \<noteq> -1")
    case False
    then have "s' = ?d" "k = (if run s = 0 then Return else Next)" using assms(9) ok(3) rd by (auto simp: open_terminal_def Let_def split: if_splits)
    then show ?thesis using assms(1,2) ok d by simp
  next
    case True
    let ?e = "set_run ?d"
    have pid: "get_pid ?e = get_pid s" using ok(3) set_run(1) [of ?d] by (simp add: get_pid_def)
    obtain r where r: "execute_with_terminal_num L stack regs (lit_mem ''shell'') 1 n ?e = Some (r, s')"
        "k = (case r of Enter_user pid eip \<Rightarrow> Shell pid eip | _ \<Rightarrow> Next)"
      using assms(9) True ok(3) rd by (auto simp: open_terminal_def Let_def bind_eq_Some_conv)
    have e: "pcbs ?e = pcbs s" "proc_state ?e = proc_state s" "t_curr ?e = t_curr s" "curr ?e = curr s" using set_run(1) [of ?d] d by auto
    have "procs_ok ?e" using assms(1) procs_ok_cong [of ?e s] e by simp
    note x = execute_keeps [OF this assms(3) _ r(1)]
    have t: "t_curr ?e n = -1" using True assms(4) e by simp
    have kv: "kbd_view s' = kbd_view ?e" using execute_kbd_view [OF r(1)] pid True by simp
    have dt: "display_terminal s' = n" using kv set_run(3) [of ?d] by (simp add: kbd_view_def)
    show ?thesis
    proof (cases r)
      case (Returned v)
      then have "t_curr s' = t_curr s" using x t e by simp
      then have "hot_ok s'" using set_run(2) [of ?d s'] ok(2) assms(2) kv d by simp
      then show ?thesis using Returned x t e dt r(2) by simp
    next
      case (Enter_user pid eip)
      have "t_curr s' u = t_curr s u" if "u \<noteq> n" for u
        using r(1) by (cases rule: execute_cases) (use that e in \<open>auto simp: Let_def pcb_init_fields\<close>)
      then have "hot_ok s'" using set_run(2) [of ?d s'] ok(2) assms(2) kv d by simp
      moreover have "live ?e = live s" using e by (simp add: live_def fun_eq_iff)
      ultimately show ?thesis using Enter_user x t e dt r(2) by simp
    next
      case (Resume_parent a b c)
      then show ?thesis using x t by simp
    qed
  qed
qed

lemma key_alt_processes:
  assumes "procs_ok s" "hot_ok s" "key_alt L stack regs c s = Some (k, s')"
  shows "procs_ok s' \<and> hot_ok s'
    \<and> (case k of Shell pid eip \<Rightarrow> \<not> live s pid \<and> running s' pid (display_terminal s') \<and> p_pid (pcbs s' pid) = pid
        | _ \<Rightarrow> pcbs s' = pcbs s \<and> proc_state s' = proc_state s \<and> t_curr s' = t_curr s \<and> curr s' = curr s)"
proof -
  consider "c = 60" | "c = 61" | "c \<noteq> 60" "c \<noteq> 61" by blast
  then show ?thesis
  proof cases
    case 1
    with assms(3) have o: "open_terminal L stack regs 1 terminal_2_running (\<lambda>s. s\<lparr>terminal_2_running := 1\<rparr>) s = Some (k, s')"
      by (simp add: key_alt_def)
    have "procs_ok s' \<and> hot_ok s' \<and> display_terminal s' = 1
      \<and> (case k of Shell pid eip \<Rightarrow> \<not> live s pid \<and> running s' pid 1 \<and> p_pid (pcbs s' pid) = pid
          | _ \<Rightarrow> pcbs s' = pcbs s \<and> proc_state s' = proc_state s \<and> t_curr s' = t_curr s \<and> curr s' = curr s)"
      by (rule hot_key_processes [OF assms(1,2) _ _ _ _ _ _ o])
        (use assms(2) in \<open>simp_all add: hot_ok_def proc_view_def kbd_view_def\<close>)
    then show ?thesis by (auto split: key_end.splits)
  next
    case 2
    with assms(3) have o: "open_terminal L stack regs 2 terminal_3_running (\<lambda>s. s\<lparr>terminal_3_running := 1\<rparr>) s = Some (k, s')"
      by (simp add: key_alt_def)
    have "procs_ok s' \<and> hot_ok s' \<and> display_terminal s' = 2
      \<and> (case k of Shell pid eip \<Rightarrow> \<not> live s pid \<and> running s' pid 2 \<and> p_pid (pcbs s' pid) = pid
          | _ \<Rightarrow> pcbs s' = pcbs s \<and> proc_state s' = proc_state s \<and> t_curr s' = t_curr s \<and> curr s' = curr s)"
      by (rule hot_key_processes [OF assms(1,2) _ _ _ _ _ _ o])
        (use assms(2) in \<open>simp_all add: hot_ok_def proc_view_def kbd_view_def\<close>)
    then show ?thesis by (auto split: key_end.splits)
  next
    case 3
    with assms(3) have k: "k = Next" and pv: "proc_view s' = proc_view s" by (auto simp: key_alt_def split: if_splits)
    then have "pcbs s' = pcbs s \<and> proc_state s' = proc_state s \<and> t_curr s' = t_curr s \<and> curr s' = curr s" by (simp add: proc_view_def)
    then show ?thesis using proc_view_ok(1,2) [OF pv] assms(1,2) k by simp
  qed
qed

lemma handle_key_processes:
  assumes "procs_ok s" "hot_ok s" "handle_key L stack regs c s = Some (k, s')"
  shows "procs_ok s' \<and> hot_ok s'
    \<and> (case k of Shell pid eip \<Rightarrow> \<not> live s pid \<and> running s' pid (display_terminal s') \<and> p_pid (pcbs s' pid) = pid
        | _ \<Rightarrow> pcbs s' = pcbs s \<and> proc_state s' = proc_state s \<and> t_curr s' = t_curr s \<and> curr s' = curr s)"
proof -
  define s1 where "s1 = (let s = s\<lparr>pressed_key := (pressed_key s)(unat c := 1)\<rparr> in if c = 58 then s\<lparr>cap_status := 1 - cap_status s\<rparr> else s)"
  have pv: "proc_view s1 = proc_view s" by (simp add: s1_def Let_def)
  consider (alt) s2 where "key_alt L stack regs c s1 = Some (k, s2)" "s' = s2 \<or> proc_view s' = proc_view s2 \<and> k = Next"
    | (other) "k = Next" "proc_view s' = proc_view s"
    using assms(3) pv
    by (auto simp: handle_key_def Let_def s1_def [unfolded Let_def, symmetric] bind_eq_Some_conv split: if_splits)
  then show ?thesis
  proof cases
    case alt
    note p = proc_view_ok [OF pv]
    have e: "pcbs s1 = pcbs s" "proc_state s1 = proc_state s" "t_curr s1 = t_curr s" "curr s1 = curr s" using pv by (simp_all add: proc_view_def)
    have a: "procs_ok s2 \<and> hot_ok s2
      \<and> (case k of Shell pid eip \<Rightarrow> \<not> live s pid \<and> running s2 pid (display_terminal s2) \<and> p_pid (pcbs s2 pid) = pid
          | _ \<Rightarrow> pcbs s2 = pcbs s \<and> proc_state s2 = proc_state s \<and> t_curr s2 = t_curr s \<and> curr s2 = curr s)"
      using key_alt_processes [OF _ _ alt(1)] p assms(1,2) e by (simp only:)
    from alt(2) show ?thesis
    proof
      assume "proc_view s' = proc_view s2 \<and> k = Next"
      then show ?thesis using a proc_view_ok(1,2) [of s' s2] by (simp add: proc_view_def)
    qed (use a in \<open>simp only:\<close>)
  next
    case other
    then show ?thesis using proc_view_ok(1,2) [OF other(2)] assms(1,2) by (simp add: proc_view_def)
  qed
qed

section \<open>Properties\<close>

text \<open>
  C14: typing a line. Letter keys are pressed and released on the displayed terminal, with or
  without Caps Lock, behind what the line holds already, and then Enter, in any number of keyboard
  interrupts, whatever codes the keyboard has sent before. When the line is at most 127
  characters long, every handler returns, with interrupts enabled after the last, and
  the line, the letters in the case Caps Lock selects, followed by a newline and zeros, is ready for the
  program that reads from this terminal; the line being edited is empty again.
\<close>

theorem typed_letters_form_line:
  assumes "typing t s" and "taken (io s) = length past" and "concat bs = codes @ 0x1C # rel"
    and "\<forall>c\<in>set codes. c \<in> set letter_keys \<or> c > 127" and "\<forall>c\<in>set rel. c > 127"
    and "length (line_of s t) + length (filter (\<lambda>c. c \<le> 127) codes) \<le> 127"
  shows "\<exists>s'. kbd_interrupts L stack regs past bs s = Some s'
    \<and> iflag s' \<and> terminal_read_ready s' t = 1 \<and> line_of s' t = []
    \<and> handed_over s' t = (let l = line_of s t @ letters_of (cap_status s) codes @ [10] in l @ replicate (129 - length l) 0)"
proof -
  let ?e = "(line_of s t, None)" and ?r = "terminal_read_ready s t"
  have codes: "\<forall>c\<in>set codes. line_code c" using assms(4) by (simp add: line_code_def)
  have all: "\<forall>c\<in>set (concat bs). line_code c \<or> c = 0x1C" using codes assms(5) unfolding assms(3) by (auto simp: line_code_def)
  have "shows_line t ?r s ?e" by (simp add: shows_line_def)
  from interrupts_typed [OF assms(1) all this assms(2), of L stack regs] obtain s' where s': "kbd_interrupts L stack regs past bs s = Some s'"
      "shows_line t ?r s' (fold (typed_key (cap_status s)) (concat bs) ?e)" "bs = [] \<or> iflag s'"
    by blast
  have "bs \<noteq> []" using assms(3) by auto
  then show ?thesis using s' fold_line [OF codes assms(6,5), of "cap_status s" None] by (simp add: assms(3) shows_line_def Let_def)
qed


lemma sys_demo_typing: "typing 0 (sys_demo\<lparr>cursor_ind := \<lambda>_. 0, keyboard_buffer := \<lambda>_ _. 0\<rparr>)"
proof -
  have f: "scan_code sys_demo = scan_code kbd_boot" "shift_convert sys_demo = shift_convert kbd_boot" "cap_status sys_demo = cap_status kbd_boot"
      "pressed_key sys_demo = pressed_key kbd_boot" "display_terminal sys_demo = display_terminal kbd_boot"
    by (simp_all add: sys_demo_def fs_demo_def read_filesys_bootblock_def kbd_running_def Let_def kbd_state.defs fs_state.defs sys_state.defs)
  show ?thesis using kbd_boot_fields(1) by (simp add: typing_def keyboard_ready_def kbd_ok_def f)
qed

text \<open>The key q is pressed in one interrupt and released in the next, with which Enter comes.\<close>

lemma sys_demo_keys:
  "taken (io sys_demo) = 0" "cap_status sys_demo = 0" "terminal_read_ready sys_demo = (\<lambda>_. 0)" "active_terminal sys_demo = 0" "letter_char 0 0x10 = 113"
proof -
  have "io sys_demo = io kbd_boot"
    by (simp add: sys_demo_def fs_demo_def read_filesys_bootblock_def kbd_running_def Let_def kbd_state.defs fs_state.defs sys_state.defs)
  then show "taken (io sys_demo) = 0" by (simp add: kbd_boot_def init_keyboard_def init_scan_code_def enable_irq_def Let_def)
  show "cap_status sys_demo = 0" "terminal_read_ready sys_demo = (\<lambda>_. 0)" "active_terminal sys_demo = 0"
    by (simp_all add: sys_demo_def fs_demo_def read_filesys_bootblock_def kbd_running_def Let_def kbd_state.defs fs_state.defs sys_state.defs)
  have "assign_all scan_code_entries 16 = 113" by code_simp
  then show "letter_char 0 0x10 = 113" by (simp add: letter_char_def)
qed

theorem typed_letters_form_line_witness:
  "\<exists>s'. kbd_interrupts boot_layout (\<lambda>_. 0) (0, 0) [] [[0x10], [0x90, 0x1C]] (sys_demo\<lparr>cursor_ind := \<lambda>_. 0, keyboard_buffer := \<lambda>_ _. 0\<rparr>)
     = Some s' \<and> handed_over s' 0 = [113, 10] @ replicate 127 0"
proof -
  let ?s = "sys_demo\<lparr>cursor_ind := \<lambda>_. 0, keyboard_buffer := \<lambda>_ _. 0\<rparr>"
  have t: "taken (io ?s) = length []" "cap_status ?s = 0" "line_of ?s 0 = []" by (simp_all add: sys_demo_keys line_of_def)
  from typed_letters_form_line [OF sys_demo_typing t(1), of "[[0x10], [0x90, 0x1C]]" "[0x10, 0x90]" "[]" boot_layout "\<lambda>_. 0" "(0, 0)"] t(2,3)
  show ?thesis by (auto simp: letter_keys_def letters_of_def sys_demo_keys Let_def)
qed


text \<open>
  No key disturbs the process table. Whatever scan code is handled, the table stays in
  order; the only keys that change it are the terminal hot keys, which start the first shell of a
  terminal that runs nothing, once, with a free process number, as its own parent and as the
  running process of the terminal that is now displayed.
\<close>

theorem keys_keep_processes:
  assumes "procs_ok s" and "hot_ok s" and "handle_key L stack regs c s = Some (k, s')"
  shows "procs_ok s' \<and> hot_ok s'
    \<and> (case k of Shell pid eip \<Rightarrow> \<not> live s pid \<and> running s' pid (display_terminal s') \<and> p_pid (pcbs s' pid) = pid
        | _ \<Rightarrow> pcbs s' = pcbs s \<and> proc_state s' = proc_state s \<and> t_curr s' = t_curr s \<and> curr s' = curr s)"
  using assms by (rule handle_key_processes)

definition alt_held :: sys_state where
  "alt_held = elf_demo\<lparr>pressed_key := (\<lambda>_. 0)(56 := 1)\<rparr>"

lemma alt_held_ok: "procs_ok alt_held" "hot_ok alt_held"
proof -
  have "proc_view alt_held = proc_view elf_demo" by (simp add: alt_held_def)
  then show "procs_ok alt_held" "hot_ok alt_held"
    using elf_demo_ok proc_view_ok [of alt_held elf_demo] by (simp_all add: hot_ok_def elf_demo_fields)
qed

lemma set_display_frame:
  fixes s :: "'a sys_state_scheme"
  shows "fs_core (set_disiplay_terminal t s) = fs_core s" "address_space L s A \<Longrightarrow> address_space L (set_disiplay_terminal t s) A"
proof -
  have u: "fs_core (update_cursor x y s) = fs_core s" "address_space L (update_cursor x y s) A = address_space L s A" for x y and s :: "'a sys_state_scheme"
    by (simp_all add: fs_core_def address_space_def update_cursor_def outb_def Let_def)
  have m: "fs_core (s\<lparr>ram := m\<rparr>) = fs_core s" "fs_core (s\<lparr>display_terminal := d\<rparr>) = fs_core s"
      "address_space L (s\<lparr>ram := m\<rparr>) A = address_space L s A" "address_space L (s\<lparr>display_terminal := d\<rparr>) A = address_space L s A"
    for m d and s :: "'a sys_state_scheme"
    by (simp_all add: fs_core_def address_space_def)
  show "fs_core (set_disiplay_terminal t s) = fs_core s"
    by (simp add: set_disiplay_terminal_def Let_def u m)
  assume "address_space L s A"
  then show "address_space L (set_disiplay_terminal t s) A"
    by (simp add: set_disiplay_terminal_def Let_def u m set_active_terminal_address_space)
qed

theorem keys_keep_processes_witness:
  "\<exists>eip s'. handle_key boot_layout (\<lambda>_. 0) (0, 0) 60 alt_held = Some (Shell 1 eip, s') \<and> procs_ok s' \<and> running s' 1 (display_terminal s')"
proof -
  let ?p = "alt_held\<lparr>pressed_key := (pressed_key alt_held)(60 := 1)\<rparr>"
  let ?s = "(set_disiplay_terminal 1 ?p)\<lparr>terminal_2_running := 1\<rparr>"
  have pv: "proc_view (set_disiplay_terminal 1 ?p) = proc_view elf_demo" by (simp add: alt_held_def)
  have "terminal_2_running elf_demo = 0"
    by (simp add: elf_demo_def sys_demo_def fs_demo_def read_filesys_bootblock_def kbd_running_def kbd_boot_def init_keyboard_def init_scan_code_def
        enable_irq_def outb_def Let_def kbd_state.defs fs_state.defs sys_state.defs)
  then have run: "terminal_2_running (set_disiplay_terminal 1 ?p) = 0" using pv by (simp add: proc_view_def)
  have pid: "get_pid (set_disiplay_terminal 1 ?p) = 1" "get_pid ?s = 1"
    using proc_view_ok(3) [OF pv] elf_demo_pid by (simp_all add: get_pid_def)
  have core: "fs_core ?s = fs_core elf_demo" using set_display_frame(1) [of 1 ?p] by (simp add: fs_core_def alt_held_def)
  obtain A where "address_space boot_layout elf_demo A" using elf_demo_space by blast
  then have "address_space boot_layout ?p A" by (simp add: address_space_def alt_held_def)
  from set_display_frame(2) [OF this, of 1] have A: "address_space boot_layout ?s A" by (simp add: address_space_def)
  obtain eip s' where "execute_with_terminal_num boot_layout (\<lambda>_. 0) (0, 0) (lit_mem ''shell'') 1 1 ?s = Some (Enter_user 1 eip, s')"
    using shell_executes [OF core A _ shell_command(1), of "\<lambda>_. 0" "(0, 0)" 1] pid(2) by (auto simp: shell_command)
  then have "handle_key boot_layout (\<lambda>_. 0) (0, 0) 60 alt_held = Some (Shell 1 eip, s')"
    using run pid(1) by (simp add: handle_key_def key_alt_def open_terminal_def Let_def) (simp add: alt_held_def)
  from this keys_keep_processes [OF alt_held_ok this] show ?thesis by auto
qed

end
