(* ===== verification/Idt.thy ===== *)
theory Idt
  imports Process
begin

text \<open>
  The interrupt descriptor table, \<open>student-distrib/idt.c\<close> and the descriptor of
  \<open>student-distrib/x86_desc.h\<close>: the exception handlers, the bit-fields of a gate and \<open>idt_init\<close>. The
  addresses of the handlers are fixed by the linker and a parameter of the model. The lemmas give
  every gate as the processor decodes it.
\<close>

section \<open>Exception handlers\<close>

text \<open>
  Every exception handler reports and then spins with interrupts disabled; its value is the state
  it stays in. The messages have no conversions (see \<open>printf_literal\<close>).
\<close>

definition report :: "string \<Rightarrow> 'a screen_state_scheme \<Rightarrow> 'a screen_state_scheme" where
  "report msg s =
     (let s = cli s;
          s = clear s
      in print_lit msg s)"

definition exception_0_de :: "'a screen_state_scheme \<Rightarrow> 'a screen_state_scheme" where
  "exception_0_de s = report '' Divide Error Exception '' s"

definition exception_1_db :: "'a screen_state_scheme \<Rightarrow> 'a screen_state_scheme" where
  "exception_1_db s = report '' Debug Exception '' s"

definition exception_2_nmi :: "'a screen_state_scheme \<Rightarrow> 'a screen_state_scheme" where
  "exception_2_nmi s = report '' Non Maskable Interrupt '' s"

definition exception_3_bp :: "'a screen_state_scheme \<Rightarrow> 'a screen_state_scheme" where
  "exception_3_bp s = report '' Breakpoint Exception '' s"

definition exception_4_of :: "'a screen_state_scheme \<Rightarrow> 'a screen_state_scheme" where
  "exception_4_of s = report '' Overflow Exception '' s"

definition exception_5_br :: "'a screen_state_scheme \<Rightarrow> 'a screen_state_scheme" where
  "exception_5_br s = report '' BOUND Range Exceeded Exception '' s"

definition exception_6_ud :: "'a screen_state_scheme \<Rightarrow> 'a screen_state_scheme" where
  "exception_6_ud s = report '' Invalid Opcode Exception '' s"

definition exception_7_nm :: "'a screen_state_scheme \<Rightarrow> 'a screen_state_scheme" where
  "exception_7_nm s = report '' Device Not Available Exception '' s"

definition exception_8_df :: "'a screen_state_scheme \<Rightarrow> 'a screen_state_scheme" where
  "exception_8_df s = report '' Double Fault Exception '' s"

definition exception_9_cso :: "'a screen_state_scheme \<Rightarrow> 'a screen_state_scheme" where
  "exception_9_cso s = report '' Coprocessor Segment Overrun '' s"

definition exception_10_ts :: "'a screen_state_scheme \<Rightarrow> 'a screen_state_scheme" where
  "exception_10_ts s = report '' Invalid TSS Exception '' s"

definition exception_11_np :: "'a screen_state_scheme \<Rightarrow> 'a screen_state_scheme" where
  "exception_11_np s = report '' Segment Not Present '' s"

definition exception_12_ss :: "'a screen_state_scheme \<Rightarrow> 'a screen_state_scheme" where
  "exception_12_ss s = report '' Stack Fault Exception '' s"

definition exception_13_gp :: "'a screen_state_scheme \<Rightarrow> 'a screen_state_scheme" where
  "exception_13_gp s = report '' General Protection Exception '' s"

definition exception_14_pf :: "'a screen_state_scheme \<Rightarrow> 'a screen_state_scheme" where
  "exception_14_pf s = report '' Page-Fault Exception '' s"

definition exception_15_rs :: "'a screen_state_scheme \<Rightarrow> 'a screen_state_scheme" where
  "exception_15_rs s = report '' Reserved '' s"

definition exception_16_mf :: "'a screen_state_scheme \<Rightarrow> 'a screen_state_scheme" where
  "exception_16_mf s = report '' x87 FPU Floating-Point Error '' s"

definition exception_17_ac :: "'a screen_state_scheme \<Rightarrow> 'a screen_state_scheme" where
  "exception_17_ac s = report '' Alignment Check Exception '' s"

definition exception_18_mc :: "'a screen_state_scheme \<Rightarrow> 'a screen_state_scheme" where
  "exception_18_mc s = report '' Machine-Check Exception '' s"

definition exception_19_xf :: "'a screen_state_scheme \<Rightarrow> 'a screen_state_scheme" where
  "exception_19_xf s = report '' SIMD Floating-Point Exception '' s"

definition exception_user_defined :: "'a screen_state_scheme \<Rightarrow> 'a screen_state_scheme" where
  "exception_user_defined s = report '' User Defined or Undefined Exception! '' s"

section \<open>Descriptors\<close>

text \<open>The functions whose addresses go into the table.\<close>

datatype handler =
    Exception_0_de | Exception_1_db | Exception_2_nmi | Exception_3_bp | Exception_4_of | Exception_5_br
  | Exception_6_ud | Exception_7_nm | Exception_8_df | Exception_9_cso | Exception_10_ts | Exception_11_np
  | Exception_12_ss | Exception_13_gp | Exception_14_pf | Exception_15_rs | Exception_16_mf | Exception_17_ac
  | Exception_18_mc | Exception_19_xf | Exception_user_defined | Keyboard_handler_asm | Rtc_handler_asm
  | Pit_handler_asm | Syscall_asm

text \<open>
  \<open>idt_desc_t\<close> is packed into two words; a field is the word it lies in and its bits.
\<close>

record idt_desc =
  val0 :: u32
  val1 :: u32

definition offset_15_00 :: field where "offset_15_00 = (0, 16)"
definition seg_selector :: field where "seg_selector = (16, 16)"
definition reserved4 :: field where "reserved4 = (0, 8)"
definition reserved3 :: field where "reserved3 = (8, 1)"
definition reserved2 :: field where "reserved2 = (9, 1)"
definition reserved1 :: field where "reserved1 = (10, 1)"
definition gate_size :: field where "gate_size = (11, 1)"
definition reserved0 :: field where "reserved0 = (12, 1)"
definition gate_dpl :: field where "gate_dpl = (13, 2)"
definition gate_present :: field where "gate_present = (15, 1)"
definition offset_31_16 :: field where "offset_31_16 = (16, 16)"

definition set_low :: "field \<Rightarrow> u32 \<Rightarrow> idt_desc \<Rightarrow> idt_desc" where
  "set_low f v d = d\<lparr>val0 := set_field f v (val0 d)\<rparr>"

definition set_high :: "field \<Rightarrow> u32 \<Rightarrow> idt_desc \<Rightarrow> idt_desc" where
  "set_high f v d = d\<lparr>val1 := set_field f v (val1 d)\<rparr>"

definition SET_IDT_ENTRY :: "u32 \<Rightarrow> idt_desc \<Rightarrow> idt_desc" where
  "SET_IDT_ENTRY h d =
     (let d = set_high offset_31_16 (drop_bit 16 (h AND 0xFFFF0000)) d
      in set_low offset_15_00 (h AND 0xFFFF) d)"

section \<open>The table\<close>

record idt_state = sys_state +
  idt :: "nat \<Rightarrow> idt_desc"

definition on_gate :: "nat \<Rightarrow> (idt_desc \<Rightarrow> idt_desc) \<Rightarrow> (nat \<Rightarrow> idt_desc) \<Rightarrow> nat \<Rightarrow> idt_desc" where
  "on_gate i f t = t(i := f (t i))"

text \<open>The body of the first loop of \<open>idt_init\<close>.\<close>

definition init_gate :: "nat \<Rightarrow> idt_desc \<Rightarrow> idt_desc" where
  "init_gate i d =
     (let d = set_low seg_selector 0x10 d;
          d = set_high reserved4 0 d;
          d = (if i < 32 then set_high reserved3 1 d else set_high reserved3 0 d);
          d = set_high reserved2 1 d;
          d = set_high reserved1 1 d;
          d = set_high gate_size 1 d;
          d = set_high reserved0 0 d;
          d = (if i \<noteq> 0x80 then set_high gate_dpl 0 d else set_high gate_dpl 3 d)
      in set_high gate_present 1 d)"

definition idt_table :: "(handler \<Rightarrow> u32) \<Rightarrow> (nat \<Rightarrow> idt_desc) \<Rightarrow> nat \<Rightarrow> idt_desc" where
  "idt_table addr t =
     (let entry = (\<lambda>i h. on_gate i (SET_IDT_ENTRY (addr h)));
          t = fold (\<lambda>i. on_gate i (init_gate i)) [0..<256] t;
          t = entry 0 Exception_0_de t;
          t = entry 1 Exception_1_db t;
          t = on_gate 2 (set_high reserved3 0) t;
          t = entry 2 Exception_2_nmi t;
          t = on_gate 3 (set_high gate_dpl 3) t;
          t = entry 3 Exception_3_bp t;
          t = on_gate 4 (set_high gate_dpl 3) t;
          t = entry 4 Exception_4_of t;
          t = on_gate 5 (set_high gate_dpl 3) t;
          t = entry 5 Exception_5_br t;
          t = entry 6 Exception_6_ud t;
          t = entry 7 Exception_7_nm t;
          t = entry 8 Exception_8_df t;
          t = entry 9 Exception_9_cso t;
          t = entry 10 Exception_10_ts t;
          t = entry 11 Exception_11_np t;
          t = entry 12 Exception_12_ss t;
          t = entry 13 Exception_13_gp t;
          t = on_gate 14 (set_high reserved3 0) t;
          t = entry 14 Exception_14_pf t;
          t = entry 15 Exception_15_rs t;
          t = entry 16 Exception_16_mf t;
          t = entry 17 Exception_17_ac t;
          t = entry 18 Exception_18_mc t;
          t = entry 19 Exception_19_xf t;
          t = fold (\<lambda>i. entry i Exception_user_defined) [20..<256] t;
          t = entry 0x21 Keyboard_handler_asm t;
          t = entry 0x28 Rtc_handler_asm t;
          t = entry 0x20 Pit_handler_asm t;
          t = on_gate 0x80 (set_high reserved3 1) t
      in entry 0x80 Syscall_asm t)"

definition idt_init :: "(handler \<Rightarrow> u32) \<Rightarrow> 'a idt_state_scheme \<Rightarrow> 'a idt_state_scheme" where
  "idt_init addr s = s\<lparr>idt := idt_table addr (idt s)\<rparr>"

section \<open>Specification\<close>

text \<open>A gate as the processor reads it (Intel SDM vol. 3, 6.11).\<close>

record gate =
  g_offset :: u32
  g_selector :: u32
  g_type :: u32
  g_dpl :: u32
  g_present :: bool

definition decode :: "idt_desc \<Rightarrow> gate" where
  "decode d = \<lparr>g_offset = push_bit 16 (drop_bit 16 (val1 d)) OR take_bit 16 (val0 d), g_selector = drop_bit 16 (val0 d),
     g_type = take_bit 5 (drop_bit 8 (val1 d)), g_dpl = take_bit 2 (drop_bit 13 (val1 d)), g_present = bit (val1 d) 15\<rparr>"

definition exceptions :: "handler list" where
  "exceptions =
     [Exception_0_de, Exception_1_db, Exception_2_nmi, Exception_3_bp, Exception_4_of, Exception_5_br,
      Exception_6_ud, Exception_7_nm, Exception_8_df, Exception_9_cso, Exception_10_ts, Exception_11_np,
      Exception_12_ss, Exception_13_gp, Exception_14_pf, Exception_15_rs, Exception_16_mf, Exception_17_ac,
      Exception_18_mc, Exception_19_xf]"

definition vector_handler :: "nat \<Rightarrow> handler" where
  "vector_handler i =
     (if i < 20 then exceptions ! i else if i = 0x20 then Pit_handler_asm else if i = 0x21 then Keyboard_handler_asm
      else if i = 0x28 then Rtc_handler_asm else if i = 0x80 then Syscall_asm else Exception_user_defined)"

section \<open>Lemmas\<close>

lemmas gate_fields = offset_15_00_def seg_selector_def reserved4_def reserved3_def reserved2_def reserved1_def gate_size_def
  reserved0_def gate_dpl_def gate_present_def offset_31_16_def

lemma fold_on_gate:
  "fold (\<lambda>i. on_gate i (g i)) [a..<b] t j = (if a \<le> j \<and> j < b then g j (t j) else t j)"
  by (induction b) (auto simp: on_gate_def le_Suc_eq)

lemma halves: "(0xFFFF0000 :: u32) = push_bit 16 (mask 16)" "(0xFFFF :: u32) = mask 16"
  by (simp_all add: mask_eq_exp_minus_1)

lemma bit_set_gate:
  "bit (val0 (set_low f v d)) n \<longleftrightarrow> n < 32 \<and> (if fst f \<le> n \<and> n < fst f + snd f then bit v (n - fst f) else bit (val0 d) n)"
  "bit (val1 (set_high f v d)) n \<longleftrightarrow> n < 32 \<and> (if fst f \<le> n \<and> n < fst f + snd f then bit v (n - fst f) else bit (val1 d) n)"
  "val1 (set_low f v d) = val1 d" "val0 (set_high f v d) = val0 d"
proof -
  have b: "bit (set_field f v w) n \<longleftrightarrow> n < 32 \<and> (if fst f \<le> n \<and> n < fst f + snd f then bit v (n - fst f) else bit w n)" for w
    using bit_set_field [of n f v w] bit_imp_le_length [of "set_field f v w" n] by auto
  show "bit (val0 (set_low f v d)) n \<longleftrightarrow> n < 32 \<and> (if fst f \<le> n \<and> n < fst f + snd f then bit v (n - fst f) else bit (val0 d) n)"
    "bit (val1 (set_high f v d)) n \<longleftrightarrow> n < 32 \<and> (if fst f \<le> n \<and> n < fst f + snd f then bit v (n - fst f) else bit (val1 d) n)"
    "val1 (set_low f v d) = val1 d" "val0 (set_high f v d) = val0 d"
    by (simp_all add: set_low_def set_high_def b)
qed

lemma decode_entry: "decode (SET_IDT_ENTRY h d) = (decode d)\<lparr>g_offset := h\<rparr>"
proof -
  have "g_offset (decode (SET_IDT_ENTRY h d)) = h"
    unfolding SET_IDT_ENTRY_def halves decode_def
    by (rule bit_word_eqI) (auto simp: bit_simps bit_set_gate gate_fields Let_def)
  moreover have "drop_bit 16 (val0 (SET_IDT_ENTRY h d)) = drop_bit 16 (val0 d)"
      "take_bit 5 (drop_bit 8 (val1 (SET_IDT_ENTRY h d))) = take_bit 5 (drop_bit 8 (val1 d))"
      "take_bit 2 (drop_bit 13 (val1 (SET_IDT_ENTRY h d))) = take_bit 2 (drop_bit 13 (val1 d))"
    unfolding SET_IDT_ENTRY_def
    by (rule bit_word_eqI, auto simp: bit_simps bit_set_gate gate_fields Let_def dest: bit_imp_le_length)+
  moreover have "bit (val1 (SET_IDT_ENTRY h d)) 15 = bit (val1 d) 15"
    by (simp add: SET_IDT_ENTRY_def bit_set_gate gate_fields Let_def)
  ultimately show ?thesis by (simp add: decode_def)
qed

lemma decode_dpl: "decode (set_high gate_dpl 3 d) = (decode d)\<lparr>g_dpl := 3\<rparr>"
proof -
  have "take_bit 2 (drop_bit 13 (val1 (set_high gate_dpl 3 d))) = 3"
    by (rule bit_word_eqI) (auto simp: bit_simps bit_set_gate gate_fields numeral_eq_Suc less_Suc_eq)
  moreover have "push_bit 16 (drop_bit 16 (val1 (set_high gate_dpl 3 d))) = push_bit 16 (drop_bit 16 (val1 d))"
      "take_bit 5 (drop_bit 8 (val1 (set_high gate_dpl 3 d))) = take_bit 5 (drop_bit 8 (val1 d))"
    by (rule bit_word_eqI, auto simp: bit_simps bit_set_gate gate_fields)+
  ultimately show ?thesis by (simp add: decode_def bit_set_gate) (simp add: gate_fields)
qed

lemma decode_kind:
  "decode (set_high reserved3 0 d) = (decode d)\<lparr>g_type := g_type (decode d) AND NOT 1\<rparr>"
  "decode (set_high reserved3 1 d) = (decode d)\<lparr>g_type := g_type (decode d) OR 1\<rparr>"
proof -
  have a: "push_bit 16 (drop_bit 16 (val1 (set_high reserved3 v d))) = push_bit 16 (drop_bit 16 (val1 d))"
      "take_bit 2 (drop_bit 13 (val1 (set_high reserved3 v d))) = take_bit 2 (drop_bit 13 (val1 d))" for v
    by (rule bit_word_eqI, auto simp: bit_simps bit_set_gate gate_fields)+
  have "take_bit 5 (drop_bit 8 (val1 (set_high reserved3 0 d))) = take_bit 5 (drop_bit 8 (val1 d)) AND NOT 1"
      "take_bit 5 (drop_bit 8 (val1 (set_high reserved3 1 d))) = take_bit 5 (drop_bit 8 (val1 d)) OR 1"
    by (rule bit_word_eqI, auto simp: bit_simps bit_set_gate gate_fields)+
  then show "decode (set_high reserved3 0 d) = (decode d)\<lparr>g_type := g_type (decode d) AND NOT 1\<rparr>"
    "decode (set_high reserved3 1 d) = (decode d)\<lparr>g_type := g_type (decode d) OR 1\<rparr>"
    by (simp_all add: decode_def a bit_set_gate) (simp_all add: gate_fields)
qed

lemma gate_bits:
  "bit (0xF :: int) n \<longleftrightarrow> n < 4" "bit (0xE :: int) n \<longleftrightarrow> 1 \<le> n \<and> n < 4" "bit (3 :: int) n \<longleftrightarrow> n < 2"
proof -
  have nums: "(0xF :: int) = mask 4" "(0xE :: int) = push_bit 1 (mask 3)" "(3 :: int) = mask 2"
    by (simp_all add: mask_eq_exp_minus_1)
  show "bit (0xF :: int) n \<longleftrightarrow> n < 4" "bit (0xE :: int) n \<longleftrightarrow> 1 \<le> n \<and> n < 4" "bit (3 :: int) n \<longleftrightarrow> n < 2"
    unfolding nums bit_push_bit_iff bit_mask_iff by auto
qed

lemma decode_init:
  "decode (init_gate i d) = \<lparr>g_offset = g_offset (decode d), g_selector = 0x10, g_type = (if i < 32 then 0xF else 0xE),
     g_dpl = (if i = 0x80 then 3 else 0), g_present = True\<rparr>"
proof -
  have "push_bit 16 (drop_bit 16 (val1 (init_gate i d))) OR take_bit 16 (val0 (init_gate i d)) = g_offset (decode d)"
    by (rule bit_word_eqI) (auto simp: bit_simps bit_set_gate gate_fields init_gate_def decode_def Let_def)
  moreover have "drop_bit 16 (val0 (init_gate i d)) = 0x10"
  proof -
    have "take_bit 16 (drop_bit 16 w) = drop_bit 16 w" for w :: u32
      by (rule bit_word_eqI) (auto simp: bit_simps dest: bit_imp_le_length)
    then have "drop_bit 16 w = get_field seg_selector w" for w by (simp add: get_field_def gate_fields)
    moreover have "val0 (init_gate i d) = set_field seg_selector 0x10 (val0 d)" by (simp add: init_gate_def set_low_def set_high_def Let_def)
    ultimately show ?thesis by (simp add: get_set_field in_unit_def gate_fields)
  qed
  moreover have "take_bit 2 (drop_bit 13 (val1 (init_gate i d))) = (if i = 0x80 then 3 else 0)"
    by (rule bit_word_eqI) (auto simp: bit_simps bit_set_gate gate_fields gate_bits init_gate_def Let_def)
  moreover have "take_bit 5 (drop_bit 8 (val1 (init_gate i d))) = (if i < 32 then 0xF else 0xE)"
    by (rule bit_word_eqI) (auto simp: bit_simps bit_set_gate gate_fields gate_bits init_gate_def Let_def)
  moreover have "bit (val1 (init_gate i d)) 15" by (simp add: bit_set_gate gate_fields init_gate_def Let_def)
  ultimately show ?thesis by (simp add: decode_def)
qed

text \<open>The gate of vector \<open>i\<close> after all assignments to it.\<close>

definition finished_gate :: "(handler \<Rightarrow> u32) \<Rightarrow> nat \<Rightarrow> gate" where
  "finished_gate addr i = \<lparr>g_offset = addr (vector_handler i), g_selector = 0x10,
     g_type = (if i < 32 \<and> i \<noteq> 2 \<and> i \<noteq> 14 \<or> i = 0x80 then 0xF else 0xE),
     g_dpl = (if i \<in> {3, 4, 5, 0x80} then 3 else 0), g_present = True\<rparr>"

lemma idt_table_gate:
  assumes "i < 256"
  shows "decode (idt_table addr t i) = finished_gate addr i"
proof -
  let ?t = "fold (\<lambda>i. on_gate i (init_gate i)) [0..<256] t"
  have ini: "decode (?t j) = \<lparr>g_offset = g_offset (decode (t j)), g_selector = 0x10, g_type = (if j < 32 then 0xF else 0xE),
     g_dpl = (if j = 0x80 then 3 else 0), g_present = True\<rparr>" if "j < 256" for j
    using that by (simp add: fold_on_gate decode_init del: upt_rec_numeral)
  have kinds: "(0xF :: u32) AND NOT 1 = 0xE" "(0xE :: u32) OR 1 = 0xF" by simp_all
  show ?thesis
  proof (cases "i < 20")
    case True
    have "[0..<20] = [0, 1, 2, 3, 4, 5, 6, 7, 8, 9, 10, 11, 12, 13, 14, 15, 16, 17, 18, 19 :: nat]" by code_simp
    moreover have "i \<in> set [0..<20]" using True by simp
    ultimately have "i \<in> {0, 1, 2, 3, 4, 5, 6, 7, 8, 9, 10, 11, 12, 13, 14, 15, 16, 17, 18, 19}" by (simp only: list.set)
    then show ?thesis
      using ini [OF assms]
      by (elim insertE emptyE) (simp_all add: idt_table_def Let_def fold_on_gate on_gate_def [of _ _ "_ :: nat \<Rightarrow> _"] decode_entry decode_dpl decode_kind
          finished_gate_def vector_handler_def exceptions_def kinds del: upt_rec_numeral)
  next
    case False
    consider "i = 0x20" | "i = 0x21" | "i = 0x28" | "i = 0x80" | "i \<notin> {0x20, 0x21, 0x28, 0x80}" by auto
    then show ?thesis
      using ini [OF assms] False assms
      by cases (simp_all add: idt_table_def Let_def fold_on_gate on_gate_def [of _ _ "_ :: nat \<Rightarrow> _"] decode_entry decode_dpl decode_kind
          finished_gate_def vector_handler_def kinds del: upt_rec_numeral)
  qed
qed

text \<open>The older \<open>putc\<close> within a row.\<close>

lemma print_in_row:
  assumes "0 \<le> screen_x s" "screen_x s + int (length cs) \<le> 80" "0 \<le> screen_y s" "screen_y s < 25" "10 \<notin> set cs" "13 \<notin> set cs" "k < 2000"
  shows "page_char video_mem (ram (fold putc cs s)) k
    = (let p = nat (80 * screen_y s + screen_x s) in if p \<le> k \<and> k < p + length cs then cs ! (k - p) else page_char video_mem (ram s) k)"
  using assms
proof (induction cs arbitrary: s)
  case Nil
  then show ?case by (auto simp: Let_def)
next
  case (Cons c cs)
  let ?p = "nat (80 * screen_y s + screen_x s)"
  have x: "screen_x s < 80" using Cons.prems(2) by simp
  have r: "ram (putc c s) = put_cell video_mem (screen_x s) (screen_y s) c (ram s)" "screen_y (putc c s) = screen_y s"
      "screen_x (putc c s) = (screen_x s + 1) mod 80"
    using Cons.prems by (simp_all add: putc_def Let_def)
  have cell: "page_char video_mem (ram (putc c s)) k = (if k = ?p then c else page_char video_mem (ram s) k)"
    using page.chars_put [of "screen_x s" "screen_y s" k video_mem c "ram s"] Cons.prems x by (auto simp: r)
  show ?case
  proof (cases cs)
    case Nil
    then show ?thesis using cell by (auto simp: Let_def)
  next
    case (Cons d ds)
    then have x': "screen_x (putc c s) = screen_x s + 1" using Cons.prems r(3) by simp
    then have "nat (80 * screen_y s + (screen_x s + 1)) = Suc ?p" using Cons.prems by simp
    then show ?thesis
      using Cons.IH [of "putc c s"] Cons.prems x' cell r(2) by (auto simp: Let_def nth_Cons')
  qed
qed

lemma length_chars: "length (chars cs) = length cs"
  by (simp add: chars_def)

lemma report_text:
  assumes "0 \<le> screen_x s" "screen_x s + int (length msg) \<le> 80" "0 \<le> screen_y s" "screen_y s < 25"
    "10 \<notin> set (chars msg)" "13 \<notin> set (chars msg)" "k < 2000"
  shows "page_char video_mem (ram (report msg s)) k
    = (let p = nat (80 * screen_y s + screen_x s) in if p \<le> k \<and> k < p + length msg then chars msg ! (k - p) else 0x20)"
proof -
  have c: "screen_x (clear s) = screen_x s" "screen_y (clear s) = screen_y s" for s :: "'a screen_state_scheme"
    by (simp_all add: clear_def update_cursor_def set_x_def set_y_def outb_def Let_def)
  have x: "screen_x (cli s) = screen_x s" "screen_y (cli s) = screen_y s" by (simp_all add: cli_def)
  have "ram (clear (cli s)) = fold (\<lambda>i. set_cell video_mem i 0x20) [0..<2000] (ram s)"
    by (simp add: clear_def Let_def set_cell_def [abs_def])
  then have "page_char video_mem (ram (clear (cli s))) k = 0x20"
    using clear_fold [of 2000 video_mem "ram s"] assms(7) by simp
  then show ?thesis
    using print_in_row [of "clear (cli s)" "chars msg" k] assms c [of "cli s"] x
    by (simp add: report_def print_lit_def length_chars Let_def)
qed

definition exception_handlers :: "('a screen_state_scheme \<Rightarrow> 'a screen_state_scheme) list" where
  "exception_handlers =
     [exception_0_de, exception_1_db, exception_2_nmi, exception_3_bp, exception_4_of,
      exception_5_br, exception_6_ud, exception_7_nm, exception_8_df, exception_9_cso,
      exception_10_ts, exception_11_np, exception_12_ss, exception_13_gp, exception_14_pf,
      exception_15_rs, exception_16_mf, exception_17_ac, exception_18_mc, exception_19_xf]"

definition exception_messages :: "string list" where
  "exception_messages =
     ['' Divide Error Exception '', '' Debug Exception '', '' Non Maskable Interrupt '',
      '' Breakpoint Exception '', '' Overflow Exception '', '' BOUND Range Exceeded Exception '',
      '' Invalid Opcode Exception '', '' Device Not Available Exception '', '' Double Fault Exception '',
      '' Coprocessor Segment Overrun '', '' Invalid TSS Exception '', '' Segment Not Present '',
      '' Stack Fault Exception '', '' General Protection Exception '', '' Page-Fault Exception '',
      '' Reserved '', '' x87 FPU Floating-Point Error '', '' Alignment Check Exception '',
      '' Machine-Check Exception '', '' SIMD Floating-Point Exception '']"

lemma length_messages: "length exception_messages = 20"
  by (simp add: exception_messages_def)

lemma exception_report: "v < 20 \<Longrightarrow> exception_handlers ! v = report (exception_messages ! v)"
proof -
  have "exception_handlers = map report exception_messages"
    unfolding exception_handlers_def exception_messages_def
    by (simp add: fun_eq_iff exception_0_de_def exception_1_db_def exception_2_nmi_def exception_3_bp_def exception_4_of_def exception_5_br_def exception_6_ud_def exception_7_nm_def exception_8_df_def exception_9_cso_def exception_10_ts_def exception_11_np_def exception_12_ss_def exception_13_gp_def exception_14_pf_def exception_15_rs_def exception_16_mf_def exception_17_ac_def exception_18_mc_def exception_19_xf_def)
  from arg_cong [OF this, of "\<lambda>hs. hs ! v"] show "v < 20 \<Longrightarrow> ?thesis" by (simp add: length_messages)
qed

section \<open>Properties\<close>

text \<open>
  The interrupt descriptor table. After \<open>idt_init\<close> every one of the 256 gates, decoded as
  the processor does, is present, leads to the handler of its vector (the exceptions 0 to 19,
  the timer, the keyboard, the clock, the system call, and the common handler for all others)
  through the kernel's code segment, is a trap gate exactly for the exceptions other than 2 and
  14 and for the system call, and is open to user mode exactly for the vectors 3, 4, 5 and 0x80.
\<close>

theorem idt_gates:
  assumes "i < 256"
  shows "decode (idt (idt_init addr s) i) = \<lparr>g_offset = addr (vector_handler i), g_selector = 0x10,
     g_type = (if i < 32 \<and> i \<noteq> 2 \<and> i \<noteq> 14 \<or> i = 0x80 then 0xF else 0xE),
     g_dpl = (if i \<in> {3, 4, 5, 0x80} then 3 else 0), g_present = True\<rparr>"
  using idt_table_gate [OF assms, of addr "idt s"] by (simp add: idt_init_def finished_gate_def)

definition demo_addr :: "handler \<Rightarrow> u32" where
  "demo_addr h = (if h = Syscall_asm then 0x401234 else 0x400000)"

theorem idt_gates_witness:
  "g_offset (decode (idt (idt_init demo_addr (sys_state.extend sys_demo (idt_state.fields (\<lambda>_. \<lparr>val0 = 7, val1 = 9\<rparr>)))) 0x80)) = 0x401234"
  using idt_gates [of "0x80" demo_addr "sys_state.extend sys_demo (idt_state.fields (\<lambda>_. \<lparr>val0 = 7, val1 = 9\<rparr>))"] by (simp add: vector_handler_def demo_addr_def)

text \<open>
  An exception is reported. Each of the twenty exception handlers ends up spinning with
  interrupts disabled, with the screen blank but for its message, which stands at the position
  where \<open>printf\<close> would have written next (on one row, if there is room for it).
\<close>

theorem exceptions_report:
  assumes "v < 20" and "msg = exception_messages ! v" and "0 \<le> screen_x s" and "screen_x s + int (length msg) \<le> 80"
    and "0 \<le> screen_y s" and "screen_y s < 25" and "k < 2000"
  shows "\<not> iflag ((exception_handlers ! v) s)
    \<and> page_char video_mem (ram ((exception_handlers ! v) s)) k
      = (let p = nat (80 * screen_y s + screen_x s) in if p \<le> k \<and> k < p + length msg then chars msg ! (k - p) else 0x20)"
proof -
  have i: "iflag (fold putc cs s) = iflag s" for cs and s :: "'a screen_state_scheme"
    by (induction cs arbitrary: s) (simp_all add: putc_def Let_def)
  have "iflag (clear s) = iflag s" for s :: "'a screen_state_scheme"
    by (simp add: clear_def update_cursor_def set_x_def set_y_def outb_def Let_def)
  then have "\<not> iflag (report msg s)" by (simp add: report_def print_lit_def i)
  moreover have "\<forall>m\<in>set exception_messages. 10 \<notin> set (chars m) \<and> 13 \<notin> set (chars m)" by code_simp
  then have "10 \<notin> set (chars msg)" "13 \<notin> set (chars msg)"
    using assms(1,2) nth_mem [of v exception_messages] by (simp_all add: length_messages)
  ultimately show ?thesis
    using report_text [OF assms(3-6) _ _ assms(7)] exception_report [OF assms(1)] assms(2) by (metis (no_types, lifting))
qed

theorem exceptions_report_witness:
  "page_char video_mem (ram (exception_14_pf screen_boot)) 1 = 80 \<and> \<not> iflag (exception_14_pf screen_boot)"
proof -
  have m: "exception_messages ! 14 = '' Page-Fault Exception ''" by (simp add: exception_messages_def)
  have "(exception_handlers ! 14) screen_boot = exception_14_pf screen_boot" by (simp add: exception_handlers_def)
  moreover have "chars '' Page-Fault Exception '' ! 1 = 80" by code_simp
  ultimately show ?thesis
    using exceptions_report [OF _ m [symmetric], of screen_boot 1] by (simp add: screen_boot_def)
qed

end
