(* ===== verification/Kernel.thy ===== *)
theory Kernel
  imports Scheduler Keyboard_Handler Idt
begin

text \<open>
  The start of the kernel, \<open>entry\<close> of \<open>student-distrib/kernel.c\<close>: the report on the Multiboot
  information, the descriptors of the local descriptor table and of the task state segment, and
  the initialisation of all components in the order of the code, up to the first shell. The
  lemmas show that the boot leaves the machine in a state in which the invariants of the
  components hold.
\<close>

section \<open>Segment descriptors\<close>

text \<open>\<open>seg_desc_t\<close> of \<open>x86_desc.h\<close>, packed into two words.\<close>

record seg_desc =
  seg0 :: u32
  seg1 :: u32

definition seg_lim_15_00 :: field where "seg_lim_15_00 = (0, 16)"
definition base_15_00 :: field where "base_15_00 = (16, 16)"
definition base_23_16 :: field where "base_23_16 = (0, 8)"
definition seg_type :: field where "seg_type = (8, 4)"
definition seg_sys :: field where "seg_sys = (12, 1)"
definition seg_dpl :: field where "seg_dpl = (13, 2)"
definition seg_present :: field where "seg_present = (15, 1)"
definition seg_lim_19_16 :: field where "seg_lim_19_16 = (16, 4)"
definition seg_avail :: field where "seg_avail = (20, 1)"
definition seg_reserved :: field where "seg_reserved = (21, 1)"
definition seg_opsize :: field where "seg_opsize = (22, 1)"
definition seg_granularity :: field where "seg_granularity = (23, 1)"
definition base_31_24 :: field where "base_31_24 = (24, 8)"

definition set_seg0 :: "field \<Rightarrow> u32 \<Rightarrow> seg_desc \<Rightarrow> seg_desc" where
  "set_seg0 f v d = d\<lparr>seg0 := set_field f v (seg0 d)\<rparr>"

definition set_seg1 :: "field \<Rightarrow> u32 \<Rightarrow> seg_desc \<Rightarrow> seg_desc" where
  "set_seg1 f v d = d\<lparr>seg1 := set_field f v (seg1 d)\<rparr>"

definition SET_LDT_PARAMS :: "u32 \<Rightarrow> u32 \<Rightarrow> seg_desc \<Rightarrow> seg_desc" where
  "SET_LDT_PARAMS addr lim d =
     (let d = set_seg1 base_31_24 (drop_bit 24 (addr AND 0xFF000000)) d;
          d = set_seg1 base_23_16 (drop_bit 16 (addr AND 0x00FF0000)) d;
          d = set_seg0 base_15_00 (addr AND 0x0000FFFF) d;
          d = set_seg1 seg_lim_19_16 (drop_bit 16 (lim AND 0x000F0000)) d
      in set_seg0 seg_lim_15_00 (lim AND 0x0000FFFF) d)"

definition SET_TSS_PARAMS :: "u32 \<Rightarrow> u32 \<Rightarrow> seg_desc \<Rightarrow> seg_desc" where
  "SET_TSS_PARAMS addr lim d =
     (let d = set_seg1 base_31_24 (drop_bit 24 (addr AND 0xFF000000)) d;
          d = set_seg1 base_23_16 (drop_bit 16 (addr AND 0x00FF0000)) d;
          d = set_seg0 base_15_00 (addr AND 0x0000FFFF) d;
          d = set_seg1 seg_lim_19_16 (drop_bit 16 (lim AND 0x000F0000)) d
      in set_seg0 seg_lim_15_00 (lim AND 0x0000FFFF) d)"

section \<open>State\<close>

record kernel_state = idt_state +
  ldt_desc_ptr :: seg_desc
  tss_desc_ptr :: seg_desc
  tss_ldt_segment_selector :: u16
  ldtr :: u16
  tr :: u16
  idt_loaded :: bool
  bootBlk_addr :: u32

text \<open>
  Addresses fixed by the linker: the page tables, the handlers, and the two segments; their
  sizes are those of \<open>x86_desc.S\<close>.
\<close>

record symbols =
  sym_layout :: layout
  sym_handler :: "handler \<Rightarrow> u32"
  sym_ldt :: u32
  sym_tss :: u32

definition ldt_size :: u32 where "ldt_size = 4 * 8 - 1"
definition tss_size :: u32 where "tss_size = 104 - 1"

text \<open>The two blocks of \<open>entry\<close> that build descriptors; \<open>garbage\<close> is the uninitialised local variable.\<close>

definition ldt_setup :: "symbols \<Rightarrow> seg_desc \<Rightarrow> 'a kernel_state_scheme \<Rightarrow> 'a kernel_state_scheme" where
  "ldt_setup K garbage s =
     (let d = garbage;
          d = set_seg1 seg_granularity 0 d;
          d = set_seg1 seg_opsize 1 d;
          d = set_seg1 seg_reserved 0 d;
          d = set_seg1 seg_avail 0 d;
          d = set_seg1 seg_present 1 d;
          d = set_seg1 seg_dpl 0 d;
          d = set_seg1 seg_sys 0 d;
          d = set_seg1 seg_type 2 d;
          d = SET_LDT_PARAMS (sym_ldt K) ldt_size d;
          s = s\<lparr>ldt_desc_ptr := d\<rparr>
      in s\<lparr>ldtr := 0x38\<rparr>)"

definition tss_setup :: "symbols \<Rightarrow> seg_desc \<Rightarrow> 'a kernel_state_scheme \<Rightarrow> 'a kernel_state_scheme" where
  "tss_setup K garbage s =
     (let d = garbage;
          d = set_seg1 seg_granularity 0 d;
          d = set_seg1 seg_opsize 0 d;
          d = set_seg1 seg_reserved 0 d;
          d = set_seg1 seg_avail 0 d;
          d = set_seg1 seg_lim_19_16 (104 AND 0x000F0000) d;
          d = set_seg1 seg_present 1 d;
          d = set_seg1 seg_dpl 0 d;
          d = set_seg1 seg_sys 0 d;
          d = set_seg1 seg_type 9 d;
          d = set_seg0 seg_lim_15_00 (104 AND 0x0000FFFF) d;
          d = SET_TSS_PARAMS (sym_tss K) tss_size d;
          s = s\<lparr>tss_desc_ptr := d\<rparr>;
          s = s\<lparr>tss_ldt_segment_selector := 0x38, tss_ss0 := 0x18, tss_esp0 := 0x800000\<rparr>
      in s\<lparr>tr := 0x30\<rparr>)"

section \<open>The Multiboot report\<close>

text \<open>\<open>printf\<close> with a format of the kernel and its arguments; \<open>stack\<close> is the uninitialised buffer.\<close>

definition printk :: "string \<Rightarrow> u32 list \<Rightarrow> memory \<Rightarrow> 'a screen_state_scheme \<Rightarrow> 'a screen_state_scheme option" where
  "printk fmt args stack s =
     map_option snd (printf (lit_mem fmt) 1 (\<lambda>i. if i < length args then args ! i else 0) stack s)"

definition CHECK_FLAG :: "u32 \<Rightarrow> nat \<Rightarrow> bool" where
  "CHECK_FLAG flags b \<longleftrightarrow> flags AND push_bit b 1 \<noteq> 0"

text \<open>
  The Multiboot information structure lies in memory at \<open>mbi\<close>; a field is read by its offset. The
  modules lie in the memory of the file system image.
\<close>

definition mbi_field :: "u32 \<Rightarrow> u32 \<Rightarrow> 'a machine_scheme \<Rightarrow> u32" where
  "mbi_field mbi off s = load32 (ram s) (mbi + off)"

definition print_bytes :: "memory \<Rightarrow> u32 \<Rightarrow> 'a fs_state_scheme \<Rightarrow> 'a fs_state_scheme option" where
  "print_bytes stack start s =
     fold (\<lambda>i r. do { s \<leftarrow> r; printk ''0x%x '' [scast (fs_mem s (start + of_nat i))] stack s }) [0..<16] (Some s)"

partial_function (option) print_modules ::
  "memory \<Rightarrow> u32 \<Rightarrow> u32 \<Rightarrow> u32 \<Rightarrow> 'a kernel_state_scheme \<Rightarrow> 'a kernel_state_scheme option" where
  "print_modules stack mbi mod_count md s =
     (if mod_count < mbi_field mbi 20 s then do {
        s \<leftarrow> printk ''Module %d loaded at address: 0x%#x\<newline>'' [mod_count, mbi_field md 0 s] stack s;
        let s = s\<lparr>bootBlk_addr := mbi_field md 0 s\<rparr>;
        s \<leftarrow> printk ''Module %d ends at address: 0x%#x\<newline>'' [mod_count, mbi_field md 4 s] stack s;
        s \<leftarrow> printk ''First few bytes of module:\<newline>'' [] stack s;
        s \<leftarrow> print_bytes stack (mbi_field md 0 s) s;
        s \<leftarrow> printk ''\<newline>'' [] stack s;
        print_modules stack mbi (mod_count + 1) (md + 16) s }
      else Some s)"

partial_function (option) print_mmap ::
  "memory \<Rightarrow> u32 \<Rightarrow> u32 \<Rightarrow> 'a kernel_state_scheme \<Rightarrow> 'a kernel_state_scheme option" where
  "print_mmap stack mbi mmap s =
     (if mmap < mbi_field mbi 48 s + mbi_field mbi 44 s then do {
        s \<leftarrow> printk ''    size = 0x%x, base_addr = 0x%#x%#x\<newline>    type = 0x%x,  length    = 0x%#x%#x\<newline>''
               [mbi_field mmap 0 s, mbi_field mmap 8 s, mbi_field mmap 4 s, mbi_field mmap 20 s, mbi_field mmap 16 s, mbi_field mmap 12 s] stack s;
        print_mmap stack mbi (mmap + mbi_field mmap 0 s + 4) s }
      else Some s)"

text \<open>What \<open>entry\<close> prints; the result says whether it goes on.\<close>

definition print_if :: "bool \<Rightarrow> ('s \<Rightarrow> 's option) \<Rightarrow> 's \<Rightarrow> 's option" where
  "print_if b p s = (if b then p s else Some s)"

definition print_multiboot ::
  "memory \<Rightarrow> u32 \<Rightarrow> 'a kernel_state_scheme \<Rightarrow> (bool \<times> 'a kernel_state_scheme) option" where
  "print_multiboot stack mbi s =
     do {
       s \<leftarrow> printk ''flags = 0x%#x\<newline>'' [mbi_field mbi 0 s] stack s;
       s \<leftarrow> print_if (CHECK_FLAG (mbi_field mbi 0 s) 0)
             (\<lambda>s. printk ''mem_lower = %uKB, mem_upper = %uKB\<newline>'' [mbi_field mbi 4 s, mbi_field mbi 8 s] stack s) s;
       s \<leftarrow> print_if (CHECK_FLAG (mbi_field mbi 0 s) 1) (\<lambda>s. printk ''boot_device = 0x%#x\<newline>'' [mbi_field mbi 12 s] stack s) s;
       s \<leftarrow> print_if (CHECK_FLAG (mbi_field mbi 0 s) 2) (\<lambda>s. printk ''cmdline = %s\<newline>'' [mbi_field mbi 16 s] stack s) s;
       s \<leftarrow> print_if (CHECK_FLAG (mbi_field mbi 0 s) 3) (\<lambda>s. print_modules stack mbi 0 (mbi_field mbi 24 s) s) s;
       if CHECK_FLAG (mbi_field mbi 0 s) 4 \<and> CHECK_FLAG (mbi_field mbi 0 s) 5
       then do { s \<leftarrow> printk ''Both bits 4 and 5 are set.\<newline>'' [] stack s; Some (False, s) }
       else do {
         s \<leftarrow> print_if (CHECK_FLAG (mbi_field mbi 0 s) 5)
               (\<lambda>s. printk ''elf_sec: num = %u, size = 0x%#x, addr = 0x%#x, shndx = 0x%#x\<newline>''
                      [mbi_field mbi 28 s, mbi_field mbi 32 s, mbi_field mbi 36 s, mbi_field mbi 40 s] stack s) s;
         s \<leftarrow> print_if (CHECK_FLAG (mbi_field mbi 0 s) 6)
               (\<lambda>s. do { s \<leftarrow> printk ''mmap_addr = 0x%#x, mmap_length = 0x%x\<newline>'' [mbi_field mbi 48 s, mbi_field mbi 44 s] stack s;
                         print_mmap stack mbi (mbi_field mbi 48 s) s }) s;
         Some (True, s) } }"

section \<open>Entry\<close>

text \<open>How \<open>entry\<close> ends: it returns to \<open>boot.S\<close>, enters the first shell, or spins.\<close>

datatype boot_end =
    Entry_returned
  | First_shell int u32
  | Spinning

text \<open>The initialisation of the components, in the order of the code.\<close>

definition init_components ::
  "symbols \<Rightarrow> device \<Rightarrow> u32 \<Rightarrow> 'a kernel_state_scheme \<Rightarrow> 'a kernel_state_scheme" where
  "init_components K dev e s =
     (let s = i8259_init s;
          s = idt_init (sym_handler K) s;
          s = s\<lparr>idt_loaded := True\<rparr>;
          s = paging_init (sym_layout K) e s;
          s = read_filesys_bootblock (bootBlk_addr s) s;
          s = init_keyboard s;
          s = pit_init s
      in rtc_init dev s)"

definition launch_tests :: "'a kernel_state_scheme \<Rightarrow> 'a kernel_state_scheme" where
  "launch_tests s = s"

definition kernel_entry ::
  "symbols \<Rightarrow> device \<Rightarrow> memory \<Rightarrow> seg_desc \<Rightarrow> u32 \<Rightarrow> u32 \<times> u32 \<Rightarrow> u32 \<Rightarrow> u32 \<Rightarrow> 'a kernel_state_scheme
   \<Rightarrow> (boot_end \<times> 'a kernel_state_scheme) option" where
  "kernel_entry K dev stack garbage e regs magic addr s =
     (let s = clear s
      in if magic \<noteq> 0x2BADB002
         then do { s \<leftarrow> printk ''Invalid magic number: 0x%#x\<newline>'' [magic] stack s; Some (Entry_returned, s) }
         else do {
           (go, s) \<leftarrow> print_multiboot stack addr s;
           if \<not> go then Some (Entry_returned, s)
           else do {
             let s = ldt_setup K garbage s;
             let s = tss_setup K garbage s;
             let s = init_components K dev e s;
             s \<leftarrow> printk ''Enabling Interrupts\<newline>'' [] stack s;
             let s = sti s;
             let s = launch_tests s;
             let s = clear s;
             (r, s) \<leftarrow> execute_with_terminal_num (sym_layout K) stack regs (lit_mem ''shell'') 1 0 s;
             Some (case r of Enter_user pid eip \<Rightarrow> First_shell pid eip | _ \<Rightarrow> Spinning, s) } })"

section \<open>Frames of the initialisation\<close>

lemma devices_more [simp]:
  "screen_state.more (outb v p s) = screen_state.more s" "screen_state.more (enable_irq i s) = screen_state.more s"
  "screen_state.more (i8259_init s) = screen_state.more s" "screen_state.more (snd (inb dev p s)) = screen_state.more s"
  "screen_state.more (pit_init s) = screen_state.more s" "screen_state.more (rtc_init dev s) = screen_state.more s"
  by (simp_all add: outb_def inb_def enable_irq_def i8259_init_def pit_init_def rtc_init_def set_rate_def Let_def split: prod.splits)

lemma paging_of_screen_more:
  assumes "screen_state.more s' = screen_state.more s"
  shows "paging_state.more s' = paging_state.more s \<and> page_directory s' = page_directory s \<and> page_table s' = page_table s
    \<and> vidMem_table s' = vidMem_table s"
  using assms by (cases s, cases s') simp

lemma paging_updates_more [simp]:
  "paging_state.more (set_pde i fs s) = paging_state.more s" "paging_state.more (set_pte i fs s) = paging_state.more s"
  "paging_state.more (pdt_init_kb e i s) = paging_state.more s" "paging_state.more (pdt_init_mb e i s) = paging_state.more s"
  "paging_state.more (pt_init e i s) = paging_state.more s" "paging_state.more (load_cr3 v s) = paging_state.more s"
  "paging_state.more (mark_video i s) = paging_state.more s"
  by (simp_all add: set_pde_def set_pte_def pdt_init_kb_def pdt_init_mb_def pt_init_def load_cr3_def mark_video_def)

lemma paging_init_more: "paging_state.more (paging_init L e s) = paging_state.more s"
proof -
  have "paging_state.more (init_pdes e a b s) = paging_state.more s" "paging_state.more (init_ptes e b s) = paging_state.more s"
    for a b and s :: "'a paging_state_scheme"
    unfolding init_pdes_def init_ptes_def by (induction b) simp_all
  moreover have "paging_state.more (print_lit cs s) = paging_state.more s" for cs and s :: "'a paging_state_scheme"
    using paging_of_screen_more [of "print_lit cs s" s] by (simp add: print_lit_def)
  ultimately show ?thesis by (simp add: paging_init_def Let_def)
qed

text \<open>What the interrupt controller's invariant depends on.\<close>

definition pic_view :: "'a pic_state_scheme \<Rightarrow> u8 \<times> u8 \<times> io_event list" where
  "pic_view s = (master_mask s, slave_mask s, io s)"

lemma pic_view_ok: "pic_view s' = pic_view s \<Longrightarrow> enabled_lines s' = enabled_lines s \<and> pic_synced s' = pic_synced s"
  by (simp add: pic_view_def enabled_lines_def pic_synced_def)

lemma pic_view_simps [simp]:
  "pic_view (set_pde i fs s) = pic_view s" "pic_view (set_pte i fs s) = pic_view s"
  "pic_view (pdt_init_kb e i s) = pic_view s" "pic_view (pdt_init_mb e i s) = pic_view s"
  "pic_view (pt_init e i s) = pic_view s" "pic_view (load_cr3 v s) = pic_view s" "pic_view (mark_video i s) = pic_view s"
  "pic_view (s\<lparr>cr0 := c0\<rparr>) = pic_view s" "pic_view (s\<lparr>cr4 := c4\<rparr>) = pic_view s"
  by (simp_all add: pic_view_def set_pde_def set_pte_def pdt_init_kb_def pdt_init_mb_def pt_init_def load_cr3_def mark_video_def)

lemma pic_view_print [simp]: "pic_view (print_lit cs s) = pic_view s"
proof -
  have "pic_view (fold putc xs s) = pic_view s" for xs and s :: "'a screen_state_scheme"
    by (induction xs arbitrary: s) (simp_all add: pic_view_def putc_def Let_def)
  then show ?thesis by (simp add: print_lit_def)
qed

lemma pic_view_paging_init: "pic_view (paging_init L e s) = pic_view s"
proof -
  have "pic_view (init_pdes e a b s) = pic_view s" "pic_view (init_ptes e b s) = pic_view s"
    for a b and s :: "'a paging_state_scheme"
    unfolding init_pdes_def init_ptes_def by (induction b) simp_all
  then show ?thesis by (simp add: paging_init_def Let_def)
qed

lemma pic_init_devices:
  assumes "pic_synced s"
  shows "enabled_lines (init_keyboard s) = insert 1 (enabled_lines s)" "pic_synced (init_keyboard s)"
    "enabled_lines (pit_init s) = insert 0 (enabled_lines s)" "pic_synced (pit_init s)"
    "enabled_lines (rtc_init dev s) = insert 8 (enabled_lines s)" "pic_synced (rtc_init dev s)"
proof -
  have k: "pic_view (init_keyboard s) = pic_view (enable_irq 1 s)" for s :: "'a kbd_state_scheme"
    by (simp add: pic_view_def init_keyboard_def init_scan_code_def enable_irq_def outb_def Let_def)
  show "enabled_lines (init_keyboard s) = insert 1 (enabled_lines s)" "pic_synced (init_keyboard s)"
    using pic_view_ok [OF k] assms enabled_enable_irq [of 1 s] enable_irq_synced [of s 1] by simp_all
  have o: "enabled_lines (outb v p s) = enabled_lines s" for v p and s :: "'b pic_state_scheme" by (simp add: enabled_lines_def)
  show "enabled_lines (pit_init s) = insert 0 (enabled_lines s)" "pic_synced (pit_init s)"
    using assms enabled_enable_irq [of 0 s] enable_irq_synced [of s 0] by (simp_all add: pit_init_def Let_def o outb_other_port_synced)
  have i: "enabled_lines (snd (inb dev p s)) = enabled_lines s" "pic_synced (snd (inb dev p s)) = pic_synced s"
    for dev p and s :: "'b pic_state_scheme"
    by (simp_all add: enabled_lines_def pic_synced_def inb_def last_out_append Let_def)
  have r: "enabled_lines (s\<lparr>RTC_flag := v\<rparr>) = enabled_lines s" "pic_synced (s\<lparr>RTC_flag := v\<rparr>) = pic_synced s"
    for v and s :: "'b rtc_state_scheme"
    by (simp_all add: enabled_lines_def pic_synced_def)
  show "enabled_lines (rtc_init dev s) = insert 8 (enabled_lines s)" "pic_synced (rtc_init dev s)"
    using assms enabled_enable_irq [of 8 s] enable_irq_synced [of s 8]
    by (simp_all add: rtc_init_def set_rate_def Let_def case_prod_beta r o i outb_other_port_synced rtc_consts)
qed

text \<open>The part of the state the boot hands over unchanged to the processes.\<close>

definition sys_view :: "'a sys_state_scheme \<Rightarrow> (int \<Rightarrow> pcb) \<times> (nat \<Rightarrow> int) \<times> (nat \<Rightarrow> int) \<times> int \<times> int \<times> int \<times> memory" where
  "sys_view s = (pcbs s, proc_state s, t_curr s, curr s, terminal_2_running s, terminal_3_running s, fs_mem s)"

lemma sys_view_more: "paging_state.more s' = paging_state.more s \<Longrightarrow> sys_view s' = sys_view s"
  by (cases s, cases s') (simp add: sys_view_def)

lemma sys_view_screen: "screen_state.more s' = screen_state.more s \<Longrightarrow> sys_view s' = sys_view s"
  using sys_view_more paging_of_screen_more by blast

lemma kernel_of_more:
  fixes s s' :: "'a kernel_state_scheme"
  assumes "paging_state.more s' = paging_state.more s"
  shows "bootBlk_addr s' = bootBlk_addr s \<and> idt s' = idt s"
  using assms by (cases s, cases s') simp

section \<open>Lemmas\<close>

text \<open>The state after each group of initialisations.\<close>

definition after_paging :: "symbols \<Rightarrow> u32 \<Rightarrow> 'a kernel_state_scheme \<Rightarrow> 'a kernel_state_scheme" where
  "after_paging K e s = paging_init (sym_layout K) e ((idt_init (sym_handler K) (i8259_init s))\<lparr>idt_loaded := True\<rparr>)"

lemma init_components_split:
  "init_components K dev e s
     = rtc_init dev (pit_init (init_keyboard (read_filesys_bootblock (bootBlk_addr (after_paging K e s)) (after_paging K e s))))"
  by (simp add: init_components_def after_paging_def Let_def)

lemma after_paging_facts:
  assumes "vidMem_table s = (\<lambda>_. 0)"
  shows "sys_view (after_paging K e s) = sys_view s" "bootBlk_addr (after_paging K e s) = bootBlk_addr s"
    "address_space (sym_layout K) (after_paging K e s) \<lparr>user = None, video = None\<rparr>"
    "idt (after_paging K e s) = idt_table (sym_handler K) (idt s)"
    "enabled_lines (after_paging K e s) = {2}" "pic_synced (after_paging K e s)" "vidMem_table (after_paging K e s) = (\<lambda>_. 0)"
proof -
  let ?i = "i8259_init s"
  let ?j = "(idt_init (sym_handler K) ?i)\<lparr>idt_loaded := True\<rparr>"
  have "screen_state.more ?i = screen_state.more s" by simp
  then have i: "sys_view ?i = sys_view s" "bootBlk_addr ?i = bootBlk_addr s" "vidMem_table ?i = (\<lambda>_. 0)" "idt ?i = idt s"
    using assms sys_view_screen paging_of_screen_more kernel_of_more by metis+
  have j: "sys_view ?j = sys_view ?i" "bootBlk_addr ?j = bootBlk_addr ?i" "vidMem_table ?j = vidMem_table ?i"
      "idt ?j = idt_table (sym_handler K) (idt ?i)" "master_mask ?j = master_mask ?i" "slave_mask ?j = slave_mask ?i" "io ?j = io ?i"
    by (simp_all add: idt_init_def sys_view_def)
  have more: "paging_state.more (after_paging K e s) = paging_state.more ?j" by (simp add: after_paging_def paging_init_more)
  show "sys_view (after_paging K e s) = sys_view s" using sys_view_more [OF more] i j by simp
  show "bootBlk_addr (after_paging K e s) = bootBlk_addr s" using kernel_of_more [OF more] i j by simp
  show "address_space (sym_layout K) (after_paging K e s) \<lparr>user = None, video = None\<rparr>"
    unfolding after_paging_def using i j by (intro paging_init_address_space) simp
  show "vidMem_table (after_paging K e s) = (\<lambda>_. 0)" unfolding after_paging_def using i j assms by (simp add: paging_init_vidMem)
  show "idt (after_paging K e s) = idt_table (sym_handler K) (idt s)"
    using kernel_of_more [OF more] i j by simp
  have "pic_view (after_paging K e s) = pic_view ?i"
    using j by (simp add: after_paging_def pic_view_paging_init) (simp add: pic_view_def)
  from pic_view_ok [OF this] show "enabled_lines (after_paging K e s) = {2}" "pic_synced (after_paging K e s)"
    by (simp_all add: enabled_i8259_init i8259_init_synced)
qed

lemma keyboard_of_more:
  fixes s s' :: "'a kernel_state_scheme"
  assumes "screen_state.more s' = screen_state.more s"
  shows "keyboard_ready s' = keyboard_ready s \<and> kbd_ok s' = kbd_ok s \<and> line_of s' t = line_of s t \<and> cap_status s' = cap_status s
    \<and> pressed_key s' = pressed_key s \<and> fs_core s' = fs_core s \<and> idt s' = idt s \<and> address_space L s' A = address_space L s A"
  using assms by (cases s, cases s') (simp add: keyboard_ready_def kbd_ok_def line_of_def fs_core_def address_space_def)

lemma init_keyboard_facts:
  fixes s :: "'a kernel_state_scheme"
  shows "sys_view (init_keyboard s) = sys_view s" "fs_core (init_keyboard s) = fs_core s" "idt (init_keyboard s) = idt s"
    "address_space L (init_keyboard s) A = address_space L s A"
    "keyboard_ready (init_keyboard s)" "kbd_ok (init_keyboard s)" "cap_status (init_keyboard s) = 0" "pressed_key (init_keyboard s) = (\<lambda>_. 0)"
    "line_of (init_keyboard s) t = []" "vidMem_table (init_keyboard s) = vidMem_table s"
  by (simp_all add: init_keyboard_def init_scan_code_def enable_irq_def outb_def sys_view_def fs_core_def address_space_def
      keyboard_ready_def kbd_ok_def line_of_def Let_def)

lemma bootblock_facts:
  fixes s :: "'a kernel_state_scheme"
  shows "sys_view (read_filesys_bootblock a s) = sys_view s" "idt (read_filesys_bootblock a s) = idt s"
    "address_space L (read_filesys_bootblock a s) A = address_space L s A" "pic_view (read_filesys_bootblock a s) = pic_view s"
    "fs_mem s' = fs_mem s \<Longrightarrow> fs_core (read_filesys_bootblock a s') = fs_core (read_filesys_bootblock a s)"
  by (simp_all add: read_filesys_bootblock_def sys_view_def fs_core_def address_space_def pic_view_def Let_def)

lemma init_components_facts:
  fixes s :: "'a kernel_state_scheme"
  assumes "vidMem_table s = (\<lambda>_. 0)" and s': "s' = init_components K dev e s"
  shows "sys_view s' = sys_view s" "fs_core s' = fs_core (read_filesys_bootblock (bootBlk_addr s) s)"
    "address_space (sym_layout K) s' \<lparr>user = None, video = None\<rparr>" "idt s' = idt_table (sym_handler K) (idt s)"
    "keyboard_ready s'" "kbd_ok s'" "cap_status s' = 0" "pressed_key s' = (\<lambda>_. 0)" "line_of s' t = []"
    "enabled_lines s' = {0, 1, 2, 8}" "pic_synced s'" "vidMem_table s' = (\<lambda>_. 0)"
proof -
  let ?p = "after_paging K e s"
  let ?f = "read_filesys_bootblock (bootBlk_addr s) ?p"
  let ?k = "init_keyboard ?f"
  note p = after_paging_facts [OF assms(1), of K e]
  have s'k: "s' = rtc_init dev (pit_init ?k)" by (simp add: s' init_components_split p(2))
  then have more: "screen_state.more s' = screen_state.more ?k" by simp
  note k = keyboard_of_more [OF more] and i = init_keyboard_facts [where s = ?f]
  show "sys_view s' = sys_view s" using sys_view_screen [OF more] i(1) bootblock_facts(1) p(1) by metis
  have "vidMem_table ?f = vidMem_table ?p" by (simp add: read_filesys_bootblock_def Let_def)
  then show "vidMem_table s' = (\<lambda>_. 0)" using paging_of_screen_more [OF more] i(10) p(7) by simp
  have "fs_mem ?p = fs_mem s" using p(1) by (simp add: sys_view_def)
  then show "fs_core s' = fs_core (read_filesys_bootblock (bootBlk_addr s) s)" using k i(2) bootblock_facts(5) by metis
  show "address_space (sym_layout K) s' \<lparr>user = None, video = None\<rparr>" using k i(4) bootblock_facts(3) p(3) by metis
  show "idt s' = idt_table (sym_handler K) (idt s)" using k i(3) bootblock_facts(2) p(4) by metis
  show "keyboard_ready s'" "kbd_ok s'" "cap_status s' = 0" "pressed_key s' = (\<lambda>_. 0)" "line_of s' t = []" using k i(5-9) by metis+
  note f = pic_view_ok [OF bootblock_facts(4) [where a = "bootBlk_addr s" and s = ?p]]
  have "pic_synced ?f" "enabled_lines ?f = {2}" using f p(5,6) by simp_all
  then show "enabled_lines s' = {0, 1, 2, 8}" "pic_synced s'" by (simp_all add: s'k pic_init_devices insert_commute)
qed

text \<open>Printing changes nothing but the console.\<close>

lemma puts_loop_more: "puts_loop src a index s = Some y \<Longrightarrow> screen_state.more (snd y) = screen_state.more s"
  by (erule puts_loop.raw_induct [rotated, where P = "\<lambda>src a index s y. screen_state.more (snd y) = screen_state.more s"])
    (fastforce simp: Let_def split: if_splits)

lemma conversion_more: "conversion c alt v stack s = Some (n, s') \<Longrightarrow> screen_state.more s' = screen_state.more s"
  using puts_loop_more
  by (fastforce simp: conversion_def conv_x_def conv_u_def conv_d_def puts_def bind_eq_Some_conv Let_def split: if_splits)

lemma printf_loop_more: "printf_loop fmt buf args esp stack s = Some y \<Longrightarrow> screen_state.more (snd y) = screen_state.more s"
proof (erule printf_loop.raw_induct [rotated, where P = "\<lambda>fmt buf args esp stack s y. screen_state.more (snd y) = screen_state.more s"])
  fix loop :: "memory \<Rightarrow> u32 \<Rightarrow> (nat \<Rightarrow> u32) \<Rightarrow> nat \<Rightarrow> memory \<Rightarrow> 'a screen_state_scheme \<Rightarrow> (u32 \<times> 'a screen_state_scheme) option"
    and fmt buf args esp stack s y
  assume IH: "\<And>buf args esp stack s b y. loop buf args esp stack s b = Some y \<Longrightarrow> screen_state.more (snd y) = screen_state.more b"
    and step: "(if fmt buf = 0 then Some (buf, s)
      else if fmt buf = 37 then skip_alternate fmt (buf + 1) False \<bind> (\<lambda>(alternate, buf).
        conversion (fmt buf) alternate (args esp) stack s \<bind> (\<lambda>(n, s). loop fmt (buf + 1) args (esp + n) stack s))
      else loop fmt (buf + 1) args esp stack (putc (fmt buf) s)) = Some y"
  show "screen_state.more (snd y) = screen_state.more s"
    using step by (auto simp: bind_eq_Some_conv split: if_splits dest!: IH conversion_more)
qed

lemma printk_more: "printk fmt args stack s = Some s' \<Longrightarrow> screen_state.more s' = screen_state.more s"
  using printf_loop_more by (fastforce simp: printk_def printf_def)

definition boot_view :: "'a kernel_state_scheme \<Rightarrow> ((int \<Rightarrow> pcb) \<times> (nat \<Rightarrow> int) \<times> (nat \<Rightarrow> int) \<times> int \<times> int \<times> int \<times> memory)
    \<times> (nat \<Rightarrow> u32) \<times> (nat \<Rightarrow> idt_desc)" where
  "boot_view s = (sys_view s, vidMem_table s, idt s)"

lemma boot_view_screen: "screen_state.more s' = screen_state.more s \<Longrightarrow> boot_view s' = boot_view s"
proof -
  assume m: "screen_state.more s' = screen_state.more s"
  then have "paging_state.more s' = paging_state.more s" "vidMem_table s' = vidMem_table s" using paging_of_screen_more by blast+
  then show ?thesis using sys_view_more [of s' s] kernel_of_more [of s' s] by (simp add: boot_view_def)
qed

lemma printk_view: "printk fmt args stack s = Some s' \<Longrightarrow> boot_view s' = boot_view s"
  by (rule boot_view_screen) (rule printk_more)

lemma print_bytes_view: "print_bytes stack a s = Some s' \<Longrightarrow> boot_view s' = boot_view s"
proof -
  have "fold (\<lambda>i r. do { s \<leftarrow> r; printk ''0x%x '' [scast (fs_mem s (a + of_nat i))] stack s }) xs r = Some s' \<Longrightarrow>
      \<exists>s. r = Some s \<and> boot_view s' = boot_view s" for xs :: "nat list" and r and s' :: "'a kernel_state_scheme"
  proof (induction xs arbitrary: r)
    case (Cons x xs)
    from Cons.IH [OF Cons.prems [unfolded fold_simps]] show ?case
      using printk_view by (fastforce simp: bind_eq_Some_conv)
  qed simp
  then show "print_bytes stack a s = Some s' \<Longrightarrow> ?thesis" unfolding print_bytes_def by blast
qed

lemma bootBlk_view [simp]: "boot_view (s\<lparr>bootBlk_addr := a\<rparr>) = boot_view s"
  by (simp add: boot_view_def sys_view_def)

lemma print_modules_view: "print_modules stack mbi c md s = Some s' \<Longrightarrow> boot_view s' = boot_view s"
  by (erule print_modules.raw_induct [rotated, where P = "\<lambda>stack mbi c md s s'. boot_view s' = boot_view s"])
    (auto simp: bind_eq_Some_conv Let_def split: if_splits dest!: printk_view print_bytes_view)

lemma print_mmap_view: "print_mmap stack mbi m s = Some s' \<Longrightarrow> boot_view s' = boot_view s"
  by (erule print_mmap.raw_induct [rotated, where P = "\<lambda>stack mbi m s s'. boot_view s' = boot_view s"])
    (auto simp: bind_eq_Some_conv split: if_splits dest!: printk_view)

lemma print_if_view:
  "print_if b p s = Some s' \<Longrightarrow> (\<And>s s'. p s = Some s' \<Longrightarrow> boot_view s' = boot_view s) \<Longrightarrow> boot_view s' = boot_view s"
  by (auto simp: print_if_def split: if_splits)

lemma print_multiboot_view: "print_multiboot stack mbi s = Some (go, s') \<Longrightarrow> boot_view s' = boot_view s"
proof -
  assume "print_multiboot stack mbi s = Some (go, s')"
  moreover have "printk fmt args stack t \<bind> (\<lambda>t. print_mmap stack mbi (f t) t) = Some t' \<Longrightarrow> boot_view t' = boot_view t"
    for fmt args f and t t' :: "'a kernel_state_scheme"
    using printk_view print_mmap_view by (fastforce simp: bind_eq_Some_conv)
  ultimately show ?thesis
    unfolding print_multiboot_def
    by (auto simp: bind_eq_Some_conv split: if_splits dest!: printk_view print_if_view print_modules_view)
qed

section \<open>Descriptors and interrupt lines\<close>

text \<open>A segment as the processor reads its descriptor (Intel SDM vol. 3, 3.4.5).\<close>

record segment =
  sg_base :: u32
  sg_limit :: u32
  sg_kind :: u32
  sg_dpl :: u32
  sg_present :: bool
  sg_granular :: bool

definition decode_seg :: "seg_desc \<Rightarrow> segment" where
  "decode_seg d = \<lparr>sg_base = take_bit 16 (drop_bit 16 (seg0 d)) OR push_bit 16 (take_bit 8 (seg1 d)) OR push_bit 24 (drop_bit 24 (seg1 d)),
     sg_limit = take_bit 16 (seg0 d) OR push_bit 16 (take_bit 4 (drop_bit 16 (seg1 d))),
     sg_kind = take_bit 5 (drop_bit 8 (seg1 d)), sg_dpl = take_bit 2 (drop_bit 13 (seg1 d)), sg_present = bit (seg1 d) 15,
     sg_granular = bit (seg1 d) 23\<rparr>"

lemmas seg_fields = seg_lim_15_00_def base_15_00_def base_23_16_def seg_type_def seg_sys_def seg_dpl_def seg_present_def
  seg_lim_19_16_def seg_avail_def seg_reserved_def seg_opsize_def seg_granularity_def base_31_24_def

lemma bit_set_seg:
  "bit (seg0 (set_seg0 f v d)) n \<longleftrightarrow> n < 32 \<and> (if fst f \<le> n \<and> n < fst f + snd f then bit v (n - fst f) else bit (seg0 d) n)"
  "bit (seg1 (set_seg1 f v d)) n \<longleftrightarrow> n < 32 \<and> (if fst f \<le> n \<and> n < fst f + snd f then bit v (n - fst f) else bit (seg1 d) n)"
  "seg1 (set_seg0 f v d) = seg1 d" "seg0 (set_seg1 f v d) = seg0 d"
proof -
  have b: "bit (set_field f v w) n \<longleftrightarrow> n < 32 \<and> (if fst f \<le> n \<and> n < fst f + snd f then bit v (n - fst f) else bit w n)" for w
    using bit_set_field [of n f v w] bit_imp_le_length [of "set_field f v w" n] by auto
  show "bit (seg0 (set_seg0 f v d)) n \<longleftrightarrow> n < 32 \<and> (if fst f \<le> n \<and> n < fst f + snd f then bit v (n - fst f) else bit (seg0 d) n)"
    "bit (seg1 (set_seg1 f v d)) n \<longleftrightarrow> n < 32 \<and> (if fst f \<le> n \<and> n < fst f + snd f then bit v (n - fst f) else bit (seg1 d) n)"
    "seg1 (set_seg0 f v d) = seg1 d" "seg0 (set_seg1 f v d) = seg0 d"
    by (simp_all add: set_seg0_def set_seg1_def b)
qed

lemma address_parts:
  "(0xFF000000 :: u32) = push_bit 24 (mask 8)" "(0x00FF0000 :: u32) = push_bit 16 (mask 8)" "(0x000F0000 :: u32) = push_bit 16 (mask 4)"
  by (simp_all add: mask_eq_exp_minus_1)

lemma decode_params:
  "decode_seg (SET_LDT_PARAMS a l d) = (decode_seg d)\<lparr>sg_base := a, sg_limit := take_bit 20 l\<rparr>"
proof -
  let ?d = "SET_LDT_PARAMS a l d"
  have "sg_base (decode_seg ?d) = a" "sg_limit (decode_seg ?d) = take_bit 20 l"
    unfolding SET_LDT_PARAMS_def address_parts halves decode_seg_def
    by (rule bit_word_eqI, auto simp: bit_simps bit_set_seg seg_fields Let_def)+
  moreover have "take_bit 5 (drop_bit 8 (seg1 ?d)) = take_bit 5 (drop_bit 8 (seg1 d))"
      "take_bit 2 (drop_bit 13 (seg1 ?d)) = take_bit 2 (drop_bit 13 (seg1 d))"
    unfolding SET_LDT_PARAMS_def
    by (rule bit_word_eqI, auto simp: bit_simps bit_set_seg seg_fields Let_def)+
  moreover have "bit (seg1 ?d) 15 = bit (seg1 d) 15" "bit (seg1 ?d) 23 = bit (seg1 d) 23"
    by (simp_all add: SET_LDT_PARAMS_def bit_set_seg seg_fields Let_def)
  ultimately show ?thesis by (simp add: decode_seg_def)
qed

lemma SET_TSS_PARAMS_eq: "SET_TSS_PARAMS = SET_LDT_PARAMS"
  by (intro ext) (simp add: SET_TSS_PARAMS_def SET_LDT_PARAMS_def)

text \<open>
  The vector base of an 8259: after a first initialisation word (a command byte with bit 4 set)
  the next byte on the data port is the base (8259A data sheet, ICW1 and ICW2).
\<close>

fun icw_step :: "u16 \<Rightarrow> u16 \<Rightarrow> io_event \<Rightarrow> bool \<times> u8 option \<Rightarrow> bool \<times> u8 option" where
  "icw_step cmd dat (Outb v p) st =
     (if p = cmd \<and> bit v 4 then (True, snd st) else if p = dat \<and> fst st then (False, Some v) else st)"
| "icw_step cmd dat (Inb p v) st = st"

definition irq_base :: "u16 \<Rightarrow> u16 \<Rightarrow> io_event list \<Rightarrow> u8 option" where
  "irq_base cmd dat es = snd (fold (icw_step cmd dat) es (False, None))"

text \<open>The vector an interrupt line raises.\<close>

definition irq_vector :: "io_event list \<Rightarrow> nat \<Rightarrow> nat option" where
  "irq_vector es n = (if n < 8 then map_option (\<lambda>b. unat b + n) (irq_base 0x20 0x21 es)
     else map_option (\<lambda>b. unat b + (n - 8)) (irq_base 0xA0 0xA1 es))"

lemma icw_other:
  assumes "\<forall>e\<in>set es. case e of Outb v p \<Rightarrow> p \<noteq> cmd | Inb p v \<Rightarrow> True"
  shows "fold (icw_step cmd dat) es (False, b) = (False, b)"
  using assms
proof (induction es)
  case (Cons e es)
  then show ?case by (cases e) auto
qed simp

lemma i8259_base:
  "fold (icw_step 0x20 0x21) (io (i8259_init s)) (False, None) = (False, Some 0x20)"
  "fold (icw_step 0xA0 0xA1) (io (i8259_init s)) (False, None) = (False, Some 0x28)"
proof -
  have b: "bit (0x11 :: u8) 4" by simp
  show "fold (icw_step 0x20 0x21) (io (i8259_init s)) (False, None) = (False, Some 0x20)"
    "fold (icw_step 0xA0 0xA1) (io (i8259_init s)) (False, None) = (False, Some 0x28)"
    by (simp_all add: i8259_init_def Let_def b)
qed

lemma init_vectors:
  fixes s :: "'a kernel_state_scheme"
  assumes s': "s' = init_components K dev e s"
  shows "irq_vector (io s') n = Some (if n < 8 then 0x20 + n else 0x28 + (n - 8))"
proof -
  let ?p = "after_paging K e s"
  have "pic_view ?p = pic_view (i8259_init s)"
    by (simp add: after_paging_def pic_view_paging_init) (simp add: pic_view_def idt_init_def)
  then have p: "io ?p = io (i8259_init s)" by (simp add: pic_view_def)
  obtain es where es: "io s' = io ?p @ es" "\<forall>e\<in>set es. case e of Outb v p \<Rightarrow> p \<noteq> 0x20 \<and> p \<noteq> 0xA0 | Inb p v \<Rightarrow> True"
    unfolding s' init_components_split
    by (simp add: rtc_init_def set_rate_def pit_init_def init_keyboard_def init_scan_code_def enable_irq_def outb_def inb_def
        read_filesys_bootblock_def Let_def rtc_consts)
  have "fold (icw_step 0x20 0x21) es (False, b) = (False, b)" "fold (icw_step 0xA0 0xA1) es (False, b) = (False, b)" for b
    by (rule icw_other; use es(2) in \<open>auto split: io_event.splits\<close>)+
  then show ?thesis by (simp add: irq_vector_def irq_base_def es(1) p i8259_base)
qed

text \<open>The boot, from the loaded machine to the first shell.\<close>

lemma boot_shell:
  fixes s :: "'a kernel_state_scheme"
  assumes "layout_ok (sym_layout K)" and "vidMem_table s = (\<lambda>_. 0)"
    and "t_curr s = (\<lambda>_. -1)" and "proc_state s = (\<lambda>_. 0)" and "\<forall>p. all_closed (pcbs s p)"
    and report: "print_multiboot stack addr (clear s) = Some (True, s1)"
    and b: "b = read_filesys_bootblock (bootBlk_addr s1) s1"
    and entry: "i < nat (num_dentry b)" "takeWhile (\<lambda>c. c \<noteq> 0) (fname (dentry_at b i)) = [115, 104, 101, 108, 108]"
      "\<forall>j<i. takeWhile (\<lambda>c. c \<noteq> 0) (fname (dentry_at b j)) \<noteq> [115, 104, 101, 108, 108]"
    and image: "c = file_contents b (inode (dentry_at b i))" "valid_inode b (inode (dentry_at b i))" "28 \<le> length c" "length c \<le> 0x3B8000"
      "take 4 c = elf_magic"
  shows "\<exists>eip s'. kernel_entry K dev stack g e regs 0x2BADB002 addr s = Some (First_shell 0 eip, s')
    \<and> le_bytes eip = take 4 (drop 24 c) \<and> bytes_at (view (sym_layout K) s') 0x8048000 (length c) = c
    \<and> sched_ok (sym_layout K) 0 s' \<and> user_mapped (sym_layout K) 0 s' \<and> (\<forall>p. live s' p \<longleftrightarrow> p = 0) \<and> hot_ok s' \<and> iflag s'
    \<and> vidMem_table s' = (\<lambda>_. 0) \<and> active_terminal s' = 0
    \<and> fop_read (file_array (pcbs s' 0) 0) = Terminal_read_wrap \<and> flag (file_array (pcbs s' 0) 0) = 1"
proof -
  let ?L = "sym_layout K"
  have v1: "boot_view s1 = boot_view s"
    using print_multiboot_view [OF report] boot_view_screen [of "clear s" s] by simp
  define s2 where "s2 = tss_setup K g (ldt_setup K g s1)"
  have s2: "sys_view s2 = sys_view s" "vidMem_table s2 = (\<lambda>_. 0)" "bootBlk_addr s2 = bootBlk_addr s1" "fs_mem s2 = fs_mem s1"
    using v1 assms(2) by (simp_all add: s2_def tss_setup_def ldt_setup_def boot_view_def sys_view_def Let_def)
  define s3 where "s3 = init_components K dev e s2"
  note f3 = init_components_facts [OF s2(2) s3_def]
  have core3: "fs_core s3 = fs_core b" using f3(2) bootblock_facts(5) [OF s2(4)] by (simp add: b s2(3))
  have pr: "printk ''Enabling Interrupts\<newline>'' [] stack s3 = Some (print_lit ''Enabling Interrupts\<newline>'' s3)"
  proof -
    have l: "length (chars ''Enabling Interrupts\<newline>'') = 20" by code_simp
    have b: "bytes_at (lit_mem ''Enabling Interrupts\<newline>'') 1 20 = chars ''Enabling Interrupts\<newline>''" "lit_mem ''Enabling Interrupts\<newline>'' 21 = 0" "0 \<notin> set (chars ''Enabling Interrupts\<newline>'')" by code_simp+
    have n: "37 \<notin> set (chars ''Enabling Interrupts\<newline>'')" by code_simp
    have "cstr_at (lit_mem ''Enabling Interrupts\<newline>'') 1 (chars ''Enabling Interrupts\<newline>'')" unfolding cstr_at_def l using b by simp
    then show ?thesis unfolding printk_def by (simp only: printf_literal [OF _ n] option.map snd_conv)
  qed
  define s6 where "s6 = clear (launch_tests (sti (print_lit ''Enabling Interrupts\<newline>'' s3)))"
  have "screen_state.more (sti t) = screen_state.more t" for t :: "'a kernel_state_scheme" by (simp add: sti_def)
  then have more: "screen_state.more s6 = screen_state.more s3" by (simp add: s6_def launch_tests_def print_lit_def)
  note k6 = keyboard_of_more [OF more]
  have core6: "fs_core s6 = fs_core b" and space6: "address_space ?L s6 \<lparr>user = None, video = None\<rparr>"
    using k6 core3 f3(3) by simp_all
  have v6: "sys_view s6 = sys_view s" using sys_view_screen [OF more] f3(1) s2(1) by simp
  then have p6: "t_curr s6 = (\<lambda>_. -1)" "proc_state s6 = (\<lambda>_. 0)" "pcbs s6 = pcbs s" using assms(3,4) by (simp_all add: sys_view_def)
  have ok6: "procs_ok s6"
    using assms(5) by (intro procs_okI) (simp_all add: live_def p6 child_def)
  have pid6: "get_pid s6 = 0"
    using pids.alloc_lowest [of s6] pids.alloc_succeeds [of 0 s6] get_pid_free [of s6] by (simp add: p6)
  have d: "dentry_at s6 j = dentry_at b j" "num_dentry s6 = num_dentry b" for j
    using core6 by (simp_all add: dentry_at_def dentry_addr_def fs_core_def)
  obtain eip s' where x: "execute_with_terminal_num ?L stack regs (lit_mem ''shell'') 1 0 s6 = Some (Enter_user 0 eip, s')"
      "le_bytes eip = take 4 (drop 24 c)" "user_mapped ?L 0 s'" "bytes_at (view ?L s') 0x8048000 (length c) = c" "iflag s'"
    using execute_loads [OF assms(1) space6, of "lit_mem ''shell''" 1 "[115, 104, 101, 108, 108]" i c stack regs 0]
      entry image by (auto simp: pid6 shell_command d fs_core_file [OF core6])
  have a: "procs_ok s'" "live s' 0" "running s' 0 0" "p_pid (pcbs s' 0) = 0" "\<forall>p. p \<noteq> 0 \<longrightarrow> live s' p = live s6 p"
    using execute_keeps [OF ok6 _ _ x(1)] by (simp_all add: p6)
  have live: "live s' p \<longleftrightarrow> p = 0" for p using a by (auto simp: live_def p6)
  have t: "t_curr s' 0 = 0" "curr s' = 0" "pcb_terminal (pcbs s' 0) = 0" using a(3) by (simp_all add: running_def)
  have "t_curr s' u = -1" if "u \<in> {1, 2}" for u
    using procs_okD(6) [OF a(1), of u] live that t(3) by fastforce
  then have "hot_ok s'" by (simp add: hot_ok_def)
  moreover have "vidMem_table s' = (\<lambda>_. 0)" "active_terminal s' = 0"
    using execute_terminal [OF x(1)] paging_of_screen_more [OF more] f3(12) by simp_all
  moreover have "sched_ok ?L 0 s'" using a(1,3) x(3) t by (auto simp: sched_ok_def user_mapped_def)
  moreover have "kernel_entry K dev stack g e regs 0x2BADB002 addr s = Some (First_shell 0 eip, s')"
    using report x(1) pr by (simp add: kernel_entry_def Let_def s2_def [symmetric] s3_def [symmetric]) (simp add: s6_def)
  ultimately show ?thesis using x live execute_stdin [OF x(1)] by blast
qed

section \<open>Properties\<close>

text \<open>
  The descriptors of the task state segment and of the local descriptor table. Whatever the
  uninitialised local variable held, the processor reads the address of the segment as base and
  its size as limit, in bytes, present and for the kernel only, with the types of an available
  32-bit task state segment and of a local descriptor table; the task register and the table
  register select them.
\<close>

theorem system_descriptors:
  "decode_seg (tss_desc_ptr (tss_setup K g s)) = \<lparr>sg_base = sym_tss K, sg_limit = 103, sg_kind = 9, sg_dpl = 0, sg_present = True, sg_granular = False\<rparr>
    \<and> decode_seg (ldt_desc_ptr (ldt_setup K g s)) = \<lparr>sg_base = sym_ldt K, sg_limit = 31, sg_kind = 2, sg_dpl = 0, sg_present = True, sg_granular = False\<rparr>
    \<and> tr (tss_setup K g s) = 0x30 \<and> ldtr (ldt_setup K g s) = 0x38 \<and> tss_esp0 (tss_setup K g s) = 0x800000 \<and> tss_ss0 (tss_setup K g s) = 0x18"
proof -
  have bits: "bit (9 :: int) n \<longleftrightarrow> n = 0 \<or> n = 3" "bit (2 :: int) n \<longleftrightarrow> n = 1" for n
    by (auto simp: bit_numeral_rec bit_1_iff numeral_eq_Suc split: nat.splits)
  let ?t = "set_seg0 seg_lim_15_00 104 (set_seg1 seg_type 9 (set_seg1 seg_sys 0 (set_seg1 seg_dpl 0 (set_seg1 seg_present 1
    (set_seg1 seg_lim_19_16 0 (set_seg1 seg_avail 0 (set_seg1 seg_reserved 0 (set_seg1 seg_opsize 0 (set_seg1 seg_granularity 0 g)))))))))"
  let ?l = "set_seg1 seg_type 2 (set_seg1 seg_sys 0 (set_seg1 seg_dpl 0 (set_seg1 seg_present 1 (set_seg1 seg_avail 0 (set_seg1 seg_reserved 0
    (set_seg1 seg_opsize 1 (set_seg1 seg_granularity 0 g)))))))"
  have k: "take_bit 5 (drop_bit 8 (seg1 ?t)) = 9" "take_bit 5 (drop_bit 8 (seg1 ?l)) = 2"
      "take_bit 2 (drop_bit 13 (seg1 ?t)) = 0" "take_bit 2 (drop_bit 13 (seg1 ?l)) = 0"
    by (rule bit_word_eqI, auto simp: bit_simps bit_set_seg seg_fields bits)+
  have b: "bit (seg1 ?t) 15" "bit (seg1 ?l) 15" "\<not> bit (seg1 ?t) 23" "\<not> bit (seg1 ?l) 23"
    by (simp_all add: bit_set_seg seg_fields)
  have "take_bit 20 tss_size = 103" "take_bit 20 ldt_size = 31" by (simp_all add: tss_size_def ldt_size_def)
  then have "decode_seg (SET_LDT_PARAMS (sym_tss K) tss_size ?t) = \<lparr>sg_base = sym_tss K, sg_limit = 103, sg_kind = 9, sg_dpl = 0, sg_present = True, sg_granular = False\<rparr>"
      "decode_seg (SET_LDT_PARAMS (sym_ldt K) ldt_size ?l) = \<lparr>sg_base = sym_ldt K, sg_limit = 31, sg_kind = 2, sg_dpl = 0, sg_present = True, sg_granular = False\<rparr>"
    unfolding decode_params by (simp_all add: decode_seg_def k b)
  then show ?thesis by (simp add: tss_setup_def ldt_setup_def Let_def SET_TSS_PARAMS_eq)
qed

text \<open>
  What the initialisation leaves behind. Exactly the lines of the timer, the keyboard, the
  slave controller and the clock are enabled, and each of the three device lines raises the
  vector whose gate leads to its handler; the address space is the kernel's own; the keyboard
  tables are loaded, the lines empty and no key is down; the file system is the one of the boot
  block; the processes are untouched.
\<close>

theorem boot_initialises:
  assumes "vidMem_table s = (\<lambda>_. 0)" and "s' = init_components K dev e s"
  shows "enabled_lines s' = {0, 1, 2, 8} \<and> pic_synced s'
    \<and> (\<forall>(n, h)\<in>{(0, Pit_handler_asm), (1, Keyboard_handler_asm), (8, Rtc_handler_asm)}.
         \<exists>v. irq_vector (io s') n = Some v \<and> g_offset (decode (idt s' v)) = sym_handler K h \<and> g_present (decode (idt s' v)))
    \<and> address_space (sym_layout K) s' \<lparr>user = None, video = None\<rparr>
    \<and> keyboard_ready s' \<and> kbd_ok s' \<and> line_of s' t = [] \<and> pressed_key s' = (\<lambda>_. 0)
    \<and> fs_core s' = fs_core (read_filesys_bootblock (bootBlk_addr s) s) \<and> sys_view s' = sys_view s"
proof -
  note f = init_components_facts [OF assms]
  have "\<exists>v. irq_vector (io s') n = Some v \<and> g_offset (decode (idt s' v)) = sym_handler K h \<and> g_present (decode (idt s' v))"
    if "(n, h) \<in> {(0, Pit_handler_asm), (1, Keyboard_handler_asm), (8, Rtc_handler_asm)}" for n h
    using that by (auto simp: init_vectors [OF assms(2)] f(4) idt_table_gate finished_gate_def vector_handler_def)
  then show ?thesis using f by blast
qed

text \<open>
  A boot that gets past the Multiboot report enters the first shell. With the variables as
  they are statically initialised and a file system that holds an executable \<open>shell\<close>, \<open>entry\<close>
  ends by entering process 0 on the first terminal at the entry point of the file, with its
  contents in the user page and interrupts enabled, in a state that satisfies the invariants of
  the process table, the scheduler and the hot keys.
\<close>

theorem boot_enters_first_shell:
  fixes s :: "'a kernel_state_scheme"
  assumes "layout_ok (sym_layout K)" and "vidMem_table s = (\<lambda>_. 0)"
    and "t_curr s = (\<lambda>_. -1)" and "proc_state s = (\<lambda>_. 0)" and "\<forall>p. all_closed (pcbs s p)"
    and report: "print_multiboot stack addr (clear s) = Some (True, s1)"
    and b: "b = read_filesys_bootblock (bootBlk_addr s1) s1"
    and entry: "i < nat (num_dentry b)" "takeWhile (\<lambda>c. c \<noteq> 0) (fname (dentry_at b i)) = [115, 104, 101, 108, 108]"
      "\<forall>j<i. takeWhile (\<lambda>c. c \<noteq> 0) (fname (dentry_at b j)) \<noteq> [115, 104, 101, 108, 108]"
    and image: "c = file_contents b (inode (dentry_at b i))" "valid_inode b (inode (dentry_at b i))" "28 \<le> length c" "length c \<le> 0x3B8000"
      "take 4 c = elf_magic"
  shows "\<exists>eip s'. kernel_entry K dev stack g e regs 0x2BADB002 addr s = Some (First_shell 0 eip, s')
    \<and> le_bytes eip = take 4 (drop 24 c) \<and> bytes_at (view (sym_layout K) s') 0x8048000 (length c) = c
    \<and> sched_ok (sym_layout K) 0 s' \<and> user_mapped (sym_layout K) 0 s' \<and> (\<forall>p. live s' p \<longleftrightarrow> p = 0) \<and> hot_ok s' \<and> iflag s'"
  using boot_shell [OF assms, of dev g e regs] by blast

section \<open>Witnesses\<close>

text \<open>The machine as it is loaded, with the file system at its place and a Multiboot structure without flags at 0x10000.\<close>

definition boot_symbols :: symbols where
  "boot_symbols = \<lparr>sym_layout = boot_layout, sym_handler = demo_addr, sym_ldt = 0x413000, sym_tss = 0x414000\<rparr>"

definition loaded :: kernel_state where
  "loaded = idt_state.extend (sys_state.extend (elf_demo\<lparr>ram := \<lambda>_. 0, vidMem_table := \<lambda>_. 0, t_curr := \<lambda>_. -1, proc_state := \<lambda>_. 0,
       screen_x := 0, screen_y := 0\<rparr>) (idt_state.fields (\<lambda>_. \<lparr>val0 = 7, val1 = 9\<rparr>)))
     (kernel_state.fields \<lparr>seg0 = 0, seg1 = 0\<rparr> \<lparr>seg0 = 0, seg1 = 0\<rparr> 0 0 0 False 0x500000)"

lemma loaded_fields:
  "vidMem_table loaded = (\<lambda>_. 0)" "t_curr loaded = (\<lambda>_. -1)" "proc_state loaded = (\<lambda>_. 0)" "pcbs loaded = (\<lambda>_. idle_pcb)"
  "ram loaded = (\<lambda>_. 0)" "screen_x loaded = 0" "screen_y loaded = 0" "bootBlk_addr loaded = 0x500000" "fs_mem loaded = elf_image"
  using elf_demo_fields(1,10) by (simp_all add: loaded_def sys_state.defs idt_state.defs kernel_state.defs)

theorem boot_initialises_witness:
  "enabled_lines (init_components boot_symbols (\<lambda>_ _. 0) 0 loaded) = {0, 1, 2, 8}"
  using boot_initialises [OF loaded_fields(1) refl] by blast

lemma put_frame:
  fixes s :: "'a screen_state_scheme"
  assumes "0 \<le> screen_x s" "screen_x s < 80" "0 \<le> screen_y s" "screen_y s < 25" "10 \<notin> set cs" "13 \<notin> set cs" "a \<notin> region video_mem 4000"
  shows "ram (fold putc cs s) a = ram s a \<and> 0 \<le> screen_x (fold putc cs s) \<and> screen_x (fold putc cs s) < 80 \<and> screen_y (fold putc cs s) = screen_y s"
  using assms(1-6)
proof (induction cs arbitrary: s)
  case (Cons c cs)
  have r: "ram (putc c s) = put_cell video_mem (screen_x s) (screen_y s) c (ram s)" "screen_y (putc c s) = screen_y s"
      "screen_x (putc c s) = (screen_x s + 1) mod 80"
    using Cons.prems by (simp_all add: putc_def Let_def)
  have "nat (80 * screen_y s + screen_x s) < 2000" using Cons.prems by simp
  then have "ram (putc c s) a = ram s a"
    using Cons.prems assms(7) by (simp add: r put_cell_nat set_cell_frame)
  then show ?case using Cons.IH [of "putc c s"] Cons.prems r(2,3) by simp
qed simp

lemma printf_loop_prefix:
  assumes "bytes_at fmt buf (length cs) = cs" "37 \<notin> set cs" "0 \<notin> set cs"
  shows "printf_loop fmt buf args esp stack s = printf_loop fmt (buf + of_nat (length cs)) args esp stack (fold putc cs s)"
  using assms
proof (induction cs arbitrary: buf s)
  case (Cons c cs)
  then show ?case by (simp add: printf_loop.simps [of fmt buf] bytes_at_Suc algebra_simps)
qed simp

lemma printk_flags:
  "printk ''flags = 0x%#x\<newline>'' [v] stack s
     = Some (putc 10 (fold putc (numeral_text 120 True v) (fold putc [102, 108, 97, 103, 115, 32, 61, 32, 48, 120] s)))"
proof -
  let ?m = "lit_mem ''flags = 0x%#x\<newline>''"
  have m: "bytes_at ?m 1 10 = [102, 108, 97, 103, 115, 32, 61, 32, 48, 120]" "?m 11 = 37" "?m 12 = 35" "?m 13 = 120" "?m 14 = 10" "?m 15 = 0"
    by code_simp+
  have l: "length [102, 108, 97, 103, 115, 32, 61, 32, 48, 120 :: u8] = 10" by simp
  have c: "conversion 120 True v stack s = Some (1, fold putc (numeral_text 120 True v) s)" for s :: "'a screen_state_scheme"
    by (simp add: conversion_def conv_x_text)
  have sk: "skip_alternate ?m 12 False = Some (True, 13)"
    by (simp add: skip_alternate.simps [of ?m "12"] skip_alternate.simps [of ?m "13"] m)
  show ?thesis
    unfolding printk_def printf_def
    by (subst printf_loop_prefix [where cs = "[102, 108, 97, 103, 115, 32, 61, 32, 48, 120]"], unfold l)
      (simp_all add: m printf_loop.simps [of ?m "11"] printf_loop.simps [of ?m "14"] printf_loop.simps [of ?m "15"] sk c)
qed

lemma clear_frame:
  assumes "a \<notin> region video_mem 4000"
  shows "ram (clear s) a = ram s a" "screen_x (clear s) = screen_x s" "screen_y (clear s) = screen_y s"
  using clear_fold [of 2000 video_mem "ram s"] assms
  by (simp_all add: clear_def update_cursor_def outb_def set_x_def set_y_def set_cell_def [abs_def] Let_def del: upt_rec_numeral)

lemma loaded_report: "\<exists>s1. print_multiboot (\<lambda>_. 0) 0x10000 (clear loaded) = Some (True, s1) \<and> screen_state.more s1 = screen_state.more loaded"
proof -
  let ?c = "clear loaded"
  define txt_flags where "txt_flags = [102, 108, 97, 103, 115, 32, 61, 32, 48, 120] @ replicate 8 (48 :: u8)"
  define p where "p = fold putc txt_flags ?c"
  have z: "numeral_text 120 True 0 = replicate 8 48" by code_simp
  have nl: "10 \<notin> set txt_flags" "13 \<notin> set txt_flags" by (simp_all add: txt_flags_def)
  have "\<forall>a\<in>set [0x10000, 0x10001, 0x10002, 0x10003]. \<not> unat (a - video_mem) < 4000" by (simp add: video_mem_def)
  then have out: "a \<notin> region video_mem 4000" if "a \<in> {0x10000, 0x10001, 0x10002, 0x10003}" for a
    using that by (auto simp only: in_region_iff list.set)
  have c: "ram ?c a = 0" "screen_x ?c = 0" "screen_y ?c = 0" if "a \<in> {0x10000, 0x10001, 0x10002, 0x10003}" for a
    using clear_frame [OF out [OF that], of loaded] by (simp_all only: loaded_fields)
  have p: "ram p a = 0" if "a \<in> {0x10000, 0x10001, 0x10002, 0x10003}" for a
    using put_frame [OF _ _ _ _ nl out [OF that], of ?c] c [OF that] by (simp add: p_def)
  have "ram (putc 10 p) = ram p" by (simp add: putc_def)
  then have f: "mbi_field 0x10000 0 ?c = 0" "mbi_field 0x10000 0 (putc 10 p) = 0"
    using c(1) p by (simp_all add: mbi_field_def load32_def)
  have k: "printk ''flags = 0x%#x\<newline>'' [0] (\<lambda>_. 0) ?c = Some (putc 10 p)"
    by (simp only: printk_flags z p_def txt_flags_def fold_append comp_def)
  have "\<not> CHECK_FLAG 0 n" for n by (simp add: CHECK_FLAG_def)
  then have "print_multiboot (\<lambda>_. 0) 0x10000 ?c = Some (True, putc 10 p)"
    by (simp only: print_multiboot_def f k print_if_def bind.bind_lunit if_False simp_thms)
  moreover have "screen_state.more (putc 10 p) = screen_state.more loaded" by (simp add: p_def)
  ultimately show ?thesis by blast
qed

lemma loaded_image:
  "\<exists>s1. print_multiboot (\<lambda>_. 0) 0x10000 (clear loaded) = Some (True, s1) \<and> fs_core (read_filesys_bootblock (bootBlk_addr s1) s1) = fs_core elf_demo"
proof -
  obtain s1 where r: "print_multiboot (\<lambda>_. 0) 0x10000 (clear loaded) = Some (True, s1)" "screen_state.more s1 = screen_state.more loaded"
    using loaded_report by blast
  have "bootBlk_addr s1 = 0x500000" "fs_mem s1 = elf_image"
    using kernel_of_more [of s1 loaded] sys_view_screen [OF r(2)] paging_of_screen_more [OF r(2)] by (simp_all add: loaded_fields sys_view_def)
  moreover have "fs_core elf_demo = (elf_image, 1, 2, 0x500040, 0x501000, 0x503000)" by (simp add: fs_core_def elf_demo_fields)
  moreover have "load32 elf_image 0x500000 = 1" "load32 elf_image 0x500004 = 2" "load32 elf_image 0x500008 = 1" by code_simp+
  ultimately have "fs_core (read_filesys_bootblock (bootBlk_addr s1) s1) = fs_core elf_demo"
    by (simp add: read_filesys_bootblock_def fs_core_def Let_def)
  with r(1) show ?thesis by blast
qed

text \<open>What a file system with the demo image offers.\<close>

lemma elf_demo_core:
  assumes "fs_core b = fs_core elf_demo"
  shows "0 < nat (num_dentry b)" "takeWhile (\<lambda>c. c \<noteq> 0) (fname (dentry_at b 0)) = [115, 104, 101, 108, 108]"
    "file_contents b (inode (dentry_at b 0)) = elf_file" "valid_inode b (inode (dentry_at b 0))" "length elf_file = 28" "take 4 elf_file = elf_magic"
proof -
  have d: "dentry_at b j = dentry_at elf_demo j" "num_dentry b = 1" for j
    using assms by (simp_all add: dentry_at_def dentry_addr_def fs_core_def elf_demo_fields)
  show "0 < nat (num_dentry b)" "takeWhile (\<lambda>c. c \<noteq> 0) (fname (dentry_at b 0)) = [115, 104, 101, 108, 108]"
    "file_contents b (inode (dentry_at b 0)) = elf_file" "valid_inode b (inode (dentry_at b 0))"
    by (simp_all add: d elf_demo_file fs_core_file [OF assms])
  show "length elf_file = 28" "take 4 elf_file = elf_magic" by (simp_all add: elf_file_def elf_magic_def)
qed

theorem boot_enters_first_shell_witness:
  "\<exists>eip s'. kernel_entry boot_symbols (\<lambda>_ _. 0) (\<lambda>_. 0) \<lparr>seg0 = 1, seg1 = 2\<rparr> 0 (0, 0) 0x2BADB002 0x10000 loaded = Some (First_shell 0 eip, s')
     \<and> le_bytes eip = [0x00, 0x90, 0x04, 0x08] \<and> sched_ok boot_layout 0 s' \<and> hot_ok s'"
proof -
  obtain s1 where r: "print_multiboot (\<lambda>_. 0) 0x10000 (clear loaded) = Some (True, s1)"
      and core: "fs_core (read_filesys_bootblock (bootBlk_addr s1) s1) = fs_core elf_demo"
    using loaded_image by blast
  have f: "take 4 (drop 24 elf_file) = [0x00, 0x90, 0x04, 0x08]" by (simp add: elf_file_def elf_magic_def)
  have "all_closed idle_pcb" by (simp add: all_closed_def idle_pcb_def idle_fd_def)
  then show ?thesis
    using boot_enters_first_shell [of boot_symbols loaded, OF _ _ _ _ _ r refl, of 0 elf_file "\<lambda>_ _. 0" "\<lparr>seg0 = 1, seg1 = 2\<rparr>" 0 "(0, 0)"]
      elf_demo_core [OF core] f
    by (auto simp: boot_symbols_def elf_demo_space(2) loaded_fields)
qed

end
