(* ===== verification/Format.thy ===== *)
theory Format
  imports Kernel
begin

text \<open>
  What \<open>printf\<close> (\<open>lib.c\<close>) prints for a format with arguments: a reference definition on lists of
  characters, to which the loop over the format string is equivalent, and the two forms in which
  the kernel uses it.
\<close>

section \<open>The reference\<close>

text \<open>
  The text of a format with its arguments, for the conversions \<open>%d\<close>, \<open>%u\<close>, \<open>%x\<close>, \<open>%#x\<close>, \<open>%c\<close> and \<open>%%\<close>,
  and for unknown ones, which print nothing. There is no text when an argument is missing, when a
  conversion prints a string of its own (\<open>%s\<close>), and when the format ends inside a conversion.
\<close>

function format_text :: "u8 list \<Rightarrow> u32 list \<Rightarrow> u8 list option" where
  "format_text [] args = Some []"
| "format_text (c # cs) args =
     (if c \<noteq> 37 then map_option (Cons c) (format_text cs args)
      else case dropWhile (\<lambda>c. c = 35) cs of
        [] \<Rightarrow> None
      | d # ds \<Rightarrow>
          if d = 37 then map_option (Cons 37) (format_text ds args)
          else if d \<in> {99, 100, 117, 120} then
            (case args of [] \<Rightarrow> None
             | v # vs \<Rightarrow> map_option (append (if d = 99 then [ucast v] else numeral_text d (cs \<noteq> d # ds) v)) (format_text ds vs))
          else if d = 115 then None
          else format_text ds args)"
  by pat_completeness auto
termination
proof (relation "measure (\<lambda>(cs, args). length cs)", goal_cases)
  case (3 c cs args d ds)
  then show ?case using length_dropWhile_le [of "\<lambda>c. c = 35" cs] by simp
next
  case (4 c cs args d ds v vs)
  then show ?case using length_dropWhile_le [of "\<lambda>c. c = 35" cs] by simp
next
  case (5 c cs args d ds)
  then show ?case using length_dropWhile_le [of "\<lambda>c. c = 35" cs] by simp
qed simp_all

declare format_text.simps(2) [simp del]

lemma skip_hashes:
  "cstr_at fmt a cs \<Longrightarrow>
     \<exists>k. skip_alternate fmt a b = Some (b \<or> cs \<noteq> dropWhile (\<lambda>c. c = 35) cs, a + of_nat k)
       \<and> cstr_at fmt (a + of_nat k) (dropWhile (\<lambda>c. c = 35) cs) \<and> k + length (dropWhile (\<lambda>c. c = 35) cs) = length cs"
proof (induction cs arbitrary: a b)
  case Nil
  then show ?case by (subst skip_alternate.simps) auto
next
  case (Cons c cs)
  then have c: "fmt a = c" "cstr_at fmt (a + 1) cs" by (simp_all add: cstr_at_Cons)
  show ?case
  proof (cases "c = 35")
    case True
    obtain k where k: "skip_alternate fmt (a + 1) True = Some (True, a + 1 + of_nat k)"
        "cstr_at fmt (a + 1 + of_nat k) (dropWhile (\<lambda>c. c = 35) cs)" "k + length (dropWhile (\<lambda>c. c = 35) cs) = length cs"
      using Cons.IH [OF c(2), of True] by auto
    have "c # cs \<noteq> dropWhile (\<lambda>c. c = 35) cs" using length_dropWhile_le [of "\<lambda>c. c = 35" cs] by (metis impossible_Cons)
    then show ?thesis using True c(1) k by (intro exI [of _ "Suc k"], subst skip_alternate.simps) (simp add: algebra_simps)
  next
    case False
    then show ?thesis using Cons.prems c(1) by (intro exI [of _ 0], subst skip_alternate.simps) simp
  qed
qed

section \<open>The loop over the format\<close>

lemma conversion_text:
  "d \<in> {99, 100, 117, 120} \<Longrightarrow>
     conversion d alt v stack s = Some (1, fold putc (if d = 99 then [ucast v] else numeral_text d alt v) s)"
  using conv_u_text [of v stack s alt] conv_d_text [of v stack s alt] conv_x_text [of alt v stack s]
  by (auto simp: conversion_def)

lemma conversion_other: "d \<notin> {37, 99, 100, 115, 117, 120} \<Longrightarrow> conversion d alt v stack s = Some (0, s)"
  by (simp add: conversion_def)

text \<open>One conversion of the loop: the characters \<open>%\<close>, the hashes and \<open>d\<close>.\<close>

lemma printf_loop_conv:
  assumes "cstr_at fmt a (37 # cs)" "dropWhile (\<lambda>c. c = 35) cs = d # ds" "conversion d (cs \<noteq> d # ds) (args e) stack s = Some (n, s')"
  shows "\<exists>b. printf_loop fmt a args e stack s = printf_loop fmt b args (e + n) stack s'
    \<and> cstr_at fmt b ds \<and> b + of_nat (length ds) = a + of_nat (length (37 # cs))"
proof -
  have a: "fmt a = 37" "cstr_at fmt (a + 1) cs" using assms(1) by (simp_all add: cstr_at_Cons)
  obtain k where k: "skip_alternate fmt (a + 1) False = Some (False \<or> cs \<noteq> d # ds, a + 1 + of_nat k)" "cstr_at fmt (a + 1 + of_nat k) (d # ds)"
      "k + length (d # ds) = length cs"
    using skip_hashes [OF a(2), of False] unfolding assms(2) by blast
  then have d: "fmt (a + 1 + of_nat k) = d" "cstr_at fmt (a + 1 + of_nat k + 1) ds" by (simp_all add: cstr_at_Cons)
  have "printf_loop fmt a args e stack s = printf_loop fmt (a + 1 + of_nat k + 1) args (e + n) stack s'"
    using a(1) k(1) d(1) assms(3) by (subst printf_loop.simps) simp
  moreover have "a + 1 + of_nat k + 1 + of_nat (length ds) = a + of_nat (length (37 # cs))"
    using k(3) by (metis (no_types, lifting) add.assoc add.commute length_Cons of_nat_Suc of_nat_add)
  ultimately show ?thesis using d(2) by blast
qed

lemma printf_loop_text:
  "cstr_at fmt a cs \<Longrightarrow> format_text cs vs = Some out \<Longrightarrow> (\<And>i. i < length vs \<Longrightarrow> args (e + i) = vs ! i) \<Longrightarrow>
     printf_loop fmt a args e stack s = Some (a + of_nat (length cs), fold putc out s)"
proof (induction cs vs arbitrary: a e s out rule: format_text.induct)
  case (1 vs)
  then show ?case by (simp add: printf_loop.simps [of fmt a])
next
  case (2 c cs vs)
  show ?case
  proof (cases "c = 37")
    case False
    obtain t where t: "format_text cs vs = Some t" "out = c # t" using 2(6) False by (auto simp: format_text.simps)
    have c: "fmt a = c" "c \<noteq> 0" "cstr_at fmt (a + 1) cs" using 2(5) by (simp_all add: cstr_at_Cons)
    show ?thesis
      using 2(1) [OF False c(3) t(1) 2(7)] False c(1,2) t(2) by (subst printf_loop.simps) (simp add: algebra_simps)
  next
    case True
    note IH = 2(2-4) and prems = 2(5-7)
    obtain d ds where d: "dropWhile (\<lambda>c. c = 35) cs = d # ds" using prems(2) True by (auto simp: format_text.simps split: list.splits)
    note conv = printf_loop_conv [of fmt a cs d ds, OF prems(1) [unfolded True] d, where args = args and e = e and stack = stack and s = s]
    have T: "\<not> c \<noteq> 37" using True by simp
    consider (percent) "d = 37" | (arg) "d \<noteq> 37" "d \<in> {99, 100, 117, 120}" | (other) "d \<noteq> 37" "d \<notin> {99, 100, 117, 120}" "d \<noteq> 115"
      using prems(2) d True by (fastforce simp: format_text.simps)
    then show ?thesis
    proof cases
      case percent
      obtain t where t: "format_text ds vs = Some t" "out = 37 # t" using prems(2) percent d True by (auto simp: format_text.simps)
      have cv: "conversion d (cs \<noteq> d # ds) (args e) stack s = Some (0, putc 37 s)" using percent by (simp add: conversion_def)
      show ?thesis using conv [OF cv] IH(1) [OF T d percent _ t(1), of _ "e" "putc 37 s"] prems(3) t(2) True by auto
    next
      case arg
      then obtain v us where v: "vs = v # us" using prems(2) d True by (cases vs) (auto simp: format_text.simps)
      let ?w = "if d = 99 then [ucast v] else numeral_text d (cs \<noteq> d # ds) v"
      obtain t where t: "format_text ds us = Some t" "out = ?w @ t" using prems(2) arg d v True by (auto simp: format_text.simps)
      have "args e = v" using prems(3) [of 0] v by simp
      then have cv: "conversion d (cs \<noteq> d # ds) (args e) stack s = Some (1, fold putc ?w s)" using conversion_text [OF arg(2)] by (simp only:)
      have "args (e + 1 + i) = us ! i" if "i < length us" for i using prems(3) [of "Suc i"] that v by simp
      then show ?thesis using conv [OF cv] IH(2) [OF T d arg v _ t(1), of _ "e + 1" "fold putc ?w s"] t(2) True by auto
    next
      case other
      then have t: "format_text ds vs = Some out" using prems(2) d True by (auto simp: format_text.simps)
      have cv: "conversion d (cs \<noteq> d # ds) (args e) stack s = Some (0, s)" using other by (intro conversion_other) auto
      show ?thesis using conv [OF cv] IH(3) [OF T d other(1-3) _ t, of _ "e" s] prems(3) True by auto
    qed
  qed
qed

section \<open>Properties\<close>

text \<open>
  C15: \<open>printf\<close> prints its format. For a format with the conversions \<open>%d\<close>, \<open>%u\<close>, \<open>%x\<close>, \<open>%c\<close> and \<open>%%\<close>, any
  number of hashes in them, and enough arguments, it returns the length of the format and has typed
  exactly the text of the reference definition, whatever its uninitialised buffer held.
\<close>

theorem printf_types_format_text:
  assumes "cstr_at fmt a cs" and "format_text cs vs = Some out" and "\<And>i. i < length vs \<Longrightarrow> args i = vs ! i"
  shows "printf fmt a args stack s = Some (of_nat (length cs), fold putc out s)"
  using printf_loop_text [OF assms(1,2), of args 0 stack s] assms(3) by (simp add: printf_def)

text \<open>The literals of the kernel.\<close>

lemma lit_string:
  assumes "0 \<notin> set (chars cs)" "length cs < 4294967295"
  shows "cstr_at (lit_mem cs) 1 (chars cs)"
proof -
  have l: "length (chars cs) = length cs" by (simp add: chars_def)
  have u: "unat (1 + of_nat i :: u32) = Suc i" if "i \<le> length cs" for i using that assms(2) by (simp add: unat_word_ariths unat_of_nat)
  have "bytes_at (lit_mem cs) 1 (length cs) = chars cs"
    using l by (intro nth_equalityI) (simp_all add: lit_mem_def u)
  moreover have "lit_mem cs (1 + of_nat (length cs)) = 0" by (simp add: lit_mem_def u)
  ultimately show ?thesis using assms l by (simp add: cstr_at_def)
qed

lemma printk_text:
  assumes "format_text (chars cs) vs = Some out" "0 \<notin> set (chars cs)" "length cs < 4294967295"
  shows "printk cs vs stack s = Some (fold putc out s)"
  using printf_loop_text [OF lit_string [OF assms(2,3)] assms(1), of "\<lambda>i. if i < length vs then vs ! i else 0" 0 stack s]
  by (simp add: printk_def printf_def)

theorem printf_types_format_text_witness:
  "printf (lit_mem ''%d of %#x%%'') 1 (\<lambda>i. if i < 2 then [- 7, 255] ! i else 0) (\<lambda>_. 3) screen_boot
     = Some (11, fold putc (chars ''-7 of 000000FF%'') screen_boot)"
proof -
  let ?c = "chars ''%d of %#x%%''"
  have c: "cstr_at (lit_mem ''%d of %#x%%'') 1 ?c" by (rule lit_string) (simp_all add: chars_def)
  have t: "format_text ?c [- 7, 255] = Some (chars ''-7 of 000000FF%'')" by code_simp
  have "length ?c = 11" by (simp add: chars_def)
  then show ?thesis using printf_types_format_text [OF c t, of "\<lambda>i. if i < 2 then [- 7, 255] ! i else 0" "\<lambda>_. 3" screen_boot] by simp
qed

end
