(* ===== verification/Boot_Image.thy ===== *)
theory Boot_Image
  imports Format
begin

text \<open>
  A machine as the boot loader leaves it, for the examples of the boot and of the running system:
  the Multiboot structure names one module, the file system image with an executable
  \<open>shell\<close>, and \<open>entry\<close> reports it and takes its address.
\<close>

section \<open>The machine\<close>

text \<open>
  The structure lies at 0x10000: flags (bit 3: there are modules), at 20 their number, at 24 the
  address of the first module's record, which holds where the module starts and ends.
\<close>

definition boot_info :: memory where
  "boot_info =
     (let m = store32 (\<lambda>_. 0) 0x10000 8; m = store32 m 0x10014 1; m = store32 m 0x10018 0x10100; m = store32 m 0x10100 0x500000
      in store32 m 0x10104 0x504000)"

definition started :: kernel_state where
  "started = loaded\<lparr>ram := boot_info, bootBlk_addr := 0\<rparr>"

lemma started_fields:
  "vidMem_table started = (\<lambda>_. 0)" "t_curr started = (\<lambda>_. -1)" "proc_state started = (\<lambda>_. 0)" "pcbs started = (\<lambda>_. idle_pcb)"
  "ram started = boot_info" "screen_x started = 0" "screen_y started = 0" "bootBlk_addr started = 0" "fs_mem started = elf_image"
  by (simp_all add: started_def loaded_fields)

section \<open>Printing leaves the structure alone\<close>

definition line_ends :: "u8 list \<Rightarrow> nat" where
  "line_ends cs = length (filter (\<lambda>c. c = 10 \<or> c = 13) cs)"

text \<open>The structure is in place and the cursor is in row \<open>n\<close>.\<close>

definition info_kept :: "nat \<Rightarrow> 'a screen_state_scheme \<Rightarrow> bool" where
  "info_kept n s \<longleftrightarrow> (\<forall>a\<in>region 0x10000 0x200. ram s a = boot_info a) \<and> 0 \<le> screen_x s \<and> screen_x s < 80 \<and> screen_y s = int n"

lemma info_apart: "region 0x10000 0x200 \<inter> region video_mem 4000 = {}"
  by (rule region_disjoint) (simp_all add: video_mem_def)

lemma putc_info:
  assumes "info_kept n s" "n + line_ends [c] < 25"
  shows "info_kept (n + line_ends [c]) (putc c s)"
proof (cases "c = 10 \<or> c = 13")
  case True
  then show ?thesis using assms by (auto simp: info_kept_def line_ends_def putc_def)
next
  case False
  then have r: "ram (putc c s) = put_cell video_mem (screen_x s) (screen_y s) c (ram s)" "screen_y (putc c s) = screen_y s"
      "screen_x (putc c s) = (screen_x s + 1) mod 80"
    using assms by (auto simp: info_kept_def line_ends_def putc_def Let_def)
  have k: "0 \<le> screen_x s" "screen_x s < 80" "0 \<le> screen_y s" "screen_y s < 25" "nat (80 * screen_y s + screen_x s) < 2000"
    using assms by (auto simp: info_kept_def)
  have "ram (putc c s) a = ram s a" if "a \<in> region 0x10000 0x200" for a
  proof -
    have "a \<notin> region video_mem 4000" using info_apart that by auto
    then show ?thesis using k by (simp add: r(1) put_cell_nat set_cell_frame)
  qed
  then show ?thesis using assms False r(2,3) by (auto simp: info_kept_def line_ends_def)
qed

lemma print_info: "info_kept n s \<Longrightarrow> n + line_ends cs < 25 \<Longrightarrow> info_kept (n + line_ends cs) (fold putc cs s)"
proof (induction cs arbitrary: n s)
  case (Cons c cs)
  have e: "line_ends (c # cs) = line_ends [c] + line_ends cs" by (simp add: line_ends_def)
  then have "info_kept (n + line_ends [c]) (putc c s)" using putc_info [OF Cons.prems(1)] Cons.prems(2) by simp
  from Cons.IH [OF this] show ?case using Cons.prems(2) e by (simp add: add.assoc)
qed (simp add: line_ends_def)

lemma printk_info:
  fixes s :: "'a screen_state_scheme"
  assumes "info_kept n s" "format_text (chars fmt) vs = Some out" "0 \<notin> set (chars fmt)" "length fmt < 4294967295" "n + line_ends out < 25"
  shows "\<exists>s'. printk fmt vs stack s = Some s' \<and> info_kept (n + line_ends out) s' \<and> screen_state.more s' = screen_state.more s"
  using printk_text [OF assms(2-4), of stack s] print_info [OF assms(1,5)] by simp

lemma info_field:
  assumes "info_kept n s" "{a + off, a + off + 1, a + off + 2, a + off + 3} \<subseteq> region 0x10000 0x200"
  shows "mbi_field a off s = load32 boot_info (a + off)"
  using assms by (simp add: info_kept_def mbi_field_def load32_def)

lemma info_fields:
  assumes "info_kept n s"
  shows "mbi_field 0x10000 0 s = 8" "mbi_field 0x10000 20 s = 1" "mbi_field 0x10000 24 s = 0x10100"
    "mbi_field 0x10100 0 s = 0x500000" "mbi_field 0x10100 4 s = 0x504000"
proof -
  have "load32 boot_info 0x10000 = 8" "load32 boot_info 0x10014 = 1" "load32 boot_info 0x10018 = 0x10100"
    "load32 boot_info 0x10100 = 0x500000" "load32 boot_info 0x10104 = 0x504000" by code_simp+
  then show "mbi_field 0x10000 0 s = 8" "mbi_field 0x10000 20 s = 1" "mbi_field 0x10000 24 s = 0x10100"
    "mbi_field 0x10100 0 s = 0x500000" "mbi_field 0x10100 4 s = 0x504000"
    using info_field [OF assms] by (simp_all add: in_region_iff)
qed

text \<open>Sixteen bytes of the module, each in hexadecimal.\<close>

lemma line_ends_append [simp]: "line_ends (cs @ ds) = line_ends cs + line_ends ds"
  by (simp add: line_ends_def)

lemma numeral_ends [simp]: "line_ends (numeral_text c alt v) = 0"
proof -
  have c: "\<forall>d\<in>set [0..<16]. digit_char d \<noteq> 10 \<and> digit_char d \<noteq> 13" by code_simp
  have "digit_char d \<noteq> 10 \<and> digit_char d \<noteq> 13" if "d \<in> set (digits b n)" "b = 10 \<or> b = 16" for d b n
  proof -
    have "d < b" using digits_less [of b d n] that by auto
    then have "d \<in> set [0..<16]" using that(2) by auto
    then show ?thesis using c by blast
  qed
  then show ?thesis by (auto simp: line_ends_def numeral_text_def filter_empty_conv Let_def)
qed

lemma byte_text:
  "\<exists>out. format_text (chars ''0x%x '') [v] = Some out \<and> line_ends out = 0"
proof -
  have "format_text (chars ''0x%x '') [v] = Some ([48, 120] @ numeral_text 120 False v @ [32])"
    by (simp add: chars_def format_text.simps)
  moreover have "line_ends ([48, 120] @ numeral_text 120 False v @ [32]) = 0"
    unfolding line_ends_append numeral_ends by (simp add: line_ends_def)
  ultimately show ?thesis by blast
qed

lemma print_bytes_info:
  fixes s :: "'a fs_state_scheme"
  assumes "info_kept n s" "n < 25"
  shows "\<exists>s'. print_bytes stack start s = Some s' \<and> info_kept n s' \<and> screen_state.more s' = screen_state.more s"
proof -
  have "info_kept n s \<Longrightarrow> \<exists>s'. fold (\<lambda>i r. do { s \<leftarrow> r; printk ''0x%x '' [scast (fs_mem s (start + of_nat i))] stack s }) js (Some s) = Some s'
      \<and> info_kept n s' \<and> screen_state.more s' = screen_state.more s" for js and s :: "'a fs_state_scheme"
  proof (induction js arbitrary: s)
    case (Cons i js)
    obtain out where out: "format_text (chars ''0x%x '') [scast (fs_mem s (start + of_nat i))] = Some out" "line_ends out = 0"
      using byte_text by blast
    obtain s1 where "printk ''0x%x '' [scast (fs_mem s (start + of_nat i))] stack s = Some s1" "info_kept n s1"
        "screen_state.more s1 = screen_state.more s"
      using printk_info [OF Cons.prems out(1), of stack] out(2) assms(2) by (auto simp: chars_def)
    then show ?case using Cons.IH [of s1] by simp
  qed simp
  from this [OF assms(1)] show ?thesis unfolding print_bytes_def by blast
qed

section \<open>The report\<close>

text \<open>The lines that are printed.\<close>

lemma report_texts:
  "format_text (chars ''flags = 0x%#x\<newline>'') [8] = Some (chars ''flags = 0x'' @ numeral_text 120 True 8 @ chars ''\<newline>'')"
  "format_text (chars ''Module %d loaded at address: 0x%#x\<newline>'') [0, 0x500000]
     = Some (chars ''Module '' @ numeral_text 100 False 0 @ chars '' loaded at address: 0x'' @ numeral_text 120 True 0x500000 @ chars ''\<newline>'')"
  "format_text (chars ''Module %d ends at address: 0x%#x\<newline>'') [0, 0x504000]
     = Some (chars ''Module '' @ numeral_text 100 False 0 @ chars '' ends at address: 0x'' @ numeral_text 120 True 0x504000 @ chars ''\<newline>'')"
  "format_text (chars ''First few bytes of module:\<newline>'') [] = Some (chars ''First few bytes of module:\<newline>'')"
  "format_text (chars ''\<newline>'') [] = Some (chars ''\<newline>'')"
  by (simp_all add: chars_def format_text.simps)

lemma report_ends [simp]:
  "line_ends (chars ''flags = 0x'') = 0" "line_ends (chars ''\<newline>'') = 1" "line_ends (chars ''Module '') = 0"
  "line_ends (chars '' loaded at address: 0x'') = 0" "line_ends (chars '' ends at address: 0x'') = 0"
  "line_ends (chars ''First few bytes of module:\<newline>'') = 1"
  by code_simp+

lemma report_chars:
  "0 \<notin> set (chars ''flags = 0x%#x\<newline>'')" "0 \<notin> set (chars ''Module %d loaded at address: 0x%#x\<newline>'')"
  "0 \<notin> set (chars ''Module %d ends at address: 0x%#x\<newline>'')" "0 \<notin> set (chars ''First few bytes of module:\<newline>'')" "0 \<notin> set (chars ''\<newline>'')"
  by code_simp+

lemma printk_line:
  fixes s :: "'a screen_state_scheme"
  assumes "info_kept n s" "format_text (chars fmt) vs = Some out" "0 \<notin> set (chars fmt)" "line_ends out = 1" "length fmt < 100" "n < 24"
  obtains s' where "printk fmt vs stack s = Some s'" "info_kept (Suc n) s'" "screen_state.more s' = screen_state.more s"
  using printk_info [OF assms(1-3), of stack] assms(4-6) by auto

lemma module_more:
  fixes s s' :: "'a kernel_state_scheme"
  assumes "screen_state.more s' = screen_state.more s"
  shows "screen_state.more (s'\<lparr>bootBlk_addr := a\<rparr>) = screen_state.more (s\<lparr>bootBlk_addr := a\<rparr>)"
  using assms by (cases s, cases s') simp

lemma module_info:
  fixes s :: "'a kernel_state_scheme"
  assumes "info_kept 1 s"
  shows "\<exists>s'. print_modules stack 0x10000 0 0x10100 s = Some s' \<and> info_kept 5 s' \<and> screen_state.more s' = screen_state.more (s\<lparr>bootBlk_addr := 0x500000\<rparr>)"
proof -
  obtain s1 where s1: "printk ''Module %d loaded at address: 0x%#x\<newline>'' [0, 0x500000] stack s = Some s1" "info_kept 2 s1"
      "screen_state.more s1 = screen_state.more s"
    by (rule printk_line [OF assms report_texts(2) report_chars(2) _]) (simp_all add: numeral_2_eq_2)
  let ?s1 = "s1\<lparr>bootBlk_addr := 0x500000\<rparr>"
  have i1: "info_kept 2 ?s1" using s1(2) by (simp add: info_kept_def)
  obtain s2 where s2: "printk ''Module %d ends at address: 0x%#x\<newline>'' [0, 0x504000] stack ?s1 = Some s2" "info_kept 3 s2"
      "screen_state.more s2 = screen_state.more ?s1"
    by (rule printk_line [OF i1 report_texts(3) report_chars(3) _]) (simp_all add: numeral_3_eq_3)
  obtain s3 where s3: "printk ''First few bytes of module:\<newline>'' [] stack s2 = Some s3" "info_kept 4 s3" "screen_state.more s3 = screen_state.more s2"
    by (rule printk_line [OF s2(2) report_texts(4) report_chars(4) _]) simp_all
  obtain s4 where s4: "print_bytes stack 0x500000 s3 = Some s4" "info_kept 4 s4" "screen_state.more s4 = screen_state.more s3"
    using print_bytes_info [OF s3(2), of stack "0x500000"] by auto
  obtain s5 where s5: "printk ''\<newline>'' [] stack s4 = Some s5" "info_kept 5 s5" "screen_state.more s5 = screen_state.more s4"
    by (rule printk_line [OF s4(2) report_texts(5) report_chars(5) _]) simp_all
  have "print_modules stack 0x10000 1 0x10110 s5 = Some s5"
    by (subst print_modules.simps) (simp add: info_fields [OF s5(2)])
  then have "print_modules stack 0x10000 0 0x10100 s = Some s5"
    using s1(1) s2(1) s3(1) s4(1) s5(1)
    by (subst print_modules.simps)
      (simp add: info_fields [OF assms] info_fields [OF s1(2)] info_fields [OF i1] info_fields [OF s3(2)])
  moreover have "screen_state.more s5 = screen_state.more (s\<lparr>bootBlk_addr := 0x500000\<rparr>)"
    using module_more [OF s1(3)] s2(3) s3(3) s4(3) s5(3) by simp
  ultimately show ?thesis using s5(2) by blast
qed

lemma cleared_info: "info_kept 0 (clear started)"
proof -
  have "ram (clear started) a = boot_info a" if "a \<in> region 0x10000 0x200" for a
  proof -
    have "a \<notin> region video_mem 4000" using info_apart that by auto
    from clear_frame(1) [OF this, of started] show ?thesis by (simp only: started_fields)
  qed
  moreover have "(0 :: u32) \<notin> region video_mem 4000" by (simp add: in_region_iff video_mem_def)
  note clear_frame(2,3) [OF this, of started]
  ultimately show ?thesis by (simp add: info_kept_def started_fields)
qed

lemma started_report:
  "\<exists>s1. print_multiboot stack 0x10000 (clear started) = Some (True, s1)
     \<and> screen_state.more s1 = screen_state.more (started\<lparr>bootBlk_addr := 0x500000\<rparr>)"
proof -
  obtain s1 where s1: "printk ''flags = 0x%#x\<newline>'' [8] stack (clear started) = Some s1" "info_kept 1 s1"
      "screen_state.more s1 = screen_state.more (clear started)"
    by (rule printk_line [OF cleared_info report_texts(1) report_chars(1) _]) simp_all
  obtain s2 where s2: "print_modules stack 0x10000 0 0x10100 s1 = Some s2" "info_kept 5 s2"
      "screen_state.more s2 = screen_state.more (s1\<lparr>bootBlk_addr := 0x500000\<rparr>)"
    using module_info [OF s1(2), of stack] by blast
  have f: "\<not> CHECK_FLAG 8 0" "\<not> CHECK_FLAG 8 (Suc 0)" "\<not> CHECK_FLAG 8 2" "CHECK_FLAG 8 3" "\<not> CHECK_FLAG 8 4" "\<not> CHECK_FLAG 8 5" "\<not> CHECK_FLAG 8 6"
    by (simp_all add: CHECK_FLAG_def)
  have "print_multiboot stack 0x10000 (clear started) = Some (True, s2)"
    using s1(1) s2(1)
    by (simp add: print_multiboot_def print_if_def f info_fields [OF cleared_info] info_fields [OF s1(2)] info_fields [OF s2(2)])
  moreover have "screen_state.more s2 = screen_state.more (started\<lparr>bootBlk_addr := 0x500000\<rparr>)"
    using module_more [OF s1(3)] module_more [of "clear started" started] s2(3) by simp
  ultimately show ?thesis by blast
qed

text \<open>The file system the kernel then finds is the demo image.\<close>

lemma started_image:
  "\<exists>s1. print_multiboot (\<lambda>_. 0) 0x10000 (clear started) = Some (True, s1) \<and> bootBlk_addr s1 = 0x500000
     \<and> fs_core (read_filesys_bootblock (bootBlk_addr s1) s1) = fs_core elf_demo"
proof -
  obtain s1 where r: "print_multiboot (\<lambda>_. 0) 0x10000 (clear started) = Some (True, s1)"
      "screen_state.more s1 = screen_state.more (started\<lparr>bootBlk_addr := 0x500000\<rparr>)"
    using started_report by blast
  have b: "bootBlk_addr s1 = 0x500000" "fs_mem s1 = elf_image"
    using kernel_of_more [of s1 "started\<lparr>bootBlk_addr := 0x500000\<rparr>"] sys_view_screen [OF r(2)] paging_of_screen_more [OF r(2)]
    by (simp_all add: started_fields sys_view_def)
  moreover have "fs_core elf_demo = (elf_image, 1, 2, 0x500040, 0x501000, 0x503000)" by (simp add: fs_core_def elf_demo_fields)
  moreover have "load32 elf_image 0x500000 = 1" "load32 elf_image 0x500004 = 2" "load32 elf_image 0x500008 = 1" by code_simp+
  ultimately have "fs_core (read_filesys_bootblock (bootBlk_addr s1) s1) = fs_core elf_demo"
    by (simp add: read_filesys_bootblock_def fs_core_def Let_def)
  with r(1) b(1) show ?thesis by blast
qed

end
