(* ===== verification/Boot.thy ===== *)
theory Boot
  imports Boot_Image
begin

text \<open>
  The start of the machine, \<open>boot.S\<close>: what the processor does between the boot loader and
  \<open>entry\<close>, and the switch to user mode at the end of \<open>execute_with_terminal_num\<close> (\<open>syscall.c\<close>). The
  descriptor table of \<open>x86_desc.S\<close> makes segmentation the identity, and a machine
  that the loader starts with its magic number ends in the first shell, in user mode.
\<close>

section \<open>The global descriptor table\<close>

definition quad :: "64 word \<Rightarrow> seg_desc" where
  "quad v = \<lparr>seg0 = ucast v, seg1 = ucast (drop_bit 32 v)\<rparr>"

text \<open>The two last entries are the variables that \<open>entry\<close> fills in.\<close>

definition gdt :: "'a kernel_state_scheme \<Rightarrow> seg_desc list" where
  "gdt s = [quad 0, quad 0, quad 0x00CF9A000000FFFF, quad 0x00CF92000000FFFF, quad 0x00CFFA000000FFFF,
     quad 0x00CFF2000000FFFF, tss_desc_ptr s, ldt_desc_ptr s]"

definition gdt_limit :: u16 where "gdt_limit = 8 * 8 - 1"

definition KERNEL_CS :: u16 where "KERNEL_CS = 0x10"
definition KERNEL_DS :: u16 where "KERNEL_DS = 0x18"
definition USER_CS :: u16 where "USER_CS = 0x23"
definition USER_DS :: u16 where "USER_DS = 0x2B"
definition KERNEL_TSS :: u16 where "KERNEL_TSS = 0x30"
definition KERNEL_LDT :: u16 where "KERNEL_LDT = 0x38"

section \<open>The processor at the start\<close>

text \<open>The registers that \<open>boot.S\<close> and the switch to user mode touch, and the words they push.\<close>

record boot_cpu =
  b_eax :: u32
  b_ebx :: u32
  b_ecx :: u32
  b_esp :: u32
  b_cs :: u16
  b_ss :: u16
  b_ds :: u16
  b_es :: u16
  b_fs :: u16
  b_gs :: u16
  b_eip :: u32
  b_eflags :: u32
  b_gdtr :: "u16 \<times> u32"
  b_stack :: "u32 \<Rightarrow> u32"

definition pushl :: "u32 \<Rightarrow> boot_cpu \<Rightarrow> boot_cpu" where
  "pushl v c = c\<lparr>b_esp := b_esp c - 4, b_stack := (b_stack c)(b_esp c - 4 := v)\<rparr>"

definition boot_segments :: "u32 \<Rightarrow> boot_cpu \<Rightarrow> boot_cpu" where
  "boot_segments gdt_addr c =
     (let c = c\<lparr>b_gdtr := (gdt_limit, gdt_addr)\<rparr>;
          c = c\<lparr>b_cs := KERNEL_CS\<rparr>;
          c = c\<lparr>b_esp := 0x800000\<rparr>;
          c = c\<lparr>b_ecx := (b_ecx c AND 0xFFFF0000) OR ucast KERNEL_DS\<rparr>
      in c\<lparr>b_ss := ucast (b_ecx c), b_ds := ucast (b_ecx c), b_es := ucast (b_ecx c),
            b_fs := ucast (b_ecx c), b_gs := ucast (b_ecx c)\<rparr>)"

section \<open>Segmentation\<close>

text \<open>
  What the processor makes of a selector and an offset (IA-32 manual, 3.4): the descriptor the
  selector names, when the table has it, and the linear address, when it is within the limit.
\<close>

definition gdt_segment :: "'a kernel_state_scheme \<Rightarrow> u16 \<Rightarrow> segment option" where
  "gdt_segment s sel =
     (let i = unat (drop_bit 3 sel)
      in if i \<noteq> 0 \<and> \<not> bit sel 2 \<and> 8 * i + 7 \<le> unat gdt_limit then Some (decode_seg (gdt s ! i)) else None)"

definition segment_limit :: "segment \<Rightarrow> u32" where
  "segment_limit g = (if sg_granular g then push_bit 12 (sg_limit g) OR 0xFFF else sg_limit g)"

definition linear :: "segment \<Rightarrow> u32 \<Rightarrow> u32 option" where
  "linear g off = (if sg_present g \<and> off \<le> segment_limit g then Some (sg_base g + off) else None)"

section \<open>The switch to user mode\<close>

text \<open>
  The return from an interrupt (IA-32 manual, volume 2, IRET, in protected mode): to the same privilege it takes three
  words from the stack, to a lower one five, and then a data segment register that holds a
  segment of a higher privilege is made null.
\<close>

definition popl :: "boot_cpu \<Rightarrow> u32 \<times> boot_cpu" where
  "popl c = (b_stack c (b_esp c), c\<lparr>b_esp := b_esp c + 4\<rparr>)"

definition kept_segment :: "'a kernel_state_scheme \<Rightarrow> u16 \<Rightarrow> u16 \<Rightarrow> u16" where
  "kept_segment s cs sel =
     (case gdt_segment s sel of None \<Rightarrow> 0 | Some g \<Rightarrow> if sg_dpl g < take_bit 2 (ucast cs) then 0 else sel)"

definition iret :: "'a kernel_state_scheme \<Rightarrow> boot_cpu \<Rightarrow> boot_cpu" where
  "iret s c =
     (let cpl = take_bit 2 (b_cs c);
          (eip, c) = popl c;
          (cs, c) = popl c;
          (flags, c) = popl c;
          c = c\<lparr>b_eip := eip, b_cs := ucast cs, b_eflags := flags\<rparr>
      in if take_bit 2 (b_cs c) > cpl then
           let (esp, c) = popl c;
               (ss, c) = popl c;
               c = c\<lparr>b_esp := esp, b_ss := ucast ss\<rparr>
           in c\<lparr>b_ds := kept_segment s (b_cs c) (b_ds c), b_es := kept_segment s (b_cs c) (b_es c),
                b_fs := kept_segment s (b_cs c) (b_fs c), b_gs := kept_segment s (b_cs c) (b_gs c)\<rparr>
         else c)"

text \<open>The assembly at the end of \<open>execute_with_terminal_num\<close>.\<close>

definition enter_user :: "u32 \<Rightarrow> 'a kernel_state_scheme \<Rightarrow> boot_cpu \<Rightarrow> boot_cpu" where
  "enter_user v_addr s c =
     (let c = c\<lparr>b_eax := (b_eax c AND 0xFFFF0000) OR 0x2B\<rparr>;
          c = c\<lparr>b_ds := ucast (b_eax c)\<rparr>;
          c = c\<lparr>b_eax := 0x83FFFFC\<rparr>;
          c = pushl 0x2B c;
          c = pushl (b_eax c) c;
          c = pushl (b_eflags c) c;
          c = pushl 0x23 c;
          c = pushl v_addr c
      in iret s c)"

section \<open>From the boot loader to user mode\<close>

text \<open>
  The arguments of \<open>entry\<close> are the two words on top of the stack. When \<open>entry\<close> returns, the
  processor is halted, again and again; when it has loaded the first shell, \<open>execute_with_terminal_num\<close>
  switches to user mode. C code changes no segment register; \<open>esp\<close> is then what
  \<open>execute_with_terminal_num\<close> has read (the second of \<open>regs\<close>), and bit 9 of \<open>eflags\<close> says whether
  interrupts are enabled.
\<close>

datatype start_end = Halted | Started boot_end

definition boot_start ::
  "symbols \<Rightarrow> device \<Rightarrow> memory \<Rightarrow> seg_desc \<Rightarrow> u32 \<Rightarrow> u32 \<times> u32 \<Rightarrow> u32 \<Rightarrow> boot_cpu \<Rightarrow> 'a kernel_state_scheme
   \<Rightarrow> (start_end \<times> boot_cpu \<times> 'a kernel_state_scheme) option" where
  "boot_start K dev stack garbage e regs gdt_addr c s =
     (let s = cli s;
          c = boot_segments gdt_addr c;
          c = pushl (b_ebx c) c;
          c = pushl (b_eax c) c
      in do {
        (r, s) \<leftarrow> kernel_entry K dev stack garbage e regs (b_stack c (b_esp c)) (b_stack c (b_esp c + 4)) s;
        let c = c\<lparr>b_esp := snd regs, b_eflags := (if iflag s then set_bit 9 (b_eflags c) else unset_bit 9 (b_eflags c))\<rparr>;
        Some (case r of
            Entry_returned \<Rightarrow> (Halted, c, s)
          | First_shell pid eip \<Rightarrow> (Started r, enter_user eip s c, s)
          | Spinning \<Rightarrow> (Started r, c, s)) })"

section \<open>Segments and the switch\<close>

lemmas selectors = KERNEL_CS_def KERNEL_DS_def USER_CS_def USER_DS_def KERNEL_TSS_def KERNEL_LDT_def

lemma gdt_segments:
  "gdt_segment s KERNEL_CS = Some \<lparr>sg_base = 0, sg_limit = 0xFFFFF, sg_kind = 0x1A, sg_dpl = 0, sg_present = True, sg_granular = True\<rparr>"
  "gdt_segment s KERNEL_DS = Some \<lparr>sg_base = 0, sg_limit = 0xFFFFF, sg_kind = 0x12, sg_dpl = 0, sg_present = True, sg_granular = True\<rparr>"
  "gdt_segment s USER_CS = Some \<lparr>sg_base = 0, sg_limit = 0xFFFFF, sg_kind = 0x1A, sg_dpl = 3, sg_present = True, sg_granular = True\<rparr>"
  "gdt_segment s USER_DS = Some \<lparr>sg_base = 0, sg_limit = 0xFFFFF, sg_kind = 0x12, sg_dpl = 3, sg_present = True, sg_granular = True\<rparr>"
  "gdt_segment s KERNEL_TSS = Some (decode_seg (tss_desc_ptr s))"
  "gdt_segment s KERNEL_LDT = Some (decode_seg (ldt_desc_ptr s))"
  by (simp_all add: gdt_segment_def selectors gdt_limit_def gdt_def quad_def decode_seg_def)

lemma linear_flat:
  "linear \<lparr>sg_base = 0, sg_limit = 0xFFFFF, sg_kind = k, sg_dpl = l, sg_present = True, sg_granular = True\<rparr> off = Some off"
proof -
  have "off \<le> 0xFFFFFFFF" using unat_lt32 [of off] by (simp add: word_le_nat_alt del: unat_lt32)
  then show ?thesis by (simp add: linear_def segment_limit_def)
qed

text \<open>Both rings address the same linear memory through their code and data segments.\<close>

lemma segmentation_is_flat:
  assumes "sel \<in> {KERNEL_CS, KERNEL_DS, USER_CS, USER_DS}"
  shows "\<exists>g. gdt_segment s sel = Some g \<and> sg_dpl g = take_bit 2 (ucast sel) \<and> (\<forall>off. linear g off = Some off)"
  using assms by (auto simp: gdt_segments linear_flat) (simp_all add: selectors)

section \<open>What \<open>entry\<close> finds\<close>

lemma selector_in_register: "ucast ((x AND 0xFFFF0000) OR ucast KERNEL_DS :: u32) = KERNEL_DS"
proof (rule bit_word_eqI)
  fix n assume n: "n < LENGTH(16)"
  have "push_bit 16 0xFFFF = (0xFFFF0000 :: u32)" by simp
  moreover have "\<not> bit (push_bit 16 0xFFFF :: u32) n" using n by (simp only: bit_push_bit_iff) simp
  ultimately have "\<not> bit (0xFFFF0000 :: u32) n" by metis
  with n show "bit (ucast ((x AND 0xFFFF0000) OR ucast KERNEL_DS :: u32) :: u16) n = bit KERNEL_DS n"
    by (simp add: bit_simps)
qed

lemma boot_cpu_ready:
  fixes c gdt_addr
  defines "c' \<equiv> pushl (b_eax c) (pushl (b_ebx c) (boot_segments gdt_addr c))"
  shows "b_cs c' = KERNEL_CS \<and> {b_ss c', b_ds c', b_es c', b_fs c', b_gs c'} = {KERNEL_DS}" and "b_esp c' = 0x7FFFF8"
    and "b_stack c' (b_esp c') = b_eax c" and "b_stack c' (b_esp c' + 4) = b_ebx c"
    and "b_eax (pushl v d) = b_eax d" "b_ebx (boot_segments gdt_addr d) = b_ebx d" "b_eax (boot_segments gdt_addr d) = b_eax d"
  by (simp_all add: c'_def pushl_def boot_segments_def Let_def selector_in_register)

text \<open>What the switch to user mode leaves, when the kernel's segments are loaded.\<close>

lemma user_selector_in_register: "ucast ((x AND 0xFFFF0000) OR 0x2B :: u32) = USER_DS"
proof (rule bit_word_eqI)
  fix n assume n: "n < LENGTH(16)"
  have "push_bit 16 0xFFFF = (0xFFFF0000 :: u32)" by simp
  moreover have "\<not> bit (push_bit 16 0xFFFF :: u32) n" using n by (simp only: bit_push_bit_iff) simp
  ultimately have h: "\<not> bit (0xFFFF0000 :: u32) n" by metis
  have "bit (0x2B :: u32) n = bit (ucast USER_DS :: u32) n" by (simp add: USER_DS_def)
  with n h show "bit (ucast ((x AND 0xFFFF0000) OR 0x2B :: u32) :: u16) n = bit USER_DS n"
    by (simp add: bit_simps)
qed

lemma kept_segments: "kept_segment s 0x23 KERNEL_DS = 0" "kept_segment s 0x23 USER_DS = USER_DS"
  by (simp_all add: kept_segment_def gdt_segments)

lemma popped_words:
  fixes v1 v2 v3 v4 v5
  defines "c5 \<equiv> \<lambda>c. pushl v5 (pushl v4 (pushl v3 (pushl v2 (pushl v1 c))))"
  shows "b_esp (c5 c) = b_esp c - 20" "b_stack (c5 c) (b_esp c - 20) = v5" "b_stack (c5 c) (b_esp c - 16) = v4" "b_stack (c5 c) (b_esp c - 12) = v3"
    "b_stack (c5 c) (b_esp c - 8) = v2" "b_stack (c5 c) (b_esp c - 4) = v1"
proof -
  have e: "x - 4 - 4 = x - 8" "x - 8 - 4 = x - 12" "x - 12 - 4 = x - 16" "x - 16 - 4 = x - 20" for x :: u32 by simp_all
  show "b_esp (c5 c) = b_esp c - 20" "b_stack (c5 c) (b_esp c - 20) = v5" "b_stack (c5 c) (b_esp c - 16) = v4" "b_stack (c5 c) (b_esp c - 12) = v3"
    "b_stack (c5 c) (b_esp c - 8) = v2" "b_stack (c5 c) (b_esp c - 4) = v1"
    unfolding c5_def by (simp_all add: pushl_def e)
qed

lemma pushl_regs:
  "b_cs (pushl v c) = b_cs c" "b_ss (pushl v c) = b_ss c" "b_ds (pushl v c) = b_ds c" "b_es (pushl v c) = b_es c" "b_fs (pushl v c) = b_fs c"
  "b_gs (pushl v c) = b_gs c" "b_eflags (pushl v c) = b_eflags c" "b_eax (pushl v c) = b_eax c"
  by (simp_all add: pushl_def)

lemma iret_to_user:
  assumes "take_bit 2 (b_cs c) < take_bit 2 (ucast (b_stack c (b_esp c + 4)) :: u16)"
  shows "iret s c = c\<lparr>b_eip := b_stack c (b_esp c), b_cs := ucast (b_stack c (b_esp c + 4)), b_eflags := b_stack c (b_esp c + 8),
    b_esp := b_stack c (b_esp c + 12), b_ss := ucast (b_stack c (b_esp c + 16)),
    b_ds := kept_segment s (ucast (b_stack c (b_esp c + 4))) (b_ds c), b_es := kept_segment s (ucast (b_stack c (b_esp c + 4))) (b_es c),
    b_fs := kept_segment s (ucast (b_stack c (b_esp c + 4))) (b_fs c), b_gs := kept_segment s (ucast (b_stack c (b_esp c + 4))) (b_gs c)\<rparr>"
proof -
  have e: "x + 4 + 4 = x + 8" "x + 8 + 4 = x + 12" "x + 12 + 4 = x + 16" for x :: u32 by simp_all
  show ?thesis using assms by (simp add: iret_def popl_def e Let_def)
qed

lemma enter_user_spec:
  fixes v_addr s
  assumes "b_cs c = KERNEL_CS" "b_es c = KERNEL_DS" "b_fs c = KERNEL_DS" "b_gs c = KERNEL_DS"
  defines "c' \<equiv> enter_user v_addr s c"
  shows "b_eip c' = v_addr \<and> b_cs c' = USER_CS \<and> b_ss c' = USER_DS \<and> b_ds c' = USER_DS \<and> b_es c' = 0 \<and> b_fs c' = 0 \<and> b_gs c' = 0
    \<and> b_esp c' = 0x83FFFFC \<and> b_eflags c' = b_eflags c"
proof -
  let ?c = "c\<lparr>b_ds := USER_DS, b_eax := 0x83FFFFC\<rparr>"
  define c5 where "c5 = pushl v_addr (pushl 0x23 (pushl (b_eflags ?c) (pushl 0x83FFFFC (pushl 0x2B ?c))))"
  note w = popped_words [of v_addr "0x23" "b_eflags ?c" "0x83FFFFC" "0x2B" ?c, folded c5_def]
  have e: "x - 20 + 4 = x - 16" "x - 20 + 8 = x - 12" "x - 20 + 12 = x - 8" "x - 20 + 16 = x - 4" for x :: u32 by simp_all
  have r: "b_cs c5 = KERNEL_CS" "b_ds c5 = USER_DS" "b_es c5 = KERNEL_DS" "b_fs c5 = KERNEL_DS" "b_gs c5 = KERNEL_DS"
    using assms(1-4) by (simp_all add: c5_def pushl_regs)
  have "c' = iret s c5"
    by (simp add: c'_def enter_user_def c5_def user_selector_in_register pushl_regs Let_def)
  moreover have "take_bit 2 (b_cs c5) < take_bit 2 (ucast (b_stack c5 (b_esp c5 + 4)) :: u16)"
    unfolding w(1) e w(3) r(1) by (simp add: KERNEL_CS_def)
  note iret_to_user [OF this, of s, unfolded w(1) e w r]
  ultimately show ?thesis by (simp add: kept_segments) (simp add: USER_CS_def USER_DS_def)
qed

section \<open>Properties\<close>

text \<open>
  C1: a machine that the boot loader starts reaches the first shell, in user mode. With the magic number in EAX and
  the address of the Multiboot information in EBX, \<open>boot.S\<close> and \<open>entry\<close> end by entering process 0 on the first
  terminal at the entry point of the file \<open>shell\<close>, with its contents in the user page and interrupts enabled, in
  a state that satisfies the invariants of the process table, the scheduler and the hot keys. The code segment is
  then the user's, stack and data segment are the user's data segment and the stack pointer is at the end of the user page (the
  other data segment registers are null: the switch sets only DS), and through the user's segments and
  the kernel's alike the linear address is the offset. Hypotheses: the report on the Multiboot information goes
  through, the file system at the module it names holds an executable \<open>shell\<close>, the kernel's variables are as
  they are statically initialised, and in the memory of the process blocks, which nothing initialises, every descriptor
  is closed (flag and bitmap 0), as it is in cleared memory.
\<close>

theorem machine_boots_into_shell:
  fixes s :: "'a kernel_state_scheme"
  assumes "layout_ok (sym_layout K)" and "vidMem_table s = (\<lambda>_. 0)"
    and "t_curr s = (\<lambda>_. -1)" and "proc_state s = (\<lambda>_. 0)" and "\<forall>p. all_closed (pcbs s p)"
    and regs: "b_eax c = 0x2BADB002" "b_ebx c = addr"
    and report: "print_multiboot stack addr (clear (cli s)) = Some (True, s1)"
    and "b = read_filesys_bootblock (bootBlk_addr s1) s1"
    and "i < nat (num_dentry b)" "takeWhile (\<lambda>c. c \<noteq> 0) (fname (dentry_at b i)) = [115, 104, 101, 108, 108]"
      "\<forall>j<i. takeWhile (\<lambda>c. c \<noteq> 0) (fname (dentry_at b j)) \<noteq> [115, 104, 101, 108, 108]"
    and "file = file_contents b (inode (dentry_at b i))" "valid_inode b (inode (dentry_at b i))" "28 \<le> length file" "length file \<le> 0x3B8000"
      "take 4 file = elf_magic"
  shows "\<exists>eip c' s'. boot_start K dev stack g e r gdt_addr c s = Some (Started (First_shell 0 eip), c', s')
    \<and> le_bytes eip = take 4 (drop 24 file) \<and> bytes_at (view (sym_layout K) s') 0x8048000 (length file) = file
    \<and> sched_ok (sym_layout K) 0 s' \<and> user_mapped (sym_layout K) 0 s' \<and> (\<forall>p. live s' p \<longleftrightarrow> p = 0) \<and> hot_ok s' \<and> iflag s'
    \<and> b_eip c' = eip \<and> b_cs c' = USER_CS \<and> b_ss c' = USER_DS \<and> b_ds c' = USER_DS \<and> b_es c' = 0 \<and> b_fs c' = 0 \<and> b_gs c' = 0
    \<and> b_esp c' = 0x83FFFFC \<and> bit (b_eflags c') 9
    \<and> (\<forall>sel \<in> {KERNEL_CS, KERNEL_DS, USER_CS, USER_DS}.
         \<exists>g. gdt_segment s' sel = Some g \<and> sg_dpl g = take_bit 2 (ucast sel) \<and> (\<forall>off. linear g off = Some off))"
proof -
  define c0 where "c0 = pushl (b_eax c) (pushl (b_ebx c) (boot_segments gdt_addr c))"
  have keep: "vidMem_table (cli s) = vidMem_table s" "t_curr (cli s) = t_curr s" "proc_state (cli s) = proc_state s" "pcbs (cli s) = pcbs s"
    by (simp_all add: cli_def)
  obtain eip s' where k: "kernel_entry K dev stack g e r 0x2BADB002 addr (cli s) = Some (First_shell 0 eip, s')"
    "le_bytes eip = take 4 (drop 24 file) \<and> bytes_at (view (sym_layout K) s') 0x8048000 (length file) = file
      \<and> sched_ok (sym_layout K) 0 s' \<and> user_mapped (sym_layout K) 0 s' \<and> (\<forall>p. live s' p \<longleftrightarrow> p = 0) \<and> hot_ok s' \<and> iflag s'"
    using boot_shell [of K "cli s", unfolded keep, OF assms(1-5) report assms(9-17), of dev g e r] by blast
  define c1 where "c1 = c0\<lparr>b_esp := snd r, b_eflags := set_bit 9 (b_eflags c0)\<rparr>"
  have "boot_start K dev stack g e r gdt_addr c s = Some (Started (First_shell 0 eip), enter_user eip s' c1, s')"
    using k boot_cpu_ready(3,4) [of c gdt_addr] regs by (simp add: boot_start_def Let_def c1_def c0_def boot_cpu_ready)
  moreover have "b_cs c1 = KERNEL_CS" "b_es c1 = KERNEL_DS" "b_fs c1 = KERNEL_DS" "b_gs c1 = KERNEL_DS"
    using boot_cpu_ready(1) [of c gdt_addr, folded c0_def] by (auto simp: c1_def)
  note enter_user_spec [OF this, of eip s']
  moreover have "bit (b_eflags c1) 9" by (simp add: c1_def bit_simps)
  moreover have "\<forall>sel \<in> {KERNEL_CS, KERNEL_DS, USER_CS, USER_DS}.
      \<exists>g. gdt_segment s' sel = Some g \<and> sg_dpl g = take_bit 2 (ucast sel) \<and> (\<forall>off. linear g off = Some off)"
    by (intro ballI segmentation_is_flat)
  ultimately show ?thesis using k(2) by (intro exI [of _ eip] exI [of _ "enter_user eip s' c1"] exI [of _ s']) simp
qed

text \<open>The machine with one module.\<close>

theorem machine_boots_into_shell_witness:
  "\<exists>eip c' s'. boot_start boot_symbols (\<lambda>_ _. 0) (\<lambda>_. 0) \<lparr>seg0 = 1, seg1 = 2\<rparr> 0 (0, 0) 0x415000
       \<lparr>b_eax = 0x2BADB002, b_ebx = 0x10000, b_ecx = 5, b_esp = 7, b_cs = 8, b_ss = 9, b_ds = 9, b_es = 9, b_fs = 9, b_gs = 9,
         b_eip = 0, b_eflags = 2, b_gdtr = (0, 0), b_stack = \<lambda>_. 0\<rparr> started = Some (Started (First_shell 0 eip), c', s')
     \<and> le_bytes eip = [0x00, 0x90, 0x04, 0x08] \<and> sched_ok boot_layout 0 s' \<and> b_cs c' = USER_CS \<and> b_eip c' = eip"
proof -
  let ?c = "\<lparr>b_eax = 0x2BADB002, b_ebx = 0x10000, b_ecx = 5, b_esp = 7, b_cs = 8, b_ss = 9, b_ds = 9, b_es = 9, b_fs = 9, b_gs = 9,
    b_eip = 0, b_eflags = 2, b_gdtr = (0, 0), b_stack = \<lambda>_. 0\<rparr>"
  have "\<not> iflag kbd_boot" by (simp add: kbd_boot_def init_keyboard_def init_scan_code_def enable_irq_def Let_def)
  then have "cli started = started" by (simp add: cli_def started_def loaded_def elf_demo_def sys_demo_def fs_demo_def kbd_running_def read_filesys_bootblock_def Let_def
      kbd_state.defs fs_state.defs sys_state.defs idt_state.defs)
  then obtain s1 where r: "print_multiboot (\<lambda>_. 0) 0x10000 (clear (cli started)) = Some (True, s1)"
      and core: "fs_core (read_filesys_bootblock (bootBlk_addr s1) s1) = fs_core elf_demo"
    using started_image by auto
  have f: "take 4 (drop 24 elf_file) = [0x00, 0x90, 0x04, 0x08]" by (simp add: elf_file_def elf_magic_def)
  have pre: "layout_ok (sym_layout boot_symbols)" "\<forall>p. all_closed (pcbs started p)"
    by (simp_all add: boot_symbols_def elf_demo_space(2) started_fields all_closed_def idle_pcb_def idle_fd_def)
  have regs: "b_eax ?c = 0x2BADB002" "b_ebx ?c = 0x10000" and len: "28 \<le> length elf_file" "length elf_file \<le> 0x3B8000"
    and lay: "sym_layout boot_symbols = boot_layout"
    using elf_demo_core(5) [OF core] by (simp_all add: boot_symbols_def)
  note shell = machine_boots_into_shell [OF pre(1) started_fields(1-3) pre(2) regs r refl elf_demo_core(1,2) [OF core] _
    elf_demo_core(3) [OF core, symmetric] elf_demo_core(4) [OF core] len elf_demo_core(6) [OF core],
    of "\<lambda>_ _. 0" "\<lparr>seg0 = 1, seg1 = 2\<rparr>" 0 "(0, 0)" "0x415000", unfolded f lay]
  from shell show ?thesis by blast
qed

end
