(* ===== verification/System.thy ===== *)
theory System
  imports Boot_Image
begin

text \<open>
  The kernel as a whole: a step relation whose steps are the interrupts of the three devices, the
  system calls of the running program and the program's own stores, and the invariant of the
  states reachable from the one in which the boot enters the first shell; what a program can
  write to; and how long a terminal waits for the processor.
\<close>

section \<open>Steps\<close>

text \<open>The jump table entry that a read of descriptor \<open>fd\<close> of the running process calls, if it is open.\<close>

definition read_op :: "int \<Rightarrow> 'a sys_state_scheme \<Rightarrow> fop option" where
  "read_op fd s =
     (let f = file_array (pcbs s (curr s)) (nat fd)
      in if 0 \<le> fd \<and> fd < 8 \<and> flag f \<noteq> 0 then Some (fop_read f) else None)"

text \<open>
  The calls \<open>read\<close>, \<open>getargs\<close> and \<open>vidmap\<close> store through a pointer that the kernel does not
  check. The model has the kernel's own objects apart from \<open>ram\<close>, so it covers the programs
  whose pointers lead into their own page, or are the null pointer and \<open>0x400000\<close> where the call
  tests for them.
\<close>

definition user_args :: "layout \<Rightarrow> 'a sys_state_scheme \<Rightarrow> u32 \<Rightarrow> u32 \<Rightarrow> u32 \<Rightarrow> u32 \<Rightarrow> bool" where
  "user_args L s eax ebx ecx edx \<longleftrightarrow>
     (if eax = 3 then ecx = 0 \<or> in_window ecx (max 32 (unat edx))
      else if eax = 7 then ebx = 0 \<or> (case strlen (view L s) ebx of None \<Rightarrow> True | Some n \<Rightarrow> in_window ebx (Suc (max (unat n) 129)))
      else if eax = 8 then ebx = 0 \<or> ebx = 0x400000 \<or> in_window ebx 4
      else True)"

text \<open>Where a program may store without a page fault.\<close>

definition user_writable :: "layout \<Rightarrow> 'a paging_state_scheme \<Rightarrow> u32 \<Rightarrow> bool" where
  "user_writable L s a = (case translate L s a of None \<Rightarrow> False | Some i \<Rightarrow> user_ok i \<and> writable i)"

text \<open>
  A configuration is the kernel's state and, for each process that waits in a read of the
  keyboard or of the clock, the arguments of the call. The steps other than a timer tick: an
  interrupt of the keyboard or the clock, whoever runs; a system call of the running program
  from its start to its end; the start of a read that has to wait; its end, which is what the
  call does once the loop that waits is left; and a store of the program. A new process waits
  for nothing. A program that halts was started by another one, and the descriptor 8 is not closed.
\<close>

type_synonym 'a config = "'a sys_state_scheme \<times> (int \<Rightarrow> (u32 \<times> u32 \<times> u32) option)"

inductive work_step :: "layout \<Rightarrow> device \<Rightarrow> 'a config \<Rightarrow> 'a config \<Rightarrow> bool" for L dev where
  keyboard: "keyboard_handler L dev stack regs s = Some (k, s') \<Longrightarrow>
    work_step L dev (s, W) (s', if curr s' = curr s then W else W(curr s' := None))"
| clock: "work_step L dev (s, W) (rtc_int_handler dev s, W)"
| syscall: "W (curr s) = None \<Longrightarrow> syscall_asm L dev [] stack regs eax ebx ecx edx s = Some (r, s') \<Longrightarrow> user_args L s eax ebx ecx edx \<Longrightarrow>
    \<not> (eax = 1 \<and> p_pid (pcbs s (curr s)) = curr s) \<Longrightarrow> \<not> (eax = 6 \<and> ebx = 8 \<and> bitmap (pcbs s (curr s)) 6 \<noteq> 0) \<Longrightarrow> work_step L dev (s, W) (s', W(curr s' := None))"
| waits: "W (curr s) = None \<Longrightarrow> ecx \<noteq> 0 \<Longrightarrow> user_args L s 3 ebx ecx edx \<Longrightarrow> read_op (sint ebx) s = Some op \<Longrightarrow>
    op = Terminal_read_wrap \<and> s' = sti s \<or> op = Rtc_read_wrapper \<and> s' = s \<Longrightarrow> work_step L dev (s, W) (s', W(curr s \<mapsto> (ebx, ecx, edx)))"
| resumes: "W (curr s) = Some (ebx, ecx, edx) \<Longrightarrow> syscall_asm L dev [] stack regs 3 ebx ecx edx s = Some (r, s') \<Longrightarrow>
    work_step L dev (s, W) (s', W(curr s := None))"
| store: "W (curr s) = None \<Longrightarrow> user_writable L s a \<Longrightarrow> store_byte L a b s = Some s' \<Longrightarrow> work_step L dev (s, W) (s', W)"

inductive sys_step :: "layout \<Rightarrow> device \<Rightarrow> 'a config \<Rightarrow> 'a config \<Rightarrow> bool" for L dev where
  timer: "pit_int_handler L stack e regs s = Some (r, s') \<Longrightarrow> sys_step L dev (s, W) (s', W)"
| work: "work_step L dev c c' \<Longrightarrow> sys_step L dev c c'"

text \<open>
  That a read which waits is two steps loses nothing: with the handlers \<open>hs\<close> in between, the
  call is what a call in the state that they leave does, when the terminal written to is the
  same again.
\<close>

lemma waiting_read_splits:
  assumes "spin_until (\<lambda>s. terminal_read_ready s (active_terminal s0) = 1) hs (sti s0) = Some s1" "active_terminal s1 = active_terminal s0" "iflag s1"
  shows "terminal_read L hs buf count s0 = terminal_read L [] buf count s1"
proof -
  have r: "terminal_read_ready s1 (active_terminal s0) = 1" using spin_until_Some [OF assms(1)] by simp
  have s1: "sti s1 = s1" using assms(3) by (simp add: sti_def)
  have w: "spin_until (\<lambda>s. terminal_read_ready s (active_terminal s0) = 1) [] s1 = Some s1" by (simp add: r)
  have a: "active_terminal (sti s0) = active_terminal s0" by (simp add: sti_def)
  show ?thesis
    unfolding terminal_read_def get_active_terminal_def Let_def s1 a assms(2) assms(1) w by (rule refl)
qed

lemma waiting_clock_splits:
  "spin_until (\<lambda>s. RTC_flag s \<noteq> 0) hs s0 = Some s1 \<Longrightarrow> rtc_read hs s0 = rtc_read [] s1"
  using spin_until_Some [of "\<lambda>s. RTC_flag s \<noteq> 0" hs s0 s1] by (simp add: rtc_read_def)

section \<open>The invariant\<close>

text \<open>The page behind 132 MB is video memory or the first page.\<close>

definition vid_ok :: "'a paging_state_scheme \<Rightarrow> bool" where
  "vid_ok s \<longleftrightarrow> get_field kb_base_addr (vidMem_table s 0) \<in> {0, 0xB8}"

text \<open>
  The invariant: the process table is in order, the current process is the one its terminal runs,
  and that terminal is the one written to; the first terminal runs a process, the user page
  mapped is that of the current process, and the hot keys agree with the terminals.
\<close>

definition sys_inv :: "layout \<Rightarrow> 'a sys_state_scheme \<Rightarrow> bool" where
  "sys_inv L s \<longleftrightarrow> procs_ok s \<and> hot_ok s \<and> running s (curr s) (active_terminal s) \<and> t_curr s 0 \<noteq> -1 \<and> user_mapped L (curr s) s \<and> vid_ok s"

text \<open>No terminal loses its process, and none has to wait longer for its turn than before.\<close>

definition keeps_turns :: "'a sys_state_scheme \<Rightarrow> 'a sys_state_scheme \<Rightarrow> bool" where
  "keeps_turns s s' \<longleftrightarrow> (\<forall>u<3. t_curr s u \<noteq> -1 \<longrightarrow> t_curr s' u \<noteq> -1
     \<and> ticks_left (t_curr s') (active_terminal s') u \<le> ticks_left (t_curr s) (active_terminal s) u)"

definition advances :: "layout \<Rightarrow> 'a sys_state_scheme \<Rightarrow> 'a sys_state_scheme \<Rightarrow> bool" where
  "advances L s s' \<longleftrightarrow> sys_inv L s' \<and> keeps_turns s s'"

lemma keeps_turns_same:
  assumes "active_terminal s' = active_terminal s" "\<And>u. t_curr s' u = -1 \<longleftrightarrow> t_curr s u = -1"
  shows "keeps_turns s s'"
  using ticks_left_cong [of "t_curr s'" "t_curr s"] assms by (auto simp: keeps_turns_def)

lemma advancesI: "sys_inv L s' \<Longrightarrow> keeps_turns s s' \<Longrightarrow> advances L s s'"
  by (simp add: advances_def)

lemma advances_inv: "advances L s s' \<Longrightarrow> sys_inv L s'"
  by (simp add: advances_def)

lemma advances_refl: "sys_inv L s \<Longrightarrow> advances L s s"
  by (simp add: advances_def keeps_turns_def)

lemma advances_trans: "advances L s t \<Longrightarrow> (sys_inv L t \<Longrightarrow> advances L t u) \<Longrightarrow> advances L s u"
  unfolding advances_def keeps_turns_def by (blast intro: order_trans)

section \<open>Operations that leave the processes alone\<close>

text \<open>
  What an operation that has nothing to do with processes leaves as it is: the process table,
  the terminal written to and every address space the page tables implement.
\<close>

definition same_procs :: "layout \<Rightarrow> 'a sys_state_scheme \<Rightarrow> 'a sys_state_scheme \<Rightarrow> bool" where
  "same_procs L s s' \<longleftrightarrow> proc_view s' = proc_view s \<and> vidMem_table s' = vidMem_table s \<and> active_terminal s' = active_terminal s
     \<and> (\<forall>A. address_space L s A \<longrightarrow> address_space L s' A)"

lemma same_procs_refl [simp]: "same_procs L s s"
  by (simp add: same_procs_def)

lemma same_procs_trans: "same_procs L s t \<Longrightarrow> same_procs L t u \<Longrightarrow> same_procs L s u"
  by (simp add: same_procs_def)

lemma same_procs_curr: "same_procs L s s' \<Longrightarrow> curr s' = curr s \<and> pcbs s' = pcbs s"
  by (simp add: same_procs_def proc_view_def)

lemma same_procs_inv: "same_procs L s s' \<Longrightarrow> sys_inv L s \<Longrightarrow> sys_inv L s'"
proof -
  assume a: "same_procs L s s'" "sys_inv L s"
  then have v: "proc_view s' = proc_view s" by (simp add: same_procs_def)
  note ok = proc_view_ok [OF v]
  have e: "curr s' = curr s" "t_curr s' = t_curr s" "pcbs s' = pcbs s" using v by (simp_all add: proc_view_def)
  have "user_mapped L (curr s) s'" using a by (auto simp: same_procs_def sys_inv_def user_mapped_def)
  then show "sys_inv L s'" using a by (simp add: sys_inv_def same_procs_def ok e running_def vid_ok_def)
qed

lemma same_procs_advances: "same_procs L s s' \<Longrightarrow> sys_inv L s \<Longrightarrow> advances L s s'"
  using same_procs_inv by (auto simp: same_procs_def proc_view_def intro!: advancesI keeps_turns_same)

lemma same_procsI:
  assumes "proc_view s' = proc_view s" "page_directory s' = page_directory s" "page_table s' = page_table s" "vidMem_table s' = vidMem_table s"
    "active_terminal s' = active_terminal s"
  shows "same_procs L s s'"
  using assms(1,4,5) address_space_cong [OF assms(2-4)] by (simp add: same_procs_def)

lemma same_procs_screen:
  fixes s s' :: "'a sys_state_scheme"
  assumes "screen_state.more s' = screen_state.more s" "active_terminal s' = active_terminal s"
  shows "same_procs L s s'"
  using assms(2) proc_view_screen [OF assms(1)] paging_of_screen_more [OF assms(1)] by (auto intro: same_procsI)

lemma same_procs_updates [simp]:
  "same_procs L s (s\<lparr>pressed_key := a\<rparr>)" "same_procs L s (s\<lparr>cap_status := b\<rparr>)" "same_procs L s (s\<lparr>keyboard_buffer := c\<rparr>)"
  "same_procs L s (s\<lparr>cursor_ind := d\<rparr>)" "same_procs L s (s\<lparr>print_buffer := e\<rparr>)" "same_procs L s (s\<lparr>terminal_read_ready := f\<rparr>)"
  "same_procs L s (s\<lparr>ram := m\<rparr>)" "same_procs L s (s\<lparr>RTC_flag := g\<rparr>)" "same_procs L s (s\<lparr>read_dir_index := i\<rparr>)"
  "same_procs L s (cli s)" "same_procs L s (sti s)"
  by (rule same_procsI; simp add: proc_view_def cli_def sti_def)+

lemmas same_procs_then = same_procs_updates [THEN same_procs_trans [rotated]]

lemma same_procs_spin:
  "spin_until b hs s = Some s' \<Longrightarrow> \<forall>h\<in>set hs. \<forall>s. same_procs L s (h s) \<Longrightarrow> same_procs L s s'"
proof (induction hs arbitrary: s)
  case (Cons h hs)
  then show ?case using same_procs_trans [of L s "h s" s'] by (auto split: if_splits)
qed (auto split: if_splits)

lemma same_procs_store: "store_bytes L a bs s = Some s' \<Longrightarrow> same_procs L s s'"
  using store_bytes_more by fastforce

lemma same_procs_rtc [simp]:
  fixes s :: "'a sys_state_scheme"
  shows "same_procs L s (rtc_int_handler dev s)" "same_procs L s (set_rate dev r s)"
  by (rule same_procs_screen;
      simp add: rtc_int_handler_def set_rate_def send_eoi_def outb_def inb_def cli_def sti_def Let_def split: prod.splits)+

lemma same_procs_terminal_write:
  fixes s :: "'a sys_state_scheme"
  assumes "terminal_write src buf count s = Some (r, s')"
  shows "same_procs L s s'"
proof -
  obtain pb s1 src' lim k where p: "puts_scroll src' 0 lim ((cli s)\<lparr>print_buffer := pb\<rparr>) = Some (k, s1)" and s': "s' = sti s1"
    using assms by (auto simp: terminal_write_def Let_def bind_eq_Some_conv split: if_splits)
  let ?b = "(cli s)\<lparr>print_buffer := pb\<rparr>"
  have "same_procs L s ?b" by (rule same_procs_trans [of L s "cli s"]) simp_all
  moreover have "same_procs L ?b s1" by (rule same_procs_screen [OF puts_scroll_more [OF p] puts_scroll_active [OF p]])
  ultimately show ?thesis using same_procs_trans by (metis s' same_procs_updates(11))
qed

lemma same_procs_terminal_read:
  fixes s :: "'a sys_state_scheme"
  assumes "terminal_read L hs buf count s = Some (r, s')" "\<forall>h\<in>set hs. \<forall>s. same_procs L s (h s)"
  shows "same_procs L s s'"
proof -
  obtain b bs s1 s2 f where w: "spin_until b hs (sti s) = Some s1" "store_bytes L buf bs s1 = Some s2" "s' = s2\<lparr>terminal_read_ready := f\<rparr>"
    using assms(1) by (auto simp: terminal_read_def Let_def bind_eq_Some_conv split: if_splits)
  have "same_procs L s (sti s)" "same_procs L (sti s) s1" "same_procs L s1 s2" "same_procs L s2 s'"
    using same_procs_spin [OF w(1) assms(2)] same_procs_store [OF w(2)] by (simp_all add: w(3))
  then show ?thesis using same_procs_trans by metis
qed

lemma same_procs_call_op:
  fixes s :: "'a sys_state_scheme"
  assumes "call_op L dev hs op ino offset buf count s = Some (n, s')" "\<forall>h\<in>set hs. \<forall>s. same_procs L s (h s)"
  shows "same_procs L s s'"
proof (cases op)
  case Rtc_read_wrapper
  then obtain b s1 where "spin_until b hs s = Some s1" "s' = s1\<lparr>RTC_flag := 0\<rparr>"
    using assms(1) by (auto simp: call_op_def rtc_read_wrapper_def rtc_read_def)
  then show ?thesis using same_procs_spin [OF _ assms(2)] same_procs_trans by (metis same_procs_updates(8))
next
  case Rtc_write_wrapper
  have "same_procs L s (sti (cli s))" "same_procs L s (sti (set_rate dev x (cli s)))" for x
    by (meson same_procs_trans same_procs_updates same_procs_rtc)+
  then show ?thesis
    using Rtc_write_wrapper assms(1) by (auto simp: call_op_def rtc_write_wrapper_def rtc_write_def Let_def split: if_splits)
next
  case Read_dir_wrapper
  then show ?thesis
    using assms(1) same_procs_store same_procs_trans [OF same_procs_updates(9)]
    by (fastforce simp: call_op_def read_dir_wrapper_def read_dir_def split: if_splits option.splits)
next
  case Read_f_wrapper
  then show ?thesis
    using assms(1) same_procs_store by (fastforce simp: call_op_def read_f_wrapper_def split: prod.splits)
next
  case Open_dir_wrapper
  then show ?thesis
    using assms(1) by (auto simp: call_op_def open_dir_wrapper_def open_dir_def)
qed (use assms same_procs_terminal_write same_procs_terminal_read in
    \<open>auto simp: call_op_def terminal_read_wrap_def terminal_write_wrap_def terminal_wrong_def terminal_nothing_def rtc_open_wrapper_def rtc_open_def
       rtc_close_wrapper_def rtc_close_def write_dir_wrapper_def close_dir_wrapper_def close_dir_def write_f_wrapper_def open_f_wrapper_def close_f_wrapper_def\<close>)

section \<open>Operations on the current process\<close>

text \<open>The invariant allows any change to the descriptors of the current process that keeps them consistent.\<close>

lemma block_inv:
  assumes inv: "sys_inv L s" and "proc_view s' = (let (_, rest) = proc_view s in ((pcbs s)(curr s := b), rest))"
    and "\<And>A. address_space L s A \<Longrightarrow> user A = Some (curr s) \<Longrightarrow> \<exists>A'. address_space L s' A' \<and> user A' = Some (curr s)"
    and scr: "vid_ok s'" "active_terminal s' = active_terminal s"
    and b: "pcb_pid b = pcb_pid (pcbs s (curr s))" "p_pid b = p_pid (pcbs s (curr s))" "pcb_terminal b = pcb_terminal (pcbs s (curr s))" "fds_ok b"
  shows "advances L s s'"
proof -
  have e: "pcbs s' = (pcbs s)(curr s := b)" "proc_state s' = proc_state s" "t_curr s' = t_curr s" "curr s' = curr s"
      "terminal_2_running s' = terminal_2_running s" "terminal_3_running s' = terminal_3_running s"
    using assms(2) by (simp_all add: proc_view_def)
  have i: "procs_ok s" "hot_ok s" "t_curr s 0 \<noteq> -1" "user_mapped L (curr s) s" and r: "running s (curr s) (active_terminal s)"
    using inv by (simp_all add: sys_inv_def)
  then have c: "live s (curr s)" by (auto simp: running_def)
  have live: "live s' p = live s p" for p by (simp add: live_def e)
  have p: "pcb_pid (pcbs s' p) = pcb_pid (pcbs s p)" "p_pid (pcbs s' p) = p_pid (pcbs s p)"
      "pcb_terminal (pcbs s' p) = pcb_terminal (pcbs s p)" for p
    using b by (simp_all add: e)
  have child: "child s' = child s" by (simp add: child_def live p fun_eq_iff)
  have "procs_ok s'"
  proof (rule procs_okI)
    fix p assume "live s' p"
    then show "pcb_pid (pcbs s' p) = p \<and> 0 \<le> pcb_terminal (pcbs s' p) \<and> pcb_terminal (pcbs s' p) < 3
      \<and> live s' (p_pid (pcbs s' p)) \<and> pcb_terminal (pcbs s' (p_pid (pcbs s' p))) = pcb_terminal (pcbs s' p) \<and> fds_ok (pcbs s' p)"
      unfolding p live using procs_okD(1-4) [OF i(1), of p] b(4) by (simp add: e)
  next
    fix p assume "0 \<le> p" "p < 6" "\<not> live s' p"
    then show "all_closed (pcbs s' p)" using c procs_okD(5) [OF i(1), of p] by (auto simp: live e)
  qed (use procs_okD(6-8) [OF i(1)] in \<open>auto simp: p live child e(3)\<close>)
  moreover have "user_mapped L (curr s) s'" using i(4) assms(3) by (auto simp: user_mapped_def)
  ultimately have "sys_inv L s'" using i(2,3) r scr b(3) by (simp add: sys_inv_def hot_ok_def running_def live p e)
  then show ?thesis using scr(2) by (intro advancesI keeps_turns_same) (simp_all add: e)
qed

lemma current_fds: "sys_inv L s \<Longrightarrow> fds_ok (pcbs s (curr s))"
  using procs_okD(4) by (auto simp: sys_inv_def running_def)

lemma set_pcb_inv:
  assumes "sys_inv L s" "pcb_pid (f (pcbs s (curr s))) = pcb_pid (pcbs s (curr s))" "p_pid (f (pcbs s (curr s))) = p_pid (pcbs s (curr s))"
    "pcb_terminal (f (pcbs s (curr s))) = pcb_terminal (pcbs s (curr s))" "fds_ok (f (pcbs s (curr s)))"
  shows "advances L s (set_pcb (curr s) f s)"
proof (rule block_inv [OF assms(1) _ _ _ _ assms(2-5)])
  show "proc_view (set_pcb (curr s) f s) = (let (_, rest) = proc_view s in ((pcbs s)(curr s := f (pcbs s (curr s))), rest))"
    by (simp add: proc_view_def set_pcb_def)
qed (use assms(1) in \<open>auto simp: set_pcb_def address_space_def sys_inv_def vid_ok_def\<close>)

lemma sys_read_inv:
  fixes s :: "'a sys_state_scheme"
  assumes "sys_inv L s" "sys_read L dev hs fd buf n s = Some (r, s')" "\<forall>h\<in>set hs. \<forall>s. same_procs L s (h s)"
  shows "advances L s s'"
proof -
  consider "s' = s" | op ino off cnt s1 where "call_op L dev hs op ino off buf n s = Some (cnt, s1)"
      "s' = s1 \<or> s' = set_pcb (curr s) (set_fd (nat fd) (\<lambda>f. f\<lparr>file_pos := file_pos f + cnt\<rparr>)) s1"
    using assms(2) by (auto simp: sys_read_def Let_def bind_eq_Some_conv split: if_splits)
  then show ?thesis
  proof cases
    case 2
    have sp: "same_procs L s s1" by (rule same_procs_call_op [OF 2(1) assms(3)])
    have adv: "advances L s s1" by (rule same_procs_advances [OF sp assms(1)])
    then have inv: "sys_inv L s1" by (rule advances_inv)
    have "advances L s1 (set_pcb (curr s1) (set_fd (nat fd) (\<lambda>f. f\<lparr>file_pos := file_pos f + cnt\<rparr>)) s1)"
      using current_fds [OF inv] by (intro set_pcb_inv [OF inv]) (simp_all add: set_fd_def fds_ok_def)
    then show ?thesis using 2(2) adv advances_trans [OF adv] same_procs_curr [OF sp] by auto
  qed (use assms(1) advances_refl in simp)
qed

lemma sys_write_inv:
  fixes s :: "'a sys_state_scheme"
  assumes "sys_inv L s" "sys_write L dev hs fd buf n s = Some (r, s')" "\<forall>h\<in>set hs. \<forall>s. same_procs L s (h s)"
  shows "advances L s s'"
proof -
  consider "s' = s" | op ino off cnt where "call_op L dev hs op ino off buf n s = Some (cnt, s')"
    using assms(2) by (auto simp: sys_write_def Let_def bind_eq_Some_conv split: if_splits)
  then show ?thesis
    using advances_refl [OF assms(1)] same_procs_advances [OF same_procs_call_op [OF _ assms(3)] assms(1)] by cases auto
qed

lemma sys_close_inv:
  assumes "sys_inv L s" "bitmap (pcbs s (curr s)) 6 \<noteq> 0 \<Longrightarrow> fd \<noteq> 8"
  shows "advances L s (snd (sys_close fd s))"
proof (cases "2 \<le> fd \<and> fd < 8 \<and> flag (file_array (pcbs s (curr s)) (nat fd)) \<noteq> 0")
  case True
  then show ?thesis
    using current_fds [OF assms(1)] by (simp add: sys_close_pcb) (intro set_pcb_inv [OF assms(1)]; simp add: set_fd_def set_bitmap_def fds_ok_def)
next
  case False
  then have "sys_close fd s = (-1, s)" using assms(2) by (auto simp: sys_close_def get_flag_def Let_def)
  then show ?thesis using advances_refl [OF assms(1)] by simp
qed

lemma sys_open_inv:
  assumes "sys_inv L s"
  shows "advances L s (snd (sys_open L filename s))"
proof -
  let ?s = "snd (sys_open L filename s)"
  let ?b = "pcbs ?s (curr s)"
  have f: "curr ?s = curr s \<and> t_curr ?s = t_curr s \<and> proc_state ?s = proc_state s \<and> terminal_2_running ?s = terminal_2_running s
      \<and> terminal_3_running ?s = terminal_3_running s \<and> page_directory ?s = page_directory s \<and> page_table ?s = page_table s
      \<and> vidMem_table ?s = vidMem_table s \<and> active_terminal ?s = active_terminal s \<and> (\<forall>p. p \<noteq> curr s \<longrightarrow> pcbs ?s p = pcbs s p)
      \<and> pcb_pid ?b = pcb_pid (pcbs s (curr s)) \<and> p_pid ?b = p_pid (pcbs s (curr s)) \<and> pcb_terminal ?b = pcb_terminal (pcbs s (curr s))"
    by (auto simp: sys_open_def set_pcb_def set_fd_def set_bitmap_def open_dir_def Let_def split: option.splits)
  have v: "proc_view ?s = (let (_, rest) = proc_view s in ((pcbs s)(curr s := ?b), rest))"
    using f by (auto simp: proc_view_def fun_eq_iff)
  have sp: "address_space L ?s A = address_space L s A" for A using f by (intro address_space_cong) simp_all
  show ?thesis
    using f fds_ok_open [OF current_fds [OF assms]] assms by (intro block_inv [OF assms v]) (auto simp: sp sys_inv_def vid_ok_def)
qed

lemma getargs_inv:
  fixes s :: "'a sys_state_scheme"
  assumes "sys_inv L s" "getargs L buf n s = Some (r, s')"
  shows "advances L s s'"
proof -
  consider "s' = s" | xs ys a c s1 s2 where "store_bytes L buf xs s = Some s1" "store_bytes L buf ys s1 = Some s2" "store_byte L a c s2 = Some s'"
    using assms(2) by (auto simp: getargs_def bind_eq_Some_conv split: if_splits)
  then show ?thesis
  proof cases
    case 2
    then have "store_bytes L a [c] s2 = Some s'" by simp
    with 2 have "same_procs L s s1" "same_procs L s1 s2" "same_procs L s2 s'" using same_procs_store by blast+
    then show ?thesis using same_procs_advances [OF same_procs_trans [OF same_procs_trans] assms(1)] by blast
  qed (use advances_refl [OF assms(1)] in simp)
qed

lemma vid_ok_map [simp]: "vid_ok (vidMem_page_map L e v t s)"
  by (simp add: vid_ok_def vidMem_page_map_def Let_def entry_simps)

lemma vidmap_inv:
  fixes s :: "'a sys_state_scheme"
  assumes "sys_inv L s" "vidmap L e a s = Some (r, s')"
  shows "advances L s s'"
proof -
  let ?v = "vidMem_page_map L e (132 * 0x100000) (int (get_display_terminal s)) s"
  consider "s' = s" | bs where "store_bytes L a bs ?v = Some s'"
    using assms(2) by (auto simp: vidmap_def Let_def bind_eq_Some_conv simp del: store_bytes.simps split: if_splits)
  then show ?thesis
  proof cases
    case 2
    have "proc_view ?v = proc_view s"
      by (simp add: proc_view_def vidMem_page_map_def set_pde_def set_vte_def pdt_init_kb_def flush_tlb_def load_cr3_def Let_def)
    then have v: "proc_view ?v = (let (_, rest) = proc_view s in ((pcbs s)(curr s := pcbs s (curr s)), rest))" by (simp add: proc_view_def)
    have a: "active_terminal ?v = active_terminal s"
      by (simp add: vidMem_page_map_def set_pde_def set_vte_def pdt_init_kb_def flush_tlb_def load_cr3_def Let_def)
    have "advances L s ?v"
      using vidMem_page_map_address_space current_fds [OF assms(1)] a
      by (intro block_inv [OF assms(1) v]) (fastforce simp: get_display_terminal_def)+
    then show ?thesis using advances_trans same_procs_advances [OF same_procs_store [OF 2]] by blast
  qed (use advances_refl [OF assms(1)] in simp)
qed

section \<open>Starting and ending processes\<close>

text \<open>A call that starts a program, on the current process's terminal or on one that runs nothing.\<close>

lemma execute_space:
  fixes s :: "'a sys_state_scheme"
  assumes "layout_ok L" "user_mapped L c s" "execute_with_terminal_num L stack regs m command t s = Some (r, s')"
  shows "(case r of Enter_user pid eip \<Rightarrow> user_mapped L pid s' | _ \<Rightarrow> user_mapped L c s')
    \<and> terminal_2_running s' = terminal_2_running s \<and> terminal_3_running s' = terminal_3_running s"
  using assms(3)
proof (cases rule: execute_shape)
  case null
  then show ?thesis using assms(2) by simp
next
  case (fail ab sz)
  then show ?thesis using assms(2) by (simp add: user_mapped_def address_space_def cli_def)
next
  case (full ab sz k)
  let ?s = "(cli s)\<lparr>argBuf := ab, argSize := sz\<rparr>"
  have "same_procs L ?s s'" by (rule same_procs_terminal_write [OF full(3)])
  then have "proc_view s' = proc_view ?s" "user_mapped L c ?s \<Longrightarrow> user_mapped L c s'" by (auto simp: same_procs_def user_mapped_def)
  moreover have "user_mapped L c ?s" using assms(2) by (simp add: user_mapped_def address_space_def cli_def)
  ultimately show ?thesis using full(1) by (simp add: proc_view_def cli_def)
next
  case (enter ab sz eip mm)
  let ?s = "(cli s)\<lparr>argBuf := ab, argSize := sz\<rparr>" and ?p = "get_pid s"
  obtain A where "address_space L s A" using assms(2) by (auto simp: user_mapped_def)
  then have "address_space L ?s A" by (simp add: address_space_def cli_def)
  then have "user_mapped L ?p (new_process regs ?p t ?s)"
    using new_process_mapped [OF assms(1)] get_pid_free [OF enter(2)] by blast
  then have "user_mapped L ?p s'" by (simp add: enter(3) user_mapped_def address_space_def enter_process_def set_pcb_def sti_def Let_def)
  moreover have "kbd_view s' = kbd_view ?s" by (simp add: enter(3))
  ultimately show ?thesis using enter(1) by (simp add: kbd_view_def cli_def)
qed

lemma execute_inv:
  fixes s :: "'a sys_state_scheme"
  assumes "layout_ok L" "sys_inv L s" "t < 3" "t_curr s t = -1 \<or> t_curr s t = curr s"
    and hot: "t \<noteq> 0 \<Longrightarrow> t_curr s t = -1 \<Longrightarrow> (if t = 1 then terminal_2_running s else terminal_3_running s) \<noteq> 0"
    and x: "execute_with_terminal_num L stack regs m command t s = Some (r, s')"
  shows "advances L s s'"
proof -
  have i: "procs_ok s" "hot_ok s" "t_curr s 0 \<noteq> -1" "user_mapped L (curr s) s" "vid_ok s" and r: "running s (curr s) (active_terminal s)"
    using assms(2) by (simp_all add: sys_inv_def)
  have v: "vid_ok s'" "active_terminal s' = (case r of Enter_user _ _ \<Rightarrow> t | _ \<Rightarrow> active_terminal s)"
    using execute_terminal [OF x] i(5) by (simp_all add: vid_ok_def)
  note k = execute_keeps [OF i(1) assms(3,4) x] and sp = execute_space [OF assms(1) i(4) x]
  have tc: "t_curr s' u = t_curr s u" if "u \<noteq> t" for u
    using x by (cases rule: execute_cases) (use that in \<open>auto simp: Let_def pcb_init_fields\<close>)
  show ?thesis
  proof (cases r)
    case (Returned v)
    then have e: "pcbs s' = pcbs s" "proc_state s' = proc_state s" "t_curr s' = t_curr s" "curr s' = curr s" using k by simp_all
    then have "proc_view s' = proc_view s" using sp by (simp add: proc_view_def)
    then have "sys_inv L s'" using assms(2) proc_view_ok [of s' s] Returned sp k v by (simp add: sys_inv_def running_def e)
    then show ?thesis using v(2) Returned by (intro advancesI keeps_turns_same) (simp_all add: e)
  next
    case (Enter_user pid eip)
    then have run: "running s' pid t" "live s' pid" using k by simp_all
    then have c: "curr s' = pid" "t_curr s' t = pid" "pid \<noteq> -1" using live_nonneg by (auto simp: running_def)
    have "t \<noteq> 1" if "terminal_2_running s = 0" using that i(2) hot by (auto simp: hot_ok_def)
    moreover have "t \<noteq> 2" if "terminal_3_running s = 0" using that i(2) hot by (auto simp: hot_ok_def)
    ultimately have "hot_ok s'" using i(2) sp tc [of 1] tc [of 2] by (auto simp: hot_ok_def)
    moreover have "t_curr s' 0 \<noteq> -1" using i(3) tc [of 0] c by (cases "t = 0") auto
    ultimately have inv: "sys_inv L s'" using Enter_user k sp run c v by (simp add: sys_inv_def)
    have new: "t_curr s' = (t_curr s)(t := pid)" "active_terminal s' = t" using tc c(2) v(2) Enter_user by auto
    have a: "active_terminal s < 3" "t_curr s (active_terminal s) \<noteq> -1" using r live_nonneg by (auto simp: running_def)
    have "keeps_turns s s'"
    proof (cases "t_curr s t = -1")
      case True
      then show ?thesis
        using open_ticks_left [OF a _ _ assms(3) True c(3)] by (auto simp: keeps_turns_def new)
    next
      case False
      then have "t = active_terminal s"
        using assms(4) procs_okD(6) [OF i(1) assms(3)] r by (auto simp: running_def)
      then show ?thesis using new False c(3) by (intro keeps_turns_same) auto
    qed
    with inv show ?thesis by (rule advancesI)
  next
    case (Resume_parent a b c)
    then show ?thesis using k by simp
  qed
qed

lemma halt_inv:
  fixes s :: "'a sys_state_scheme"
  assumes "sys_inv L s" "p_pid (pcbs s (curr s)) \<noteq> curr s" "halt L stack regs status s = Some (r, s')"
  shows "advances L s s'"
proof -
  let ?c = "curr s" and ?q = "p_pid (pcbs s (curr s))"
  define t where "t = active_terminal s"
  have i: "procs_ok s" "hot_ok s" "t_curr s 0 \<noteq> -1" "user_mapped L ?c s" "vid_ok s" and run: "running s ?c t"
    using assms(1) by (simp_all add: sys_inv_def t_def)
  have h: "procs_ok s'" "running s' ?q t" "page_directory s' = page_directory (pid_page_map ?q s)"
      "page_table s' = page_table s" "vidMem_table s' = vidMem_table s" "t_curr s' = (t_curr s)(t := ?q)"
      "terminal_2_running s' = terminal_2_running s" "terminal_3_running s' = terminal_3_running s" "active_terminal s' = t"
    using halt_resumes [OF i(1) run assms(2), of L stack regs status] assms(3) by (auto simp: t_def)
  have q: "live s' ?q" "curr s' = ?q" "t_curr s t = ?c" "?q \<noteq> -1" "?c \<noteq> -1"
    using h(2) run live_nonneg by (auto simp: running_def)
  obtain A where A: "layout_ok L" "address_space L s A" using i(4) by (auto simp: user_mapped_def)
  have "0 \<le> ?q" "?q < 6" using q(1) by (simp_all add: live_def)
  from pid_page_map_address_space [OF A(2) this] have "address_space L s' (A\<lparr>user := Some ?q\<rparr>)"
    by (subst address_space_cong [OF h(3)]) (simp_all add: h pid_page_map_def set_pde_def flush_tlb_def load_cr3_def Let_def)
  then have "user_mapped L ?q s'" using A(1) by (auto simp: user_mapped_def intro!: exI [of _ "A\<lparr>user := Some ?q\<rparr>"])
  moreover have "hot_ok s'" using i(2) q(3,5) by (auto simp: hot_ok_def h)
  moreover have "t_curr s' 0 \<noteq> -1" using i(3) q(4) by (simp add: h)
  moreover have "vid_ok s'" using i(5) h(5) by (simp add: vid_ok_def)
  ultimately have "sys_inv L s'" using h(1,2,9) q(2) by (simp add: sys_inv_def)
  moreover have "keeps_turns s s'" using h(6,9) q(3-5) by (intro keeps_turns_same) (auto simp: t_def)
  ultimately show ?thesis by (rule advancesI)
qed

section \<open>Interrupts\<close>

lemma switch_process_kbd: "switch_process L e regs s = Some (r, s') \<Longrightarrow> kbd_view s' = kbd_view s"
proof -
  have v: "kbd_view (vidMem_page_map L e a t s) = kbd_view s" for a t and s :: "'a sys_state_scheme"
    by (simp add: kbd_view_def vidMem_page_map_def set_pde_def set_vte_def pdt_init_kb_def flush_tlb_def load_cr3_def Let_def)
  have u: "kbd_view (s\<lparr>curr := c\<rparr>) = kbd_view s" "kbd_view (s\<lparr>tss_ss0 := x, tss_esp0 := y\<rparr>) = kbd_view s" "kbd_view (sti s) = kbd_view s"
    for c x y and s :: "'a sys_state_scheme" by (simp_all add: kbd_view_def sti_def)
  show "switch_process L e regs s = Some (r, s') \<Longrightarrow> ?thesis"
    by (auto simp: switch_process_def bind_eq_Some_conv Let_def v u)
qed

lemma switch_process_video: "switch_process L e regs s = Some (r, s') \<Longrightarrow> vid_ok s'"
proof -
  have u: "vid_ok (s\<lparr>curr := c\<rparr>) = vid_ok s" "vid_ok (s\<lparr>tss_ss0 := x, tss_esp0 := y\<rparr>) = vid_ok s" "vid_ok (sti s) = vid_ok s"
      "vid_ok (set_active_terminal t s) = vid_ok s" "vid_ok (set_pcb p f s) = vid_ok s"
    for c x y t p f and s :: "'a sys_state_scheme"
    by (simp_all add: vid_ok_def sti_def set_pcb_def set_active_terminal_def set_active_terminal_paging_def set_pte_def flush_tlb_def load_cr3_def Let_def)
  show "switch_process L e regs s = Some (r, s') \<Longrightarrow> ?thesis"
    by (auto simp: switch_process_def bind_eq_Some_conv Let_def u)
qed

lemma timer_inv:
  fixes s :: "'a sys_state_scheme"
  assumes "layout_ok L" "sys_inv L s" "pit_int_handler L stack e regs s = Some (r, s')"
  shows "sys_inv L s'" "active_terminal s' = turn (t_curr s) (active_terminal s)" "t_curr s' = t_curr s"
proof -
  define t where "t = active_terminal s"
  obtain A where i: "procs_ok s" "hot_ok s" "t_curr s 0 \<noteq> -1" "address_space L s A" "running s (curr s) t"
    using assms(2) by (auto simp: sys_inv_def user_mapped_def t_def)
  have w: "procs_ok s'" "running s' (t_curr s (turn (t_curr s) t)) (turn (t_curr s) t)" "user_mapped L (t_curr s (turn (t_curr s) t)) s'" "t_curr s' = t_curr s"
      "active_terminal s' = turn (t_curr s) t"
    using pit_switch [OF assms(1) i(1,5,4,3) refl refl, of stack e regs] assms(3) by auto
  have "switch_process L e regs (send_eoi 0 (cli s)) = Some (r, s')"
    using assms(3) i(3) by (simp add: pit_int_handler_def Let_def)
  note v = switch_process_video [OF this]
  from switch_process_kbd [OF \<open>switch_process L e regs (send_eoi 0 (cli s)) = Some (r, s')\<close>] have "kbd_view s' = kbd_view s" by (simp add: kbd_view_def send_eoi_def outb_def cli_def)
  then have "hot_ok s'" using i(2) w(4) by (simp add: hot_ok_def kbd_view_def)
  moreover have "curr s' = t_curr s (turn (t_curr s) t)" using w(2) by (simp add: running_def)
  ultimately show "sys_inv L s'" using w i(3) v by (simp add: sys_inv_def)
  show "active_terminal s' = turn (t_curr s) (active_terminal s)" "t_curr s' = t_curr s" using w by (simp_all add: t_def)
qed

lemma same_procs_keys:
  fixes s :: "'a sys_state_scheme"
  shows "same_procs L s (key_clear t s)" "same_procs L s (key_enter t s)" "same_procs L s (key_backspace t s)"
    "key_type c t s = Some s' \<Longrightarrow> same_procs L s s'"
proof -
  have p: "same_procs L s (putc_scroll_display c s)" "same_procs L s (delete_c s)" "same_procs L s (fold putc_scroll_display cs (clear s))"
    for c cs and s :: "'a sys_state_scheme" by (rule same_procs_screen; simp)+
  show "same_procs L s (key_clear t s)" "same_procs L s (key_enter t s)"
    unfolding key_clear_def key_enter_def Let_def by (intro same_procs_then p same_procs_refl)+
  show "same_procs L s (key_backspace t s)"
    unfolding key_backspace_def Let_def by (auto intro!: same_procs_trans [OF _ p(2)] same_procs_then)
  show "key_type c t s = Some s' \<Longrightarrow> same_procs L s s'"
    by (auto simp: key_type_def bind_eq_Some_conv Let_def split: if_splits intro!: p(1) same_procs_trans [OF _ p(1)] same_procs_then)
qed

lemma same_procs_display:
  fixes s :: "'a sys_state_scheme"
  shows "same_procs L s (set_disiplay_terminal t s)"
proof -
  have "vidMem_table (set_disiplay_terminal t s) = vidMem_table s"
    by (simp add: set_disiplay_terminal_def set_active_terminal_def set_active_terminal_paging_def update_cursor_def outb_def set_pte_def
        flush_tlb_def load_cr3_def Let_def)
  then show ?thesis using set_display_frame(2) by (auto simp: same_procs_def)
qed

lemma open_terminal_inv:
  fixes s :: "'a sys_state_scheme"
  assumes "layout_ok L" "sys_inv L s" "open_terminal L stack regs n run set_run s = Some (k, s')"
    and n: "n = 1 \<and> run = terminal_2_running \<and> set_run = (\<lambda>s. s\<lparr>terminal_2_running := 1\<rparr>)
      \<or> n = 2 \<and> run = terminal_3_running \<and> set_run = (\<lambda>s. s\<lparr>terminal_3_running := 1\<rparr>)"
  shows "advances L s s'"
proof -
  let ?d = "set_disiplay_terminal n s"
  have adv: "advances L s ?d" by (rule same_procs_advances [OF same_procs_display assms(2)])
  then have d: "sys_inv L ?d" by (rule advances_inv)
  consider "s' = ?d" | r where "run ?d = 0" "execute_with_terminal_num L stack regs (lit_mem ''shell'') 1 n (set_run ?d) = Some (r, s')"
    using assms(3) by (auto simp: open_terminal_def Let_def bind_eq_Some_conv split: if_splits)
  then show ?thesis
  proof cases
    case 2
    have e: "pcbs (set_run ?d) = pcbs ?d" "proc_state (set_run ?d) = proc_state ?d" "t_curr (set_run ?d) = t_curr ?d" "curr (set_run ?d) = curr ?d"
        "page_directory (set_run ?d) = page_directory ?d" "page_table (set_run ?d) = page_table ?d" "vidMem_table (set_run ?d) = vidMem_table ?d"
        "active_terminal (set_run ?d) = active_terminal ?d"
      using n by auto
    have "procs_ok (set_run ?d) = procs_ok ?d" by (rule procs_ok_cong) (simp_all add: e)
    moreover have "hot_ok ?d \<Longrightarrow> hot_ok (set_run ?d) \<and> t_curr ?d n = -1" using n 2(1) by (auto simp: hot_ok_def)
    ultimately have inv: "sys_inv L (set_run ?d)" "t_curr ?d n = -1"
      using d by (auto simp: sys_inv_def running_def live_def vid_ok_def e user_mapped_def address_space_cong [OF e(5-7)] simp del: display_simps)
    have "advances L ?d (set_run ?d)" by (intro advancesI [OF inv(1)] keeps_turns_same) (simp_all only: e)
    moreover have "advances L (set_run ?d) s'"
      by (rule execute_inv [OF assms(1) inv(1) _ _ _ 2(2)]) (use n inv(2) e in auto)
    ultimately show ?thesis using adv advances_trans by blast
  qed (use adv in simp)
qed

lemma key_alt_inv:
  fixes s :: "'a sys_state_scheme"
  assumes "layout_ok L" "sys_inv L s" "key_alt L stack regs c s = Some (k, s')"
  shows "advances L s s'"
  using assms(3) open_terminal_inv [OF assms(1,2)] same_procs_advances [OF same_procs_display assms(2)] advances_refl [OF assms(2)]
  by (auto simp: key_alt_def split: if_splits)

lemma handle_key_inv:
  fixes s :: "'a sys_state_scheme"
  assumes "layout_ok L" "sys_inv L s" "handle_key L stack regs c s = Some (k, s')"
  shows "advances L s s'"
proof -
  let ?t = "get_display_terminal s"
  define s1 where "s1 = (let s = s\<lparr>pressed_key := (pressed_key s)(unat c := 1)\<rparr> in if c = 58 then s\<lparr>cap_status := 1 - cap_status s\<rparr> else s)"
  have adv1: "advances L s s1" using same_procs_advances [OF _ assms(2)] by (simp add: s1_def Let_def same_procs_then)
  then have s1: "sys_inv L s1" by (rule advances_inv)
  have up: "advances L s (s\<lparr>pressed_key := x\<rparr>)" for x using same_procs_advances [OF _ assms(2)] by simp
  define first where "first = (if c > 127 then Some (Next, s\<lparr>pressed_key := (pressed_key s)(unat (c - 128) := 0)\<rparr>)
     else if c = 38 \<and> pressed_key s1 0x1D = 1 then Some (Next, key_clear ?t s1)
     else if pressed_key s1 56 = 1 then key_alt L stack regs c s1
     else if scan_code s1 (unat c) \<noteq> 0 then do { s \<leftarrow> key_type c ?t s1; Some (Next, s) } else Some (Next, s1))"
  have hk: "handle_key L stack regs c s = do { (k, s) \<leftarrow> first;
      if k = Next then let s = (if c = 0x1C then key_enter ?t s else s); s = (if c = 0x0E then key_backspace ?t s else s) in Some (Next, s)
      else Some (k, s) }"
    by (simp add: handle_key_def first_def s1_def Let_def cong: if_cong)
  obtain s2 k1 where f: "first = Some (k1, s2)"
      and s2: "s' = s2 \<or> s' = (let s = (if c = 0x1C then key_enter ?t s2 else s2) in if c = 0x0E then key_backspace ?t s else s)"
    using assms(3) unfolding hk by (auto simp: bind_eq_Some_conv Let_def split: if_splits)
  note from1 = advances_trans [OF adv1]
  have adv2: "advances L s s2"
    using f up adv1 from1 [OF key_alt_inv [OF assms(1) s1]] from1 [OF same_procs_advances [OF same_procs_keys(1) s1]]
      from1 [OF same_procs_advances [OF same_procs_keys(4) s1]]
    by (auto simp: first_def bind_eq_Some_conv split: if_splits)
  have "same_procs L s2 s' \<or> s' = s2"
    using s2 same_procs_trans [OF same_procs_keys(2,3)] same_procs_keys(2,3) by (auto simp: Let_def split: if_splits)
  then show ?thesis using adv2 advances_trans [OF adv2] same_procs_advances by blast
qed

lemma kbd_loop_inv:
  fixes s :: "'a sys_state_scheme"
  assumes "layout_ok L" "sys_inv L s" "kbd_loop L dev stack regs s = Some y"
  shows "advances L s (snd y)"
proof -
  have io: "same_procs L s (snd (inb dev p s))" for L dev p and s :: "'a sys_state_scheme"
    by (rule same_procs_screen) (simp_all add: inb_def Let_def)
  have "kbd_loop L dev stack regs s = Some y \<Longrightarrow> layout_ok L \<longrightarrow> sys_inv L s \<longrightarrow> advances L s (snd y)"
  proof (erule kbd_loop.raw_induct [rotated, where P = "\<lambda>L dev stack regs s y. layout_ok L \<longrightarrow> sys_inv L s \<longrightarrow> advances L s (snd y)"], intro impI)
    fix loop :: "layout \<Rightarrow> device \<Rightarrow> memory \<Rightarrow> u32 \<times> u32 \<Rightarrow> 'a sys_state_scheme \<Rightarrow> (key_end \<times> 'a sys_state_scheme) option"
      and L dev stack regs y and s :: "'a sys_state_scheme"
    assume IH: "\<And>L dev stack regs s y. loop L dev stack regs s = Some y \<Longrightarrow> layout_ok L \<longrightarrow> sys_inv L s \<longrightarrow> advances L s (snd y)"
      and step: "(let (st, s) = inb dev 0x64 s
        in if st AND 1 > 0 then let (input, s) = inb dev 0x60 s
             in handle_key L stack regs input s \<bind> (\<lambda>(k, s). if k = Next then loop L dev stack regs s else Some (k, s))
           else Some (Next, s)) = Some y"
      and ok: "layout_ok L" "sys_inv L s"
    obtain st s1 input s2 where io1: "inb dev 0x64 s = (st, s1)" "inb dev 0x60 s1 = (input, s2)" by fastforce
    have i1: "advances L s s1" using same_procs_advances [OF io ok(2)] io1(1) by (metis snd_conv)
    have "same_procs L s1 s2" using io [of L s1 dev 96] io1(2) by simp
    then have adv2: "advances L s s2" using advances_trans [OF i1] same_procs_advances by blast
    then have i2: "sys_inv L s2" by (rule advances_inv)
    show "advances L s (snd y)"
    proof (cases "st AND 1 > 0")
      case True
      then obtain k s3 where h: "handle_key L stack regs input s2 = Some (k, s3)" "(if k = Next then loop L dev stack regs s3 else Some (k, s3)) = Some y"
        using step by (auto simp: io1 bind_eq_Some_conv)
      have "advances L s s3" by (rule advances_trans [OF adv2 handle_key_inv [OF ok(1) i2 h(1)]])
      then show ?thesis using h(2) IH [of L dev stack regs s3 y] ok(1) advances_trans by (fastforce split: if_splits)
    qed (use step i1 in \<open>auto simp: io1\<close>)
  qed
  then show ?thesis using assms by blast
qed

lemma keyboard_inv:
  fixes s :: "'a sys_state_scheme"
  assumes "layout_ok L" "sys_inv L s" "keyboard_handler L dev stack regs s = Some (k, s')"
  shows "advances L s s'"
proof -
  let ?s = "send_eoi 1 (cli s)"
  have "same_procs L s ?s" by (rule same_procs_screen) (simp_all add: send_eoi_def outb_def cli_def Let_def)
  then have adv: "advances L s ?s" using same_procs_advances assms(2) by blast
  obtain k1 s1 where s1: "kbd_loop L dev stack regs ?s = Some (k1, s1)" "s' = s1 \<or> s' = sti s1"
    using assms(3) by (auto simp: keyboard_handler_def Let_def bind_eq_Some_conv split: if_splits)
  have adv1: "advances L s s1" using kbd_loop_inv [OF assms(1) _ s1(1)] advances_trans [OF adv] by simp
  then show ?thesis using s1(2) advances_trans [OF adv1] same_procs_advances [OF same_procs_updates(11)] by blast
qed

section \<open>System calls\<close>

lemma syscall_inv:
  fixes s :: "'a sys_state_scheme"
  assumes "layout_ok L" "sys_inv L s" and x: "syscall_asm L dev hs stack regs eax ebx ecx edx s = Some (r, s')"
    and hs: "\<forall>h\<in>set hs. \<forall>s. same_procs L s (h s)"
    and "\<not> (eax = 1 \<and> p_pid (pcbs s (curr s)) = curr s)" and "\<not> (eax = 6 \<and> ebx = 8 \<and> bitmap (pcbs s (curr s)) 6 \<noteq> 0)"
  shows "advances L s s'"
proof -
  define t where "t = active_terminal s"
  have t: "t < 3" "pcb_terminal (pcbs s (curr s)) = int t" "t_curr s t = curr s" "curr s \<noteq> -1"
    using assms(2) live_nonneg by (auto simp: sys_inv_def running_def t_def)
  have ret: "returning c = Some (r, s') \<Longrightarrow> \<exists>v. c = Some (v, s')" for c by (auto simp: returning_def)
  consider "s' = s" | "eax = 1" "halt L stack regs (ucast ebx) s = Some (r, s')" | "execute L stack regs ebx s = Some (r, s')"
    | v where "sys_read L dev hs (sint ebx) ecx edx s = Some (v, s')" | v where "sys_write L dev hs (sint ebx) ecx edx s = Some (v, s')"
    | "s' = snd (sys_open L ebx s)" | "eax = 6" "s' = snd (sys_close (sint ebx) s)"
    | v where "getargs L ebx (sint ecx) s = Some (v, s')" | v where "vidmap L (load32 stack 8) ebx s = Some (v, s')"
    using x by (auto simp: syscall_asm_def split: if_splits dest!: ret)
  then show ?thesis
  proof cases
    case 2
    then show ?thesis using halt_inv [OF assms(2)] assms(5) by blast
  next
    case 3
    then show ?thesis using execute_inv [OF assms(1,2) t(1)] t by (auto simp: execute_def)
  next
    case 7
    have "sint ebx \<noteq> 8" if "bitmap (pcbs s (curr s)) 6 \<noteq> 0"
    proof -
      have "sint ebx \<noteq> sint (8 :: u32)" using assms(6) 7(1) that signed_word_eqI [of ebx 8] by blast
      then show ?thesis by simp
    qed
    then show ?thesis using sys_close_inv [OF assms(2)] 7(2) by simp
  next
    case (4 v)
    then show ?thesis by (rule sys_read_inv [OF assms(2) _ hs])
  next
    case (5 v)
    then show ?thesis by (rule sys_write_inv [OF assms(2) _ hs])
  qed (use advances_refl [OF assms(2)] sys_open_inv [OF assms(2)] getargs_inv [OF assms(2)] vidmap_inv [OF assms(2)] in simp_all)
qed

section \<open>Reachable configurations\<close>

text \<open>A transition system with an invariant of its steps.\<close>

locale transition_invariant =
  fixes step :: "'s \<Rightarrow> 's \<Rightarrow> bool" and inv :: "'s \<Rightarrow> bool"
  assumes preserved: "inv s \<Longrightarrow> step s s' \<Longrightarrow> inv s'"
begin

lemma reachable: "step\<^sup>*\<^sup>* s s' \<Longrightarrow> inv s \<Longrightarrow> inv s'"
  by (induction rule: rtranclp_induct) (auto intro: preserved)

lemma reachable_implies: "step\<^sup>*\<^sup>* s s' \<Longrightarrow> inv s \<Longrightarrow> (\<And>s. inv s \<Longrightarrow> P s) \<Longrightarrow> P s'"
  using reachable by blast

end

lemma work_advances:
  fixes s s' :: "'a sys_state_scheme"
  assumes "layout_ok L" "sys_inv L s" "work_step L dev (s, W) (s', W')"
  shows "advances L s s'"
  using assms(3)
proof cases
  case (keyboard stack regs k)
  then show ?thesis by (intro keyboard_inv [OF assms(1,2)])
next
  case clock
  then show ?thesis using same_procs_advances [OF same_procs_rtc(1) assms(2)] by simp
next
  case (syscall stack regs eax ebx ecx edx r)
  then show ?thesis by (intro syscall_inv [OF assms(1,2)]) auto
next
  case (waits ecx ebx edx op)
  then show ?thesis using advances_refl [OF assms(2)] same_procs_advances [OF same_procs_updates(11) assms(2)] by auto
next
  case (resumes ebx ecx edx stack regs r)
  then show ?thesis by (intro syscall_inv [OF assms(1,2), where eax = 3]) auto
next
  case (store a b)
  then have "store_bytes L a [b] s = Some s'" by simp
  then show ?thesis using same_procs_advances [OF same_procs_store assms(2)] by blast
qed

lemma step_inv:
  fixes s s' :: "'a sys_state_scheme"
  assumes "layout_ok L" "sys_inv L s" "sys_step L dev (s, W) (s', W')"
  shows "sys_inv L s'"
  using assms(3)
proof cases
  case (timer stack e regs r)
  then show ?thesis by (intro timer_inv [OF assms(1,2)])
next
  case work
  then show ?thesis using work_advances [OF assms(1,2)] advances_inv by blast
qed

interpretation ksys: transition_invariant "sys_step L dev" "\<lambda>(s, W). layout_ok L \<and> sys_inv L s" for L dev
  by unfold_locales (auto intro: step_inv)

text \<open>
  A machine that boots: the variables as they are statically initialised and the process blocks,
  which lie in memory of their own, without open descriptors; a Multiboot report that
  \<open>entry\<close> accepts; and a file system with an executable \<open>shell\<close>.
\<close>

definition boots :: "symbols \<Rightarrow> memory \<Rightarrow> u32 \<Rightarrow> 'a kernel_state_scheme \<Rightarrow> bool" where
  "boots K stack addr s \<longleftrightarrow> layout_ok (sym_layout K) \<and> vidMem_table s = (\<lambda>_. 0) \<and> t_curr s = (\<lambda>_. -1) \<and> proc_state s = (\<lambda>_. 0)
     \<and> (\<forall>p. all_closed (pcbs s p))
     \<and> (\<exists>s1 b i c. print_multiboot stack addr (clear s) = Some (True, s1) \<and> b = read_filesys_bootblock (bootBlk_addr s1) s1
         \<and> i < nat (num_dentry b) \<and> takeWhile (\<lambda>c. c \<noteq> 0) (fname (dentry_at b i)) = [115, 104, 101, 108, 108]
         \<and> (\<forall>j<i. takeWhile (\<lambda>c. c \<noteq> 0) (fname (dentry_at b j)) \<noteq> [115, 104, 101, 108, 108])
         \<and> c = file_contents b (inode (dentry_at b i)) \<and> valid_inode b (inode (dentry_at b i)) \<and> 28 \<le> length c \<and> length c \<le> 0x3B8000
         \<and> take 4 c = elf_magic)"

lemma boot_inv:
  assumes "boots K stack addr s"
  shows "\<exists>eip s'. kernel_entry K dev stack g e regs 0x2BADB002 addr s = Some (First_shell 0 eip, s') \<and> sys_inv (sym_layout K) s'
    \<and> curr s' = 0 \<and> read_op 0 s' = Some Terminal_read_wrap"
proof -
  obtain s1 b i c where b: "layout_ok (sym_layout K)" "vidMem_table s = (\<lambda>_. 0)" "t_curr s = (\<lambda>_. -1)" "proc_state s = (\<lambda>_. 0)"
      "\<forall>p. all_closed (pcbs s p)" "print_multiboot stack addr (clear s) = Some (True, s1)" "b = read_filesys_bootblock (bootBlk_addr s1) s1"
      "i < nat (num_dentry b)" "takeWhile (\<lambda>c. c \<noteq> 0) (fname (dentry_at b i)) = [115, 104, 101, 108, 108]"
      "\<forall>j<i. takeWhile (\<lambda>c. c \<noteq> 0) (fname (dentry_at b j)) \<noteq> [115, 104, 101, 108, 108]"
      "c = file_contents b (inode (dentry_at b i))" "valid_inode b (inode (dentry_at b i))" "28 \<le> length c" "length c \<le> 0x3B8000"
      "take 4 c = elf_magic"
    using assms unfolding boots_def by blast
  obtain eip s' where s': "kernel_entry K dev stack g e regs 0x2BADB002 addr s = Some (First_shell 0 eip, s')"
      "sched_ok (sym_layout K) 0 s'" "user_mapped (sym_layout K) 0 s'" "\<forall>p. live s' p \<longleftrightarrow> p = 0" "hot_ok s'"
      "vidMem_table s' = (\<lambda>_. 0)" "active_terminal s' = 0" "fop_read (file_array (pcbs s' 0) 0) = Terminal_read_wrap" "flag (file_array (pcbs s' 0) 0) = 1"
    using boot_shell [OF b, of dev g e regs] by blast
  then have c: "curr s' = 0" by (auto simp: sched_ok_def running_def)
  then have "sys_inv (sym_layout K) s'" using s' by (simp add: sys_inv_def sched_ok_def vid_ok_def)
  moreover have "read_op 0 s' = Some Terminal_read_wrap" using s'(8,9) by (simp add: read_op_def c)
  ultimately show ?thesis using s'(1) c by blast
qed

lemma reachable_inv:
  assumes "boots K stack addr s" "kernel_entry K dev stack g e regs 0x2BADB002 addr s = Some (First_shell p eip, s0)"
    "(sys_step (sym_layout K) dev)\<^sup>*\<^sup>* (s0, W0) (s', W)"
  shows "sys_inv (sym_layout K) s'" "layout_ok (sym_layout K)"
proof -
  have "sys_inv (sym_layout K) s0" using boot_inv [OF assms(1), of dev g e regs] assms(2) by auto
  moreover show "layout_ok (sym_layout K)" using assms(1) by (simp add: boots_def)
  ultimately show "sys_inv (sym_layout K) s'" using ksys.reachable [OF assms(3)] by simp
qed

section \<open>What a program can reach\<close>

text \<open>The 4 MB frame of a process, and what its window to the screen shows: video memory or the first page.\<close>

definition frame_of :: "int \<Rightarrow> u32 set" where
  "frame_of p = region (0x800000 + of_int p * 0x400000) 0x400000"

definition screen_window :: "u32 set" where
  "screen_window = region 0xB8000 0x1000 \<union> region 0 0x1000"

lemma frame_base:
  assumes "0 \<le> p" "p < 6"
  shows "unat (0x800000 + of_int p * 0x400000 :: u32) = 0x800000 + nat p * 0x400000"
proof -
  from assms have "p = 0 \<or> p = 1 \<or> p = 2 \<or> p = 3 \<or> p = 4 \<or> p = 5" by arith
  then show ?thesis by auto
qed

lemma frames_disjoint:
  assumes "0 \<le> p" "p < 6" "0 \<le> q" "q < 6" "p \<noteq> q"
  shows "frame_of p \<inter> frame_of q = {}"
proof -
  have one: "frame_of a \<inter> frame_of b = {}" if "0 \<le> a" "a < b" "b < 6" for a b
    unfolding frame_of_def using that frame_base [of a] frame_base [of b] by (intro region_disjoint) auto
  show ?thesis using one [of p q] one [of q p] assms by (cases "p < q") auto
qed

lemma frame_above_kernel:
  assumes "0 \<le> p" "p < 6"
  shows "frame_of p \<inter> region 0 0x800000 = {}"
proof -
  have "region (0 :: u32) 0x800000 \<inter> frame_of p = {}"
    unfolding frame_of_def using frame_base [OF assms] assms by (intro region_disjoint) auto
  then show ?thesis by blast
qed

lemma stored_bytes_in_frame:
  assumes "in_window a n" "i < n"
  shows "user_phys p a + of_nat i \<in> frame_of p"
proof -
  have w: "in_window (a + of_nat i) (Suc 0)" by (rule in_window_offset [OF assms])
  have "unat (a + of_nat i - 0x8000000) = unat (a + of_nat i) - 0x8000000"
    using w by (simp add: in_window_def unat_sub_if')
  then have "unat (a + of_nat i - 0x8000000) < 0x400000" using w unfolding in_window_def by linarith
  moreover have "user_phys p a + of_nat i - (0x800000 + of_int p * 0x400000) = a + of_nat i - 0x8000000"
    by (simp add: user_phys_def)
  ultimately show ?thesis by (simp only: frame_of_def in_region_iff)
qed

lemma store_isolated:
  assumes "sys_inv L s" "in_window a (length bs)"
  shows "\<exists>s'. store_bytes L a bs s = Some s' \<and> (\<forall>x. x \<notin> frame_of (curr s) \<longrightarrow> ram s' x = ram s x)"
proof -
  let ?m = "write_bytes (ram s) (user_phys (curr s) a) bs"
  have m: "user_mapped L (curr s) s" using assms(1) by (simp add: sys_inv_def)
  have "length bs \<le> 4294967296" using assms(2) by (simp add: in_window_def)
  moreover have "x \<notin> region (user_phys (curr s) a) (length bs)" if "x \<notin> frame_of (curr s)" for x
    using that stored_bytes_in_frame [OF assms(2)] by (auto elim!: region_obtain)
  ultimately have "?m x = ram s x" if "x \<notin> frame_of (curr s)" for x using that by simp
  then show ?thesis using store_bytes_user [OF m assms(2)] by auto
qed

text \<open>The physical addresses that user mode can get at.\<close>

lemma user_access:
  fixes s :: "'a sys_state_scheme"
  assumes "sys_inv L s" "translate L s a = Some i" "user_ok i"
  shows "frame_addr i \<in> frame_of (curr s) \<union> screen_window"
proof -
  obtain A where A: "layout_ok L" "address_space L s A" "user A = Some (curr s)" and v: "vid_ok s"
    using assms(1) by (auto simp: sys_inv_def user_mapped_def)
  have t: "as_translate A a = Some i" using assms(2) address_space_translate [OF A(1,2), of a] by simp
  then consider "in_window a 1" "frame_addr i = user_phys (curr s) a"
    | f where "0x8400000 \<le> unat a" "unat a < 0x8401000" "video A = Some f" "frame_addr i = f + (a - 0x8400000)"
    using assms(3) A(3) by (auto simp: as_translate_def in_window_def user_phys_def split: if_splits)
  then show ?thesis
  proof cases
    case 1
    then show ?thesis using stored_bytes_in_frame [OF 1(1), of 0 "curr s"] by simp
  next
    case (2 f)
    have "vte_ok A 0 (vidMem_table s 0)" "take_bit 12 f = 0" using A(2) 2(3) by (auto simp: address_space_def)
    then have "drop_bit 12 f \<in> {0, 0xB8}" "push_bit 12 (drop_bit 12 f) = f"
      using v bits_ident [of 12 f] by (auto simp: vte_ok_def entry_def vid_ok_def 2(3))
    then have f: "f = 0 \<or> f = 0xB8000" by auto
    have "unat (a - 0x8400000) = unat a - 0x8400000" using 2(1) by (simp add: unat_sub_if')
    then have "unat (a - 0x8400000) < 0x1000" using 2(1,2) by linarith
    then show ?thesis using f by (auto simp: screen_window_def 2(4) in_region_iff)
  qed
qed

section \<open>Turns\<close>

text \<open>
  Timer ticks one after the other, with any steps between two of them: the list has, for each
  tick, the terminal of the process that has the processor afterwards.
\<close>

inductive ticks :: "layout \<Rightarrow> device \<Rightarrow> 'a config \<Rightarrow> nat list \<Rightarrow> 'a config \<Rightarrow> bool" for L dev where
  none: "ticks L dev c [] c"
| tick: "(work_step L dev)\<^sup>*\<^sup>* c (s, W) \<Longrightarrow> pit_int_handler L stack e regs s = Some (r, s') \<Longrightarrow> ticks L dev (s', W) ts c' \<Longrightarrow>
    ticks L dev c (nat (pcb_terminal (pcbs s' (curr s'))) # ts) c'"

lemma tick_returns:
  fixes s :: "'a sys_state_scheme"
  assumes "layout_ok L" "sys_inv L s"
  shows "\<exists>r s'. pit_int_handler L stack e regs s = Some (r, s') \<and> running s' (t_curr s (turn (t_curr s) (active_terminal s))) (turn (t_curr s) (active_terminal s))"
proof -
  obtain A where "procs_ok s" "running s (curr s) (active_terminal s)" "t_curr s 0 \<noteq> -1" "address_space L s A"
    using assms(2) by (auto simp: sys_inv_def user_mapped_def)
  from pit_switch [OF assms(1) this(1,2,4,3) refl refl, of stack e regs] show ?thesis by blast
qed

lemma work_advances_many:
  "(work_step L dev)\<^sup>*\<^sup>* c c' \<Longrightarrow> layout_ok L \<Longrightarrow> sys_inv L (fst c) \<Longrightarrow> advances L (fst c) (fst c')"
proof (induction rule: rtranclp_induct)
  case (step c1 c2)
  then have "advances L (fst c) (fst c1)" by simp
  moreover have "sys_inv L (fst c1) \<Longrightarrow> advances L (fst c1) (fst c2)"
    using work_advances [of L "fst c1" dev "snd c1" "fst c2" "snd c2"] step by simp
  ultimately show ?case by (rule advances_trans)
qed (rule advances_refl)

lemma ticks_possible: "layout_ok L \<Longrightarrow> sys_inv L s \<Longrightarrow> \<exists>ts c'. ticks L dev (s, W) ts c' \<and> length ts = n"
proof (induction n arbitrary: s)
  case 0
  then show ?case using ticks.none by fastforce
next
  case (Suc n)
  obtain r s' where t: "pit_int_handler L (\<lambda>_. 0) 0 (0, 0) s = Some (r, s')" using tick_returns [OF Suc.prems] by blast
  from Suc.IH [OF Suc.prems(1) timer_inv(1) [OF Suc.prems t]] obtain ts c' where "ticks L dev (s', W) ts c'" "length ts = n" by blast
  with ticks.tick [OF rtranclp.rtrancl_refl t] show ?case by fastforce
qed

text \<open>A terminal in use has its turn within as many ticks as \<open>ticks_left\<close> says.\<close>

lemma turn_comes:
  "ticks L dev c ts c' \<Longrightarrow> layout_ok L \<Longrightarrow> sys_inv L (fst c) \<Longrightarrow> u < 3 \<Longrightarrow> t_curr (fst c) u \<noteq> -1 \<Longrightarrow>
     ticks_left (t_curr (fst c)) (active_terminal (fst c)) u \<le> length ts \<Longrightarrow> u \<in> set ts"
proof (induction rule: ticks.induct)
  case (none c)
  then show ?case using ticks_left_pos [of "t_curr (fst c)" "active_terminal (fst c)" u] by simp
next
  case (tick c s W stack e regs r s' ts c')
  have adv: "advances L (fst c) s" using work_advances_many [OF tick.hyps(1) tick.prems(1,2)] by simp
  then have s: "sys_inv L s" "t_curr s u \<noteq> -1" "ticks_left (t_curr s) (active_terminal s) u \<le> Suc (length ts)"
    using tick.prems by (auto simp: advances_def keeps_turns_def)
  then have a: "active_terminal s < 3" "t_curr s (active_terminal s) \<noteq> -1" using live_nonneg by (auto simp: sys_inv_def running_def)
  note t = timer_inv [OF tick.prems(1) s(1) tick.hyps(2)]
  have n: "nat (pcb_terminal (pcbs s' (curr s'))) = active_terminal s'" using t(1) by (simp add: sys_inv_def running_def)
  from turn_ticks_left [OF a tick.prems(3) s(2)] show ?case
  proof
    assume "turn (t_curr s) (active_terminal s) = u"
    then show ?thesis using t(2) n by simp
  next
    assume "ticks_left (t_curr s) (turn (t_curr s) (active_terminal s)) u < ticks_left (t_curr s) (active_terminal s) u"
    then have "ticks_left (t_curr s') (active_terminal s') u \<le> length ts" using s(3) t(2,3) by simp
    then show ?thesis using tick.IH tick.prems t s(2) by simp
  qed
qed

section \<open>Properties\<close>


text \<open>
  C3: programs cannot reach each other's memory. In every state the system reaches (by the steps
  of C2), user mode can get, for reading and for writing, only at the 4 MB frame of the running
  process and, through the window at 132 MB, at video memory or the first 4 KB; so whatever it
  stores changes no other byte. A store in its page succeeds and changes no byte outside its
  frame. The frames of the processes are disjoint, and the first 8 MB, with the kernel's
  page and video memory, lie outside all of them.
\<close>

theorem programs_cannot_interfere:
  assumes "boots K stack addr s" and "kernel_entry K dev stack g e regs 0x2BADB002 addr s = Some (First_shell p eip, s0)"
    and "(sys_step (sym_layout K) dev)\<^sup>*\<^sup>* (s0, \<lambda>_. None) (s', W)"
  shows "(\<forall>a i. translate (sym_layout K) s' a = Some i \<longrightarrow> user_ok i \<longrightarrow> frame_addr i \<in> frame_of (curr s') \<union> screen_window)
    \<and> (\<forall>a b s''. user_writable (sym_layout K) s' a \<longrightarrow> store_byte (sym_layout K) a b s' = Some s'' \<longrightarrow>
         (\<forall>x. x \<notin> frame_of (curr s') \<union> screen_window \<longrightarrow> ram s'' x = ram s' x))
    \<and> (\<forall>a bs. in_window a (length bs) \<longrightarrow> (\<exists>s''. store_bytes (sym_layout K) a bs s' = Some s''
         \<and> (\<forall>x. x \<notin> frame_of (curr s') \<longrightarrow> ram s'' x = ram s' x)))
    \<and> (\<forall>q. live s' q \<longrightarrow> frame_of q \<inter> region 0 0x800000 = {} \<and> (q \<noteq> curr s' \<longrightarrow> frame_of q \<inter> frame_of (curr s') = {}))"
proof (intro conjI allI impI)
  note inv = reachable_inv(1) [OF assms]
  have c: "0 \<le> curr s'" "curr s' < 6" using inv by (auto simp: sys_inv_def running_def live_def)
  show acc: "frame_addr i \<in> frame_of (curr s') \<union> screen_window" if "translate (sym_layout K) s' a = Some i" "user_ok i" for a i
    by (rule user_access [OF inv that])
  show "ram s'' x = ram s' x"
    if "user_writable (sym_layout K) s' a" "store_byte (sym_layout K) a b s' = Some s''" "x \<notin> frame_of (curr s') \<union> screen_window" for a b s'' x
  proof -
    note h = that
    obtain i where i: "translate (sym_layout K) s' a = Some i" "user_ok i" "s'' = s'\<lparr>ram := (ram s')(frame_addr i := b)\<rparr>"
      using h(1,2) by (auto simp: user_writable_def store_byte_def split: option.splits)
    then have "x \<noteq> frame_addr i" using acc [OF i(1,2)] h(3) by auto
    then show ?thesis by (simp add: i(3))
  qed
  show "\<exists>s''. store_bytes (sym_layout K) a bs s' = Some s'' \<and> (\<forall>x. x \<notin> frame_of (curr s') \<longrightarrow> ram s'' x = ram s' x)"
    if "in_window a (length bs)" for a bs by (rule store_isolated [OF inv that])
  show "frame_of q \<inter> region 0 0x800000 = {}" if "live s' q" for q
    using that by (intro frame_above_kernel) (auto simp: live_def)
  show "frame_of q \<inter> frame_of (curr s') = {}" if "live s' q" "q \<noteq> curr s'" for q
    using that c by (intro frames_disjoint) (auto simp: live_def)
qed

text \<open>
  C7: the scheduler is fair. From any state the system reaches (by the steps of C2) timer ticks can always
  go on, and of any three successive ticks one gives the processor to the process of terminal
  \<open>u\<close>, for every terminal \<open>u\<close> that runs a process before them, whatever happens between
  them: interrupts, system calls that start and end programs, reads that wait, and hot keys that
  open a further terminal and give it the processor at once.
\<close>

theorem scheduler_fair:
  assumes "boots K stack addr s" and "kernel_entry K dev stack g e regs 0x2BADB002 addr s = Some (First_shell p eip, s0)"
    and "(sys_step (sym_layout K) dev)\<^sup>*\<^sup>* (s0, \<lambda>_. None) (s', W)"
  shows "(\<exists>ts c. ticks (sym_layout K) dev (s', W) ts c \<and> length ts = n)
    \<and> (\<forall>ts c u. ticks (sym_layout K) dev (s', W) ts c \<longrightarrow> length ts = 3 \<longrightarrow> u < 3 \<longrightarrow> t_curr s' u \<noteq> -1 \<longrightarrow> u \<in> set ts)"
proof (intro conjI allI impI)
  note inv = reachable_inv [OF assms]
  show "\<exists>ts c. ticks (sym_layout K) dev (s', W) ts c \<and> length ts = n" by (rule ticks_possible [OF inv(2,1)])
  show "u \<in> set ts" if "ticks (sym_layout K) dev (s', W) ts c" "length ts = 3" "u < 3" "t_curr s' u \<noteq> -1" for ts c u
    using turn_comes [OF that(1) inv(2) _ that(3)] that(2,4) inv(1) ticks_left_le by simp
qed

section \<open>Witnesses\<close>

text \<open>
  The machine that the boot loader leaves boots; the shell stores a byte and waits for a line,
  and while it waits the clock and the timer interrupt.
\<close>

lemma started_boots: "boots boot_symbols (\<lambda>_. 0) 0x10000 started"
proof -
  obtain s1 where r: "print_multiboot (\<lambda>_. 0) 0x10000 (clear started) = Some (True, s1)"
      and core: "fs_core (read_filesys_bootblock (bootBlk_addr s1) s1) = fs_core elf_demo"
    using started_image by blast
  have "all_closed idle_pcb" by (simp add: all_closed_def idle_pcb_def idle_fd_def)
  then show ?thesis
    using r elf_demo_core [OF core] elf_demo_space(2) unfolding boots_def
    by (auto simp: boot_symbols_def started_fields intro!: exI [of _ s1] exI [of _ 0])
qed

lemma shell_waits:
  fixes s :: "'a sys_state_scheme"
  assumes "sys_inv L s" "read_op 0 s = Some Terminal_read_wrap"
  shows "\<exists>s'. (sys_step L dev)\<^sup>*\<^sup>* (s, \<lambda>_. None) (s', (\<lambda>_. None)(curr s \<mapsto> (0, 0x8100000, 128))) \<and> curr s' = curr s \<and> ram s' (user_phys (curr s) 0x8100000) = 65"
proof -
  have m: "user_mapped L (curr s) s" using assms(1) by (simp add: sys_inv_def)
  have w: "in_window 0x8100000 (Suc 0)" by (simp add: in_window_def)
  define s1 where "s1 = s\<lparr>ram := (ram s)(user_phys (curr s) 0x8100000 := 65)\<rparr>"
  have st: "store_byte L 0x8100000 65 s = Some s1" "user_writable L s 0x8100000"
    using user_mapped_translate [OF m w] by (simp_all add: store_byte_def user_writable_def s1_def)
  have s1: "curr s1 = curr s" "read_op 0 s1 = read_op 0 s" by (simp_all add: s1_def read_op_def)
  have "work_step L dev (s, \<lambda>_. None) (s1, \<lambda>_. None)" by (rule work_step.store [OF _ st(2,1)]) simp
  moreover have "work_step L dev (s1, \<lambda>_. None) (sti s1, (\<lambda>_. None)(curr s1 \<mapsto> (0, 0x8100000, 128)))"
    by (rule work_step.waits [where op = Terminal_read_wrap]) (simp_all add: s1 assms(2) user_args_def in_window_def)
  ultimately have "(sys_step L dev)\<^sup>*\<^sup>* (s, \<lambda>_. None) (sti s1, (\<lambda>_. None)(curr s \<mapsto> (0, 0x8100000, 128)))"
    unfolding s1(1) by (meson sys_step.work rtranclp.rtrancl_refl rtranclp.rtrancl_into_rtrancl)
  moreover have "curr (sti s1) = curr s" "ram (sti s1) (user_phys (curr s) 0x8100000) = 65" by (simp_all add: s1_def sti_def)
  ultimately show ?thesis by blast
qed

lemma started_runs:
  "\<exists>eip s0 s'. kernel_entry boot_symbols (\<lambda>_ _. 0) (\<lambda>_. 0) \<lparr>seg0 = 1, seg1 = 2\<rparr> 0 (0, 0) 0x2BADB002 0x10000 started = Some (First_shell 0 eip, s0)
     \<and> (sys_step (sym_layout boot_symbols) (\<lambda>_ _. 0))\<^sup>*\<^sup>* (s0, \<lambda>_. None) (s', (\<lambda>_. None)(0 \<mapsto> (0, 0x8100000, 128)))"
proof -
  let ?L = "sym_layout boot_symbols" and ?d = "\<lambda>_ _. 0 :: u8" and ?W = "(\<lambda>_. None)(0 :: int \<mapsto> (0 :: u32, 0x8100000 :: u32, 128 :: u32))"
  obtain eip s0 where b: "kernel_entry boot_symbols ?d (\<lambda>_. 0) \<lparr>seg0 = 1, seg1 = 2\<rparr> 0 (0, 0) 0x2BADB002 0x10000 started = Some (First_shell 0 eip, s0)"
      "sys_inv ?L s0" "curr s0 = 0" "read_op 0 s0 = Some Terminal_read_wrap"
    using boot_inv [OF started_boots, of ?d "\<lparr>seg0 = 1, seg1 = 2\<rparr>" 0 "(0, 0)"] by blast
  obtain s1 where s1: "(sys_step ?L ?d)\<^sup>*\<^sup>* (s0, \<lambda>_. None) (s1, ?W)" using shell_waits [OF b(2,4)] b(3) by metis
  let ?s2 = "rtc_int_handler ?d s1"
  have s2: "(sys_step ?L ?d)\<^sup>*\<^sup>* (s0, \<lambda>_. None) (?s2, ?W)"
    using rtranclp.rtrancl_into_rtrancl [OF s1 sys_step.work [OF work_step.clock]] .
  note inv = reachable_inv [OF started_boots b(1) s2]
  obtain r s3 where "pit_int_handler ?L (\<lambda>_. 0) 0 (0, 0) ?s2 = Some (r, s3)" using tick_returns [OF inv(2,1)] by blast
  from rtranclp.rtrancl_into_rtrancl [OF s2 sys_step.timer [OF this]] b(1) show ?thesis by blast
qed


theorem programs_cannot_interfere_witness:
  "\<exists>eip s0 s' s''. kernel_entry boot_symbols (\<lambda>_ _. 0) (\<lambda>_. 0) \<lparr>seg0 = 1, seg1 = 2\<rparr> 0 (0, 0) 0x2BADB002 0x10000 started = Some (First_shell 0 eip, s0)
     \<and> (sys_step (sym_layout boot_symbols) (\<lambda>_ _. 0))\<^sup>*\<^sup>* (s0, \<lambda>_. None) (s', (\<lambda>_. None)(0 \<mapsto> (0, 0x8100000, 128)))
     \<and> store_bytes (sym_layout boot_symbols) 0x8100000 [1, 2] s' = Some s'' \<and> (\<forall>x. x \<notin> frame_of (curr s') \<longrightarrow> ram s'' x = ram s' x)"
proof -
  let ?L = "sym_layout boot_symbols" and ?d = "\<lambda>_ _. 0 :: u8" and ?W = "(\<lambda>_. None)(0 :: int \<mapsto> (0 :: u32, 0x8100000 :: u32, 128 :: u32))"
  obtain eip s0 s' where b: "kernel_entry boot_symbols ?d (\<lambda>_. 0) \<lparr>seg0 = 1, seg1 = 2\<rparr> 0 (0, 0) 0x2BADB002 0x10000 started = Some (First_shell 0 eip, s0)"
      and r: "(sys_step ?L ?d)\<^sup>*\<^sup>* (s0, \<lambda>_. None) (s', ?W)"
    using started_runs by blast
  have "in_window 0x8100000 (length [1, 2 :: u8])" by (simp add: in_window_def)
  then obtain s'' where "store_bytes ?L 0x8100000 [1, 2] s' = Some s''" "\<forall>x. x \<notin> frame_of (curr s') \<longrightarrow> ram s'' x = ram s' x"
    using programs_cannot_interfere [OF started_boots b r] by metis
  then show ?thesis using b r by blast
qed

text \<open>Three ticks while the shell waits for its line: it has its turn.\<close>

theorem scheduler_fair_witness:
  "\<exists>eip s0 s' ts c. kernel_entry boot_symbols (\<lambda>_ _. 0) (\<lambda>_. 0) \<lparr>seg0 = 1, seg1 = 2\<rparr> 0 (0, 0) 0x2BADB002 0x10000 started = Some (First_shell 0 eip, s0)
     \<and> (sys_step (sym_layout boot_symbols) (\<lambda>_ _. 0))\<^sup>*\<^sup>* (s0, \<lambda>_. None) (s', (\<lambda>_. None)(0 \<mapsto> (0, 0x8100000, 128)))
     \<and> ticks (sym_layout boot_symbols) (\<lambda>_ _. 0) (s', (\<lambda>_. None)(0 \<mapsto> (0, 0x8100000, 128))) ts c \<and> length ts = 3 \<and> 0 \<in> set ts"
proof -
  let ?L = "sym_layout boot_symbols" and ?d = "\<lambda>_ _. 0 :: u8" and ?W = "(\<lambda>_. None)(0 :: int \<mapsto> (0 :: u32, 0x8100000 :: u32, 128 :: u32))"
  obtain eip s0 s' where b: "kernel_entry boot_symbols ?d (\<lambda>_. 0) \<lparr>seg0 = 1, seg1 = 2\<rparr> 0 (0, 0) 0x2BADB002 0x10000 started = Some (First_shell 0 eip, s0)"
      and r: "(sys_step ?L ?d)\<^sup>*\<^sup>* (s0, \<lambda>_. None) (s', ?W)"
    using started_runs by blast
  note fair = scheduler_fair [OF started_boots b r]
  obtain ts c where ts: "ticks ?L ?d (s', ?W) ts c" "length ts = 3" using fair [of 3] by blast
  have "t_curr s' 0 \<noteq> -1" using reachable_inv(1) [OF started_boots b r] by (simp add: sys_inv_def)
  then have "0 \<in> set ts" using conjunct2 [OF fair, rule_format, OF ts, of 0] by simp
  then show ?thesis using b r ts by blast
qed

end
