(* ===== verification/Descriptors.thy ===== *)
theory Descriptors
  imports System
begin

text \<open>
  Types of descriptors. The jump table of an open descriptor is that of the terminal's input or
  output, of the clock, of a directory or of a regular file; a typing environment says which
  descriptors a process has open and of what type. The file calls keep the blocks well typed, and
  a call on a well-typed descriptor runs the operation of its type.
\<close>

section \<open>Types\<close>

datatype fd_type = Stdin | Stdout | Clock | Directory | Regular

fun fd_table :: "fd_type \<Rightarrow> fop \<times> fop \<times> fop \<times> fop" where
  "fd_table Stdin = (Terminal_nothing, Terminal_nothing, Terminal_read_wrap, Terminal_wrong)"
| "fd_table Stdout = (Terminal_nothing, Terminal_nothing, Terminal_wrong, Terminal_write_wrap)"
| "fd_table Clock = (Rtc_open_wrapper, Rtc_close_wrapper, Rtc_read_wrapper, Rtc_write_wrapper)"
| "fd_table Directory = (Open_dir_wrapper, Close_dir_wrapper, Read_dir_wrapper, Write_dir_wrapper)"
| "fd_table Regular = (Open_f_wrapper, Close_f_wrapper, Read_f_wrapper, Write_f_wrapper)"

definition has_type :: "file_desc \<Rightarrow> fd_type \<Rightarrow> bool" where
  "has_type f T \<longleftrightarrow> (fop_open f, fop_close f, fop_read f, fop_write f) = fd_table T"

definition slot_typed :: "fd_type option \<Rightarrow> file_desc \<Rightarrow> int \<Rightarrow> bool" where
  "slot_typed T f used \<longleftrightarrow> (case T of None \<Rightarrow> flag f = 0 \<and> used = 0 | Some T \<Rightarrow> flag f \<noteq> 0 \<and> used \<noteq> 0 \<and> has_type f T)"

type_synonym typing = "nat \<Rightarrow> fd_type option"

definition start_typing :: typing where
  "start_typing = [0 \<mapsto> Stdin, 1 \<mapsto> Stdout]"

definition well_typed :: "typing \<Rightarrow> pcb \<Rightarrow> bool" where
  "well_typed G b \<longleftrightarrow> G 0 = Some Stdin \<and> G 1 = Some Stdout \<and> (\<forall>i<8. slot_typed (G i) (file_array b i) (bitmap b i))"

text \<open>The type an entry of the directory gives, and an image whose entries all have one.\<close>

definition entry_type :: "dentry \<Rightarrow> fd_type option" where
  "entry_type d = (if ftype d = 0 then Some Clock else if ftype d = 1 then Some Directory else if ftype d = 2 then Some Regular else None)"

definition image_typed :: "'a fs_state_scheme \<Rightarrow> bool" where
  "image_typed s \<longleftrightarrow> (\<forall>i < nat (num_dentry s). entry_type (dentry_at s i) \<noteq> None)"

section \<open>The calls keep the types\<close>

lemma new_block_typed:
  assumes "all_closed (pcbs s p)"
  shows "well_typed start_typing (pcbs (pcb_init p t s) p)"
proof -
  let ?b = "pcbs (pcb_init p t s) p"
  have c: "all_closed ?b" by (rule pcb_init_closed [OF assms])
  have e: "has_type (file_array ?b 0) Stdin" "has_type (file_array ?b 1) Stdout" "flag (file_array ?b 0) = 1" "flag (file_array ?b 1) = 1"
      "bitmap ?b 0 = 1" "bitmap ?b 1 = 1"
    by (simp_all add: pcb_init_def Let_def fold_set_pcb clear_flags set_pcb_def stdin_fd_def stdout_fd_def has_type_def del: upt_rec_numeral)
  have "slot_typed (start_typing i) (file_array ?b i) (bitmap ?b i)" if "i < 8" for i
  proof -
    consider "i = 0" | "i = 1" | "2 \<le> i" by linarith
    then show ?thesis using c e that by cases (simp_all add: start_typing_def slot_typed_def all_closed_def)
  qed
  then show ?thesis by (simp add: well_typed_def) (simp add: start_typing_def)
qed

lemma open_typed:
  assumes "well_typed G (pcbs s (curr s))" "image_typed s" "sys_open L name s = (r, s')"
  shows "r = -1 \<and> s' = s \<or> (\<exists>i d T. r = int i \<and> 2 \<le> i \<and> i < 8 \<and> G i = None \<and> read_dentry_by_name (view L s) name s = Some d \<and> entry_type d = Some T
    \<and> well_typed (G(i \<mapsto> T)) (pcbs s' (curr s')))"
proof (cases "name = 0 \<or> read_dentry_by_name (view L s) name s = None \<or> free_desc (bitmap (pcbs s (curr s))) = -1")
  case True
  then have "sys_open L name s = (-1, s)" by (auto simp: sys_open_def Let_def split: option.splits)
  then show ?thesis using assms(3) by simp
next
  case False
  then obtain d i where d: "read_dentry_by_name (view L s) name s = Some d" and i: "free_desc (bitmap (pcbs s (curr s))) = int i" "2 \<le> i" "i < 8" "bitmap (pcbs s (curr s)) i = 0"
    using desc.alloc_lowest [of "bitmap (pcbs s (curr s))"] by auto
  have g: "G i = None" using assms(1) i by (auto simp: well_typed_def slot_typed_def split: option.splits)
  obtain T where T: "entry_type d = Some T" using read_dentry_by_name_Some [OF d] assms(2) by (auto simp: image_typed_def)
  have n: "name \<noteq> 0" using False by simp
  have b: "pcbs s' (curr s) = set_fd i (\<lambda>f. f\<lparr>fd_inode := sint (inode d), flag := 1, file_pos := 0\<rparr>)
     (set_fd i (if ftype d = 0 then fops_of Rtc_read_wrapper Rtc_write_wrapper Rtc_open_wrapper Rtc_close_wrapper
        else if ftype d = 1 then fops_of Read_dir_wrapper Write_dir_wrapper Open_dir_wrapper Close_dir_wrapper
        else if ftype d = 2 then fops_of Read_f_wrapper Write_f_wrapper Open_f_wrapper Close_f_wrapper else id)
      (set_bitmap i 1 (pcbs s (curr s))))"
    using sys_open_pcb [OF n d i(1)] assms(3) by simp
  have r: "r = int i" "curr s' = curr s" using assms(3) n d i(1) by (auto simp: sys_open_def Let_def open_dir_def set_pcb_def)
  have "well_typed (G(i \<mapsto> T)) (pcbs s' (curr s))"
    using assms(1) T i(2,3) unfolding b by (auto simp: well_typed_def slot_typed_def has_type_def fops_of_def entry_type_def split: if_splits)
  then show ?thesis using r i g d T by auto
qed

lemma close_typed:
  assumes "well_typed G (pcbs s (curr s))" "fd \<noteq> 8" "sys_close fd s = (r, s')"
  shows "r = -1 \<and> s' = s \<and> (fd < 2 \<or> 8 \<le> fd \<or> G (nat fd) = None) \<or> r = 0 \<and> 2 \<le> fd \<and> fd < 8 \<and> G (nat fd) \<noteq> None \<and> well_typed (G(nat fd := None)) (pcbs s' (curr s'))"
proof (cases "2 \<le> fd \<and> fd < 8 \<and> flag (file_array (pcbs s (curr s)) (nat fd)) \<noteq> 0")
  case True
  then have "sys_close fd s = (0, set_pcb (curr s) (set_bitmap (nat fd) 0 \<circ> set_fd (nat fd) (\<lambda>f. f\<lparr>flag := 0\<rparr>)) s)" using sys_close_pcb by blast
  moreover have "G (nat fd) \<noteq> None"
    using assms(1) True by (auto simp: well_typed_def slot_typed_def dest!: spec [of _ "nat fd"] split: option.splits)
  ultimately show ?thesis using assms(1,3) True by (auto simp: well_typed_def slot_typed_def)
next
  case False
  then have "sys_close fd s = (-1, s)" using assms(2) by (auto simp: sys_close_def get_flag_def Let_def)
  moreover have "fd < 2 \<or> 8 \<le> fd \<or> G (nat fd) = None"
    using assms(1) False by (auto simp: well_typed_def slot_typed_def split: option.splits dest!: spec [of _ "nat fd"])
  ultimately show ?thesis using assms(3) by auto
qed

text \<open>
  What the typing of the running process rests on: who it is, the descriptors in its block and the file
  system. \<open>read\<close> and \<open>write\<close> keep it, but for a position.
\<close>

definition own_files :: "'a sys_state_scheme \<Rightarrow> int \<times> (nat \<Rightarrow> file_desc) \<times> (nat \<Rightarrow> int) \<times> memory \<times> int \<times> int \<times> u32 \<times> u32 \<times> u32" where
  "own_files s = (curr s, file_array (pcbs s (curr s)), bitmap (pcbs s (curr s)), fs_core s)"

lemma own_files_more:
  fixes s s' :: "'a sys_state_scheme"
  assumes "screen_state.more s' = screen_state.more s"
  shows "own_files s' = own_files s"
  using assms by (cases s, cases s') (simp add: own_files_def fs_core_def)

lemma own_files_updates [simp]:
  "own_files (s\<lparr>print_buffer := a\<rparr>) = own_files s" "own_files (s\<lparr>terminal_read_ready := b\<rparr>) = own_files s" "own_files (s\<lparr>ram := m\<rparr>) = own_files s"
  "own_files (s\<lparr>RTC_flag := c\<rparr>) = own_files s" "own_files (s\<lparr>read_dir_index := i\<rparr>) = own_files s" "own_files (cli s) = own_files s" "own_files (sti s) = own_files s"
  by (simp_all add: own_files_def fs_core_def cli_def sti_def)

lemma fs_core_updates [simp]: "fs_core (set_pcb p f s) = fs_core s" "fs_core (s\<lparr>read_dir_index := i\<rparr>) = fs_core s"
  by (simp_all add: fs_core_def set_pcb_def)

text \<open>
  The interrupt handlers that run while a call waits, and the processes that they switch to, bring the
  processor back to the process, with its descriptors and the files as they were.
\<close>

definition quiet :: "('a sys_state_scheme \<Rightarrow> 'a sys_state_scheme) list \<Rightarrow> 'a sys_state_scheme \<Rightarrow> bool" where
  "quiet hs s \<longleftrightarrow> (\<forall>k\<le>length hs. own_files (fold (\<lambda>h. h) (take k hs) s) = own_files s \<and> own_files (fold (\<lambda>h. h) (take k hs) (sti s)) = own_files s)"

lemma spin_run: "spin_until b hs s = Some s' \<Longrightarrow> \<exists>k\<le>length hs. s' = fold (\<lambda>h. h) (take k hs) s"
proof (induction b hs s rule: spin_until.induct)
  case (2 b h hs s)
  show ?case
  proof (cases "b s")
    case True
    then show ?thesis using "2.prems" by (intro exI [of _ 0]) simp
  next
    case False
    then obtain k where "k \<le> length hs" "s' = fold (\<lambda>h. h) (take k hs) (h s)" using 2 by auto
    then show ?thesis by (intro exI [of _ "Suc k"]) simp
  qed
qed (simp split: if_splits)

lemma spin_files:
  "spin_until b hs s = Some s' \<Longrightarrow> quiet hs s \<Longrightarrow> own_files s' = own_files s"
  "spin_until b hs (sti s) = Some s' \<Longrightarrow> quiet hs s \<Longrightarrow> own_files s' = own_files s"
  using spin_run [of b hs s s'] spin_run [of b hs "sti s" s'] by (auto simp: quiet_def)

lemma set_rate_files [simp]: "own_files (set_rate dev x s) = own_files s"
  for s :: "'a sys_state_scheme"
  by (rule own_files_more) (simp add: set_rate_def outb_def inb_def cli_def sti_def Let_def split: prod.splits)

lemma call_op_files:
  fixes s :: "'a sys_state_scheme"
  assumes "call_op L dev hs op ino offset buf count s = Some (n, s')" "quiet hs s"
  shows "own_files s' = own_files s"
proof (cases op)
  case Terminal_read_wrap
  then obtain b bs s1 s2 f where w: "spin_until b hs (sti s) = Some s1" "store_bytes L buf bs s1 = Some s2" "s' = s2\<lparr>terminal_read_ready := f\<rparr>"
    using assms(1) by (auto simp: call_op_def terminal_read_wrap_def terminal_read_def Let_def bind_eq_Some_conv split: if_splits)
  then show ?thesis using spin_files(2) [OF w(1) assms(2)] store_bytes_more [OF w(2)] by auto
next
  case Terminal_write_wrap
  then obtain pb s1 src' lim k where p: "puts_scroll src' 0 lim ((cli s)\<lparr>print_buffer := pb\<rparr>) = Some (k, s1)" and s': "s' = sti s1"
    using assms(1) by (auto simp: call_op_def terminal_write_wrap_def terminal_write_def Let_def bind_eq_Some_conv split: if_splits)
  then show ?thesis using own_files_more [OF puts_scroll_more [OF p]] by simp
next
  case Rtc_read_wrapper
  then obtain b s1 where "spin_until b hs s = Some s1" "s' = s1\<lparr>RTC_flag := 0\<rparr>"
    using assms(1) by (auto simp: call_op_def rtc_read_wrapper_def rtc_read_def)
  then show ?thesis using spin_files(1) [OF _ assms(2)] by simp
next
  case Rtc_write_wrapper
  then show ?thesis
    using Rtc_write_wrapper assms(1) by (auto simp: call_op_def rtc_write_wrapper_def rtc_write_def Let_def split: if_splits)
next
  case Read_dir_wrapper
  then show ?thesis
    using assms(1) store_bytes_more by (fastforce simp: call_op_def read_dir_wrapper_def read_dir_def split: if_splits option.splits)
next
  case Read_f_wrapper
  then show ?thesis
    using assms(1) store_bytes_more by (fastforce simp: call_op_def read_f_wrapper_def split: prod.splits)
next
  case Open_dir_wrapper
  then show ?thesis using assms(1) by (auto simp: call_op_def open_dir_wrapper_def open_dir_def)
qed (use assms in \<open>auto simp: call_op_def terminal_wrong_def terminal_nothing_def rtc_open_wrapper_def rtc_open_def
       rtc_close_wrapper_def rtc_close_def write_dir_wrapper_def close_dir_wrapper_def close_dir_def write_f_wrapper_def open_f_wrapper_def close_f_wrapper_def\<close>)

lemma image_typed_cong: "fs_core s' = fs_core s \<Longrightarrow> image_typed s' = image_typed s"
  by (simp add: image_typed_def dentry_at_def dentry_addr_def fs_core_def Let_def)

lemma position_typed: "well_typed G b \<Longrightarrow> well_typed G (set_fd i (\<lambda>f. f\<lparr>file_pos := file_pos f + c\<rparr>) b)"
  by (auto simp: well_typed_def slot_typed_def has_type_def split: option.splits)

lemma read_write_typed:
  fixes s :: "'a sys_state_scheme"
  assumes "well_typed G (pcbs s (curr s))" "quiet hs s" "sys_read L dev hs fd buf n s = Some (r, s') \<or> sys_write L dev hs fd buf n s = Some (r, s')"
  shows "well_typed G (pcbs s' (curr s')) \<and> fs_core s' = fs_core s"
proof -
  consider "s' = s" | op ino off c s1 where "call_op L dev hs op ino off buf n s = Some (c, s1)"
      "s' = s1 \<or> s' = set_pcb (curr s) (set_fd (nat fd) (\<lambda>f. f\<lparr>file_pos := file_pos f + c\<rparr>)) s1"
    using assms(3) by (auto simp: sys_read_def sys_write_def Let_def bind_eq_Some_conv split: if_splits)
  then show ?thesis
  proof cases
    case 2
    from call_op_files [OF 2(1) assms(2)] have "curr s1 = curr s" "file_array (pcbs s1 (curr s)) = file_array (pcbs s (curr s))"
        "bitmap (pcbs s1 (curr s)) = bitmap (pcbs s (curr s))" "fs_core s1 = fs_core s"
      by (auto simp: own_files_def)
    moreover from this have "well_typed G (pcbs s1 (curr s))" using assms(1) by (simp add: well_typed_def)
    ultimately show ?thesis using 2(2) position_typed by auto
  qed (use assms(1) in simp)
qed

section \<open>Calls in a row\<close>

text \<open>
  What a sequence of file calls of a process does to its typing environment. A \<open>close\<close> of the
  number 8 that succeeds is left out: the code accepts it while descriptor 6 is open, and it breaks
  the agreement (\<open>close_eight_frees_descriptor_six\<close> in Files).
\<close>

inductive file_call :: "layout \<Rightarrow> device \<Rightarrow> typing \<times> 'a sys_state_scheme \<Rightarrow> typing \<times> 'a sys_state_scheme \<Rightarrow> bool" for L dev where
  opens: "sys_open L name s = (int i, s') \<Longrightarrow> read_dentry_by_name (view L s) name s = Some d \<Longrightarrow> entry_type d = Some T \<Longrightarrow>
    file_call L dev (G, s) (G(i \<mapsto> T), s')"
| open_fails: "sys_open L name s = (-1, s') \<Longrightarrow> file_call L dev (G, s) (G, s')"
| closes: "sys_close fd s = (0, s') \<Longrightarrow> fd \<noteq> 8 \<Longrightarrow> file_call L dev (G, s) (G(nat fd := None), s')"
| close_fails: "sys_close fd s = (-1, s') \<Longrightarrow> file_call L dev (G, s) (G, s')"
| reads: "sys_read L dev hs fd buf n s = Some (r, s') \<Longrightarrow> quiet hs s \<Longrightarrow> file_call L dev (G, s) (G, s')"
| writes: "sys_write L dev hs fd buf n s = Some (r, s') \<Longrightarrow> quiet hs s \<Longrightarrow> file_call L dev (G, s) (G, s')"

inductive_cases file_callE: "file_call L dev (G, s) (G', s')"

lemma open_files: "fs_core (snd (sys_open L name s)) = fs_core s"
  by (auto simp: sys_open_def Let_def open_dir_def split: option.splits)

lemma close_files: "fs_core (snd (sys_close fd s)) = fs_core s"
  by (simp add: sys_close_def Let_def)

lemma file_call_typed:
  fixes s :: "'a sys_state_scheme"
  assumes "file_call L dev (G, s) (G', s')" "well_typed G (pcbs s (curr s))" "image_typed s"
  shows "well_typed G' (pcbs s' (curr s')) \<and> image_typed s'"
proof -
  consider (opens) name i d T where "sys_open L name s = (int i, s')" "read_dentry_by_name (view L s) name s = Some d" "entry_type d = Some T" "G' = G(i \<mapsto> T)"
    | (open_fails) name where "sys_open L name s = (-1, s')" "G' = G"
    | (closes) fd where "sys_close fd s = (0, s')" "fd \<noteq> 8" "G' = G(nat fd := None)"
    | (close_fails) fd where "sys_close fd s = (-1, s')" "G' = G"
    | (calls) hs fd buf n r where "sys_read L dev hs fd buf n s = Some (r, s') \<or> sys_write L dev hs fd buf n s = Some (r, s')" "quiet hs s" "G' = G"
    using assms(1) by (rule file_callE) blast+
  then show ?thesis
  proof cases
    case opens
    then show ?thesis using open_typed [OF assms(2,3) opens(1)] image_typed_cong [OF open_files [of L name s]] assms(3) by auto
  next
    case open_fails
    then show ?thesis using open_typed [OF assms(2,3) open_fails(1)] assms(2,3) by auto
  next
    case closes
    then show ?thesis using close_typed [OF assms(2) closes(2,1)] image_typed_cong [OF close_files [of fd s]] assms(3) by auto
  next
    case close_fails
    then have "s' = s" by (auto simp: sys_close_def Let_def split: if_splits)
    then show ?thesis using close_fails(2) assms(2,3) by simp
  next
    case calls
    then show ?thesis using read_write_typed [OF assms(2) calls(2,1)] image_typed_cong assms(3) by blast
  qed
qed

interpretation fdtypes: transition_invariant "file_call L dev" "\<lambda>(G, s). well_typed G (pcbs s (curr s)) \<and> image_typed s" for L dev
  by unfold_locales (auto dest: file_call_typed)

section \<open>Dispatch\<close>

text \<open>The operations of a type.\<close>

definition read_as ::
  "layout \<Rightarrow> ('a sys_state_scheme \<Rightarrow> 'a sys_state_scheme) list \<Rightarrow> fd_type \<Rightarrow> u32 \<Rightarrow> u32 \<Rightarrow> u32 \<Rightarrow> u32 \<Rightarrow> 'a sys_state_scheme \<Rightarrow> (int \<times> 'a sys_state_scheme) option" where
  "read_as L hs T ino pos buf n s =
     (case T of Stdin \<Rightarrow> terminal_read L hs buf (sint n) s
      | Stdout \<Rightarrow> Some (-1, s)
      | Clock \<Rightarrow> rtc_read hs s
      | Directory \<Rightarrow> (let (r, bs, s') = read_dir s in do { s' \<leftarrow> store_bytes L buf bs s'; Some (r, s') })
      | Regular \<Rightarrow> (let (r, bs) = read_data ino pos buf n s in do { s' \<leftarrow> store_bytes L buf bs s; Some (r, s') }))"

definition write_as ::
  "layout \<Rightarrow> device \<Rightarrow> fd_type \<Rightarrow> u32 \<Rightarrow> u32 \<Rightarrow> 'a sys_state_scheme \<Rightarrow> (int \<times> 'a sys_state_scheme) option" where
  "write_as L dev T buf n s =
     (case T of Stdout \<Rightarrow> terminal_write (view L s) buf (sint n) s
      | Clock \<Rightarrow> Some (rtc_write dev (view L s) buf (sint n) s)
      | _ \<Rightarrow> Some (-1, s))"

lemma read_dispatch:
  assumes "has_type f T"
  shows "call_op L dev hs (fop_read f) ino pos buf n s = read_as L hs T ino pos buf n s"
  using assms
  by (cases T) (auto simp: has_type_def call_op_def read_as_def terminal_read_wrap_def terminal_wrong_def rtc_read_wrapper_def
      read_dir_wrapper_def read_f_wrapper_def Let_def map_option_bind bind_map_option map_conv_bind_option comp_def split: prod.splits)

lemma write_dispatch:
  assumes "has_type f T"
  shows "call_op L dev hs (fop_write f) ino pos buf n s = write_as L dev T buf n s"
  using assms
  by (cases T) (auto simp: has_type_def call_op_def write_as_def terminal_write_wrap_def terminal_wrong_def rtc_write_wrapper_def
      write_dir_wrapper_def write_f_wrapper_def write_dir_def write_f_def)

text \<open>
  C6: descriptors are well typed. The typing environment of a process starts with the
  terminal's input and output; \<open>open\<close> adds the type of the directory entry, \<open>close\<close> removes it, and
  nothing else changes it. In every state that file calls of a new process lead to, except a \<open>close\<close> of
  the number 8 while descriptor 6 is open, which the code accepts and which breaks the agreement, on a file
  system whose entries all have one of the three file types, in a process block that had no open
  descriptor, and when the interrupts that come while a call waits bring the processor back
  to the process with its descriptors and the files as they were, the descriptors agree with the environment; so a read or a write on a descriptor that is not open returns -1, and on any other
  it runs the operation of the descriptor's type and no other.
\<close>

theorem descriptors_well_typed:
  fixes s :: "'a sys_state_scheme"
  assumes "all_closed (pcbs s p)" and "image_typed (pcb_init p t s)"
    and "(file_call L dev)\<^sup>*\<^sup>* (start_typing, pcb_init p t s) (G, s')" and "i < 8" and "buf \<noteq> 0" and "f = file_array (pcbs s' (curr s')) i"
  shows "well_typed G (pcbs s' (curr s'))
    \<and> sys_read L dev hs (int i) buf n s' = (case G i of None \<Rightarrow> Some (-1, s')
       | Some T \<Rightarrow> do { (c, s1) \<leftarrow> read_as L hs T (of_int (fd_inode f)) (of_int (file_pos f)) buf n s';
           if c < 0 then Some (-1, s1) else Some (c, set_pcb (curr s') (set_fd i (\<lambda>f. f\<lparr>file_pos := file_pos f + c\<rparr>)) s1) })
    \<and> sys_write L dev hs (int i) buf n s' = (case G i of None \<Rightarrow> Some (-1, s')
       | Some T \<Rightarrow> do { (c, s1) \<leftarrow> write_as L dev T buf n s'; if c < 0 then Some (-1, s1) else Some (c, s1) })"
proof -
  have "well_typed start_typing (pcbs (pcb_init p t s) (curr (pcb_init p t s)))"
    using new_block_typed [OF assms(1)] by (simp add: pcb_init_fields)
  then have G: "well_typed G (pcbs s' (curr s'))" using fdtypes.reachable [OF assms(3)] assms(2) by simp
  then have slot: "slot_typed (G i) f (bitmap (pcbs s' (curr s')) i)" using assms(4,6) by (simp add: well_typed_def)
  show ?thesis
  proof (cases "G i")
    case None
    then show ?thesis using G slot assms(4-6) by (simp add: slot_typed_def sys_read_def sys_write_def Let_def)
  next
    case (Some T)
    then have T: "flag f \<noteq> 0" "bitmap (pcbs s' (curr s')) i \<noteq> 0" "has_type f T" using slot by (simp_all add: slot_typed_def)
    show ?thesis
      using G T(1,2) assms(4,5)
      by (simp add: Some sys_read_def sys_write_def Let_def read_dispatch [OF T(3)] write_dispatch [OF T(3)] flip: assms(6) cong: if_cong)
  qed
qed

text \<open>A process that has opened a regular file.\<close>

theorem descriptors_well_typed_witness:
  "\<exists>G s'. (file_call boot_layout (\<lambda>_ _. 0))\<^sup>*\<^sup>* (start_typing, pcb_init 0 0 sys_demo) (G, s') \<and> G 2 = Some Regular
    \<and> sys_write boot_layout (\<lambda>_ _. 0) [] 2 0x8100000 5 s' = Some (-1, s')"
proof -
  let ?s = "pcb_init 0 0 sys_demo" and ?L = boot_layout and ?dev = "\<lambda>_ _. 0"
  have idle: "all_closed (pcbs sys_demo 0)" by (simp add: sys_demo_fields all_closed_def idle_pcb_def idle_fd_def)
  have c: "curr ?s = 0" "all_closed (pcbs ?s 0)" using pcb_init_closed [OF idle] by (simp_all add: pcb_init_fields)
  have fs: "fs_core ?s = fs_core sys_demo" and v: "view ?L ?s = view ?L sys_demo"
    by (auto simp: pcb_init_def fs_core_def set_pcb_def Let_def fold_set_pcb simp del: upt_rec_numeral intro!: view_cong)
  obtain d where d0: "read_dentry_by_name (view ?L sys_demo) 0x8000100 sys_demo = Some d" "ftype d = 2"
    using sys_demo_lookup by blast
  then have d: "read_dentry_by_name (view ?L ?s) 0x8000100 ?s = Some d" using fs_core_lookup [OF fs] v by simp
  have "d = dentry_at sys_demo 0" using read_dentry_by_name_Some [OF d0(1)] sys_demo_fields(2) by auto
  then have typed: "image_typed ?s" using image_typed_cong [OF fs] d0(2) sys_demo_fields(2) by (simp add: image_typed_def entry_type_def)
  have "bitmap (pcbs ?s 0) 2 = 0" using c(2) by (simp add: all_closed_def)
  then have i: "free_desc (bitmap (pcbs ?s (curr ?s))) = int 2"
    using desc.alloc_succeeds [of 2 "bitmap (pcbs ?s 0)"] desc.alloc_lowest [of "bitmap (pcbs ?s 0)"] c(1) by auto
  obtain s' where s': "sys_open ?L 0x8000100 ?s = (int 2, s')" using d i by (auto simp: sys_open_def Let_def)
  have "entry_type d = Some Regular" using d0(2) by (simp add: entry_type_def)
  then have run: "(file_call ?L ?dev)\<^sup>*\<^sup>* (start_typing, ?s) (start_typing(2 \<mapsto> Regular), s')"
    using file_call.opens [OF s' d] by blast
  have "sys_write ?L ?dev [] (int 2) 0x8100000 5 s' = Some (-1, s')"
    using descriptors_well_typed [OF idle typed run _ _ refl, of 2 "0x8100000" "[]" 5] by (simp add: write_as_def)
  then show ?thesis using run by (intro exI [of _ "start_typing(2 \<mapsto> Regular)"] exI [of _ s']) simp
qed

end
