(* ===== verification/User_Support.thy ===== *)
theory User_Support
  imports Lib_String
begin

text \<open>
  The string library the user programs are linked with, \<open>syscalls/ece391support.c\<close>, over the
  memory the program sees. Its routines advance the pointers themselves where those of the kernel
  library use an index, and compare unsigned characters; the lemmas show that they compute the
  same, so that the contracts proved for the kernel's routines hold for these as well.
\<close>

section \<open>Definitions\<close>

partial_function (option) ece391_strlen_loop :: "memory \<Rightarrow> u32 \<Rightarrow> u32 \<Rightarrow> u32 option" where
  "ece391_strlen_loop m s len = (if m s \<noteq> 0 then ece391_strlen_loop m (s + 1) (len + 1) else Some len)"

definition ece391_strlen :: "memory \<Rightarrow> u32 \<Rightarrow> u32 option" where
  "ece391_strlen m s = ece391_strlen_loop m s 0"

partial_function (option) ece391_strcpy :: "memory \<Rightarrow> u32 \<Rightarrow> u32 \<Rightarrow> memory option" where
  "ece391_strcpy m dst src =
     (let c = m src; m = m(dst := c)
      in if c \<noteq> 0 then ece391_strcpy m (dst + 1) (src + 1) else Some m)"

text \<open>The strings compared may live in different objects, hence one memory for each.\<close>

partial_function (option) ece391_strcmp :: "memory \<Rightarrow> u32 \<Rightarrow> memory \<Rightarrow> u32 \<Rightarrow> int option" where
  "ece391_strcmp m1 s1 m2 s2 =
     (if m1 s1 = m2 s2 then if m1 s1 = 0 then Some 0 else ece391_strcmp m1 (s1 + 1) m2 (s2 + 1)
      else Some (uint (m1 s1) - uint (m2 s2)))"

function ece391_strncmp_loop :: "memory \<Rightarrow> u32 \<Rightarrow> memory \<Rightarrow> u32 \<Rightarrow> u32 \<Rightarrow> int" where
  "ece391_strncmp_loop m1 s1 m2 s2 n =
     (if m1 s1 = m2 s2
      then if m1 s1 = 0 \<or> n - 1 = 0 then 0 else ece391_strncmp_loop m1 (s1 + 1) m2 (s2 + 1) (n - 1)
      else uint (m1 s1) - uint (m2 s2))"
  by pat_completeness auto
termination
proof (relation "measure (\<lambda>(m1, s1, m2, s2, n). unat (n - 1))")
  fix m1 m2 :: memory and s1 s2 n :: u32
  assume "\<not> (m1 s1 = 0 \<or> n - 1 = 0)"
  then show "((m1, s1 + 1, m2, s2 + 1, n - 1), m1, s1, m2, s2, n) \<in> measure (\<lambda>(m1, s1, m2, s2, n). unat (n - 1))"
    using measure_unat [of "n - 1"] by simp
qed simp

declare ece391_strncmp_loop.simps [simp del]

definition ece391_strncmp :: "memory \<Rightarrow> u32 \<Rightarrow> memory \<Rightarrow> u32 \<Rightarrow> u32 \<Rightarrow> int" where
  "ece391_strncmp m1 s1 m2 s2 n = (if n = 0 then 0 else ece391_strncmp_loop m1 s1 m2 s2 n)"

definition ece391_strrev :: "memory \<Rightarrow> u32 \<Rightarrow> memory option" where
  "ece391_strrev m s =
     do { n \<leftarrow> ece391_strlen m s;
          let en = sint (n - 1);
          Some (if en \<le> 0 then m else strrev_loop m s 0 en) }"

text \<open>The table and the loop are those of the kernel's \<open>itoa\<close>.\<close>

definition ece391_itoa :: "u32 \<Rightarrow> memory \<Rightarrow> u32 \<Rightarrow> u32 \<Rightarrow> memory option" where
  "ece391_itoa v m buf radix =
     (if v = 0 then Some (m(buf := 48, buf + 1 := 0))
      else do {
        (m', newbuf) \<leftarrow> itoa_loop m buf v radix;
        ece391_strrev (m'(newbuf := 0)) buf })"

section \<open>The kernel's routines compute the same\<close>

lemma strlen_loop_user: "ece391_strlen_loop m (s + len) len = Some k \<longleftrightarrow> strlen_loop m s len = Some k"
proof
  have "ece391_strlen_loop m p len = Some k \<Longrightarrow> \<forall>s. p = s + len \<longrightarrow> strlen_loop m s len = Some k" for p
    by (erule ece391_strlen_loop.raw_induct [rotated, where P = "\<lambda>m p len k. \<forall>s. p = s + len \<longrightarrow> strlen_loop m s len = Some k"])
      (subst strlen_loop.simps, auto simp: algebra_simps split: if_splits)
  then show "ece391_strlen_loop m (s + len) len = Some k \<Longrightarrow> strlen_loop m s len = Some k" by blast
  show "strlen_loop m s len = Some k \<Longrightarrow> ece391_strlen_loop m (s + len) len = Some k"
    by (erule strlen_loop.raw_induct [rotated, where P = "\<lambda>m s len k. ece391_strlen_loop m (s + len) len = Some k"])
      (subst ece391_strlen_loop.simps, auto simp: algebra_simps split: if_splits)
qed

lemma option_eqI: "(\<And>k. x = Some k \<longleftrightarrow> y = Some k) \<Longrightarrow> x = y"
  by (cases x; cases y) auto

lemma strlen_user: "ece391_strlen m s = strlen m s"
  using strlen_loop_user [of m s 0] by (intro option_eqI) (simp add: ece391_strlen_def strlen_def)

lemma strcpy_user: "ece391_strcpy m dst src = strcpy m dst src"
proof (rule option_eqI)
  fix k
  have "ece391_strcpy m p q = Some k \<Longrightarrow> \<forall>d s i. p = d + i \<longrightarrow> q = s + i \<longrightarrow> strcpy_loop m d s i = Some k" for m p q
    by (erule ece391_strcpy.raw_induct [rotated, where P = "\<lambda>m p q k. \<forall>d s i. p = d + i \<longrightarrow> q = s + i \<longrightarrow> strcpy_loop m d s i = Some k"])
      (subst strcpy_loop.simps, auto simp: Let_def algebra_simps split: if_splits)
  moreover have "strcpy_loop m d s i = Some k \<Longrightarrow> ece391_strcpy m (d + i) (s + i) = Some k" for m d s i
    by (erule strcpy_loop.raw_induct [rotated, where P = "\<lambda>m d s i k. ece391_strcpy m (d + i) (s + i) = Some k"])
      (subst ece391_strcpy.simps, auto simp: Let_def algebra_simps split: if_splits)
  ultimately show "ece391_strcpy m dst src = Some k \<longleftrightarrow> strcpy m dst src = Some k"
    unfolding strcpy_def by (metis add.right_neutral)
qed

lemma strrev_user: "ece391_strrev m s = strrev m s"
  by (cases "strlen m s") (auto simp: ece391_strrev_def strrev_def strlen_user Let_def strrev_loop.simps)

lemma itoa_user: "ece391_itoa = itoa"
  by (intro ext) (simp add: ece391_itoa_def itoa_def strrev_user)

interpretation user_itoa: int_to_ascii ece391_itoa
  unfolding itoa_user by unfold_locales (rule itoa.conv_numeral)

lemma strncmp_loop_user_zero:
  "n \<noteq> 0 \<Longrightarrow> ece391_strncmp_loop m1 s1 m2 s2 n = 0 \<longleftrightarrow> field_string m1 s1 (unat n) = field_string m2 s2 (unat n)"
proof (induction m1 s1 m2 s2 n rule: ece391_strncmp_loop.induct)
  case (1 m1 s1 m2 s2 n)
  have n: "unat n = Suc (unat (n - 1))" using 1(2) by (simp add: unat_minus_one unat_gt_0)
  have "uint (m1 s1) - uint (m2 s2) = 0 \<longleftrightarrow> m1 s1 = m2 s2" by (simp add: word_uint_eq_iff)
  then show ?case
    using 1(1) by (subst ece391_strncmp_loop.simps) (auto simp: n field_string_Suc)
qed

interpretation user_strncmp: string_compare ece391_strncmp
  by unfold_locales (simp add: ece391_strncmp_def strncmp_loop_user_zero)

text \<open>\<open>ece391_strcmp\<close> on terminated strings.\<close>

lemma strcmp_user:
  "cstr_at m1 s1 xs \<Longrightarrow> cstr_at m2 s2 ys \<Longrightarrow> \<exists>d. ece391_strcmp m1 s1 m2 s2 = Some d \<and> (d = 0 \<longleftrightarrow> xs = ys)"
proof (induction xs arbitrary: s1 s2 ys)
  case Nil
  then show ?case by (cases ys) (auto simp: ece391_strcmp.simps cstr_at_Cons word_uint_eq_iff)
next
  case (Cons x xs)
  show ?case
  proof (cases ys)
    case Nil
    then show ?thesis using Cons.prems by (auto simp: ece391_strcmp.simps [of m1 s1] cstr_at_Cons word_uint_eq_iff)
  next
    case (Cons y zs)
    then show ?thesis
      using Cons.IH [of "s1 + 1" "s2 + 1" zs] Cons.prems
      by (auto simp: ece391_strcmp.simps [of m1 s1] cstr_at_Cons word_uint_eq_iff)
  qed
qed

section \<open>Properties\<close>

text \<open>
  The library of the user programs agrees with the kernel's. \<open>strlen\<close>, \<open>strcpy\<close>, \<open>strrev\<close> and
  \<open>itoa\<close> return on the same inputs, with the same results and the same memory; \<open>strncmp\<close> finds the
  same strings equal, although one compares signed and the other unsigned characters; \<open>strcmp\<close>
  decides equality of terminated strings.
\<close>

theorem user_library_agrees:
  assumes "cstr_at m1 s1 xs" and "cstr_at m2 s2 ys"
  shows "ece391_strlen m s = strlen m s \<and> ece391_strcpy m dst src = strcpy m dst src \<and> ece391_strrev m s = strrev m s
    \<and> ece391_itoa v m buf radix = itoa v m buf radix
    \<and> (ece391_strncmp p a q b n = 0 \<longleftrightarrow> strncmp p a q b n = 0)
    \<and> (\<exists>d. ece391_strcmp m1 s1 m2 s2 = Some d \<and> (d = 0 \<longleftrightarrow> xs = ys))"
  using strcmp_user [OF assms]
  by (simp add: strlen_user strcpy_user strrev_user itoa_user user_strncmp.cmp_zero strncmp.cmp_zero)

theorem user_library_agrees_witness:
  "\<exists>d. ece391_strcmp ((\<lambda>_. 0)(1 := 97)) 1 ((\<lambda>_. 0)(5 := 97)) 5 = Some d \<and> d = 0"
proof -
  have "cstr_at ((\<lambda>_. 0)(1 := 97)) 1 [97]" "cstr_at ((\<lambda>_. 0)(5 := 97)) 5 [97]" by (simp_all add: cstr_at_Cons)
  from user_library_agrees [OF this] show ?thesis by simp
qed

end
