(* ===== verification/User_Calls.thy ===== *)
theory User_Calls
  imports System User_Support
begin

text \<open>
  The kernel as a user program sees it: the system call wrappers of \<open>syscalls/ece391syscall.S\<close>, and
  for each kind of call what it does to the few things a program can observe, its memory, the text
  on its terminal, its descriptors, the directory and its arguments. The rules at the end let the
  programs of \<open>syscalls\<close> be verified call by call.
\<close>

section \<open>System call wrappers\<close>

text \<open>
  What surrounds a program: the machine and the handlers that run while a call of it waits (they
  may depend on the state), the registers and the stack the kernel finds, the addresses of its
  string literals, what a register it does not set holds, and what a program it executes does until
  the call of \<open>execute\<close> returns.
\<close>

record 's prog_env =
  env_layout :: layout
  env_dev :: device
  env_irqs :: "'s \<Rightarrow> ('s \<Rightarrow> 's) list"
  env_stack :: memory
  env_regs :: "u32 \<times> u32"
  env_lit :: "string \<Rightarrow> u32"
  env_junk :: u32
  env_child :: "int \<Rightarrow> u32 \<Rightarrow> 's \<Rightarrow> (int \<times> 's) option"

text \<open>The interrupt, and the wrapper, to which it returns unless the program has halted.\<close>

definition int_80 ::
  "'a sys_state_scheme prog_env \<Rightarrow> u32 \<Rightarrow> u32 \<Rightarrow> u32 \<Rightarrow> u32 \<Rightarrow> 'a sys_state_scheme \<Rightarrow> (outcome \<times> 'a sys_state_scheme) option" where
  "int_80 E eax ebx ecx edx s =
     syscall_asm (env_layout E) (env_dev E) (env_irqs E s) (env_stack E) (env_regs E) eax ebx ecx edx s"

definition DO_CALL ::
  "'a sys_state_scheme prog_env \<Rightarrow> u32 \<Rightarrow> u32 \<Rightarrow> u32 \<Rightarrow> u32 \<Rightarrow> 'a sys_state_scheme \<Rightarrow> (int \<times> 'a sys_state_scheme) option" where
  "DO_CALL E number ebx ecx edx s =
     do { (r, s) \<leftarrow> int_80 E number ebx ecx edx s;
          case r of Returned v \<Rightarrow> Some (v, s)
          | Enter_user pid eip \<Rightarrow> env_child E pid eip s
          | Resume_parent _ _ _ \<Rightarrow> None }"

definition ece391_execute :: "'a sys_state_scheme prog_env \<Rightarrow> u32 \<Rightarrow> 'a sys_state_scheme \<Rightarrow> (int \<times> 'a sys_state_scheme) option" where
  "ece391_execute E command = DO_CALL E 2 command (env_junk E) (env_junk E)"

definition ece391_read :: "'a sys_state_scheme prog_env \<Rightarrow> int \<Rightarrow> u32 \<Rightarrow> int \<Rightarrow> 'a sys_state_scheme \<Rightarrow> (int \<times> 'a sys_state_scheme) option" where
  "ece391_read E fd buf nbytes = DO_CALL E 3 (of_int fd) buf (of_int nbytes)"

definition ece391_write :: "'a sys_state_scheme prog_env \<Rightarrow> int \<Rightarrow> u32 \<Rightarrow> int \<Rightarrow> 'a sys_state_scheme \<Rightarrow> (int \<times> 'a sys_state_scheme) option" where
  "ece391_write E fd buf nbytes = DO_CALL E 4 (of_int fd) buf (of_int nbytes)"

definition ece391_open :: "'a sys_state_scheme prog_env \<Rightarrow> u32 \<Rightarrow> 'a sys_state_scheme \<Rightarrow> (int \<times> 'a sys_state_scheme) option" where
  "ece391_open E filename = DO_CALL E 5 filename (env_junk E) (env_junk E)"

definition ece391_close :: "'a sys_state_scheme prog_env \<Rightarrow> int \<Rightarrow> 'a sys_state_scheme \<Rightarrow> (int \<times> 'a sys_state_scheme) option" where
  "ece391_close E fd = DO_CALL E 6 (of_int fd) (env_junk E) (env_junk E)"

definition ece391_getargs :: "'a sys_state_scheme prog_env \<Rightarrow> u32 \<Rightarrow> int \<Rightarrow> 'a sys_state_scheme \<Rightarrow> (int \<times> 'a sys_state_scheme) option" where
  "ece391_getargs E buf nbytes = DO_CALL E 7 buf (of_int nbytes) (env_junk E)"

definition ece391_vidmap :: "'a sys_state_scheme prog_env \<Rightarrow> u32 \<Rightarrow> 'a sys_state_scheme \<Rightarrow> (int \<times> 'a sys_state_scheme) option" where
  "ece391_vidmap E screen_start = DO_CALL E 8 screen_start (env_junk E) (env_junk E)"

text \<open>\<open>ece391_fdputs\<close> of \<open>ece391support.c\<close>, which ignores the result.\<close>

definition ece391_fdputs :: "'a sys_state_scheme prog_env \<Rightarrow> int \<Rightarrow> u32 \<Rightarrow> 'a sys_state_scheme \<Rightarrow> 'a sys_state_scheme option" where
  "ece391_fdputs E fd str s =
     do { n \<leftarrow> ece391_strlen (view (env_layout E) s) str;
          (_, s) \<leftarrow> ece391_write E fd str (sint n) s;
          Some s }"

text \<open>\<open>_start\<close>: the main function, then \<open>halt\<close> with its result.\<close>

definition prog_start ::
  "'a sys_state_scheme prog_env \<Rightarrow> ('a sys_state_scheme \<Rightarrow> (int \<times> 'a sys_state_scheme) option) \<Rightarrow> 'a sys_state_scheme
   \<Rightarrow> (outcome \<times> 'a sys_state_scheme) option" where
  "prog_start E main s = do { (v, s) \<leftarrow> main s; int_80 E 1 (of_int v) 0 0 s }"

section \<open>What a program observes\<close>

record prog_view =
  pv_mem :: memory
  pv_screen :: vterm
  pv_block :: pcb
  pv_files :: "memory \<times> int \<times> int \<times> u32 \<times> u32 \<times> u32"
  pv_dir :: int
  pv_args :: "(nat \<Rightarrow> u8) \<times> u32"
  pv_ready :: int

definition window :: "int \<Rightarrow> memory \<Rightarrow> memory" where
  "window p m = (\<lambda>a. if in_window a (Suc 0) then m (user_phys p a) else 0)"

definition pview :: "'a sys_state_scheme \<Rightarrow> prog_view" where
  "pview s = \<lparr>pv_mem = window (curr s) (ram s), pv_screen = vterm_of s (active_terminal s), pv_block = pcbs s (curr s),
     pv_files = fs_core s, pv_dir = read_dir_index s, pv_args = (argBuf s, argSize s),
     pv_ready = terminal_read_ready s (active_terminal s)\<rparr>"

text \<open>A program runs: its page is mapped, the cursors are on the screen, standard input and output are open.\<close>

definition std_fds :: "pcb \<Rightarrow> bool" where
  "std_fds b \<longleftrightarrow> flag (file_array b 0) = 1 \<and> fop_read (file_array b 0) = Terminal_read_wrap \<and> fop_write (file_array b 0) = Terminal_wrong
     \<and> flag (file_array b 1) = 1 \<and> fop_read (file_array b 1) = Terminal_wrong \<and> fop_write (file_array b 1) = Terminal_write_wrap
     \<and> bitmap b 0 = 1 \<and> bitmap b 1 = 1"

definition prog_ok :: "layout \<Rightarrow> 'a sys_state_scheme \<Rightarrow> bool" where
  "prog_ok L s \<longleftrightarrow> user_mapped L (curr s) s \<and> 0 \<le> curr s \<and> curr s < 6 \<and> console_ok s"

text \<open>The state shows a view, and a call ends with a result and a view.\<close>

definition sees :: "layout \<Rightarrow> prog_view \<Rightarrow> 'a sys_state_scheme \<Rightarrow> bool" where
  "sees L V s \<longleftrightarrow> prog_ok L s \<and> pview s = V"

definition ends :: "layout \<Rightarrow> ('r \<times> 'a sys_state_scheme) option \<Rightarrow> 'r \<Rightarrow> prog_view \<Rightarrow> bool" where
  "ends L x r V \<longleftrightarrow> (\<exists>s. x = Some (r, s) \<and> sees L V s)"

definition leaves :: "layout \<Rightarrow> 'a sys_state_scheme option \<Rightarrow> prog_view \<Rightarrow> bool" where
  "leaves L x V \<longleftrightarrow> (\<exists>s. x = Some s \<and> sees L V s)"

text \<open>Typing on the program's terminal.\<close>

abbreviation pv_type :: "u8 list \<Rightarrow> prog_view \<Rightarrow> prog_view" where
  "pv_type cs V \<equiv> V\<lparr>pv_screen := fold v_putc cs (pv_screen V)\<rparr>"

lemma sees_screen: "sees L V s \<Longrightarrow> vterm_of s (active_terminal s) = pv_screen V \<and> prog_ok L s"
  by (auto simp: sees_def pview_def)

lemma ends_return: "sees L V s \<Longrightarrow> ends L (Some (r, s)) r V"
  by (simp add: ends_def)

lemma ends_bind: "ends L x r V \<Longrightarrow> (\<And>s. sees L V s \<Longrightarrow> ends L (g r s) r' V') \<Longrightarrow> ends L (Option.bind x (\<lambda>(v, s). g v s)) r' V'"
  by (auto simp: ends_def)

lemma leaves_bind: "leaves L x V \<Longrightarrow> (\<And>s. sees L V s \<Longrightarrow> ends L (g s) r' V') \<Longrightarrow> ends L (Option.bind x g) r' V'"
  by (auto simp: ends_def leaves_def)

lemma ends_map: "ends L x r V \<Longrightarrow> ends L (map_option (\<lambda>(v, s). (f v, s)) x) (f r) V"
  by (auto simp: ends_def)

section \<open>The view and the state\<close>

lemma user_phys_inj: "user_phys p a = user_phys p b \<longleftrightarrow> a = b"
  by (simp add: user_phys_def)

lemma window_write_bytes:
  "in_window a (length bs) \<Longrightarrow> window p (write_bytes m (user_phys p a) bs) = write_bytes (window p m) a bs"
proof (induction bs arbitrary: a m)
  case (Cons b bs)
  have "in_window a (Suc 0)" using Cons.prems by (simp add: in_window_def)
  then have "window p (m(user_phys p a := b)) = (window p m)(a := b)"
    by (auto simp: window_def user_phys_inj)
  moreover have "in_window (a + 1) (length bs)" using in_window_step [of a "length bs"] Cons.prems by simp
  note Cons.IH [OF this, where m = "m(user_phys p a := b)"]
  ultimately show ?case by (simp only: write_bytes.simps user_phys_add)
qed simp

lemma window_view: "user_mapped L (curr s) s \<Longrightarrow> in_window a (Suc 0) \<Longrightarrow> view L s a = pv_mem (pview s) a"
  by (simp add: pview_def window_def view_user)

lemma window_bytes: "user_mapped L (curr s) s \<Longrightarrow> in_window a n \<Longrightarrow> bytes_at (view L s) a n = bytes_at (pv_mem (pview s)) a n"
  by (simp add: bytes_at_def window_view in_window_offset)

lemma window_cstr:
  assumes "user_mapped L (curr s) s" "in_window a (Suc (length cs))"
  shows "cstr_at (view L s) a cs \<longleftrightarrow> cstr_at (pv_mem (pview s)) a cs"
proof -
  have "in_window a (length cs)" using assms(2) by (simp add: in_window_def)
  then show ?thesis
    using window_bytes [OF assms(1)] window_view [OF assms(1) in_window_offset [OF assms(2), of "length cs"]] by (simp add: cstr_at_def)
qed

text \<open>User pages and text pages are apart.\<close>

lemma page_below_frames:
  assumes "t < 3"
  shows "region (page_of s t) 4000 \<subseteq> {x. unat x < 0x800000}"
proof
  fix x assume x: "x \<in> region (page_of s t) 4000"
  have "region (page_of s t) 4000 \<subseteq> region (0 :: u32) 0x800000"
  proof
    fix y assume "y \<in> region (page_of s t) 4000"
    then obtain i where "y = page_of s t + of_nat i" "i < 4000" by (rule region_obtain) simp_all
    moreover have "unat (page_of s t) + 4000 \<le> 0x800000" using assms by (simp add: unat_page_of)
    ultimately have "unat y = unat (page_of s t) + i" by (simp add: unat_word_ariths unat_of_nat)
    then show "y \<in> region (0 :: u32) 0x800000" using \<open>i < 4000\<close> \<open>unat (page_of s t) + 4000 \<le> 0x800000\<close> by (simp add: in_region_iff)
  qed
  then have "x \<in> region (0 :: u32) 0x800000" using x by blast
  then show "x \<in> {x. unat x < 0x800000}" by (simp add: in_region_iff)
qed

lemma window_above:
  assumes "0 \<le> p" "p < 6" "in_window a (Suc 0)"
  shows "0x800000 \<le> unat (user_phys p a)"
proof -
  have "user_phys p a \<in> frame_of p" using stored_bytes_in_frame [OF assms(3), of 0 p] by simp
  then obtain i where i: "user_phys p a = 0x800000 + of_int p * 0x400000 + of_nat i" "i < 0x400000"
    unfolding frame_of_def by (rule region_obtain) simp_all
  have "0x800000 + nat p * 0x400000 + i < 4294967296" using assms(2) i(2) by linarith
  then have "unat (user_phys p a) = 0x800000 + nat p * 0x400000 + i"
    unfolding i(1) using frame_base [OF assms(1,2)] i(2) by (simp add: unat_word_ariths unat_of_nat)
  then show ?thesis by simp
qed

lemma vterm_ram_high:
  assumes "\<And>x. unat x < 0x800000 \<Longrightarrow> m x = ram s x" "t < 3"
  shows "vterm_of (s\<lparr>ram := m\<rparr>) t = vterm_of s t"
  using page_below_frames [OF assms(2), of s] assms(1) by (auto simp: vterm_of_def page_of_def intro!: grid_frame)

lemma window_ram_low:
  assumes "0 \<le> p" "p < 6" "\<And>x. 0x800000 \<le> unat x \<Longrightarrow> m' x = m x"
  shows "window p m' = window p m"
  using window_above [OF assms(1,2)] assms(3) by (auto simp: window_def)

lemma write_bytes_low:
  assumes "0 \<le> p" "p < 6" "in_window a (length bs)" "unat x < 0x800000"
  shows "write_bytes m (user_phys p a) bs x = m x"
proof -
  have "x \<notin> region (user_phys p a) (length bs)"
  proof
    assume "x \<in> region (user_phys p a) (length bs)"
    then obtain i where "x = user_phys p a + of_nat i" "i < length bs" by (rule region_obtain) (use assms(3) in \<open>simp_all add: in_window_def\<close>)
    then have "x = user_phys p (a + of_nat i)" "in_window (a + of_nat i) (Suc 0)"
      using in_window_offset [OF assms(3)] by (simp_all add: user_phys_add)
    then show False using window_above [OF assms(1,2)] assms(4) by (meson leD)
  qed
  then show ?thesis using assms(3) by (simp add: in_window_def)
qed

text \<open>A store of the program or of the kernel on its behalf.\<close>

lemma sees_store:
  assumes "sees L V s" "in_window a (length bs)"
  shows "\<exists>s'. store_bytes L a bs s = Some s' \<and> sees L (V\<lparr>pv_mem := write_bytes (pv_mem V) a bs\<rparr>) s' \<and> (\<exists>m. s' = s\<lparr>ram := m\<rparr>)"
proof -
  let ?m = "write_bytes (ram s) (user_phys (curr s) a) bs"
  have s: "user_mapped L (curr s) s" "0 \<le> curr s" "curr s < 6" "console_ok s" and V: "V = pview s"
    using assms(1) by (auto simp: sees_def prog_ok_def)
  have "vterm_of (s\<lparr>ram := ?m\<rparr>) (active_terminal s) = vterm_of s (active_terminal s)"
    using write_bytes_low [OF s(2,3) assms(2)] s(4) by (intro vterm_ram_high) (simp_all add: console_ok_def)
  then have "sees L (V\<lparr>pv_mem := write_bytes (pv_mem V) a bs\<rparr>) (s\<lparr>ram := ?m\<rparr>)"
    using s by (simp add: sees_def prog_ok_def V pview_def window_write_bytes [OF assms(2)] console_ok_def fs_core_def)
  then show ?thesis using store_bytes_user [OF s(1) assms(2)] by blast
qed

text \<open>Parts of the state no program sees.\<close>

lemma sees_updates [simp]:
  "sees L V (cli s) = sees L V s" "sees L V (sti s) = sees L V s" "sees L V (s\<lparr>print_buffer := pb\<rparr>) = sees L V s"
  "sees L V (s\<lparr>keyboard_buffer := kb\<rparr>) = sees L V s"
  "sees L V (s\<lparr>cursor_ind := ci\<rparr>) = sees L V s"
  by (simp_all add: sees_def prog_ok_def pview_def user_mapped_def address_space_def console_ok_def fs_core_def vterm_of_def page_of_def cli_def sti_def)

lemma sees_ready: "sees L V s \<Longrightarrow> t = active_terminal s \<Longrightarrow> sees L (V\<lparr>pv_ready := i\<rparr>) (s\<lparr>terminal_read_ready := (terminal_read_ready s)(t := i)\<rparr>)"
  by (auto simp: sees_def prog_ok_def pview_def user_mapped_def address_space_def console_ok_def fs_core_def vterm_of_def page_of_def)

lemma only_terminal_puts:
  "console_ok s \<Longrightarrow> only_terminal (active_terminal s) s (fold putc_scroll cs s)"
proof (induction cs arbitrary: s)
  case (Cons c cs)
  let ?t = "active_terminal s"
  have "only_terminal ?t s (putc_at ?t c s)"
    using putc_at_facts [OF console_ok_cursor [OF Cons.prems]] Cons.prems by (simp add: console_ok_def)
  then have "only_terminal ?t s (putc_scroll c s)"
    by (auto simp: putc_scroll_at Let_def only_terminal_def)
  moreover have "only_terminal ?t (putc_scroll c s) (fold putc_scroll cs (putc_scroll c s))"
    using Cons.IH [of "putc_scroll c s"] putc_scroll_refines [OF Cons.prems] by simp
  ultimately show ?case using only_terminal_trans by fastforce
qed simp

lemma prog_fields_more:
  fixes s s' :: "'a sys_state_scheme"
  assumes "screen_state.more s' = screen_state.more s"
  shows "fs_core s' = fs_core s \<and> read_dir_index s' = read_dir_index s \<and> argBuf s' = argBuf s \<and> argSize s' = argSize s"
  using assms by (cases s, cases s') (simp add: fs_core_def)

lemma sees_typed:
  assumes "sees L V s"
  shows "sees L (pv_type cs V) (fold putc_scroll cs s)"
proof -
  let ?s = "fold putc_scroll cs s"
  have s: "user_mapped L (curr s) s" "0 \<le> curr s" "curr s < 6" "console_ok s" and V: "V = pview s"
    using assms by (auto simp: sees_def prog_ok_def)
  have t: "active_terminal s < 3" using s(4) by (simp add: console_ok_def)
  note r = puts_fold_refines [OF s(4), of cs]
  have more: "screen_state.more ?s = screen_state.more s" by simp
  have e: "curr ?s = curr s" "pcbs ?s = pcbs s" "terminal_read_ready ?s = terminal_read_ready s"
    using sys_of_screen_more [OF more] kbd_more(4) [OF more] by simp_all
  have "ram ?s x = ram s x" if "0x800000 \<le> unat x" for x
    using only_terminal_puts [OF s(4), of cs] page_below_frames [OF t, of s] that by (auto simp: only_terminal_def)
  then have w: "window (curr s) (ram ?s) = window (curr s) (ram s)" by (rule window_ram_low [OF s(2,3)])
  have "user_mapped L (curr s) ?s" using s(1) same_procs_screen [OF more, of L] by (auto simp: user_mapped_def same_procs_def)
  then show ?thesis
    using s r t w prog_fields_more [OF more] by (simp add: sees_def prog_ok_def pview_def V e)
qed

lemma sees_terminal_write:
  assumes "sees L V s" "n < 2050"
  shows "\<exists>s'. terminal_write src buf (int n) s = Some (int n, s')
    \<and> sees L (pv_type (bytes_at src buf n) V) s'
    \<and> (\<forall>i<n. print_buffer s' (2050 * active_terminal s + i) = src (buf + of_nat i)) \<and> print_buffer s' (2050 * active_terminal s + n) = 0
    \<and> active_terminal s' = active_terminal s"
proof -
  let ?t = "active_terminal s"
  define pb where "pb = (\<lambda>k. if 2050 * ?t \<le> k \<and> k < 2050 * ?t + n then src (buf + of_nat (k - 2050 * ?t)) else print_buffer s k)"
  define pb' where "pb' = pb(2050 * ?t + n := 0)"
  let ?s = "(cli s)\<lparr>print_buffer := pb'\<rparr>"
  have t: "?t < 3" using assms(1) by (simp add: sees_def prog_ok_def console_ok_def)
  have b: "map (\<lambda>i. pb' (2050 * ?t + unat (of_nat i :: u32))) [0..<n] = bytes_at src buf n"
    using assms(2) by (simp add: bytes_at_def pb'_def pb_def unat_of_nat)
  have "fold (\<lambda>i. putc_scroll (pb' (2050 * ?t + unat (0 + of_nat i :: u32)))) [0..<n] ?s = fold putc_scroll (bytes_at src buf n) ?s"
    unfolding b [symmetric] by (simp add: fold_map comp_def)
  moreover have "active_terminal (cli s) = ?t" "print_buffer (cli s) = print_buffer s" by (simp_all add: cli_def)
  ultimately have "terminal_write src buf (int n) s = Some (int n, sti (fold putc_scroll (bytes_at src buf n) ?s))"
    using assms(2) t by (simp add: terminal_write_def get_active_terminal_def puts_scroll_def Let_def pb_def pb'_def cong: if_cong)
  moreover have "sees L V ?s" using assms(1) by simp
  moreover have "print_buffer (sti (fold putc_scroll (bytes_at src buf n) ?s)) = pb'"
    using kbd_more(3) [of "fold putc_scroll (bytes_at src buf n) ?s" ?s] by (simp add: sti_def)
  moreover have "active_terminal (sti (fold putc_scroll (bytes_at src buf n) ?s)) = ?t"
    using puts_fold_refines [of ?s "bytes_at src buf n"] \<open>sees L V ?s\<close> by (simp add: sees_def prog_ok_def sti_def cli_def)
  ultimately show ?thesis using sees_typed [of L V ?s] by (auto simp: pb'_def pb_def)
qed

section \<open>Rules for the calls\<close>

lemma ends_returning: "ends L x r V \<Longrightarrow> ends L (returning x) (Returned r) V"
  by (auto simp: ends_def returning_def)

lemma ends_DO_CALL:
  assumes "ends L (int_80 E num a b c s) (Returned r) V"
  shows "ends L (DO_CALL E num a b c s) r V"
  using assms by (auto simp: ends_def DO_CALL_def)

lemmas call_defs = ece391_execute_def ece391_read_def ece391_write_def ece391_open_def ece391_close_def ece391_getargs_def ece391_vidmap_def

lemma write_out_state:
  assumes "sees (env_layout E) V s" "std_fds (pv_block V)" "n < 2050" "in_window buf n"
  shows "\<exists>s'. ece391_write E 1 buf (int n) s = Some (int n, s') \<and> sees (env_layout E) (pv_type (bytes_at (pv_mem V) buf n) V) s'
    \<and> (\<forall>i<n. print_buffer s' (2050 * active_terminal s + i) = pv_mem V (buf + of_nat i)) \<and> print_buffer s' (2050 * active_terminal s + n) = 0
    \<and> active_terminal s' = active_terminal s"
proof -
  let ?L = "env_layout E"
  have V: "V = pview s" "user_mapped ?L (curr s) s" using assms(1) by (auto simp: sees_def prog_ok_def)
  have f: "fop_write (file_array (pcbs s (curr s)) 1) = Terminal_write_wrap" "bitmap (pcbs s (curr s)) 1 = 1"
    using assms(2) by (simp_all add: std_fds_def V(1) pview_def)
  have buf: "buf \<noteq> 0" "in_window buf n" using assms(4) by (auto simp: in_window_def)
  have n: "sint (of_int (int n) :: u32) = int n" using assms(3) by (intro sint_of_int32) simp_all
  obtain s' where s': "terminal_write (view ?L s) buf (int n) s = Some (int n, s')"
      "sees ?L (pv_type (bytes_at (view ?L s) buf n) V) s'"
      and pb: "\<forall>i<n. print_buffer s' (2050 * active_terminal s + i) = view ?L s (buf + of_nat i)"
        "print_buffer s' (2050 * active_terminal s + n) = 0" "active_terminal s' = active_terminal s"
    using sees_terminal_write [OF assms(1,3)] by blast
  have "sys_write ?L (env_dev E) hs 1 buf (of_int (int n)) s = Some (int n, s')" for hs
    using buf(1) f s'(1) n by (simp add: sys_write_def call_op_def terminal_write_wrap_def Let_def)
  then have "ece391_write E 1 buf (int n) s = Some (int n, s')"
    by (simp add: ece391_write_def DO_CALL_def int_80_def syscall_asm_def returning_def)
  moreover have "view ?L s (buf + of_nat i) = pv_mem V (buf + of_nat i)" if "i < n" for i
    using window_view [OF V(2) in_window_offset [OF buf(2) that]] by (simp add: V(1))
  ultimately show ?thesis using s'(2) pb window_bytes [OF V(2) buf(2)] by (intro exI [of _ s']) (simp add: V(1))
qed

lemma ends_write_out:
  assumes "sees (env_layout E) V s" "std_fds (pv_block V)" "n < 2050" "in_window buf n"
  shows "ends (env_layout E) (ece391_write E 1 buf (int n) s) (int n) (pv_type (bytes_at (pv_mem V) buf n) V)"
  using write_out_state [OF assms] unfolding ends_def by blast

lemma fdputs_state:
  assumes "sees (env_layout E) V s" "std_fds (pv_block V)" "cstr_at (pv_mem V) a cs" "length cs < 2050" "in_window a (Suc (length cs))"
  shows "\<exists>s'. ece391_fdputs E 1 a s = Some s' \<and> sees (env_layout E) (pv_type cs V) s'
    \<and> map (\<lambda>k. print_buffer s' (2050 * active_terminal s + k)) [0..<Suc (length cs)] = cs @ [0] \<and> active_terminal s' = active_terminal s"
proof -
  let ?L = "env_layout E"
  have V: "V = pview s" "user_mapped ?L (curr s) s" using assms(1) by (auto simp: sees_def prog_ok_def)
  have "cstr_at (view ?L s) a cs" using assms(3) window_cstr [OF V(2) assms(5)] by (simp add: V(1))
  then have n: "ece391_strlen (view ?L s) a = Some (of_nat (length cs))" by (simp add: strlen_user strlen_cstr)
  have l: "sint (of_nat (length cs) :: u32) = int (length cs)" using assms(4) by (intro sint_small) simp
  have bs: "bytes_at (pv_mem V) a (length cs) = cs" using assms(3) by (simp add: cstr_at_def)
  have w: "in_window a (length cs)" using assms(5) by (simp add: in_window_def)
  obtain s' where s': "ece391_write E 1 a (int (length cs)) s = Some (int (length cs), s')" "sees ?L (pv_type cs V) s'"
      "\<forall>i<length cs. print_buffer s' (2050 * active_terminal s + i) = pv_mem V (a + of_nat i)"
      "print_buffer s' (2050 * active_terminal s + length cs) = 0" "active_terminal s' = active_terminal s"
    using write_out_state [OF assms(1,2,4) w] unfolding bs by blast
  have "map (\<lambda>k. print_buffer s' (2050 * active_terminal s + k)) [0..<length cs] = bytes_at (pv_mem V) a (length cs)"
    unfolding bytes_at_def using s'(3) by (intro map_cong) simp_all
  then show ?thesis using s' n l by (intro exI [of _ s']) (simp add: ece391_fdputs_def bs)
qed

lemma ends_fdputs:
  assumes "sees (env_layout E) V s" "std_fds (pv_block V)" "cstr_at (pv_mem V) a cs" "length cs < 2050" "in_window a (Suc (length cs))"
  shows "leaves (env_layout E) (ece391_fdputs E 1 a s) (pv_type cs V)"
  using fdputs_state [OF assms] unfolding leaves_def by blast

text \<open>A call that fails with -1 and changes nothing.\<close>

lemma ends_reject: "sees L V s \<Longrightarrow> x = Some (-1, s) \<Longrightarrow> ends L x (-1) V"
  by (simp add: ends_def)

lemma ends_sys_read:
  assumes "ends (env_layout E) (sys_read (env_layout E) (env_dev E) (env_irqs E s) fd buf (of_int n) s) r V" "-2147483648 \<le> fd" "fd < 2147483648"
  shows "ends (env_layout E) (ece391_read E fd buf n s) r V"
  unfolding ece391_read_def
  by (rule ends_DO_CALL) (use ends_returning [OF assms(1)] sint_of_int32 [OF assms(2,3)] in \<open>simp add: int_80_def syscall_asm_def\<close>)

lemma ends_sys_write:
  assumes "ends (env_layout E) (sys_write (env_layout E) (env_dev E) (env_irqs E s) fd buf (of_int n) s) r V" "-2147483648 \<le> fd" "fd < 2147483648"
  shows "ends (env_layout E) (ece391_write E fd buf n s) r V"
  unfolding ece391_write_def
  by (rule ends_DO_CALL) (use ends_returning [OF assms(1)] sint_of_int32 [OF assms(2,3)] in \<open>simp add: int_80_def syscall_asm_def\<close>)

lemma ends_sys_open:
  assumes "ends (env_layout E) (Some (sys_open (env_layout E) a s)) r V"
  shows "ends (env_layout E) (ece391_open E a s) r V"
  unfolding ece391_open_def
  by (rule ends_DO_CALL) (use ends_returning [OF assms(1)] in \<open>simp add: int_80_def syscall_asm_def\<close>)

lemma ends_sys_close:
  assumes "ends (env_layout E) (Some (sys_close fd s)) r V" "-2147483648 \<le> fd" "fd < 2147483648"
  shows "ends (env_layout E) (ece391_close E fd s) r V"
  unfolding ece391_close_def
  by (rule ends_DO_CALL) (use ends_returning [OF assms(1)] sint_of_int32 [OF assms(2,3)] in \<open>simp add: int_80_def syscall_asm_def\<close>)

lemma ends_sys_getargs:
  assumes "ends (env_layout E) (getargs (env_layout E) buf (sint (of_int n :: u32)) s) r V"
  shows "ends (env_layout E) (ece391_getargs E buf n s) r V"
  unfolding ece391_getargs_def
  by (rule ends_DO_CALL) (use ends_returning [OF assms(1)] in \<open>simp add: int_80_def syscall_asm_def\<close>)

lemma ends_sys_vidmap:
  assumes "ends (env_layout E) (vidmap (env_layout E) (load32 (env_stack E) 8) a s) r V"
  shows "ends (env_layout E) (ece391_vidmap E a s) r V"
  unfolding ece391_vidmap_def
  by (rule ends_DO_CALL) (use ends_returning [OF assms(1)] in \<open>simp add: int_80_def syscall_asm_def\<close>)

text \<open>The directory a program sees does not change: \<open>s0\<close> is any state with the file system of the view.\<close>

definition dir_lookup :: "'a fs_state_scheme \<Rightarrow> u8 list \<Rightarrow> dentry option" where
  "dir_lookup s nm = map_option (dentry_at s) (find (\<lambda>i. takeWhile (\<lambda>c. c \<noteq> 0) (fname (dentry_at s i)) = take 32 nm) [0..<nat (num_dentry s)])"

lemma lookup_field: "field_string m a 32 = take 32 nm \<Longrightarrow> read_dentry_by_name m a s = dir_lookup s nm"
proof -
  assume nm: "field_string m a 32 = take 32 nm"
  have "strncmp m a (fs_mem s) (dentry_addr s i) 32 = 0 \<longleftrightarrow> takeWhile (\<lambda>c. c \<noteq> 0) (fname (dentry_at s i)) = take 32 nm" for i
    by (auto simp: strncmp.cmp_zero dentry_name_field nm)
  then show ?thesis by (simp add: read_dentry_by_name_def dir_lookup_def)
qed

lemmas lookup_cstr = lookup_field [OF field_string_cstr]

lemma fs_core_dir:
  assumes "fs_core s' = fs_core s"
  shows "dentry_at s' = dentry_at s" "num_dentry s' = num_dentry s" "dir_lookup s' = dir_lookup s" "file_byte s' = file_byte s"
proof -
  show e: "dentry_at s' = dentry_at s" "num_dentry s' = num_dentry s"
    using assms by (auto simp: dentry_addr_def dentry_at_def fs_core_def Let_def)
  show "dir_lookup s' = dir_lookup s" by (rule ext) (simp add: dir_lookup_def e)
  show "file_byte s' = file_byte s"
    using assms by (intro ext) (simp add: file_byte_def data_block_def inode_addr_def fs_core_def)
qed

lemma sees_set_pcb: "sees L V s \<Longrightarrow> sees L (V\<lparr>pv_block := g (pv_block V)\<rparr>) (set_pcb (curr s) g s)"
  by (auto simp: sees_def prog_ok_def pview_def fs_core_def set_pcb_def user_mapped_def address_space_def console_ok_def vterm_of_def page_of_def)

lemma sees_set_pcb': "sees L V s \<Longrightarrow> curr s = p \<Longrightarrow> pv_block V = b \<Longrightarrow> sees L (V\<lparr>pv_block := g b\<rparr>) (set_pcb p g s)"
  using sees_set_pcb by blast

lemma sees_dir: "sees L V s \<Longrightarrow> sees L (V\<lparr>pv_dir := i\<rparr>) (s\<lparr>read_dir_index := i\<rparr>)"
  by (auto simp: sees_def prog_ok_def pview_def fs_core_def user_mapped_def address_space_def console_ok_def vterm_of_def page_of_def)

text \<open>\<open>open\<close>\<close>

definition opened :: "nat \<Rightarrow> dentry \<Rightarrow> pcb \<Rightarrow> pcb" where
  "opened i d b = set_fd i (\<lambda>f. f\<lparr>fd_inode := sint (inode d), flag := 1, file_pos := 0\<rparr>)
     (set_fd i (if ftype d = 0 then fops_of Rtc_read_wrapper Rtc_write_wrapper Rtc_open_wrapper Rtc_close_wrapper
        else if ftype d = 1 then fops_of Read_dir_wrapper Write_dir_wrapper Open_dir_wrapper Close_dir_wrapper
        else if ftype d = 2 then fops_of Read_f_wrapper Write_f_wrapper Open_f_wrapper Close_f_wrapper else id)
      (set_bitmap i 1 b))"

lemma sys_open_opened:
  assumes "filename \<noteq> 0" "read_dentry_by_name (view L s) filename s = Some d" "free_desc (bitmap (pcbs s (curr s))) = int i"
  shows "sys_open L filename s = (int i, set_pcb (curr s) (opened i d) (if ftype d = 1 then s\<lparr>read_dir_index := 0\<rparr> else s))"
  using assms by (auto simp: sys_open_def Let_def open_dir_def set_pcb_def opened_def set_fd_def)

lemma ends_open:
  assumes "sees (env_layout E) V s" "pv_files V = fs_core s0" "cstr_at (pv_mem V) a nm" "in_window a (Suc (length nm))"
  shows "dir_lookup s0 nm = Some d \<Longrightarrow> free_desc (bitmap (pv_block V)) = int i \<Longrightarrow>
      ends (env_layout E) (ece391_open E a s) (int i) (V\<lparr>pv_dir := if ftype d = 1 then 0 else pv_dir V, pv_block := opened i d (pv_block V)\<rparr>)"
    and "dir_lookup s0 nm = None \<or> free_desc (bitmap (pv_block V)) = -1 \<Longrightarrow> ends (env_layout E) (ece391_open E a s) (-1) V"
proof -
  let ?L = "env_layout E"
  have V: "V = pview s" "user_mapped ?L (curr s) s" using assms(1) by (auto simp: sees_def prog_ok_def)
  have a: "a \<noteq> 0" using assms(4) by (auto simp: in_window_def)
  have fs: "fs_core s = fs_core s0" using assms(2) by (simp add: V(1) pview_def)
  have b: "pv_block V = pcbs s (curr s)" by (simp add: V(1) pview_def)
  have "cstr_at (view ?L s) a nm" using assms(3) window_cstr [OF V(2) assms(4)] by (simp add: V(1))
  then have look: "read_dentry_by_name (view ?L s) a s = dir_lookup s0 nm" by (simp add: lookup_cstr fs_core_dir(3) [OF fs])
  show "ends ?L (ece391_open E a s) (int i) (V\<lparr>pv_dir := if ftype d = 1 then 0 else pv_dir V, pv_block := opened i d (pv_block V)\<rparr>)"
    if d: "dir_lookup s0 nm = Some d" and i: "free_desc (bitmap (pv_block V)) = int i"
  proof (rule ends_sys_open)
    let ?s = "if ftype d = 1 then s\<lparr>read_dir_index := 0\<rparr> else s"
    have "sees ?L (V\<lparr>pv_dir := if ftype d = 1 then 0 else pv_dir V\<rparr>) ?s" using assms(1) sees_dir [OF assms(1), of 0] by simp
    moreover have "curr ?s = curr s" by simp
    ultimately have "sees ?L (V\<lparr>pv_dir := if ftype d = 1 then 0 else pv_dir V, pv_block := opened i d (pv_block V)\<rparr>)
        (set_pcb (curr s) (opened i d) ?s)"
      by (rule sees_set_pcb') simp
    moreover have "sys_open ?L a s = (int i, set_pcb (curr s) (opened i d) ?s)"
      by (rule sys_open_opened [OF a]) (use look d i in \<open>simp_all add: b\<close>)
    ultimately show "ends ?L (Some (sys_open ?L a s)) (int i) (V\<lparr>pv_dir := if ftype d = 1 then 0 else pv_dir V, pv_block := opened i d (pv_block V)\<rparr>)"
      unfolding ends_def by blast
  qed
  show "ends ?L (ece391_open E a s) (-1) V" if "dir_lookup s0 nm = None \<or> free_desc (bitmap (pv_block V)) = -1"
    using that a look by (intro ends_sys_open ends_reject [OF assms(1)]) (auto simp: sys_open_def b split: option.splits)
qed

text \<open>\<open>close\<close>\<close>

definition closed :: "nat \<Rightarrow> pcb \<Rightarrow> pcb" where
  "closed i b = set_bitmap i 0 (set_fd i (\<lambda>f. f\<lparr>flag := 0\<rparr>) b)"

lemma ends_close:
  assumes "sees (env_layout E) V s"
  shows "2 \<le> i \<Longrightarrow> i < 8 \<Longrightarrow> flag (file_array (pv_block V) i) \<noteq> 0 \<Longrightarrow>
      ends (env_layout E) (ece391_close E (int i) s) 0 (V\<lparr>pv_block := closed i (pv_block V)\<rparr>)"
    and "fd < 2 \<or> 8 < fd \<or> fd < 8 \<and> flag (file_array (pv_block V) (nat fd)) = 0 \<Longrightarrow> -2147483648 \<le> fd \<Longrightarrow> fd < 2147483648 \<Longrightarrow>
      ends (env_layout E) (ece391_close E fd s) (-1) V"
proof -
  have b: "pv_block V = pcbs s (curr s)" using assms by (auto simp: sees_def pview_def)
  {
    assume i: "2 \<le> i" "i < 8" "flag (file_array (pv_block V) i) \<noteq> 0"
    have "set_bitmap i 0 \<circ> set_fd i (\<lambda>f. f\<lparr>flag := 0\<rparr>) = closed i" by (rule ext) (simp add: closed_def)
    then have "sys_close (int i) s = (0, set_pcb (curr s) (closed i) s)"
      using sys_close_pcb [of "int i" s] i by (simp add: b)
    then show "ends (env_layout E) (ece391_close E (int i) s) 0 (V\<lparr>pv_block := closed i (pv_block V)\<rparr>)"
      using i sees_set_pcb [OF assms, of "closed i"] by (intro ends_sys_close) (simp_all add: ends_def)
  next
    assume "fd < 2 \<or> 8 < fd \<or> fd < 8 \<and> flag (file_array (pv_block V) (nat fd)) = 0" "-2147483648 \<le> fd" "fd < 2147483648"
    then show "ends (env_layout E) (ece391_close E fd s) (-1) V"
      by (intro ends_sys_close ends_reject [OF assms]) (auto simp: sys_close_def get_flag_def b Let_def)
  }
qed

text \<open>\<open>read\<close> and \<open>write\<close> on a descriptor that is out of range, not open, or of the wrong direction.\<close>

lemma ends_read_reject:
  assumes "sees (env_layout E) V s" "-2147483648 \<le> fd" "fd < 2147483648"
    and "fd < 0 \<or> 8 \<le> fd \<or> flag (file_array (pv_block V) (nat fd)) = 0 \<or> fop_read (file_array (pv_block V) (nat fd)) = Terminal_wrong"
  shows "ends (env_layout E) (ece391_read E fd buf n s) (-1) V"
proof -
  have b: "pv_block V = pcbs s (curr s)" using assms(1) by (auto simp: sees_def pview_def)
  show ?thesis
    using assms(2-) by (intro ends_sys_read ends_reject [OF assms(1)]) (auto simp: sys_read_def call_op_def terminal_wrong_def b Let_def)
qed

lemma ends_write_reject:
  assumes "sees (env_layout E) V s" "-2147483648 \<le> fd" "fd < 2147483648"
    and "fd < 0 \<or> 8 \<le> fd \<or> bitmap (pv_block V) (nat fd) = 0 \<or> fop_write (file_array (pv_block V) (nat fd)) = Terminal_wrong"
  shows "ends (env_layout E) (ece391_write E fd buf n s) (-1) V"
proof -
  have b: "pv_block V = pcbs s (curr s)" using assms(1) by (auto simp: sees_def pview_def)
  show ?thesis
    using assms(2-) by (intro ends_sys_write ends_reject [OF assms(1)]) (auto simp: sys_write_def call_op_def terminal_wrong_def b Let_def)
qed

text \<open>\<open>read\<close> on a regular file: what \<open>read_data\<close> delivers, and the position moves on.\<close>

definition advanced :: "nat \<Rightarrow> int \<Rightarrow> pcb \<Rightarrow> pcb" where
  "advanced i n b = set_fd i (\<lambda>f. f\<lparr>file_pos := file_pos f + n\<rparr>) b"

lemma ends_read_file:
  assumes "sees (env_layout E) V s" "pv_files V = fs_core s0" and f: "f = file_array (pv_block V) i" "flag f \<noteq> 0" "fop_read f = Read_f_wrapper"
    "fd_inode f = sint ino" "file_pos f = int pos" and "i < 8" "pos < 2147483648"
    and ino: "valid_inode s0 ino" "inode_length s0 ino < 2147483648" and buf: "n < 2147483648" "in_window buf n"
    and k: "k = (if pos < inode_length s0 ino then min n (inode_length s0 ino) else 0)"
  shows "ends (env_layout E) (ece391_read E (int i) buf (int n) s) (int k)
    (V\<lparr>pv_mem := write_bytes (pv_mem V) buf (map (file_byte s0 ino) [pos..<pos + k]), pv_block := advanced i (int k) (pv_block V)\<rparr>)"
proof -
  let ?L = "env_layout E" and ?bs = "map (file_byte s0 ino) [pos..<pos + k]"
  have V: "V = pview s" using assms(1) by (auto simp: sees_def)
  have fs: "fs_core s = fs_core s0" using assms(2) by (simp add: V pview_def)
  have b: "pv_block V = pcbs s (curr s)" by (simp add: V pview_def)
  have nz: "buf \<noteq> 0" using buf(2) by (auto simp: in_window_def)
  have w: "in_window buf (length ?bs)" using buf(2) by (auto simp: in_window_def k min_def)
  have u: "unat (of_int (int pos) :: u32) = pos" "unat (of_int (int n) :: u32) = n"
    using assms(9) buf(1) by (simp_all add: unat_of_nat)
  have data: "read_data ino (of_int (int pos)) buf (of_int (int n)) s = (int k, ?bs)"
  proof (cases "pos < inode_length s0 ino")
    case True
    have "int (min n (inode_length s0 ino)) < 2147483648" using buf(1) by simp
    then show ?thesis
      using read_data_spec [of s ino buf "of_int (int pos)" "of_int (int n)"] ino nz u True sint_small [of "min n (inode_length s0 ino)"] buf(1)
      by (simp add: fs_core_file [OF fs] fs_core_dir [OF fs] k Let_def)
  next
    case False
    then show ?thesis
      using read_data_end [of s ino buf "of_int (int pos)"] ino(1) nz u(1) by (simp add: fs_core_file [OF fs] k)
  qed
  obtain s' m where s': "store_bytes ?L buf ?bs s = Some s'" "sees ?L (V\<lparr>pv_mem := write_bytes (pv_mem V) buf ?bs\<rparr>) s'" "s' = s\<lparr>ram := m\<rparr>"
    using sees_store [OF assms(1) w] by blast
  have "call_op ?L dev hs Read_f_wrapper (of_int (sint ino)) (of_int (int pos)) buf (of_int (int n)) s = Some (int k, s')" for dev hs
    by (simp add: call_op_def read_f_wrapper_def data [simplified] s'(1))
  then have "sys_read ?L dev hs (int i) buf (of_int (int n)) s = Some (int k, set_pcb (curr s) (advanced i (int k)) s')" for dev hs
    using f nz \<open>i < 8\<close> by (simp add: sys_read_def b Let_def advanced_def [abs_def])
  moreover have "sees ?L (V\<lparr>pv_mem := write_bytes (pv_mem V) buf ?bs, pv_block := advanced i (int k) (pv_block V)\<rparr>)
      (set_pcb (curr s) (advanced i (int k)) s')"
    using s'(2) by (rule sees_set_pcb') (simp_all add: s'(3))
  ultimately show ?thesis using \<open>i < 8\<close> by (intro ends_sys_read) (simp_all add: ends_def)
qed

text \<open>\<open>read\<close> on a directory: the next name, or nothing at the end.\<close>

lemma ends_read_dir:
  assumes "sees (env_layout E) V s" "pv_files V = fs_core s0" and f: "f = file_array (pv_block V) i" "flag f \<noteq> 0" "fop_read f = Read_dir_wrapper"
    and "i < 8" "0 \<le> num_dentry s0" "num_dentry s0 < 2147483648" "pv_dir V = int j" "int j \<le> num_dentry s0" "in_window buf 32"
  shows "int j < num_dentry s0 \<Longrightarrow> ends (env_layout E) (ece391_read E (int i) buf n s) 32
      (V\<lparr>pv_dir := int j + 1, pv_mem := write_bytes (pv_mem V) buf (fname (dentry_at s0 j)), pv_block := advanced i 32 (pv_block V)\<rparr>)"
    and "int j = num_dentry s0 \<Longrightarrow> ends (env_layout E) (ece391_read E (int i) buf n s) 0 (V\<lparr>pv_block := advanced i 0 (pv_block V)\<rparr>)"
proof -
  let ?L = "env_layout E"
  have V: "V = pview s" using assms(1) by (auto simp: sees_def)
  have fs: "fs_core s = fs_core s0" using assms(2) by (simp add: V pview_def)
  have b: "pv_block V = pcbs s (curr s)" and j: "read_dir_index s = int j" using assms(9) by (simp_all add: V pview_def)
  have nz: "buf \<noteq> 0" using assms(11) by (auto simp: in_window_def)
  have r: "read_dir s = (if int j < num_dentry s0 then (32, fname (dentry_at s0 j), s\<lparr>read_dir_index := int j + 1\<rparr>) else (0, [], s))"
    using assms(7,8,10) read_dentry_by_index_small [of s "int j"] by (simp add: read_dir_def j fs_core_dir [OF fs])
  have len: "length (fname (dentry_at s0 j)) = 32" by (simp add: dentry_at_def Let_def)
  {
    assume lt: "int j < num_dentry s0"
    have s1: "sees ?L (V\<lparr>pv_dir := int j + 1\<rparr>) (s\<lparr>read_dir_index := int j + 1\<rparr>)" by (rule sees_dir [OF assms(1)])
    obtain s' m where s': "store_bytes ?L buf (fname (dentry_at s0 j)) (s\<lparr>read_dir_index := int j + 1\<rparr>) = Some s'"
        "sees ?L (V\<lparr>pv_dir := int j + 1, pv_mem := write_bytes (pv_mem V) buf (fname (dentry_at s0 j))\<rparr>) s'"
        "s' = s\<lparr>read_dir_index := int j + 1, ram := m\<rparr>"
      using sees_store [OF s1, of buf "fname (dentry_at s0 j)"] assms(11) by (auto simp: len)
    have "sys_read ?L dev hs (int i) buf c s = Some (32, set_pcb (curr s) (advanced i 32) s')" for dev hs c
      using f nz \<open>i < 8\<close> s'(1) lt by (simp add: sys_read_def call_op_def read_dir_wrapper_def r b Let_def advanced_def [abs_def])
    moreover have "sees ?L (V\<lparr>pv_dir := int j + 1, pv_mem := write_bytes (pv_mem V) buf (fname (dentry_at s0 j)), pv_block := advanced i 32 (pv_block V)\<rparr>)
        (set_pcb (curr s) (advanced i 32) s')"
      using s'(2) by (rule sees_set_pcb') (simp_all add: s'(3))
    ultimately show "ends ?L (ece391_read E (int i) buf n s) 32
        (V\<lparr>pv_dir := int j + 1, pv_mem := write_bytes (pv_mem V) buf (fname (dentry_at s0 j)), pv_block := advanced i 32 (pv_block V)\<rparr>)"
      using \<open>i < 8\<close> by (intro ends_sys_read) (simp_all add: ends_def)
  next
    assume "int j = num_dentry s0"
    then have "sys_read ?L dev hs (int i) buf c s = Some (0, set_pcb (curr s) (advanced i 0) s)" for dev hs c
      using f nz \<open>i < 8\<close> by (simp add: sys_read_def call_op_def read_dir_wrapper_def r b Let_def advanced_def [abs_def])
    moreover have "sees ?L (V\<lparr>pv_block := advanced i 0 (pv_block V)\<rparr>) (set_pcb (curr s) (advanced i 0) s)"
      by (rule sees_set_pcb [OF assms(1)])
    ultimately show "ends ?L (ece391_read E (int i) buf n s) 0 (V\<lparr>pv_block := advanced i 0 (pv_block V)\<rparr>)"
      using \<open>i < 8\<close> by (intro ends_sys_read) (simp_all add: ends_def)
  }
qed

text \<open>\<open>getargs\<close> clears the old string in the buffer and stores the arguments.\<close>

lemma ends_getargs:
  assumes "sees (env_layout E) V s" "pv_args V = (ab, sz)" "sz \<noteq> 0" "cstr_at (array_mem ab) 0 args" "length args < 129"
    and old: "cstr_at (pv_mem V) buf old" "in_window buf (Suc (max (length old) (length args)))"
  shows "ends (env_layout E) (ece391_getargs E buf n s) 0
    (V\<lparr>pv_mem := write_bytes (write_bytes (pv_mem V) buf (replicate (length old) 0)) buf (args @ [0])\<rparr>)"
proof (rule ends_sys_getargs)
  let ?L = "env_layout E"
  have V: "V = pview s" "user_mapped ?L (curr s) s" using assms(1) by (auto simp: sees_def prog_ok_def)
  have a: "argBuf s = ab" "argSize s \<noteq> 0" using assms(2,3) by (simp_all add: V(1) pview_def)
  have w: "in_window buf (Suc (length old))" "in_window buf (length old)" "in_window buf (length args)" "in_window buf (Suc (length args))"
    using old(2) by (auto simp: in_window_def)
  have nz: "buf \<noteq> 0" and small: "length old < 4194304" using w by (auto simp: in_window_def)
  have "cstr_at (view ?L s) buf old" using old(1) window_cstr [OF V(2) w(1)] by (simp add: V(1))
  then have n: "strlen (view ?L s) buf = Some (of_nat (length old))" by (rule strlen_cstr)
  obtain s1 m1 where s1: "store_bytes ?L buf (replicate (length old) 0) s = Some s1"
      "sees ?L (V\<lparr>pv_mem := write_bytes (pv_mem V) buf (replicate (length old) 0)\<rparr>) s1" "s1 = s\<lparr>ram := m1\<rparr>"
    using sees_store [OF assms(1), of buf "replicate (length old) 0"] w(2) by auto
  obtain s2 m2 where s2: "store_bytes ?L buf args s1 = Some s2"
      "sees ?L (V\<lparr>pv_mem := write_bytes (write_bytes (pv_mem V) buf (replicate (length old) 0)) buf args\<rparr>) s2" "s2 = s\<lparr>ram := m2\<rparr>"
    using sees_store [OF s1(2) w(3)] s1(3) by auto
  have e: "in_window (buf + of_nat (length args)) (length [0 :: u8])" using in_window_offset [OF w(4), of "length args"] by simp
  obtain s3 where s3: "store_bytes ?L (buf + of_nat (length args)) [0] s2 = Some s3"
      "sees ?L (V\<lparr>pv_mem := write_bytes (write_bytes (write_bytes (pv_mem V) buf (replicate (length old) 0)) buf args) (buf + of_nat (length args)) [0]\<rparr>) s3"
    using sees_store [OF s2(2) e] by auto
  have k: "strlen (array_mem ab) 0 = Some (of_nat (length args))" by (rule strlen_cstr [OF assms(4)])
  have "bytes_at (array_mem ab) 0 (length args) = args" using assms(4) by (simp add: cstr_at_def)
  moreover have "bytes_at (array_mem ab) 0 (length args) = map ab [0..<length args]"
    using assms(5) by (simp add: bytes_at_def array_mem_def unat_of_nat)
  ultimately have ma: "map ab [0..<length args] = args" by simp
  have "getargs ?L buf m s = Some (0, s3)" for m
    using n s1(1) s2(1) s3(1) k ma nz a small assms(5) by (simp add: getargs_def s1(3) array_mem_def unat_of_nat del: store_bytes.simps)
      (simp add: bind_eq_Some_conv split: option.splits)
  then show "ends ?L (getargs ?L buf (sint (of_int n :: u32)) s) 0
      (V\<lparr>pv_mem := write_bytes (write_bytes (pv_mem V) buf (replicate (length old) 0)) buf (args @ [0])\<rparr>)"
    using s3(2) by (simp add: ends_def write_bytes_append)
qed

text \<open>
  \<open>read\<close> on standard input. While the program waits, the handlers that run end with a finished line
  \<open>cs\<close>; \<open>V'\<close> is the view then, with the characters echoed. The rest of the buffer holds what the
  line buffer held.
\<close>

definition line_arrives :: "'a sys_state_scheme prog_env \<Rightarrow> prog_view \<Rightarrow> u8 list \<Rightarrow> prog_view \<Rightarrow> bool" where
  "line_arrives E V cs V' \<longleftrightarrow> 0 \<notin> set cs \<and> pv_mem V' = pv_mem V \<and> pv_block V' = pv_block V \<and> pv_files V' = pv_files V \<and>
     (\<forall>s. sees (env_layout E) V s \<longrightarrow> (\<exists>s1 zs. spin_until (\<lambda>s1. terminal_read_ready s1 (active_terminal s) = 1) (env_irqs E s) (sti s) = Some s1
        \<and> sees (env_layout E) V' s1 \<and> curr s1 = curr s \<and> active_terminal s1 = active_terminal s \<and> handed_over s1 (active_terminal s) = cs @ 0 # zs))"

lemma read_line_state:
  assumes "sees (env_layout E) V s" "std_fds (pv_block V)" "bs = map (\<lambda>k. print_buffer s1 (2050 * active_terminal s + k)) [0..<n]"
    and s1: "spin_until (\<lambda>s1. terminal_read_ready s1 (active_terminal s) = 1) (env_irqs E s) (sti s) = Some s1" "sees (env_layout E) V' s1"
      "curr s1 = curr s" "active_terminal s1 = active_terminal s" "pv_block V' = pv_block V"
    and bs: "take (Suc (length cs)) bs = cs @ [0]" "0 \<notin> set cs" and "length cs < n" "n \<le> 2050" "in_window buf n"
  shows "ends (env_layout E) (ece391_read E 0 buf (int n) s) (int (length cs))
    (V'\<lparr>pv_mem := write_bytes (pv_mem V') buf bs, pv_ready := 0, pv_block := advanced 0 (int (length cs)) (pv_block V)\<rparr>)"
proof -
  let ?L = "env_layout E" and ?t = "active_terminal s"
  have V: "V = pview s" and t: "?t < 3" using assms(1) by (auto simp: sees_def prog_ok_def console_ok_def)
  have b: "pv_block V = pcbs s (curr s)" by (simp add: V pview_def)
  have f: "flag (file_array (pcbs s (curr s)) 0) = 1" "fop_read (file_array (pcbs s (curr s)) 0) = Terminal_read_wrap"
    using assms(2) by (simp_all add: std_fds_def b)
  have len: "length bs = n" by (simp add: assms(3))
  obtain s2 m where s2: "store_bytes ?L buf bs s1 = Some s2" "sees ?L (V'\<lparr>pv_mem := write_bytes (pv_mem V') buf bs\<rparr>) s2" "s2 = s1\<lparr>ram := m\<rparr>"
    using sees_store [OF s1(2), of buf bs] assms(13) len by auto
  let ?s = "s2\<lparr>terminal_read_ready := (terminal_read_ready s1)(?t := 0)\<rparr>"
  have "terminal_read_ready s2 = terminal_read_ready s1" "active_terminal s2 = ?t" by (simp_all add: s2(3) s1(4))
  then have sees3: "sees ?L (V'\<lparr>pv_mem := write_bytes (pv_mem V') buf bs, pv_ready := 0\<rparr>) ?s" using sees_ready [OF s2(2), of ?t 0] by simp
  have w: "in_window buf (Suc (length cs))" and n: "n \<le> 4294967296" "n < 4294967296" and nz: "buf \<noteq> 0" using assms(11,13) by (auto simp: in_window_def)
  have "bytes_at (write_bytes (pv_mem V') buf bs) buf n = bs" using bytes_at_write_bytes [of bs] n len by simp
  then have BB: "bytes_at (write_bytes (pv_mem V') buf bs) buf n = cs @ 0 # drop (Suc (length cs)) bs"
    using bs(1) by (metis append_Cons append_Nil append_assoc append_take_drop_id)
  have mm: "write_bytes (pv_mem V') buf bs = pv_mem (pview ?s)" "user_mapped ?L (curr ?s) ?s"
    using sees3 by (auto simp: sees_def prog_ok_def)
  from BB have "cstr_at (write_bytes (pv_mem V') buf bs) buf cs" using bs(2) by (rule cstr_at_bytes) (rule n(2))
  then have "cstr_at (view ?L ?s) buf cs" unfolding window_cstr [OF mm(2) w] mm(1) [symmetric] .
  then have "strlen (view ?L ?s) buf = Some (of_nat (length cs))" by (rule strlen_cstr)
  moreover have "sint (of_nat (length cs) :: u32) = int (length cs)" using assms(11,12) by (intro sint_small) simp
  moreover have "terminal_read_ready s2 = terminal_read_ready s1" by (simp add: s2(3))
  ultimately have "terminal_read ?L (env_irqs E s) buf (int n) s = Some (int (length cs), ?s)"
    using s1(1) s2(1) assms(12) t by (simp add: terminal_read_def get_active_terminal_def Let_def sti_def assms(3))
  moreover have "sint (of_int (int n) :: u32) = int n" using assms(12) by (intro sint_of_int32) simp_all
  ultimately have "sys_read ?L dev (env_irqs E s) 0 buf (of_int (int n)) s = Some (int (length cs), set_pcb (curr s) (advanced 0 (int (length cs))) ?s)" for dev
    using nz f by (simp add: sys_read_def call_op_def terminal_read_wrap_def Let_def advanced_def [abs_def])
  moreover have "sees ?L (V'\<lparr>pv_mem := write_bytes (pv_mem V') buf bs, pv_ready := 0, pv_block := advanced 0 (int (length cs)) (pv_block V)\<rparr>)
      (set_pcb (curr s) (advanced 0 (int (length cs))) ?s)"
    using sees3 by (rule sees_set_pcb') (simp_all add: s2(3) s1(3,5))
  ultimately show ?thesis
    by (intro ends_sys_read) (simp_all add: ends_def)
qed

lemma ends_read_line:
  assumes "sees (env_layout E) V s" "std_fds (pv_block V)" "line_arrives E V cs V'"
    and "length cs < n" "n \<le> 2050" "in_window buf n"
  shows "\<exists>bs. length bs = n \<and> take (Suc (length cs)) bs = cs @ [0] \<and> ends (env_layout E) (ece391_read E 0 buf (int n) s) (int (length cs))
    (V'\<lparr>pv_mem := write_bytes (pv_mem V') buf bs, pv_ready := 0, pv_block := advanced 0 (int (length cs)) (pv_block V)\<rparr>)"
proof -
  let ?L = "env_layout E" and ?t = "active_terminal s"
  obtain s1 zs where s1: "spin_until (\<lambda>s1. terminal_read_ready s1 ?t = 1) (env_irqs E s) (sti s) = Some s1"
      "sees ?L V' s1" "curr s1 = curr s" "active_terminal s1 = ?t" "handed_over s1 ?t = cs @ 0 # zs" and cs: "0 \<notin> set cs" "pv_block V' = pv_block V"
    using assms(1,3) unfolding line_arrives_def by metis
  let ?bs = "map (\<lambda>k. print_buffer s1 (2050 * ?t + k)) [0..<n]"
  have len: "length (handed_over s1 ?t) = 129" by (simp add: handed_over_def)
  then have lt: "length cs < 129" unfolding s1(5) by simp
  have "take (Suc (length cs)) ?bs = take (Suc (length cs)) (handed_over s1 ?t)"
    using lt assms(4) by (simp add: handed_over_def take_map)
  then have bs: "take (Suc (length cs)) ?bs = cs @ [0]" by (simp add: s1(5))
  show ?thesis
    using read_line_state [OF assms(1,2) refl s1(1-4) cs(2) bs cs(1) assms(4-6)] bs by (intro exI [of _ ?bs]) simp
qed

text \<open>\<open>execute\<close> of a command that names no file: the command line is parsed, and that is all.\<close>

lemma ends_execute_unknown:
  assumes "sees (env_layout E) V s" "pv_files V = fs_core s0" "cstr_at (pv_mem V) a cs" "in_window a (Suc (length cs))"
    and "length (name_of cs) \<le> 128" "length (args_of cs) \<le> 129" "dir_lookup s0 (name_of cs) = None"
  shows "\<exists>ar. ends (env_layout E) (ece391_execute E a s) (-1) (V\<lparr>pv_args := ar\<rparr>)"
proof -
  let ?L = "env_layout E" and ?s = "parsed cs (cli s)"
  have V: "V = pview s" "user_mapped ?L (curr s) s" using assms(1) by (auto simp: sees_def prog_ok_def)
  have a: "a \<noteq> 0" using assms(4) by (auto simp: in_window_def)
  have "fs_core s = fs_core s0" using assms(2) by (simp add: V(1) pview_def)
  then have fs: "fs_core ?s = fs_core s0" by (simp add: parsed_def fs_core_def cli_def)
  have cstr: "cstr_at (view ?L s) a cs" using assms(3) window_cstr [OF V(2) assms(4)] by (simp add: V(1))
  then have "0 \<notin> set (name_of cs)" by (auto simp: cstr_at_def name_of_def dest: set_takeWhileD)
  then have "field_string (array_mem (arr (name_of cs))) 0 32 = take 32 (name_of cs)" by (intro field_string_arr) simp_all
  then have "read_dentry_by_name (array_mem (arr (name_of cs))) 0 ?s = None"
    using assms(7) by (simp add: lookup_field fs_core_dir(3) [OF fs])
  then have "verify_file (view ?L s) a stk (cli s) = Some (None, ?s)" for stk
    by (simp add: verify_file_spec [OF cstr a assms(5,6)] check_file_def)
  then have "execute ?L stk regs a s = Some (Returned (-1), ?s)" for stk regs
    using a by (simp add: execute_def execute_with_terminal_num_def)
  moreover have "sees ?L (V\<lparr>pv_args := (argBuf ?s, argSize ?s)\<rparr>) ?s"
    using assms(1) by (auto simp: sees_def prog_ok_def pview_def parsed_def user_mapped_def address_space_def console_ok_def fs_core_def vterm_of_def page_of_def cli_def)
  ultimately show ?thesis
    by (intro exI [of _ "(argBuf ?s, argSize ?s)"]) (simp add: ends_def ece391_execute_def DO_CALL_def int_80_def syscall_asm_def)
qed

text \<open>The literals of a program, and the program's own stores.\<close>

declare length_chars [simp]

definition has_lit :: "'s prog_env \<Rightarrow> memory \<Rightarrow> string \<Rightarrow> bool" where
  "has_lit E m cs \<longleftrightarrow> cstr_at m (env_lit E cs) (chars cs) \<and> in_window (env_lit E cs) (Suc (length cs))"

lemma has_lit_write:
  assumes "has_lit E m cs" "region buf (length bs) \<inter> region (env_lit E cs) (Suc (length cs)) = {}" "length bs \<le> 4294967296"
  shows "has_lit E (write_bytes m buf bs) cs"
proof -
  have n: "length (chars cs) = length cs" "Suc (length cs) \<le> 4294967296" using assms(1) by (simp_all add: has_lit_def chars_def in_window_def)
  have m: "write_bytes m buf bs x = m x" if "x \<in> region (env_lit E cs) (Suc (length cs))" for x
    using that assms(2,3) by (intro write_bytes_outside) blast+
  have "write_bytes m buf bs (env_lit E cs + of_nat k) = m (env_lit E cs + of_nat k)" if "k < Suc (length cs)" for k
    using that n by (intro m) (simp add: in_region_offset)
  moreover from this have "bytes_at (write_bytes m buf bs) (env_lit E cs) (length cs) = bytes_at m (env_lit E cs) (length cs)"
    unfolding bytes_at_def by (intro map_cong) simp_all
  ultimately show ?thesis using assms(1) by (simp add: has_lit_def cstr_at_def n(1))
qed

lemma leaves_put:
  assumes "sees (env_layout E) V s" "std_fds (pv_block V)" "has_lit E (pv_mem V) cs" "length cs < 2050"
  shows "leaves (env_layout E) (ece391_fdputs E 1 (env_lit E cs) s) (pv_type (chars cs) V)"
proof -
  have "length (chars cs) = length cs" by (simp add: chars_def)
  then show ?thesis using assms by (intro ends_fdputs) (simp_all add: has_lit_def)
qed


lemma leaves_store:
  assumes "sees L V s" "in_window a (Suc 0)"
  shows "leaves L (store_byte L a c s) (V\<lparr>pv_mem := (pv_mem V)(a := c)\<rparr>)"
proof -
  obtain s' where "store_bytes L a [c] s = Some s'" "sees L (V\<lparr>pv_mem := write_bytes (pv_mem V) a [c]\<rparr>) s'"
    using sees_store [OF assms(1), of a "[c]"] assms(2) by auto
  then show ?thesis by (auto simp: leaves_def bind_eq_Some_conv)
qed

end
