(* ===== verification/User_Programs.thy ===== *)
theory User_Programs
  imports User_Calls
begin

text \<open>
  Programs of \<open>syscalls\<close>: \<open>cat\<close>, \<open>ls\<close>, \<open>hello\<close>, \<open>testprint\<close>, \<open>counter\<close> and the shell, translated call by
  call over the kernel's model, and what they print. \<open>buf\<close> is the address of the local buffer.
  A main loop that depends on the file or on the user may run for ever and is an option; the
  properties say when it ends.
\<close>

section \<open>Programs\<close>

definition ln :: "string \<Rightarrow> string" where
  "ln cs = cs @ [CHR 0x0A]"

abbreviation put :: "'a sys_state_scheme prog_env \<Rightarrow> string \<Rightarrow> 'a sys_state_scheme \<Rightarrow> 'a sys_state_scheme option" where
  "put E cs s \<equiv> ece391_fdputs E 1 (env_lit E cs) s"

definition testprint_main :: "'a sys_state_scheme prog_env \<Rightarrow> 'a sys_state_scheme \<Rightarrow> (int \<times> 'a sys_state_scheme) option" where
  "testprint_main E s = do { s \<leftarrow> put E (ln ''Hello, if this ran, the program was correct. Yay!'') s; Some (0, s) }"

definition hello_main :: "'a sys_state_scheme prog_env \<Rightarrow> u32 \<Rightarrow> 'a sys_state_scheme \<Rightarrow> (int \<times> 'a sys_state_scheme) option" where
  "hello_main E buf s =
     do { s \<leftarrow> put E ''Hi, what's your name? '' s;
          (cnt, s) \<leftarrow> ece391_read E 0 buf 1023 s;
          if cnt = -1 then do { s \<leftarrow> put E (ln ''Can't read name from keyboard.'') s; Some (3, s) }
          else do {
            s \<leftarrow> store_byte (env_layout E) (buf + of_int cnt) 0 s;
            s \<leftarrow> put E ''Hello, '' s;
            s \<leftarrow> ece391_fdputs E 1 buf s;
            Some (0, s) } }"

partial_function (option) cat_loop ::
  "'a sys_state_scheme prog_env \<Rightarrow> int \<Rightarrow> u32 \<Rightarrow> 'a sys_state_scheme \<Rightarrow> (int \<times> 'a sys_state_scheme) option" where
  "cat_loop E fd buf s =
     do { (cnt, s) \<leftarrow> ece391_read E fd buf 1024 s;
          if cnt = 0 then Some (0, s)
          else if cnt = -1 then do { s \<leftarrow> put E (ln ''file read failed'') s; Some (3, s) }
          else do {
            (w, s) \<leftarrow> ece391_write E 1 buf cnt s;
            if w = -1 then Some (3, s) else cat_loop E fd buf s } }"

definition cat_main :: "'a sys_state_scheme prog_env \<Rightarrow> u32 \<Rightarrow> 'a sys_state_scheme \<Rightarrow> (int \<times> 'a sys_state_scheme) option" where
  "cat_main E buf s =
     do { (r, s) \<leftarrow> ece391_getargs E buf 1024 s;
          if r \<noteq> 0 then do { s \<leftarrow> put E (ln ''could not read arguments'') s; Some (3, s) }
          else do {
            (fd, s) \<leftarrow> ece391_open E buf s;
            if fd = -1 then do { s \<leftarrow> put E (ln ''file not found'') s; Some (2, s) }
            else cat_loop E fd buf s } }"

partial_function (option) ls_loop ::
  "'a sys_state_scheme prog_env \<Rightarrow> int \<Rightarrow> u32 \<Rightarrow> 'a sys_state_scheme \<Rightarrow> (int \<times> 'a sys_state_scheme) option" where
  "ls_loop E fd buf s =
     do { (cnt, s) \<leftarrow> ece391_read E fd buf 32 s;
          if cnt = 0 then Some (0, s)
          else if cnt = -1 then do { s \<leftarrow> put E (ln ''directory entry read failed'') s; Some (3, s) }
          else do {
            s \<leftarrow> store_byte (env_layout E) (buf + of_int cnt) 0x0A s;
            (w, s) \<leftarrow> ece391_write E 1 buf (cnt + 1) s;
            if w = -1 then Some (3, s) else ls_loop E fd buf s } }"

definition ls_main :: "'a sys_state_scheme prog_env \<Rightarrow> u32 \<Rightarrow> 'a sys_state_scheme \<Rightarrow> (int \<times> 'a sys_state_scheme) option" where
  "ls_main E buf s =
     do { (fd, s) \<leftarrow> ece391_open E (env_lit E ''.'') s;
          if fd = -1 then do { s \<leftarrow> put E (ln ''directory open failed'') s; Some (2, s) }
          else ls_loop E fd buf s }"

text \<open>\<open>itoa\<close> leaves a string in the buffer and changes nothing else, so that string is what is stored.\<close>

partial_function (option) counter_loop ::
  "'a sys_state_scheme prog_env \<Rightarrow> u32 \<Rightarrow> u32 \<Rightarrow> u32 \<Rightarrow> 'a sys_state_scheme \<Rightarrow> (int \<times> 'a sys_state_scheme) option" where
  "counter_loop E buf mx i s =
     (if i < mx then do {
        m \<leftarrow> ece391_itoa (i + 1) (view (env_layout E) s) buf 10;
        n \<leftarrow> ece391_strlen m buf;
        s \<leftarrow> store_bytes (env_layout E) buf (bytes_at m buf (Suc (unat n))) s;
        s \<leftarrow> ece391_fdputs E 1 buf s;
        s \<leftarrow> put E (ln []) s;
        counter_loop E buf mx (i + 1) s }
      else Some (0, s))"

definition counter_main :: "'a sys_state_scheme prog_env \<Rightarrow> u32 \<Rightarrow> 'a sys_state_scheme \<Rightarrow> (int \<times> 'a sys_state_scheme) option" where
  "counter_main E buf s =
     do { s \<leftarrow> put E (ln ''Enter the Test Number: (0): 100, (1): 10000, (2): 100000'') s;
          (cnt, s) \<leftarrow> ece391_read E 0 buf 1023 s;
          if cnt = -1 then do { s \<leftarrow> put E (ln ''Can't read the number from keyboard.'') s; Some (3, s) }
          else do {
            s \<leftarrow> store_byte (env_layout E) (buf + of_int cnt) 0 s;
            n \<leftarrow> ece391_strlen (view (env_layout E) s) buf;
            let c = view (env_layout E) s buf;
            if n > 2 \<or> n = 2 \<and> (c < 48 \<or> c > 50) then do { s \<leftarrow> put E (ln ''Wrong Choice!'') s; Some (0, s) }
            else
              let mx = (if c = 48 then 100 else if c = 49 then 10000 else if c = 50 then 100000 else 0)
              in counter_loop E buf mx 0 s } }"

partial_function (option) shell_loop ::
  "'a sys_state_scheme prog_env \<Rightarrow> u32 \<Rightarrow> 'a sys_state_scheme \<Rightarrow> (int \<times> 'a sys_state_scheme) option" where
  "shell_loop E buf s =
     do { s \<leftarrow> put E ''391OS> '' s;
          (cnt, s) \<leftarrow> ece391_read E 0 buf 1023 s;
          if cnt = -1 then do { s \<leftarrow> put E (ln ''read from keyboard failed'') s; Some (3, s) }
          else do {
            let cnt = (if cnt > 0 \<and> view (env_layout E) s (buf + of_int (cnt - 1)) = 10 then cnt - 1 else cnt);
            s \<leftarrow> store_byte (env_layout E) (buf + of_int cnt) 0 s;
            d \<leftarrow> ece391_strcmp (view (env_layout E) s) buf (view (env_layout E) s) (env_lit E ''exit'');
            if d = 0 then Some (0, s)
            else if view (env_layout E) s buf = 0 then shell_loop E buf s
            else do {
              (rval, s) \<leftarrow> ece391_execute E buf s;
              s \<leftarrow> (if rval = -1 then put E (ln ''no such command'') s
                    else if rval = 256 then put E (ln ''program terminated by exception'') s
                    else if rval \<noteq> 0 then put E (ln ''program terminated abnormally'') s
                    else Some s);
              shell_loop E buf s } } }"

definition shell_main :: "'a sys_state_scheme prog_env \<Rightarrow> u32 \<Rightarrow> 'a sys_state_scheme \<Rightarrow> (int \<times> 'a sys_state_scheme) option" where
  "shell_main E buf s = do { s \<leftarrow> put E (ln ''Starting 391 Shell'') s; shell_loop E buf s }"

section \<open>cat\<close>

lemma std_fds_other: "std_fds b \<Longrightarrow> 2 \<le> i \<Longrightarrow> std_fds (opened i d b) \<and> std_fds (advanced i n b)"
  by (simp add: std_fds_def opened_def advanced_def set_fd_def set_bitmap_def)

text \<open>
  The loop of \<open>cat\<close> with \<open>k\<close> full reads to go: every read delivers \<open>step\<close> bytes, also the one that
  reaches over the end of the file.
\<close>

lemma cat_loop_prints:
  fixes E :: "'a sys_state_scheme prog_env" and s0 :: "'a sys_state_scheme"
  assumes step: "step = min 1024 (inode_length s0 ino)" and ino: "valid_inode s0 ino" "inode_length s0 ino < 2147482624"
    and fd: "2 \<le> i" "i < 8" and buf: "in_window buf 1024"
    and last: "inode_length s0 ino \<le> pos + k * step" "0 < k \<longrightarrow> pos + k * step < inode_length s0 ino + step"
    and s: "sees (env_layout E) V s" "pv_files V = fs_core s0" "std_fds (pv_block V)"
    and f: "f = file_array (pv_block V) i" "flag f \<noteq> 0" "fop_read f = Read_f_wrapper" "fd_inode f = sint ino" "file_pos f = int pos"
    and "pos < 2147483648"
  shows "\<exists>V'. ends (env_layout E) (cat_loop E (int i) buf s) 0 V'
    \<and> pv_screen V' = fold v_putc (map (file_byte s0 ino) [pos..<pos + k * step]) (pv_screen V)"
proof -
  show ?thesis
    using last s f assms(17)
  proof (induction k arbitrary: pos V s f)
    case 0
    let ?V = "V\<lparr>pv_mem := write_bytes (pv_mem V) buf (map (file_byte s0 ino) [pos..<pos + 0]), pv_block := advanced i (int 0) (pv_block V)\<rparr>"
    have "ends (env_layout E) (ece391_read E (int i) buf (int 1024) s) (int 0) ?V"
      using 0(1) by (intro ends_read_file [OF 0(3,4,6-10) fd(2) 0(11) ino(1) _ _ buf]) (use ino(2) in simp_all)
    then have "ends (env_layout E) (cat_loop E (int i) buf s) 0 ?V"
      unfolding cat_loop.simps [of E "int i" buf s] by (intro ends_bind [where r = 0]) (auto intro: ends_return)
    then show ?case by (intro exI [of _ ?V]) simp
  next
    case (Suc k)
    let ?L = "env_layout E" and ?n = "inode_length s0 ino"
    have pos: "pos < ?n" "0 < ?n" "0 < step" using Suc.prems(2) by (auto simp: step)
    let ?bs = "map (file_byte s0 ino) [pos..<pos + step]"
    let ?V1 = "V\<lparr>pv_mem := write_bytes (pv_mem V) buf ?bs, pv_block := advanced i (int step) (pv_block V)\<rparr>"
    let ?V2 = "pv_type ?bs ?V1"
    have len: "length ?bs = step" "step \<le> 1024" by (simp_all add: step)
    have r: "ends ?L (ece391_read E (int i) buf (int 1024) s) (int step) ?V1"
      using pos(1) by (intro ends_read_file [OF Suc.prems(3,4,6-10) fd(2) Suc.prems(11) ino(1) _ _ buf]) (use ino(2) in \<open>simp_all add: step\<close>)
    have b: "bytes_at (write_bytes (pv_mem V) buf ?bs) buf step = ?bs"
      using bytes_at_write_bytes [of ?bs "pv_mem V" buf] len by simp
    have std: "std_fds (pv_block ?V1)" using std_fds_other [OF Suc.prems(5) fd(1)] by simp
    have w: "ends ?L (ece391_write E 1 buf (int step) s') (int step) ?V2" if "sees ?L ?V1 s'" for s'
    proof -
      have "in_window buf step" using buf len(2) by (simp add: in_window_def)
      from ends_write_out [OF that std _ this] show ?thesis using len(2) b by simp
    qed
    have IH: "\<exists>V'. ends ?L (cat_loop E (int i) buf s'') 0 V'
        \<and> pv_screen V' = fold v_putc (map (file_byte s0 ino) [pos + step..<pos + step + k * step]) (pv_screen ?V2)" if "sees ?L ?V2 s''" for s''
    proof (rule Suc.IH [OF _ _ that, where f = "file_array (pv_block ?V2) i"])
      show "?n \<le> pos + step + k * step" "0 < k \<longrightarrow> pos + step + k * step < ?n + step" using Suc.prems(1,2) by simp_all
      show "pos + step < 2147483648" using pos(1) ino(2) len(2) by simp
    qed (use Suc.prems(4,6-10) std in \<open>simp_all add: advanced_def\<close>)
    obtain s1 where s1: "ece391_read E (int i) buf 1024 s = Some (int step, s1)" "sees ?L ?V1 s1" using r by (auto simp: ends_def)
    obtain s2 where s2: "ece391_write E 1 buf (int step) s1 = Some (int step, s2)" "sees ?L ?V2 s2" using w [OF s1(2)] by (auto simp: ends_def)
    have "cat_loop E (int i) buf s = cat_loop E (int i) buf s2"
      unfolding cat_loop.simps [of E "int i" buf s] using s1(1) s2(1) pos(3) by simp
    moreover have "[pos..<pos + Suc k * step] = [pos..<pos + step] @ [pos + step..<pos + step + k * step]"
      using upt_add_eq_append [of pos "pos + step" "k * step"] by (simp add: add.assoc)
    ultimately show ?case using IH [OF s2(2)] by auto
  qed
qed

lemma cstr_written: "0 \<notin> set cs \<Longrightarrow> length cs < 4194304 \<Longrightarrow> cstr_at (write_bytes m a (cs @ [0])) a cs"
  using bytes_at_write_bytes [of "cs @ [0]" m a] by (intro cstr_at_bytes [of _ _ "Suc (length cs)" _ "[]"]) simp_all

lemma opened_file:
  assumes "ftype d = 2"
  shows "flag (file_array (opened i d b) i) = 1" "fop_read (file_array (opened i d b) i) = Read_f_wrapper"
    "fd_inode (file_array (opened i d b) i) = sint (inode d)" "file_pos (file_array (opened i d b) i) = 0"
  using assms by (simp_all add: opened_def fops_of_def)

lemma free_desc_exists: "i \<in> {2..<8} \<Longrightarrow> bm i = 0 \<Longrightarrow> \<exists>j. free_desc bm = int j \<and> 2 \<le> j \<and> j < 8"
  using desc.alloc_succeeds [of i bm] desc.alloc_lowest [of bm] by auto

text \<open>
  C19: \<open>cat\<close> prints the file it is given. Run with the name of a regular file as its argument, it
  returns 0 and has typed the file's bytes, in order, on the terminal it runs on. When the file
  is longer than the 1024-byte buffer and its length is not a multiple of that, the last read
  reaches over the end of the file and is not cut there (\<open>read_data\<close>), so that \<open>cat\<close> goes on with
  the bytes behind the file up to the next multiple of 1024.
\<close>

theorem cat_prints_file:
  assumes "prog_ok (env_layout E) s" and "std_fds (pcbs s (curr s))"
    and "argSize s \<noteq> 0" and "cstr_at (array_mem (argBuf s)) 0 name" and "length name < 129"
    and "dir_lookup s name = Some d" and "ftype d = 2" and "valid_inode s (inode d)"
    and "n = inode_length s (inode d)" and "n < 2147482624"
    and "i \<in> {2..<8}" and "bitmap (pcbs s (curr s)) i = 0"
    and "in_window buf 1024" and "cstr_at (view (env_layout E) s) buf old" and "length old < 1024"
  shows "\<exists>s'. cat_main E buf s = Some (0, s') \<and> prog_ok (env_layout E) s'
    \<and> vterm_of s' (active_terminal s') = fold v_putc (file_contents s (inode d) @
        (if n < 1024 then [] else map (file_byte s (inode d)) [n..<1024 * ((n + 1023) div 1024)])) (vterm_of s (active_terminal s))"
proof -
  let ?L = "env_layout E" and ?V = "pview s" and ?ino = "inode d"
  define step k where "step = min 1024 n" and "k = (if n < 1024 then min n 1 else (n + 1023) div 1024)"
  have total: "n \<le> k * step" "0 < k \<longrightarrow> k * step < n + step"
    using div_mult_mod_eq [of "n + 1023" 1024] by (auto simp: step_def k_def)
  have s: "sees ?L ?V s" using assms(1) by (simp add: sees_def)
  have name: "0 \<notin> set name" using assms(4) by (simp add: cstr_at_def)
  have w: "in_window buf (Suc (max (length old) (length name)))" "in_window buf (Suc (length old))" "in_window buf (Suc (length name))"
    using assms(5,13,15) by (auto simp: in_window_def)
  have mapped: "user_mapped ?L (curr s) s" using assms(1) by (simp add: prog_ok_def)
  have old: "cstr_at (pv_mem ?V) buf old" using assms(14) window_cstr [OF mapped w(2)] by simp
  let ?V1 = "?V\<lparr>pv_mem := write_bytes (write_bytes (pv_mem ?V) buf (replicate (length old) 0)) buf (name @ [0])\<rparr>"
  obtain s1 where s1: "ece391_getargs E buf 1024 s = Some (0, s1)" "sees ?L ?V1 s1"
    using ends_getargs [OF s _ assms(3-5) old w(1), of 1024] by (auto simp: pview_def ends_def)
  obtain j where j: "free_desc (bitmap (pcbs s (curr s))) = int j" "2 \<le> j" "j < 8" using free_desc_exists [of i "bitmap (pcbs s (curr s))"] assms(11,12) by blast
  let ?V2 = "?V1\<lparr>pv_dir := if ftype d = 1 then 0 else pv_dir ?V1, pv_block := opened j d (pv_block ?V1)\<rparr>"
  have "cstr_at (pv_mem ?V1) buf name" using cstr_written [OF name] assms(5) by simp
  from ends_open(1) [OF s1(2) _ this w(3) assms(6), of j] obtain s2 where s2: "ece391_open E buf s1 = Some (int j, s2)" "sees ?L ?V2 s2"
    using j(1) by (auto simp: pview_def ends_def)
  have "\<exists>V'. ends ?L (cat_loop E (int j) buf s2) 0 V' \<and> pv_screen V' = fold v_putc (map (file_byte s ?ino) [0..<0 + k * step]) (pv_screen ?V2)"
    using total assms(2,7,9,10) j opened_file [OF assms(7)] std_fds_other [of "pcbs s (curr s)" j d]
    by (intro cat_loop_prints [OF _ assms(8) _ j(2,3) assms(13) _ _ s2(2) _ _ refl]) (simp_all add: step_def pview_def)
  then obtain s3 V' where s3: "cat_loop E (int j) buf s2 = Some (0, s3)" "prog_ok ?L s3" "pview s3 = V'"
      "pv_screen V' = fold v_putc (map (file_byte s ?ino) [0..<k * step]) (vterm_of s (active_terminal s))"
    by (auto simp: ends_def sees_def pview_def)
  have "cat_main E buf s = Some (0, s3)" using s1(1) s2(1) s3(1) by (simp add: cat_main_def)
  moreover have "map (file_byte s ?ino) [0..<k * step] = file_contents s ?ino @ (if n < 1024 then [] else map (file_byte s ?ino) [n..<1024 * ((n + 1023) div 1024)])"
  proof (cases "n < 1024")
    case True
    then have "k * step = n" by (auto simp: k_def step_def min_def)
    then show ?thesis using True by (simp add: file_contents_def flip: assms(9))
  next
    case False
    then have "k * step = 1024 * ((n + 1023) div 1024)" by (simp add: k_def step_def mult.commute)
    moreover have "[0..<k * step] = [0..<n] @ [n..<k * step]" using upt_add_eq_append [of 0 n "k * step - n"] total(1) by simp
    ultimately show ?thesis using False by (simp add: file_contents_def flip: assms(9))
  qed
  ultimately show ?thesis using s3 by (auto simp: pview_def)
qed

section \<open>ls\<close>

lemma ls_loop_prints:
  fixes E :: "'a sys_state_scheme prog_env" and s0 :: "'a sys_state_scheme"
  assumes num: "num_dentry s0 = int N" "N < 2147483648" and fd: "2 \<le> i" "i < 8" and buf: "in_window buf 33"
    and "j \<le> N" "pv_dir V = int j" and s: "sees (env_layout E) V s" "pv_files V = fs_core s0" "std_fds (pv_block V)"
    and f: "flag (file_array (pv_block V) i) \<noteq> 0" "fop_read (file_array (pv_block V) i) = Read_dir_wrapper"
  shows "\<exists>V'. ends (env_layout E) (ls_loop E (int i) buf s) 0 V'
    \<and> pv_screen V' = fold v_putc (concat (map (\<lambda>nm. nm @ [10]) (drop j (dir_names s0)))) (pv_screen V)"
  using assms(6-)
proof (induction "N - j" arbitrary: j V s)
  case 0
  let ?V = "V\<lparr>pv_block := advanced i 0 (pv_block V)\<rparr>"
  have j: "j = N" using 0 by simp
  have w: "in_window buf 32" using buf by (simp add: in_window_def)
  have "ends (env_layout E) (ece391_read E (int i) buf 32 s) 0 ?V"
    using num j 0 by (intro ends_read_dir(2) [OF 0(4,5) refl 0(7,8) fd(2) _ _ _ _ w]) simp_all
  then obtain s1 where "ece391_read E (int i) buf 32 s = Some (0, s1)" "sees (env_layout E) ?V s1" by (auto simp: ends_def)
  then have "ends (env_layout E) (ls_loop E (int i) buf s) 0 ?V"
    unfolding ls_loop.simps [of E "int i" buf s] by (simp add: ends_def)
  moreover have "drop j (dir_names s0) = []" using num j by (simp add: dir_names_def)
  ultimately show ?case by (intro exI [of _ ?V]) simp
next
  case (Suc k)
  let ?L = "env_layout E" and ?nm = "fname (dentry_at s0 j)"
  have j: "j < N" "k = N - (j + 1)" using Suc.hyps(2) by simp_all
  have len: "length ?nm = 32" by (simp add: dentry_at_def Let_def)
  have w: "in_window buf 32" using buf by (simp add: in_window_def)
  let ?V1 = "V\<lparr>pv_dir := int j + 1, pv_mem := write_bytes (pv_mem V) buf ?nm, pv_block := advanced i 32 (pv_block V)\<rparr>"
  have "ends ?L (ece391_read E (int i) buf 32 s) 32 ?V1"
    using num j Suc.prems(2) by (intro ends_read_dir(1) [OF Suc.prems(3,4) refl Suc.prems(6,7) fd(2) _ _ _ _ w]) simp_all
  then obtain s1 where s1: "ece391_read E (int i) buf 32 s = Some (32, s1)" "sees ?L ?V1 s1" by (auto simp: ends_def)
  have w1: "in_window (buf + 32) (Suc 0)" using in_window_offset [OF buf, of 32] by simp
  let ?V2 = "?V1\<lparr>pv_mem := write_bytes (pv_mem V) buf (?nm @ [10])\<rparr>"
  obtain s2 where s2: "store_byte ?L (buf + 32) 10 s1 = Some s2" "sees ?L ?V2 s2"
    using leaves_store [OF s1(2) w1, of 10] by (auto simp: leaves_def write_bytes_append len)
  have b: "bytes_at (pv_mem ?V2) buf 33 = ?nm @ [10]" using bytes_at_write_bytes [of "?nm @ [10]" "pv_mem V" buf] len by simp
  have std: "std_fds (pv_block ?V2)" using std_fds_other [OF Suc.prems(5) fd(1)] by simp
  let ?V3 = "pv_type (?nm @ [10]) ?V2"
  obtain s3 where s3: "ece391_write E 1 buf 33 s2 = Some (33, s3)" "sees ?L ?V3 s3"
    using ends_write_out [OF s2(2) std _ buf] b by (auto simp: ends_def)
  have IH: "\<exists>V'. ends ?L (ls_loop E (int i) buf s3) 0 V'
      \<and> pv_screen V' = fold v_putc (concat (map (\<lambda>nm. nm @ [10]) (drop (j + 1) (dir_names s0)))) (pv_screen ?V3)"
    by (rule Suc.hyps(1) [OF j(2) _ _ s3(2)]) (use Suc.prems(4,6,7) std j(1) in \<open>simp_all add: advanced_def\<close>)
  have "ls_loop E (int i) buf s = ls_loop E (int i) buf s3"
    unfolding ls_loop.simps [of E "int i" buf s] using s1(1) s2(1) s3(1) by simp
  moreover have "drop j (dir_names s0) = ?nm # drop (j + 1) (dir_names s0)"
    using num j(1) by (subst Cons_nth_drop_Suc [symmetric]) (simp_all add: dir_names_def)
  ultimately show ?case using IH by auto
qed

lemma opened_dir:
  assumes "ftype d = 1"
  shows "flag (file_array (opened i d b) i) = 1" "fop_read (file_array (opened i d b) i) = Read_dir_wrapper"
  using assms by (simp_all add: opened_def fops_of_def)

text \<open>
  C20: \<open>ls\<close> lists the directory. Where the file system has a directory entry \<open>"."\<close>, \<open>ls\<close> returns 0 and
  has typed the 32 bytes of every name, each followed by a newline, in the order of the
  directory: all entries, each once.
\<close>

theorem ls_lists_directory:
  assumes "prog_ok (env_layout E) s" and "std_fds (pcbs s (curr s))"
    and "has_lit E (view (env_layout E) s) ''.''" and "dir_lookup s (chars ''.'') = Some d" and "ftype d = 1"
    and "num_dentry s < 2147483648" and "i \<in> {2..<8}" and "bitmap (pcbs s (curr s)) i = 0" and "in_window buf 33"
  shows "\<exists>s'. ls_main E buf s = Some (0, s') \<and> prog_ok (env_layout E) s'
    \<and> vterm_of s' (active_terminal s') = fold v_putc (concat (map (\<lambda>nm. nm @ [10]) (dir_names s))) (vterm_of s (active_terminal s))"
proof -
  let ?L = "env_layout E" and ?V = "pview s"
  have s: "sees ?L ?V s" and mapped: "user_mapped ?L (curr s) s" using assms(1) by (simp_all add: sees_def prog_ok_def)
  have n: "length (chars ''.'') = 1" by (simp add: chars_def)
  have w: "in_window (env_lit E ''.'') (Suc (length (chars ''.'')))" using assms(3) n by (simp add: has_lit_def)
  then have lit: "cstr_at (pv_mem ?V) (env_lit E ''.'') (chars ''.'')" using assms(3) window_cstr [OF mapped w] by (simp add: has_lit_def)
  obtain j where j: "free_desc (bitmap (pcbs s (curr s))) = int j" "2 \<le> j" "j < 8"
    using free_desc_exists [of i "bitmap (pcbs s (curr s))"] assms(7,8) by blast
  let ?V1 = "?V\<lparr>pv_dir := if ftype d = 1 then 0 else pv_dir ?V, pv_block := opened j d (pv_block ?V)\<rparr>"
  obtain s1 where s1: "ece391_open E (env_lit E ''.'') s = Some (int j, s1)" "sees ?L ?V1 s1"
    using ends_open(1) [OF s _ lit w assms(4), of j] j(1) by (auto simp: pview_def ends_def)
  have "dir_lookup s (chars ''.'') \<noteq> None" using assms(4) by simp
  then have "0 < num_dentry s" by (rule contrapos_np) (simp add: dir_lookup_def)
  then obtain N where N: "num_dentry s = int N" using zero_le_imp_eq_int by (metis less_imp_le)
  have "\<exists>V'. ends ?L (ls_loop E (int j) buf s1) 0 V' \<and> pv_screen V' = fold v_putc (concat (map (\<lambda>nm. nm @ [10]) (drop 0 (dir_names s)))) (pv_screen ?V1)"
    by (rule ls_loop_prints [OF N _ j(2,3) assms(9) _ _ s1(2)])
      (use N assms(2,5,6) opened_dir [OF assms(5)] std_fds_other [of "pcbs s (curr s)" j d] j(2) in \<open>simp_all add: pview_def\<close>)
  then obtain s2 where "ls_loop E (int j) buf s1 = Some (0, s2)" "prog_ok ?L s2"
      "pv_screen (pview s2) = fold v_putc (concat (map (\<lambda>nm. nm @ [10]) (dir_names s))) (pv_screen ?V)"
    by (auto simp: ends_def sees_def)
  then show ?thesis using s1(1) by (auto simp: ls_main_def pview_def)
qed

section \<open>Programs that read a line\<close>

text \<open>A line read into the buffer, and a NUL stored behind its first \<open>k\<close> characters.\<close>

lemma terminated_prefix:
  assumes "take (Suc (length cs)) bs = cs @ [0]" "k \<le> length cs" "length bs \<le> 4194304" "0 \<notin> set cs"
  shows "cstr_at ((write_bytes m a bs)(a + of_nat k := 0)) a (take k cs)"
proof -
  let ?m = "write_bytes m a bs"
  have "length (take (Suc (length cs)) bs) = Suc (length cs)" by (simp add: assms(1))
  then have len: "length cs < length bs" by simp
  have at: "?m (a + of_nat i) = cs ! i" if "i < length cs" for i
  proof -
    have "?m (a + of_nat i) = bytes_at ?m a (length bs) ! i" using that len by simp
    also have "\<dots> = take (Suc (length cs)) bs ! i" using assms(3) that by (simp del: nth_bytes_at)
    also have "\<dots> = cs ! i" using that by (simp add: assms(1) nth_append)
    finally show ?thesis .
  qed
  have ne: "a + of_nat i \<noteq> a + of_nat k" if "i < k" for i
  proof
    assume "a + of_nat i = a + of_nat k"
    then have "unat (of_nat i :: u32) = unat (of_nat k :: u32)" by simp
    then show False using that assms(2,3) len by (simp add: unat_of_nat)
  qed
  have "(?m(a + of_nat k := 0)) (a + of_nat i) = cs ! i" if "i < k" for i
    using at [of i] ne [OF that] that assms(2) by simp
  then have "bytes_at (?m(a + of_nat k := 0)) a k = take k cs"
    using assms(2) by (intro nth_equalityI) simp_all
  then show ?thesis using assms(2,3,4) len by (auto simp: cstr_at_def dest: in_set_takeD)
qed

lemma std_fds_advanced: "std_fds b \<Longrightarrow> std_fds (advanced i n b)"
  by (auto simp: std_fds_def advanced_def set_fd_def)

text \<open>A literal outside the buffer, and stores into the buffer.\<close>

definition lit_apart :: "'s prog_env \<Rightarrow> memory \<Rightarrow> u32 \<Rightarrow> nat \<Rightarrow> string \<Rightarrow> bool" where
  "lit_apart E m buf n cs \<longleftrightarrow> has_lit E m cs \<and> region buf n \<inter> region (env_lit E cs) (Suc (length cs)) = {}"

lemma lit_apart_write:
  assumes "lit_apart E m buf n l" "i + length bs \<le> n" "n \<le> 4194304"
  shows "lit_apart E (write_bytes m (buf + of_nat i) bs) buf n l"
proof -
  have "region (buf + of_nat i) (length bs) \<subseteq> region buf n"
    using region_add [of i "length bs" buf] region_mono [OF assms(2), of buf] assms(2,3) by auto
  then show ?thesis using assms by (auto simp: lit_apart_def intro!: has_lit_write)
qed

text \<open>The program prompts, the user types \<open>cs\<close>, and the program ends the line behind \<open>k\<close> characters.\<close>

lemma ask_line:
  assumes s: "sees (env_layout E) V s" "std_fds (pv_block V)" and p: "has_lit E (pv_mem V) p" "length p < 2050"
    and line: "line_arrives E (pv_type (chars p) V) cs V'" "length cs < 1023" and buf: "in_window buf 1024"
  shows "\<exists>s1 s2. put E p s = Some s1 \<and> ece391_read E 0 buf 1023 s1 = Some (int (length cs), s2)
    \<and> (\<forall>i<length cs. view (env_layout E) s2 (buf + of_nat i) = cs ! i)
    \<and> (\<forall>k\<le>length cs. \<exists>s3 V3. store_byte (env_layout E) (buf + of_nat k) 0 s2 = Some s3 \<and> sees (env_layout E) V3 s3
        \<and> cstr_at (pv_mem V3) buf (take k cs) \<and> pv_screen V3 = pv_screen V' \<and> std_fds (pv_block V3) \<and> pv_files V3 = pv_files V
        \<and> (\<forall>l. lit_apart E (pv_mem V) buf 1024 l \<longrightarrow> lit_apart E (pv_mem V3) buf 1024 l))"
proof -
  let ?L = "env_layout E"
  have cs: "0 \<notin> set cs" "pv_mem V' = pv_mem V" "pv_files V' = pv_files V" using line(1) by (simp_all add: line_arrives_def)
  obtain s1 where s1: "put E p s = Some s1" "sees ?L (pv_type (chars p) V) s1"
    using leaves_put [OF s p] by (auto simp: leaves_def)
  have w: "in_window buf 1023" using buf by (simp add: in_window_def)
  have std: "std_fds (pv_block (pv_type (chars p) V))" using s(2) by simp
  let ?V2 = "\<lambda>bs. V'\<lparr>pv_mem := write_bytes (pv_mem V) buf bs, pv_ready := 0, pv_block := advanced 0 (int (length cs)) (pv_block V)\<rparr>"
  obtain bs where bs: "length bs = 1023" "take (Suc (length cs)) bs = cs @ [0]"
      and "ends ?L (ece391_read E 0 buf (int 1023) s1) (int (length cs)) (?V2 bs)"
    using ends_read_line [OF s1(2) std line(1,2) _ w] by (auto simp: cs(2))
  then obtain s2 where s2: "ece391_read E 0 buf 1023 s1 = Some (int (length cs), s2)" "sees ?L (?V2 bs) s2"
    by (auto simp: ends_def)
  have V2: "pview s2 = ?V2 bs" "user_mapped ?L (curr s2) s2" using s2(2) by (auto simp: sees_def prog_ok_def)
  have "view ?L s2 (buf + of_nat i) = cs ! i" if "i < length cs" for i
  proof -
    have "cstr_at ((write_bytes (pv_mem V) buf bs)(buf + of_nat (length cs) := 0)) buf (take (length cs) cs)"
      using terminated_prefix [OF bs(2) order_refl] bs(1) cs(1) by simp
    then have "bytes_at ((write_bytes (pv_mem V) buf bs)(buf + of_nat (length cs) := 0)) buf (length cs) ! i = cs ! i"
      by (simp add: cstr_at_def)
    moreover have "buf + of_nat i \<noteq> buf + of_nat (length cs)"
    proof
      assume "buf + of_nat i = buf + of_nat (length cs)"
      then have "unat (of_nat i :: u32) = unat (of_nat (length cs) :: u32)" by simp
      then show False using that line(2) by (simp add: unat_of_nat)
    qed
    moreover have "in_window (buf + of_nat i) (Suc 0)" using that line(2) by (intro in_window_offset [OF buf]) simp
    ultimately show ?thesis using window_view [OF V2(2)] that by (simp add: V2(1))
  qed
  moreover have "\<exists>s3 V3. store_byte ?L (buf + of_nat k) 0 s2 = Some s3 \<and> sees ?L V3 s3
        \<and> cstr_at (pv_mem V3) buf (take k cs) \<and> pv_screen V3 = pv_screen V' \<and> std_fds (pv_block V3) \<and> pv_files V3 = pv_files V
        \<and> (\<forall>l. lit_apart E (pv_mem V) buf 1024 l \<longrightarrow> lit_apart E (pv_mem V3) buf 1024 l)" if k: "k \<le> length cs" for k
  proof -
    have "in_window (buf + of_nat k) (Suc 0)" using k line(2) by (intro in_window_offset [OF buf]) simp
    then obtain s3 where s3: "store_byte ?L (buf + of_nat k) 0 s2 = Some s3"
        "sees ?L ((?V2 bs)\<lparr>pv_mem := (pv_mem (?V2 bs))(buf + of_nat k := 0)\<rparr>) s3"
      using leaves_store [OF s2(2)] by (auto simp: leaves_def)
    have "lit_apart E ((write_bytes (pv_mem V) buf bs)(buf + of_nat k := 0)) buf 1024 l" if "lit_apart E (pv_mem V) buf 1024 l" for l
      using lit_apart_write [OF lit_apart_write [OF that, of 0 bs], of k "[0]"] bs(1) k line(2) by simp
    moreover have "cstr_at ((write_bytes (pv_mem V) buf bs)(buf + of_nat k := 0)) buf (take k cs)"
      using terminated_prefix [OF bs(2) k _ cs(1)] bs(1) by simp
    ultimately show ?thesis
      using s3 std_fds_advanced [OF s(2), of 0 "int (length cs)"] cs(3)
      by (intro exI [of _ s3] exI [of _ "(?V2 bs)\<lparr>pv_mem := (pv_mem (?V2 bs))(buf + of_nat k := 0)\<rparr>"]) simp
  qed
  ultimately show ?thesis using s1(1) s2(1) by blast
qed

text \<open>
  \<open>hello\<close> greets the user. It asks for the name, waits for a line, and types \<open>Hello, \<close> and that
  line on its terminal; it returns 0.
\<close>

theorem hello_greets:
  assumes "sees (env_layout E) V s" and "std_fds (pv_block V)"
    and "has_lit E (pv_mem V) ''Hi, what's your name? ''" and "lit_apart E (pv_mem V) buf 1024 ''Hello, ''"
    and "line_arrives E (pv_type (chars ''Hi, what's your name? '') V) cs V'" and "length cs < 1023" and "in_window buf 1024"
  shows "\<exists>s'. hello_main E buf s = Some (0, s') \<and> prog_ok (env_layout E) s'
    \<and> vterm_of s' (active_terminal s') = fold v_putc (chars ''Hello, '' @ cs) (pv_screen V')"
proof -
  let ?L = "env_layout E"
  have plen: "length ''Hi, what's your name? '' < 2050" by simp
  obtain s1 s2 where r: "put E ''Hi, what's your name? '' s = Some s1" "ece391_read E 0 buf 1023 s1 = Some (int (length cs), s2)"
      "\<forall>k\<le>length cs. \<exists>s3 V3. store_byte ?L (buf + of_nat k) 0 s2 = Some s3 \<and> sees ?L V3 s3
        \<and> cstr_at (pv_mem V3) buf (take k cs) \<and> pv_screen V3 = pv_screen V' \<and> std_fds (pv_block V3) \<and> pv_files V3 = pv_files V
        \<and> (\<forall>l. lit_apart E (pv_mem V) buf 1024 l \<longrightarrow> lit_apart E (pv_mem V3) buf 1024 l)"
    using ask_line [OF assms(1-3) plen assms(5-7)] by (elim exE conjE) (rule that)
  then obtain s3 V3 where a: "store_byte ?L (buf + of_nat (length cs)) 0 s2 = Some s3" "sees ?L V3 s3" "cstr_at (pv_mem V3) buf cs"
      "pv_screen V3 = pv_screen V'" "std_fds (pv_block V3)" "lit_apart E (pv_mem V3) buf 1024 ''Hello, ''"
    using assms(4) by (metis order_refl take_all)
  obtain s4 where s4: "put E ''Hello, '' s3 = Some s4" "sees ?L (pv_type (chars ''Hello, '') V3) s4"
    using leaves_put [OF a(2,5), of "''Hello, ''"] a(6) by (auto simp: leaves_def lit_apart_def)
  have "in_window buf (Suc (length cs))" using assms(6,7) by (simp add: in_window_def)
  then obtain s5 where s5: "ece391_fdputs E 1 buf s4 = Some s5" "sees ?L (pv_type cs (pv_type (chars ''Hello, '') V3)) s5"
    using ends_fdputs [OF s4(2), of buf cs] a(3,5) assms(6) by (auto simp: leaves_def)
  have "hello_main E buf s = Some (0, s5)" using r(1,2) a(1) s4(1) s5(1) by (simp add: hello_main_def)
  moreover have "vterm_of s5 (active_terminal s5) = fold v_putc cs (fold v_putc (chars ''Hello, '') (pv_screen V'))" "prog_ok ?L s5"
    using sees_screen [OF s5(2)] a(4) by simp_all
  ultimately show ?thesis by simp
qed

section \<open>counter\<close>

definition numeral_line :: "nat \<Rightarrow> u8 list" where
  "numeral_line i = map digit_char (digits 10 i) @ [10]"

lemma digits_len: "n < 4294967296 \<Longrightarrow> length (digits 10 n) \<le> 10"
proof -
  have rev: "n < 10 ^ k \<Longrightarrow> length (digits_rev 10 n) \<le> k" for n k
  proof (induction k arbitrary: n)
    case (Suc k)
    then have "n div 10 < 10 ^ k" by (simp add: less_mult_imp_div_less mult.commute)
    then show ?case using Suc.IH [of "n div 10"] by (subst digits_rev.simps) auto
  qed (simp add: digits_rev.simps)
  assume "n < 4294967296"
  then have "n < 10 ^ 10" by simp
  from rev [OF this] show ?thesis by (simp add: digits_def)
qed

lemma counter_loop_prints:
  assumes "k = unat mx - unat i" "unat i \<le> unat mx" "sees (env_layout E) V s" "std_fds (pv_block V)"
    and "lit_apart E (pv_mem V) buf 1024 (ln [])" "in_window buf 1024"
  shows "\<exists>V'. ends (env_layout E) (counter_loop E buf mx i s) 0 V'
    \<and> pv_screen V' = fold v_putc (concat (map numeral_line [Suc (unat i)..<Suc (unat mx)])) (pv_screen V)"
  using assms(1-5)
proof (induction k arbitrary: i V s)
  case 0
  then have "unat i = unat mx" by simp
  then have "ends (env_layout E) (counter_loop E buf mx i s) 0 V"
    unfolding counter_loop.simps [of E buf mx i s] using 0(3) by (simp add: ends_return word_less_nat_alt)
  then show ?case using \<open>unat i = unat mx\<close> by (intro exI [of _ V]) simp
next
  case (Suc k)
  let ?L = "env_layout E" and ?n = "map digit_char (digits 10 (Suc (unat i)))"
  have i: "i < mx" "unat (i + 1) = Suc (unat i)" "k = unat mx - unat (i + 1)" "unat (i + 1) \<le> unat mx"
  proof -
    have lt: "unat i < unat mx" using Suc.prems(1) by simp
    then show "i < mx" by (simp add: word_less_nat_alt)
    have "unat i + 1 < 4294967296" using lt unat_lt32 [of mx] by linarith
    then show e: "unat (i + 1) = Suc (unat i)" by (simp add: unat_word_ariths)
    show "k = unat mx - unat (i + 1)" "unat (i + 1) \<le> unat mx" using Suc.prems(1) lt by (simp_all add: e)
  qed
  have lt: "Suc (unat i) < 4294967296" using unat_lt32 [of "i + 1"] by (simp only: i(2))
  obtain m where m: "ece391_itoa (i + 1) (view ?L s) buf 10 = Some m" "cstr_at m buf ?n"
    using user_itoa.conv_numeral [of 10 "i + 1" "view ?L s" buf] by (auto simp: i(2))
  have len: "length ?n \<le> 10" using digits_len [OF lt] by simp
  have nz: "0 \<notin> set ?n" using m(2) by (simp add: cstr_at_def)
  have n: "ece391_strlen m buf = Some (of_nat (length ?n))" "unat (of_nat (length ?n) :: u32) = length ?n"
    using strlen_cstr [OF m(2)] len by (simp_all add: strlen_user unat_of_nat)
  have bs: "bytes_at m buf (Suc (length ?n)) = ?n @ [0]"
    using m(2) bytes_at_add [of m buf "length ?n" 1] by (simp add: cstr_at_def bytes_at_Suc)
  have w: "in_window buf (length (?n @ [0]))" "in_window buf (Suc (length ?n))" using assms(6) len by (simp_all add: in_window_def)
  let ?V1 = "V\<lparr>pv_mem := write_bytes (pv_mem V) buf (?n @ [0])\<rparr>"
  obtain s1 where s1: "store_bytes ?L buf (?n @ [0]) s = Some s1" "sees ?L ?V1 s1" using sees_store [OF Suc.prems(3) w(1)] by blast
  have c: "cstr_at (pv_mem ?V1) buf ?n" using cstr_written [OF nz] len by simp
  obtain s2 where s2: "ece391_fdputs E 1 buf s1 = Some s2" "sees ?L (pv_type ?n ?V1) s2"
    using ends_fdputs [OF s1(2) _ c _ w(2)] Suc.prems(4) len by (auto simp: leaves_def)
  have lit: "lit_apart E (pv_mem ?V1) buf 1024 (ln [])"
    using lit_apart_write [OF Suc.prems(5), of 0 "?n @ [0]"] len by simp
  let ?V3 = "pv_type (chars (ln [])) (pv_type ?n ?V1)"
  obtain s3 where s3: "put E (ln []) s2 = Some s3" "sees ?L ?V3 s3"
    using leaves_put [OF s2(2), of "ln []"] Suc.prems(4) lit by (auto simp: leaves_def lit_apart_def ln_def)
  have IH: "\<exists>V'. ends ?L (counter_loop E buf mx (i + 1) s3) 0 V'
      \<and> pv_screen V' = fold v_putc (concat (map numeral_line [Suc (unat (i + 1))..<Suc (unat mx)])) (pv_screen ?V3)"
    by (rule Suc.IH [OF i(3,4) s3(2)]) (use Suc.prems(4) lit in simp_all)
  have "counter_loop E buf mx i s = counter_loop E buf mx (i + 1) s3"
    unfolding counter_loop.simps [of E buf mx i s] using i(1) m(1) n bs s1(1) s2(1) s3(1) by simp
  moreover have "[Suc (unat i)..<Suc (unat mx)] = Suc (unat i) # [Suc (unat (i + 1))..<Suc (unat mx)]"
    using i(2,4) by (simp add: upt_conv_Cons)
  moreover have "pv_screen ?V3 = fold v_putc (numeral_line (Suc (unat i))) (pv_screen V)"
    by (simp add: numeral_line_def ln_def chars_def)
  ultimately show ?case using IH by auto
qed

text \<open>The counter asks for a choice and looks at the line.\<close>

lemma counter_choice:
  fixes E :: "'a sys_state_scheme prog_env"
  defines "p \<equiv> ln ''Enter the Test Number: (0): 100, (1): 10000, (2): 100000''"
  assumes "sees (env_layout E) V s" and "std_fds (pv_block V)" and "has_lit E (pv_mem V) p"
    and "line_arrives E (pv_type (chars p) V) cs V'" and "length cs < 1023" and "in_window buf 1024" and "cs = c # rest"
  obtains s3 V3 where "sees (env_layout E) V3 s3" "pv_screen V3 = pv_screen V'" "std_fds (pv_block V3)"
    "\<forall>l. lit_apart E (pv_mem V) buf 1024 l \<longrightarrow> lit_apart E (pv_mem V3) buf 1024 l"
    "counter_main E buf s = (if length cs > 2 \<or> length cs = 2 \<and> (c < 48 \<or> c > 50)
      then do { s \<leftarrow> put E (ln ''Wrong Choice!'') s3; Some (0, s) }
      else counter_loop E buf (if c = 48 then 100 else if c = 49 then 10000 else if c = 50 then 100000 else 0) 0 s3)"
proof -
  let ?L = "env_layout E"
  have plen: "length p < 2050" by (simp add: p_def ln_def)
  obtain s1 s2 where r: "put E p s = Some s1" "ece391_read E 0 buf 1023 s1 = Some (int (length cs), s2)"
      "\<forall>k\<le>length cs. \<exists>s3 V3. store_byte ?L (buf + of_nat k) 0 s2 = Some s3 \<and> sees ?L V3 s3
        \<and> cstr_at (pv_mem V3) buf (take k cs) \<and> pv_screen V3 = pv_screen V' \<and> std_fds (pv_block V3) \<and> pv_files V3 = pv_files V
        \<and> (\<forall>l. lit_apart E (pv_mem V) buf 1024 l \<longrightarrow> lit_apart E (pv_mem V3) buf 1024 l)"
    using ask_line [OF assms(2-4) plen assms(5-7)] by (elim exE conjE) (rule that)
  then obtain s3 V3 where a: "store_byte ?L (buf + of_nat (length cs)) 0 s2 = Some s3" "sees ?L V3 s3" "cstr_at (pv_mem V3) buf cs"
      "pv_screen V3 = pv_screen V'" "std_fds (pv_block V3)"
      and keep: "\<forall>l. lit_apart E (pv_mem V) buf 1024 l \<longrightarrow> lit_apart E (pv_mem V3) buf 1024 l"
    by (metis order_refl take_all)
  have V3: "pview s3 = V3" "user_mapped ?L (curr s3) s3" using a(2) by (auto simp: sees_def prog_ok_def)
  have w: "in_window buf (Suc (length cs))" using assms(6,7) by (simp add: in_window_def)
  have cstr: "cstr_at (view ?L s3) buf cs" using window_cstr [OF V3(2) w] a(3) by (simp add: V3(1))
  then have n: "ece391_strlen (view ?L s3) buf = Some (of_nat (length cs))" by (simp add: strlen_user strlen_cstr)
  have c: "view ?L s3 buf = c" using cstr by (simp add: assms(8) cstr_at_Cons)
  have "unat (of_nat (length cs) :: u32) = length cs" using assms(6) by (simp add: unat_of_nat)
  then have "of_nat (length cs) > (2 :: u32) \<longleftrightarrow> length cs > 2" "of_nat (length cs) = (2 :: u32) \<longleftrightarrow> length cs = 2"
    by (simp_all add: word_less_nat_alt word_unat_eq_iff)
  then show ?thesis
    using a(2,4,5) keep by (intro that) (use r(1,2) a(1) n c in \<open>auto simp: counter_main_def p_def Let_def\<close>)
qed

text \<open>
  \<open>counter\<close> counts. To the choice \<open>0\<close>, \<open>1\<close> or \<open>2\<close> it answers with the numbers from 1 to 100, 10000
  or 100000 in decimal, one on each line, and returns 0; to any longer line and to any other
  character it answers \<open>Wrong Choice!\<close>.
\<close>

theorem counter_counts:
  fixes E :: "'a sys_state_scheme prog_env"
  defines "p \<equiv> ln ''Enter the Test Number: (0): 100, (1): 10000, (2): 100000''"
  assumes "sees (env_layout E) V s" and "std_fds (pv_block V)" and "has_lit E (pv_mem V) p"
    and "\<And>l. l \<in> {ln [], ln ''Wrong Choice!''} \<Longrightarrow> lit_apart E (pv_mem V) buf 1024 l"
    and "line_arrives E (pv_type (chars p) V) cs V'" and "cs \<noteq> []" and "last cs = 10" and "length cs < 1023" and "in_window buf 1024"
  shows "\<exists>s'. counter_main E buf s = Some (0, s') \<and> prog_ok (env_layout E) s'
    \<and> vterm_of s' (active_terminal s') = fold v_putc
        (if cs = [48, 10] then concat (map numeral_line [1..<101])
         else if cs = [49, 10] then concat (map numeral_line [1..<10001])
         else if cs = [50, 10] then concat (map numeral_line [1..<100001])
         else if cs = [10] then [] else chars (ln ''Wrong Choice!'')) (pv_screen V')"
proof -
  let ?L = "env_layout E"
  obtain c rest where cs: "cs = c # rest" using assms(7) by (cases cs) auto
  obtain s3 V3 where a: "sees ?L V3 s3" "pv_screen V3 = pv_screen V'" "std_fds (pv_block V3)"
      and keep: "\<forall>l. lit_apart E (pv_mem V) buf 1024 l \<longrightarrow> lit_apart E (pv_mem V3) buf 1024 l"
      and main: "counter_main E buf s = (if length cs > 2 \<or> length cs = 2 \<and> (c < 48 \<or> c > 50)
      then do { s \<leftarrow> put E (ln ''Wrong Choice!'') s3; Some (0, s) }
      else counter_loop E buf (if c = 48 then 100 else if c = 49 then 10000 else if c = 50 then 100000 else 0) 0 s3)"
    using counter_choice [OF assms(2-4) [unfolded p_def] assms(6) [unfolded p_def] assms(9,10) cs] .
  have two: "length cs = 2 \<longleftrightarrow> cs = [c, 10]" "length cs = 1 \<longleftrightarrow> cs = [10]"
    using assms(8) by (auto simp: cs length_Suc_conv numeral_2_eq_2)
  have loop: "\<exists>V'. ends ?L (counter_loop E buf mx 0 s3) 0 V' \<and> pv_screen V' = fold v_putc (concat (map numeral_line [1..<Suc (unat mx)])) (pv_screen V3)" for mx
    using counter_loop_prints [OF refl _ a(1,3) _ assms(10), of 0 mx] assms(5) keep by simp
  show ?thesis
  proof (cases "length cs > 2 \<or> length cs = 2 \<and> (c < 48 \<or> c > 50)")
    case True
    let ?w = "ln ''Wrong Choice!''"
    have "lit_apart E (pv_mem V3) buf 1024 ?w" using assms(5) [of ?w] keep by simp
    then have "has_lit E (pv_mem V3) ?w" by (simp add: lit_apart_def)
    moreover have "length ?w < 2050" by (simp add: ln_def)
    ultimately obtain s4 where s4: "put E ?w s3 = Some s4" "sees ?L (pv_type (chars ?w) V3) s4"
      using leaves_put [OF a(1,3)] unfolding leaves_def by blast
    have "cs \<noteq> [48, 10]" "cs \<noteq> [49, 10]" "cs \<noteq> [50, 10]" "cs \<noteq> [10]" using True cs by auto
    then show ?thesis using True main s4(1) sees_screen [OF s4(2)] a(2) by auto
  next
    case False
    then have "length cs = 1 \<or> length cs = 2 \<and> 48 \<le> c \<and> c \<le> 50" using cs by (cases rest) (auto simp: linorder_not_less)
    moreover have "c = 48 \<or> c = 49 \<or> c = 50" if "48 \<le> c" "c \<le> 50"
    proof -
      have "unat c = 48 \<or> unat c = 49 \<or> unat c = 50" using that by (simp add: word_le_nat_alt) arith
      then show ?thesis by (simp add: word_unat_eq_iff)
    qed
    ultimately have "cs = [10] \<or> cs = [48, 10] \<or> cs = [49, 10] \<or> cs = [50, 10]" using two by auto
    then show ?thesis
      using main False loop [of 100] loop [of 10000] loop [of 100000] loop [of 0] cs a(2)
      by (elim disjE) (auto simp: ends_def dest!: sees_screen simp del: upt_rec_numeral upt_Suc)
  qed
qed

section \<open>shell\<close>

text \<open>The shell prompts, reads a line and ends it; then it looks at the command.\<close>

lemma shell_round:
  fixes E :: "'a sys_state_scheme prog_env" and s0 :: "'a sys_state_scheme"
  assumes "sees (env_layout E) V s" and "std_fds (pv_block V)" and "pv_files V = fs_core s0" and "has_lit E (pv_mem V) ''391OS> ''"
    and "\<And>l. l \<in> {''exit'', ln ''no such command''} \<Longrightarrow> lit_apart E (pv_mem V) buf 1024 l"
    and "line_arrives E (pv_type (chars ''391OS> '') V) cs V'" and "length cs \<le> 128" and "in_window buf 1024"
    and "cmd = (if cs \<noteq> [] \<and> last cs = 10 then butlast cs else cs)"
  obtains s3 V3 where "sees (env_layout E) V3 s3" "cstr_at (pv_mem V3) buf cmd" "pv_screen V3 = pv_screen V'" "std_fds (pv_block V3)"
    "pv_files V3 = fs_core s0" "has_lit E (pv_mem V3) (ln ''no such command'')" "length cmd \<le> 128"
    "shell_loop E buf s = (if cmd = chars ''exit'' then Some (0, s3)
      else if cmd = [] then shell_loop E buf s3
      else do { (rval, s) \<leftarrow> ece391_execute E buf s3;
              s \<leftarrow> (if rval = -1 then put E (ln ''no such command'') s
                    else if rval = 256 then put E (ln ''program terminated by exception'') s
                    else if rval \<noteq> 0 then put E (ln ''program terminated abnormally'') s
                    else Some s);
              shell_loop E buf s })"
proof -
  let ?L = "env_layout E"
  define k where "k = (if cs \<noteq> [] \<and> last cs = 10 then length cs - 1 else length cs)"
  have k: "k \<le> length cs" "take k cs = cmd" by (simp_all add: k_def assms(9) butlast_conv_take)
  have lt: "length cs < 1023" and plen: "length ''391OS> '' < 2050" using assms(7) by simp_all
  obtain s1 s2 where r: "put E ''391OS> '' s = Some s1" "ece391_read E 0 buf 1023 s1 = Some (int (length cs), s2)"
      "\<forall>i<length cs. view ?L s2 (buf + of_nat i) = cs ! i"
      "\<forall>k\<le>length cs. \<exists>s3 V3. store_byte ?L (buf + of_nat k) 0 s2 = Some s3 \<and> sees ?L V3 s3
        \<and> cstr_at (pv_mem V3) buf (take k cs) \<and> pv_screen V3 = pv_screen V' \<and> std_fds (pv_block V3) \<and> pv_files V3 = pv_files V
        \<and> (\<forall>l. lit_apart E (pv_mem V) buf 1024 l \<longrightarrow> lit_apart E (pv_mem V3) buf 1024 l)"
    using ask_line [OF assms(1,2,4) plen assms(6) lt assms(8)] by (elim exE conjE) (rule that)
  obtain s3 V3 where a: "store_byte ?L (buf + of_nat k) 0 s2 = Some s3" "sees ?L V3 s3" "cstr_at (pv_mem V3) buf cmd"
      "pv_screen V3 = pv_screen V'" "std_fds (pv_block V3)" "pv_files V3 = fs_core s0"
      and keep: "\<forall>l. lit_apart E (pv_mem V) buf 1024 l \<longrightarrow> lit_apart E (pv_mem V3) buf 1024 l"
    using r(4) k assms(3) by metis
  have V3: "pview s3 = V3" "user_mapped ?L (curr s3) s3" using a(2) by (auto simp: sees_def prog_ok_def)
  have cl: "length cmd \<le> 128" using assms(7) k by (metis length_take min.coboundedI1 min.commute)
  then have w: "in_window buf (Suc (length cmd))" using assms(8) by (simp add: in_window_def)
  have cstr: "cstr_at (view ?L s3) buf cmd" using window_cstr [OF V3(2) w] a(3) by (simp add: V3(1))
  have lits: "has_lit E (pv_mem V3) ''exit''" "has_lit E (pv_mem V3) (ln ''no such command'')"
    using assms(5) [of "''exit''"] assms(5) [of "ln ''no such command''"] keep by (simp_all add: lit_apart_def)
  have ew: "in_window (env_lit E ''exit'') (Suc (length (chars ''exit'')))" using lits(1) unfolding has_lit_def length_chars by (elim conjE)
  have "cstr_at (view ?L s3) (env_lit E ''exit'') (chars ''exit'')"
    using window_cstr [OF V3(2) ew] lits(1) by (simp add: V3(1) has_lit_def)
  from strcmp_user [OF cstr this] obtain d where d: "ece391_strcmp (view ?L s3) buf (view ?L s3) (env_lit E ''exit'') = Some d"
      "d = 0 \<longleftrightarrow> cmd = chars ''exit''" by blast
  have empty: "view ?L s3 buf = 0 \<longleftrightarrow> cmd = []" using cstr by (cases cmd) (auto simp: cstr_at_Cons)
  have kk: "(if int (length cs) > 0 \<and> view ?L s2 (buf + of_int (int (length cs) - 1)) = 10 then int (length cs) - 1 else int (length cs)) = int k"
  proof (cases "cs = []")
    case False
    then have e: "int (length cs) - 1 = int (length cs - 1)" by (cases cs) simp_all
    have "view ?L s2 (buf + of_nat (length cs - 1)) = last cs" using r(3) False by (simp add: last_conv_nth)
    then show ?thesis unfolding e of_int_of_nat_eq using False by (simp add: k_def e)
  qed (simp add: k_def)
  show ?thesis
    using a(2-6) lits(2) cl
    by (rule that) (unfold shell_loop.simps [of E buf s], use r(1,2) a(1) d empty kk in \<open>simp add: Let_def\<close>)
qed

text \<open>A command that names no file.\<close>

lemma shell_unknown:
  fixes E :: "'a sys_state_scheme prog_env" and s0 :: "'a sys_state_scheme"
  assumes "sees (env_layout E) V s" "std_fds (pv_block V)" "pv_files V = fs_core s0" "cstr_at (pv_mem V) buf cmd" "length cmd \<le> 128"
    and "in_window buf 1024" "has_lit E (pv_mem V) (ln ''no such command'')" "dir_lookup s0 (name_of cmd) = None"
  obtains s1 s2 where "ece391_execute E buf s = Some (-1, s1)" "put E (ln ''no such command'') s1 = Some s2" "prog_ok (env_layout E) s2"
    "vterm_of s2 (active_terminal s2) = fold v_putc (chars (ln ''no such command'')) (pv_screen V)"
proof -
  let ?L = "env_layout E" and ?l = "ln ''no such command''"
  have "length (args_of cmd) \<le> length (dropWhile (\<lambda>c. c \<noteq> 32) cmd)" unfolding args_of_def by (rule length_filter_le)
  then have len: "length (name_of cmd) \<le> 128" "length (args_of cmd) \<le> 129"
    using assms(5) length_takeWhile_le [of "\<lambda>c. c \<noteq> 32" cmd] length_dropWhile_le [of "\<lambda>c. c \<noteq> 32" cmd] by (simp_all add: name_of_def)
  have w: "in_window buf (Suc (length cmd))" using assms(5,6) by (simp add: in_window_def)
  obtain ar where "ends ?L (ece391_execute E buf s) (-1) (V\<lparr>pv_args := ar\<rparr>)"
    using ends_execute_unknown [OF assms(1,3,4) w len assms(8)] by auto
  then obtain s1 where s1: "ece391_execute E buf s = Some (-1, s1)" "sees ?L (V\<lparr>pv_args := ar\<rparr>) s1" by (auto simp: ends_def)
  have std: "std_fds (pv_block (V\<lparr>pv_args := ar\<rparr>))" and lit: "has_lit E (pv_mem (V\<lparr>pv_args := ar\<rparr>)) ?l"
    and l: "length ?l < 2050" using assms(2,7) by (simp_all add: ln_def)
  obtain s2 where s2: "put E ?l s1 = Some s2" "sees ?L (pv_type (chars ?l) (V\<lparr>pv_args := ar\<rparr>)) s2"
    using leaves_put [OF s1(2) std lit l] unfolding leaves_def by blast
  have "vterm_of s2 (active_terminal s2) = fold v_putc (chars ?l) (pv_screen V)" "prog_ok ?L s2" using sees_screen [OF s2(2)] by simp_all
  with s1(1) s2(1) show ?thesis by (intro that)
qed

text \<open>
  C18: one round of the shell. It prompts and waits for a line. The line \<open>exit\<close> ends it with 0; an
  empty line leads to the next round and nothing else; a command whose name is not in the
  directory makes it type \<open>no such command\<close> on its terminal and go on to the next round.
\<close>

theorem shell_handles_line:
  fixes E :: "'a sys_state_scheme prog_env" and s0 :: "'a sys_state_scheme"
  assumes "sees (env_layout E) V s" and "std_fds (pv_block V)" and "pv_files V = fs_core s0" and "has_lit E (pv_mem V) ''391OS> ''"
    and "\<And>l. l \<in> {''exit'', ln ''no such command''} \<Longrightarrow> lit_apart E (pv_mem V) buf 1024 l"
    and "line_arrives E (pv_type (chars ''391OS> '') V) cs V'" and "length cs \<le> 128" and "in_window buf 1024"
    and "cmd = (if cs \<noteq> [] \<and> last cs = 10 then butlast cs else cs)"
  shows "if cmd = chars ''exit'' then \<exists>s'. shell_loop E buf s = Some (0, s') \<and> prog_ok (env_layout E) s'
      \<and> vterm_of s' (active_terminal s') = pv_screen V'
    else cmd = [] \<or> dir_lookup s0 (name_of cmd) = None \<longrightarrow> (\<exists>s'. shell_loop E buf s = shell_loop E buf s' \<and> prog_ok (env_layout E) s'
      \<and> vterm_of s' (active_terminal s') = fold v_putc (if cmd = [] then [] else chars (ln ''no such command'')) (pv_screen V'))"
proof -
  let ?L = "env_layout E"
  obtain s3 V3 where a: "sees ?L V3 s3" "cstr_at (pv_mem V3) buf cmd" "pv_screen V3 = pv_screen V'" "std_fds (pv_block V3)"
      "pv_files V3 = fs_core s0" "has_lit E (pv_mem V3) (ln ''no such command'')" "length cmd \<le> 128"
    and loop: "shell_loop E buf s = (if cmd = chars ''exit'' then Some (0, s3)
      else if cmd = [] then shell_loop E buf s3
      else do { (rval, s) \<leftarrow> ece391_execute E buf s3;
              s \<leftarrow> (if rval = -1 then put E (ln ''no such command'') s
                    else if rval = 256 then put E (ln ''program terminated by exception'') s
                    else if rval \<noteq> 0 then put E (ln ''program terminated abnormally'') s
                    else Some s);
              shell_loop E buf s })"
    using shell_round [OF assms] .
  show ?thesis
  proof (cases "cmd = chars ''exit'' \<or> cmd = []")
    case True
    then show ?thesis using loop a(3) sees_screen [OF a(1)] by (auto simp: chars_def)
  next
    case False
    have "\<exists>s'. shell_loop E buf s = shell_loop E buf s' \<and> prog_ok ?L s'
      \<and> vterm_of s' (active_terminal s') = fold v_putc (chars (ln ''no such command'')) (pv_screen V')" if none: "dir_lookup s0 (name_of cmd) = None"
    proof -
      obtain s4 s5 where "ece391_execute E buf s3 = Some (-1, s4)" "put E (ln ''no such command'') s4 = Some s5" "prog_ok ?L s5"
          "vterm_of s5 (active_terminal s5) = fold v_putc (chars (ln ''no such command'')) (pv_screen V3)"
        using shell_unknown [OF a(1,4,5,2,7) assms(8) a(6) none] .
      then show ?thesis using loop False a(3) by (intro exI [of _ s5]) simp
    qed
    then show ?thesis using False by simp
  qed
qed

section \<open>Typing ahead\<close>

text \<open>
  C30: output replaces a line typed ahead. The line a user finishes while the program is busy waits
  in \<open>print_buffer\<close>, which \<open>write\<close> uses too. When a program whose user has finished a line writes a
  string to its terminal and then reads a line, the read returns at once, and what it delivers is
  the program's own output; the line the user typed is lost.
\<close>

theorem output_replaces_pending_line:
  assumes "sees (env_layout E) V s" and "std_fds (pv_block V)" and "pv_ready V = 1"
    and "cstr_at (pv_mem V) a cs" and "in_window a (Suc (length cs))" and "length cs < n" and "n \<le> 2049" and "in_window buf n"
  shows "\<exists>s1 s2. ece391_fdputs E 1 a s = Some s1 \<and> ece391_read E 0 buf (int n) s1 = Some (int (length cs), s2)
    \<and> bytes_at (view (env_layout E) s2) buf (length cs) = cs"
proof -
  let ?L = "env_layout E" and ?t = "active_terminal s"
  have lt: "length cs < 2050" "n \<le> 2050" using assms(6,7) by simp_all
  obtain s1 where s1: "ece391_fdputs E 1 a s = Some s1" "sees ?L (pv_type cs V) s1"
      "map (\<lambda>k. print_buffer s1 (2050 * ?t + k)) [0..<Suc (length cs)] = cs @ [0]" "active_terminal s1 = ?t"
    using fdputs_state [OF assms(1,2,4) lt(1) assms(5)] by blast
  let ?bs = "map (\<lambda>k. print_buffer s1 (2050 * active_terminal s1 + k)) [0..<n]"
  have std: "std_fds (pv_block (pv_type cs V))" using assms(2) by simp
  have "pv_ready (pview s1) = 1" using s1(2) assms(3) by (simp add: sees_def)
  then have "terminal_read_ready s1 (active_terminal s1) = 1" by (simp add: pview_def)
  then have "terminal_read_ready (sti s1) (active_terminal s1) = 1" by (simp add: sti_def)
  then have spin: "spin_until (\<lambda>s'. terminal_read_ready s' (active_terminal s1) = 1) (env_irqs E s1) (sti s1) = Some (sti s1)"
    by (cases "env_irqs E s1") simp_all
  have sees1: "sees ?L (pv_type cs V) (sti s1)" using s1(2) by simp
  have st: "curr (sti s1) = curr s1" "active_terminal (sti s1) = active_terminal s1" "print_buffer (sti s1) = print_buffer s1"
    by (simp_all add: sti_def)
  have "take (Suc (length cs)) ?bs = map (\<lambda>k. print_buffer s1 (2050 * ?t + k)) [0..<Suc (length cs)]"
    using assms(6) by (simp add: take_map s1(4) del: upt_Suc)
  then have bs: "take (Suc (length cs)) ?bs = cs @ [0]" unfolding s1(3) .
  have nz: "0 \<notin> set cs" using assms(4) by (simp add: cstr_at_def)
  have "ends ?L (ece391_read E 0 buf (int n) s1) (int (length cs))
      ((pv_type cs V)\<lparr>pv_mem := write_bytes (pv_mem V) buf ?bs, pv_ready := 0, pv_block := advanced 0 (int (length cs)) (pv_block (pv_type cs V))\<rparr>)"
    using read_line_state [OF s1(2) std _ spin sees1 st(1,2) refl bs nz assms(6) lt(2) assms(8)] by (simp add: st(3))
  then obtain s2 where s2: "ece391_read E 0 buf (int n) s1 = Some (int (length cs), s2)"
      "pv_mem (pview s2) = write_bytes (pv_mem V) buf ?bs" "user_mapped ?L (curr s2) s2"
    by (auto simp: ends_def sees_def prog_ok_def)
  have w: "in_window buf (length cs)" using assms(6,8) by (simp add: in_window_def)
  have "bytes_at (write_bytes (pv_mem V) buf ?bs) buf n = ?bs" using bytes_at_write_bytes [of ?bs "pv_mem V" buf] lt(2) by simp
  moreover have "bytes_at (write_bytes (pv_mem V) buf ?bs) buf (length cs) = take (length cs) (bytes_at (write_bytes (pv_mem V) buf ?bs) buf n)"
    using assms(6) by (simp add: bytes_at_def take_map)
  moreover have "take (length cs) ?bs = take (length cs) (take (Suc (length cs)) ?bs)" by (simp add: min_def)
  ultimately have "bytes_at (pv_mem (pview s2)) buf (length cs) = cs" unfolding s2(2) by (simp only: bs) simp
  then show ?thesis using s1(1) s2(1) window_bytes [OF s2(3) w] by auto
qed

end
