(* ===== verification/User_Tests.thy ===== *)
theory User_Tests
  imports User_Programs
begin

text \<open>
  The test program of the error handling of the system calls, \<open>syscalls/ece391syserr.c\<close>: eight tests
  that make calls that have to fail, with bad descriptors, names, pointers and call numbers. Run on
  the model of the kernel all of them pass.
\<close>

section \<open>The program\<close>

text \<open>A loop over a list of values, and the pattern of the tests: a call that does not return -1 is reported.\<close>

fun each :: "('i \<Rightarrow> 's \<Rightarrow> 's option) \<Rightarrow> 'i list \<Rightarrow> 's \<Rightarrow> 's option" where
  "each f [] s = Some s"
| "each f (i # is) s = do { s \<leftarrow> f i s; each f is s }"

definition check ::
  "'a sys_state_scheme prog_env \<Rightarrow> string \<Rightarrow> ('a sys_state_scheme \<Rightarrow> (int \<times> 'a sys_state_scheme) option)
   \<Rightarrow> int \<times> 'a sys_state_scheme \<Rightarrow> (int \<times> 'a sys_state_scheme) option" where
  "check E msg call x =
     (let (fail, s) = x
      in do { (r, s) \<leftarrow> call s;
              if r \<noteq> -1 then do { s \<leftarrow> put E (ln msg) s; Some (2, s) } else Some (fail, s) })"

definition verdict :: "'a sys_state_scheme prog_env \<Rightarrow> string \<Rightarrow> int \<times> 'a sys_state_scheme \<Rightarrow> (int \<times> 'a sys_state_scheme) option" where
  "verdict E name x =
     (let (fail, s) = x
      in do { s \<leftarrow> put E (ln (name @ (if fail \<noteq> 0 then '': FAIL'' else '': PASS''))) s; Some (fail, s) })"

definition call_sys :: "'a sys_state_scheme prog_env \<Rightarrow> int \<Rightarrow> 'a sys_state_scheme \<Rightarrow> (int \<times> 'a sys_state_scheme) option" where
  "call_sys E num = DO_CALL E (of_int num) (env_junk E) (env_junk E) (env_junk E)"

definition err_neg_fd :: "'a sys_state_scheme prog_env \<Rightarrow> u32 \<Rightarrow> 'a sys_state_scheme \<Rightarrow> (int \<times> 'a sys_state_scheme) option" where
  "err_neg_fd E buf s =
     do { x \<leftarrow> check E ''read fail'' (ece391_read E (-1073741823) buf 31) (0, s);
          x \<leftarrow> check E ''write fail'' (ece391_write E (-1073741823) buf 31) x;
          x \<leftarrow> check E ''close fail'' (ece391_close E (-1073741823)) x;
          verdict E ''err_neg_fd'' x }"

definition err_big_fd :: "'a sys_state_scheme prog_env \<Rightarrow> u32 \<Rightarrow> 'a sys_state_scheme \<Rightarrow> (int \<times> 'a sys_state_scheme) option" where
  "err_big_fd E buf s =
     do { x \<leftarrow> check E ''read fail'' (ece391_read E 1073741823 buf 31) (0, s);
          x \<leftarrow> check E ''write fail'' (ece391_write E 1073741823 buf 31) x;
          x \<leftarrow> check E ''close fail'' (ece391_close E 1073741823) x;
          verdict E ''err_big_fd'' x }"

definition open_count :: "'a sys_state_scheme prog_env \<Rightarrow> int \<times> 'a sys_state_scheme \<Rightarrow> (int \<times> 'a sys_state_scheme) option" where
  "open_count E x =
     (let (cnt, s) = x
      in do { (r, s) \<leftarrow> ece391_open E (env_lit E ''.'') s; Some (if r = -1 then cnt + 1 else cnt, s) })"

definition err_open_lots :: "'a sys_state_scheme prog_env \<Rightarrow> 'a sys_state_scheme \<Rightarrow> (int \<times> 'a sys_state_scheme) option" where
  "err_open_lots E s =
     do { (cnt, s) \<leftarrow> each (\<lambda>i. open_count E) [0..<7] (0, s);
          s \<leftarrow> each (\<lambda>i s. do { (_, s) \<leftarrow> ece391_close E (int i) s; Some s }) [2..<8] s;
          if cnt = 1 then do { s \<leftarrow> put E (ln ''err_open_lots: PASS'') s; Some (0, s) }
          else do { s \<leftarrow> put E (ln ''err_open_lots: FAIL'') s; Some (2, s) } }"

definition err_open :: "'a sys_state_scheme prog_env \<Rightarrow> 'a sys_state_scheme \<Rightarrow> (int \<times> 'a sys_state_scheme) option" where
  "err_open E s =
     do { x \<leftarrow> check E (CHR 0x27 # ''helloo'' @ CHR 0x27 # '' fail'') (ece391_open E (env_lit E ''helloo'')) (0, s);
          x \<leftarrow> check E (CHR 0x27 # ''shel'' @ CHR 0x27 # '' fail'') (ece391_open E (env_lit E ''shel'')) x;
          x \<leftarrow> check E ''empty string fail'' (ece391_open E (env_lit E [])) x;
          verdict E ''err_open'' x }"

definition err_unopened :: "'a sys_state_scheme prog_env \<Rightarrow> u32 \<Rightarrow> 'a sys_state_scheme \<Rightarrow> (int \<times> 'a sys_state_scheme) option" where
  "err_unopened E buf s =
     do { x \<leftarrow> each (\<lambda>i. check E ''close unopened or invalid fd fail'' (ece391_close E (int i))) [0..<8] (0, s);
          x \<leftarrow> each (\<lambda>i. check E ''read from unopened fd fail'' (ece391_read E (int i) buf 31)) [2..<8] x;
          x \<leftarrow> each (\<lambda>i. check E ''write to unopened fd fail'' (ece391_write E (int i) buf 31)) [2..<8] x;
          verdict E ''err_unopened'' x }"

definition err_vidmap :: "'a sys_state_scheme prog_env \<Rightarrow> 'a sys_state_scheme \<Rightarrow> (int \<times> 'a sys_state_scheme) option" where
  "err_vidmap E s =
     do { x \<leftarrow> check E ''Null pointer fail'' (ece391_vidmap E 0) (0, s);
          x \<leftarrow> check E ''Kernel pointer fail fail'' (ece391_vidmap E 0x400000) x;
          verdict E ''err_vidmap'' x }"

definition err_stdin_out :: "'a sys_state_scheme prog_env \<Rightarrow> u32 \<Rightarrow> 'a sys_state_scheme \<Rightarrow> (int \<times> 'a sys_state_scheme) option" where
  "err_stdin_out E buf s =
     do { x \<leftarrow> check E ''write to stdin fail'' (ece391_write E 0 buf 31) (0, s);
          x \<leftarrow> check E ''read from stdout fail'' (ece391_read E 1 buf 31) x;
          verdict E ''err_stdin_out'' x }"

definition err_syscall_num :: "'a sys_state_scheme prog_env \<Rightarrow> 'a sys_state_scheme \<Rightarrow> (int \<times> 'a sys_state_scheme) option" where
  "err_syscall_num E s =
     do { x \<leftarrow> check E ''syscall 0 fail'' (call_sys E 1073741823) (0, s);
          x \<leftarrow> check E ''big num syscall fail'' (call_sys E (-1073741823)) x;
          x \<leftarrow> check E ''neg num syscall fail'' (call_sys E 0) x;
          verdict E ''err_syscall_num'' x }"

text \<open>\<open>tbuf\<close> is the local buffer of the tests.\<close>

definition syserr_tests ::
  "'a sys_state_scheme prog_env \<Rightarrow> u32 \<Rightarrow> ('a sys_state_scheme \<Rightarrow> (int \<times> 'a sys_state_scheme) option) list" where
  "syserr_tests E tbuf = [err_neg_fd E tbuf, err_big_fd E tbuf, err_open_lots E, err_open E, err_unopened E tbuf,
     err_vidmap E, err_stdin_out E tbuf, err_syscall_num E]"

definition syserr_main :: "'a sys_state_scheme prog_env \<Rightarrow> u32 \<Rightarrow> u32 \<Rightarrow> 'a sys_state_scheme \<Rightarrow> (int \<times> 'a sys_state_scheme) option" where
  "syserr_main E buf tbuf s =
     do { s \<leftarrow> put E ''Choose from tests 1-8. 0 to run all: '' s;
          (cnt, s) \<leftarrow> ece391_read E 0 buf 127 s;
          if cnt = -1 then do { s \<leftarrow> put E (ln ''Can't read test #'') s; Some (2, s) }
          else
            let sel = uint (view (env_layout E) s buf) - 48
            in if sel = 0 then do {
                 (fail, s) \<leftarrow> each (\<lambda>test (fail, s). do { (f, s) \<leftarrow> test s; Some (fail + f, s) }) (syserr_tests E tbuf) (0, s);
                 s \<leftarrow> put E (CHR 0x0A # ln (if fail \<noteq> 0 then ''Overall Tests: FAIL'' else ''Overall Tests: PASS'')) s;
                 Some (fail, s) }
               else if 1 \<le> sel \<and> sel \<le> 8 then (syserr_tests E tbuf ! nat (sel - 1)) s
               else do { s \<leftarrow> put E ''Invalid test number. Choose from tests 1-8 or 0'' s; Some (0, s) } }"

section \<open>The tests\<close>

lemma ends_pair: "ends L x r V \<Longrightarrow> (\<And>s. sees L V s \<Longrightarrow> ends L (g (r, s)) r' V') \<Longrightarrow> ends L (Option.bind x g) r' V'"
  by (auto simp: ends_def)

lemma ends_check: "ends L (call s) (-1) V \<Longrightarrow> ends L (check E msg call (fail, s)) fail V"
  by (auto simp: ends_def check_def)

lemma ends_check_then:
  assumes "ends L (call s) (-1) V" "\<And>s. sees L V s \<Longrightarrow> ends L (g (fail, s)) r' V'"
  shows "ends L (Option.bind (check E msg call (fail, s)) g) r' V'"
  using ends_check [where call = call and s = s, OF assms(1)] assms(2) by (rule ends_pair)

lemma ends_each_check:
  assumes "\<And>i s. i \<in> set is \<Longrightarrow> sees L V s \<Longrightarrow> ends L (call i s) (-1) V" "sees L V s"
  shows "ends L (each (\<lambda>i. check E msg (call i)) is (fail, s)) fail V"
  using assms
proof (induction "is" arbitrary: s)
  case (Cons i "is")
  have "ends L (check E msg (call i) (fail, s)) fail V" using Cons.prems by (intro ends_check) simp
  then show ?case unfolding each.simps by (rule ends_pair) (use Cons in simp)
qed (simp add: ends_return)

lemma ends_each_check_then:
  assumes "sees L V s" "\<And>i s. i \<in> set is \<Longrightarrow> sees L V s \<Longrightarrow> ends L (call i s) (-1) V" "\<And>s. sees L V s \<Longrightarrow> ends L (g (fail, s)) r' V'"
  shows "ends L (Option.bind (each (\<lambda>i. check E msg (call i)) is (fail, s)) g) r' V'"
  using ends_each_check [OF assms(2,1)] assms(3) by (rule ends_pair)

text \<open>What the tests keep: the literals of their verdicts and of the names, the closed descriptors and the files.\<close>

definition test_lits :: "string set" where
  "test_lits = {''.'', ''helloo'', ''shel'', [], CHR 0x0A # ln ''Overall Tests: PASS''} \<union> (\<lambda>n. ln (n @ '': PASS'')) `
     {''err_neg_fd'', ''err_big_fd'', ''err_open_lots'', ''err_open'', ''err_unopened'', ''err_vidmap'', ''err_stdin_out'', ''err_syscall_num''}"

definition test_ready :: "'s prog_env \<Rightarrow> 'a sys_state_scheme \<Rightarrow> prog_view \<Rightarrow> bool" where
  "test_ready E s0 V \<longleftrightarrow> std_fds (pv_block V) \<and> all_closed (pv_block V) \<and> pv_files V = fs_core s0 \<and> (\<forall>l \<in> test_lits. has_lit E (pv_mem V) l)"

definition pass_line :: "string \<Rightarrow> u8 list" where
  "pass_line n = chars (ln (n @ '': PASS''))"

lemma ends_verdict:
  assumes "sees (env_layout E) V s" "std_fds (pv_block V)" "has_lit E (pv_mem V) (ln (n @ '': PASS''))" "length n < 100"
  shows "ends (env_layout E) (verdict E n (0, s)) 0 (pv_type (pass_line n) V)"
proof -
  have "length (ln (n @ '': PASS'')) < 2050" using assms(4) by (simp add: ln_def)
  from leaves_put [OF assms(1-3) this] show ?thesis by (auto simp: verdict_def leaves_def ends_def pass_line_def)
qed

lemma bad_fd_rejected:
  assumes "sees (env_layout E) V s" "fd = -1073741823 \<or> fd = 1073741823"
  shows "ends (env_layout E) (ece391_read E fd buf n s) (-1) V" "ends (env_layout E) (ece391_write E fd buf n s) (-1) V"
    "ends (env_layout E) (ece391_close E fd s) (-1) V"
  using assms(2) by (auto intro!: ends_read_reject [OF assms(1)] ends_write_reject [OF assms(1)] ends_close(2) [OF assms(1)])

lemma err_fd_pass:
  assumes "test_ready E s0 V" "sees (env_layout E) V s"
  shows "ends (env_layout E) (err_neg_fd E buf s) 0 (pv_type (pass_line ''err_neg_fd'') V)"
    "ends (env_layout E) (err_big_fd E buf s) 0 (pv_type (pass_line ''err_big_fd'') V)"
  using assms unfolding err_neg_fd_def err_big_fd_def
  by (intro ends_check_then bad_fd_rejected ends_verdict; simp add: test_ready_def test_lits_def)+

lemma err_stdin_out_pass:
  assumes "test_ready E s0 V" "sees (env_layout E) V s"
  shows "ends (env_layout E) (err_stdin_out E buf s) 0 (pv_type (pass_line ''err_stdin_out'') V)"
  using assms unfolding err_stdin_out_def
  by (intro ends_check_then ends_verdict ends_read_reject ends_write_reject; simp add: test_ready_def test_lits_def std_fds_def)

lemma err_vidmap_pass:
  assumes "test_ready E s0 V" "sees (env_layout E) V s"
  shows "ends (env_layout E) (err_vidmap E s) 0 (pv_type (pass_line ''err_vidmap'') V)"
  using assms unfolding err_vidmap_def
  by (intro ends_check_then ends_verdict ends_sys_vidmap ends_reject; simp add: test_ready_def test_lits_def vidmap_def)

lemma call_sys_rejected:
  "sees (env_layout E) V s \<Longrightarrow> num = 0 \<or> num = 1073741823 \<or> num = -1073741823 \<Longrightarrow> ends (env_layout E) (call_sys E num s) (-1) V"
  unfolding call_sys_def by (rule ends_DO_CALL) (auto simp: int_80_def syscall_asm_def ends_def)

lemma err_syscall_num_pass:
  assumes "test_ready E s0 V" "sees (env_layout E) V s"
  shows "ends (env_layout E) (err_syscall_num E s) 0 (pv_type (pass_line ''err_syscall_num'') V)"
  using assms unfolding err_syscall_num_def
  by (intro ends_check_then ends_verdict call_sys_rejected; simp add: test_ready_def test_lits_def)

lemma open_missing:
  assumes "test_ready E s0 V" "sees (env_layout E) V s" "l \<in> {''helloo'', ''shel'', []}" "dir_lookup s0 (chars l) = None"
  shows "ends (env_layout E) (ece391_open E (env_lit E l) s) (-1) V"
  using assms by (intro ends_open(2) [OF assms(2), of s0 _ "chars l"]) (auto simp: test_ready_def test_lits_def has_lit_def)

lemma err_open_pass:
  assumes "test_ready E s0 V" "sees (env_layout E) V s" "\<forall>l\<in>{''helloo'', ''shel'', []}. dir_lookup s0 (chars l) = None"
  shows "ends (env_layout E) (err_open E s) 0 (pv_type (pass_line ''err_open'') V)"
  using assms unfolding err_open_def
  by (intro ends_check_then [where V = V] ends_verdict open_missing [OF assms(1)]; simp add: test_ready_def test_lits_def)

lemma closed_rejected:
  assumes "sees (env_layout E) V s" "all_closed (pv_block V)"
  shows "i < 8 \<Longrightarrow> ends (env_layout E) (ece391_close E (int i) s) (-1) V"
    and "2 \<le> i \<Longrightarrow> i < 8 \<Longrightarrow> ends (env_layout E) (ece391_read E (int i) buf n s) (-1) V"
    and "2 \<le> i \<Longrightarrow> i < 8 \<Longrightarrow> ends (env_layout E) (ece391_write E (int i) buf n s) (-1) V"
  using assms(2) by (auto simp: all_closed_def intro!: ends_read_reject [OF assms(1)] ends_write_reject [OF assms(1)] ends_close(2) [OF assms(1)])

lemma err_unopened_pass:
  assumes "test_ready E s0 V" "sees (env_layout E) V s"
  shows "ends (env_layout E) (err_unopened E buf s) 0 (pv_type (pass_line ''err_unopened'') V)"
proof -
  have c: "all_closed (pv_block V)" using assms(1) by (simp add: test_ready_def test_lits_def)
  show ?thesis
    using assms unfolding err_unopened_def
    by (intro ends_each_check_then [where V = V] ends_verdict closed_rejected [OF _ c]; simp add: test_ready_def test_lits_def del: upt_rec_numeral)
qed

text \<open>Which of the descriptors from 2 on are open.\<close>

definition only_open :: "nat set \<Rightarrow> pcb \<Rightarrow> bool" where
  "only_open A b \<longleftrightarrow> std_fds b \<and> (\<forall>i\<in>{2..<8}. flag (file_array b i) = (if i \<in> A then 1 else 0) \<and> bitmap b i = (if i \<in> A then 1 else 0))"

lemma only_open_none: "only_open {} b \<longleftrightarrow> std_fds b \<and> all_closed b"
  by (auto simp: only_open_def all_closed_def)

lemma only_open_opened: "only_open A b \<Longrightarrow> 2 \<le> i \<Longrightarrow> only_open (insert i A) (opened i d b)"
  by (auto simp: only_open_def std_fds_def opened_def set_fd_def set_bitmap_def)

lemma only_open_closed: "only_open A b \<Longrightarrow> 2 \<le> i \<Longrightarrow> only_open (A - {i}) (closed i b)"
  by (auto simp: only_open_def std_fds_def closed_def set_fd_def set_bitmap_def)

lemma free_desc_only_open:
  assumes "only_open {2..<2 + k} b" "k \<le> 6"
  shows "free_desc (bitmap b) = (if k < 6 then int (2 + k) else -1)"
proof (cases "k < 6")
  case True
  then have k: "bitmap b (2 + k) = 0" and o: "\<And>j. 2 \<le> j \<Longrightarrow> j < 2 + k \<Longrightarrow> bitmap b j \<noteq> 0"
    using assms(1) by (simp_all add: only_open_def)
  have f: "free_desc (bitmap b) \<noteq> -1" "free_desc (bitmap b) \<le> int (2 + k)"
    using desc.alloc_succeeds [of "2 + k" "bitmap b"] k True by simp_all
  obtain i where i: "free_desc (bitmap b) = int i" "2 \<le> i" "\<not> bitmap b i \<noteq> 0" using desc.alloc_lowest [OF f(1)] by blast
  have "\<not> i < 2 + k" using o [OF i(2)] i(3) by blast
  then show ?thesis using True i(1) f(2) by simp
next
  case False
  then have "k = 6" using assms(2) by simp
  then have "\<forall>i. 2 \<le> i \<longrightarrow> i < 8 \<longrightarrow> bitmap b i \<noteq> 0" using assms(1) by (simp add: only_open_def)
  then show ?thesis using False desc.alloc_full by simp
qed

text \<open>The view but for its descriptors and the place in the directory.\<close>

definition keeps :: "prog_view \<Rightarrow> prog_view \<Rightarrow> bool" where
  "keeps V V' \<longleftrightarrow> pv_mem V' = pv_mem V \<and> pv_screen V' = pv_screen V \<and> pv_files V' = pv_files V"

lemma keeps_trans: "keeps V V' \<Longrightarrow> keeps V' V'' \<Longrightarrow> keeps V V''"
  by (simp add: keeps_def)

lemma each_append: "each f (xs @ ys) s = Option.bind (each f xs s) (each f ys)"
  by (induction xs arbitrary: s) (auto split: bind_splits)

lemma opens_some:
  fixes s0 :: "'a sys_state_scheme"
  assumes "has_lit E (pv_mem V) ''.''" "pv_files V = fs_core s0" "dir_lookup s0 (chars ''.'') = Some d" "sees (env_layout E) V s"
    and "only_open {2..<2 + k} (pv_block V)" "k + length xs \<le> 6"
  shows "\<exists>V'. ends (env_layout E) (each (\<lambda>i. open_count E) xs (cnt, s)) (cnt :: int) V' \<and> keeps V V' \<and> only_open {2..<2 + (k + length xs)} (pv_block V')"
  using assms
proof (induction xs arbitrary: k V s)
  case Nil
  then show ?case by (intro exI [of _ V]) (simp add: ends_return keeps_def)
next
  case (Cons x xs)
  let ?L = "env_layout E" and ?V = "V\<lparr>pv_dir := if ftype d = 1 then 0 else pv_dir V, pv_block := opened (2 + k) d (pv_block V)\<rparr>"
  have lit: "cstr_at (pv_mem V) (env_lit E ''.'') (chars ''.'')" "in_window (env_lit E ''.'') (Suc (length (chars ''.'')))"
    using Cons.prems(1) by (simp_all only: has_lit_def length_chars)
  have "free_desc (bitmap (pv_block V)) = int (2 + k)" using free_desc_only_open [OF Cons.prems(5)] Cons.prems(6) by simp
  then obtain s1 where s1: "ece391_open E (env_lit E ''.'') s = Some (int (2 + k), s1)" "sees ?L ?V s1"
    using ends_open(1) [OF Cons.prems(4,2) lit Cons.prems(3)] unfolding ends_def by blast
  have "insert (2 + k) {2..<2 + k} = {2..<2 + Suc k}" by auto
  then have b: "only_open {2..<2 + Suc k} (pv_block ?V)" using only_open_opened [OF Cons.prems(5), of "2 + k" d] by simp
  obtain V' where V': "ends ?L (each (\<lambda>i. open_count E) xs (cnt, s1)) cnt V'" "keeps ?V V'" "only_open {2..<2 + (Suc k + length xs)} (pv_block V')"
    using Cons.IH [OF _ _ Cons.prems(3) s1(2) b] Cons.prems(1,2,6) by auto
  have "keeps V ?V" by (simp add: keeps_def)
  moreover have "open_count E (cnt, s) = Some (cnt, s1)" using s1(1) by (simp add: open_count_def)
  ultimately show ?case using V' by (intro exI [of _ V']) (auto intro: keeps_trans)
qed

lemma closes_all:
  assumes "sees (env_layout E) V s" "only_open A (pv_block V)" "set xs \<subseteq> {2..<8}"
  shows "\<exists>V'. leaves (env_layout E) (each (\<lambda>i s. do { (_, s) \<leftarrow> ece391_close E (int i) s; Some s }) xs s) V'
    \<and> keeps V V' \<and> only_open (A - set xs) (pv_block V')"
  using assms
proof (induction xs arbitrary: A V s)
  case Nil
  then show ?case by (intro exI [of _ V]) (simp add: leaves_def keeps_def)
next
  case (Cons x xs)
  let ?L = "env_layout E"
  have x: "2 \<le> x" "x < 8" "flag (file_array (pv_block V) x) = (if x \<in> A then 1 else 0)" using Cons.prems(2,3) by (auto simp: only_open_def)
  obtain r V1 where "ends ?L (ece391_close E (int x) s) r V1" and V1: "keeps V V1" "only_open (A - {x}) (pv_block V1)"
  proof (cases "x \<in> A")
    case True
    then show ?thesis using ends_close(1) [OF Cons.prems(1) x(1,2)] x(3) only_open_closed [OF Cons.prems(2) x(1)] that by (auto simp: keeps_def)
  next
    case False
    then show ?thesis using ends_close(2) [OF Cons.prems(1), of "int x"] x Cons.prems(2) that by (auto simp: keeps_def)
  qed
  then obtain s1 where s1: "ece391_close E (int x) s = Some (r, s1)" "sees ?L V1 s1" by (auto simp: ends_def)
  obtain V' where V': "leaves ?L (each (\<lambda>i s. do { (_, s) \<leftarrow> ece391_close E (int i) s; Some s }) xs s1) V'" "keeps V1 V'"
      "only_open (A - {x} - set xs) (pv_block V')"
    using Cons.IH [OF s1(2) V1(2)] Cons.prems(3) by auto
  have "A - set (x # xs) = A - {x} - set xs" by auto
  then show ?case using V' V1(1) s1(1) by (intro exI [of _ V']) (auto intro: keeps_trans)
qed

lemma test_ready_keeps: "test_ready E s0 V \<Longrightarrow> keeps V V' \<Longrightarrow> only_open {} (pv_block V') \<Longrightarrow> test_ready E s0 V'"
  by (auto simp: test_ready_def test_lits_def keeps_def only_open_none)

lemma test_ready_typed [simp]: "test_ready E s0 (V\<lparr>pv_screen := t\<rparr>) = test_ready E s0 V"
  by (simp add: test_ready_def test_lits_def)

lemma err_open_lots_pass:
  assumes "test_ready E s0 V" "sees (env_layout E) V s" "dir_lookup s0 (chars ''.'') = Some d"
  shows "\<exists>V'. ends (env_layout E) (err_open_lots E s) 0 V' \<and> test_ready E s0 V' \<and> pv_screen V' = fold v_putc (pass_line ''err_open_lots'') (pv_screen V)"
proof -
  let ?L = "env_layout E"
  have dot: "has_lit E (pv_mem V) ''.''" and files: "pv_files V = fs_core s0" and none: "only_open {2..<2 + 0} (pv_block V)"
    using assms(1) by (simp_all add: test_ready_def test_lits_def only_open_none)
  obtain V1 where "ends ?L (each (\<lambda>i. open_count E) [0..<6] (0, s)) 0 V1" and V1: "keeps V V1" "only_open {2..<2 + 6} (pv_block V1)"
    using opens_some [OF dot files assms(3,2) none, of "[0..<6]"] by auto
  then obtain s1 where s1: "each (\<lambda>i. open_count E) [0..<6] (0, s) = Some (0, s1)" "sees ?L V1 s1" by (auto simp: ends_def)
  have full: "free_desc (bitmap (pv_block V1)) = -1" using free_desc_only_open [OF V1(2)] by simp
  have lit: "cstr_at (pv_mem V1) (env_lit E ''.'') (chars ''.'')" "in_window (env_lit E ''.'') (Suc (length (chars ''.'')))" "pv_files V1 = fs_core s0"
    using dot files V1(1) by (simp_all only: has_lit_def length_chars keeps_def)
  obtain s2 where s2: "ece391_open E (env_lit E ''.'') s1 = Some (-1, s2)" "sees ?L V1 s2"
    using ends_open(2) [OF s1(2) lit(3,1,2)] full unfolding ends_def by blast
  have "[0..<7] = [0..<6] @ [6]" by (simp flip: upt_Suc_append)
  then have opens: "each (\<lambda>i. open_count E) [0..<7] (0, s) = Some (1, s2)"
    using s1(1) s2(1) by (simp add: each_append open_count_def del: upt_rec_numeral)
  have "2 + 6 = (8 :: nat)" by simp
  then obtain V2 where "leaves ?L (each (\<lambda>i s. do { (_, s) \<leftarrow> ece391_close E (int i) s; Some s }) [2..<8] s2) V2"
      and V2: "keeps V1 V2" "only_open ({2..<8} - set [2..<8]) (pv_block V2)"
    using closes_all [OF s2(2) V1(2), of "[2..<8]"] by (auto simp del: upt_rec_numeral)
  then obtain s3 where s3: "each (\<lambda>i s. do { (_, s) \<leftarrow> ece391_close E (int i) s; Some s }) [2..<8] s2 = Some s3" "sees ?L V2 s3"
    by (auto simp: leaves_def simp del: upt_rec_numeral)
  have r: "test_ready E s0 V2" using test_ready_keeps [OF assms(1) keeps_trans [OF V1(1) V2(1)]] V2(2) by (simp del: upt_rec_numeral)
  have scr: "pv_screen V2 = pv_screen V" using keeps_trans [OF V1(1) V2(1)] by (simp add: keeps_def)
  let ?l = "ln (''err_open_lots'' @ '': PASS'')"
  have l: "std_fds (pv_block V2)" "has_lit E (pv_mem V2) ?l" "length ?l < 2050" using r unfolding test_ready_def test_lits_def by (simp_all add: ln_def)
  obtain s4 where s4: "put E ?l s3 = Some s4" "sees ?L (pv_type (chars ?l) V2) s4"
    using leaves_put [OF s3(2) l] unfolding leaves_def by blast
  have "err_open_lots E s = Some (0, s4)"
    using opens s3(1) s4(1) by (simp add: err_open_lots_def ln_def del: upt_rec_numeral)
  then have "ends ?L (err_open_lots E s) 0 (pv_type (pass_line ''err_open_lots'') V2)" using s4(2) by (simp add: ends_def pass_line_def)
  then show ?thesis using r scr by (intro exI [of _ "pv_type (pass_line ''err_open_lots'') V2"]) simp
qed

text \<open>A list of tests that all pass.\<close>

definition passes :: "'a sys_state_scheme prog_env \<Rightarrow> 'a sys_state_scheme \<Rightarrow> string \<Rightarrow> ('a sys_state_scheme \<Rightarrow> (int \<times> 'a sys_state_scheme) option) \<Rightarrow> bool" where
  "passes E s0 n test \<longleftrightarrow> (\<forall>V s. test_ready E s0 V \<longrightarrow> sees (env_layout E) V s \<longrightarrow>
     (\<exists>V'. ends (env_layout E) (test s) 0 V' \<and> test_ready E s0 V' \<and> pv_screen V' = fold v_putc (pass_line n) (pv_screen V)))"

lemma passesI:
  fixes E :: "'a sys_state_scheme prog_env"
  assumes "\<And>V s. test_ready E s0 V \<Longrightarrow> sees (env_layout E) V s \<Longrightarrow> ends (env_layout E) (test s) 0 (pv_type (pass_line n) V)"
  shows "passes E s0 n test"
  unfolding passes_def
proof (intro allI impI)
  fix V and s :: "'a sys_state_scheme"
  assume "test_ready E s0 V" "sees (env_layout E) V s"
  then show "\<exists>V'. ends (env_layout E) (test s) 0 V' \<and> test_ready E s0 V' \<and> pv_screen V' = fold v_putc (pass_line n) (pv_screen V)"
    using assms by (intro exI [of _ "pv_type (pass_line n) V"]) simp
qed

lemma all_pass:
  assumes "list_all2 (passes E s0) ns tests" "test_ready E s0 V" "sees (env_layout E) V s"
  shows "\<exists>V'. ends (env_layout E) (each (\<lambda>test (fail, s). do { (f, s) \<leftarrow> test s; Some (fail + f, s) }) tests (fail, s)) (fail :: int) V'
    \<and> test_ready E s0 V' \<and> pv_screen V' = fold v_putc (concat (map pass_line ns)) (pv_screen V)"
  using assms
proof (induction ns tests arbitrary: V s rule: list_all2_induct)
  case Nil
  then show ?case by (intro exI [of _ V]) (simp add: ends_return)
next
  case (Cons n ns test tests)
  obtain V1 where "ends (env_layout E) (test s) 0 V1" and V1: "test_ready E s0 V1" "pv_screen V1 = fold v_putc (pass_line n) (pv_screen V)"
    using Cons.hyps(1) Cons.prems unfolding passes_def by blast
  then obtain s1 where s1: "test s = Some (0, s1)" "sees (env_layout E) V1 s1" by (auto simp: ends_def)
  show ?case using Cons.IH [OF V1(1) s1(2)] s1(1) V1(2) by simp
qed

definition test_names :: "string list" where
  "test_names = [''err_neg_fd'', ''err_big_fd'', ''err_open_lots'', ''err_open'', ''err_unopened'', ''err_vidmap'', ''err_stdin_out'', ''err_syscall_num'']"

lemma syserr_tests_pass_all:
  assumes "dir_lookup s0 (chars ''.'') = Some d" "\<forall>l\<in>{''helloo'', ''shel'', []}. dir_lookup s0 (chars l) = None"
  shows "list_all2 (passes E s0) test_names (syserr_tests E tbuf)"
proof -
  have "passes E s0 ''err_open_lots'' (err_open_lots E)" unfolding passes_def using err_open_lots_pass assms(1) by blast
  moreover have "passes E s0 ''err_open'' (err_open E)" using err_open_pass assms(2) by (intro passesI)
  ultimately show ?thesis
    by (simp add: test_names_def syserr_tests_def passesI err_fd_pass err_unopened_pass err_vidmap_pass err_stdin_out_pass err_syscall_num_pass)
qed

text \<open>
  C28: the kernel passes its error tests. Told to run all of them (a line that starts with 0), with
  \<open>.\<close> in the directory, no entry of the names \<open>helloo\<close>, \<open>shel\<close> and the empty name, and no
  descriptor open, the test program returns 0 and reports \<open>PASS\<close> for each of its eight tests: a negative
  and a big descriptor are refused by \<open>read\<close>, \<open>write\<close> and \<open>close\<close>, the seventh \<open>open\<close> fails, wrong
  names are not found, unopened descriptors cannot be read, written or closed, \<open>vidmap\<close> refuses
  the two pointers the test passes, the null pointer and \<open>0x400000\<close> (the only two that it refuses: it does not
  check that a pointer lies in the user page), standard input and output have one direction, and system
  calls out of the range return -1.
\<close>

theorem syserr_tests_pass:
  fixes E :: "'a sys_state_scheme prog_env" and s0 :: "'a sys_state_scheme"
  defines "p \<equiv> ''Choose from tests 1-8. 0 to run all: ''"
  assumes "sees (env_layout E) V s" and "std_fds (pv_block V)" and "all_closed (pv_block V)" and "pv_files V = fs_core s0"
    and "dir_lookup s0 (chars ''.'') = Some d" and "\<forall>l\<in>{''helloo'', ''shel'', []}. dir_lookup s0 (chars l) = None"
    and "has_lit E (pv_mem V) p" and "\<forall>l\<in>test_lits. lit_apart E (pv_mem V) buf 127 l"
    and "line_arrives E (pv_type (chars p) V) (48 # cs) V'" and "length cs < 126" and "in_window buf 127"
  shows "\<exists>s'. syserr_main E buf tbuf s = Some (0, s') \<and> prog_ok (env_layout E) s'
    \<and> vterm_of s' (active_terminal s') = fold v_putc (concat (map pass_line test_names) @ chars (CHR 0x0A # ln ''Overall Tests: PASS'')) (pv_screen V')"
proof -
  let ?L = "env_layout E" and ?l = "CHR 0x0A # ln ''Overall Tests: PASS''"
  have plen: "length p < 2050" "length ?l < 2050" by (simp_all add: p_def ln_def)
  have V': "pv_mem V' = pv_mem V" "pv_files V' = pv_files V" using assms(10) by (simp_all add: line_arrives_def)
  obtain s1 where s1: "put E p s = Some s1" "sees ?L (pv_type (chars p) V) s1"
    using leaves_put [OF assms(2,3,8) plen(1)] by (auto simp: leaves_def)
  let ?V2 = "\<lambda>bs. V'\<lparr>pv_mem := write_bytes (pv_mem V) buf bs, pv_ready := 0, pv_block := advanced 0 (int (Suc (length cs))) (pv_block V)\<rparr>"
  have std: "std_fds (pv_block (pv_type (chars p) V))" and len: "length (48 # cs) < 127" using assms(3,11) by simp_all
  obtain bs where bs: "length bs = 127" "take (Suc (length (48 # cs))) bs = (48 # cs) @ [0]"
      and "ends ?L (ece391_read E 0 buf (int 127) s1) (int (Suc (length cs))) (?V2 bs)"
    using ends_read_line [OF s1(2) std assms(10) len _ assms(12)] by (auto simp: V'(1))
  then obtain s2 where s2: "ece391_read E 0 buf 127 s1 = Some (int (Suc (length cs)), s2)" "sees ?L (?V2 bs) s2"
    by (auto simp: ends_def)
  have "pview s2 = ?V2 bs" "user_mapped ?L (curr s2) s2" using s2(2) by (auto simp: sees_def prog_ok_def)
  moreover obtain rest where rest: "bs = 48 # rest" using bs(2) by (cases bs) auto
  moreover have "write_bytes (pv_mem V) buf bs buf = 48"
  proof -
    have "bytes_at (write_bytes (pv_mem V) buf bs) buf 127 = bs" using bytes_at_write_bytes [of bs "pv_mem V" buf] bs(1) by simp
    then have "bytes_at (write_bytes (pv_mem V) buf bs) buf 127 ! 0 = 48" using rest by simp
    then show ?thesis by (simp add: bytes_at_def del: upt_rec_numeral)
  qed
  moreover have "in_window buf (Suc 0)" using assms(12) by (simp add: in_window_def)
  ultimately have sel: "view ?L s2 buf = 48" using window_view [of ?L s2 buf] by simp
  have "has_lit E (write_bytes (pv_mem V) buf bs) l" if "l \<in> test_lits" for l
    using lit_apart_write [of E "pv_mem V" buf 127 l 0 bs] assms(9) that bs(1) by (simp add: lit_apart_def)
  moreover have "all_closed (advanced 0 (int (Suc (length cs))) (pv_block V))" using assms(4) by (simp add: all_closed_def advanced_def)
  ultimately have r: "test_ready E s0 (?V2 bs)"
    using std_fds_advanced [OF assms(3)] assms(5) V'(2) by (simp add: test_ready_def)
  obtain V3 where "ends ?L (each (\<lambda>test (fail, s). do { (f, s) \<leftarrow> test s; Some (fail + f, s) }) (syserr_tests E tbuf) (0, s2)) 0 V3"
      and V3: "test_ready E s0 V3" "pv_screen V3 = fold v_putc (concat (map pass_line test_names)) (pv_screen V')"
    using all_pass [OF syserr_tests_pass_all [OF assms(6,7)] r s2(2)] by auto
  then obtain s3 where s3: "each (\<lambda>test (fail, s). do { (f, s) \<leftarrow> test s; Some (fail + f, s) }) (syserr_tests E tbuf) (0, s2) = Some (0, s3)" "sees ?L V3 s3"
    by (auto simp: ends_def)
  have l: "std_fds (pv_block V3)" "has_lit E (pv_mem V3) ?l" using V3(1) by (auto simp: test_ready_def test_lits_def)
  obtain s4 where s4: "put E ?l s3 = Some s4" "sees ?L (pv_type (chars ?l) V3) s4"
    using leaves_put [OF s3(2) l plen(2)] unfolding leaves_def by blast
  have "syserr_main E buf tbuf s = Some (0, s4)"
    using s1(1) s2(1) sel s3(1) s4(1) by (simp add: syserr_main_def p_def)
  then show ?thesis using sees_screen [OF s4(2)] V3(2) by (intro exI [of _ s4]) simp
qed

end
