(* ===== verification/User_Grep.thy ===== *)
theory User_Grep
  imports User_Programs "HOL-Library.Sublist"
begin

text \<open>
  The program \<open>grep\<close> (\<open>syscalls/ece391grep.c\<close>), which prints the lines of the files of the directory
  that contain a string: a buffer that is filled by reads at growing offsets, cut into lines in
  place, and whose incomplete last line is moved to the front.
\<close>

section \<open>The program\<close>

text \<open>
  The indices into \<open>data\<close> are \<open>int\<close>. \<open>s\<close> of the source (\<open>str\<close> here) is a pointer to signed characters
  and \<open>data\<close> an array of unsigned ones, and the first comparison is made on their promoted values.
\<close>

function grep_eol :: "memory \<Rightarrow> u32 \<Rightarrow> int \<Rightarrow> int \<Rightarrow> int" where
  "grep_eol m data filled line_end =
     (if line_end < filled \<and> m (data + of_int line_end) \<noteq> 10 then grep_eol m data filled (line_end + 1) else line_end)"
  by pat_completeness auto
termination by (relation "measure (\<lambda>(m, data, filled, line_end). nat (filled - line_end))") auto

declare grep_eol.simps [simp del]

function grep_search ::
  "'a sys_state_scheme prog_env \<Rightarrow> u32 \<Rightarrow> u32 \<Rightarrow> u32 \<Rightarrow> int \<Rightarrow> int \<Rightarrow> int \<Rightarrow> int \<Rightarrow> 'a sys_state_scheme \<Rightarrow> 'a sys_state_scheme option" where
  "grep_search E str fnm data s_len line_start line_end check s =
     (if check < line_end then
        let m = view (env_layout E) s
        in if sint (m str) = uint (m (data + of_int check)) \<and> ece391_strncmp m (data + of_int check) m str (of_int s_len) = 0
           then do { s \<leftarrow> ece391_fdputs E 1 fnm s;
                     s \<leftarrow> put E '':'' s;
                     s \<leftarrow> ece391_fdputs E 1 (data + of_int line_start) s;
                     put E (ln []) s }
           else grep_search E str fnm data s_len line_start line_end (check + 1) s
      else Some s)"
  by pat_completeness auto
termination by (relation "measure (\<lambda>(E, str, fnm, data, s_len, line_start, line_end, check, s). nat (line_end - check))") auto

declare grep_search.simps [simp del]

text \<open>\<open>ece391_strcpy\<close>, store by store.\<close>

partial_function (option) run_strcpy :: "layout \<Rightarrow> u32 \<Rightarrow> u32 \<Rightarrow> 'a sys_state_scheme \<Rightarrow> 'a sys_state_scheme option" where
  "run_strcpy L dst src s =
     (let c = view L s src
      in do { s \<leftarrow> store_byte L dst c s;
              if c \<noteq> 0 then run_strcpy L (dst + 1) (src + 1) s else Some s })"

text \<open>The loop over the lines in the buffer, which returns the new value of \<open>last\<close> (\<open>filled\<close> here).\<close>

partial_function (option) grep_lines ::
  "'a sys_state_scheme prog_env \<Rightarrow> u32 \<Rightarrow> u32 \<Rightarrow> u32 \<Rightarrow> int \<Rightarrow> int \<Rightarrow> int \<Rightarrow> int \<Rightarrow> 'a sys_state_scheme \<Rightarrow> (int \<times> 'a sys_state_scheme) option" where
  "grep_lines E str fnm data s_len cnt filled line_start s =
     (let line_end = grep_eol (view (env_layout E) s) data filled line_start
      in if view (env_layout E) s (data + of_int line_end) \<noteq> 10 \<and> cnt \<noteq> 0 \<and> line_start \<noteq> 0
         then do {
           s \<leftarrow> store_byte (env_layout E) (data + of_int line_end) 0 s;
           s \<leftarrow> run_strcpy (env_layout E) data (data + of_int line_start) s;
           Some (filled - line_start, s) }
         else do {
           s \<leftarrow> store_byte (env_layout E) (data + of_int line_end) 0 s;
           s \<leftarrow> grep_search E str fnm data s_len line_start line_end line_start s;
           if line_end + 1 \<ge> filled then Some (0, s)
           else grep_lines E str fnm data s_len cnt filled (line_end + 1) s })"

partial_function (option) grep_file ::
  "'a sys_state_scheme prog_env \<Rightarrow> u32 \<Rightarrow> u32 \<Rightarrow> u32 \<Rightarrow> int \<Rightarrow> int \<Rightarrow> int \<Rightarrow> 'a sys_state_scheme \<Rightarrow> (int \<times> 'a sys_state_scheme) option" where
  "grep_file E str fnm data s_len fd filled s =
     do { (cnt, s) \<leftarrow> ece391_read E fd (data + of_int filled) (1024 - filled) s;
          if cnt = -1 then do { s \<leftarrow> put E (ln ''file read failed'') s; Some (-1, s) }
          else do {
            (filled, s) \<leftarrow> grep_lines E str fnm data s_len cnt (filled + cnt) 0 s;
            if cnt = 0 then do {
              (r, s) \<leftarrow> ece391_close E fd s;
              if r = -1 then do { s \<leftarrow> put E (ln ''file close failed'') s; Some (-1, s) } else Some (0, s) }
            else grep_file E str fnm data s_len fd filled s } }"

definition do_one_file ::
  "'a sys_state_scheme prog_env \<Rightarrow> u32 \<Rightarrow> u32 \<Rightarrow> u32 \<Rightarrow> 'a sys_state_scheme \<Rightarrow> (int \<times> 'a sys_state_scheme) option" where
  "do_one_file E str fnm data s =
     do { n \<leftarrow> ece391_strlen (view (env_layout E) s) str;
          (fd, s) \<leftarrow> ece391_open E fnm s;
          if fd = -1 then do { s \<leftarrow> put E (ln ''file open failed'') s; Some (-1, s) }
          else grep_file E str fnm data (sint n) fd 0 s }"

partial_function (option) grep_loop ::
  "'a sys_state_scheme prog_env \<Rightarrow> u32 \<Rightarrow> u32 \<Rightarrow> u32 \<Rightarrow> int \<Rightarrow> 'a sys_state_scheme \<Rightarrow> (int \<times> 'a sys_state_scheme) option" where
  "grep_loop E buf search data fd s =
     do { (cnt, s) \<leftarrow> ece391_read E fd buf 32 s;
          if cnt = 0 then Some (0, s)
          else if cnt = -1 then do { s \<leftarrow> put E (ln ''directory entry read failed'') s; Some (3, s) }
          else if view (env_layout E) s buf = 46 then grep_loop E buf search data fd s
          else do {
            s \<leftarrow> store_byte (env_layout E) (buf + of_int cnt) 0 s;
            (r, s) \<leftarrow> do_one_file E search buf data s;
            if r \<noteq> 0 then Some (3, s) else grep_loop E buf search data fd s } }"

definition grep_main ::
  "'a sys_state_scheme prog_env \<Rightarrow> u32 \<Rightarrow> u32 \<Rightarrow> u32 \<Rightarrow> 'a sys_state_scheme \<Rightarrow> (int \<times> 'a sys_state_scheme) option" where
  "grep_main E buf search data s =
     do { (r, s) \<leftarrow> ece391_getargs E search 1024 s;
          if r \<noteq> 0 then do { s \<leftarrow> put E (ln ''could not read argument'') s; Some (3, s) }
          else do {
            (fd, s) \<leftarrow> ece391_open E (env_lit E ''.'') s;
            if fd = -1 then do { s \<leftarrow> put E (ln ''directory open failed'') s; Some (2, s) }
            else grep_loop E buf search data fd s } }"

section \<open>What it is meant to print\<close>

text \<open>The lines of a text, and what is printed for a file.\<close>

fun text_lines :: "u8 list \<Rightarrow> u8 list list" where
  "text_lines [] = [[]]"
| "text_lines (c # cs) = (if c = 10 then [] # text_lines cs else (c # hd (text_lines cs)) # tl (text_lines cs))"

definition grep_text :: "u8 list \<Rightarrow> u8 list \<Rightarrow> u8 list \<Rightarrow> u8 list" where
  "grep_text p name t = concat (map (\<lambda>l. name @ [58] @ l @ [10]) (filter (sublist p) (text_lines t)))"

lemma text_lines_line: "10 \<notin> set l \<Longrightarrow> text_lines l = [l]"
  by (induction l) auto

lemma text_lines_break: "10 \<notin> set l \<Longrightarrow> text_lines (l @ 10 # u) = l # text_lines u"
  by (induction l) auto

lemma grep_text_line: "10 \<notin> set l \<Longrightarrow> grep_text p name l = (if sublist p l then name @ [58] @ l @ [10] else [])"
  by (simp add: grep_text_def text_lines_line)

lemma grep_text_break: "10 \<notin> set l \<Longrightarrow> grep_text p name (l @ 10 # u) = grep_text p name l @ grep_text p name u"
  by (simp add: grep_text_def text_lines_break text_lines_line)

lemma grep_text_Nil: "p \<noteq> [] \<Longrightarrow> grep_text p name [] = []"
  by (simp add: grep_text_line)

section \<open>The pieces of the loop\<close>

lemma grep_eol_spec:
  "bytes_at m (data + of_nat i) (length t) = t \<Longrightarrow>
     grep_eol m data (int (i + length t)) (int i) = int (i + length (takeWhile (\<lambda>c. c \<noteq> 10) t))"
proof (induction t arbitrary: i)
  case Nil
  then show ?case by (simp add: grep_eol.simps)
next
  case (Cons c t)
  have c: "m (data + of_nat i) = c" "bytes_at m (data + of_nat (Suc i)) (length t) = t"
    using Cons.prems by (simp_all add: bytes_at_Suc algebra_simps)
  have "grep_eol m data (int (Suc i + length t)) (int (Suc i)) = int (Suc i + length (takeWhile (\<lambda>c. c \<noteq> 10) t))"
    by (rule Cons.IH [OF c(2)])
  then show ?case using c(1) by (subst grep_eol.simps) (simp add: algebra_simps)
qed

text \<open>A string of the program that the buffer of \<open>n\<close> bytes at \<open>buf\<close> does not touch.\<close>

definition str_apart :: "memory \<Rightarrow> u32 \<Rightarrow> nat \<Rightarrow> u32 \<Rightarrow> u8 list \<Rightarrow> bool" where
  "str_apart m buf n a cs \<longleftrightarrow> cstr_at m a cs \<and> in_window a (Suc (length cs)) \<and> region buf n \<inter> region a (Suc (length cs)) = {}"

lemma str_apart_lit: "lit_apart E m buf n cs \<longleftrightarrow> str_apart m buf n (env_lit E cs) (chars cs)"
  by (simp add: lit_apart_def has_lit_def str_apart_def)

lemma str_apart_cong:
  assumes "str_apart m buf n a cs" "\<And>x. x \<notin> region buf n \<Longrightarrow> m' x = m x"
  shows "str_apart m' buf n a cs"
proof -
  have "m x = m' x" if "x \<in> region a (Suc (length cs))" for x
  proof -
    have "x \<notin> region buf n" using assms(1) that unfolding str_apart_def by blast
    then show ?thesis using assms(2) by simp
  qed
  then have "cstr_at m a cs = cstr_at m' a cs" by (rule cstr_at_cong)
  then show ?thesis using assms(1) by (simp add: str_apart_def)
qed

lemma leaves_str:
  assumes "sees (env_layout E) V s" "std_fds (pv_block V)" "str_apart (pv_mem V) buf n a cs" "length cs < 2050"
  shows "leaves (env_layout E) (ece391_fdputs E 1 a s) (pv_type cs V)"
  using assms by (intro ends_fdputs) (simp_all add: str_apart_def)

lemma leaves_then: "leaves L x V \<Longrightarrow> (\<And>s. sees L V s \<Longrightarrow> leaves L (g s) W) \<Longrightarrow> leaves L (Option.bind x g) W"
  by (auto simp: leaves_def)

text \<open>What \<open>grep\<close> needs of the view: the literals, the name of the file and the string, apart from the buffer.\<close>

definition grep_env :: "'s prog_env \<Rightarrow> u32 \<Rightarrow> u8 list \<Rightarrow> u32 \<Rightarrow> u8 list \<Rightarrow> u32 \<Rightarrow> prog_view \<Rightarrow> bool" where
  "grep_env E str p fnm name data V \<longleftrightarrow> std_fds (pv_block V) \<and> lit_apart E (pv_mem V) data 1025 '':'' \<and> lit_apart E (pv_mem V) data 1025 (ln [])
     \<and> str_apart (pv_mem V) data 1025 fnm name \<and> length name < 2050 \<and> str_apart (pv_mem V) data 1025 str p"

definition outside :: "u32 \<Rightarrow> prog_view \<Rightarrow> prog_view \<Rightarrow> bool" where
  "outside data V W \<longleftrightarrow> pv_block W = pv_block V \<and> pv_files W = pv_files V \<and> pv_dir W = pv_dir V
     \<and> (\<forall>x. x \<notin> region data 1025 \<longrightarrow> pv_mem W x = pv_mem V x)"

lemma outside_trans: "outside data V W \<Longrightarrow> outside data W X \<Longrightarrow> outside data V X"
  by (simp add: outside_def)

lemma grep_env_outside: "grep_env E str p fnm name data V \<Longrightarrow> outside data V W \<Longrightarrow> grep_env E str p fnm name data W"
  unfolding grep_env_def outside_def str_apart_lit using str_apart_cong by metis

lemma show_line:
  fixes E :: "'a sys_state_scheme prog_env" and s :: "'a sys_state_scheme"
  assumes "grep_env E str p fnm name data V" "sees (env_layout E) V s" "cstr_at (pv_mem V) a l" "in_window a (Suc (length l))" "length l < 2050"
  shows "leaves (env_layout E) (do { s \<leftarrow> ece391_fdputs E 1 fnm s; s \<leftarrow> put E '':'' s; s \<leftarrow> ece391_fdputs E 1 a s; put E (ln []) s })
    (pv_type (name @ [58] @ l @ [10]) V)"
proof -
  have b: "std_fds (pv_block V)" and n: "str_apart (pv_mem V) data 1025 fnm name" "length name < 2050"
    and c: "has_lit E (pv_mem V) '':''" "has_lit E (pv_mem V) (ln [])" using assms(1) by (simp_all add: grep_env_def lit_apart_def)
  have w: "pv_type (name @ [58] @ l @ [10]) V = pv_type (chars (ln [])) (pv_type l (pv_type (chars '':'') (pv_type name V)))"
    by (simp add: chars_def ln_def)
  show ?thesis unfolding w
  proof (intro leaves_then)
    show "leaves (env_layout E) (ece391_fdputs E 1 fnm s) (pv_type name V)" by (rule leaves_str [OF assms(2) b n])
  next
    fix s :: "'a sys_state_scheme" assume "sees (env_layout E) (pv_type name V) s"
    then show "leaves (env_layout E) (put E '':'' s) (pv_type (chars '':'') (pv_type name V))" by (rule leaves_put) (use b c in simp_all)
  next
    fix s :: "'a sys_state_scheme" assume "sees (env_layout E) (pv_type (chars '':'') (pv_type name V)) s"
    then show "leaves (env_layout E) (ece391_fdputs E 1 a s) (pv_type l (pv_type (chars '':'') (pv_type name V)))"
      by (rule ends_fdputs) (use b assms(3-5) in simp_all)
  next
    fix s :: "'a sys_state_scheme" assume "sees (env_layout E) (pv_type l (pv_type (chars '':'') (pv_type name V))) s"
    then show "leaves (env_layout E) (put E (ln []) s) (pv_type (chars (ln [])) (pv_type l (pv_type (chars '':'') (pv_type name V))))"
      by (rule leaves_put) (use b c in \<open>simp_all add: ln_def\<close>)
  qed
qed

text \<open>The search in one line.\<close>

lemma in_window_add: "in_window a (i + n) \<Longrightarrow> i < 4294967296 \<Longrightarrow> in_window (a + of_nat i) n"
  by (simp add: in_window_def unat_word_ariths)

lemma sint_ascii:
  fixes c :: u8
  assumes "c < 128"
  shows "sint c = uint c"
proof -
  have "uint c < 128" using assms by (simp add: word_less_alt)
  moreover have "- 128 \<le> uint c" using uint_ge_0 [of c] by linarith
  ultimately show ?thesis by (simp add: sint_uint signed_take_bit_int_eq_self [of 7])
qed

lemma search_hit:
  assumes "sees (env_layout E) V s" "str_apart (pv_mem V) data n str p" "p \<noteq> []" "hd p < 128" "length p < 2147483648"
    and "cstr_at (pv_mem V) (a + of_nat k) (drop k l)" "in_window (a + of_nat k) (Suc (length (drop k l)))" "k < length l"
  shows "(let m = view (env_layout E) s in sint (m str) = uint (m (a + of_nat k)) \<and> ece391_strncmp m (a + of_nat k) m str (of_nat (length p)) = 0)
    \<longleftrightarrow> prefix p (drop k l)"
proof -
  let ?m = "view (env_layout E) s"
  have V: "V = pview s" "user_mapped (env_layout E) (curr s) s" using assms(1) by (auto simp: sees_def prog_ok_def)
  have p: "cstr_at ?m str p" using assms(2) window_cstr [OF V(2)] by (simp add: str_apart_def V(1))
  have l: "cstr_at ?m (a + of_nat k) (drop k l)" using assms(6) window_cstr [OF V(2) assms(7)] by (simp add: V(1))
  obtain c q where c: "p = c # q" using assms(3) by (cases p) auto
  obtain d r where d: "drop k l = d # r" using assms(8) by (cases "drop k l") auto
  have m: "?m str = c" "?m (a + of_nat k) = d" using p l by (simp_all add: c d cstr_at_Cons)
  have "sint c = uint c" using assms(4) by (simp add: c sint_ascii)
  then have first: "sint (?m str) = uint (?m (a + of_nat k)) \<longleftrightarrow> c = d" by (simp only: m word_uint_eq_iff)
  have "ece391_strncmp ?m (a + of_nat k) ?m str (of_nat (length p)) = 0 \<longleftrightarrow> take (length p) (drop k l) = take (length p) p"
    using user_strncmp.cmp_cstr [OF l p] assms(5) by simp
  moreover have "take (length p) (drop k l) = p \<longleftrightarrow> prefix p (drop k l)" by (metis append_eq_conv_conj prefix_def)
  moreover have "c = d" if "prefix p (drop k l)" using that by (simp add: c d)
  ultimately show ?thesis unfolding Let_def first by auto
qed

lemma grep_search_spec:
  fixes E :: "'a sys_state_scheme prog_env" and s :: "'a sys_state_scheme"
  assumes "grep_env E str p fnm name data V" "sees (env_layout E) V s" "p \<noteq> []" "hd p < 128" "length p < 2147483648"
    and "a = data + of_nat i" "cstr_at (pv_mem V) a l" "in_window a (Suc (length l))" "length l < 2050" "k \<le> length l"
  shows "leaves (env_layout E) (grep_search E str fnm data (int (length p)) (int i) (int (i + length l)) (int (i + k)) s)
    (if sublist p (drop k l) then pv_type (name @ [58] @ l @ [10]) V else V)"
  using assms(10)
proof (induction "length l - k" arbitrary: k)
  case 0
  then have "k = length l" by simp
  then show ?case using assms(2,3) by (simp add: grep_search.simps leaves_def)
next
  case (Suc j)
  let ?L = "env_layout E"
  have k: "k < length l" "j = length l - Suc k" using Suc.hyps(2) by simp_all
  have d: "cstr_at (pv_mem V) (a + of_nat k) (drop k l)" using cstr_at_drop [OF assms(7)] k by simp
  have "in_window a (k + Suc (length (drop k l)))" using assms(8) k(1) by simp
  then have w: "in_window (a + of_nat k) (Suc (length (drop k l)))" using assms(9) k(1) by (intro in_window_add) simp_all
  have str: "str_apart (pv_mem V) data 1025 str p" using assms(1) by (simp add: grep_env_def)
  have e: "data + of_int (int (i + k)) = a + of_nat k" "data + of_int (int i) = a" by (simp_all add: assms(6))
  have hit: "(let m = view ?L s in sint (m str) = uint (m (data + of_int (int (i + k)))) \<and> ece391_strncmp m (data + of_int (int (i + k))) m str (of_int (int (length p))) = 0)
      \<longleftrightarrow> prefix p (drop k l)"
    unfolding e using search_hit [OF assms(2) str assms(3-5) d w k(1)] by simp
  have drop: "drop k l = l ! k # drop (Suc k) l" using k(1) by (simp add: Cons_nth_drop_Suc)
  show ?case
  proof (cases "prefix p (drop k l)")
    case True
    then have "sublist p (drop k l)" by (rule prefix_imp_sublist)
    moreover have "grep_search E str fnm data (int (length p)) (int i) (int (i + length l)) (int (i + k)) s =
        do { s \<leftarrow> ece391_fdputs E 1 fnm s; s \<leftarrow> put E '':'' s; s \<leftarrow> ece391_fdputs E 1 a s; put E (ln []) s }"
      using True hit k(1) by (subst grep_search.simps) (simp add: Let_def e(2) [simplified])
    ultimately show ?thesis using show_line [OF assms(1,2,7-9)] by simp
  next
    case False
    then have "sublist p (drop k l) = sublist p (drop (Suc k) l)" by (simp add: drop sublist_Cons_right)
    moreover have "grep_search E str fnm data (int (length p)) (int i) (int (i + length l)) (int (i + k)) s =
        grep_search E str fnm data (int (length p)) (int i) (int (i + length l)) (int (i + Suc k)) s"
      using False hit k(1) by (subst grep_search.simps) (auto simp: Let_def algebra_simps)
    ultimately show ?thesis using Suc.hyps(1) [OF k(2)] k(1) by simp
  qed
qed

text \<open>The move of the last, incomplete line to the front.\<close>

lemma run_strcpy_spec:
  assumes "sees L V s" "cstr_at (pv_mem V) (dst + of_nat i) cs" "0 < i" "i + length cs < 4096"
    and "in_window dst (Suc (length cs))" "in_window (dst + of_nat i) (Suc (length cs))"
  shows "leaves L (run_strcpy L dst (dst + of_nat i) s) (V\<lparr>pv_mem := write_bytes (pv_mem V) dst (cs @ [0])\<rparr>)"
  using assms
proof (induction cs arbitrary: dst V s)
  case Nil
  have V: "V = pview s" "user_mapped L (curr s) s" using Nil(1) by (auto simp: sees_def prog_ok_def)
  have "view L s (dst + of_nat i) = 0" using window_view [OF V(2), of "dst + of_nat i"] Nil(2,6) by (simp add: V(1))
  then show ?case using leaves_store [OF Nil(1), of dst 0] Nil(5) by (subst run_strcpy.simps) (auto simp: leaves_def)
next
  case (Cons c cs)
  have V: "V = pview s" "user_mapped L (curr s) s" using Cons.prems(1) by (auto simp: sees_def prog_ok_def)
  have c: "c \<noteq> 0" "pv_mem V (dst + of_nat i) = c" "cstr_at (pv_mem V) (dst + of_nat i + 1) cs" using Cons.prems(2) by (simp_all add: cstr_at_Cons)
  have w: "in_window (dst + of_nat i) (Suc 0)" "in_window dst (Suc 0)" "in_window (dst + 1) (Suc (length cs))" "in_window (dst + 1 + of_nat i) (Suc (length cs))"
    using Cons.prems(5,6) in_window_step [of dst "Suc (length cs)"] in_window_step [of "dst + of_nat i" "Suc (length cs)"]
    by (simp_all add: in_window_def algebra_simps)
  have v: "view L s (dst + of_nat i) = c" using window_view [OF V(2) w(1)] c(2) by (simp add: V(1))
  let ?V = "V\<lparr>pv_mem := (pv_mem V)(dst := c)\<rparr>"
  obtain s1 where s1: "store_byte L dst c s = Some s1" "sees L ?V s1" using leaves_store [OF Cons.prems(1) w(2)] by (auto simp: leaves_def)
  have "dst \<noteq> x" if x: "x \<in> region (dst + of_nat i + 1) (Suc (length cs))" for x
  proof
    assume "dst = x"
    obtain k where k: "x = dst + of_nat i + 1 + of_nat k" "k < Suc (length cs)" using x by (rule region_obtain) (use Cons.prems(4) in simp)
    then have "of_nat (i + 1 + k) = (0 :: u32)" using \<open>dst = x\<close> by (simp add: algebra_simps)
    then have "unat (of_nat (i + 1 + k) :: u32) = 0" by simp
    moreover have "i + 1 + k < 4294967296" using k(2) Cons.prems(4) by simp
    ultimately show False by (simp only: unat_of_nat32)
  qed
  then have "cstr_at (pv_mem V) (dst + of_nat i + 1) cs = cstr_at (pv_mem ?V) (dst + of_nat i + 1) cs" by (intro cstr_at_cong) auto
  then have src: "cstr_at (pv_mem ?V) (dst + 1 + of_nat i) cs" using c(3) by (simp add: algebra_simps)
  have lt: "i + length cs < 4096" using Cons.prems(4) by simp
  have "pv_mem ?V = (pv_mem V)(dst := c)" by simp
  then have W: "?V\<lparr>pv_mem := write_bytes (pv_mem ?V) (dst + 1) (cs @ [0])\<rparr> = V\<lparr>pv_mem := write_bytes (pv_mem V) dst ((c # cs) @ [0])\<rparr>"
    by (simp only: append_Cons write_bytes.simps prog_view.update_convs prog_view.surjective) simp
  have "run_strcpy L dst (dst + of_nat i) s = run_strcpy L (dst + 1) (dst + 1 + of_nat i) s1"
    using v s1(1) c(1) by (subst run_strcpy.simps) (simp add: algebra_simps)
  then show ?case using Cons.IH [OF s1(2) src Cons.prems(3) lt w(3,4)] by (simp only: W)
qed

text \<open>A string ended in place.\<close>

lemma cstr_ended:
  assumes "bytes_at m a (length l) = l" "0 \<notin> set l" "length l < 4096"
  shows "cstr_at (m(a + of_nat (length l) := 0)) a l"
proof -
  have "a + of_nat (length l) \<notin> region a (length l)" using assms(3) by (simp add: in_region_iff)
  then have "bytes_at (m(a + of_nat (length l) := 0)) a (length l) = bytes_at m a (length l)"
    using assms(3) by (intro bytes_at_cong) auto
  then show ?thesis using assms by (simp add: cstr_at_def)
qed

lemma in_window_part:
  assumes "in_window a m" "i + n \<le> m" "i < 4294967296"
  shows "in_window (a + of_nat i) n"
proof -
  have "in_window a (i + n)" using assms(1,2) by (simp add: in_window_def)
  then show ?thesis using assms(3) by (intro in_window_add)
qed

lemma end_line:
  fixes E :: "'a sys_state_scheme prog_env" and s :: "'a sys_state_scheme"
  assumes "grep_env E str p fnm name data V" "sees (env_layout E) V s" "p \<noteq> []" "hd p < 128" "length p < 2147483648" "in_window data 1025"
    and "bytes_at (pv_mem V) (data + of_nat i) (length l) = l" "0 \<notin> set l" "10 \<notin> set l" "i + length l \<le> 1024"
    and "W = V\<lparr>pv_mem := (pv_mem V)(data + of_nat (i + length l) := 0)\<rparr>"
  obtains s1 s2 where "store_byte (env_layout E) (data + of_nat (i + length l)) 0 s = Some s1" "sees (env_layout E) W s1" "outside data V W"
    "grep_search E str fnm data (int (length p)) (int i) (int (i + length l)) (int i) s1 = Some s2"
    "sees (env_layout E) (pv_type (grep_text p name l) W) s2" "outside data V (pv_type (grep_text p name l) W)"
proof -
  let ?L = "env_layout E"
  have w: "in_window (data + of_nat (i + length l)) (Suc 0)" "in_window (data + of_nat i) (Suc (length l))"
    by (rule in_window_part [OF assms(6)], use assms(10) in simp_all)+
  obtain s1 where s1: "store_byte ?L (data + of_nat (i + length l)) 0 s = Some s1" "sees ?L W s1"
    using leaves_store [OF assms(2) w(1)] by (auto simp: leaves_def assms(11))
  have "data + of_nat (i + length l) \<in> region data 1025" using assms(10) by (simp add: in_region_offset del: of_nat_add)
  then have out: "outside data V W" by (auto simp: outside_def assms(11))
  have "cstr_at (pv_mem W) (data + of_nat i) l" using cstr_ended [OF assms(7,8)] assms(10) by (simp add: assms(11) algebra_simps)
  from grep_search_spec [OF grep_env_outside [OF assms(1) out] s1(2) assms(3-5) refl this w(2), of 0] assms(10)
  have "leaves ?L (grep_search E str fnm data (int (length p)) (int i) (int (i + length l)) (int i) s1) (pv_type (grep_text p name l) W)"
    by (simp add: grep_text_line [OF assms(9)] split: if_splits)
  then obtain s2 where "grep_search E str fnm data (int (length p)) (int i) (int (i + length l)) (int i) s1 = Some s2"
      "sees ?L (pv_type (grep_text p name l) W) s2" by (auto simp: leaves_def)
  moreover have "outside data V (pv_type (grep_text p name l) W)" using out by (simp add: outside_def)
  ultimately show ?thesis using s1 out by (intro that)
qed

text \<open>One turn of the loop over the lines.\<close>

lemma grep_lines_move:
  assumes "grep_eol (view (env_layout E) s) data (int (i + n)) (int i) = int e" "view (env_layout E) s (data + of_nat e) \<noteq> 10" "cnt \<noteq> 0" "i \<noteq> 0"
    and "store_byte (env_layout E) (data + of_nat e) 0 s = Some s1" "run_strcpy (env_layout E) data (data + of_nat i) s1 = Some s2"
  shows "grep_lines E str fnm data m cnt (int (i + n)) (int i) s = Some (int n, s2)"
  using assms by (subst grep_lines.simps) (simp add: Let_def)

lemma grep_lines_line:
  assumes "grep_eol (view (env_layout E) s) data (int f) (int i) = int e" "\<not> (view (env_layout E) s (data + of_nat e) \<noteq> 10 \<and> cnt \<noteq> 0 \<and> i \<noteq> 0)"
    and "store_byte (env_layout E) (data + of_nat e) 0 s = Some s1" "grep_search E str fnm data m (int i) (int e) (int i) s1 = Some s2"
  shows "grep_lines E str fnm data m cnt (int f) (int i) s =
    (if e + 1 \<ge> f then Some (0, s2) else grep_lines E str fnm data m cnt (int f) (int (Suc e)) s2)"
proof -
  have "int e + 1 \<ge> int f \<longleftrightarrow> e + 1 \<ge> f" "int (Suc e) = int e + 1" by auto
  moreover have "\<not> (view (env_layout E) s (data + of_int (int e)) \<noteq> 10 \<and> cnt \<noteq> 0 \<and> int i \<noteq> 0)" using assms(2) by simp
  ultimately show ?thesis using assms(1,3,4) by (subst grep_lines.simps) (simp only: Let_def of_int_of_nat_eq if_False bind.bind_lunit)
qed

text \<open>
  The loop over the lines of the buffer: it prints what is to be printed for the complete lines, and
  leaves the incomplete one, if any, at the front.
\<close>

lemma grep_lines_spec:
  fixes E :: "'a sys_state_scheme prog_env" and s :: "'a sys_state_scheme"
  assumes p: "p \<noteq> []" "hd p < 128" "length p < 2147483648" and "in_window data 1025"
    and "grep_env E str p fnm name data V" "sees (env_layout E) V s" "bytes_at (pv_mem V) (data + of_nat i) (length t) = t" "0 \<notin> set t" "i + length t \<le> 1024"
  shows "\<exists>W r out. ends (env_layout E) (grep_lines E str fnm data (int (length p)) cnt (int (i + length t)) (int i) s) (int (length r)) W
    \<and> outside data V W \<and> bytes_at (pv_mem W) data (length r) = r \<and> 0 \<notin> set r \<and> 10 \<notin> set r \<and> (cnt = 0 \<longrightarrow> r = []) \<and> length r \<le> length t
    \<and> pv_screen W = fold v_putc out (pv_screen V) \<and> out @ grep_text p name r = grep_text p name t"
  using assms(5-)
proof (induction "length t" arbitrary: t i V s rule: less_induct)
  case less
  let ?L = "env_layout E" and ?l = "takeWhile (\<lambda>c. c \<noteq> 10) t" and ?r = "dropWhile (\<lambda>c. c \<noteq> 10) t"
  note env = less.prems(1) and s = less.prems(2) and t = less.prems(3-5)
  have tl: "t = ?l @ ?r" "length ?l \<le> length t" by (simp_all add: length_takeWhile_le)
  have l: "0 \<notin> set ?l" "10 \<notin> set ?l" using t(2) by (auto dest: set_takeWhileD)
  have bl: "bytes_at (pv_mem V) (data + of_nat i) (length ?l) = ?l"
    using t(1) tl bytes_at_add [of "pv_mem V" "data + of_nat i" "length ?l" "length ?r"] by (metis append_eq_append_conv length_append length_bytes_at)
  have V: "V = pview s" "user_mapped ?L (curr s) s" using s by (auto simp: sees_def prog_ok_def)
  have vw: "view ?L s (data + of_nat k) = pv_mem V (data + of_nat k)" if "k < 1025" for k
    using window_view [OF V(2) in_window_offset [OF assms(4) that]] by (simp add: V(1))
  have "bytes_at (view ?L s) (data + of_nat i) (length t) = bytes_at (pv_mem V) (data + of_nat i) (length t)"
    unfolding bytes_at_def using vw t(3) by (intro map_cong) (auto simp flip: of_nat_add simp: add.assoc)
  then have eol: "grep_eol (view ?L s) data (int (i + length t)) (int i) = int (i + length ?l)"
    using t(1) by (intro grep_eol_spec) simp
  obtain e where e: "e = i + length ?l" by simp
  have eol: "grep_eol (view ?L s) data (int (i + length t)) (int i) = int e" using eol e by (simp only:)
  have len: "length t = length ?l + length ?r" using tl(1) by (metis length_append)
  have el: "e \<le> 1024" using t(3) tl(2) e by simp
  let ?X = "V\<lparr>pv_mem := (pv_mem V)(data + of_nat e := 0)\<rparr>" and ?W = "pv_type (grep_text p name ?l) (V\<lparr>pv_mem := (pv_mem V)(data + of_nat e := 0)\<rparr>)"
  obtain s1 s2 where step: "store_byte ?L (data + of_nat e) 0 s = Some s1" "sees ?L ?X s1" "outside data V ?X"
      "grep_search E str fnm data (int (length p)) (int i) (int e) (int i) s1 = Some s2"
    and s2: "sees ?L ?W s2" "outside data V ?W"
    using end_line [OF env s p assms(4) bl l el [unfolded e] refl, folded e] by blast
  have r: "?r = [] \<or> (\<exists>u. ?r = 10 # u)" using hd_dropWhile [of "\<lambda>c. c \<noteq> 10" t] by (cases ?r) auto
  have nl: "pv_mem V (data + of_nat e) = 10 \<and> bytes_at (pv_mem ?W) (data + of_nat (Suc e)) (length u) = u" if u: "?r = 10 # u" for u
  proof -
    have lu: "length u < 1024" using len t(3) u by simp
    have "bytes_at (pv_mem V) (data + of_nat i) (length ?l + Suc (length u)) = ?l @ 10 # u" using t(1) tl(1) len u by simp
    then have "bytes_at (pv_mem V) (data + of_nat i + of_nat (length ?l)) (Suc (length u)) = 10 # u" unfolding bytes_at_add by simp
    then have "bytes_at (pv_mem V) (data + of_nat e) (Suc (length u)) = 10 # u" by (simp add: e add.assoc)
    then have b: "pv_mem V (data + of_nat e) = 10" "bytes_at (pv_mem V) (data + of_nat (Suc e)) (length u) = u"
      by (simp_all add: bytes_at_Suc algebra_simps)
    have "data + of_nat e - (data + of_nat (Suc e)) = -1" by simp
    moreover have "unat (- 1 :: u32) = 4294967295" by (simp add: unsigned_minus_1_eq_mask mask_eq_exp_minus_1)
    ultimately have "data + of_nat e \<notin> region (data + of_nat (Suc e)) (length u)" using lu by (simp only: in_region_iff)
    then have "bytes_at (pv_mem ?W) (data + of_nat (Suc e)) (length u) = bytes_at (pv_mem V) (data + of_nat (Suc e)) (length u)"
      using lu by (intro bytes_at_cong) auto
    then show ?thesis using b by simp
  qed
  show ?case
  proof (cases "view ?L s (data + of_nat e) \<noteq> 10 \<and> cnt \<noteq> 0 \<and> i \<noteq> 0")
    case True
    have "view ?L s (data + of_nat e) = pv_mem V (data + of_nat e)" using el by (intro vw) simp
    then have "?r = []" using True r nl by auto
    then have full: "?l = t" using tl(1) by simp
    then have ei: "e = i + length t" using e by (simp only:)
    let ?Y = "?X\<lparr>pv_mem := write_bytes (pv_mem ?X) data (t @ [0])\<rparr>"
    have "cstr_at (pv_mem ?X) (data + of_nat i) t" using cstr_ended [OF t(1,2)] t(3) by (simp add: ei algebra_simps)
    moreover have "in_window data (Suc (length t))" "in_window (data + of_nat i) (Suc (length t))"
      using in_window_part [OF assms(4), of 0 "Suc (length t)"] in_window_part [OF assms(4), of i "Suc (length t)"] t(3) by simp_all
    ultimately have "leaves ?L (run_strcpy ?L data (data + of_nat i) s1) ?Y"
      using True t(3) by (intro run_strcpy_spec [OF step(2)]) simp_all
    then obtain s3 where s3: "run_strcpy ?L data (data + of_nat i) s1 = Some s3" "sees ?L ?Y s3"
      by (auto simp: leaves_def)
    have "grep_lines E str fnm data (int (length p)) cnt (int (i + length t)) (int i) s = Some (int (length t), s3)"
      using True by (intro grep_lines_move [OF eol _ _ _ step(1) s3(1)]) simp_all
    then have run: "ends ?L (grep_lines E str fnm data (int (length p)) cnt (int (i + length t)) (int i) s) (int (length t)) ?Y"
      using s3(2) by (simp add: ends_def)
    have sub: "region data (length (t @ [0 :: u8])) \<subseteq> region data 1025" using t(3) by (intro region_mono) simp
    have "pv_mem ?Y x = pv_mem ?X x" if x: "x \<notin> region data 1025" for x
    proof -
      have "x \<notin> region data (length (t @ [0 :: u8]))" using x sub by blast
      then have "write_bytes (pv_mem ?X) data (t @ [0]) x = pv_mem ?X x" using t(3) by (intro write_bytes_outside) simp_all
      then show ?thesis by simp
    qed
    then have "outside data ?X ?Y" by (simp add: outside_def)
    then have o: "outside data V ?Y" by (rule outside_trans [OF step(3)])
    have "bytes_at (pv_mem ?Y) data (length t) = t" using cstr_written [OF t(2), of "pv_mem ?X" data] t(3) by (simp add: cstr_at_def)
    then show ?thesis
      using run o t(2) l(2) True full by (intro exI [of _ ?Y] exI [of _ t] exI [of _ "[]"]) simp
  next
    case False
    note step2 = grep_lines_line [OF eol False step(1,4)]
    show ?thesis
    proof (cases "e + 1 \<ge> i + length t")
      case True
      then have "length ?r \<le> 1" using len e by linarith
      then have "?r = [] \<or> ?r = [10]" using r by auto
      moreover have "t = x \<or> t = x @ [10]" if "t = x @ y" "y = [] \<or> y = [10]" for x y using that by auto
      ultimately have "t = ?l \<or> t = ?l @ [10]" using tl(1) by blast
      then have g: "grep_text p name t = grep_text p name ?l"
        using grep_text_break [OF l(2), of p name "[]"] grep_text_Nil [OF p(1)] by (metis append_Nil2)
      have "ends ?L (grep_lines E str fnm data (int (length p)) cnt (int (i + length t)) (int i) s) (int (length ([] :: u8 list))) ?W"
        using step2 True s2(1) by (simp add: ends_def)
      then show ?thesis using s2(2) g grep_text_Nil [OF p(1)] by (intro exI [of _ ?W] exI [of _ "[]"] exI [of _ "grep_text p name ?l"]) simp
    next
      case False
      then have "?r \<noteq> []" using len e by (metis add_0_right le_add1 list.size(3))
      then obtain u where u: "?r = 10 # u" using r by blast
      then have tu: "t = ?l @ 10 # u" using tl(1) by (simp only:)
      have lt: "i + length t = Suc e + length u" "length u < length t" using len e u by simp_all
      have "0 \<notin> set ?r" using t(2) set_dropWhileD by metis
      then have u0: "0 \<notin> set u" using u by simp
      have "Suc e + length u \<le> 1024" using lt(1) t(3) by (simp only:)
      then obtain W r out where W: "ends ?L (grep_lines E str fnm data (int (length p)) cnt (int (Suc e + length u)) (int (Suc e)) s2) (int (length r)) W"
          "outside data ?W W" "bytes_at (pv_mem W) data (length r) = r" "0 \<notin> set r" "10 \<notin> set r" "cnt = 0 \<longrightarrow> r = []" "length r \<le> length u"
          "pv_screen W = fold v_putc out (pv_screen ?W)" "out @ grep_text p name r = grep_text p name u"
        using less.hyps [OF lt(2) grep_env_outside [OF env s2(2)] s2(1) conjunct2 [OF nl [OF u]] u0] by blast
      have "grep_text p name t = grep_text p name ?l @ grep_text p name u" using grep_text_break [OF l(2), of p name u] tu by metis
      then have g: "(grep_text p name ?l @ out) @ grep_text p name r = grep_text p name t" using W(9) by simp
      have run: "ends ?L (grep_lines E str fnm data (int (length p)) cnt (int (i + length t)) (int i) s) (int (length r)) W"
        using step2 False W(1) by (simp only: lt(1) if_False)
      have scr: "pv_screen W = fold v_putc (grep_text p name ?l @ out) (pv_screen V)" using W(8) by simp
      have "length r \<le> length t" using W(7) lt(2) by simp
      then show ?thesis using run outside_trans [OF s2(2) W(2)] W(3-6) scr g by blast
    qed
  qed
qed

section \<open>The loop over the file\<close>

lemma grep_env_read:
  assumes "grep_env E str p fnm name data V" "k + length bs \<le> 1025" "2 \<le> i"
  shows "grep_env E str p fnm name data (V\<lparr>pv_mem := write_bytes (pv_mem V) (data + of_nat k) bs, pv_block := advanced i c (pv_block V)\<rparr>)"
proof -
  have sub: "region (data + of_nat k) (length bs) \<subseteq> region data 1025"
    using region_add [of k "length bs" data] region_mono [OF assms(2), of data] assms(2) by auto
  have "write_bytes (pv_mem V) (data + of_nat k) bs x = pv_mem V x" if x: "x \<notin> region data 1025" for x
    using x sub assms(2) by (intro write_bytes_outside) auto
  then show ?thesis
    using assms(1,3) str_apart_cong [of "pv_mem V" data 1025 _ _ "write_bytes (pv_mem V) (data + of_nat k) bs"]
    by (simp add: grep_env_def str_apart_lit std_fds_advanced)
qed

text \<open>The descriptor of the file, at offset \<open>pos\<close>.\<close>

definition reading :: "nat \<Rightarrow> u32 \<Rightarrow> nat \<Rightarrow> prog_view \<Rightarrow> bool" where
  "reading i ino pos V \<longleftrightarrow> (let f = file_array (pv_block V) i
     in flag f \<noteq> 0 \<and> fop_read f = Read_f_wrapper \<and> fd_inode f = sint ino \<and> file_pos f = int pos)"

lemma reading_advanced: "reading i ino pos V \<Longrightarrow> reading i ino (pos + k) (V\<lparr>pv_mem := m, pv_block := advanced i (int k) (pv_block V)\<rparr>)"
  by (simp add: reading_def advanced_def set_fd_def Let_def)

lemma reading_outside: "reading i ino pos V \<Longrightarrow> outside data V W \<Longrightarrow> reading i ino pos W"
  by (simp add: reading_def outside_def)

lemma grep_read:
  fixes E :: "'a sys_state_scheme prog_env" and s :: "'a sys_state_scheme"
  assumes "grep_env E str p fnm name data V" "sees (env_layout E) V s" "pv_files V = fs_core s0" "reading i ino pos V" "2 \<le> i" "i < 8"
    and "pos < 2147483648" "valid_inode s0 ino" "inode_length s0 ino < 2147483648" "in_window data 1025" "j \<le> 1024"
    and "k = (if pos < inode_length s0 ino then min (1024 - j) (inode_length s0 ino) else 0)"
  defines "W \<equiv> V\<lparr>pv_mem := write_bytes (pv_mem V) (data + of_nat j) (map (file_byte s0 ino) [pos..<pos + k]), pv_block := advanced i (int k) (pv_block V)\<rparr>"
  shows "ends (env_layout E) (ece391_read E (int i) (data + of_nat j) (1024 - int j) s) (int k) W"
    and "grep_env E str p fnm name data W" "reading i ino (pos + k) W" "pv_files W = fs_core s0" "pv_screen W = pv_screen V"
proof -
  have w: "in_window (data + of_nat j) (1024 - j)" using assms(10,11) by (intro in_window_part [OF assms(10)]) simp_all
  have "int (1024 - j) = 1024 - int j" using assms(11) by simp
  then show "ends (env_layout E) (ece391_read E (int i) (data + of_nat j) (1024 - int j) s) (int k) W"
    using ends_read_file [OF assms(2,3) refl, of i ino pos "1024 - j" "data + of_nat j" k] assms(4,6-9,11,12) w
    unfolding W_def reading_def Let_def by simp
  have "k \<le> 1024 - j" using assms(12) by simp
  then show "grep_env E str p fnm name data W" unfolding W_def using assms(5,11) by (intro grep_env_read [OF assms(1)]) simp_all
  show "reading i ino (pos + k) W" unfolding W_def by (rule reading_advanced [OF assms(4)])
  show "pv_files W = fs_core s0" "pv_screen W = pv_screen V" using assms(3) by (simp_all add: W_def)
qed

text \<open>The last read returns 0: what is left in the buffer is searched and the file is closed.\<close>

lemma grep_file_end:
  fixes E :: "'a sys_state_scheme prog_env" and s :: "'a sys_state_scheme"
  assumes p: "p \<noteq> []" "hd p < 128" "length p < 2147483648" and win: "in_window data 1025" and i: "2 \<le> i" "i < 8"
    and ino: "valid_inode s0 ino" "inode_length s0 ino < 2147483648" "inode_length s0 ino \<le> pos" "pos < 2147483648"
    and env: "grep_env E str p fnm name data V" and s: "sees (env_layout E) V s" and V: "pv_files V = fs_core s0" "reading i ino pos V"
    and r: "bytes_at (pv_mem V) data (length r) = r" "0 \<notin> set r" "length r \<le> 1024"
  shows "\<exists>W. ends (env_layout E) (grep_file E str fnm data (int (length p)) (int i) (int (length r)) s) 0 W
    \<and> pv_screen W = fold v_putc (grep_text p name r) (pv_screen V)"
proof -
  let ?L = "env_layout E"
  have k: "0 = (if pos < inode_length s0 ino then min (1024 - length r) (inode_length s0 ino) else 0)" using ino(3) by simp
  note rd = grep_read [OF env s V i ino(4,1,2) win r(3) k]
  obtain s1 W1 where s1: "ece391_read E (int i) (data + of_nat (length r)) (1024 - int (length r)) s = Some (0, s1)" "sees ?L W1 s1"
    and W1: "grep_env E str p fnm name data W1" "reading i ino pos W1" "pv_screen W1 = pv_screen V" "pv_mem W1 = pv_mem V"
    using rd by (auto simp: ends_def)
  have "bytes_at (pv_mem W1) (data + of_nat 0) (length r) = r" "0 + length r \<le> 1024" using r(1,3) W1(4) by simp_all
  from grep_lines_spec [OF p win W1(1) s1(2) this(1) r(2) this(2), of 0]
  obtain W2 q out where W2: "ends ?L (grep_lines E str fnm data (int (length p)) 0 (int (length r)) 0 s1) (int (length q)) W2"
      "outside data W1 W2" "q = []" "pv_screen W2 = fold v_putc out (pv_screen W1)" "out @ grep_text p name q = grep_text p name r"
    by auto
  then obtain s2 where s2: "grep_lines E str fnm data (int (length p)) 0 (int (length r)) 0 s1 = Some (0, s2)" "sees ?L W2 s2"
    by (auto simp: ends_def)
  have "flag (file_array (pv_block W2) i) \<noteq> 0" using reading_outside [OF W1(2) W2(2)] by (simp add: reading_def Let_def)
  then obtain s3 where s3: "ece391_close E (int i) s2 = Some (0, s3)" "sees ?L (W2\<lparr>pv_block := closed i (pv_block W2)\<rparr>) s3"
    using ends_close(1) [OF s2(2) i] by (auto simp: ends_def)
  have "grep_file E str fnm data (int (length p)) (int i) (int (length r)) s = Some (0, s3)"
    using s1(1) s2(1) s3(1) by (subst grep_file.simps) simp
  then have "ends ?L (grep_file E str fnm data (int (length p)) (int i) (int (length r)) s) 0 (W2\<lparr>pv_block := closed i (pv_block W2)\<rparr>)"
    using s3(2) by (simp add: ends_def)
  moreover have "pv_screen W2 = fold v_putc (grep_text p name r) (pv_screen V)" using W2(3-5) W1(3) grep_text_Nil [OF p(1)] by simp
  ultimately show ?thesis by (intro exI [of _ "W2\<lparr>pv_block := closed i (pv_block W2)\<rparr>"]) simp
qed

lemma grep_file_prints:
  fixes E :: "'a sys_state_scheme prog_env" and s :: "'a sys_state_scheme"
  assumes p: "p \<noteq> []" "hd p < 128" "length p < 2147483648" and win: "in_window data 1025" and i: "2 \<le> i" "i < 8"
    and ino: "valid_inode s0 ino" "inode_length s0 ino \<le> 1024"
    and env: "grep_env E str p fnm name data V" and s: "sees (env_layout E) V s" and V: "pv_files V = fs_core s0" "reading i ino 0 V"
    and t: "t = file_contents s0 ino" "0 \<notin> set t"
  shows "\<exists>W. ends (env_layout E) (grep_file E str fnm data (int (length p)) (int i) 0 s) 0 W
    \<and> pv_screen W = fold v_putc (grep_text p name t) (pv_screen V)"
proof (cases "inode_length s0 ino = 0")
  case True
  then show ?thesis
    using grep_file_end [OF p win i ino(1) _ _ _ env s V, of "[]"] t(1) by (simp add: file_contents_def)
next
  case False
  let ?L = "env_layout E" and ?n = "inode_length s0 ino"
  have len: "length t = ?n" using t(1) by (simp add: file_contents_def)
  have k: "?n = (if 0 < ?n then min (1024 - 0) ?n else 0)" using ino(2) by simp
  have b: "?n < 2147483648" using ino(2) by simp
  note rd = grep_read [OF env s V i _ ino(1) b win _ k, simplified]
  obtain s1 W1 where s1: "ece391_read E (int i) data 1024 s = Some (int ?n, s1)" "sees ?L W1 s1"
    and W1: "grep_env E str p fnm name data W1" "reading i ino ?n W1" "pv_files W1 = fs_core s0" "pv_screen W1 = pv_screen V" "pv_mem W1 = write_bytes (pv_mem V) data t"
    using rd by (auto simp: ends_def t(1) file_contents_def)
  have "bytes_at (pv_mem W1) (data + of_nat 0) (length t) = t" "0 + length t \<le> 1024" using ino(2) len bytes_at_write_bytes [of t "pv_mem V" data] W1(5) by simp_all
  from grep_lines_spec [OF p win W1(1) s1(2) this(1) t(2) this(2), of "int ?n"]
  obtain W2 r out where W2: "ends ?L (grep_lines E str fnm data (int (length p)) (int ?n) (int ?n) 0 s1) (int (length r)) W2"
      "outside data W1 W2" "bytes_at (pv_mem W2) data (length r) = r" "0 \<notin> set r" "length r \<le> length t"
      "pv_screen W2 = fold v_putc out (pv_screen W1)" "out @ grep_text p name r = grep_text p name t"
    by (auto simp: len)
  then obtain s2 where s2: "grep_lines E str fnm data (int (length p)) (int ?n) (int ?n) 0 s1 = Some (int (length r), s2)" "sees ?L W2 s2"
    by (auto simp: ends_def)
  have "grep_file E str fnm data (int (length p)) (int i) 0 s = grep_file E str fnm data (int (length p)) (int i) (int (length r)) s2"
    using s1(1) s2(1) False by (subst grep_file.simps) simp
  moreover have "length r \<le> 1024" "pv_files W2 = fs_core s0" using W2(2,5) len ino(2) W1(3) by (simp_all add: outside_def)
  then have "\<exists>W. ends ?L (grep_file E str fnm data (int (length p)) (int i) (int (length r)) s2) 0 W \<and> pv_screen W = fold v_putc (grep_text p name r) (pv_screen W2)"
    using grep_file_end [OF p win i ino(1) b order_refl b grep_env_outside [OF W1(1) W2(2)] s2(2) _ reading_outside [OF W1(2) W2(2)] W2(3,4)] by simp
  moreover have "fold v_putc (grep_text p name r) (pv_screen W2) = fold v_putc (grep_text p name t) (pv_screen V)"
    using W2(6,7) W1(4) by (metis comp_apply fold_append)
  ultimately show ?thesis by simp
qed

text \<open>
  C21: \<open>grep\<close> finds the lines. Given a regular file of at most 1024 bytes without NUL bytes, and a string
  that is not empty and does not start with a character above 127, \<open>do_one_file\<close> returns 0 and has
  typed, for every line of the file that contains the string, in order and once, the name of the
  file, a colon and the line; the last line counts also when no line end closes it.
\<close>

theorem grep_prints_matching_lines:
  assumes "prog_ok (env_layout E) s" and "grep_env E str p fnm name data (pview s)" and "in_window data 1025"
    and "p \<noteq> []" and "hd p < 128" and "length p < 2147483648"
    and "dir_lookup s name = Some d" and "ftype d = 2" and "valid_inode s (inode d)"
    and "inode_length s (inode d) \<le> 1024" and "0 \<notin> set (file_contents s (inode d))"
    and "i \<in> {2..<8}" and "bitmap (pcbs s (curr s)) i = 0"
  shows "\<exists>s'. do_one_file E str fnm data s = Some (0, s') \<and> prog_ok (env_layout E) s'
    \<and> vterm_of s' (active_terminal s') = fold v_putc (grep_text p name (file_contents s (inode d))) (vterm_of s (active_terminal s))"
proof -
  let ?L = "env_layout E" and ?V = "pview s"
  have s: "sees ?L ?V s" using assms(1) by (simp add: sees_def)
  have mapped: "user_mapped ?L (curr s) s" using assms(1) by (simp add: prog_ok_def)
  have str: "cstr_at (pv_mem ?V) str p" "in_window str (Suc (length p))" and nm: "cstr_at (pv_mem ?V) fnm name" "in_window fnm (Suc (length name))"
    using assms(2) by (simp_all add: grep_env_def str_apart_def)
  have n: "ece391_strlen (view ?L s) str = Some (of_nat (length p))" using str window_cstr [OF mapped] by (simp add: strlen_user strlen_cstr)
  obtain j where j: "free_desc (bitmap (pcbs s (curr s))) = int j" "2 \<le> j" "j < 8" using free_desc_exists [of i "bitmap (pcbs s (curr s))"] assms(12,13) by blast
  let ?V1 = "?V\<lparr>pv_dir := if ftype d = 1 then 0 else pv_dir ?V, pv_block := opened j d (pv_block ?V)\<rparr>"
  from ends_open(1) [OF s _ nm assms(7), of j] obtain s1 where s1: "ece391_open E fnm s = Some (int j, s1)" "sees ?L ?V1 s1"
    using j(1) by (auto simp: pview_def ends_def)
  have "grep_env E str p fnm name data ?V1" using assms(2) j(2) std_fds_other by (auto simp: grep_env_def)
  moreover have "reading j (inode d) 0 ?V1" using opened_file [OF assms(8), of j] by (simp add: reading_def)
  moreover have "pv_files ?V1 = fs_core s" by (simp add: pview_def)
  ultimately obtain W where W: "ends ?L (grep_file E str fnm data (int (length p)) (int j) 0 s1) 0 W"
      "pv_screen W = fold v_putc (grep_text p name (file_contents s (inode d))) (pv_screen ?V1)"
    using grep_file_prints [OF assms(4-6,3) j(2,3) assms(9,10) _ s1(2) _ _ refl assms(11)] by blast
  then obtain s2 where s2: "grep_file E str fnm data (int (length p)) (int j) 0 s1 = Some (0, s2)" "sees ?L W s2" by (auto simp: ends_def)
  have "sint (of_nat (length p) :: u32) = int (length p)" using assms(6) by (simp add: sint_small)
  then have "do_one_file E str fnm data s = Some (0, s2)" using n s1(1) s2(1) by (simp add: do_one_file_def)
  then show ?thesis using W(2) sees_screen [OF s2(2)] by (simp add: pview_def)
qed

end
