(* ===== verification/User_Demo.thy ===== *)
theory User_Demo
  imports User_Tests User_Grep
begin

text \<open>
  A concrete machine on which the properties of the user programs are instantiated: process 0 runs,
  its literals lie in its page, the directory holds \<open>.\<close> and the file \<open>f1\<close> with three bytes, the
  argument is \<open>f1\<close>, and the user answers a prompt with a given line.
\<close>

section \<open>The machine\<close>

definition demo_lits :: "string list" where
  "demo_lits = [''.'', ''helloo'', ''shel'', [], CHR 0x0A # ln ''Overall Tests: PASS'', ln [], ln ''Wrong Choice!'', ''exit'', ln ''no such command'',
     ''Hello, '', ''Hi, what's your name? '', ''391OS> '', ''Choose from tests 1-8. 0 to run all: '',
     ln ''Enter the Test Number: (0): 100, (1): 10000, (2): 100000'', '':'', ''B'', ''f1'', ''rtc'', ln ''Installing signal handlers''] @ map (\<lambda>n. ln (n @ '': PASS'')) test_names"

definition lit_ram :: memory where
  "lit_ram x = (let k = unat (x - 0xA00000)
     in if k < 256 * length demo_lits \<and> k mod 256 < length (demo_lits ! (k div 256)) then chars (demo_lits ! (k div 256)) ! (k mod 256) else 0)"

definition dir_image :: memory where
  "dir_image =
     (let m = store32 (\<lambda>_. 0) 0x500000 2; m = store32 m 0x500004 2; m = store32 m 0x500008 1;
          m = write_bytes m 0x500040 [46]; m = store32 m 0x500060 1; m = store32 m 0x500064 0;
          m = write_bytes m 0x500080 [102, 49]; m = store32 m 0x5000A0 2; m = store32 m 0x5000A4 1;
          m = store32 m 0x502000 3; m = store32 m 0x502004 0
      in write_bytes m 0x503000 [65, 66, 67])"

definition prog_pcb :: pcb where
  "prog_pcb = (set_bitmap 0 1 \<circ> set_fd 0 stdin_fd \<circ> set_bitmap 1 1 \<circ> set_fd 1 stdout_fd) idle_pcb"

definition prog_demo :: sys_state where
  "prog_demo = sys_demo\<lparr>ram := lit_ram, fs_mem := dir_image, num_dentry := 2, pcbs := \<lambda>_. prog_pcb,
     argBuf := (\<lambda>_. 0)(0 := 102, 1 := 49), argSize := 2\<rparr>"

definition demo_buf :: u32 where
  "demo_buf = 0x8100000"

text \<open>The handlers that run while the program waits deliver the line \<open>cs\<close>.\<close>

definition demo_env :: "u8 list \<Rightarrow> sys_state prog_env" where
  "demo_env cs = \<lparr>env_layout = boot_layout, env_dev = \<lambda>_ _. 0,
     env_irqs = \<lambda>s. [\<lambda>s. key_enter (active_terminal s) (s\<lparr>keyboard_buffer := \<lambda>_ k. if k < length cs then cs ! k else 0\<rparr>)],
     env_stack = \<lambda>_. 0, env_regs = (0, 0), env_lit = \<lambda>l. 0x8200000 + of_nat (256 * length (takeWhile (\<lambda>l'. l' \<noteq> l) demo_lits)),
     env_junk = 0, env_child = \<lambda>_ _ _. None\<rparr>"

lemma demo_env_fields [simp]:
  "env_layout (demo_env cs) = boot_layout" "env_irqs (demo_env cs) s = [\<lambda>s. key_enter (active_terminal s) (s\<lparr>keyboard_buffer := \<lambda>_ k. if k < length cs then cs ! k else 0\<rparr>)]"
  "env_lit (demo_env cs) l = 0x8200000 + of_nat (256 * length (takeWhile (\<lambda>l'. l' \<noteq> l) demo_lits))"
  by (simp_all add: demo_env_def)

lemma prog_demo_fields:
  "fs_mem prog_demo = dir_image" "num_dentry prog_demo = 2" "num_inodes prog_demo = 2" "dentry_start prog_demo = 0x500040"
  "inode_start prog_demo = 0x501000" "datablk_start prog_demo = 0x503000" "ram prog_demo = lit_ram" "curr prog_demo = 0"
  "pcbs prog_demo = (\<lambda>_. prog_pcb)" "argBuf prog_demo = (\<lambda>_. 0)(0 := 102, 1 := 49)" "argSize prog_demo = 2"
  by (simp_all add: prog_demo_def sys_demo_fields)

lemma kbd_boot_cursor: "screen_x_array kbd_boot = (\<lambda>_. 0)" "screen_y_array kbd_boot = (\<lambda>_. 0)"
  by (simp_all add: kbd_boot_def init_keyboard_def init_scan_code_def enable_irq_def outb_def Let_def)

lemma prog_demo_keyboard: "active_terminal prog_demo = 0" "terminal_read_ready prog_demo = (\<lambda>_. 0)" "console_ok prog_demo"
  by (simp_all add: prog_demo_def sys_demo_def fs_demo_def read_filesys_bootblock_def kbd_running_def Let_def kbd_state.defs fs_state.defs sys_state.defs
      console_ok_def cursor_ok_def kbd_boot_cursor)

lemma prog_pcb_fds: "std_fds prog_pcb" "all_closed prog_pcb"
  by (simp_all add: prog_pcb_def std_fds_def all_closed_def stdin_fd_def stdout_fd_def idle_pcb_def idle_fd_def set_fd_def set_bitmap_def)

lemma prog_demo_ok: "prog_ok boot_layout prog_demo"
  using sys_demo_mapped prog_demo_keyboard(3) by (simp add: prog_ok_def prog_demo_fields)
    (simp add: prog_demo_def user_mapped_def address_space_def)

abbreviation demo_view :: prog_view where
  "demo_view \<equiv> pview prog_demo"

lemma demo_sees: "sees boot_layout demo_view prog_demo"
  using prog_demo_ok by (simp add: sees_def)

lemma demo_view_fields:
  "pv_block demo_view = prog_pcb" "pv_files demo_view = fs_core prog_demo" "pv_ready demo_view = 0" "pv_mem demo_view = window 0 lit_ram"
  by (simp_all add: pview_def prog_demo_fields prog_demo_keyboard)

text \<open>The literals are in the page, apart from the buffer.\<close>

lemma demo_lits_short: "l \<in> set demo_lits \<Longrightarrow> length l < 255 \<and> 0 \<notin> set (chars l)"
  by (auto simp: demo_lits_def test_names_def ln_def chars_def)

lemma first_index: "x \<in> set xs \<Longrightarrow> length (takeWhile (\<lambda>y. y \<noteq> x) xs) < length xs"
  by (induction xs) auto

lemma lit_place:
  assumes "l \<in> set demo_lits"
  obtains j where "env_lit (demo_env cs) l = 0x8200000 + of_nat (256 * j)" "j < length demo_lits" "demo_lits ! j = l"
proof
  let ?j = "length (takeWhile (\<lambda>l'. l' \<noteq> l) demo_lits)"
  show "env_lit (demo_env cs) l = 0x8200000 + of_nat (256 * ?j)" by simp
  show "?j < length demo_lits" using first_index [OF assms] .
  then show "demo_lits ! ?j = l" using nth_length_takeWhile by fastforce
qed

lemma lit_ram_at:
  assumes "j < length demo_lits" "k < 256"
  shows "window 0 lit_ram (0x8200000 + of_nat (256 * j + k)) = (if k < length (demo_lits ! j) then chars (demo_lits ! j) ! k else 0)"
proof -
  define x :: u32 where "x = of_nat (256 * j + k)"
  have n: "length demo_lits = 27" by (simp add: demo_lits_def test_names_def)
  have lt: "256 * j + k < 256 * length demo_lits" using assms by (simp add: n)
  then have u: "unat x = 256 * j + k" unfolding x_def unat_of_nat by (simp add: n)
  have "in_window (0x8200000 + x) (Suc 0)" using lt by (simp add: in_window_def unat_word_ariths u n)
  moreover have "user_phys 0 (0x8200000 + x) - 0xA00000 = x" by (simp add: user_phys_def)
  moreover have "(256 * j + k) div 256 = j" "(256 * j + k) mod 256 = k" using assms(2) by simp_all
  ultimately show ?thesis using lt unfolding x_def [symmetric] by (simp add: window_def lit_ram_def u Let_def)
qed

lemma demo_lit_full:
  assumes "l \<in> set demo_lits"
  shows "lit_apart (demo_env cs) (pv_mem demo_view) demo_buf 1025 l"
proof -
  obtain j where j: "env_lit (demo_env cs) l = 0x8200000 + of_nat (256 * j)" "j < length demo_lits" "demo_lits ! j = l"
    using lit_place [OF assms] .
  have n: "length demo_lits = 27" by (simp add: demo_lits_def test_names_def)
  have l: "length l < 255" "0 \<notin> set (chars l)" using demo_lits_short [OF assms] by simp_all
  have u: "unat (0x8200000 + of_nat (256 * j) :: u32) = 0x8200000 + 256 * j" using j(2) by (simp add: n unat_word_ariths unat_of_nat)
  have at: "window 0 lit_ram (0x8200000 + of_nat (256 * j) + of_nat k) = (if k < length l then chars l ! k else 0)" if "k < 256" for k
    using lit_ram_at [OF j(2) that] by (simp add: j(3) add.assoc)
  have "bytes_at (window 0 lit_ram) (0x8200000 + of_nat (256 * j)) (length l) = chars l"
    unfolding bytes_at_def using l(1) at by (intro nth_equalityI) simp_all
  then have "cstr_at (window 0 lit_ram) (0x8200000 + of_nat (256 * j)) (chars l)"
    using l at [of "length l"] by (simp add: cstr_at_def)
  moreover have "in_window (0x8200000 + of_nat (256 * j)) (Suc (length l))" using l(1) j(2) by (simp only: in_window_def u n) simp
  ultimately have "has_lit (demo_env cs) (pv_mem demo_view) l" by (simp only: has_lit_def j(1) demo_view_fields simp_thms)
  moreover have "region demo_buf 1025 \<inter> region (env_lit (demo_env cs) l) (Suc (length l)) = {}"
  proof -
    have "x \<notin> region (0x8200000 + of_nat (256 * j)) (Suc (length l))" if "x \<in> region demo_buf 1025" for x
    proof
      assume x: "x \<in> region (0x8200000 + of_nat (256 * j)) (Suc (length l))"
      obtain i where i: "x = demo_buf + of_nat i" "i < 1025" using \<open>x \<in> region demo_buf 1025\<close> by (rule region_obtain) simp_all
      obtain k where k: "x = 0x8200000 + of_nat (256 * j) + of_nat k" "k < Suc (length l)" using x by (rule region_obtain) (use l(1) in simp_all)
      have "unat x = 0x8200000 + 256 * j + k" unfolding k(1) using k(2) l(1) j(2) u by (simp add: unat_word_ariths n unat_of_nat)
      moreover have "unat x = 0x8100000 + i" unfolding i(1) demo_buf_def using i(2) by (simp add: unat_word_ariths unat_of_nat)
      ultimately show False using i(2) by simp
    qed
    then show ?thesis unfolding j(1) by blast
  qed
  ultimately show ?thesis by (simp add: lit_apart_def)
qed

lemma demo_lit_small: "l \<in> set demo_lits \<Longrightarrow> n \<le> 1025 \<Longrightarrow> lit_apart (demo_env cs) (pv_mem demo_view) demo_buf n l"
  using demo_lit_full [of l cs] region_mono [of n 1025 demo_buf] by (auto simp: lit_apart_def)

lemma demo_has_lit: "l \<in> set demo_lits \<Longrightarrow> has_lit (demo_env cs) (pv_mem demo_view) l"
  using demo_lit_full [of l cs] by (simp add: lit_apart_def)

lemma demo_lit: "l \<in> set demo_lits \<Longrightarrow> lit_apart (demo_env cs) (pv_mem demo_view) demo_buf 1024 l"
  by (rule demo_lit_small) simp_all

text \<open>The directory and the file.\<close>

lemma dir_image_words:
  "load32 dir_image 0x500060 = 1" "load32 dir_image 0x5000A0 = 2" "load32 dir_image 0x5000A4 = 1" "load32 dir_image 0x502000 = 3"
  "load32 dir_image 0x502004 = 0" "field_string dir_image 0x500040 32 = [46]" "field_string dir_image 0x500080 32 = [102, 49]"
  by code_simp+

lemma demo_dir:
  "dir_lookup prog_demo nm = (if take 32 nm = [46] then Some (dentry_at prog_demo 0) else if take 32 nm = [102, 49] then Some (dentry_at prog_demo 1) else None)"
proof -
  have "[0..<2] = [0, 1 :: nat]" by code_simp
  moreover have "takeWhile (\<lambda>c. c \<noteq> 0) (fname (dentry_at prog_demo 0)) = [46]" "takeWhile (\<lambda>c. c \<noteq> 0) (fname (dentry_at prog_demo 1)) = [102, 49]"
    by (simp_all add: dentry_name_field dentry_addr_def prog_demo_fields dir_image_words)
  ultimately show ?thesis by (auto simp: dir_lookup_def prog_demo_fields)
qed

lemma demo_dentries: "ftype (dentry_at prog_demo 0) = 1" "ftype (dentry_at prog_demo 1) = 2" "inode (dentry_at prog_demo 1) = 1"
  using dir_image_words by (simp_all add: dentry_at_def dentry_addr_def prog_demo_fields)

lemma demo_file: "valid_inode prog_demo 1" "inode_length prog_demo 1 = 3"
  using dir_image_words by (simp_all add: valid_inode_def inode_length_def inode_addr_def prog_demo_fields)

text \<open>The line arrives.\<close>

lemma key_enter_updates:
  "\<exists>pb kb ci. key_enter t s = s\<lparr>print_buffer := pb, keyboard_buffer := kb, cursor_ind := ci, terminal_read_ready := (terminal_read_ready s)(t := 1)\<rparr>"
  by (cases s) (simp add: key_enter_def Let_def)

lemma demo_line:
  assumes "0 \<notin> set cs" "length cs < 129" "pv_ready V = 0"
  shows "line_arrives (demo_env cs) V cs (V\<lparr>pv_ready := 1\<rparr>)"
proof -
  let ?kb = "\<lambda>(t :: nat) k. if k < length cs then cs ! k else (0 :: u8)"
  have "\<exists>s1 zs. spin_until (\<lambda>s1. terminal_read_ready s1 (active_terminal s) = 1) (env_irqs (demo_env cs) s) (sti s) = Some s1
        \<and> sees boot_layout (V\<lparr>pv_ready := 1\<rparr>) s1 \<and> curr s1 = curr s \<and> active_terminal s1 = active_terminal s \<and> handed_over s1 (active_terminal s) = cs @ 0 # zs"
    if s: "sees boot_layout V s" for s :: sys_state
  proof -
    let ?t = "active_terminal s" and ?s = "(sti s)\<lparr>keyboard_buffer := ?kb\<rparr>"
    have t: "active_terminal (sti s) = ?t" by (simp add: sti_def)
    obtain pb ci kb where k: "key_enter ?t ?s = ?s\<lparr>print_buffer := pb, keyboard_buffer := kb, cursor_ind := ci,
        terminal_read_ready := (terminal_read_ready ?s)(?t := 1)\<rparr>"
      using key_enter_updates [of ?t ?s] by blast
    let ?s1 = "?s\<lparr>print_buffer := pb, keyboard_buffer := kb, cursor_ind := ci\<rparr>"
    have "sees boot_layout V ?s1" using s by simp
    then have "sees boot_layout (V\<lparr>pv_ready := 1\<rparr>) (?s1\<lparr>terminal_read_ready := (terminal_read_ready ?s1)(?t := 1)\<rparr>)" by (rule sees_ready) (simp add: t)
    then have "sees boot_layout (V\<lparr>pv_ready := 1\<rparr>) (key_enter ?t ?s)" unfolding k by simp
    moreover have "handed_over (key_enter ?t ?s) ?t = cs @ 0 # replicate (128 - length cs) 0"
      using assms(2) by (intro nth_equalityI) (auto simp: handed_over_def key_enter_def Let_def nth_append nth_Cons' simp del: upt_rec_numeral)
    moreover have "terminal_read_ready (sti s) ?t = 0" using s assms(3) by (auto simp: sees_def pview_def sti_def)
    then have "spin_until (\<lambda>s1. terminal_read_ready s1 ?t = 1) (env_irqs (demo_env cs) s) (sti s) = Some (key_enter ?t ?s)"
      by (simp add: t) (simp add: k)
    moreover have "curr (key_enter ?t ?s) = curr s" "active_terminal (key_enter ?t ?s) = ?t" unfolding k by (simp_all add: sti_def)
    ultimately show ?thesis by blast
  qed
  then show ?thesis using assms(1) by (simp add: line_arrives_def del: demo_env_fields(2))
qed

section \<open>The programs on this machine\<close>

lemma demo_buffer: "n \<le> 1025 \<Longrightarrow> in_window demo_buf n"
  by (simp add: in_window_def demo_buf_def)

lemma demo_view_prog: "view boot_layout prog_demo demo_buf = 0"
proof -
  have "user_phys 0 demo_buf - 0xA00000 = 0xFFF00000" by (simp add: user_phys_def demo_buf_def)
  then have "window 0 lit_ram demo_buf = 0" by (simp add: window_def lit_ram_def Let_def demo_lits_def test_names_def)
  then show ?thesis
    using window_view [of boot_layout prog_demo demo_buf] prog_demo_ok demo_buffer [of "Suc 0"] by (simp add: prog_ok_def demo_view_fields)
qed

theorem cat_prints_file_witness:
  "\<exists>s'. cat_main (demo_env []) demo_buf prog_demo = Some (0, s')
    \<and> vterm_of s' (active_terminal s') = fold v_putc (file_contents prog_demo 1) (vterm_of prog_demo 0)"
proof -
  have "cstr_at (array_mem (argBuf prog_demo)) 0 [102, 49]" by (simp add: cstr_at_Cons array_mem_def prog_demo_fields)
  moreover have "cstr_at (view boot_layout prog_demo) demo_buf []" by (simp add: cstr_at_def bytes_at_def demo_view_prog)
  moreover have "bitmap (pcbs prog_demo (curr prog_demo)) 2 = 0" using prog_pcb_fds(2) by (simp add: all_closed_def prog_demo_fields)
  ultimately show ?thesis
    using cat_prints_file [of "demo_env []" prog_demo "[102, 49]" "dentry_at prog_demo 1" 3 2 demo_buf "[]"]
      prog_demo_ok prog_pcb_fds demo_dentries demo_file demo_buffer
    by (auto simp: demo_dir prog_demo_fields prog_demo_keyboard)
qed

theorem ls_lists_directory_witness:
  "\<exists>s'. ls_main (demo_env []) demo_buf prog_demo = Some (0, s')
    \<and> vterm_of s' (active_terminal s') = fold v_putc (concat (map (\<lambda>nm. nm @ [10]) (dir_names prog_demo))) (vterm_of prog_demo 0)"
proof -
  have "''.'' \<in> set demo_lits" by (simp add: demo_lits_def)
  then have "has_lit (demo_env []) (pv_mem demo_view) ''.''" by (rule demo_has_lit)
  then have "has_lit (demo_env []) (view boot_layout prog_demo) ''.''"
    using window_cstr [of boot_layout prog_demo "env_lit (demo_env []) ''.''" "chars ''.''"] prog_demo_ok by (auto simp: has_lit_def prog_ok_def)
  moreover have "bitmap (pcbs prog_demo (curr prog_demo)) 2 = 0" using prog_pcb_fds(2) by (simp add: all_closed_def prog_demo_fields)
  ultimately show ?thesis
    using ls_lists_directory [of "demo_env []" prog_demo "dentry_at prog_demo 0" 2 demo_buf]
      prog_demo_ok prog_pcb_fds demo_dentries demo_buffer
    by (auto simp: demo_dir chars_def prog_demo_fields prog_demo_keyboard)
qed

lemma demo_contents: "file_contents prog_demo 1 = [65, 66, 67]"
proof -
  have "[0..<3] = [0, 1, 2 :: nat]" by code_simp
  moreover have "dir_image 0x503000 = 65" "dir_image 0x503001 = 66" "dir_image 0x503002 = 67" by code_simp+
  ultimately show ?thesis
    using dir_image_words by (simp add: file_contents_def demo_file file_byte_def data_block_def inode_addr_def prog_demo_fields)
qed

lemma demo_grep_text: "grep_text (chars ''B'') (chars ''f1'') [65, 66, 67] = chars ''f1:ABC'' @ [10]"
  by code_simp

theorem grep_prints_matching_lines_witness:
  "\<exists>s'. do_one_file (demo_env []) (env_lit (demo_env []) ''B'') (env_lit (demo_env []) ''f1'') demo_buf prog_demo = Some (0, s')
    \<and> vterm_of s' (active_terminal s') = fold v_putc (chars ''f1:ABC'' @ [10]) (vterm_of prog_demo 0)"
proof -
  have l: "l \<in> {'':'', ln [], ''B'', ''f1''} \<Longrightarrow> l \<in> set demo_lits" for l by (auto simp: demo_lits_def)
  have "l \<in> {'':'', ln [], ''B'', ''f1''} \<Longrightarrow> lit_apart (demo_env []) (pv_mem demo_view) demo_buf 1025 l" for l using demo_lit_small [OF l] by simp
  then have env: "grep_env (demo_env []) (env_lit (demo_env []) ''B'') (chars ''B'') (env_lit (demo_env []) ''f1'') (chars ''f1'') demo_buf demo_view"
    using prog_pcb_fds(1) by (simp add: grep_env_def demo_view_fields flip: str_apart_lit del: demo_env_fields(3))
  have d: "dir_lookup prog_demo (chars ''f1'') = Some (dentry_at prog_demo 1)" by (simp add: demo_dir chars_def)
  have i: "ftype (dentry_at prog_demo 1) = 2" "inode (dentry_at prog_demo 1) = 1" "valid_inode prog_demo (inode (dentry_at prog_demo 1))" "inode_length prog_demo (inode (dentry_at prog_demo 1)) = 3"
    using demo_dentries demo_file by simp_all
  have c: "file_contents prog_demo (inode (dentry_at prog_demo 1)) = [65, 66, 67]" by (simp only: i(2) demo_contents)
  have "bitmap (pcbs prog_demo (curr prog_demo)) 2 = 0" using prog_pcb_fds(2) by (simp add: all_closed_def prog_demo_fields)
  then have "\<exists>s'. do_one_file (demo_env []) (env_lit (demo_env []) ''B'') (env_lit (demo_env []) ''f1'') demo_buf prog_demo = Some (0, s')
      \<and> prog_ok (env_layout (demo_env [])) s'
      \<and> vterm_of s' (active_terminal s') = fold v_putc (grep_text (chars ''B'') (chars ''f1'') (file_contents prog_demo (inode (dentry_at prog_demo 1))))
          (vterm_of prog_demo (active_terminal prog_demo))"
    by (intro grep_prints_matching_lines [OF _ env _ _ _ _ d, of 2])
      (simp_all only: prog_demo_ok demo_buffer i(1,3,4) c demo_env_fields, simp_all add: chars_def)
  then show ?thesis unfolding c demo_grep_text prog_demo_keyboard(1) by blast
qed

text \<open>A prompt typed and a line given.\<close>

lemma demo_prompt_line:
  "0 \<notin> set cs \<Longrightarrow> length cs < 129 \<Longrightarrow> line_arrives (demo_env cs) (pv_type ps demo_view) cs ((pv_type ps demo_view)\<lparr>pv_ready := 1\<rparr>)"
  by (rule demo_line) (simp_all add: demo_view_fields)

theorem hello_greets_witness:
  "\<exists>s'. hello_main (demo_env [65, 10]) demo_buf prog_demo = Some (0, s') \<and> prog_ok boot_layout s'
    \<and> vterm_of s' (active_terminal s') = fold v_putc (chars ''Hello, '' @ [65, 10]) (fold v_putc (chars ''Hi, what's your name? '') (pv_screen demo_view))"
proof -
  have l: "''Hi, what's your name? '' \<in> set demo_lits" "''Hello, '' \<in> set demo_lits" by (simp_all add: demo_lits_def)
  show ?thesis
    using hello_greets [where E = "demo_env [65, 10]" and V = demo_view and s = prog_demo and buf = demo_buf and cs = "[65, 10]",
        OF _ _ demo_has_lit [OF l(1)] demo_lit [OF l(2)] demo_prompt_line]
      demo_sees prog_pcb_fds demo_buffer by (simp add: demo_view_fields)
qed

theorem counter_counts_witness:
  "\<exists>s'. counter_main (demo_env [48, 10]) demo_buf prog_demo = Some (0, s') \<and> prog_ok boot_layout s'
    \<and> vterm_of s' (active_terminal s') = fold v_putc (concat (map numeral_line [1..<101]))
        (fold v_putc (chars (ln ''Enter the Test Number: (0): 100, (1): 10000, (2): 100000'')) (pv_screen demo_view))"
proof -
  let ?p = "ln ''Enter the Test Number: (0): 100, (1): 10000, (2): 100000''"
  have l: "?p \<in> set demo_lits" and m: "l \<in> {ln [], ln ''Wrong Choice!''} \<Longrightarrow> l \<in> set demo_lits" for l by (auto simp: demo_lits_def)
  have "\<exists>s'. counter_main (demo_env [48, 10]) demo_buf prog_demo = Some (0, s') \<and> prog_ok (env_layout (demo_env [48, 10])) s'
    \<and> vterm_of s' (active_terminal s') = fold v_putc
        (if [48, 10] = [48, 10 :: u8] then concat (map numeral_line [1..<101])
         else if [48, 10] = [49, 10 :: u8] then concat (map numeral_line [1..<10001])
         else if [48, 10] = [50, 10 :: u8] then concat (map numeral_line [1..<100001])
         else if [48, 10] = [10 :: u8] then [] else chars (ln ''Wrong Choice!'')) (pv_screen ((pv_type (chars ?p) demo_view)\<lparr>pv_ready := 1\<rparr>))"
    by (rule counter_counts [where V = demo_view, OF _ _ demo_has_lit [OF l] demo_lit [OF m] demo_prompt_line])
      (use demo_sees prog_pcb_fds demo_buffer in \<open>simp_all add: demo_view_fields\<close>)
  then show ?thesis by (simp del: upt_rec_numeral)
qed

theorem shell_handles_line_witness:
  "\<exists>s'. shell_loop (demo_env [120, 10]) demo_buf prog_demo = shell_loop (demo_env [120, 10]) demo_buf s' \<and> prog_ok boot_layout s'
    \<and> vterm_of s' (active_terminal s') = fold v_putc (chars (ln ''no such command'')) (fold v_putc (chars ''391OS> '') (pv_screen demo_view))"
proof -
  have l: "''391OS> '' \<in> set demo_lits" and m: "l \<in> {''exit'', ln ''no such command''} \<Longrightarrow> l \<in> set demo_lits" for l by (auto simp: demo_lits_def)
  have "[120] \<noteq> chars ''exit''" "dir_lookup prog_demo (name_of [120]) = None" by (simp_all add: chars_def demo_dir name_of_def)
  then show ?thesis
    using shell_handles_line [where E = "demo_env [120, 10]" and V = demo_view and s = prog_demo and ?s0.0 = prog_demo and buf = demo_buf
        and cs = "[120, 10]" and cmd = "[120]", OF _ _ _ demo_has_lit [OF l] demo_lit [OF m] demo_prompt_line]
      demo_sees prog_pcb_fds demo_buffer by (simp add: demo_view_fields)
qed

theorem syserr_tests_pass_witness:
  "\<exists>s'. syserr_main (demo_env [48, 10]) demo_buf demo_buf prog_demo = Some (0, s') \<and> prog_ok boot_layout s'
    \<and> vterm_of s' (active_terminal s') = fold v_putc (concat (map pass_line test_names) @ chars (CHR 0x0A # ln ''Overall Tests: PASS''))
        (fold v_putc (chars ''Choose from tests 1-8. 0 to run all: '') (pv_screen demo_view))"
proof -
  let ?p = "''Choose from tests 1-8. 0 to run all: ''"
  have l: "?p \<in> set demo_lits" by (simp add: demo_lits_def)
  have "l \<in> set demo_lits" if "l \<in> test_lits" for l
    using that unfolding test_lits_def by (elim UnE imageE insertE emptyE; simp add: demo_lits_def test_names_def)
  then have m: "\<forall>l\<in>test_lits. lit_apart (demo_env [48, 10]) (pv_mem demo_view) demo_buf 127 l"
    using demo_lit_small by simp
  have "\<exists>s'. syserr_main (demo_env [48, 10]) demo_buf demo_buf prog_demo = Some (0, s') \<and> prog_ok (env_layout (demo_env [48, 10])) s'
    \<and> vterm_of s' (active_terminal s') = fold v_putc (concat (map pass_line test_names) @ chars (CHR 0x0A # ln ''Overall Tests: PASS''))
        (pv_screen ((pv_type (chars ?p) demo_view)\<lparr>pv_ready := 1\<rparr>))"
    by (rule syserr_tests_pass [where V = demo_view and ?s0.0 = prog_demo and d = "dentry_at prog_demo 0" and cs = "[10]", OF _ _ _ _ _ _ demo_has_lit [OF l] m demo_prompt_line])
      (use demo_sees prog_pcb_fds demo_buffer in \<open>simp_all add: demo_view_fields demo_dir chars_def\<close>)
  moreover have "pv_screen ((pv_type (chars ?p) demo_view)\<lparr>pv_ready := 1\<rparr>) = fold v_putc (chars ?p) (pv_screen demo_view)" by simp
  ultimately show ?thesis by (simp only: demo_env_fields)
qed

text \<open>A machine on which a line is waiting.\<close>

theorem output_replaces_pending_line_witness:
  "\<exists>s1 s2. ece391_fdputs (demo_env []) 1 (env_lit (demo_env []) ''391OS> '') (prog_demo\<lparr>terminal_read_ready := \<lambda>_. 1\<rparr>) = Some s1
    \<and> ece391_read (demo_env []) 0 demo_buf (int 1023) s1 = Some (int 7, s2)
    \<and> bytes_at (view boot_layout s2) demo_buf 7 = chars ''391OS> ''"
proof -
  let ?s = "prog_demo\<lparr>terminal_read_ready := \<lambda>_. 1\<rparr>"
  have v: "pview ?s = demo_view\<lparr>pv_ready := 1\<rparr>" by (simp add: pview_def fs_core_def vterm_of_def page_of_def)
  have s: "sees boot_layout (demo_view\<lparr>pv_ready := 1\<rparr>) ?s"
    using prog_demo_ok unfolding sees_def v by (simp add: prog_ok_def user_mapped_def address_space_def console_ok_def)
  have "''391OS> '' \<in> set demo_lits" by (simp add: demo_lits_def)
  then have "has_lit (demo_env []) (pv_mem demo_view) ''391OS> ''" by (rule demo_has_lit)
  then have l: "cstr_at (pv_mem (demo_view\<lparr>pv_ready := 1\<rparr>)) (env_lit (demo_env []) ''391OS> '') (chars ''391OS> '')"
      "in_window (env_lit (demo_env []) ''391OS> '') (Suc (length (chars ''391OS> '')))"
    by (simp_all add: has_lit_def del: demo_env_fields(3))
  have n: "length (chars ''391OS> '') = 7" by simp
  show ?thesis
    using output_replaces_pending_line [where E = "demo_env []" and n = 1023 and buf = demo_buf, unfolded demo_env_fields(1), OF s _ _ l] demo_buffer prog_pcb_fds(1)
    unfolding n by (simp add: demo_view_fields del: demo_env_fields(3))
qed

end
