(* ===== verification/User_Clock.thy ===== *)
theory User_Clock
  imports User_Demo
begin

text \<open>
  Programs of \<open>syscalls\<close> that do not simply run to their end: \<open>pingpong\<close>, which moves a letter to and
  fro for ever, one step per tick of the clock, and \<open>sigtest\<close>, which stores through a null pointer
  and relies on signals, which the kernel does not deliver.
\<close>

section \<open>pingpong\<close>

text \<open>
  \<open>buf\<close>, \<open>ret_val\<close> and \<open>garbage\<close> are the addresses of the local variables. The macros expand to
  80 for the last index of the buffer, 2 for the first and 78 for the end of the inner part.
\<close>

primrec pp_fill :: "'a sys_state_scheme prog_env \<Rightarrow> u32 \<Rightarrow> nat list \<Rightarrow> 'a sys_state_scheme \<Rightarrow> 'a sys_state_scheme option" where
  "pp_fill E buf [] s = Some s"
| "pp_fill E buf (i # is) s = do { s \<leftarrow> store_byte (env_layout E) (buf + of_nat i) 32 s; pp_fill E buf is s }"

definition pp_start :: "'a sys_state_scheme prog_env \<Rightarrow> u32 \<Rightarrow> u32 \<Rightarrow> 'a sys_state_scheme \<Rightarrow> (int \<times> 'a sys_state_scheme) option" where
  "pp_start E buf ret_val s =
     do { s \<leftarrow> pp_fill E buf [0..<81] s;
          s \<leftarrow> store_byte (env_layout E) (buf + 80) 0 s;
          s \<leftarrow> store_byte (env_layout E) (buf + 79) 10 s;
          s \<leftarrow> store_byte (env_layout E) (buf + 78) 124 s;
          s \<leftarrow> store_byte (env_layout E) (buf + 1) 124 s;
          (rtc_fd, s) \<leftarrow> ece391_open E (env_lit E ''rtc'') s;
          s \<leftarrow> store_bytes (env_layout E) ret_val (le_bytes 32) s;
          (r, s) \<leftarrow> ece391_write E rtc_fd ret_val 4 s;
          s \<leftarrow> store_bytes (env_layout E) ret_val (le_bytes (of_int r)) s;
          Some (rtc_fd, s) }"

text \<open>One turn of the inner loops, for the position \<open>j\<close>.\<close>

definition pp_step ::
  "'a sys_state_scheme prog_env \<Rightarrow> int \<Rightarrow> u32 \<Rightarrow> u32 \<Rightarrow> u8 \<Rightarrow> nat \<Rightarrow> 'a sys_state_scheme \<Rightarrow> 'a sys_state_scheme option" where
  "pp_step E rtc_fd buf garbage curchar j s =
     do { s \<leftarrow> pp_fill E buf [2..<78] s;
          s \<leftarrow> store_byte (env_layout E) (buf + of_nat j) curchar s;
          s \<leftarrow> ece391_fdputs E 1 buf s;
          (_, s) \<leftarrow> ece391_read E rtc_fd garbage 4 s;
          Some s }"

primrec pp_pass ::
  "'a sys_state_scheme prog_env \<Rightarrow> int \<Rightarrow> u32 \<Rightarrow> u32 \<Rightarrow> u8 \<Rightarrow> nat list \<Rightarrow> 'a sys_state_scheme \<Rightarrow> 'a sys_state_scheme option" where
  "pp_pass E rtc_fd buf garbage curchar [] s = Some s"
| "pp_pass E rtc_fd buf garbage curchar (j # js) s =
     do { s \<leftarrow> pp_step E rtc_fd buf garbage curchar j s; pp_pass E rtc_fd buf garbage curchar js s }"

definition pp_next :: "u8 \<Rightarrow> u8" where
  "pp_next curchar = (if curchar = 90 then 65 else curchar + 1)"

text \<open>The body of \<open>while(1)\<close>: out, and back.\<close>

definition pp_round ::
  "'a sys_state_scheme prog_env \<Rightarrow> int \<Rightarrow> u32 \<Rightarrow> u32 \<Rightarrow> u8 \<Rightarrow> 'a sys_state_scheme \<Rightarrow> 'a sys_state_scheme option" where
  "pp_round E rtc_fd buf garbage curchar s =
     do { s \<leftarrow> pp_pass E rtc_fd buf garbage curchar [2..<78] s;
          pp_pass E rtc_fd buf garbage curchar (rev [2..<78]) s }"

primrec pp_rounds ::
  "nat \<Rightarrow> 'a sys_state_scheme prog_env \<Rightarrow> int \<Rightarrow> u32 \<Rightarrow> u32 \<Rightarrow> u8 \<Rightarrow> 'a sys_state_scheme \<Rightarrow> (u8 \<times> 'a sys_state_scheme) option" where
  "pp_rounds 0 E rtc_fd buf garbage curchar s = Some (curchar, s)"
| "pp_rounds (Suc n) E rtc_fd buf garbage curchar s =
     do { s \<leftarrow> pp_round E rtc_fd buf garbage curchar s; pp_rounds n E rtc_fd buf garbage (pp_next curchar) s }"

partial_function (option) pp_loop ::
  "'a sys_state_scheme prog_env \<Rightarrow> int \<Rightarrow> u32 \<Rightarrow> u32 \<Rightarrow> u8 \<Rightarrow> 'a sys_state_scheme \<Rightarrow> (int \<times> 'a sys_state_scheme) option" where
  "pp_loop E rtc_fd buf garbage curchar s =
     do { s \<leftarrow> pp_round E rtc_fd buf garbage curchar s; pp_loop E rtc_fd buf garbage (pp_next curchar) s }"

definition pingpong_main ::
  "'a sys_state_scheme prog_env \<Rightarrow> u32 \<Rightarrow> u32 \<Rightarrow> u32 \<Rightarrow> 'a sys_state_scheme \<Rightarrow> (int \<times> 'a sys_state_scheme) option" where
  "pingpong_main E buf ret_val garbage s =
     do { (rtc_fd, s) \<leftarrow> pp_start E buf ret_val s; pp_loop E rtc_fd buf garbage 65 s }"

section \<open>sigtest\<close>

text \<open>
  The program returns, or an access faults. The handlers are only addresses here: the kernel
  refuses the call that installs them, and never calls one.
\<close>

datatype 's sig_end = Returns int 's | Faults 's

definition ece391_set_handler :: "'a sys_state_scheme prog_env \<Rightarrow> int \<Rightarrow> u32 \<Rightarrow> 'a sys_state_scheme \<Rightarrow> (int \<times> 'a sys_state_scheme) option" where
  "ece391_set_handler E signum handler = DO_CALL E 9 (of_int signum) handler (env_junk E)"

text \<open>From the store through \<open>badbuf\<close> on; \<open>charbuf\<close> is the address of the static variable.\<close>

definition sigtest_store ::
  "'a sys_state_scheme prog_env \<Rightarrow> u32 \<Rightarrow> u32 \<Rightarrow> u32 \<Rightarrow> int \<Rightarrow> 'a sys_state_scheme \<Rightarrow> 'a sys_state_scheme sig_end option" where
  "sigtest_store E buf charbuf badbuf cnt s =
     (case store_byte (env_layout E) badbuf 1 s of None \<Rightarrow> Some (Faults s)
      | Some s \<Rightarrow> do {
          s \<leftarrow> store_byte (env_layout E) (buf + of_int cnt) 0 s;
          s \<leftarrow> put E ''Hello, '' s;
          s \<leftarrow> ece391_fdputs E 1 buf s;
          s \<leftarrow> (if view (env_layout E) s charbuf = 1 then put E (ln ''success'') s else put E (ln ''failure'') s);
          Some (Returns 0 s) })"

definition sigtest_main ::
  "'a sys_state_scheme prog_env \<Rightarrow> u32 \<Rightarrow> u32 \<Rightarrow> u32 \<Rightarrow> u32 \<Rightarrow> 'a sys_state_scheme \<Rightarrow> 'a sys_state_scheme sig_end option" where
  "sigtest_main E buf charbuf segfault_sighandler alarm_sighandler s =
     do { (r, s) \<leftarrow> ece391_getargs E buf 1024 s;
          if r \<noteq> 0 then do { s \<leftarrow> put E (ln ''could not read argument'') s; Some (Returns 3 s) }
          else do {
            s \<leftarrow> (if view (env_layout E) s buf = 49
                 then do {
                   s \<leftarrow> put E (ln ''Installing signal handlers'') s;
                   (_, s) \<leftarrow> ece391_set_handler E 1 segfault_sighandler s;
                   (_, s) \<leftarrow> ece391_set_handler E 3 alarm_sighandler s;
                   Some s }
                 else Some s);
            s \<leftarrow> put E ''Hi, what's your name? '' s;
            (cnt, s) \<leftarrow> ece391_read E 0 buf 1023 s;
            if cnt = -1 then do { s \<leftarrow> put E (ln ''Can't read name from keyboard.'') s; Some (Returns 3 s) }
            else sigtest_store E buf charbuf 0 cnt s } }"

section \<open>The clock, as a program sees it\<close>

lemma rtc_updates:
  fixes s s' :: "'a screen_state_scheme"
  assumes "rtc_state.more s' = rtc_state.more s" "ram s' = ram s"
  shows "s' = s\<lparr>iflag := iflag s', io := io s', master_mask := master_mask s', slave_mask := slave_mask s', RTC_ctr := RTC_ctr s', RTC_flag := RTC_flag s'\<rparr>"
  using assms by (cases s, cases s') simp

lemma sees_rtc:
  fixes s s' :: "'a sys_state_scheme"
  assumes "rtc_state.more s' = rtc_state.more s" "ram s' = ram s"
  shows "sees L V s' = sees L V s" "curr s' = curr s"
proof -
  obtain f i m l c r where s': "s' = s\<lparr>iflag := f, io := i, master_mask := m, slave_mask := l, RTC_ctr := c, RTC_flag := r\<rparr>"
    using rtc_updates [OF assms] by metis
  show "curr s' = curr s" by (simp add: s')
  have "prog_ok L s' = prog_ok L s" by (simp add: s' prog_ok_def user_mapped_def address_space_def console_ok_def)
  moreover have "pview s' = pview s" by (simp add: s' pview_def fs_core_def vterm_of_def page_of_def)
  ultimately show "sees L V s' = sees L V s" by (simp add: sees_def)
qed

lemma rtc_write_more: "rtc_state.more (snd (rtc_write dev m a n s)) = rtc_state.more s" "ram (snd (rtc_write dev m a n s)) = ram s"
  by (simp_all add: rtc_write_def set_rate_def cli_def sti_def outb_def inb_def Let_def case_prod_beta)

lemma rtc_tick_more: "rtc_state.more (rtc_int_handler dev s) = rtc_state.more s" "ram (rtc_int_handler dev s) = ram s"
  by (simp_all add: rtc_int_handler_def cli_def sti_def outb_def inb_def send_eoi_def Let_def case_prod_beta)

text \<open>A descriptor for the clock, or the -1 of a failed \<open>open\<close>.\<close>

definition clock_fd :: "pcb \<Rightarrow> int \<Rightarrow> bool" where
  "clock_fd b fd \<longleftrightarrow> fd = -1 \<or> (2 \<le> fd \<and> fd < 8 \<and> flag (file_array b (nat fd)) = 1 \<and> bitmap b (nat fd) = 1
     \<and> fop_read (file_array b (nat fd)) = Rtc_read_wrapper \<and> fop_write (file_array b (nat fd)) = Rtc_write_wrapper)"

text \<open>While a program waits for the clock, a handler of the clock runs, and no program sees more of it than that.\<close>

definition clock_ticks :: "'a sys_state_scheme prog_env \<Rightarrow> bool" where
  "clock_ticks E \<longleftrightarrow> (\<forall>V s. sees (env_layout E) V s \<longrightarrow>
     (\<exists>s1. spin_until (\<lambda>s. RTC_flag s \<noteq> 0) (env_irqs E s) s = Some s1 \<and> sees (env_layout E) V s1 \<and> curr s1 = curr s))"

lemma advanced_0: "advanced i 0 b = b"
  by (simp add: advanced_def set_fd_def)

lemma ends_read_clock:
  assumes "sees (env_layout E) V s" "clock_fd (pv_block V) fd" "clock_ticks E" "g \<noteq> 0"
  shows "\<exists>r. ends (env_layout E) (ece391_read E fd g n s) r V"
proof (cases "fd = -1")
  case True
  then show ?thesis using ends_read_reject [OF assms(1), of fd] by auto
next
  case False
  let ?L = "env_layout E"
  have b: "pv_block V = pcbs s (curr s)" using assms(1) by (auto simp: sees_def pview_def)
  have f: "2 \<le> fd" "fd < 8" "flag (file_array (pcbs s (curr s)) (nat fd)) = 1" "fop_read (file_array (pcbs s (curr s)) (nat fd)) = Rtc_read_wrapper"
    using assms(2) False by (simp_all add: clock_fd_def b)
  obtain s1 where s1: "spin_until (\<lambda>s. RTC_flag s \<noteq> 0) (env_irqs E s) s = Some s1" "sees ?L V s1" "curr s1 = curr s"
    using assms(1,3) unfolding clock_ticks_def by blast
  let ?s = "s1\<lparr>RTC_flag := 0\<rparr>"
  have "sees ?L V ?s" "curr ?s = curr s" using s1(2,3) sees_rtc [of ?s s1] by simp_all
  then have "sees ?L V (set_pcb (curr s) (advanced (nat fd) 0) ?s)"
    using sees_set_pcb' [of ?L V ?s "curr s" "pv_block V" "advanced (nat fd) 0"] by (simp add: advanced_0)
  moreover have "sys_read ?L dev (env_irqs E s) fd g c s = Some (0, set_pcb (curr s) (advanced (nat fd) 0) ?s)" for dev c
    using f assms(4) s1(1) by (simp add: sys_read_def call_op_def rtc_read_wrapper_def rtc_read_def Let_def advanced_def [abs_def])
  ultimately show ?thesis using f(1,2) by (intro exI [of _ 0] ends_sys_read) (simp_all add: ends_def)
qed

lemma ends_write_clock:
  assumes "sees (env_layout E) V s" "clock_fd (pv_block V) fd"
  shows "\<exists>r. ends (env_layout E) (ece391_write E fd a n s) r V"
proof (cases "fd = -1 \<or> a = 0")
  case True
  then show ?thesis
  proof
    assume "a = 0"
    moreover have "-2147483648 \<le> fd" "fd < 2147483648" using assms(2) by (auto simp: clock_fd_def)
    ultimately show ?thesis by (intro exI [of _ "-1"] ends_sys_write ends_reject [OF assms(1)]) (simp_all add: sys_write_def)
  qed (use ends_write_reject [OF assms(1), of fd] in auto)
next
  case False
  let ?L = "env_layout E"
  have b: "pv_block V = pcbs s (curr s)" using assms(1) by (auto simp: sees_def pview_def)
  have f: "2 \<le> fd" "fd < 8" "bitmap (pcbs s (curr s)) (nat fd) = 1" "fop_write (file_array (pcbs s (curr s)) (nat fd)) = Rtc_write_wrapper"
    using assms(2) False by (simp_all add: clock_fd_def b)
  obtain v t where w: "rtc_write (env_dev E) (view ?L s) a (sint (of_int n :: u32)) s = (v, t)" by (cases "rtc_write (env_dev E) (view ?L s) a (sint (of_int n :: u32)) s")
  then have "rtc_state.more t = rtc_state.more s" "ram t = ram s" using rtc_write_more [of "env_dev E" "view ?L s" a "sint (of_int n :: u32)" s] unfolding w snd_conv by simp_all
  then have "sees ?L V t" using assms(1) sees_rtc(1) by blast
  then have "ends ?L (sys_write ?L (env_dev E) (env_irqs E s) fd a (of_int n) s) (if v < 0 then -1 else v) V"
    using f w False by (simp add: sys_write_def call_op_def rtc_write_wrapper_def Let_def ends_def)
  then show ?thesis using f(1,2) by (intro exI ends_sys_write) simp_all
qed

section \<open>The ball\<close>

text \<open>What is on the line when the letter \<open>c\<close> is at \<open>j\<close>, and the walls in the buffer.\<close>

definition pp_frame :: "u8 \<Rightarrow> nat \<Rightarrow> u8 list" where
  "pp_frame c j = map (\<lambda>k. if k = j then c else if k = 1 \<or> k = 78 then 124 else if k = 79 then 10 else 32) [0..<80]"

definition pp_walls :: "memory \<Rightarrow> u32 \<Rightarrow> bool" where
  "pp_walls m buf \<longleftrightarrow> m buf = 32 \<and> m (buf + 1) = 124 \<and> m (buf + 78) = 124 \<and> m (buf + 79) = 10 \<and> m (buf + 80) = 0"

definition pp_ready :: "'a sys_state_scheme prog_env \<Rightarrow> int \<Rightarrow> u32 \<Rightarrow> vterm \<Rightarrow> 'a sys_state_scheme \<Rightarrow> bool" where
  "pp_ready E fd buf scr s \<longleftrightarrow> (\<exists>V. sees (env_layout E) V s \<and> std_fds (pv_block V) \<and> clock_fd (pv_block V) fd
     \<and> pp_walls (pv_mem V) buf \<and> pv_screen V = scr)"

lemma offset_neq: "i < 81 \<Longrightarrow> k < 81 \<Longrightarrow> (of_nat i :: u32) = of_nat k \<longleftrightarrow> i = k"
proof
  assume "i < 81" "k < 81" "(of_nat i :: u32) = of_nat k"
  then have "unat (of_nat i :: u32) = unat (of_nat k :: u32)" by simp
  then show "i = k" using \<open>i < 81\<close> \<open>k < 81\<close> by (simp add: unat_of_nat)
qed simp

lemma fill_at:
  "\<forall>i\<in>set is. i < 81 \<Longrightarrow> k < 81 \<Longrightarrow> fold (\<lambda>i m. m(buf + of_nat i := 32)) is (m :: memory) (buf + of_nat k) = (if k \<in> set is then 32 else m (buf + of_nat k))"
  by (induction "is" arbitrary: m) (auto simp: offset_neq)

lemma fill_state:
  assumes "in_window buf 81"
  shows "sees (env_layout E) V s \<Longrightarrow> \<forall>i\<in>set is. i < 81 \<Longrightarrow>
    \<exists>s'. pp_fill E buf is s = Some s' \<and> sees (env_layout E) (V\<lparr>pv_mem := fold (\<lambda>i m. m(buf + of_nat i := 32)) is (pv_mem V)\<rparr>) s'"
proof (induction "is" arbitrary: V s)
  case (Cons i "is")
  have "in_window (buf + of_nat i) (Suc 0)" using Cons.prems(2) by (intro in_window_offset [OF assms]) simp
  then obtain s1 where "store_byte (env_layout E) (buf + of_nat i) 32 s = Some s1"
      "sees (env_layout E) (V\<lparr>pv_mem := (pv_mem V)(buf + of_nat i := 32)\<rparr>) s1"
    using leaves_store [OF Cons.prems(1)] by (auto simp: leaves_def)
  then show ?case using Cons.IH [of "V\<lparr>pv_mem := (pv_mem V)(buf + of_nat i := 32)\<rparr>" s1] Cons.prems(2) by simp
qed simp

lemma pp_step_state:
  assumes "clock_ticks E" "in_window buf 81" "g \<noteq> 0" "2 \<le> j" "j < 78" "c \<noteq> 0" "pp_ready E fd buf scr s"
  shows "\<exists>s'. pp_step E fd buf g c j s = Some s' \<and> pp_ready E fd buf (fold v_putc (pp_frame c j) scr) s'"
proof -
  let ?L = "env_layout E"
  obtain V where V: "sees ?L V s" "std_fds (pv_block V)" "clock_fd (pv_block V) fd" "pp_walls (pv_mem V) buf" "pv_screen V = scr"
    using assms(7) by (auto simp: pp_ready_def)
  define m where "m = fold (\<lambda>i m. m(buf + of_nat i := 32)) [2..<78] (pv_mem V)"
  obtain s1 where s1: "pp_fill E buf [2..<78] s = Some s1" "sees ?L (V\<lparr>pv_mem := m\<rparr>) s1"
    using fill_state [OF assms(2) V(1), of "[2..<78]"] by (auto simp: m_def)
  have "in_window (buf + of_nat j) (Suc 0)" using assms(5) by (intro in_window_offset [OF assms(2)]) simp
  then obtain s2 where s2: "store_byte ?L (buf + of_nat j) c s1 = Some s2" "sees ?L (V\<lparr>pv_mem := m(buf + of_nat j := c)\<rparr>) s2"
    using leaves_store [OF s1(2), of "buf + of_nat j" c] by (auto simp: leaves_def)
  have w: "pv_mem V (buf + of_nat k) = (if k = 1 \<or> k = 78 then 124 else if k = 79 then 10 else if k = 80 then 0 else 32)" if "k \<in> {0, 1, 78, 79, 80}" for k
    using V(4) that by (auto simp: pp_walls_def)
  have m: "(m(buf + of_nat j := c)) (buf + of_nat k) = (if k = j then c else if k = 1 \<or> k = 78 then 124 else if k = 79 then 10 else if k = 80 then 0 else 32)"
    if "k < 81" for k
  proof (cases "2 \<le> k \<and> k < 78")
    case True
    then show ?thesis using assms(5) that by (auto simp: m_def fill_at offset_neq simp del: upt_rec_numeral)
  next
    case False
    then have "k \<in> {0, 1, 78, 79, 80}" using that by auto
    then show ?thesis using w [of k] False assms(4,5) that by (auto simp: m_def fill_at offset_neq simp del: upt_rec_numeral)
  qed
  have "bytes_at (m(buf + of_nat j := c)) buf 80 = pp_frame c j"
    unfolding bytes_at_def pp_frame_def using assms(5) by (intro map_cong) (simp_all add: m del: fun_upd_apply)
  moreover have "0 \<notin> set (pp_frame c j)" using assms(6) by (auto simp: pp_frame_def simp del: upt_rec_numeral)
  moreover have len: "length (pp_frame c j) = 80" by (simp add: pp_frame_def)
  ultimately have "cstr_at (m(buf + of_nat j := c)) buf (pp_frame c j)" using m [of 80] assms(5) by (simp add: cstr_at_def)
  then obtain s3 where s3: "ece391_fdputs E 1 buf s2 = Some s3" "sees ?L (pv_type (pp_frame c j) (V\<lparr>pv_mem := m(buf + of_nat j := c)\<rparr>)) s3"
    using ends_fdputs [OF s2(2), of buf "pp_frame c j"] V(2) assms(2) len by (auto simp: leaves_def)
  obtain r s4 where s4: "ece391_read E fd g 4 s3 = Some (r, s4)" "sees ?L (pv_type (pp_frame c j) (V\<lparr>pv_mem := m(buf + of_nat j := c)\<rparr>)) s4"
    using ends_read_clock [OF s3(2) _ assms(1,3), of fd 4] V(3) by (auto simp: ends_def)
  have "pp_walls (m(buf + of_nat j := c)) buf"
    using m [of 0] m [of 1] m [of 78] m [of 79] m [of 80] assms(4,5) by (simp add: pp_walls_def)
  then have "pp_ready E fd buf (fold v_putc (pp_frame c j) scr) s4"
    unfolding pp_ready_def using s4(2) V(2,3,5)
    by (intro exI [of _ "pv_type (pp_frame c j) (V\<lparr>pv_mem := m(buf + of_nat j := c)\<rparr>)"]) simp
  then show ?thesis using s1(1) s2(1) s3(1) s4(1) by (simp add: pp_step_def)
qed

lemma pp_pass_state:
  assumes "clock_ticks E" "in_window buf 81" "g \<noteq> 0" "c \<noteq> 0"
  shows "pp_ready E fd buf scr s \<Longrightarrow> \<forall>j\<in>set js. 2 \<le> j \<and> j < 78 \<Longrightarrow>
    \<exists>s'. pp_pass E fd buf g c js s = Some s' \<and> pp_ready E fd buf (fold v_putc (concat (map (pp_frame c) js)) scr) s'"
proof (induction js arbitrary: scr s)
  case (Cons j js)
  obtain s1 where "pp_step E fd buf g c j s = Some s1" "pp_ready E fd buf (fold v_putc (pp_frame c j) scr) s1"
    using pp_step_state [OF assms(1-3) _ _ assms(4) Cons.prems(1), of j] Cons.prems(2) by auto
  then show ?case using Cons.IH [of "fold v_putc (pp_frame c j) scr" s1] Cons.prems(2) by simp
qed simp

text \<open>What \<open>n\<close> rounds type, beginning with the letter \<open>c\<close>.\<close>

primrec pp_text :: "nat \<Rightarrow> u8 \<Rightarrow> u8 list" where
  "pp_text 0 c = []"
| "pp_text (Suc n) c = concat (map (pp_frame c) ([2..<78] @ rev [2..<78])) @ pp_text n (pp_next c)"

lemma pp_next_letter:
  assumes "65 \<le> c" "c \<le> 90"
  shows "65 \<le> pp_next c \<and> pp_next c \<le> 90"
proof (cases "c = 90")
  case False
  have "65 \<le> unat c" "unat c \<le> 90" using assms by (simp_all only: word_le_nat_alt unat_numeral take_bit_nat_def) simp_all
  moreover have "unat c \<noteq> 90" using False by (simp add: word_unat_eq_iff)
  ultimately have "unat (c + 1) = unat c + 1" "unat c + 1 \<le> 90" by (simp_all add: unat_word_ariths)
  then show ?thesis using False \<open>65 \<le> unat c\<close> by (simp add: pp_next_def word_le_nat_alt)
qed (simp add: pp_next_def)

lemma pp_rounds_state:
  assumes "clock_ticks E" "in_window buf 81" "g \<noteq> 0"
  shows "65 \<le> c \<Longrightarrow> c \<le> 90 \<Longrightarrow> pp_ready E fd buf scr s \<Longrightarrow>
    \<exists>s'. pp_rounds n E fd buf g c s = Some ((pp_next ^^ n) c, s') \<and> pp_ready E fd buf (fold v_putc (pp_text n c) scr) s'"
proof (induction n arbitrary: c scr s)
  case (Suc n)
  have c: "c \<noteq> 0" using Suc.prems(1) by auto
  have j: "\<forall>j\<in>set [2..<78]. 2 \<le> j \<and> j < 78" by (simp del: upt_rec_numeral)
  obtain s1 where s1: "pp_pass E fd buf g c [2..<78] s = Some s1"
      "pp_ready E fd buf (fold v_putc (concat (map (pp_frame c) [2..<78])) scr) s1"
    using pp_pass_state [OF assms c Suc.prems(3) j] by blast
  have j': "\<forall>j\<in>set (rev [2..<78]). 2 \<le> j \<and> j < 78" by (simp del: upt_rec_numeral)
  obtain s2 where s2: "pp_pass E fd buf g c (rev [2..<78]) s1 = Some s2"
      "pp_ready E fd buf (fold v_putc (concat (map (pp_frame c) (rev [2..<78]))) (fold v_putc (concat (map (pp_frame c) [2..<78])) scr)) s2"
    using pp_pass_state [OF assms c s1(2) j'] by blast
  define xs where "xs = [2..<78 :: nat]"
  have r: "pp_round E fd buf g c s = Some s2" using s1(1) s2(1) unfolding pp_round_def xs_def [symmetric] by simp
  have t: "fold v_putc (pp_text (Suc n) c) scr
      = fold v_putc (pp_text n (pp_next c)) (fold v_putc (concat (map (pp_frame c) (rev [2..<78]))) (fold v_putc (concat (map (pp_frame c) [2..<78])) scr))"
    unfolding pp_text.simps xs_def [symmetric] by simp
  obtain s3 where "pp_rounds n E fd buf g (pp_next c) s2 = Some ((pp_next ^^ n) (pp_next c), s3)"
      "pp_ready E fd buf (fold v_putc (pp_text (Suc n) c) scr) s3"
    using Suc.IH [OF conjunct1 [OF pp_next_letter [OF Suc.prems(1,2)]] conjunct2 [OF pp_next_letter [OF Suc.prems(1,2)]] s2(2)] unfolding t [symmetric] by blast
  moreover have "(pp_next ^^ Suc n) c = (pp_next ^^ n) (pp_next c)" by (simp add: funpow_swap1)
  ultimately show ?case using r unfolding pp_rounds.simps by (intro exI [of _ s3] conjI) (simp_all only: bind.bind_lunit)
qed simp

section \<open>The start, and the whole program\<close>

lemma opened_clock: "ftype d = 0 \<Longrightarrow> 2 \<le> i \<Longrightarrow> i < 8 \<Longrightarrow> clock_fd (opened i d b) (int i)"
  by (simp add: clock_fd_def opened_def fops_of_def set_fd_def set_bitmap_def)

lemma walls_write:
  assumes "pp_walls m buf" "region buf 81 \<inter> region a (length bs) = {}" "length bs \<le> 4294967296"
  shows "pp_walls (write_bytes m a bs) buf"
proof -
  have "write_bytes m a bs (buf + of_nat k) = m (buf + of_nat k)" if "k < 81" for k
    using assms(2,3) that in_region_offset [of k buf 81] by (intro write_bytes_outside) auto
  from this [of 0] this [of 1] this [of 78] this [of 79] this [of 80] show ?thesis using assms(1) by (simp add: pp_walls_def)
qed

lemma pp_buffer_state:
  assumes "sees (env_layout E) V s" "in_window buf 81"
  shows "\<exists>s1 s2 s3 s4 s5 m. pp_fill E buf [0..<81] s = Some s1 \<and> store_byte (env_layout E) (buf + 80) 0 s1 = Some s2
    \<and> store_byte (env_layout E) (buf + 79) 10 s2 = Some s3 \<and> store_byte (env_layout E) (buf + 78) 124 s3 = Some s4
    \<and> store_byte (env_layout E) (buf + 1) 124 s4 = Some s5 \<and> sees (env_layout E) (V\<lparr>pv_mem := m\<rparr>) s5 \<and> pp_walls m buf
    \<and> (\<forall>x. x \<notin> region buf 81 \<longrightarrow> m x = pv_mem V x)"
proof -
  let ?L = "env_layout E"
  define m0 where "m0 = fold (\<lambda>i m. m(buf + of_nat i := 32)) [0..<81] (pv_mem V)"
  obtain s1 where s1: "pp_fill E buf [0..<81] s = Some s1" "sees ?L (V\<lparr>pv_mem := m0\<rparr>) s1"
    using fill_state [OF assms(2,1), of "[0..<81]"] by (auto simp: m0_def)
  have w: "in_window (buf + of_nat k) (Suc 0)" if "k < 81" for k using that by (rule in_window_offset [OF assms(2)])
  have st: "\<exists>u. store_byte ?L (buf + of_nat k) c t = Some u \<and> sees ?L (V\<lparr>pv_mem := m(buf + of_nat k := c)\<rparr>) u"
    if "sees ?L (V\<lparr>pv_mem := m\<rparr>) t" "k < 81" for k c m t
    using leaves_store [OF that(1) w [OF that(2)], of c] by (auto simp: leaves_def)
  obtain s2 where s2: "store_byte ?L (buf + 80) 0 s1 = Some s2" "sees ?L (V\<lparr>pv_mem := m0(buf + 80 := 0)\<rparr>) s2"
    using st [OF s1(2), of 80 0] by auto
  obtain s3 where s3: "store_byte ?L (buf + 79) 10 s2 = Some s3" "sees ?L (V\<lparr>pv_mem := m0(buf + 80 := 0, buf + 79 := 10)\<rparr>) s3"
    using st [OF s2(2), of 79 10] by auto
  obtain s4 where s4: "store_byte ?L (buf + 78) 124 s3 = Some s4" "sees ?L (V\<lparr>pv_mem := m0(buf + 80 := 0, buf + 79 := 10, buf + 78 := 124)\<rparr>) s4"
    using st [OF s3(2), of 78 124] by auto
  let ?m = "m0(buf + 80 := 0, buf + 79 := 10, buf + 78 := 124, buf + 1 := 124)"
  obtain s5 where s5: "store_byte ?L (buf + 1) 124 s4 = Some s5" "sees ?L (V\<lparr>pv_mem := ?m\<rparr>) s5"
    using st [OF s4(2), of 1 124] by auto
  have "m0 buf = 32" using fill_at [of "[0..<81]" 0 buf "pv_mem V"] by (simp add: m0_def del: upt_rec_numeral)
  then have walls: "pp_walls ?m buf" by (simp add: pp_walls_def)
  have "fold (\<lambda>i m. m(buf + of_nat i := 32)) is m x = m x" if "x \<notin> region buf 81" "\<forall>i\<in>set is. i < 81" for x "is" and m :: memory
    using that(2)
  proof (induction "is" arbitrary: m)
    case (Cons i "is")
    then have "x \<noteq> buf + of_nat i" using that(1) in_region_offset [of i buf 81] by auto
    then show ?case using Cons by simp
  qed simp
  then have "m0 x = pv_mem V x" if "x \<notin> region buf 81" for x using that by (simp add: m0_def del: upt_rec_numeral)
  moreover have "x \<noteq> buf + of_nat k" if "x \<notin> region buf 81" "k < 81" for x k using that in_region_offset [of k buf 81] by auto
  from this [of _ 80] this [of _ 79] this [of _ 78] this [of _ 1]
  have "x \<notin> {buf + 80, buf + 79, buf + 78, buf + 1}" if "x \<notin> region buf 81" for x using that by auto
  ultimately have "\<forall>x. x \<notin> region buf 81 \<longrightarrow> ?m x = pv_mem V x" by simp
  then show ?thesis using s1(1) s2(1) s3(1) s4(1) s5 walls by blast
qed

lemma pp_start_state:
  assumes "sees (env_layout E) V s" "std_fds (pv_block V)" "pv_files V = fs_core s0" "lit_apart E (pv_mem V) buf 81 ''rtc''"
    and "\<forall>d. dir_lookup s0 (chars ''rtc'') = Some d \<longrightarrow> ftype d = 0"
    and "in_window buf 81" "in_window ret 4" "region buf 81 \<inter> region ret 4 = {}"
  shows "\<exists>fd s'. pp_start E buf ret s = Some (fd, s') \<and> pp_ready E fd buf (pv_screen V) s'"
proof -
  let ?L = "env_layout E" and ?a = "env_lit E ''rtc''" and ?nm = "chars ''rtc''"
  obtain s1 s2 s3 s4 s5 m where b: "pp_fill E buf [0..<81] s = Some s1" "store_byte ?L (buf + 80) 0 s1 = Some s2"
      "store_byte ?L (buf + 79) 10 s2 = Some s3" "store_byte ?L (buf + 78) 124 s3 = Some s4" "store_byte ?L (buf + 1) 124 s4 = Some s5"
      and s5: "sees ?L (V\<lparr>pv_mem := m\<rparr>) s5" and m: "pp_walls m buf" "\<forall>x. x \<notin> region buf 81 \<longrightarrow> m x = pv_mem V x"
    using pp_buffer_state [OF assms(1,6)] by blast
  have lit: "cstr_at (pv_mem V) ?a ?nm" "in_window ?a (Suc (length ?nm))" "region buf 81 \<inter> region ?a (Suc (length ?nm)) = {}"
    using assms(4) by (simp_all add: lit_apart_def has_lit_def)
  have "cstr_at m ?a ?nm = cstr_at (pv_mem V) ?a ?nm" by (rule cstr_at_cong) (use m(2) lit(3) in auto)
  then have nm: "cstr_at (pv_mem (V\<lparr>pv_mem := m\<rparr>)) ?a ?nm" using lit(1) by simp
  have "\<exists>fd s6 V6. ece391_open E ?a s5 = Some (fd, s6) \<and> sees ?L V6 s6 \<and> std_fds (pv_block V6) \<and> clock_fd (pv_block V6) fd
      \<and> pv_mem V6 = m \<and> pv_screen V6 = pv_screen V"
  proof (cases "dir_lookup s0 ?nm = None \<or> free_desc (bitmap (pv_block V)) = -1")
    case True
    then obtain t where "ece391_open E ?a s5 = Some (-1, t)" "sees ?L (V\<lparr>pv_mem := m\<rparr>) t"
      using ends_open(2) [OF s5 _ nm lit(2), of s0] assms(3) by (auto simp: ends_def)
    then show ?thesis
      using assms(2) by (intro exI [of _ "-1"] exI [of _ t] exI [of _ "V\<lparr>pv_mem := m\<rparr>"]) (simp add: clock_fd_def)
  next
    case False
    then obtain d i where d: "dir_lookup s0 ?nm = Some d" "free_desc (bitmap (pv_block V)) = int i" "2 \<le> i" "i < 8"
      using desc.alloc_lowest [of "bitmap (pv_block V)"] by auto
    then have t: "ftype d = 0" using assms(5) by blast
    let ?V = "V\<lparr>pv_mem := m, pv_block := opened i d (pv_block V)\<rparr>"
    obtain u where "ece391_open E ?a s5 = Some (int i, u)" "sees ?L ?V u"
      using ends_open(1) [OF s5 _ nm lit(2) d(1), of i] assms(3) d(2) t by (auto simp: ends_def)
    then show ?thesis
      using assms(2) std_fds_other [of "pv_block V" i d 0] opened_clock [OF t d(3,4)] d(3)
      by (intro exI [of _ "int i"] exI [of _ u] exI [of _ ?V]) simp
  qed
  then obtain fd s6 V6 where s6: "ece391_open E ?a s5 = Some (fd, s6)" "sees ?L V6 s6" "std_fds (pv_block V6)" "clock_fd (pv_block V6) fd"
      "pv_mem V6 = m" "pv_screen V6 = pv_screen V"
    by blast
  have len: "length (le_bytes v) = 4" for v by (simp add: le_bytes_def)
  have w: "in_window ret (length (le_bytes v))" for v unfolding len by (rule assms(7))
  obtain s7 where s7: "store_bytes ?L ret (le_bytes 32) s6 = Some s7" "sees ?L (V6\<lparr>pv_mem := write_bytes m ret (le_bytes 32)\<rparr>) s7"
    using sees_store [OF s6(2) w] by (auto simp: s6(5))
  obtain r s8 where s8: "ece391_write E fd ret 4 s7 = Some (r, s8)" "sees ?L (V6\<lparr>pv_mem := write_bytes m ret (le_bytes 32)\<rparr>) s8"
    using ends_write_clock [OF s7(2), of fd ret 4] s6(4) by (auto simp: ends_def)
  let ?m = "write_bytes (write_bytes m ret (le_bytes 32)) ret (le_bytes (of_int r))"
  obtain s9 where s9: "store_bytes ?L ret (le_bytes (of_int r)) s8 = Some s9" "sees ?L (V6\<lparr>pv_mem := ?m\<rparr>) s9"
    using sees_store [OF s8(2) w] by auto
  have "pp_walls ?m buf" by (intro walls_write m(1)) (use assms(8) len in simp_all)
  then have "pp_ready E fd buf (pv_screen V) s9"
    unfolding pp_ready_def using s9(2) s6(3,4,6) by (intro exI [of _ "V6\<lparr>pv_mem := ?m\<rparr>"]) simp
  moreover have "pp_start E buf ret s = Some (fd, s9)"
    unfolding pp_start_def b bind.bind_lunit s6(1) prod.case s7(1) s8(1) s9(1) ..
  ultimately show ?thesis by blast
qed

lemma pp_loop_never: "pp_loop E fd buf g c s = None"
proof -
  have "pp_loop E fd buf g c s \<noteq> Some y" for y
  proof
    assume "pp_loop E fd buf g c s = Some y"
    then show False
      by (rule pp_loop.raw_induct [where P = "\<lambda>E fd buf g c s y. False", rotated]) (auto simp: bind_eq_Some_conv)
  qed
  then show ?thesis by (cases "pp_loop E fd buf g c s") blast+
qed

text \<open>
  C22: \<open>pingpong\<close> bounces for ever. As long as a tick of the clock ends each of its waits, and whether or
  not it gets a descriptor for the clock, it never returns and never gets stuck: for every number
  of rounds it comes through them, having typed for each letter, from \<open>A\<close> to \<open>Z\<close> and over again, a
  line with that letter at every column from the left wall to the right one and back.
\<close>

theorem pingpong_bounces:
  assumes "sees (env_layout E) V s" and "std_fds (pv_block V)" and "pv_files V = fs_core s0" and "lit_apart E (pv_mem V) buf 81 ''rtc''"
    and "\<forall>d. dir_lookup s0 (chars ''rtc'') = Some d \<longrightarrow> ftype d = 0" and "clock_ticks E" and "garbage \<noteq> 0"
    and "in_window buf 81" and "in_window ret_val 4" and "region buf 81 \<inter> region ret_val 4 = {}"
  shows "pingpong_main E buf ret_val garbage s = None \<and> (\<exists>fd s1. pp_start E buf ret_val s = Some (fd, s1) \<and>
    (\<forall>n. \<exists>s2. pp_rounds n E fd buf garbage 65 s1 = Some ((pp_next ^^ n) 65, s2) \<and> prog_ok (env_layout E) s2
       \<and> vterm_of s2 (active_terminal s2) = fold v_putc (pp_text n 65) (pv_screen V)))"
proof -
  obtain fd s1 where s1: "pp_start E buf ret_val s = Some (fd, s1)" "pp_ready E fd buf (pv_screen V) s1"
    using pp_start_state [OF assms(1-5,8-10)] by blast
  have "\<exists>s2. pp_rounds n E fd buf garbage 65 s1 = Some ((pp_next ^^ n) 65, s2) \<and> prog_ok (env_layout E) s2
       \<and> vterm_of s2 (active_terminal s2) = fold v_putc (pp_text n 65) (pv_screen V)" for n
    using pp_rounds_state [OF assms(6,8,7) _ _ s1(2), of 65 n] sees_screen by (fastforce simp: pp_ready_def)
  moreover have "pingpong_main E buf ret_val garbage s = None" by (simp add: pingpong_main_def s1(1) pp_loop_never)
  ultimately show ?thesis using s1(1) by blast
qed

section \<open>Signals that do not come\<close>

lemma set_handler_refused: "ece391_set_handler E n h s = Some (-1, s)"
  by (simp add: ece391_set_handler_def DO_CALL_def int_80_def syscall_asm_def)

lemma null_store_faults:
  assumes "sees (env_layout E) V s"
  shows "store_byte (env_layout E) 0 c s = None"
proof -
  obtain A where "address_space (env_layout E) s A"
    using assms by (auto simp: sees_def prog_ok_def user_mapped_def)
  moreover have "layout_ok (env_layout E)" using assms by (simp add: sees_def prog_ok_def user_mapped_def)
  ultimately have "translate (env_layout E) s 0 = as_translate A 0" by (intro address_space_translate)
  then show ?thesis by (simp add: store_byte_def as_translate_def)
qed

text \<open>
  C23: \<open>sigtest\<close> ends in a page fault. Run with an argument, it asks for the name and takes a line, then
  stores through its null pointer, and that store faults, whether it has tried to install its
  handlers (with the argument \<open>1\<close>) or not: the kernel refuses the call. It never prints its
  greeting.
\<close>

theorem sigtest_faults:
  assumes "sees (env_layout E) V s" and "std_fds (pv_block V)"
    and "pv_args V = (ab, sz)" and "sz \<noteq> 0" and "cstr_at (array_mem ab) 0 args" and "length args < 129"
    and "cstr_at (pv_mem V) buf old" and "length old < 1024" and "in_window buf 1024"
    and "\<forall>l\<in>{ln ''Installing signal handlers'', ''Hi, what's your name? ''}. lit_apart E (pv_mem V) buf 1024 l"
    and "\<forall>V1. pv_ready V1 = pv_ready V \<longrightarrow> (\<exists>V'. line_arrives E V1 cs V' \<and> pv_screen V' = fold v_putc echo (pv_screen V1))" and "length cs < 1023"
  shows "\<exists>s'. sigtest_main E buf charbuf h1 h2 s = Some (Faults s') \<and> prog_ok (env_layout E) s'
    \<and> vterm_of s' (active_terminal s') = fold v_putc ((if take 1 args = [49] then chars (ln ''Installing signal handlers'') else [])
        @ chars ''Hi, what's your name? '' @ echo) (pv_screen V)"
proof -
  let ?L = "env_layout E" and ?p = "''Hi, what's your name? ''" and ?i = "ln ''Installing signal handlers''"
  have w: "in_window buf (Suc (max (length old) (length args)))" using assms(6,8,9) by (auto simp: in_window_def)
  define m where "m = write_bytes (write_bytes (pv_mem V) buf (replicate (length old) 0)) buf (args @ [0])"
  obtain s1 where s1: "ece391_getargs E buf 1024 s = Some (0, s1)" "sees ?L (V\<lparr>pv_mem := m\<rparr>) s1"
    using ends_getargs [OF assms(1,3-7) w, of 1024] by (auto simp: ends_def m_def)
  have lit: "lit_apart E m buf 1024 l" if "l \<in> {?i, ?p}" for l
  proof -
    have "lit_apart E (pv_mem V) buf 1024 l" using assms(10) that by blast
    then show ?thesis
      using lit_apart_write [OF lit_apart_write [of E "pv_mem V" buf 1024 l 0 "replicate (length old) 0"], of 0 "args @ [0]"] assms(6,8)
      by (simp add: m_def)
  qed
  have z: "0 \<notin> set args" using assms(5) by (simp add: cstr_at_def)
  have "view ?L s1 buf = m buf"
    using s1(2) window_view [of ?L s1 buf] assms(9) by (auto simp: sees_def prog_ok_def in_window_def)
  moreover have "cstr_at m buf args" unfolding m_def using cstr_written [OF z] assms(6) by simp
  then have "m buf = (if args = [] then 0 else hd args)" by (cases args) (simp add: cstr_at_def, simp add: cstr_at_Cons)
  ultimately have first: "view ?L s1 buf = 49 \<longleftrightarrow> take 1 args = [49]" by (cases args) auto
  let ?t = "if take 1 args = [49] then chars ?i else []"
  let ?V1 = "pv_type ?t (V\<lparr>pv_mem := m\<rparr>)"
  have "\<exists>s2. (if view ?L s1 buf = 49
                 then do {
                   s \<leftarrow> put E ?i s1;
                   (_, s) \<leftarrow> ece391_set_handler E 1 h1 s;
                   (_, s) \<leftarrow> ece391_set_handler E 3 h2 s;
                   Some s }
                 else Some s1) = Some s2 \<and> sees ?L ?V1 s2"
  proof (cases "take 1 args = [49]")
    case True
    obtain s2 where s2: "put E ?i s1 = Some s2" "sees ?L (pv_type (chars ?i) (V\<lparr>pv_mem := m\<rparr>)) s2"
      using leaves_put [OF s1(2), of ?i] assms(2) lit [of ?i] by (auto simp: leaves_def lit_apart_def ln_def)
    then show ?thesis using True first by (simp add: set_handler_refused)
  qed (use first s1(2) in auto)
  then obtain s2 where s2: "(if view ?L s1 buf = 49
                 then do {
                   s \<leftarrow> put E ?i s1;
                   (_, s) \<leftarrow> ece391_set_handler E 1 h1 s;
                   (_, s) \<leftarrow> ece391_set_handler E 3 h2 s;
                   Some s }
                 else Some s1) = Some s2" "sees ?L ?V1 s2" by blast
  obtain V' where V': "line_arrives E (pv_type (chars ?p) ?V1) cs V'" "pv_screen V' = fold v_putc echo (pv_screen (pv_type (chars ?p) ?V1))"
    using assms(11) [rule_format, of "pv_type (chars ?p) ?V1"] by auto
  have "\<exists>s3 s4 V4. put E ?p s2 = Some s3 \<and> ece391_read E 0 buf 1023 s3 = Some (int (length cs), s4) \<and> sees ?L V4 s4 \<and> pv_screen V4 = pv_screen V'"
  proof -
    obtain s3 where s3: "put E ?p s2 = Some s3" "sees ?L (pv_type (chars ?p) ?V1) s3"
      using leaves_put [OF s2(2), of ?p] assms(2) lit [of ?p] by (auto simp: leaves_def lit_apart_def)
    have b: "in_window buf 1023" using assms(9) by (simp add: in_window_def)
    show ?thesis
      using ends_read_line [OF s3(2) _ V'(1) assms(12) _ b] assms(2) s3(1) by (fastforce simp: ends_def)
  qed
  then obtain s3 s4 V4 where s4: "put E ?p s2 = Some s3" "ece391_read E 0 buf 1023 s3 = Some (int (length cs), s4)" "sees ?L V4 s4" "pv_screen V4 = pv_screen V'"
    by blast
  have "sigtest_main E buf charbuf h1 h2 s = Some (Faults s4)"
    unfolding sigtest_main_def s1(1) bind.bind_lunit prod.case
    by (simp add: s2(1) s4(1,2) sigtest_store_def null_store_faults [OF s4(3)] del: if_split)
  then show ?thesis using sees_screen [OF s4(3)] s4(4) V'(2) by simp
qed

section \<open>Witnesses\<close>

text \<open>The machine of the examples, with a clock in the place of its directory entry.\<close>

definition clock_image :: memory where
  "clock_image = store32 (write_bytes dir_image 0x500040 (chars ''rtc'')) 0x500060 0"

definition clock_demo :: sys_state where
  "clock_demo = prog_demo\<lparr>fs_mem := clock_image\<rparr>"

definition clock_env :: "sys_state prog_env" where
  "clock_env = (demo_env [])\<lparr>env_irqs := \<lambda>s. [rtc_int_handler (\<lambda>_ _. 0)]\<rparr>"

lemma clock_env_fields: "env_layout clock_env = boot_layout" "env_lit clock_env = env_lit (demo_env [])" "env_irqs clock_env s = [rtc_int_handler (\<lambda>_ _. 0)]"
  by (simp_all add: clock_env_def)

lemma clock_env_ticks: "clock_ticks clock_env"
proof -
  have "\<exists>s1. spin_until (\<lambda>s. RTC_flag s \<noteq> 0) (env_irqs clock_env s) s = Some s1 \<and> sees boot_layout V s1 \<and> curr s1 = curr s"
    if "sees boot_layout V s" for V s
  proof (cases "RTC_flag s = 0")
    case True
    have "RTC_flag (rtc_int_handler (\<lambda>_ _. 0) s) = 1" by (simp add: rtc_int_handler_def Let_def case_prod_beta sti_def send_eoi_def outb_def inb_def)
    then show ?thesis using True that by (simp add: clock_env_fields sees_rtc [OF rtc_tick_more])
  next
    case False
    then show ?thesis using that by (simp add: clock_env_fields)
  qed
  then show ?thesis by (simp add: clock_ticks_def clock_env_fields(1))
qed

lemma clock_demo_rtc: "dir_lookup clock_demo (chars ''rtc'') = Some d \<Longrightarrow> ftype d = 0"
proof -
  assume d: "dir_lookup clock_demo (chars ''rtc'') = Some d"
  have r: "[0..<2] = [0, 1 :: nat]" by code_simp
  have f: "fs_mem clock_demo = clock_image" "num_dentry clock_demo = 2" "dentry_start clock_demo = 0x500040"
    by (simp_all add: clock_demo_def prog_demo_fields)
  have i: "field_string clock_image 0x500040 32 = chars ''rtc''" "field_string clock_image 0x500080 32 = chars ''f1''" "load32 clock_image 0x500060 = 0"
    by code_simp+
  have n: "takeWhile (\<lambda>c. c \<noteq> 0) (fname (dentry_at clock_demo 0)) = chars ''rtc''" "takeWhile (\<lambda>c. c \<noteq> 0) (fname (dentry_at clock_demo 1)) = chars ''f1''"
    using i(1,2) by (simp_all add: dentry_name_field dentry_addr_def f)
  have "find (\<lambda>i. takeWhile (\<lambda>c. c \<noteq> 0) (fname (dentry_at clock_demo i)) = take 32 (chars ''rtc'')) [0..<2] = Some 0"
    unfolding r by (simp add: n(1))
  then have "d = dentry_at clock_demo 0" using d by (simp add: dir_lookup_def f(2))
  then show "ftype d = 0" using i(3) by (simp add: dentry_at_def dentry_addr_def f Let_def)
qed

theorem pingpong_bounces_witness:
  "\<exists>fd s1. pp_start clock_env demo_buf 0x8110000 clock_demo = Some (fd, s1) \<and>
    (\<exists>s2. pp_rounds 2 clock_env fd demo_buf 0x8110004 65 s1 = Some (67, s2) \<and> prog_ok boot_layout s2)"
proof -
  let ?V = "demo_view\<lparr>pv_files := fs_core clock_demo\<rparr>"
  have v: "pview clock_demo = ?V" by (simp add: clock_demo_def pview_def vterm_of_def page_of_def)
  have s: "sees boot_layout ?V clock_demo"
    using prog_demo_ok unfolding sees_def v by (simp add: clock_demo_def prog_ok_def user_mapped_def address_space_def console_ok_def)
  have "''rtc'' \<in> set demo_lits" by (simp add: demo_lits_def)
  then have l: "lit_apart clock_env (pv_mem ?V) demo_buf 81 ''rtc''"
    using demo_lit_small [of "''rtc''" 81 "[]"] by (simp add: lit_apart_def has_lit_def clock_env_fields(2) del: demo_env_fields(3))
  have d: "\<forall>d. dir_lookup clock_demo (chars ''rtc'') = Some d \<longrightarrow> ftype d = 0" using clock_demo_rtc by blast
  have "x \<notin> region 0x8110000 4" if x: "x \<in> region demo_buf 81" for x
  proof -
    obtain i where "x = demo_buf + of_nat i" "i < 81" using x by (rule region_obtain) simp_all
    then have "unat x < 0x8110000" by (simp add: demo_buf_def unat_word_ariths unat_of_nat)
    moreover have "0x8110000 \<le> unat x" if r: "x \<in> region 0x8110000 4"
    proof -
      obtain k where "x = 0x8110000 + of_nat k" "k < 4" using r by (rule region_obtain) simp_all
      then show ?thesis by (simp add: unat_word_ariths unat_of_nat)
    qed
    ultimately show ?thesis by (meson leD)
  qed
  then have r: "region demo_buf 81 \<inter> region 0x8110000 4 = {}" by blast
  have w: "in_window 0x8110000 4" by (simp add: in_window_def)
  have std: "std_fds (pv_block ?V)" using prog_pcb_fds(1) by (simp add: demo_view_fields)
  have "(pp_next ^^ 2) 65 = 67" by code_simp
  then show ?thesis
    using pingpong_bounces [of clock_env ?V clock_demo clock_demo demo_buf "0x8110004" "0x8110000", unfolded clock_env_fields(1), OF s std _ l d clock_env_ticks _ demo_buffer w r]
    by (auto dest!: spec [of _ 2])
qed

theorem sigtest_faults_witness:
  "\<exists>s'. sigtest_main (demo_env [65, 10]) demo_buf 0x8048000 0x8048100 0x8048200 prog_demo = Some (Faults s') \<and> prog_ok boot_layout s'
    \<and> vterm_of s' (active_terminal s') = fold v_putc (chars ''Hi, what's your name? '') (pv_screen demo_view)"
proof -
  let ?E = "demo_env [65, 10]"
  have a: "pv_args demo_view = ((\<lambda>_. 0)(0 := 102, 1 := 49), 2)" by (simp add: pview_def prog_demo_fields)
  have c: "cstr_at (array_mem ((\<lambda>_. 0)(0 := 102, 1 := 49))) 0 [102, 49]" by (simp add: cstr_at_Cons array_mem_def)
  have "in_window demo_buf (Suc 0)" using demo_buffer [of 1] by simp
  then have "pv_mem demo_view demo_buf = 0"
    using demo_view_prog window_view [of boot_layout prog_demo demo_buf] prog_demo_ok by (simp add: prog_ok_def)
  then have old: "cstr_at (pv_mem demo_view) demo_buf []" by (simp add: cstr_at_def bytes_at_def)
  have "l \<in> {ln ''Installing signal handlers'', ''Hi, what's your name? ''} \<Longrightarrow> l \<in> set demo_lits" for l by (auto simp: demo_lits_def)
  then have l: "\<forall>l\<in>{ln ''Installing signal handlers'', ''Hi, what's your name? ''}. lit_apart ?E (pv_mem demo_view) demo_buf 1024 l"
    using demo_lit by blast
  have i: "\<forall>V1. pv_ready V1 = pv_ready demo_view \<longrightarrow> (\<exists>V'. line_arrives ?E V1 [65, 10] V' \<and> pv_screen V' = fold v_putc [] (pv_screen V1))"
  proof (intro allI impI)
    fix V1 :: prog_view assume "pv_ready V1 = pv_ready demo_view"
    then have "line_arrives ?E V1 [65, 10] (V1\<lparr>pv_ready := 1\<rparr>)" by (intro demo_line) (simp_all add: demo_view_fields)
    then show "\<exists>V'. line_arrives ?E V1 [65, 10] V' \<and> pv_screen V' = fold v_putc [] (pv_screen V1)" by (intro exI [of _ "V1\<lparr>pv_ready := 1\<rparr>"]) simp
  qed
  have std: "std_fds (pv_block demo_view)" using prog_pcb_fds(1) by (simp add: demo_view_fields)
  show ?thesis
    using sigtest_faults [of ?E demo_view prog_demo, unfolded demo_env_fields(1), OF demo_sees std a _ c _ old _ demo_buffer l i] by simp
qed

end
