(* ===== verification/Fish_Blink.thy ===== *)
theory Fish_Blink
  imports Lib_Memory
begin

text \<open>
  The blinking characters of \<open>fish\<close> (\<open>fish/blink.S\<close>, with its memory allocation in \<open>fish/fish.c\<close>): a
  list of blinkers linked through an array, which the tasklet walks at every tick of the clock. An
  operation gives its result, the new state and the characters it stores in video memory with
  their positions (\<open>mp1_poke\<close>), in order.
\<close>

section \<open>The operations\<close>

text \<open>\<open>struct mp1_blink_struct\<close>; a pointer to an element of \<open>blink_array\<close> is its index, \<open>None\<close> is NULL.\<close>

record blink =
  bl_location :: u16
  on_char :: u8
  off_char :: u8
  on_length :: u16
  off_length :: u16
  countdown :: u16
  bl_status :: u16
  next_ptr :: "nat option"

record blink_state =
  blink_array :: "nat \<Rightarrow> blink"
  mp1_list_head :: "nat option"

type_synonym poke = "u16 \<times> u8"

definition zero_blink :: blink where
  "zero_blink = \<lparr>bl_location = 0, on_char = 0, off_char = 0, on_length = 0, off_length = 0, countdown = 0, bl_status = 0, next_ptr = None\<rparr>"

definition set_blink :: "nat \<Rightarrow> (blink \<Rightarrow> blink) \<Rightarrow> blink_state \<Rightarrow> blink_state" where
  "set_blink i f b = b\<lparr>blink_array := (blink_array b)(i := f (blink_array b i))\<rparr>"

text \<open>An element is free when its location is 0.\<close>

definition mp1_malloc :: "blink_state \<Rightarrow> nat option" where
  "mp1_malloc b = find (\<lambda>i. bl_location (blink_array b i) = 0) [0..<2000]"

definition mp1_free :: "nat \<Rightarrow> blink_state \<Rightarrow> blink_state" where
  "mp1_free i b = set_blink i (\<lambda>_. zero_blink) b"

text \<open>The locations are compared unsigned (\<open>jae\<close>); \<open>u\<close> is the structure of the caller.\<close>

definition mp1_ioctl_add :: "blink \<Rightarrow> blink_state \<Rightarrow> int \<times> blink_state \<times> poke list" where
  "mp1_ioctl_add u b =
     (if 2000 \<le> bl_location u then (-1, b, [])
      else
        let t = u\<lparr>bl_status := 1, countdown := on_length u\<rparr>
        in case mp1_malloc b of None \<Rightarrow> (-1, b, [])
           | Some i \<Rightarrow>
               let b = set_blink i (\<lambda>_. t) b;
                   b = set_blink i (\<lambda>x. x\<lparr>next_ptr := mp1_list_head b\<rparr>) b;
                   b = b\<lparr>mp1_list_head := Some i\<rparr>
               in (0, b, [(bl_location t, on_char t)]))"

text \<open>The loop of \<open>mp1_find_helper\<close>; in a list with a cycle it may not end.\<close>

partial_function (option) find_loop :: "blink_state \<Rightarrow> u16 \<Rightarrow> nat option \<Rightarrow> nat option option" where
  "find_loop b loc p =
     (case p of None \<Rightarrow> Some None
      | Some i \<Rightarrow> if bl_location (blink_array b i) = loc then Some (Some i) else find_loop b loc (next_ptr (blink_array b i)))"

definition mp1_find_helper :: "u16 \<Rightarrow> blink_state \<Rightarrow> nat option option" where
  "mp1_find_helper loc b = find_loop b loc (mp1_list_head b)"

text \<open>The cell that holds a pointer: the head of the list or the field of an element.\<close>

datatype cell = Head | Next nat

fun deref_cell :: "blink_state \<Rightarrow> cell \<Rightarrow> nat option" where
  "deref_cell b Head = mp1_list_head b"
| "deref_cell b (Next i) = next_ptr (blink_array b i)"

fun set_cell_ptr :: "cell \<Rightarrow> nat option \<Rightarrow> blink_state \<Rightarrow> blink_state" where
  "set_cell_ptr Head p b = b\<lparr>mp1_list_head := p\<rparr>"
| "set_cell_ptr (Next i) p b = set_blink i (\<lambda>x. x\<lparr>next_ptr := p\<rparr>) b"

text \<open>\<open>remove_find_prev\<close>; \<open>None\<close> is an access through NULL, or a loop that does not end.\<close>

partial_function (option) remove_find_prev :: "blink_state \<Rightarrow> nat \<Rightarrow> cell \<Rightarrow> cell option" where
  "remove_find_prev b i c =
     (if deref_cell b c = Some i then Some c
      else case deref_cell b c of None \<Rightarrow> None | Some j \<Rightarrow> remove_find_prev b i (Next j))"

definition mp1_ioctl_remove :: "u32 \<Rightarrow> blink_state \<Rightarrow> (int \<times> blink_state \<times> poke list) option" where
  "mp1_ioctl_remove arg b =
     do { r \<leftarrow> mp1_find_helper (ucast arg) b;
          case r of None \<Rightarrow> Some (-1, b, [])
          | Some i \<Rightarrow> do {
              c \<leftarrow> remove_find_prev b i Head;
              let b = set_cell_ptr c (next_ptr (blink_array b i)) b;
              Some (0, mp1_free i b, []) } }"

text \<open>\<open>testb\<close> clears the overflow flag, so that \<open>cmovl\<close> moves when the sign bit of the result is set.\<close>

definition mp1_ioctl_sync :: "u32 \<Rightarrow> blink_state \<Rightarrow> (int \<times> blink_state \<times> poke list) option" where
  "mp1_ioctl_sync arg b =
     do { r \<leftarrow> mp1_find_helper (ucast (drop_bit 16 arg)) b;
          case r of None \<Rightarrow> Some (-1, b, [])
          | Some si \<Rightarrow> do {
              r \<leftarrow> mp1_find_helper (ucast (arg AND 0xFFFF)) b;
              case r of None \<Rightarrow> Some (-1, b, [])
              | Some di \<Rightarrow>
                  let x = blink_array b si;
                      b = set_blink di (\<lambda>y. y\<lparr>on_length := on_length x, off_length := off_length x, countdown := countdown x,
                            bl_status := bl_status x\<rparr>) b;
                      y = blink_array b di;
                      c = (if bit (ucast (bl_status y) AND 1 :: u8) 7 then on_char y else off_char y)
                  in Some (0, b, [(bl_location y, c)]) } }"

text \<open>\<open>mp1_ioctl_find\<close> reads the location from the caller's structure and fills it.\<close>

definition mp1_ioctl_find :: "blink \<Rightarrow> blink_state \<Rightarrow> (int \<times> blink) option" where
  "mp1_ioctl_find u b =
     do { r \<leftarrow> mp1_find_helper (bl_location u) b;
          case r of None \<Rightarrow> Some (-1, u) | Some i \<Rightarrow> Some (0, blink_array b i) }"

text \<open>\<open>decw\<close> and the signed comparison \<open>jg\<close> with 0.\<close>

definition blink_tick :: "blink \<Rightarrow> blink \<times> poke list" where
  "blink_tick x =
     (let x = x\<lparr>countdown := countdown x - 1\<rparr>
      in if sint (countdown x) > 0 then (x, [])
         else if bl_status x AND 1 \<noteq> 0
         then (x\<lparr>countdown := off_length x, bl_status := bl_status x XOR 1\<rparr>, [(bl_location x, off_char x)])
         else (x\<lparr>countdown := on_length x, bl_status := bl_status x XOR 1\<rparr>, [(bl_location x, on_char x)]))"

partial_function (option) tasklet_loop :: "nat option \<Rightarrow> blink_state \<Rightarrow> (blink_state \<times> poke list) option" where
  "tasklet_loop p b =
     (case p of None \<Rightarrow> Some (b, [])
      | Some i \<Rightarrow>
          let (x, ps) = blink_tick (blink_array b i);
              b = set_blink i (\<lambda>_. x) b
          in do { (b, qs) \<leftarrow> tasklet_loop (next_ptr (blink_array b i)) b; Some (b, ps @ qs) })"

definition mp1_rtc_tasklet :: "blink_state \<Rightarrow> (blink_state \<times> poke list) option" where
  "mp1_rtc_tasklet b = tasklet_loop (mp1_list_head b) b"

text \<open>The memory routines of \<open>fish.c\<close>.\<close>

definition ece391_memset :: "memory \<Rightarrow> u32 \<Rightarrow> u8 \<Rightarrow> nat \<Rightarrow> memory" where
  "ece391_memset m a c n = fold (\<lambda>i m. m(a + of_nat i := c)) [0..<n] m"

definition ece391_memcpy :: "memory \<Rightarrow> u32 \<Rightarrow> u32 \<Rightarrow> nat \<Rightarrow> int \<times> memory" where
  "ece391_memcpy m d s n = (0, fold (\<lambda>i m. m(d + of_nat i := m (s + of_nat i))) [0..<n] m)"

text \<open>They do what the kernel's do, the copy for blocks that are apart.\<close>

lemma fish_memset_fills: "n \<le> 4294967296 \<Longrightarrow> ece391_memset m a c n = fill_spec m a c n"
proof (induction n)
  case (Suc n)
  then have "ece391_memset m a c (Suc n) = (fill_spec m a c n)(a + of_nat n := c)" by (simp add: ece391_memset_def)
  then show ?case using Suc.prems by (auto simp: fill_spec_def region_Suc fun_eq_iff)
qed (simp add: ece391_memset_def fill_spec_def)

lemma memcpy_copies: "n \<le> 4294967296 \<Longrightarrow> region d n \<inter> region s n = {} \<Longrightarrow> ece391_memcpy m d s n = (0, copy_spec m d s n)"
proof (induction n)
  case (Suc n)
  have r: "region d (Suc n) = insert (d + of_nat n) (region d n)" "region s (Suc n) = insert (s + of_nat n) (region s n)"
    using Suc.prems(1) by (simp_all add: region_Suc)
  have "snd (ece391_memcpy m d s n) = copy_spec m d s n" using Suc r by auto
  then have "snd (ece391_memcpy m d s (Suc n)) = (copy_spec m d s n)(d + of_nat n := copy_spec m d s n (s + of_nat n))"
    by (simp add: ece391_memcpy_def)
  moreover have "s + of_nat n \<notin> region d n" using Suc.prems(2) r by auto
  ultimately have "snd (ece391_memcpy m d s (Suc n)) = copy_spec m d s (Suc n)"
    by (auto simp: copy_spec_def r(1) fun_eq_iff)
  then show ?case by (simp add: ece391_memcpy_def)
qed (simp add: ece391_memcpy_def copy_spec_def)

section \<open>The list\<close>

text \<open>The elements from a pointer on, and a state that holds a list: all other elements are free, the locations on the screen.\<close>

primrec chain :: "blink_state \<Rightarrow> nat option \<Rightarrow> nat list \<Rightarrow> bool" where
  "chain b p [] \<longleftrightarrow> p = None"
| "chain b p (i # is) \<longleftrightarrow> p = Some i \<and> chain b (next_ptr (blink_array b i)) is"

definition holds :: "blink_state \<Rightarrow> nat list \<Rightarrow> bool" where
  "holds b is \<longleftrightarrow> chain b (mp1_list_head b) is \<and> distinct is \<and> set is \<subseteq> {0..<2000}
     \<and> (\<forall>i<2000. bl_location (blink_array b i) = 0 \<longleftrightarrow> i \<notin> set is) \<and> (\<forall>i<2000. bl_location (blink_array b i) < 2000)"

text \<open>The blinkers of the list, without their pointers.\<close>

definition blinkers :: "blink_state \<Rightarrow> nat list \<Rightarrow> blink list" where
  "blinkers b is = map (\<lambda>i. (blink_array b i)\<lparr>next_ptr := None\<rparr>) is"

lemma set_blink_simps [simp]:
  "mp1_list_head (set_blink i f b) = mp1_list_head b"
  "blink_array (set_blink i f b) j = (if j = i then f (blink_array b i) else blink_array b j)"
  by (simp_all add: set_blink_def)

lemma chain_cong: "(\<And>i. i \<in> set is \<Longrightarrow> next_ptr (blink_array b' i) = next_ptr (blink_array b i)) \<Longrightarrow> chain b' p is = chain b p is"
  by (induction "is" arbitrary: p) auto

lemma chain_functional: "chain b p is \<Longrightarrow> chain b p js \<Longrightarrow> is = js"
proof (induction "is" arbitrary: p js)
  case Nil
  then show ?case by (cases js) auto
next
  case (Cons i "is")
  then show ?case by (cases js) auto
qed

text \<open>Searching a list always ends, with its first element at the location.\<close>

lemma find_loop_chain: "chain b p is \<Longrightarrow> find_loop b loc p = Some (find (\<lambda>i. bl_location (blink_array b i) = loc) is)"
proof (induction "is" arbitrary: p)
  case Nil
  then show ?case by (simp add: find_loop.simps [of b loc None])
next
  case (Cons i "is")
  then show ?case by (simp add: find_loop.simps [of b loc "Some i"])
qed

lemma find_helper_holds: "holds b is \<Longrightarrow> mp1_find_helper loc b = Some (find (\<lambda>i. bl_location (blink_array b i) = loc) is)"
  by (simp add: mp1_find_helper_def holds_def find_loop_chain)

lemma ioctl_find_holds:
  "holds b is \<Longrightarrow> mp1_ioctl_find u b = Some (case find (\<lambda>i. bl_location (blink_array b i) = bl_location u) is of
     None \<Rightarrow> (-1, u) | Some i \<Rightarrow> (0, blink_array b i))"
  by (simp add: mp1_ioctl_find_def find_helper_holds split: option.splits)

lemma malloc_holds:
  assumes "holds b is"
  shows "mp1_malloc b = None \<longleftrightarrow> length is = 2000"
    and "mp1_malloc b = Some i \<Longrightarrow> i < 2000 \<and> i \<notin> set is"
proof -
  have "mp1_malloc b = None \<longleftrightarrow> set is = {0..<2000}"
    using assms by (auto simp: mp1_malloc_def holds_def find_None_iff simp del: upt_rec_numeral)
  moreover have "set is = {0..<2000} \<longleftrightarrow> length is = 2000"
  proof -
    have "card (set is) = length is" "set is \<subseteq> {0..<2000}" using assms by (simp_all add: holds_def distinct_card)
    then show ?thesis using card_subset_eq [of "{0..<2000}" "set is"] by auto
  qed
  ultimately show "mp1_malloc b = None \<longleftrightarrow> length is = 2000" by simp
  show "i < 2000 \<and> i \<notin> set is" if "mp1_malloc b = Some i"
    using assms that by (auto simp: mp1_malloc_def holds_def find_Some_iff simp del: upt_rec_numeral)
qed

section \<open>The specification: operations on a list of blinkers\<close>

datatype blink_op = Op_add blink | Op_remove u32 | Op_sync u32 | Op_tick

definition run_op :: "blink_op \<Rightarrow> blink_state \<Rightarrow> (int \<times> blink_state \<times> poke list) option" where
  "run_op op b = (case op of
     Op_add u \<Rightarrow> Some (mp1_ioctl_add u b)
   | Op_remove arg \<Rightarrow> mp1_ioctl_remove arg b
   | Op_sync arg \<Rightarrow> mp1_ioctl_sync arg b
   | Op_tick \<Rightarrow> map_option (Pair 0) (mp1_rtc_tasklet b))"

primrec del_first :: "('a \<Rightarrow> bool) \<Rightarrow> 'a list \<Rightarrow> 'a list" where
  "del_first P [] = []"
| "del_first P (x # xs) = (if P x then xs else x # del_first P xs)"

primrec upd_first :: "('a \<Rightarrow> bool) \<Rightarrow> ('a \<Rightarrow> 'a) \<Rightarrow> 'a list \<Rightarrow> 'a list" where
  "upd_first P f [] = []"
| "upd_first P f (x # xs) = (if P x then f x # xs else x # upd_first P f xs)"

definition sync_with :: "blink \<Rightarrow> blink \<Rightarrow> blink" where
  "sync_with x y = y\<lparr>on_length := on_length x, off_length := off_length x, countdown := countdown x, bl_status := bl_status x\<rparr>"

abbreviation at_loc :: "u16 \<Rightarrow> blink \<Rightarrow> bool" where
  "at_loc l x \<equiv> bl_location x = l"

definition spec_op :: "blink_op \<Rightarrow> blink list \<Rightarrow> int \<times> blink list \<times> poke list" where
  "spec_op op xs = (case op of
     Op_add u \<Rightarrow>
       if 2000 \<le> bl_location u \<or> length xs = 2000 then (-1, xs, [])
       else (0, u\<lparr>bl_status := 1, countdown := on_length u, next_ptr := None\<rparr> # xs, [(bl_location u, on_char u)])
   | Op_remove arg \<Rightarrow>
       if find (at_loc (ucast arg)) xs = None then (-1, xs, []) else (0, del_first (at_loc (ucast arg)) xs, [])
   | Op_sync arg \<Rightarrow>
       (case (find (at_loc (ucast (drop_bit 16 arg))) xs, find (at_loc (ucast (arg AND 0xFFFF))) xs) of
          (Some x, Some y) \<Rightarrow> (0, upd_first (at_loc (ucast (arg AND 0xFFFF))) (sync_with x) xs, [(bl_location y, off_char y)])
        | _ \<Rightarrow> (-1, xs, []))
   | Op_tick \<Rightarrow> (0, map (fst \<circ> blink_tick) xs, concat (map (snd \<circ> blink_tick) xs)))"

lemma find_blinkers:
  "find (at_loc l) (blinkers b is) = map_option (\<lambda>i. (blink_array b i)\<lparr>next_ptr := None\<rparr>) (find (\<lambda>i. bl_location (blink_array b i) = l) is)"
  by (induction "is") (simp_all add: blinkers_def)

lemma blinkers_cong: "(\<And>i. i \<in> set is \<Longrightarrow> (blink_array b' i)\<lparr>next_ptr := None\<rparr> = (blink_array b i)\<lparr>next_ptr := None\<rparr>) \<Longrightarrow> blinkers b' is = blinkers b is"
  by (simp add: blinkers_def)

text \<open>Adding.\<close>

lemma add_refines:
  assumes "holds b is" "bl_location u \<noteq> 0"
  shows "\<exists>r b' ps js. mp1_ioctl_add u b = (r, b', ps) \<and> holds b' js \<and> spec_op (Op_add u) (blinkers b is) = (r, blinkers b' js, ps)"
proof (cases "2000 \<le> bl_location u \<or> mp1_malloc b = None")
  case True
  then show ?thesis
    using assms(1) malloc_holds(1) [OF assms(1)] by (auto simp: mp1_ioctl_add_def spec_op_def Let_def blinkers_def)
next
  case False
  then obtain i where i: "mp1_malloc b = Some i" by auto
  have fresh: "i < 2000" "i \<notin> set is" using malloc_holds(2) [OF assms(1) i] by simp_all
  let ?t = "u\<lparr>bl_status := 1, countdown := on_length u, next_ptr := mp1_list_head b\<rparr>"
  let ?b = "(set_blink i (\<lambda>_. ?t) b)\<lparr>mp1_list_head := Some i\<rparr>"
  have a: "mp1_ioctl_add u b = (0, ?b, [(bl_location u, on_char u)])"
    using False i by (simp add: mp1_ioctl_add_def Let_def set_blink_def)
  have arr: "blink_array ?b j = (if j = i then ?t else blink_array b j)" for j by (simp add: set_blink_def)
  have "chain ?b (mp1_list_head b) is = chain b (mp1_list_head b) is" using fresh by (intro chain_cong) (auto simp: arr)
  then have "holds ?b (i # is)" using assms fresh False by (auto simp: holds_def arr not_le)
  moreover have "blinkers ?b is = blinkers b is" using fresh by (intro blinkers_cong) (auto simp: arr)
  then have "spec_op (Op_add u) (blinkers b is) = (0, blinkers ?b (i # is), [(bl_location u, on_char u)])"
    using False malloc_holds(1) [OF assms(1)] by (auto simp: spec_op_def blinkers_def arr)
  ultimately show ?thesis using a by blast
qed

text \<open>Removing.\<close>

lemma find_prev_chain:
  "chain b (deref_cell b c) (xs @ i # ys) \<Longrightarrow> i \<notin> set xs \<Longrightarrow> remove_find_prev b i c = Some (if xs = [] then c else Next (last xs))"
proof (induction xs arbitrary: c)
  case Nil
  then show ?case by (simp add: remove_find_prev.simps [of b i c])
next
  case (Cons x xs)
  then show ?case by (simp add: remove_find_prev.simps [of b i c])
qed

lemma chain_unlink:
  assumes "\<And>j. next_ptr (blink_array b' j) = (if j = last xs then next_ptr (blink_array b i) else if j = i then None else next_ptr (blink_array b j))"
  shows "chain b p (xs @ i # ys) \<Longrightarrow> distinct (xs @ i # ys) \<Longrightarrow> xs \<noteq> [] \<Longrightarrow> chain b' p (xs @ ys)"
  using assms
proof (induction xs arbitrary: p)
  case (Cons x xs)
  show ?case
  proof (cases "xs = []")
    case True
    then have "chain b (next_ptr (blink_array b i)) ys" "i \<notin> set ys" "x \<notin> set ys" "x \<noteq> i" "p = Some x" using Cons.prems by auto
    moreover have "chain b' (next_ptr (blink_array b i)) ys = chain b (next_ptr (blink_array b i)) ys"
      by (rule chain_cong) (use Cons.prems(2,4) True in auto)
    ultimately show ?thesis using Cons.prems(4) True by simp
  next
    case False
    then have "x \<noteq> last xs" "x \<noteq> i" using Cons.prems(2) by auto
    then show ?thesis using Cons False by auto
  qed
qed simp

lemma find_split:
  "find P is = Some i \<Longrightarrow> \<exists>xs ys. is = xs @ i # ys \<and> P i \<and> (\<forall>x\<in>set xs. \<not> P x)"
proof (induction "is")
  case (Cons x "is")
  show ?case
  proof (cases "P x")
    case True
    then show ?thesis using Cons.prems by (intro exI [of _ "[]"] exI [of _ "is"]) simp
  next
    case False
    then obtain xs ys where "is = xs @ i # ys" "P i" "\<forall>x\<in>set xs. \<not> P x" using Cons by auto
    then show ?thesis using False by (intro exI [of _ "x # xs"] exI [of _ ys]) simp
  qed
qed simp

lemma del_first_split: "\<forall>x\<in>set xs. \<not> P x \<Longrightarrow> P i \<Longrightarrow> del_first P (xs @ i # ys) = xs @ ys"
  by (induction xs) auto

lemma upd_first_split: "\<forall>x\<in>set xs. \<not> P x \<Longrightarrow> P i \<Longrightarrow> upd_first P f (xs @ i # ys) = xs @ f i # ys"
  by (induction xs) auto

lemma remove_refines:
  assumes "holds b is"
  shows "\<exists>r b' ps js. mp1_ioctl_remove arg b = Some (r, b', ps) \<and> holds b' js \<and> spec_op (Op_remove arg) (blinkers b is) = (r, blinkers b' js, ps)"
proof (cases "find (\<lambda>i. bl_location (blink_array b i) = ucast arg) is")
  case None
  then show ?thesis using assms find_helper_holds [OF assms] by (auto simp: mp1_ioctl_remove_def spec_op_def find_blinkers)
next
  case (Some i)
  obtain xs ys where xs: "is = xs @ i # ys" "bl_location (blink_array b i) = ucast arg" "\<forall>x\<in>set xs. bl_location (blink_array b x) \<noteq> ucast arg"
    using find_split [OF Some] by blast
  let ?c = "if xs = [] then Head else Next (last xs)"
  let ?b = "mp1_free i (set_cell_ptr ?c (next_ptr (blink_array b i)) b)"
  have ch: "chain b (mp1_list_head b) (xs @ i # ys)" and d: "distinct (xs @ i # ys)" using assms by (simp_all add: holds_def xs(1))
  have "remove_find_prev b i Head = Some ?c" using find_prev_chain [of b Head xs i ys] ch d by simp
  then have r: "mp1_ioctl_remove arg b = Some (0, ?b, [])"
    using find_helper_holds [OF assms] Some by (simp add: mp1_ioctl_remove_def)
  have nx: "next_ptr (blink_array ?b j) = (if xs \<noteq> [] \<and> j = last xs then next_ptr (blink_array b i) else if j = i then None else next_ptr (blink_array b j))" for j
    using d by (auto simp: mp1_free_def zero_blink_def)
  have same: "(blink_array ?b j)\<lparr>next_ptr := None\<rparr> = (blink_array b j)\<lparr>next_ptr := None\<rparr>" if "j \<noteq> i" for j
    using that by (auto simp: mp1_free_def)
  have "chain ?b (mp1_list_head ?b) (xs @ ys)"
  proof (cases "xs = []")
    case True
    then have "chain b (next_ptr (blink_array b i)) ys" "i \<notin> set ys" using ch d by simp_all
    moreover have "chain ?b (next_ptr (blink_array b i)) ys = chain b (next_ptr (blink_array b i)) ys"
      by (rule chain_cong) (use nx True \<open>i \<notin> set ys\<close> in auto)
    moreover have "mp1_list_head ?b = next_ptr (blink_array b i)" using True by (simp add: mp1_free_def)
    ultimately show ?thesis using True by (simp only: append_Nil)
  next
    case False
    then show ?thesis using chain_unlink [OF _ ch d False, of ?b] nx by (simp add: mp1_free_def)
  qed
  moreover have "bl_location (blink_array ?b j) = (if j = i then 0 else bl_location (blink_array b j))" for j by (simp add: mp1_free_def zero_blink_def)
  ultimately have "holds ?b (xs @ ys)" using assms d by (auto simp: holds_def xs(1))
  moreover have "blinkers ?b (xs @ ys) = blinkers b (xs @ ys)" by (rule blinkers_cong, rule same) (use d in auto)
  moreover have "del_first (at_loc (ucast arg)) (blinkers b is) = blinkers b (xs @ ys)"
    unfolding xs(1) blinkers_def map_append list.map using xs(2,3) by (intro del_first_split) auto
  ultimately show ?thesis using r Some by (auto simp: spec_op_def find_blinkers)
qed

text \<open>The tick.\<close>

lemma blink_tick_next: "blink_tick (x\<lparr>next_ptr := p\<rparr>) = ((fst (blink_tick x))\<lparr>next_ptr := p\<rparr>, snd (blink_tick x))"
  by (simp add: blink_tick_def Let_def)

lemma blink_tick_keeps: "bl_location (fst (blink_tick x)) = bl_location x" "next_ptr (fst (blink_tick x)) = next_ptr x"
  by (simp_all add: blink_tick_def Let_def)

lemma tasklet_loop_chain:
  "chain b p is \<Longrightarrow> distinct is \<Longrightarrow>
     \<exists>b'. tasklet_loop p b = Some (b', concat (map (\<lambda>i. snd (blink_tick (blink_array b i))) is))
       \<and> mp1_list_head b' = mp1_list_head b \<and> (\<forall>i. blink_array b' i = (if i \<in> set is then fst (blink_tick (blink_array b i)) else blink_array b i))"
proof (induction "is" arbitrary: p b)
  case Nil
  then show ?case by (simp add: tasklet_loop.simps [of None])
next
  case (Cons i "is")
  let ?b = "set_blink i (\<lambda>_. fst (blink_tick (blink_array b i))) b"
  have "chain ?b (next_ptr (blink_array b i)) is = chain b (next_ptr (blink_array b i)) is" by (rule chain_cong) (simp add: blink_tick_keeps)
  then obtain b' where b': "tasklet_loop (next_ptr (blink_array b i)) ?b = Some (b', concat (map (\<lambda>j. snd (blink_tick (blink_array ?b j))) is))"
      "mp1_list_head b' = mp1_list_head b" "\<forall>j. blink_array b' j = (if j \<in> set is then fst (blink_tick (blink_array ?b j)) else blink_array ?b j)"
    using Cons.IH [of ?b "next_ptr (blink_array b i)"] Cons.prems by auto
  have "map (\<lambda>j. snd (blink_tick (blink_array ?b j))) is = map (\<lambda>j. snd (blink_tick (blink_array b j))) is" using Cons.prems(2) by auto
  with b'(1) have e: "tasklet_loop (next_ptr (blink_array b i)) ?b = Some (b', concat (map (\<lambda>j. snd (blink_tick (blink_array b j))) is))"
    by (simp only:)
  have "p = Some i" using Cons.prems(1) by simp
  then have "tasklet_loop p b = Some (b', concat (map (\<lambda>j. snd (blink_tick (blink_array b j))) (i # is)))"
    by (simp add: tasklet_loop.simps [of "Some i" b] Let_def case_prod_beta blink_tick_keeps e)
  moreover have "\<forall>j. blink_array b' j = (if j \<in> set (i # is) then fst (blink_tick (blink_array b j)) else blink_array b j)"
    using b'(3) Cons.prems(2) by auto
  ultimately show ?case using b'(2) by blast
qed

lemma tick_refines:
  assumes "holds b is"
  shows "\<exists>b' ps. mp1_rtc_tasklet b = Some (b', ps) \<and> holds b' is \<and> spec_op Op_tick (blinkers b is) = (0, blinkers b' is, ps)"
proof -
  have ch: "chain b (mp1_list_head b) is" "distinct is" using assms by (simp_all add: holds_def)
  obtain b' where b': "mp1_rtc_tasklet b = Some (b', concat (map (\<lambda>i. snd (blink_tick (blink_array b i))) is))"
      "mp1_list_head b' = mp1_list_head b" "\<forall>i. blink_array b' i = (if i \<in> set is then fst (blink_tick (blink_array b i)) else blink_array b i)"
    using tasklet_loop_chain [OF ch] by (auto simp: mp1_rtc_tasklet_def)
  have "chain b' (mp1_list_head b) is = chain b (mp1_list_head b) is" by (rule chain_cong) (simp add: b'(3) blink_tick_keeps)
  then have "holds b' is" using assms by (simp add: holds_def b'(2,3) blink_tick_keeps)
  moreover have "blinkers b' is = map (fst \<circ> blink_tick) (blinkers b is)"
    by (simp add: blinkers_def b'(3) blink_tick_next)
  moreover have "concat (map (snd \<circ> blink_tick) (blinkers b is)) = concat (map (\<lambda>i. snd (blink_tick (blink_array b i))) is)"
    by (simp add: blinkers_def blink_tick_next comp_def)
  ultimately show ?thesis using b'(1) by (simp add: spec_op_def)
qed

text \<open>Synchronising. The conditional move never moves.\<close>

lemma sync_char: "\<not> bit (v AND 1 :: u8) 7"
  by (simp add: bit_and_iff bit_1_iff)

lemma sync_refines:
  assumes "holds b is"
  shows "\<exists>r b' ps. mp1_ioctl_sync arg b = Some (r, b', ps) \<and> holds b' is \<and> spec_op (Op_sync arg) (blinkers b is) = (r, blinkers b' is, ps)"
proof -
  let ?s = "ucast (drop_bit 16 arg) :: u16" and ?d = "ucast (arg AND 0xFFFF) :: u16"
  let ?f = "\<lambda>l. find (\<lambda>i. bl_location (blink_array b i) = l) is"
  note find = find_helper_holds [OF assms]
  show ?thesis
  proof (cases "?f ?s = None \<or> ?f ?d = None")
    case True
    then show ?thesis using assms by (auto simp: mp1_ioctl_sync_def spec_op_def find find_blinkers split: option.splits)
  next
    case False
    then obtain si di where f: "?f ?s = Some si" "?f ?d = Some di" by auto
    obtain xs ys where xs: "is = xs @ di # ys" "bl_location (blink_array b di) = ?d" "\<forall>x\<in>set xs. bl_location (blink_array b x) \<noteq> ?d"
      using find_split [OF f(2)] by blast
    let ?b = "set_blink di (sync_with (blink_array b si)) b"
    have r: "mp1_ioctl_sync arg b = Some (0, ?b, [(?d, off_char (blink_array b di))])"
      using xs(2) by (simp add: mp1_ioctl_sync_def find f Let_def sync_char) (simp add: sync_with_def [abs_def])
    have "chain ?b (mp1_list_head b) is = chain b (mp1_list_head b) is" by (rule chain_cong) (simp add: sync_with_def)
    then have h: "holds ?b is" using assms by (simp add: holds_def sync_with_def)
    have d: "di \<notin> set xs" "di \<notin> set ys" using assms by (auto simp: holds_def xs(1))
    have e: "blinkers ?b xs = blinkers b xs" "blinkers ?b ys = blinkers b ys" using d by (auto intro!: blinkers_cong)
    have "upd_first (at_loc ?d) (sync_with ((blink_array b si)\<lparr>next_ptr := None\<rparr>)) (blinkers b is) = blinkers ?b is"
    proof -
      have "upd_first (at_loc ?d) (sync_with ((blink_array b si)\<lparr>next_ptr := None\<rparr>)) (blinkers b xs @ (blink_array b di)\<lparr>next_ptr := None\<rparr> # blinkers b ys)
          = blinkers b xs @ sync_with ((blink_array b si)\<lparr>next_ptr := None\<rparr>) ((blink_array b di)\<lparr>next_ptr := None\<rparr>) # blinkers b ys"
        using xs(2,3) by (intro upd_first_split) (auto simp: blinkers_def)
      moreover have "sync_with ((blink_array b si)\<lparr>next_ptr := None\<rparr>) ((blink_array b di)\<lparr>next_ptr := None\<rparr>) = (sync_with (blink_array b si) (blink_array b di))\<lparr>next_ptr := None\<rparr>"
        by (simp add: sync_with_def)
      ultimately show ?thesis using e by (simp add: xs(1) blinkers_def)
    qed
    then have "spec_op (Op_sync arg) (blinkers b is) = (0, blinkers ?b is, [(?d, off_char (blink_array b di))])"
      using xs(2) by (simp add: spec_op_def find_blinkers f)
    then show ?thesis using r h by blast
  qed
qed

section \<open>Properties\<close>

primrec run_ops :: "blink_op list \<Rightarrow> blink_state \<Rightarrow> ((int \<times> poke list) list \<times> blink_state) option" where
  "run_ops [] b = Some ([], b)"
| "run_ops (op # ops) b = do { (r, b, ps) \<leftarrow> run_op op b; (rs, b) \<leftarrow> run_ops ops b; Some ((r, ps) # rs, b) }"

primrec spec_ops :: "blink_op list \<Rightarrow> blink list \<Rightarrow> (int \<times> poke list) list \<times> blink list" where
  "spec_ops [] xs = ([], xs)"
| "spec_ops (op # ops) xs = (let (r, xs, ps) = spec_op op xs; (rs, xs) = spec_ops ops xs in ((r, ps) # rs, xs))"

definition op_ok :: "blink_op \<Rightarrow> bool" where
  "op_ok op \<longleftrightarrow> (case op of Op_add u \<Rightarrow> bl_location u \<noteq> 0 | _ \<Rightarrow> True)"

lemma op_refines:
  assumes "holds b is" "op_ok op"
  shows "\<exists>r b' ps js. run_op op b = Some (r, b', ps) \<and> holds b' js \<and> spec_op op (blinkers b is) = (r, blinkers b' js, ps)"
proof (cases op)
  case (Op_add u)
  then show ?thesis using add_refines [OF assms(1), of u] assms(2) by (auto simp: run_op_def op_ok_def)
next
  case (Op_remove arg)
  then show ?thesis using remove_refines [OF assms(1), of arg] by (simp add: run_op_def)
next
  case (Op_sync arg)
  then show ?thesis using sync_refines [OF assms(1), of arg] by (auto simp: run_op_def)
next
  case Op_tick
  then show ?thesis using tick_refines [OF assms(1)] by (auto simp: run_op_def)
qed

lemma pokes_on_screen:
  assumes "holds b is" "spec_op op (blinkers b is) = (r, xs, ps)"
  shows "\<forall>p\<in>set ps. fst p < 2000"
proof -
  have "set is \<subseteq> {0..<2000}" using assms(1) by (simp add: holds_def)
  then have l: "\<forall>x\<in>set (blinkers b is). bl_location x < 2000" using assms(1) by (auto simp: holds_def blinkers_def)
  have t: "\<forall>p\<in>set (snd (blink_tick x)). fst p = bl_location x" for x by (simp add: blink_tick_def Let_def)
  have f: "bl_location y < 2000" if "find P (blinkers b is) = Some y" for P y
    using l that by (auto simp: find_Some_iff)
  show ?thesis
  proof (cases op)
    case (Op_sync arg)
    then show ?thesis using assms(2) f by (auto simp: spec_op_def split: option.splits)
  next
    case Op_tick
    then show ?thesis using assms(2) l t by (fastforce simp: spec_op_def)
  qed (use assms(2) in \<open>auto simp: spec_op_def not_le split: if_splits\<close>)
qed

text \<open>
  C24: the blinkers of \<open>fish\<close>, linked through an array, refine a list. From a state that holds a list,
  every sequence of operations (adding a blinker at a location other than 0, removing,
  synchronising, a tick of the clock) ends, without an access through NULL, with the results and
  the characters on the screen that the operations on the list give, and again holds the list.
\<close>

theorem blinkers_refine_list:
  assumes "holds b is" and "\<forall>op\<in>set ops. op_ok op"
  shows "\<exists>rs b' js. run_ops ops b = Some (rs, b') \<and> holds b' js \<and> spec_ops ops (blinkers b is) = (rs, blinkers b' js)"
  using assms
proof (induction ops arbitrary: b "is")
  case (Cons op ops)
  obtain r b1 ps js where a: "run_op op b = Some (r, b1, ps)" "holds b1 js" "spec_op op (blinkers b is) = (r, blinkers b1 js, ps)"
    using op_refines [OF Cons.prems(1), of op] Cons.prems(2) by auto
  obtain rs b' ks where "run_ops ops b1 = Some (rs, b')" "holds b' ks" "spec_ops ops (blinkers b1 js) = (rs, blinkers b' ks)"
    using Cons.IH [OF a(2)] Cons.prems(2) by auto
  then show ?case using a by (intro exI [of _ "(r, ps) # rs"] exI [of _ b'] exI [of _ ks]) simp
qed auto

text \<open>The array as \<open>main\<close> clears it.\<close>

definition no_blinkers :: blink_state where
  "no_blinkers = \<lparr>blink_array = \<lambda>_. zero_blink, mp1_list_head = None\<rparr>"

lemma no_blinkers_holds: "holds no_blinkers []" "blinkers no_blinkers [] = []"
  by (simp_all add: holds_def no_blinkers_def zero_blink_def blinkers_def)

definition blink_at :: "u16 \<Rightarrow> u8 \<Rightarrow> u8 \<Rightarrow> u16 \<Rightarrow> u16 \<Rightarrow> blink" where
  "blink_at l on off n k = zero_blink\<lparr>bl_location := l, on_char := on, off_char := off, on_length := n, off_length := k\<rparr>"

theorem blinkers_refine_list_witness:
  "\<exists>b'. run_ops [Op_add (blink_at 540 73 77 1 6), Op_tick, Op_remove 540, Op_remove 540] no_blinkers
     = Some ([(0, [(540, 73)]), (0, [(540, 77)]), (0, []), (-1, [])], b')"
proof -
  have "spec_ops [Op_add (blink_at 540 73 77 1 6), Op_tick, Op_remove 540, Op_remove 540] [] = ([(0, [(540, 73)]), (0, [(540, 77)]), (0, []), (-1, [])], [])"
    by code_simp
  then show ?thesis
    using blinkers_refine_list [OF no_blinkers_holds(1), of "[Op_add (blink_at 540 73 77 1 6), Op_tick, Op_remove 540, Op_remove 540]"]
    by (auto simp: no_blinkers_holds(2) op_ok_def blink_at_def)
qed

lemma tasklet_cycle:
  assumes "next_ptr (blink_array b i) = Some i"
  shows "tasklet_loop (Some i) b = None"
proof -
  let ?P = "\<lambda>p b (y :: blink_state \<times> poke list). p = Some i \<longrightarrow> next_ptr (blink_array b i) \<noteq> Some i"
  have "?P p b y" if "tasklet_loop p b = Some y" for p b y
  proof (rule tasklet_loop.raw_induct [where P = ?P, OF _ that], intro impI notI)
    fix loop p b y
    let ?b = "set_blink i (\<lambda>_. fst (blink_tick (blink_array b i))) b"
    assume IH: "\<And>p b y. loop p b = Some y \<Longrightarrow> p = Some i \<longrightarrow> next_ptr (blink_array b i) \<noteq> Some i"
      and run: "(case p of None \<Rightarrow> Some (b, []) | Some i \<Rightarrow> let (x, ps) = blink_tick (blink_array b i); b = set_blink i (\<lambda>_. x) b
          in do { (b, qs) \<leftarrow> loop (next_ptr (blink_array b i)) b; Some (b, ps @ qs) }) = Some y"
      and p: "p = Some i" "next_ptr (blink_array b i) = Some i"
    have nx: "next_ptr (blink_array ?b i) = Some i" using p(2) by (simp add: blink_tick_keeps)
    obtain z where "loop (Some i) ?b = Some z"
      using run p by (auto simp: Let_def case_prod_beta bind_eq_Some_conv blink_tick_keeps)
    then show False using IH nx by blast
  qed
  then show ?thesis using assms by (cases "tasklet_loop (Some i) b") auto
qed

text \<open>
  C25: a blinker at location 0 breaks the list. It is accepted, but its element counts as free, so that
  the next one that is added gets the same element: the element is then its own successor, and
  the next tick of the clock never ends.
\<close>

theorem blinker_at_zero_breaks_list:
  assumes "holds b is" and "length is < 2000" and "bl_location u = 0" and "bl_location v < 2000"
  shows "\<exists>ps b1 qs b2. mp1_ioctl_add u b = (0, b1, ps) \<and> mp1_ioctl_add v b1 = (0, b2, qs) \<and> mp1_rtc_tasklet b2 = None"
proof -
  obtain i where i: "mp1_malloc b = Some i" using malloc_holds(1) [OF assms(1)] assms(2) by (cases "mp1_malloc b") auto
  let ?t = "u\<lparr>bl_status := 1, countdown := on_length u, next_ptr := mp1_list_head b\<rparr>"
  let ?b1 = "(set_blink i (\<lambda>_. ?t) b)\<lparr>mp1_list_head := Some i\<rparr>"
  let ?b2 = "set_blink i (\<lambda>_. v\<lparr>bl_status := 1, countdown := on_length v, next_ptr := Some i\<rparr>) ?b1"
  have a: "mp1_ioctl_add u b = (0, ?b1, [(bl_location u, on_char u)])"
    using i assms(3) by (simp add: mp1_ioctl_add_def Let_def set_blink_def)
  have arr: "blink_array ?b1 j = (if j = i then ?t else blink_array b j)" for j by (simp add: set_blink_def)
  have "find (\<lambda>j. bl_location (blink_array ?b1 j) = 0) [0..<2000] = find (\<lambda>j. bl_location (blink_array b j) = 0) [0..<2000]"
    by (rule find_cong) (use assms(3) i in \<open>auto simp: arr mp1_malloc_def find_Some_iff simp del: upt_rec_numeral\<close>)
  then have "mp1_malloc ?b1 = Some i" using i by (simp add: mp1_malloc_def del: upt_rec_numeral)
  then have "mp1_ioctl_add v ?b1 = (0, ?b2\<lparr>mp1_list_head := Some i\<rparr>, [(bl_location v, on_char v)])"
    using assms(4) by (simp add: mp1_ioctl_add_def Let_def set_blink_def not_le [symmetric])
  moreover have "mp1_rtc_tasklet (?b2\<lparr>mp1_list_head := Some i\<rparr>) = None"
    unfolding mp1_rtc_tasklet_def by (simp, rule tasklet_cycle) (simp add: set_blink_def)
  ultimately show ?thesis using a by blast
qed

theorem blinker_at_zero_breaks_list_witness:
  "\<exists>b1 ps qs b2. mp1_ioctl_add (blink_at 0 65 66 1 1) no_blinkers = (0, b1, ps) \<and> mp1_ioctl_add (blink_at 540 73 77 1 6) b1 = (0, b2, qs)
     \<and> mp1_rtc_tasklet b2 = None"
  using blinker_at_zero_breaks_list [OF no_blinkers_holds(1), of "blink_at 0 65 66 1 1" "blink_at 540 73 77 1 6"] by (auto simp: blink_at_def)

text \<open>The state of a blinker \<open>m\<close> ticks after it was switched on, for lengths \<open>n\<close> and \<open>k\<close>.\<close>

definition phase_of :: "blink \<Rightarrow> nat \<Rightarrow> nat \<Rightarrow> nat \<Rightarrow> blink" where
  "phase_of x n k m = (if m < n then x\<lparr>bl_status := 1, countdown := of_nat (n - m)\<rparr> else x\<lparr>bl_status := 0, countdown := of_nat (n + k - m)\<rparr>)"

lemma small_sint16: "j < 32768 \<Longrightarrow> sint (of_nat j :: u16) = int j"
  by (simp add: signed_of_nat signed_take_bit_int_eq_self)

lemma tick_phase:
  assumes "on_length x = of_nat n" "off_length x = of_nat k" "0 < n" "n < 32768" "0 < k" "k < 32768" "m < n + k"
  shows "blink_tick (phase_of x n k m) = (phase_of x n k (Suc m mod (n + k)),
     if Suc m = n then [(bl_location x, off_char x)] else if Suc m = n + k then [(bl_location x, on_char x)] else [])"
proof -
  have dec: "(of_nat j :: u16) - 1 = of_nat (j - 1)" if "0 < j" for j using that by (simp add: of_nat_diff)
  consider "Suc m < n" | "Suc m = n" | "n \<le> m" "Suc m < n + k" | "Suc m = n + k" using assms(7) by linarith
  then show ?thesis
  proof cases
    case 1
    then show ?thesis using assms small_sint16 [of "n - m - 1"] dec [of "n - m"] by (simp add: phase_of_def blink_tick_def Let_def del: of_nat_diff)
  next
    case 2
    then show ?thesis using assms dec [of "n - m"] by (simp add: phase_of_def blink_tick_def Let_def del: of_nat_diff)
  next
    case 3
    then show ?thesis using assms small_sint16 [of "n + k - m - 1"] dec [of "n + k - m"] by (simp add: phase_of_def blink_tick_def Let_def del: of_nat_diff)
  next
    case 4
    then show ?thesis using assms dec [of "n + k - m"] by (simp add: phase_of_def blink_tick_def Let_def del: of_nat_diff)
  qed
qed

text \<open>
  A blinker blinks. With lengths \<open>n\<close> and \<open>k\<close> between 1 and 32767 it is on for \<open>n\<close> ticks and off for \<open>k\<close>,
  periodically: after \<open>t\<close> ticks its status is 1 just when \<open>t mod (n + k) < n\<close>, and the tick behind
  them stores the off character when the on phase ends, the on character when the period ends, and
  otherwise nothing.
\<close>

theorem blinker_blinks:
  assumes "x = u\<lparr>bl_status := 1, countdown := on_length u\<rparr>" and "on_length u = of_nat n" and "off_length u = of_nat k"
    and "0 < n" and "n < 32768" and "0 < k" and "k < 32768"
    and "y = ((fst \<circ> blink_tick) ^^ t) x"
  shows "bl_status y = (if t mod (n + k) < n then 1 else 0) \<and> snd (blink_tick y)
     = (if Suc t mod (n + k) = n then [(bl_location u, off_char u)] else if Suc t mod (n + k) = 0 then [(bl_location u, on_char u)] else [])"
proof -
  have "((fst \<circ> blink_tick) ^^ t) x = phase_of x n k (t mod (n + k))"
  proof (induction t)
    case 0
    then show ?case using assms(1,2,4) by (simp add: phase_of_def)
  next
    case (Suc t)
    have "t mod (n + k) < n + k" using assms(4) by simp
    then show ?case using Suc tick_phase [of x n k "t mod (n + k)"] assms(1-7) by (simp add: mod_Suc)
  qed
  then have y: "y = phase_of x n k (t mod (n + k))" using assms(8) by simp
  have lt: "t mod (n + k) < n + k" using assms(4) by simp
  have x: "on_length x = of_nat n" "off_length x = of_nat k" "bl_location x = bl_location u" "off_char x = off_char u" "on_char x = on_char u"
    using assms(1-3) by simp_all
  have "snd (blink_tick y) = (if Suc (t mod (n + k)) = n then [(bl_location u, off_char u)] else if Suc (t mod (n + k)) = n + k then [(bl_location u, on_char u)] else [])"
    unfolding y tick_phase [OF x(1,2) assms(4-7) lt] by (simp add: x)
  moreover have "Suc t mod (n + k) = (if Suc (t mod (n + k)) = n + k then 0 else Suc (t mod (n + k)))" by (simp add: mod_Suc)
  moreover have "bl_status y = (if t mod (n + k) < n then 1 else 0)" by (simp add: y phase_of_def)
  ultimately show ?thesis using assms(4,6) by auto
qed

theorem blinker_blinks_witness:
  "bl_status (((fst \<circ> blink_tick) ^^ 20) ((blink_at 540 73 77 7 6)\<lparr>bl_status := 1, countdown := 7\<rparr>)) = 0
   \<and> snd (blink_tick (((fst \<circ> blink_tick) ^^ 20) ((blink_at 540 73 77 7 6)\<lparr>bl_status := 1, countdown := 7\<rparr>))) = []"
  using blinker_blinks [of "(blink_at 540 73 77 7 6)\<lparr>bl_status := 1, countdown := 7\<rparr>" "blink_at 540 73 77 7 6" 7 6, OF _ _ _ _ _ _ _ refl, of 20]
  by (simp add: blink_at_def del: funpow.simps)

end
