(* ===== verification/Fish.thy ===== *)
theory Fish
  imports User_Demo Fish_Blink
begin

text \<open>
  The program \<open>fish\<close> (\<open>fish/fish.c\<close>), which animates two frames of text with blinking characters:
  the whole program over the model of the kernel and the list of blinkers. \<open>vmem_base_addr\<close>, the
  names of the frames (\<open>f0\<close>, \<open>f1\<close>) and the local variables whose address is taken (\<open>a0\<close>, \<open>a1\<close> for
  the characters, \<open>ret_val\<close>, \<open>garbage\<close>) are addresses of the program; \<open>junk\<close> is what an uninitialised
  structure holds.
\<close>

section \<open>The program\<close>

definition mp1_poke :: "'a sys_state_scheme prog_env \<Rightarrow> u32 \<Rightarrow> poke \<Rightarrow> 'a sys_state_scheme \<Rightarrow> 'a sys_state_scheme option" where
  "mp1_poke E vmem_base_addr p s =
     store_byte (env_layout E) (load32 (view (env_layout E) s) vmem_base_addr + 2 * ucast (fst p)) (snd p) s"

primrec mp1_pokes :: "'a sys_state_scheme prog_env \<Rightarrow> u32 \<Rightarrow> poke list \<Rightarrow> 'a sys_state_scheme \<Rightarrow> 'a sys_state_scheme option" where
  "mp1_pokes E vmem_base_addr [] s = Some s"
| "mp1_pokes E vmem_base_addr (p # ps) s = do { s \<leftarrow> mp1_poke E vmem_base_addr p s; mp1_pokes E vmem_base_addr ps s }"

text \<open>An operation on the blinkers with the characters it stores.\<close>

definition with_pokes ::
  "'a sys_state_scheme prog_env \<Rightarrow> u32 \<Rightarrow> blink_op \<Rightarrow> blink_state \<Rightarrow> 'a sys_state_scheme \<Rightarrow> (blink_state \<times> 'a sys_state_scheme) option" where
  "with_pokes E vmem_base_addr op b s =
     do { (r, b, ps) \<leftarrow> run_op op b; s \<leftarrow> mp1_pokes E vmem_base_addr ps s; Some (b, s) }"

definition mp1_set_video_mode :: "'a sys_state_scheme prog_env \<Rightarrow> u32 \<Rightarrow> 'a sys_state_scheme \<Rightarrow> (u32 \<times> 'a sys_state_scheme) option" where
  "mp1_set_video_mode E vmem_base_addr s =
     do { (r, s) \<leftarrow> ece391_vidmap E vmem_base_addr s;
          Some (if r = -1 then 0 else load32 (view (env_layout E) s) vmem_base_addr, s) }"

definition ece391_halt :: "'a sys_state_scheme prog_env \<Rightarrow> int \<Rightarrow> 'a sys_state_scheme \<Rightarrow> (outcome \<times> 'a sys_state_scheme) option" where
  "ece391_halt E status s = int_80 E 1 (of_int status) (env_junk E) (env_junk E) s"

text \<open>The next character of a frame, unless its line has ended; \<open>eof\<close> is set at the end of the file.\<close>

definition frame_char :: "'a sys_state_scheme prog_env \<Rightarrow> int \<Rightarrow> u32 \<Rightarrow> bool \<Rightarrow> 'a sys_state_scheme \<Rightarrow> (bool \<times> 'a sys_state_scheme) option" where
  "frame_char E fd a eof s =
     (if view (env_layout E) s a \<noteq> 10
      then do {
        (num_bytes, s) \<leftarrow> ece391_read E fd a 1 s;
        if num_bytes = 0 then do { s \<leftarrow> store_byte (env_layout E) a 10 s; Some (True, s) } else Some (eof, s) }
      else Some (eof, s))"

definition frame_blink :: "blink \<Rightarrow> int \<Rightarrow> int \<Rightarrow> u8 \<Rightarrow> u8 \<Rightarrow> blink" where
  "frame_blink bs rown coln c0 c1 =
     bs\<lparr>on_char := if c0 = 10 then 32 else c0, off_char := if c1 = 10 then 32 else c1, bl_location := of_int (rown * 80 + coln + 40)\<rparr>"

partial_function (option) frame_row ::
  "'a sys_state_scheme prog_env \<Rightarrow> u32 \<Rightarrow> int \<Rightarrow> int \<Rightarrow> u32 \<Rightarrow> u32 \<Rightarrow> blink \<Rightarrow> int \<Rightarrow> int \<Rightarrow> bool \<Rightarrow> bool \<Rightarrow> blink_state \<Rightarrow> 'a sys_state_scheme
   \<Rightarrow> (bool \<times> bool \<times> blink_state \<times> 'a sys_state_scheme) option" where
  "frame_row E vmem_base_addr fd0 fd1 a0 a1 bs rown coln eof0 eof1 b s =
     do { (eof0, s) \<leftarrow> frame_char E fd0 a0 eof0 s;
          (eof1, s) \<leftarrow> frame_char E fd1 a1 eof1 s;
          let c0 = view (env_layout E) s a0;
          let c1 = view (env_layout E) s a1;
          if c0 = 10 \<and> c1 = 10 then Some (eof0, eof1, b, s)
          else do {
            (b, s) \<leftarrow> (if c0 \<noteq> 32 \<and> c0 \<noteq> 10 \<or> c1 \<noteq> 32 \<and> c1 \<noteq> 10
                      then with_pokes E vmem_base_addr (Op_add (frame_blink bs rown coln c0 c1)) b s else Some (b, s));
            frame_row E vmem_base_addr fd0 fd1 a0 a1 bs rown (coln + 1) eof0 eof1 b s } }"

text \<open>After a row: a frame that has ended is closed (again), the other one goes on with its next line.\<close>

definition frame_end :: "'a sys_state_scheme prog_env \<Rightarrow> int \<Rightarrow> u32 \<Rightarrow> bool \<Rightarrow> 'a sys_state_scheme \<Rightarrow> 'a sys_state_scheme option" where
  "frame_end E fd a eof s =
     (if eof then do { s \<leftarrow> store_byte (env_layout E) a 10 s; (_, s) \<leftarrow> ece391_close E fd s; Some s }
      else store_byte (env_layout E) a 48 s)"

partial_function (option) frame_rows ::
  "'a sys_state_scheme prog_env \<Rightarrow> u32 \<Rightarrow> int \<Rightarrow> int \<Rightarrow> u32 \<Rightarrow> u32 \<Rightarrow> blink \<Rightarrow> int \<Rightarrow> bool \<Rightarrow> bool \<Rightarrow> blink_state \<Rightarrow> 'a sys_state_scheme
   \<Rightarrow> (blink_state \<times> 'a sys_state_scheme) option" where
  "frame_rows E vmem_base_addr fd0 fd1 a0 a1 bs rown eof0 eof1 b s =
     (if \<not> eof0 \<or> \<not> eof1
      then do {
        (eof0, eof1, b, s) \<leftarrow> frame_row E vmem_base_addr fd0 fd1 a0 a1 bs rown 0 eof0 eof1 b s;
        s \<leftarrow> frame_end E fd0 a0 eof0 s;
        s \<leftarrow> frame_end E fd1 a1 eof1 s;
        frame_rows E vmem_base_addr fd0 fd1 a0 a1 bs (rown + 1) eof0 eof1 b s }
      else Some (b, s))"

text \<open>\<open>Inl\<close> is the end of the program by \<open>ece391_halt\<close>.\<close>

definition add_frames ::
  "'a sys_state_scheme prog_env \<Rightarrow> u32 \<Rightarrow> u32 \<Rightarrow> u32 \<Rightarrow> u32 \<Rightarrow> u32 \<Rightarrow> blink \<Rightarrow> blink_state \<Rightarrow> 'a sys_state_scheme
   \<Rightarrow> ((outcome \<times> 'a sys_state_scheme) + (blink_state \<times> 'a sys_state_scheme)) option" where
  "add_frames E vmem_base_addr f0 f1 a0 a1 junk b s =
     do { s \<leftarrow> store_byte (env_layout E) a0 48 s;
          s \<leftarrow> store_byte (env_layout E) a1 48 s;
          (fd0, s) \<leftarrow> ece391_open E f0 s;
          if fd0 < 0 then map_option Inl (ece391_halt E (-1) s)
          else do {
            (fd1, s) \<leftarrow> ece391_open E f1 s;
            if fd1 < 0 then map_option Inl (ece391_halt E (-1) s)
            else map_option Inr (frame_rows E vmem_base_addr fd0 fd1 a0 a1 (junk\<lparr>on_length := 15, off_length := 15\<rparr>) 0 False False b s) } }"

primrec fish_wait ::
  "'a sys_state_scheme prog_env \<Rightarrow> u32 \<Rightarrow> int \<Rightarrow> u32 \<Rightarrow> nat \<Rightarrow> blink_state \<Rightarrow> 'a sys_state_scheme \<Rightarrow> (blink_state \<times> 'a sys_state_scheme) option" where
  "fish_wait E vmem_base_addr rtc_fd garbage 0 b s = Some (b, s)"
| "fish_wait E vmem_base_addr rtc_fd garbage (Suc n) b s =
     do { (_, s) \<leftarrow> ece391_read E rtc_fd garbage 4 s;
          (b, s) \<leftarrow> with_pokes E vmem_base_addr Op_tick b s;
          fish_wait E vmem_base_addr rtc_fd garbage n b s }"

definition letter :: "blink \<Rightarrow> blink" where
  "letter junk = junk\<lparr>on_char := 73, off_char := 77, on_length := 7, off_length := 6, bl_location := 6 * 80 + 60\<rparr>"

text \<open>The second half of \<open>main\<close>: the letter comes, is synchronised with the location 40, and goes.\<close>

definition fish_letter ::
  "'a sys_state_scheme prog_env \<Rightarrow> u32 \<Rightarrow> int \<Rightarrow> u32 \<Rightarrow> blink \<Rightarrow> blink_state \<Rightarrow> 'a sys_state_scheme \<Rightarrow> (blink_state \<times> 'a sys_state_scheme) option" where
  "fish_letter E vmem_base_addr rtc_fd garbage junk b s =
     do { (b, s) \<leftarrow> fish_wait E vmem_base_addr rtc_fd garbage 100 b s;
          (b, s) \<leftarrow> with_pokes E vmem_base_addr (Op_add (letter junk)) b s;
          (b, s) \<leftarrow> fish_wait E vmem_base_addr rtc_fd garbage 100 b s;
          (b, s) \<leftarrow> with_pokes E vmem_base_addr (Op_sync (push_bit 16 40 OR (6 * 80 + 60))) b s;
          (b, s) \<leftarrow> fish_wait E vmem_base_addr rtc_fd garbage 100 b s;
          (b, s) \<leftarrow> with_pokes E vmem_base_addr (Op_remove (6 * 80 + 60)) b s;
          fish_wait E vmem_base_addr rtc_fd garbage 100 b s }"

definition fish_main ::
  "'a sys_state_scheme prog_env \<Rightarrow> u32 \<Rightarrow> u32 \<Rightarrow> u32 \<Rightarrow> u32 \<Rightarrow> u32 \<Rightarrow> u32 \<Rightarrow> u32 \<Rightarrow> blink \<Rightarrow> blink \<Rightarrow> 'a sys_state_scheme
   \<Rightarrow> ((outcome \<times> 'a sys_state_scheme) + (int \<times> 'a sys_state_scheme)) option" where
  "fish_main E vmem_base_addr f0 f1 a0 a1 ret_val garbage junk junk' s =
     do { (v, s) \<leftarrow> mp1_set_video_mode E vmem_base_addr s;
          if v = 0 then Some (Inr (-1, s))
          else do {
            (rtc_fd, s) \<leftarrow> ece391_open E (env_lit E ''rtc'') s;
            r \<leftarrow> add_frames E vmem_base_addr f0 f1 a0 a1 junk' no_blinkers s;
            case r of Inl h \<Rightarrow> Some (Inl h)
            | Inr (b, s) \<Rightarrow> do {
                s \<leftarrow> store_bytes (env_layout E) ret_val (le_bytes 32) s;
                (w, s) \<leftarrow> ece391_write E rtc_fd ret_val 4 s;
                s \<leftarrow> store_bytes (env_layout E) ret_val (le_bytes (of_int w)) s;
                (b, s) \<leftarrow> fish_letter E vmem_base_addr rtc_fd garbage junk b s;
                (_, s) \<leftarrow> ece391_close E rtc_fd s;
                Some (Inr (0, s)) } } }"

section \<open>What the program does to the blinkers\<close>

text \<open>
  What the program relies on: \<open>I\<close> holds of a state in which reading the clock returns and a character
  can be stored at every location of the screen, and these operations keep it.
\<close>

definition fish_runs :: "'a sys_state_scheme prog_env \<Rightarrow> u32 \<Rightarrow> int \<Rightarrow> u32 \<Rightarrow> ('a sys_state_scheme \<Rightarrow> bool) \<Rightarrow> bool" where
  "fish_runs E vmem_base_addr rtc_fd garbage I \<longleftrightarrow>
     (\<forall>s. I s \<longrightarrow> (\<exists>r s'. ece391_read E rtc_fd garbage 4 s = Some (r, s') \<and> I s'))
     \<and> (\<forall>s p. I s \<longrightarrow> fst p < 2000 \<longrightarrow> (\<exists>s'. mp1_poke E vmem_base_addr p s = Some s' \<and> I s'))"

abbreviation tick_all :: "blink list \<Rightarrow> blink list" where
  "tick_all \<equiv> map (fst \<circ> blink_tick)"

lemma pokes_run:
  assumes "fish_runs E vm fd g I"
  shows "I s \<Longrightarrow> \<forall>p\<in>set ps. fst p < 2000 \<Longrightarrow> \<exists>s'. mp1_pokes E vm ps s = Some s' \<and> I s'"
proof (induction ps arbitrary: s)
  case (Cons p ps)
  obtain s1 where "mp1_poke E vm p s = Some s1" "I s1" using assms Cons.prems unfolding fish_runs_def by (metis list.set_intros(1))
  then show ?case using Cons by auto
qed simp

lemma op_runs:
  assumes "fish_runs E vm fd g I" "I s" "holds b is" "op_ok op" "spec_op op (blinkers b is) = (r, xs, ps)"
  shows "\<exists>b' s' js. with_pokes E vm op b s = Some (b', s') \<and> I s' \<and> holds b' js \<and> blinkers b' js = xs"
proof -
  obtain b' js where b': "run_op op b = Some (r, b', ps)" "holds b' js" "blinkers b' js = xs"
    using op_refines [OF assms(3,4)] assms(5) by auto
  obtain s' where "mp1_pokes E vm ps s = Some s'" "I s'"
    using pokes_run [OF assms(1,2)] pokes_on_screen [OF assms(3,5)] by blast
  then show ?thesis using b' by (intro exI [of _ b'] exI [of _ s'] exI [of _ js]) (simp add: with_pokes_def)
qed

lemma wait_runs:
  assumes "fish_runs E vm fd g I"
  shows "I s \<Longrightarrow> holds b is \<Longrightarrow> \<exists>b' s' js. fish_wait E vm fd g n b s = Some (b', s') \<and> I s' \<and> holds b' js \<and> blinkers b' js = (tick_all ^^ n) (blinkers b is)"
proof (induction n arbitrary: s b "is")
  case (Suc n)
  obtain r s1 where s1: "ece391_read E fd g 4 s = Some (r, s1)" "I s1" using assms Suc.prems(1) unfolding fish_runs_def by blast
  obtain b2 s2 js where s2: "with_pokes E vm Op_tick b s1 = Some (b2, s2)" "I s2" "holds b2 js" "blinkers b2 js = tick_all (blinkers b is)"
    using op_runs [OF assms s1(2) Suc.prems(2), of Op_tick] by (auto simp: op_ok_def spec_op_def)
  obtain b3 s3 ks where "fish_wait E vm fd g n b2 s2 = Some (b3, s3)" "I s3" "holds b3 ks" "blinkers b3 ks = (tick_all ^^ n) (tick_all (blinkers b is))"
    using Suc.IH [OF s2(2,3)] unfolding s2(4) by blast
  moreover have "(tick_all ^^ Suc n) (blinkers b is) = (tick_all ^^ n) (tick_all (blinkers b is))" by (simp only: funpow_Suc_right comp_def)
  moreover have "fish_wait E vm fd g (Suc n) b s = fish_wait E vm fd g n b2 s2" using s1(1) s2(1) by simp
  ultimately show ?case by (intro exI [of _ b3] exI [of _ s3] exI [of _ ks]) (simp only: simp_thms)
qed (auto intro: exI)

lemma tick_all_Cons: "(tick_all ^^ n) (x # xs) = ((fst \<circ> blink_tick) ^^ n) x # (tick_all ^^ n) xs"
  by (induction n) simp_all

lemma tick_all_length: "length ((tick_all ^^ n) xs) = length xs"
  by (induction n) simp_all

lemma ticks_location: "bl_location (((fst \<circ> blink_tick) ^^ n) x) = bl_location x"
  by (induction n) (simp_all add: blink_tick_keeps)

text \<open>
  The letter of \<open>fish\<close> comes and goes. Wherever the clock can be read and the screen written, the
  second half of \<open>main\<close> returns, whatever the list holds at that time (at most 1999 blinkers): the
  blinker that it adds is the one that it synchronises and removes, and the others have just
  seen the 400 ticks.
\<close>

theorem letter_comes_and_goes:
  assumes "fish_runs E vmem rtc_fd garbage I" and "I s" and "holds b is" and "length is < 2000"
  shows "\<exists>b' s' js. fish_letter E vmem rtc_fd garbage junk b s = Some (b', s') \<and> I s' \<and> holds b' js
    \<and> blinkers b' js = (tick_all ^^ 400) (blinkers b is)"
proof -
  define T where "T = (\<lambda>n. (tick_all ^^ n) (blinkers b is))"
  have T: "(tick_all ^^ n) (T m) = T (n + m)" for n m by (simp add: T_def funpow_add)
  have len: "length (T n) < 2000" for n using assms(4) by (simp add: T_def tick_all_length) (simp add: blinkers_def)
  have l: "bl_location (letter junk) = 540" by (simp add: letter_def)
  obtain b1 s1 j1 where 1: "fish_wait E vmem rtc_fd garbage 100 b s = Some (b1, s1)" "I s1" "holds b1 j1" "blinkers b1 j1 = T 100"
    using wait_runs [OF assms(1-3), of 100] by (auto simp: T_def)
  define x where "x = (letter junk)\<lparr>bl_status := 1, countdown := on_length (letter junk), next_ptr := None\<rparr>"
  have x: "bl_location x = 540" by (simp add: x_def l)
  have "spec_op (Op_add (letter junk)) (blinkers b1 j1) = (0, x # T 100, [(540, on_char (letter junk))])"
    using len [of 100] by (simp add: spec_op_def 1(4) l x_def)
  from op_runs [OF assms(1) 1(2,3) _ this] obtain b2 s2 j2 where 2: "with_pokes E vmem (Op_add (letter junk)) b1 s1 = Some (b2, s2)"
      "I s2" "holds b2 j2" "blinkers b2 j2 = x # T 100"
    by (auto simp: op_ok_def l)
  obtain b3 s3 j3 where 3: "fish_wait E vmem rtc_fd garbage 100 b2 s2 = Some (b3, s3)" "I s3" "holds b3 j3"
      "blinkers b3 j3 = ((fst \<circ> blink_tick) ^^ 100) x # T 200"
    using wait_runs [OF assms(1) 2(2,3), of 100] by (auto simp: 2(4) tick_all_Cons T)
  have d: "ucast (drop_bit 16 (push_bit 16 40 OR (6 * 80 + 60) :: u32)) = (40 :: u16)"
      "ucast ((push_bit 16 40 OR (6 * 80 + 60) :: u32) AND 0xFFFF) = (540 :: u16)" "ucast (6 * 80 + 60 :: u32) = (540 :: u16)"
    by code_simp+
  have y: "bl_location (((fst \<circ> blink_tick) ^^ 100) x) = 540" by (simp only: ticks_location x)
  obtain r ps z where sy: "spec_op (Op_sync (push_bit 16 40 OR (6 * 80 + 60))) (blinkers b3 j3) = (r, z # T 200, ps)" "bl_location z = 540"
    using y by (cases "find (at_loc 40) (T 200)")
      (auto simp: spec_op_def 3(4) d sync_with_def simp del: funpow.simps split: option.splits)
  from op_runs [OF assms(1) 3(2,3) _ sy(1)] obtain b4 s4 j4 where 4: "with_pokes E vmem (Op_sync (push_bit 16 40 OR (6 * 80 + 60))) b3 s3 = Some (b4, s4)"
      "I s4" "holds b4 j4" "blinkers b4 j4 = z # T 200"
    by (auto simp: op_ok_def)
  obtain b5 s5 j5 where 5: "fish_wait E vmem rtc_fd garbage 100 b4 s4 = Some (b5, s5)" "I s5" "holds b5 j5"
      "blinkers b5 j5 = ((fst \<circ> blink_tick) ^^ 100) z # T 300"
    using wait_runs [OF assms(1) 4(2,3), of 100] by (auto simp: 4(4) tick_all_Cons T)
  have w: "bl_location (((fst \<circ> blink_tick) ^^ 100) z) = 540" by (simp only: ticks_location sy(2))
  have "spec_op (Op_remove (6 * 80 + 60)) (blinkers b5 j5) = (0, T 300, [])"
    unfolding spec_op_def 5(4) blink_op.case d(3) del_first.simps find.simps by (simp only: w simp_thms if_True option.distinct if_False)
  from op_runs [OF assms(1) 5(2,3) _ this] obtain b6 s6 j6 where 6: "with_pokes E vmem (Op_remove (6 * 80 + 60)) b5 s5 = Some (b6, s6)"
      "I s6" "holds b6 j6" "blinkers b6 j6 = T 300"
    by (auto simp: op_ok_def)
  obtain b7 s7 j7 where 7: "fish_wait E vmem rtc_fd garbage 100 b6 s6 = Some (b7, s7)" "I s7" "holds b7 j7" "blinkers b7 j7 = T 400"
    using wait_runs [OF assms(1) 6(2,3), of 100] by (auto simp: 6(4) T)
  have "fish_letter E vmem rtc_fd garbage junk b s = Some (b7, s7)"
    unfolding fish_letter_def 1(1) 2(1) 3(1) 4(1) 5(1) 6(1) 7(1) bind.bind_lunit prod.case ..
  then show ?thesis using 7(2-4) by (auto simp: T_def)
qed

text \<open>
  A machine for the example: the pointer at 0x8110000 refers to 4000 bytes of the program's own page,
  and the descriptor of the clock is that of a failed \<open>open\<close>.
\<close>

definition fish_demo_ok :: "sys_state \<Rightarrow> bool" where
  "fish_demo_ok s \<longleftrightarrow> (\<exists>V. sees boot_layout V s \<and> load32 (pv_mem V) 0x8110000 = 0x8120000)"

lemma fish_demo_runs: "fish_runs (demo_env []) 0x8110000 (-1) demo_buf fish_demo_ok"
proof -
  let ?E = "demo_env []"
  have "\<exists>r s'. ece391_read ?E (-1) demo_buf 4 s = Some (r, s') \<and> fish_demo_ok s'" if "fish_demo_ok s" for s
    using that ends_read_reject [of ?E _ s "-1" demo_buf 4] by (fastforce simp: fish_demo_ok_def ends_def)
  moreover have "\<exists>s'. mp1_poke ?E 0x8110000 p s = Some s' \<and> fish_demo_ok s'" if s: "fish_demo_ok s" and p: "fst p < 2000" for s p
  proof -
    obtain V where V: "sees boot_layout V s" "load32 (pv_mem V) 0x8110000 = 0x8120000" using s by (auto simp: fish_demo_ok_def)
    define a :: u32 where "a = 0x8120000 + 2 * ucast (fst p)"
    have "unat (fst p) < 2000" using p by (simp add: word_less_nat_alt)
    then have "unat (ucast (fst p) :: u32) < 2000" by (simp add: unsigned_ucast_eq take_bit_nat_eq_self)
    then have u: "0x8120000 \<le> unat a" "unat a < 0x8130000" by (simp_all add: a_def unat_word_ariths)
    then have w: "in_window a (Suc 0)" by (simp add: in_window_def)
    have m: "user_mapped boot_layout (curr s) s" "pview s = V" using V(1) by (auto simp: sees_def prog_ok_def)
    have "view boot_layout s (0x8110000 + of_nat k) = pv_mem V (0x8110000 + of_nat k)" if "k < 4" for k
    proof -
      have "in_window (0x8110000 + of_nat k) (Suc 0)" using that by (simp add: in_window_def unat_word_ariths unat_of_nat)
      then show ?thesis using window_view [OF m(1)] m(2) by simp
    qed
    from this [of 0] this [of 1] this [of 2] this [of 3] have "load32 (view boot_layout s) 0x8110000 = 0x8120000"
      using V(2) by (simp add: load32_def)
    then have poke: "mp1_poke ?E 0x8110000 p s = store_byte boot_layout a (snd p) s" by (simp add: mp1_poke_def a_def)
    obtain s' where s': "store_byte boot_layout a (snd p) s = Some s'" "sees boot_layout (V\<lparr>pv_mem := (pv_mem V)(a := snd p)\<rparr>) s'"
      using leaves_store [OF V(1) w] by (auto simp: leaves_def)
    have "a \<noteq> 0x8110000 + of_nat k" if "k < 4" for k
    proof
      assume "a = 0x8110000 + of_nat k"
      then have "unat a = 0x8110000 + k" using that by (simp add: unat_word_ariths unat_of_nat)
      then show False using u(1) that by simp
    qed
    from this [of 0] this [of 1] this [of 2] this [of 3] have "load32 ((pv_mem V)(a := snd p)) 0x8110000 = 0x8120000"
      using V(2) by (simp add: load32_def)
    then show ?thesis using s' poke by (auto simp: fish_demo_ok_def intro!: exI [of _ "V\<lparr>pv_mem := (pv_mem V)(a := snd p)\<rparr>"])
  qed
  ultimately show ?thesis by (simp add: fish_runs_def)
qed

theorem letter_comes_and_goes_witness:
  "\<exists>s b' s'. store_bytes boot_layout 0x8110000 (le_bytes 0x8120000) prog_demo = Some s
     \<and> fish_letter (demo_env []) 0x8110000 (-1) demo_buf zero_blink no_blinkers s = Some (b', s') \<and> holds b' []"
proof -
  have bs: "le_bytes 0x8120000 = [0, 0, 0x12, 8]" by code_simp
  have n: "length (le_bytes 0x8120000) = 4" by (simp add: bs)
  have "in_window 0x8110000 (length (le_bytes 0x8120000))" unfolding n by (simp add: in_window_def)
  then obtain s where s: "store_bytes boot_layout 0x8110000 (le_bytes 0x8120000) prog_demo = Some s"
      "sees boot_layout (demo_view\<lparr>pv_mem := write_bytes (pv_mem demo_view) 0x8110000 (le_bytes 0x8120000)\<rparr>) s"
    using sees_store [OF demo_sees] by blast
  have "load32 (write_bytes (pv_mem demo_view) 0x8110000 (le_bytes 0x8120000)) 0x8110000 = 0x8120000"
    unfolding bs by (simp add: load32_def)
  then have i: "fish_demo_ok s" using s(2) unfolding fish_demo_ok_def
    by (intro exI [of _ "demo_view\<lparr>pv_mem := write_bytes (pv_mem demo_view) 0x8110000 (le_bytes 0x8120000)\<rparr>"]) simp
  obtain b' s' js where f: "fish_letter (demo_env []) 0x8110000 (-1) demo_buf zero_blink no_blinkers s = Some (b', s')" "holds b' js"
      "blinkers b' js = (tick_all ^^ 400) []"
    using letter_comes_and_goes [OF fish_demo_runs i no_blinkers_holds(1), of zero_blink] by (auto simp: no_blinkers_holds(2) simp del: funpow.simps)
  have "length js = 0" using tick_all_length [of 400 "[]"] unfolding f(3) [symmetric] by (simp add: blinkers_def)
  then show ?thesis using s(1) f(1,2) by auto
qed

end
