(* ===== verification/Linux_Calls.thy ===== *)
theory Linux_Calls
  imports User_Support
begin

text \<open>
  The system calls of the user programs when they run on Linux, \<open>syscalls/ece391emulate.c\<close> (the
  copy in \<open>fish\<close> is the same file): \<open>execute\<close> splits the command line and starts the program with
  an argument vector, \<open>getargs\<close> puts the line together again, and \<open>open\<close>, \<open>read\<close>, \<open>write\<close> and
  \<open>close\<close> pass to Linux except for the directory, which is read one name at a time. Linux and its C
  library are a parameter (\<open>linux\<close>).
\<close>

section \<open>Linux\<close>

text \<open>
  What a program left behind when \<open>wait\<close> returns: an exit status, or the signal that ended it.
\<close>

datatype wait_status = Exited u8 | Signaled nat

text \<open>
  \<open>int80\<close> is the system call instruction, with the number and the arguments; the others are the
  functions of the C library, a null pointer being 0. \<open>readdir\<close> gives the name of an entry.
\<close>

record 'h linux =
  int80 :: "u32 \<Rightarrow> u32 list \<Rightarrow> memory \<Rightarrow> 'h \<Rightarrow> u32 \<times> memory \<times> 'h"
  libc_opendir :: "u8 list \<Rightarrow> 'h \<Rightarrow> u32 \<times> 'h"
  libc_readdir :: "u32 \<Rightarrow> 'h \<Rightarrow> u8 list option \<times> 'h"
  libc_closedir :: "u32 \<Rightarrow> 'h \<Rightarrow> 'h"
  libc_open :: "u8 list \<Rightarrow> u32 \<Rightarrow> 'h \<Rightarrow> u32 \<times> 'h"
  libc_close :: "u32 \<Rightarrow> 'h \<Rightarrow> 'h"
  libc_mmap :: "u32 \<Rightarrow> u32 \<Rightarrow> u32 \<Rightarrow> 'h \<Rightarrow> u32 \<times> 'h"
  libc_perror :: "u8 list \<Rightarrow> 'h \<Rightarrow> 'h"

text \<open>The memory of the program, the static variables of the file, and the rest of the world.\<close>

record 'h emu_state =
  emem :: memory
  emu_dir :: u32
  emu_dir_fd :: u32
  emu_mem_fd :: u32
  ehost :: 'h

definition emu_init :: "memory \<Rightarrow> 'h \<Rightarrow> 'h emu_state" where
  "emu_init m h = \<lparr>emem = m, emu_dir = 0, emu_dir_fd = - 1, emu_mem_fd = - 1, ehost = h\<rparr>"

section \<open>System calls that pass to Linux\<close>

definition linux_result :: "u32 \<Rightarrow> u32" where
  "linux_result v = (if v \<le> 0xFFFFC000 then v else - 1)"

definition do_call :: "'h linux \<Rightarrow> u32 \<Rightarrow> u32 \<Rightarrow> u32 \<Rightarrow> u32 \<Rightarrow> 'h emu_state \<Rightarrow> u32 \<times> 'h emu_state" where
  "do_call H number a b c s =
     (let (v, m, h) = int80 H number [a, b, c] (emem s) (ehost s)
      in (linux_result v, s\<lparr>emem := m, ehost := h\<rparr>))"

definition linux_read :: "'h linux \<Rightarrow> u32 \<Rightarrow> u32 \<Rightarrow> u32 \<Rightarrow> 'h emu_state \<Rightarrow> u32 \<times> 'h emu_state" where
  "linux_read H fd buf nbytes = do_call H 3 fd buf nbytes"

definition linux_write :: "'h linux \<Rightarrow> u32 \<Rightarrow> u32 \<Rightarrow> u32 \<Rightarrow> 'h emu_state \<Rightarrow> u32 \<times> 'h emu_state" where
  "linux_write H fd buf nbytes = do_call H 4 fd buf nbytes"

text \<open>The two argument slots above the one of \<open>close\<close> and \<open>halt\<close> hold whatever the stack held.\<close>

definition linux_close :: "'h linux \<Rightarrow> u32 \<Rightarrow> u32 \<Rightarrow> u32 \<Rightarrow> 'h emu_state \<Rightarrow> u32 \<times> 'h emu_state" where
  "linux_close H g1 g2 fd = do_call H 6 fd g1 g2"

definition linux_halt :: "'h linux \<Rightarrow> u32 \<Rightarrow> u32 \<Rightarrow> u32 \<Rightarrow> 'h emu_state \<Rightarrow> u32 \<times> 'h emu_state" where
  "linux_halt H g1 g2 status = do_call H 1 status g1 g2"

text \<open>The start of a program: its stack pointer is kept for \<open>getargs\<close>, and what \<open>main\<close> returns is its status.\<close>

definition emu_start ::
  "'h linux \<Rightarrow> (u32 \<Rightarrow> 'h emu_state \<Rightarrow> (u32 \<times> 'h emu_state) option) \<Rightarrow> u32 \<Rightarrow> u32 \<Rightarrow> u32 \<Rightarrow> 'h emu_state
    \<Rightarrow> (u32 \<times> 'h emu_state) option" where
  "emu_start H main g1 g2 esp s = do { (r, s) \<leftarrow> main esp s; Some (linux_halt H g1 g2 r s) }"

section \<open>The directory\<close>

definition lit_dot :: memory where
  "lit_dot = write_bytes (\<lambda>_. 0) 0 (map of_char ''.'')"

definition emu_open :: "'h linux \<Rightarrow> u32 \<Rightarrow> 'h emu_state \<Rightarrow> (u32 \<times> 'h emu_state) option" where
  "emu_open H filename s =
     do { d \<leftarrow> ece391_strcmp (emem s) filename lit_dot 0;
          Some (if d = 0
            then let (p, h) = libc_opendir H (map of_char ''.'') (ehost s);
                     (fd, h) = libc_open H (map of_char ''/dev/null'') 0 h
                 in (fd, s\<lparr>emu_dir := p, emu_dir_fd := fd, ehost := h\<rparr>)
            else let (v, m, h) = int80 H 5 [filename, 0] (emem s) (ehost s)
                 in (linux_result v, s\<lparr>emem := m, ehost := h\<rparr>)) }"

text \<open>
  The loop that copies a name, and the one that pads it: with the pointer \<open>p\<close> and the number
  copied so far, they return the result of the call.
\<close>

function pad_name :: "memory \<Rightarrow> u32 \<Rightarrow> int \<Rightarrow> int \<Rightarrow> int \<times> memory" where
  "pad_name m p copied nbytes =
     (if nbytes > copied \<and> 32 > copied then pad_name (m(p := 0)) (p + 1) (copied + 1) nbytes
      else (copied, m))"
  by pat_completeness auto
termination by (relation "measure (\<lambda>(m, p, copied, nbytes). nat (32 - copied))") auto

declare pad_name.simps [simp del]

fun copy_name :: "u8 list \<Rightarrow> memory \<Rightarrow> u32 \<Rightarrow> int \<Rightarrow> int \<Rightarrow> int \<times> memory" where
  "copy_name [] m p copied nbytes = pad_name m p copied nbytes"
| "copy_name (c # cs) m p copied nbytes =
     (let m = m(p := c); copied = copied + 1
      in if copied = nbytes then (nbytes, m)
         else if 32 = copied then (32, m)
         else copy_name cs m (p + 1) copied nbytes)"

definition emu_read :: "'h linux \<Rightarrow> u32 \<Rightarrow> u32 \<Rightarrow> u32 \<Rightarrow> 'h emu_state \<Rightarrow> u32 \<times> 'h emu_state" where
  "emu_read H fd buf nbytes s =
     (if emu_dir s = 0 \<or> emu_dir_fd s \<noteq> fd then linux_read H fd buf nbytes s
      else case libc_readdir H (emu_dir s) (ehost s) of
        (None, h) \<Rightarrow> (0, s\<lparr>ehost := h\<rparr>)
      | (Some name, h) \<Rightarrow>
          (let (r, m) = copy_name name (emem s) buf 0 (sint nbytes)
           in (of_int r, s\<lparr>emem := m, ehost := h\<rparr>)))"

definition emu_write :: "'h linux \<Rightarrow> u32 \<Rightarrow> u32 \<Rightarrow> u32 \<Rightarrow> 'h emu_state \<Rightarrow> u32 \<times> 'h emu_state" where
  "emu_write H fd buf nbytes s =
     (if emu_dir s = 0 \<or> emu_dir_fd s \<noteq> fd then linux_write H fd buf nbytes s else (- 1, s))"

definition emu_close :: "'h linux \<Rightarrow> u32 \<Rightarrow> u32 \<Rightarrow> u32 \<Rightarrow> 'h emu_state \<Rightarrow> u32 \<times> 'h emu_state" where
  "emu_close H g1 g2 fd s =
     (if emu_dir s = 0 \<or> emu_dir_fd s \<noteq> fd then linux_close H g1 g2 fd s
      else let h = libc_closedir H (emu_dir s) (ehost s);
               h = libc_close H (emu_dir_fd s) h
           in (0, s\<lparr>emu_dir := 0, emu_dir_fd := - 1, ehost := h\<rparr>))"

section \<open>The video memory\<close>

text \<open>\<open>MAP_FAILED\<close> is \<open>-1\<close>, \<open>O_RDWR\<close> is 2.\<close>

definition emu_vidmap :: "'h linux \<Rightarrow> u32 \<Rightarrow> 'h emu_state \<Rightarrow> u32 \<times> 'h emu_state" where
  "emu_vidmap H screen_start s =
     (let s = (if emu_mem_fd s = - 1
               then let (fd, h) = libc_open H (map of_char ''/dev/mem'') 2 (ehost s)
                    in s\<lparr>emu_mem_fd := fd, ehost := h\<rparr>
               else s);
          (image, h) = libc_mmap H 0 (1024 * 1024) (emu_mem_fd s) (ehost s)
      in if image = - 1 then (- 1, s\<lparr>ehost := libc_perror H (map of_char ''mmap low memory'') h\<rparr>)
         else (0, s\<lparr>emem := store32 (emem s) screen_start (image + 0xb8000), ehost := h\<rparr>))"

section \<open>Starting a program\<close>

text \<open>The scans over the command line, for a separator and over blanks.\<close>

partial_function (option) scan_word :: "memory \<Rightarrow> u32 \<Rightarrow> u32 option" where
  "scan_word m p = (if m p \<noteq> 0 \<and> m p \<noteq> 32 \<and> m p \<noteq> 10 then scan_word m (p + 1) else Some p)"

partial_function (option) scan_blanks :: "memory \<Rightarrow> u32 \<Rightarrow> u32 option" where
  "scan_blanks m p = (if m p = 32 then scan_blanks m (p + 1) else Some p)"

partial_function (option) split_line :: "memory \<Rightarrow> u32 \<Rightarrow> u32 list \<Rightarrow> (memory \<times> u32 list) option" where
  "split_line m p args =
     do { p \<leftarrow> scan_blanks m p;
          if m p = 0 \<or> m p = 10 then Some (m(p := 0), args)
          else do {
            q \<leftarrow> scan_word m p;
            if m q \<noteq> 0 then split_line (m(q := 0)) (q + 1) (args @ [p])
            else split_line m q (args @ [p]) } }"

text \<open>
  \<open>run m path args\<close> is what becomes of the child that calls \<open>execv\<close> with this memory: the status
  \<open>wait\<close> reports, or \<open>None\<close> when \<open>execv\<close> returns, after which the child kills itself.
  \<open>buf\<close> is the buffer on the stack; a \<open>fork\<close> that fails is not described.
\<close>

definition wait_result :: "wait_status \<Rightarrow> int" where
  "wait_result st = (case st of Exited c \<Rightarrow> uint c | Signaled sig \<Rightarrow> if sig = 9 then - 1 else 256)"

definition emu_execute ::
  "(memory \<Rightarrow> u32 \<Rightarrow> u32 list \<Rightarrow> wait_status option) \<Rightarrow> memory \<Rightarrow> u32 \<Rightarrow> u32 \<Rightarrow> int option" where
  "emu_execute run m buf command =
     do { n \<leftarrow> ece391_strlen m command;
          if 1023 < n then Some (- 1)
          else do {
            m \<leftarrow> ece391_strcpy (m(buf := 46, buf + 1 := 47)) (buf + 2) command;
            p \<leftarrow> scan_word m (buf + 2);
            (m, args) \<leftarrow> (if m p \<noteq> 0 then split_line (m(p := 0)) (p + 1) [buf] else Some (m, [buf]));
            Some (wait_result (case run m buf args of Some st \<Rightarrow> st | None \<Rightarrow> Signaled 9)) } }"

section \<open>The arguments of a program\<close>

definition getargs_end :: "memory \<Rightarrow> u32 \<Rightarrow> int \<Rightarrow> int \<times> memory" where
  "getargs_end m buf nbytes = (if nbytes < 1 then (- 1, m) else (0, m(buf := 0)))"

partial_function (option) emu_getargs_loop ::
  "memory \<Rightarrow> u32 \<Rightarrow> int \<Rightarrow> int \<Rightarrow> u32 \<Rightarrow> int \<Rightarrow> (int \<times> memory) option" where
  "emu_getargs_loop m argv argc idx buf nbytes =
     (if idx < argc
      then do {
        n \<leftarrow> ece391_strlen m (load32 m (argv + 4 * of_int idx));
        if sint n > nbytes then Some (- 1, m)
        else do {
          m \<leftarrow> ece391_strcpy m buf (load32 m (argv + 4 * of_int idx));
          let buf = buf + n;
          let nbytes = nbytes - sint n;
          if idx + 1 \<ge> argc then Some (getargs_end m buf nbytes)
          else if nbytes < 1 then Some (- 1, m)
          else emu_getargs_loop (m(buf := 32)) argv argc (idx + 1) (buf + 1) (nbytes - 1) } }
      else Some (getargs_end m buf nbytes))"

definition emu_getargs :: "memory \<Rightarrow> u32 \<Rightarrow> u32 \<Rightarrow> u32 \<Rightarrow> (int \<times> memory) option" where
  "emu_getargs m start_esp buf nbytes =
     emu_getargs_loop m (start_esp + 4) (sint (load32 m start_esp)) 1 buf (sint nbytes)"


section \<open>Reading a directory\<close>

text \<open>What a read of a directory entry is to put into the buffer.\<close>

definition padded_name :: "int \<Rightarrow> u8 list \<Rightarrow> u8 list" where
  "padded_name n name = take (nat (min n 32)) (name @ replicate 32 0)"

lemma nat_diff_Suc: "k < n \<Longrightarrow> nat (n - k) = Suc (nat (n - (k + 1)))"
  by linarith

lemma pad_name_fills:
  "k \<le> min n 32 \<Longrightarrow> pad_name m p k n = (min n 32, write_bytes m p (replicate (nat (min n 32 - k)) 0))"
proof (induction m p k n rule: pad_name.induct)
  case (1 m p k n)
  show ?case
  proof (cases "k < min n 32")
    case True
    then have "nat (min n 32 - k) = Suc (nat (min n 32 - (k + 1)))" by (rule nat_diff_Suc)
    then show ?thesis using 1 True by (subst pad_name.simps) (simp add: fun_upd_def)
  next
    case False
    then show ?thesis using 1(2) by (subst pad_name.simps) auto
  qed
qed

lemma copy_name_pads:
  "k < min n 32 \<Longrightarrow> 0 \<le> k \<Longrightarrow> copy_name name m p k n
     = (min n 32, write_bytes m p (take (nat (min n 32 - k)) (name @ replicate 32 0)))"
proof (induction name m p k n rule: copy_name.induct)
  case (1 m p k n)
  then have "take (nat (min n 32 - k)) (replicate 32 0) = replicate (nat (min n 32 - k)) (0 :: u8)" by simp
  with 1 show ?case by (simp add: pad_name_fills)
next
  case (2 c cs m p k n)
  then have "nat (min n 32 - k) = Suc (nat (min n 32 - (k + 1)))" by (intro nat_diff_Suc)
  then show ?case using 2 by (cases "k + 1 = n"; cases "k + 1 = 32") (auto simp: Let_def fun_upd_def)
qed

lemma copy_name_overruns:
  "n \<le> 0 \<Longrightarrow> 0 \<le> k \<Longrightarrow> k < 32 \<Longrightarrow> copy_name name m p k n
     = (k + min (int (length name)) (32 - k), write_bytes m p (take (nat (32 - k)) name))"
proof (induction name m p k n rule: copy_name.induct)
  case (1 m p k n)
  then show ?case by (subst copy_name.simps, subst pad_name.simps) simp
next
  case (2 c cs m p k n)
  then have "nat (32 - k) = Suc (nat (32 - (k + 1)))" by (intro nat_diff_Suc)
  then show ?case using 2 by (cases "k + 1 = 32") (auto simp: Let_def min_def fun_upd_def)
qed

section \<open>Splitting the command line\<close>

definition word_char :: "u8 \<Rightarrow> bool" where
  "word_char c \<longleftrightarrow> c \<noteq> 0 \<and> c \<noteq> 32 \<and> c \<noteq> 10"

lemma word_char_iff: "word_char c \<longleftrightarrow> c \<noteq> 0 \<and> c \<noteq> 32 \<and> c \<noteq> 10"
  by (simp add: word_char_def)

text \<open>The words of a line after the name of the program.\<close>

function line_words :: "u8 list \<Rightarrow> u8 list list" where
  "line_words cs =
     (case dropWhile (\<lambda>c. c = 32) cs of
        [] \<Rightarrow> []
      | c # ds \<Rightarrow> if c = 10 then []
          else takeWhile word_char (c # ds) # line_words (drop 1 (dropWhile word_char ds)))"
  by pat_completeness auto
termination
proof (relation "measure length")
  fix cs ds :: "u8 list" and c
  assume "dropWhile (\<lambda>c. c = 32) cs = c # ds"
  then have "length ds < length cs" using length_dropWhile_le [of "\<lambda>c. c = 32" cs] by simp
  moreover have "length (dropWhile word_char ds) \<le> length ds" by (rule length_dropWhile_le)
  ultimately show "(drop 1 (dropWhile word_char ds), cs) \<in> measure length" by simp
qed simp

declare line_words.simps [simp del]

lemma cstr_at_append:
  "cstr_at m a (xs @ ys) \<Longrightarrow> bytes_at m a (length xs) = xs \<and> cstr_at m (a + of_nat (length xs)) ys"
  by (auto simp: cstr_at_def bytes_at_add algebra_simps)

lemma scan_word_cstr:
  "cstr_at m p cs \<Longrightarrow> scan_word m p = Some (p + of_nat (length (takeWhile word_char cs)))"
proof (induction cs arbitrary: p)
  case Nil
  then show ?case by (simp add: scan_word.simps)
next
  case (Cons c cs)
  then show ?case
    using word_char_iff [of c] by (subst scan_word.simps) (auto simp: cstr_at_Cons algebra_simps)
qed

lemma scan_blanks_cstr:
  "cstr_at m p cs \<Longrightarrow> scan_blanks m p = Some (p + of_nat (length (takeWhile (\<lambda>c. c = 32) cs)))"
proof (induction cs arbitrary: p)
  case Nil
  then show ?case by (simp add: scan_blanks.simps)
next
  case (Cons c cs)
  then show ?case
    by (subst scan_blanks.simps) (auto simp: cstr_at_Cons algebra_simps)
qed

lemma region_apart:
  assumes "i + j \<le> 4294967296"
  shows "region a i \<inter> region (a + of_nat i) j = {}"
proof -
  have False if "x \<in> region a i" "x \<in> region (a + of_nat i) j" for x
  proof -
    from that(2) obtain k where "k < j" "x = a + of_nat (i + k)" by (auto elim: region_obtain simp: algebra_simps)
    with that(1) assms show False by (simp add: in_region_offset del: of_nat_add)
  qed
  then show ?thesis by auto
qed

lemma cstr_at_upd: "x \<notin> region a (Suc (length xs)) \<Longrightarrow> cstr_at (m(x := v)) a xs = cstr_at m a xs"
  by (rule cstr_at_cong) (metis fun_upd_other)

text \<open>A string cut off by a NUL behind its first part.\<close>

lemma cstr_at_cut:
  assumes "cstr_at m p (w @ r)" and "\<And>x. x \<in> region p (length w) \<Longrightarrow> m' x = m x" and "m' (p + of_nat (length w)) = 0"
  shows "cstr_at m' p w"
proof -
  have "length w \<le> 4294967296" using assms(1) by (simp add: cstr_at_def)
  then have "bytes_at m' p (length w) = bytes_at m p (length w)" using assms(2) by (intro bytes_at_cong)
  then show ?thesis using assms(1,3) by (simp add: cstr_at_def bytes_at_add)
qed

text \<open>
  The step of the splitting: a NUL behind the first word \<open>w\<close>, and the rest \<open>es\<close> changed later on.
\<close>

lemma word_split_off:
  assumes "cstr_at m p (w @ d # es)" and q: "q = p + of_nat (length w)"
    and frame: "\<And>x. x \<notin> region (q + 1) (length es) \<Longrightarrow> m' x = (m(q := 0)) x"
  shows "cstr_at m' p w" and "x \<notin> region p (length (w @ d # es)) \<Longrightarrow> m' x = m x"
proof -
  have sz: "length w + Suc (length es) < 4294967296" using assms(1) by (simp add: cstr_at_def)
  then have qreg: "region q (Suc (length es)) = insert q (region (q + 1) (length es))"
    by (intro region_Suc_base) simp
  have wq: "region p (length w) \<inter> region q (Suc (length es)) = {}" using sz unfolding q by (intro region_apart) simp
  have "q \<notin> region (q + 1) (length es)"
    using region_apart [of "Suc 0" "length es" q] sz by (auto simp: disjoint_iff)
  then have "m' q = 0" using frame [of q] by simp
  then show "cstr_at m' p w"
    using frame wq qreg q by (intro cstr_at_cut [OF assms(1)]) (auto simp: disjoint_iff)
  have "region p (length w + Suc (length es)) = region p (length w) \<union> region q (Suc (length es))"
    using sz unfolding q by (intro region_add) simp
  then show "x \<notin> region p (length (w @ d # es)) \<Longrightarrow> m' x = m x"
    using frame [of x] qreg by (simp del: in_region_iff)
qed

lemma split_line_words:
  assumes "cstr_at m p cs"
  shows "\<exists>m' ws. split_line m p args = Some (m', args @ ws) \<and> list_all2 (cstr_at m') ws (line_words cs)
    \<and> (\<forall>x. x \<notin> region p (length cs) \<longrightarrow> m' x = m x)"
  using assms
proof (induction cs arbitrary: m p args rule: line_words.induct)
  case (1 cs)
  define b r where "b = takeWhile (\<lambda>c. c = 32) cs" and "r = dropWhile (\<lambda>c. c = 32) cs"
  define p1 where "p1 = p + of_nat (length b)"
  have cs: "cs = b @ r" by (simp add: b_def r_def)
  have blanks: "scan_blanks m p = Some p1" using scan_blanks_cstr [OF 1(2)] by (simp add: p1_def b_def)
  have r: "cstr_at m p1 r" using cstr_at_append [of m p b r] 1(2) by (simp add: p1_def cs)
  have reg: "x \<notin> region p (length cs) \<Longrightarrow> x \<notin> region p1 (length r)" for x
    using 1(2) region_add [of "length b" "length r" p] by (simp add: cs p1_def cstr_at_def del: in_region_iff)
  show ?case
  proof (cases r)
    case Nil
    with r have "split_line m p args = Some (m, args)"
      by (subst split_line.simps) (simp add: blanks fun_upd_idem)
    moreover have "line_words cs = []" by (subst line_words.simps) (simp only: Nil r_def [symmetric] list.case)
    ultimately show ?thesis by simp
  next
    case (Cons c ds)
    have c: "c \<noteq> 32" "c \<noteq> 0" "m p1 = c"
      using Cons r hd_dropWhile [of "\<lambda>c. c = 32" cs] by (auto simp: r_def cstr_at_Cons)
    show ?thesis
    proof (cases "c = 10")
      case True
      then have "split_line m p args = Some (m(p1 := 0), args)"
        using c by (subst split_line.simps) (simp add: blanks)
      moreover have "line_words cs = []" by (subst line_words.simps) (simp add: Cons True r_def [symmetric])
      moreover have "p1 \<in> region p (length cs)" using reg [of p1] Cons by auto
      ultimately show ?thesis by auto
    next
      case False
      define w t where "w = takeWhile word_char r" and "t = dropWhile word_char r"
      define q where "q = p1 + of_nat (length w)"
      have rwt: "r = w @ t" by (simp add: w_def t_def)
      have wc: "word_char c" using c False by (simp add: word_char_def)
      then have tds: "t = dropWhile word_char ds" by (simp add: t_def Cons)
      have words: "line_words cs = w # line_words (drop 1 t)"
        using Cons False by (subst line_words.simps) (simp add: w_def tds r_def [symmetric])
      have t: "cstr_at m q t" using cstr_at_append [of m p1 w t] r by (simp add: rwt q_def)
      have step: "split_line m p args = (if m q \<noteq> 0 then split_line (m(q := 0)) (q + 1) (args @ [p1])
          else split_line m q (args @ [p1]))"
        using c False scan_word_cstr [OF r] by (subst split_line.simps) (simp add: blanks q_def w_def)
      have IH: "cstr_at m1 a (drop 1 t) \<Longrightarrow> \<exists>m' ws. split_line m1 a args1 = Some (m', args1 @ ws)
          \<and> list_all2 (cstr_at m') ws (line_words (drop 1 t)) \<and> (\<forall>x. x \<notin> region a (length (drop 1 t)) \<longrightarrow> m' x = m1 x)" for m1 a args1
        using 1(1) [of c ds m1 a args1] Cons False by (simp add: r_def tds)
      show ?thesis
      proof (cases t)
        case Nil
        with t have z: "m q = 0" "cstr_at m q (drop 1 t)" by simp_all
        from IH [OF z(2), of "args @ [p1]"] Nil obtain m' ws where
          m': "split_line m q (args @ [p1]) = Some (m', args @ p1 # ws)"
            "list_all2 (cstr_at m') ws (line_words (drop 1 t))" "\<And>x. m' x = m x" by auto
        then have "m' = m" by auto
        moreover have "cstr_at m p1 w" using r Nil rwt by simp
        ultimately show ?thesis using m' step z(1) words by auto
      next
        case (Cons d es)
        have d: "m q \<noteq> 0" "cstr_at m (q + 1) es" using t Cons by (auto simp: cstr_at_Cons)
        have "q \<notin> region (q + 1) (Suc (length es))"
          using region_apart [of "Suc 0" "Suc (length es)" q] t Cons by (auto simp: disjoint_iff cstr_at_def)
        with d have "cstr_at (m(q := 0)) (q + 1) (drop 1 t)" by (simp add: cstr_at_upd Cons)
        from IH [OF this, of "args @ [p1]"] Cons obtain m' ws where
          m': "split_line (m(q := 0)) (q + 1) (args @ [p1]) = Some (m', args @ p1 # ws)"
            "list_all2 (cstr_at m') ws (line_words (drop 1 t))"
            "\<And>x. x \<notin> region (q + 1) (length es) \<Longrightarrow> m' x = (m(q := 0)) x" by auto
        note off = word_split_off [OF r [unfolded rwt Cons] q_def m'(3)]
        have "cstr_at m' p1 w" by (rule off(1))
        moreover have "m' x = m x" if "x \<notin> region p (length cs)" for x
          using off(2) reg [OF that] by (simp add: rwt Cons)
        ultimately show ?thesis using m'(1,2) step d(1) words by auto
      qed
    qed
  qed
qed

section \<open>Starting a program\<close>

text \<open>
  \<open>execv\<close> takes from the memory of the program only the strings its arguments point to: what
  becomes of the child is a function \<open>exec\<close> of them.
\<close>

definition execv_of_strings ::
  "(memory \<Rightarrow> u32 \<Rightarrow> u32 list \<Rightarrow> wait_status option) \<Rightarrow> (u8 list \<Rightarrow> u8 list list \<Rightarrow> wait_status option) \<Rightarrow> bool" where
  "execv_of_strings run exec \<longleftrightarrow>
     (\<forall>m p path av strs. cstr_at m p path \<longrightarrow> list_all2 (cstr_at m) av strs \<longrightarrow> run m p av = exec path strs)"

text \<open>What \<open>execute\<close> returns for a program started with an argument vector.\<close>

definition started :: "(u8 list \<Rightarrow> u8 list list \<Rightarrow> wait_status option) \<Rightarrow> u8 list \<Rightarrow> u8 list list \<Rightarrow> int" where
  "started exec name args =
     (let path = map of_char ''./'' @ name
      in wait_result (case exec path (path # args) of Some st \<Rightarrow> st | None \<Rightarrow> Signaled 9))"

lemma emu_execute_copy:
  assumes "cstr_at m command cs" and "length cs \<le> 1023"
    and apart: "region command (Suc (length cs)) \<inter> region buf 1026 = {}"
  shows "\<exists>m'. ece391_strcpy (m(buf := 46, buf + 1 := 47)) (buf + 2) command = Some m' \<and> cstr_at m' buf (46 # 47 # cs)"
proof -
  let ?m = "m(buf := 46, buf + 1 := 47)"
  have b: "region buf (Suc (Suc (Suc (length cs)))) \<subseteq> region buf 1026" using assms(2) by (intro region_mono) simp
  have reg: "region buf (Suc (Suc (Suc (length cs)))) = {buf, buf + 1} \<union> region (buf + 2) (Suc (length cs))"
    using region_add [of 2 "Suc (length cs)" buf] assms(2) by (simp add: region_2)
  have out: "buf \<notin> region (buf + 2) (Suc (length cs))" "buf + 1 \<notin> region (buf + 2) (Suc (length cs))"
    using region_apart [of 2 "Suc (length cs)" buf] assms(2) by (auto simp: region_2 disjoint_iff)
  have "buf \<notin> region command (Suc (length cs))" "buf + 1 \<notin> region command (Suc (length cs))"
    using apart b reg by auto
  with assms(1) have "cstr_at ?m command cs" by (simp add: cstr_at_upd)
  moreover have "region command (Suc (length cs)) \<inter> region (buf + 2) (Suc (length cs)) = {}"
    using apart b reg by auto
  ultimately obtain m' where m': "strcpy ?m (buf + 2) command = Some m'" "cstr_at m' (buf + 2) cs"
    "\<And>a. a \<notin> region (buf + 2) (Suc (length cs)) \<Longrightarrow> m' a = ?m a"
    using strcpy_copies_string by blast
  have "m' buf = 46" "m' (buf + 1) = 47" using m'(3) out by simp_all
  moreover have "(46 :: u8) \<noteq> 0" "(47 :: u8) \<noteq> 0" by simp_all
  ultimately show ?thesis using m'(1,2) assms(2) by (simp add: strcpy_user cstr_at_Cons add.assoc del: zero_neq_numeral numeral_neq_zero)
qed

lemma emu_execute_words:
  assumes "cstr_at m command cs" "length cs \<le> 1023" "region command (Suc (length cs)) \<inter> region buf 1026 = {}"
    and law: "execv_of_strings run exec"
  shows "emu_execute run m buf command
    = Some (started exec (takeWhile word_char cs) (line_words (drop 1 (dropWhile word_char cs))))"
proof -
  let ?h = "takeWhile word_char cs" and ?t = "dropWhile word_char cs"
  let ?path = "46 # 47 # ?h"
  obtain m1 where m1: "ece391_strcpy (m(buf := 46, buf + 1 := 47)) (buf + 2) command = Some m1"
    and whole: "cstr_at m1 buf (?path @ ?t)" using emu_execute_copy [OF assms(1-3)] by auto
  define p where "p = buf + of_nat (length ?path)"
  have p2: "p = buf + 2 + of_nat (length ?h)" by (simp add: p_def algebra_simps)
  have "cstr_at m1 (buf + 2) cs" using whole by (simp add: cstr_at_Cons algebra_simps)
  then have scan: "scan_word m1 (buf + 2) = Some p" by (simp add: scan_word_cstr p2)
  have tl: "cstr_at m1 p ?t" using cstr_at_append [OF whole] by (simp add: p_def)
  have n: "\<not> 1023 < (of_nat (length cs) :: u32)" using assms(2) by (simp add: word_less_nat_alt)
  have "\<exists>m' ws. (if m1 p \<noteq> 0 then split_line (m1(p := 0)) (p + 1) [buf] else Some (m1, [buf])) = Some (m', buf # ws)
      \<and> cstr_at m' buf ?path \<and> list_all2 (cstr_at m') ws (line_words (drop 1 ?t))"
  proof (cases ?t)
    case Nil
    have "line_words (drop 1 ?t) = []" by (subst Nil) (simp add: line_words.simps)
    moreover from Nil tl have "m1 p = 0" by (simp only: cstr_at_Nil)
    moreover from Nil whole have "cstr_at m1 buf ?path" by (simp only: append_Nil2)
    ultimately show ?thesis by simp
  next
    case (Cons d es)
    have d: "m1 p \<noteq> 0" "cstr_at m1 (p + 1) es" using tl Cons by (auto simp: cstr_at_Cons)
    have "p \<notin> region (p + 1) (Suc (length es))"
      using region_apart [of "Suc 0" "Suc (length es)" p] tl Cons by (auto simp: disjoint_iff cstr_at_def)
    with d have "cstr_at (m1(p := 0)) (p + 1) (drop 1 ?t)" by (simp add: cstr_at_upd Cons)
    from split_line_words [OF this, of "[buf]"] Cons obtain m' ws where
      m': "split_line (m1(p := 0)) (p + 1) [buf] = Some (m', buf # ws)" "list_all2 (cstr_at m') ws (line_words (drop 1 ?t))"
        "\<And>x. x \<notin> region (p + 1) (length es) \<Longrightarrow> m' x = (m1(p := 0)) x" by auto
    have "cstr_at m' buf ?path" by (rule word_split_off(1) [OF whole [unfolded Cons] p_def m'(3)])
    with m' d show ?thesis by auto
  qed
  then obtain m' ws where split: "(if m1 p \<noteq> 0 then split_line (m1(p := 0)) (p + 1) [buf] else Some (m1, [buf])) = Some (m', buf # ws)"
    and args: "cstr_at m' buf ?path" "list_all2 (cstr_at m') (buf # ws) (?path # line_words (drop 1 ?t))" by auto
  have "run m' buf (buf # ws) = exec ?path (?path # line_words (drop 1 ?t))"
    using law args unfolding execv_of_strings_def by blast
  then show ?thesis
    by (simp add: emu_execute_def strlen_user strlen_cstr [OF assms(1)] n m1 scan split started_def Let_def of_char_def)
qed

section \<open>The arguments of a program\<close>

text \<open>
  A line of arguments, separated by single blanks, and what \<open>getargs\<close> returns and writes for a
  buffer of \<open>n\<close> bytes.
\<close>

fun join_args :: "u8 list list \<Rightarrow> u8 list" where
  "join_args [] = []"
| "join_args [a] = a"
| "join_args (a # b # as) = a @ 32 # join_args (b # as)"

fun getargs_bytes :: "u8 list list \<Rightarrow> int \<Rightarrow> int \<times> u8 list" where
  "getargs_bytes [] n = (if n < 1 then (- 1, []) else (0, [0]))"
| "getargs_bytes (a # as) n =
     (let k = n - int (length a)
      in if k < 0 then (- 1, [])
         else if k < 1 then (- 1, a @ [0])
         else if as = [] then (0, a @ [0])
         else case getargs_bytes as (k - 1) of (r, bs) \<Rightarrow> (r, a @ 32 # bs))"

lemma join_args_Cons: "join_args (a # as) = a @ (if as = [] then [] else 32 # join_args as)"
  by (cases as) auto

lemma join_args_concat: "as \<noteq> [] \<Longrightarrow> concat (map ((#) 32) as) = 32 # join_args as"
  by (induction as) (auto simp: join_args_Cons)

lemma getargs_bytes_result: "fst (getargs_bytes as n) = (if int (length (join_args as)) < n then 0 else - 1)"
  by (induction as n rule: getargs_bytes.induct) (auto simp: Let_def join_args_Cons split: prod.splits)

lemma getargs_bytes_joined: "int (length (join_args as)) < n \<Longrightarrow> snd (getargs_bytes as n) = join_args as @ [0]"
  by (induction as n rule: getargs_bytes.induct) (auto simp: Let_def join_args_Cons split: prod.splits if_splits)

lemma getargs_bytes_length: "0 \<le> n \<Longrightarrow> int (length (snd (getargs_bytes as n))) \<le> n + 1"
  by (induction as n rule: getargs_bytes.induct) (auto simp: Let_def split: prod.splits)

text \<open>The byte behind the buffer is written exactly when the first arguments fill it.\<close>

lemma take_join_args:
  "(\<exists>k. 0 < k \<and> k \<le> length (a # as) \<and> P (join_args (take k (a # as)))) \<longleftrightarrow>
     P a \<or> (\<exists>k. 0 < k \<and> k \<le> length as \<and> P (a @ 32 # join_args (take k as)))"
  (is "?l = ?r")
proof
  assume ?l
  then obtain k where "k \<le> length as" "P (join_args (a # take k as))"
    by (metis Suc_le_mono Suc_pred' length_Cons take_Suc_Cons)
  then show ?r by (cases "k = 0"; cases "as = []") (auto simp: join_args_Cons)
next
  assume ?r
  then show ?l
  proof (elim disjE exE conjE)
    assume "P a"
    then show ?l by (intro exI [of _ 1]) simp
  next
    fix k assume "0 < k" "k \<le> length as" "P (a @ 32 # join_args (take k as))"
    then show ?l by (intro exI [of _ "Suc k"]) (auto simp: join_args_Cons)
  qed
qed

lemma getargs_bytes_overrun:
  "0 \<le> n \<Longrightarrow> int (length (snd (getargs_bytes as n))) = n + 1 \<longleftrightarrow>
     (\<exists>k. 0 < k \<and> k \<le> length as \<and> int (length (join_args (take k as))) = n)"
proof (induction as n rule: getargs_bytes.induct)
  case (1 n)
  then show ?case by auto
next
  case (2 a as n)
  have "int (length (snd (getargs_bytes (a # as) n))) = n + 1 \<longleftrightarrow>
      int (length a) = n \<or> (\<exists>k. 0 < k \<and> k \<le> length as \<and> int (length (a @ 32 # join_args (take k as))) = n)"
    using 2 by (auto simp: Let_def algebra_simps split: prod.splits)
  then show ?case by (simp only: take_join_args [where P = "\<lambda>j. int (length j) = n"])
qed

lemma getargs_bytes_last_zero:
  "0 \<le> n \<Longrightarrow> int (length (snd (getargs_bytes as n))) = n + 1 \<Longrightarrow> snd (getargs_bytes as n) ! nat n = 0"
proof (induction as n rule: getargs_bytes.induct)
  case (2 a as n)
  then show ?case by (auto simp: Let_def nth_append nat_diff_distrib' split: prod.splits if_splits)
qed auto

text \<open>
  The argument vector as Linux lays it out for a new program, with entries and strings outside of
  the region \<open>W\<close>.
\<close>

primrec args_in :: "u32 set \<Rightarrow> memory \<Rightarrow> u32 \<Rightarrow> int \<Rightarrow> u8 list list \<Rightarrow> bool" where
  "args_in W m argv i [] \<longleftrightarrow> True"
| "args_in W m argv i (a # as) \<longleftrightarrow>
     cstr_at m (load32 m (argv + 4 * of_int i)) a \<and> region (load32 m (argv + 4 * of_int i)) (Suc (length a)) \<inter> W = {}
     \<and> region (argv + 4 * of_int i) 4 \<inter> W = {} \<and> args_in W m argv (i + 1) as"

lemma args_in_frame:
  assumes "\<And>x. x \<notin> W \<Longrightarrow> m' x = m x"
  shows "args_in W m argv i as \<Longrightarrow> args_in W m' argv i as"
proof (induction as arbitrary: i)
  case (Cons a as)
  let ?e = "argv + 4 * of_int i"
  have "load32 m' ?e = load32 m ?e" using Cons.prems assms by (intro load32_cong) auto
  moreover have "cstr_at m' (load32 m ?e) a = cstr_at m (load32 m ?e) a"
    using Cons.prems assms by (intro cstr_at_cong) (auto simp: disjoint_iff)
  ultimately show ?case using Cons by simp
qed simp

lemma getargs_end_bytes: "getargs_end m buf n = (fst (getargs_bytes [] n), write_bytes m buf (snd (getargs_bytes [] n)))"
  by (simp add: getargs_end_def)

lemma emu_getargs_loop_bytes:
  assumes "args_in W m argv idx as" "argc = idx + int (length as)" "region buf (Suc (nat n)) \<subseteq> W" "0 \<le> n" "n < 2147483648"
    and "\<forall>a \<in> set as. length a < 2147483648"
  shows "emu_getargs_loop m argv argc idx buf n = Some (fst (getargs_bytes as n), write_bytes m buf (snd (getargs_bytes as n)))"
  using assms
proof (induction as arbitrary: m idx buf n)
  case Nil
  then show ?case by (subst emu_getargs_loop.simps) (simp add: getargs_end_bytes)
next
  case (Cons a as)
  let ?s = "load32 m (argv + 4 * of_int idx)" and ?l = "int (length a)"
  have s: "cstr_at m ?s a" "region ?s (Suc (length a)) \<inter> W = {}" using Cons.prems by simp_all
  have len: "sint (of_nat (length a) :: u32) = ?l"
    using Cons.prems(6) sint_of_int32 [of ?l] by simp
  have strlen: "ece391_strlen m ?s = Some (of_nat (length a))" by (simp add: strlen_user strlen_cstr [OF s(1)])
  show ?case
  proof (cases "n < ?l")
    case True
    then show ?thesis using Cons.prems(2) by (subst emu_getargs_loop.simps) (simp add: strlen len)
  next
    case False
    let ?m = "write_bytes m buf (a @ [0])" and ?b = "buf + of_nat (length a)"
    have split: "region buf (Suc (nat n)) = region buf (length a) \<union> region ?b (Suc (nat (n - ?l)))"
      using region_add [of "length a" "Suc (nat (n - ?l))" buf] False Cons.prems(4,5) by (simp add: Suc_nat_eq_nat_zadd1 nat_diff_distrib')
    have W: "region buf (Suc (length a)) \<subseteq> W"
      using Cons.prems(3,4) region_mono [of "Suc (length a)" "Suc (nat n)" buf] False by (auto simp: le_nat_iff)
    then have "region ?s (Suc (length a)) \<inter> region buf (Suc (length a)) = {}" using s(2) by auto
    then have copy: "ece391_strcpy m buf ?s = Some ?m" by (simp add: strcpy_user strcpy_cstr [OF s(1)])
    have cut: "?m(?b := c) = write_bytes m buf (a @ [c])" for c by (simp add: write_bytes_append)
    consider "n = ?l" | "?l < n" "as = []" | "?l < n" "as \<noteq> []" using False by linarith
    then show ?thesis
    proof cases
      case 1
      then show ?thesis using Cons.prems(2) by (subst emu_getargs_loop.simps) (simp add: strlen len copy getargs_end_def Let_def)
    next
      case 2
      then show ?thesis using Cons.prems(2)
        by (subst emu_getargs_loop.simps) (simp add: strlen len copy getargs_end_def cut Let_def)
    next
      case 3
      let ?m' = "write_bytes m buf (a @ [32])"
      have "Suc (nat (n - ?l)) = Suc (Suc (nat (n - ?l - 1)))" using 3 by simp
      then have sub: "region (?b + 1) (Suc (nat (n - ?l - 1))) \<subseteq> W"
        using Cons.prems(3,5) split region_Suc_base [of "Suc (nat (n - ?l - 1))" ?b] by auto
      have "?m' x = m x" if "x \<notin> W" for x
        using that W Cons.prems(6) by (intro write_bytes_outside) auto
      with Cons.prems(1) have "args_in W ?m' argv (idx + 1) as" by (intro args_in_frame [of W ?m' m]) auto
      then have "emu_getargs_loop ?m' argv argc (idx + 1) (?b + 1) (n - ?l - 1)
        = Some (fst (getargs_bytes as (n - ?l - 1)), write_bytes ?m' (?b + 1) (snd (getargs_bytes as (n - ?l - 1))))"
        using Cons.prems sub 3 by (intro Cons.IH) auto
      moreover have "\<not> argc \<le> idx + 1" using 3 Cons.prems(2) by (cases as) auto
      ultimately show ?thesis using 3 Cons.prems(2)
        by (subst emu_getargs_loop.simps)
          (simp add: strlen len copy cut Let_def write_bytes_append add.assoc split: prod.splits)
    qed
  qed
qed

lemma cstr_at_write_bytes:
  assumes "0 \<notin> set xs" "length xs < 4294967296"
  shows "cstr_at (write_bytes m a (xs @ [0])) a xs"
proof -
  have b: "bytes_at (write_bytes m a (xs @ [0])) a (Suc (length xs)) = xs @ [0]"
    using bytes_at_write_bytes [of "xs @ [0]" m a] assms(2) by simp
  show ?thesis using assms b bytes_at_add [of _ a "length xs" "Suc 0"] by (simp add: cstr_at_def bytes_at_Suc)
qed

text \<open>A program started with arguments: \<open>start_esp\<close> points to their number and the vector.\<close>

definition started_with :: "u32 set \<Rightarrow> memory \<Rightarrow> u32 \<Rightarrow> u8 list \<Rightarrow> u8 list list \<Rightarrow> bool" where
  "started_with W m esp name args \<longleftrightarrow>
     load32 m esp = of_nat (Suc (length args)) \<and> args_in W m (esp + 4) 0 (name # args)
     \<and> length args < 2147483647 \<and> (\<forall>a \<in> set args. length a < 2147483648)"

lemma nat_sint_unat: "0 \<le> sint (n :: u32) \<Longrightarrow> nat (sint n) = unat n"
  using uint_of_int32 [of "sint n"] sint_less [of n] by (simp add: unat_eq_nat_uint)

lemma emu_getargs_bytes:
  assumes "started_with W m esp name args" "region buf (Suc (unat n)) \<subseteq> W" "0 \<le> sint n"
  shows "emu_getargs m esp buf n
    = Some (fst (getargs_bytes args (sint n)), write_bytes m buf (snd (getargs_bytes args (sint n))))"
proof -
  have n: "nat (sint n) = unat n" using assms(3) by (simp add: nat_sint_unat)
  have argc: "sint (load32 m esp) = 1 + int (length args)"
    using assms(1) sint_of_int32 [of "1 + int (length args)"] by (simp add: started_with_def)
  have "sint n < 2147483648" using sint_less [of n] by simp
  then show ?thesis
    using assms n argc unfolding emu_getargs_def started_with_def
    by (intro emu_getargs_loop_bytes [where W = W]) auto
qed

lemma started_with_frame:
  assumes "started_with W m esp name args" "region esp 4 \<inter> W = {}" "\<And>x. x \<notin> W \<Longrightarrow> m' x = m x"
  shows "started_with W m' esp name args"
proof -
  have "load32 m' esp = load32 m esp" using assms(2,3) by (intro load32_cong) auto
  with assms(1,3) show ?thesis unfolding started_with_def by (blast intro: args_in_frame trans)
qed

section \<open>Words of a line of arguments\<close>

lemma line_words_join: "\<forall>a \<in> set as. a \<noteq> [] \<and> list_all word_char a \<Longrightarrow> line_words (join_args as) = as"
proof (induction as)
  case Nil
  show ?case by (simp add: line_words.simps)
next
  case (Cons a as)
  then obtain c ds where a: "a = c # ds" "word_char c" "list_all word_char ds" by (cases a) auto
  let ?t = "if as = [] then [] else 32 # join_args as"
  have "join_args (a # as) = c # ds @ ?t" by (simp add: join_args_Cons a(1))
  moreover have "c \<noteq> 32" "c \<noteq> 10" using a(2) by (auto simp: word_char_def)
  moreover have "\<not> word_char 32" by (simp add: word_char_def)
  then have "takeWhile word_char (ds @ ?t) = ds" "dropWhile word_char (ds @ ?t) = ?t"
    using a(3) by (auto simp: list_all_iff takeWhile_append dropWhile_append)
  ultimately have "line_words (join_args (a # as)) = a # line_words (drop 1 ?t)"
    by (subst line_words.simps) (simp add: a(1,2))
  with Cons show ?case by (auto simp: line_words.simps)
qed

section \<open>A directory, entry by entry\<close>

text \<open>
  \<open>readdir\<close> walks through the entries of a directory stream: \<open>entries h d\<close> are those still to come.
\<close>

definition readdir_walks :: "'h linux \<Rightarrow> ('h \<Rightarrow> u32 \<Rightarrow> u8 list list) \<Rightarrow> bool" where
  "readdir_walks H entries \<longleftrightarrow>
     (\<forall>h d. case entries h d of
        [] \<Rightarrow> fst (libc_readdir H d h) = None \<and> entries (snd (libc_readdir H d h)) d = []
      | e # es \<Rightarrow> fst (libc_readdir H d h) = Some e \<and> entries (snd (libc_readdir H d h)) d = es)"

lemma readdir_end:
  "readdir_walks H entries \<Longrightarrow> entries h d = [] \<Longrightarrow> \<exists>h'. libc_readdir H d h = (None, h') \<and> entries h' d = []"
  unfolding readdir_walks_def
  by (drule spec [of _ h], drule spec [of _ d], cases "libc_readdir H d h") simp

lemma readdir_next:
  "readdir_walks H entries \<Longrightarrow> entries h d = e # es \<Longrightarrow> \<exists>h'. libc_readdir H d h = (Some e, h') \<and> entries h' d = es"
  unfolding readdir_walks_def
  by (drule spec [of _ h], drule spec [of _ d], cases "libc_readdir H d h") simp

text \<open>A number of reads in a row: the result of each and the bytes it returned.\<close>

primrec emu_reads :: "'h linux \<Rightarrow> u32 \<Rightarrow> u32 \<Rightarrow> u32 \<Rightarrow> nat \<Rightarrow> 'h emu_state \<Rightarrow> (u32 \<times> u8 list) list" where
  "emu_reads H fd buf n 0 s = []"
| "emu_reads H fd buf n (Suc k) s =
     (let (r, t) = emu_read H fd buf n s
      in (r, bytes_at (emem t) buf (unat r)) # emu_reads H fd buf n k t)"

lemma emu_read_entry:
  assumes "emu_dir s \<noteq> 0" "emu_dir_fd s = fd" "libc_readdir H (emu_dir s) (ehost s) = (Some e, h)" "1 \<le> sint n"
  shows "emu_read H fd buf n s
    = (of_int (min (sint n) 32), s\<lparr>emem := write_bytes (emem s) buf (padded_name (sint n) e), ehost := h\<rparr>)"
  using assms by (simp add: emu_read_def copy_name_pads padded_name_def)

text \<open>A read of no bytes still writes up to 32 of them.\<close>

lemma emu_read_entry_no_bytes:
  assumes "emu_dir s \<noteq> 0" "emu_dir_fd s = fd" "libc_readdir H (emu_dir s) (ehost s) = (Some e, h)" "sint n \<le> 0"
  shows "emu_read H fd buf n s
    = (of_int (min (int (length e)) 32), s\<lparr>emem := write_bytes (emem s) buf (take 32 e), ehost := h\<rparr>)"
  using assms by (simp add: emu_read_def copy_name_overruns)

lemma length_padded_name: "1 \<le> n \<Longrightarrow> length (padded_name n e) = nat (min n 32)"
  by (simp add: padded_name_def)

lemma unat_entry_size: "1 \<le> n \<Longrightarrow> unat (of_int (min n 32) :: u32) = nat (min n 32)"
  using uint_of_int32 [of "min n 32"] by (simp add: unat_eq_nat_uint)

lemma emu_reads_end:
  "readdir_walks H entries \<Longrightarrow> emu_dir s \<noteq> 0 \<Longrightarrow> emu_dir_fd s = fd \<Longrightarrow> entries (ehost s) (emu_dir s) = [] \<Longrightarrow>
     emu_reads H fd buf n k s = replicate k (0, [])"
proof (induction k arbitrary: s)
  case (Suc k)
  obtain h where h: "libc_readdir H (emu_dir s) (ehost s) = (None, h)" "entries h (emu_dir s) = []"
    using readdir_end [OF Suc.prems(1,4)] by auto
  then show ?case using Suc by (simp add: emu_read_def)
qed simp

lemma emu_reads_entries:
  assumes "readdir_walks H entries" "1 \<le> sint n"
  shows "emu_dir s \<noteq> 0 \<Longrightarrow> emu_dir_fd s = fd \<Longrightarrow> entries (ehost s) (emu_dir s) = es \<Longrightarrow>
     emu_reads H fd buf n (length es + k) s
       = map (\<lambda>e. (of_int (min (sint n) 32), padded_name (sint n) e)) es @ replicate k (0, [])"
proof (induction es arbitrary: s)
  case Nil
  then show ?case using assms(1) by (simp add: emu_reads_end)
next
  case (Cons e es)
  obtain h where h: "libc_readdir H (emu_dir s) (ehost s) = (Some e, h)" "entries h (emu_dir s) = es"
    using readdir_next [OF assms(1) Cons.prems(3)] by auto
  let ?t = "s\<lparr>emem := write_bytes (emem s) buf (padded_name (sint n) e), ehost := h\<rparr>"
  have "bytes_at (emem ?t) buf (nat (min (sint n) 32)) = padded_name (sint n) e"
    using bytes_at_write_bytes [of "padded_name (sint n) e" "emem s" buf] assms(2) by (simp add: length_padded_name)
  then show ?case
    using Cons.IH [of ?t] Cons.prems h assms(2) by (simp add: emu_read_entry unat_entry_size)
qed

section \<open>A machine for the examples\<close>

text \<open>A program started as \<open>./c a\<close>, with its vector at \<open>0x100\<close>.\<close>

definition demo_started :: memory where
  "demo_started = (\<lambda>_. 0)(0x100 := 2, 0x105 := 2, 0x108 := 0x10, 0x109 := 2,
     0x200 := 46, 0x201 := 47, 0x202 := 99, 0x210 := 97)"

lemma demo_started_with:
  assumes "k \<le> 16"
  shows "started_with (region 0x800 k) demo_started 0x100 (map of_char ''./'' @ [99]) [[97]]"
proof -
  have l: "load32 demo_started 0x100 = 2" "load32 demo_started 0x104 = 0x200" "load32 demo_started 0x108 = 0x210"
    by (simp_all add: load32_def demo_started_def)
  have "region 0x104 4 \<inter> region 0x800 k = {}" "region 0x108 4 \<inter> region 0x800 k = {}"
    "region 0x200 (Suc (length [46 :: u8, 47, 99])) \<inter> region 0x800 k = {}" "region 0x210 (Suc (length [97 :: u8])) \<inter> region 0x800 k = {}"
    using assms by (intro region_disjoint; simp)+
  moreover have "cstr_at demo_started 0x200 [46, 47, 99]" "cstr_at demo_started 0x210 [97]"
    by (simp_all add: cstr_at_Cons demo_started_def)
  ultimately show ?thesis
    by (simp add: started_with_def l)
qed

section \<open>Properties\<close>

text \<open>
  C26: the arguments survive the way through \<open>execute\<close> and \<open>getargs\<close>. A command line with the name
  of a program and arguments separated by blanks starts \<open>./name\<close> with these words as its argument
  vector, and \<open>execute\<close> returns what becomes of it; in the program that Linux starts with this
  vector, \<open>getargs\<close> returns 0 and leaves the same line of arguments, terminated, whenever the buffer
  holds it, and \<open>-1\<close> otherwise.
\<close>

theorem emulated_arguments_roundtrip:
  assumes words: "\<forall>a \<in> set args. a \<noteq> [] \<and> list_all word_char a" "list_all word_char name"
    and line: "cstr_at m command (name @ concat (map ((#) 32) args))" "length (name @ concat (map ((#) 32) args)) \<le> 1023"
    and apart: "region command 1024 \<inter> region stack_buf 1026 = {}"
    and law: "execv_of_strings run exec"
    and new: "started_with (region buf (Suc (unat n))) m1 esp (map of_char ''./'' @ name) args" "0 \<le> sint n"
  shows "emu_execute run m stack_buf command = Some (started exec name args)
    \<and> (\<exists>m2. emu_getargs m1 esp buf n = Some (if int (length (join_args args)) < sint n then 0 else - 1, m2)
        \<and> (int (length (join_args args)) < sint n \<longrightarrow> cstr_at m2 buf (join_args args)))"
proof
  let ?t = "concat (map ((#) 32) args)"
  have t: "?t = (if args = [] then [] else 32 # join_args args)" by (simp add: join_args_concat)
  have "\<not> word_char 32" by (simp add: word_char_def)
  then have "takeWhile word_char (name @ ?t) = name \<and> dropWhile word_char (name @ ?t) = ?t"
    using words(2) unfolding t by (auto simp: list_all_iff takeWhile_append dropWhile_append)
  then have "takeWhile word_char (name @ ?t) = name \<and> line_words (drop 1 (dropWhile word_char (name @ ?t))) = args"
    using line_words_join [OF words(1)] t by (auto simp: line_words.simps [of "[]"])
  moreover have "region command (Suc (length (name @ ?t))) \<inter> region stack_buf 1026 = {}"
    using apart region_mono [of "Suc (length (name @ ?t))" 1024 command] line(2) by auto
  ultimately show "emu_execute run m stack_buf command = Some (started exec name args)"
    using emu_execute_words [OF line _ law] by simp
  have no0: "0 \<notin> set (join_args args)"
    using words(1) by (induction args) (auto simp: join_args_Cons list_all_iff word_char_def)
  show "\<exists>m2. emu_getargs m1 esp buf n = Some (if int (length (join_args args)) < sint n then 0 else - 1, m2)
        \<and> (int (length (join_args args)) < sint n \<longrightarrow> cstr_at m2 buf (join_args args))"
    using emu_getargs_bytes [OF new(1) order.refl new(2)] sint_less [of n]
    by (auto simp: getargs_bytes_result getargs_bytes_joined cstr_at_write_bytes no0)
qed

theorem emulated_arguments_roundtrip_witness:
  "emu_execute (\<lambda>_ _ av. Some (Exited (of_nat (length av)))) (write_bytes (\<lambda>_. 0) 0x1000 [99, 32, 97]) 0x5000 0x1000 = Some 2
   \<and> (\<exists>m2. emu_getargs demo_started 0x100 0x800 4 = Some (0, m2) \<and> cstr_at m2 0x800 [97])"
proof -
  have law: "execv_of_strings (\<lambda>_ _ av. Some (Exited (of_nat (length av)))) (\<lambda>_ strs. Some (Exited (of_nat (length strs))))"
    by (auto simp: execv_of_strings_def dest: list_all2_lengthD)
  have "cstr_at (write_bytes (\<lambda>_. 0) 0x1000 [99, 32, 97]) 0x1000 ([99] @ concat (map ((#) 32) [[97]]))"
    by (simp add: cstr_at_Cons)
  moreover have "region 0x1000 1024 \<inter> region 0x5000 1026 = {}" by (rule region_disjoint) simp_all
  moreover have "started_with (region 0x800 (Suc (unat (4 :: u32)))) demo_started 0x100 (map of_char ''./'' @ [99]) [[97]]"
    by (rule demo_started_with) simp
  ultimately show ?thesis
    using emulated_arguments_roundtrip [where args = "[[97]]" and name = "[99]" and n = 4, OF _ _ _ _ _ law]
    by (simp add: word_char_def started_def wait_result_def)
qed

text \<open>
  C27: \<open>getargs\<close> may write one byte behind the buffer. With a buffer of \<open>n\<close> bytes it writes at most
  \<open>n + 1\<close>; when the byte behind the buffer was not zero, it becomes zero exactly when the first few
  arguments, separated by blanks, are \<open>n\<close> bytes long, and then \<open>getargs\<close> reports failure.
\<close>

theorem emulated_getargs_overruns:
  assumes new: "started_with (region buf (Suc (unat n))) m esp name args" "0 \<le> sint n"
    and behind: "m (buf + n) \<noteq> 0"
  shows "\<exists>r m'. emu_getargs m esp buf n = Some (r, m') \<and> (\<forall>x. x \<notin> region buf (Suc (unat n)) \<longrightarrow> m' x = m x)
    \<and> (m' (buf + n) = 0 \<longleftrightarrow> (\<exists>k. 0 < k \<and> k \<le> length args \<and> length (join_args (take k args)) = unat n))
    \<and> (m' (buf + n) = 0 \<longrightarrow> r = - 1)"
proof -
  let ?n = "sint n" and ?bs = "snd (getargs_bytes args (sint n))"
  have n: "?n = int (unat n)" using nat_sint_unat [OF new(2)] new(2) by (metis int_nat_eq)
  have len: "int (length ?bs) \<le> ?n + 1" using getargs_bytes_length [OF new(2)] .
  have short: "length ?bs \<le> 4294967296" using len sint_less [of n] by simp
  let ?m = "write_bytes m buf ?bs"
  have frame: "?m x = m x" if "x \<notin> region buf (length ?bs)" for x
    using that short by (intro write_bytes_outside)
  have "length ?bs \<le> Suc (unat n)" using len n by linarith
  then have "?m x = m x" if "x \<notin> region buf (Suc (unat n))" for x
    using that region_mono [of "length ?bs" "Suc (unat n)" buf] by (intro frame) auto
  moreover have last: "?m (buf + n) = 0 \<longleftrightarrow> int (length ?bs) = ?n + 1"
  proof
    assume full: "int (length ?bs) = ?n + 1"
    have "bytes_at ?m buf (length ?bs) = ?bs" by (rule bytes_at_write_bytes [OF short])
    then have "?m (buf + of_nat (nat ?n)) = ?bs ! nat ?n" using full new(2) nth_bytes_at [of "nat ?n" "length ?bs" ?m buf] by simp
    then show "?m (buf + n) = 0" using getargs_bytes_last_zero [OF new(2) full] by (simp add: n)
  next
    assume "?m (buf + n) = 0"
    then have "buf + n \<in> region buf (length ?bs)" using frame [of "buf + n"] behind by auto
    then have "unat n < length ?bs" by (simp add: region_def)
    then show "int (length ?bs) = ?n + 1" using len n by linarith
  qed
  moreover have "?m (buf + n) = 0 \<longrightarrow> fst (getargs_bytes args ?n) = - 1"
    using last getargs_bytes_result [of args ?n] getargs_bytes_joined [of args ?n] by (auto split: if_splits)
  moreover have "emu_getargs m esp buf n = Some (fst (getargs_bytes args ?n), ?m)"
    by (rule emu_getargs_bytes [OF new(1) order.refl new(2)])
  ultimately show ?thesis
    using getargs_bytes_overrun [OF new(2), of args] by (auto simp only: n of_nat_eq_iff)
qed

theorem emulated_getargs_overruns_witness:
  "\<exists>m'. emu_getargs (demo_started(0x801 := 7)) 0x100 0x800 1 = Some (- 1, m') \<and> m' 0x801 = 0"
proof -
  have "started_with (region 0x800 (Suc (unat (1 :: u32)))) (demo_started(0x801 := 7)) 0x100 (map of_char ''./'' @ [99]) [[97]]"
  proof (rule started_with_frame [OF demo_started_with])
    show "region 0x100 4 \<inter> region 0x800 (Suc (unat (1 :: u32))) = {}" by (rule region_disjoint) simp_all
  qed (auto simp: region_2 numeral_2_eq_2 [symmetric])
  from emulated_getargs_overruns [OF this] obtain r m' where
    g: "emu_getargs (demo_started(0x801 := 7)) 0x100 0x800 1 = Some (r, m')"
      "m' 0x801 = 0 \<longleftrightarrow> (\<exists>k. 0 < k \<and> k \<le> length [[97 :: u8]] \<and> length (join_args (take k [[97 :: u8]])) = unat (1 :: u32))"
      "m' 0x801 = 0 \<Longrightarrow> r = - 1" by auto
  have "0 < (1 :: nat) \<and> 1 \<le> length [[97 :: u8]] \<and> length (join_args (take 1 [[97 :: u8]])) = unat (1 :: u32)" by simp
  with g(2) have "m' 0x801 = 0" by blast
  with g show ?thesis by simp
qed

text \<open>
  C13: reading a directory through the emulated calls. After \<open>open\<close> of \<open>"."\<close>, reads of \<open>n\<close> bytes, for \<open>n\<close> at least 1, return
  the entries in the order of
  \<open>readdir\<close>, each name cut off or padded with NULs to the smaller of \<open>n\<close> and 32 bytes, then 0 for
  ever; a write fails, and after \<open>close\<close> the descriptor belongs to Linux again. Of Linux it is
  assumed that \<open>opendir\<close> and the \<open>open\<close> of \<open>/dev/null\<close> return something and that \<open>readdir\<close> goes through the entries of a stream one by one.
\<close>

theorem emulated_directory_listing:
  assumes walks: "readdir_walks H entries" and "cstr_at (emem s) filename (map of_char ''.'')" and n: "1 \<le> sint n"
    and dir: "libc_opendir H (map of_char ''.'') (ehost s) = (d, h)" "d \<noteq> 0"
    and null: "libc_open H (map of_char ''/dev/null'') 0 h = (fd, h')" and es: "entries h' d = es"
  shows "\<exists>t. emu_open H filename s = Some (fd, t)
    \<and> emu_reads H fd buf n (length es + k) t
        = map (\<lambda>e. (of_int (min (sint n) 32), padded_name (sint n) e)) es @ replicate k (0, [])
    \<and> emu_write H fd b l t = (- 1, t)
    \<and> (let (r, u) = emu_close H g1 g2 fd t in r = 0 \<and> emu_read H fd buf n u = linux_read H fd buf n u)"
proof -
  let ?t = "s\<lparr>emu_dir := d, emu_dir_fd := fd, ehost := h'\<rparr>"
  have "cstr_at lit_dot 0 (map of_char ''.'')" by (simp add: lit_dot_def cstr_at_Cons)
  from strcmp_user [OF assms(2) this] have "emu_open H filename s = Some (fd, ?t)"
    using dir(1) null by (auto simp: emu_open_def)
  moreover have "emu_reads H fd buf n (length es + k) ?t
      = map (\<lambda>e. (of_int (min (sint n) 32), padded_name (sint n) e)) es @ replicate k (0, [])"
    using dir(2) es by (intro emu_reads_entries [OF walks n]) simp_all
  ultimately show ?thesis
    using dir(2) by (intro exI [of _ ?t]) (simp add: emu_write_def emu_close_def emu_read_def Let_def)
qed

text \<open>A Linux whose one directory stream is what the rest of the world consists of.\<close>

definition demo_linux :: "u8 list list linux" where
  "demo_linux = \<lparr>int80 = \<lambda>_ _ m h. (0, m, h), libc_opendir = \<lambda>_ _. (1, [[97], [98]]),
     libc_readdir = \<lambda>_ h. case h of [] \<Rightarrow> (None, []) | e # es \<Rightarrow> (Some e, es), libc_closedir = \<lambda>_ h. h,
     libc_open = \<lambda>_ _ h. (5, h), libc_close = \<lambda>_ h. h, libc_mmap = \<lambda>_ _ _ h. (0, h), libc_perror = \<lambda>_ h. h\<rparr>"

theorem emulated_directory_listing_witness:
  "\<exists>t. emu_open demo_linux 0 (emu_init lit_dot []) = Some (5, t)
     \<and> emu_reads demo_linux 5 0x800 2 3 t = [(2, [97, 0]), (2, [98, 0]), (0, [])]"
proof -
  have "readdir_walks demo_linux (\<lambda>h _. h)"
    by (auto simp: readdir_walks_def demo_linux_def split: list.split)
  moreover have "cstr_at (emem (emu_init lit_dot [])) 0 (map of_char ''.'')" by (simp add: emu_init_def lit_dot_def cstr_at_Cons)
  moreover have "libc_opendir demo_linux (map of_char ''.'') (ehost (emu_init lit_dot [])) = (1, [[97], [98]])"
    "libc_open demo_linux (map of_char ''/dev/null'') 0 [[97], [98]] = (5, [[97], [98]])" by (simp_all add: demo_linux_def)
  ultimately have "\<exists>t. emu_open demo_linux 0 (emu_init lit_dot []) = Some (5, t)
      \<and> emu_reads demo_linux 5 0x800 2 (length [[97 :: u8], [98]] + 1) t
        = map (\<lambda>e. (of_int (min (sint (2 :: u32)) 32), padded_name (sint (2 :: u32)) e)) [[97], [98]] @ replicate 1 (0, [])"
    using emulated_directory_listing [where H = demo_linux and entries = "\<lambda>h _. h" and s = "emu_init lit_dot []" and filename = 0
        and n = 2 and d = 1 and h = "[[97], [98]]" and fd = 5 and h' = "[[97], [98]]" and es = "[[97], [98]]" and k = 1 and buf = "0x800"]
    by fastforce
  then show ?thesis by (simp add: padded_name_def numeral_2_eq_2 numeral_3_eq_3 del: emu_reads.simps)
qed

end
