(* ===== verification/Self_Tests.thy ===== *)
theory Self_Tests
  imports Format Keyboard_Handler
begin

text \<open>
  The self tests of the kernel (\<open>tests.c\<close>, and the two at the end of \<open>filesys_read.c\<close>), which
  \<open>launch_tests\<close> calls none of: their results on the model of the kernel they test.
\<close>

section \<open>The tests of interrupts and paging\<close>

text \<open>\<open>PASS\<close> is 1 and \<open>FAIL\<close> is 0. A test returns a value, or ends in the routine of an
  exception, which spins, or in a shell that a key has started.\<close>

datatype 's test_end =
    Finished int 's
  | Spins 's
  | Entered int u32 's

text \<open>The header of a test with its name and line; the strings of \<open>%s\<close> are literals.\<close>

definition TEST_HEADER :: "string \<Rightarrow> u32 \<Rightarrow> memory \<Rightarrow> 'a screen_state_scheme \<Rightarrow> 'a screen_state_scheme option" where
  "TEST_HEADER fn line stack s =
     printk ''%d\<newline>'' [line] stack (print_lit (''[TEST '' @ fn @ ''] Running '' @ fn @ '' at tests.c:'') s)"

definition TEST_OUTPUT :: "string \<Rightarrow> int \<Rightarrow> 'a screen_state_scheme \<Rightarrow> 'a screen_state_scheme" where
  "TEST_OUTPUT name result s =
     print_lit (''[TEST '' @ name @ ''] Result = '' @ (if result \<noteq> 0 then ''PASS'' else ''FAIL'') @ ''\<newline>'') s"

text \<open>The processor enters the exception routine whose address is in gate \<open>n\<close>.\<close>

definition raise_exception :: "(handler \<Rightarrow> u32) \<Rightarrow> nat \<Rightarrow> 'a idt_state_scheme \<Rightarrow> 'a idt_state_scheme test_end option" where
  "raise_exception addr n s =
     map_option (\<lambda>i. Spins ((exception_handlers ! i) s)) (find (\<lambda>i. addr (exceptions ! i) = g_offset (decode (idt s n))) [0..<20])"

definition assertion_failure :: "(handler \<Rightarrow> u32) \<Rightarrow> 'a idt_state_scheme \<Rightarrow> 'a idt_state_scheme test_end option" where
  "assertion_failure addr s = raise_exception addr 15 s"

definition idt_test :: "(handler \<Rightarrow> u32) \<Rightarrow> memory \<Rightarrow> 'a idt_state_scheme \<Rightarrow> 'a idt_state_scheme test_end option" where
  "idt_test addr stack s =
     do { s \<leftarrow> TEST_HEADER ''idt_test'' 39 stack s;
          if \<exists>i\<in>set [0..<10]. get_field offset_15_00 (val0 (idt s i)) = 0 \<and> get_field offset_31_16 (val1 (idt s i)) = 0
          then assertion_failure addr s else Some (Finished 1 s) }"

definition exception_de_test :: "(handler \<Rightarrow> u32) \<Rightarrow> memory \<Rightarrow> 'a idt_state_scheme \<Rightarrow> 'a idt_state_scheme test_end option" where
  "exception_de_test addr stack s =
     do { s \<leftarrow> TEST_HEADER ''exception_de_test'' 67 stack s;
          let a = (1 :: int); b = (0 :: int) in if b = 0 then raise_exception addr 0 s else Some (Finished 1 s) }"

text \<open>\<open>int $33\<close> is not an exception: it is the vector of the keyboard.\<close>

definition exception_test ::
  "(handler \<Rightarrow> u32) \<Rightarrow> layout \<Rightarrow> device \<Rightarrow> memory \<Rightarrow> u32 \<times> u32 \<Rightarrow> 'a idt_state_scheme \<Rightarrow> 'a idt_state_scheme test_end option" where
  "exception_test addr L dev stack regs s =
     do { s \<leftarrow> TEST_HEADER ''exception_test'' 84 stack s;
          if g_offset (decode (idt s 33)) = addr Keyboard_handler_asm
          then do {
            (k, s) \<leftarrow> keyboard_handler L dev stack regs s;
            Some (case k of Shell pid eip \<Rightarrow> Entered pid eip s | _ \<Rightarrow> Finished 1 s) }
          else raise_exception addr 33 s }"

text \<open>An access to four bytes, \<open>None\<close> when a page is not mapped.\<close>

definition deref :: "layout \<Rightarrow> 'a paging_state_scheme \<Rightarrow> u32 \<Rightarrow> u32 option" where
  "deref L s a = (if \<forall>i\<in>set [0..<4]. translate L s (a + of_nat i) \<noteq> None then Some (load32 (view L s) a) else None)"

definition page_nofault_test :: "(handler \<Rightarrow> u32) \<Rightarrow> layout \<Rightarrow> memory \<Rightarrow> 'a idt_state_scheme \<Rightarrow> 'a idt_state_scheme test_end option" where
  "page_nofault_test addr L stack s =
     do { s \<leftarrow> TEST_HEADER ''page_nofault_test'' 102 stack s;
          case deref L s 0xB8000 of None \<Rightarrow> raise_exception addr 14 s
          | Some v \<Rightarrow> do { s \<leftarrow> printk ''%d\<newline>'' [v] stack s; Some (Finished 1 s) } }"

definition page_fault_test :: "(handler \<Rightarrow> u32) \<Rightarrow> layout \<Rightarrow> memory \<Rightarrow> 'a idt_state_scheme \<Rightarrow> 'a idt_state_scheme test_end option" where
  "page_fault_test addr L stack s =
     do { s \<leftarrow> TEST_HEADER ''page_fault_test'' 123 stack s;
          case deref L s 0 of None \<Rightarrow> raise_exception addr 14 s
          | Some v \<Rightarrow> do { s \<leftarrow> printk ''%d\<newline>'' [v] stack s; Some (Finished 0 s) } }"

definition page_nofault_test_b5 :: "layout \<Rightarrow> memory \<Rightarrow> 'a sys_state_scheme \<Rightarrow> (int \<times> 'a sys_state_scheme) option" where
  "page_nofault_test_b5 L stack s =
     do { s \<leftarrow> TEST_HEADER ''page_nofault_test_b5'' 515 stack s;
          let s = clear s;
          let s = pid_page_map 0 s;
          s \<leftarrow> store_bytes L 0x8048000 (le_bytes 5) s;
          let s = pid_page_map 1 s;
          s \<leftarrow> store_bytes L 0x8048000 (le_bytes 6) s;
          let s = pid_page_map 0 s;
          v \<leftarrow> deref L s 0x8048000;
          s \<leftarrow> printk ''%d\<newline>'' [v] stack s;
          Some (1, s) }"

section \<open>The tests of the clock\<close>

text \<open>Called once per interrupt, when the call in the handler is enabled. \<open>RTC_ctr\<close> is an \<open>int\<close>.\<close>

definition RTC_test :: "memory \<Rightarrow> 'a screen_state_scheme \<Rightarrow> 'a screen_state_scheme option" where
  "RTC_test stack s =
     do { s \<leftarrow> (if RTC_ctr s = 11 then TEST_HEADER ''RTC_test'' 145 stack s else Some s);
          s \<leftarrow> (if sint (RTC_ctr s) < 25 \<and> sint (RTC_ctr s) \<ge> 10
               then printk ''Interrupt no. %d\<newline>'' [RTC_ctr s - 10] stack s else Some s);
          Some (if RTC_ctr s = 25 then print_lit ''This is the 15th successful interrupt, end of test.'' s else s) }"

text \<open>
  The loops that run until the counter reaches a bound: after each turn the next element of the
  list runs, an interrupt handler or the identity; \<open>None\<close> when the list ends before the loop does.
\<close>

primrec tick_loop ::
  "int \<Rightarrow> ('a screen_state_scheme \<Rightarrow> 'a screen_state_scheme option) \<Rightarrow> ('a screen_state_scheme \<Rightarrow> 'a screen_state_scheme) list
   \<Rightarrow> 'a screen_state_scheme \<Rightarrow> (('a screen_state_scheme \<Rightarrow> 'a screen_state_scheme) list \<times> 'a screen_state_scheme) option" where
  "tick_loop bound body [] s = (if sint (RTC_ctr s) < bound then None else Some ([], s))"
| "tick_loop bound body (h # hs) s =
     (if sint (RTC_ctr s) < bound then do { s \<leftarrow> body s; tick_loop bound body hs (h s) } else Some (h # hs, s))"

text \<open>The array \<open>filename\<close> of one word, and the body of a loop that prints the counter.\<close>

definition local_word :: "u32 \<Rightarrow> memory" where
  "local_word v = store32 (\<lambda>_. 0) 4 v"

definition RTC_freq_test ::
  "device \<Rightarrow> memory \<Rightarrow> ('a screen_state_scheme \<Rightarrow> 'a screen_state_scheme) list \<Rightarrow> 'a screen_state_scheme \<Rightarrow> (int \<times> 'a screen_state_scheme) option" where
  "RTC_freq_test dev stack hs s =
     do { (hs, s) \<leftarrow> tick_loop 5 Some hs s;
          let s = clear s;
          (hs, s) \<leftarrow> tick_loop 10 (\<lambda>s. printk ''Interrupting at 2Hz. Interrupt number: %d\<newline>'' [RTC_ctr s] stack s) hs s;
          let s = clear s;
          let s = snd (rtc_write dev (local_word 16) 4 4 s);
          (hs, s) \<leftarrow> tick_loop 50 (\<lambda>s. printk ''Interrupt at 16Hz due to write(): %d\<newline>'' [RTC_ctr s] stack s) hs s;
          let s = clear s;
          let s = snd (rtc_write dev (local_word 64) 4 4 s);
          (hs, s) \<leftarrow> tick_loop 200 (\<lambda>s. printk ''Interrupt at 64Hz due to write(): %d\<newline>'' [RTC_ctr s] stack s) hs s;
          let s = clear s;
          let s = snd (rtc_write dev (local_word 512) 4 4 s);
          (hs, s) \<leftarrow> tick_loop 2000 (\<lambda>s. printk ''Interrupt at 512Hz due to write(): %d\<newline>'' [RTC_ctr s] stack s) hs s;
          let s = clear s;
          let s = snd (rtc_write dev (local_word 1024) 4 4 s);
          (hs, s) \<leftarrow> tick_loop 4000 (\<lambda>s. printk ''Interrupt at 1024Hz due to write(): %d\<newline>'' [RTC_ctr s] stack s) hs s;
          let s = clear s;
          let s = snd (rtc_open dev s);
          (hs, s) \<leftarrow> tick_loop 4010 (\<lambda>s. printk ''Interrupting back to 2 Hz after open(): %d\<newline>'' [RTC_ctr s] stack s) hs s;
          s \<leftarrow> TEST_HEADER ''RTC_freq_test'' 247 stack (clear s);
          Some (1, s) }"

definition RTC_valid_size_test :: "device \<Rightarrow> memory \<Rightarrow> 'a screen_state_scheme \<Rightarrow> (int \<times> 'a screen_state_scheme) option" where
  "RTC_valid_size_test dev stack s =
     do { s \<leftarrow> TEST_HEADER ''RTC_valid_size_test'' 263 stack s;
          let (r, s) = rtc_write dev (local_word 16) 4 4 s;
          Some (if r = 4 then 1 else 0, s) }"

definition RTC_invalid_size_test :: "device \<Rightarrow> memory \<Rightarrow> 'a screen_state_scheme \<Rightarrow> (int \<times> 'a screen_state_scheme) option" where
  "RTC_invalid_size_test dev stack s =
     do { s \<leftarrow> TEST_HEADER ''RTC_invalid_size_test'' 287 stack s;
          let (r, s) = rtc_write dev (local_word 16) 4 5 s;
          Some (if r = -1 then 1 else 0, s) }"

definition RTC_empty_buf_test :: "device \<Rightarrow> memory \<Rightarrow> memory \<Rightarrow> 'a screen_state_scheme \<Rightarrow> (int \<times> 'a screen_state_scheme) option" where
  "RTC_empty_buf_test dev m stack s =
     do { s \<leftarrow> TEST_HEADER ''RTC_empty_buf_test'' 311 stack s;
          let (r, s) = rtc_write dev m 0 4 s;
          Some (if r = -1 then 1 else 0, s) }"

text \<open>The loop over the values: \<open>i\<close> is the index, and only the first two values must be refused.\<close>

primrec base_2_loop :: "device \<Rightarrow> nat \<Rightarrow> u32 list \<Rightarrow> 'a screen_state_scheme \<Rightarrow> int \<times> 'a screen_state_scheme" where
  "base_2_loop dev i [] s = (1, s)"
| "base_2_loop dev i (v # vs) s =
     (let (r, s) = rtc_write dev (local_word v) 4 4 s
      in if r = -1 \<and> i > 1 then (0, s) else if r = 4 \<and> i \<le> 1 then (0, s) else base_2_loop dev (i + 1) vs s)"

definition RTC_base_2_test :: "device \<Rightarrow> memory \<Rightarrow> 'a screen_state_scheme \<Rightarrow> (int \<times> 'a screen_state_scheme) option" where
  "RTC_base_2_test dev stack s =
     do { s \<leftarrow> TEST_HEADER ''RTC_base_2_test'' 335 stack s;
          Some (base_2_loop dev 0 [0, 1, 2, 4, 8, 16, 32, 64, 128, 256, 512, 1024] s) }"

text \<open>\<open>rs\<close> are the handlers that run while the read of the clock waits.\<close>

definition RTC_read_test ::
  "memory \<Rightarrow> ('a screen_state_scheme \<Rightarrow> 'a screen_state_scheme) list \<Rightarrow> ('a screen_state_scheme \<Rightarrow> 'a screen_state_scheme) list
   \<Rightarrow> 'a screen_state_scheme \<Rightarrow> (int \<times> 'a screen_state_scheme) option" where
  "RTC_read_test stack rs hs s =
     do { s \<leftarrow> TEST_HEADER ''RTC_read_test'' 378 stack s;
          let s = s\<lparr>RTC_ctr := 0\<rparr>;
          (hs, s) \<leftarrow> tick_loop 5 Some hs s;
          let s = clear s;
          (hs, s) \<leftarrow> tick_loop 20 (\<lambda>s. do {
              s \<leftarrow> printk ''read_test() interrupt count: %d\<newline>'' [RTC_ctr s] stack s;
              if RTC_ctr s = 10 \<or> RTC_ctr s = 15
              then map_option snd (rtc_read rs (print_lit ''BLOCKING'' s)) else Some s }) hs s;
          Some (1, clear s) }"

section \<open>The tests of execute\<close>

text \<open>
  The loop over the commands. \<open>stack\<close> holds the uninitialised \<open>dummy_addr\<close> at 4; the commands are
  literals, and \<open>dummyBuffer\<close> is the array that \<open>verify_file\<close> fills.
\<close>

primrec valid_file_loop :: "memory \<Rightarrow> string list \<Rightarrow> 'a sys_state_scheme \<Rightarrow> (u32 option \<times> 'a sys_state_scheme) option" where
  "valid_file_loop stack [] s = Some (Some (load32 stack 4), s)"
| "valid_file_loop stack (cmd # cmds) s =
     do { (v, s) \<leftarrow> verify_file (lit_mem cmd) 1 stack s;
          case v of None \<Rightarrow> Some (None, s)
          | Some (dummyBuffer, dummy_addr) \<Rightarrow>
              if strncmp (array_mem dummyBuffer) 0 (lit_mem cmd) 1 4 \<noteq> 0 then Some (None, s)
              else valid_file_loop (write_bytes stack 4 (le_bytes dummy_addr)) cmds s }"

definition exec_valid_file_test :: "memory \<Rightarrow> 'a sys_state_scheme \<Rightarrow> (int \<times> 'a sys_state_scheme) option" where
  "exec_valid_file_test stack s =
     do { s \<leftarrow> TEST_HEADER ''exec_valid_file_test'' 429 stack s;
          (r, s) \<leftarrow> valid_file_loop stack [''shell'', ''testprint''] s;
          case r of None \<Rightarrow> Some (0, s)
          | Some dummy_addr \<Rightarrow> do { s \<leftarrow> printk ''starting v_addr: %x\<newline>'' [dummy_addr] stack s; Some (1, s) } }"

definition exec_invalid_file_test :: "memory \<Rightarrow> 'a sys_state_scheme \<Rightarrow> (int \<times> 'a sys_state_scheme) option" where
  "exec_invalid_file_test stack s =
     do { s \<leftarrow> TEST_HEADER ''exec_invalid_file_test'' 467 stack s;
          (v, s) \<leftarrow> verify_file (lit_mem ''114514OS'') 1 stack s;
          if v = None
          then do { s \<leftarrow> printk ''starting v_addr: %x\<newline>'' [load32 stack 4] stack s; Some (1, s) }
          else Some (0, s) }"

definition exec_null_file_test :: "memory \<Rightarrow> memory \<Rightarrow> 'a sys_state_scheme \<Rightarrow> (int \<times> 'a sys_state_scheme) option" where
  "exec_null_file_test m stack s =
     do { s \<leftarrow> TEST_HEADER ''exec_null_file_test'' 496 stack s;
          (v, s) \<leftarrow> verify_file m 0 stack s;
          if v = None
          then do { s \<leftarrow> printk ''starting v_addr: %x\<newline>'' [load32 stack 4] stack s; Some (1, s) }
          else Some (0, s) }"

section \<open>The tests of open and close\<close>

text \<open>
  \<open>pcb_shell\<close> is the block of process 0, wherever the calls work on that of the running process.
  \<open>lit\<close> gives the addresses of the literals that \<open>open\<close> reads.
\<close>

primrec print_files :: "memory \<Rightarrow> nat list \<Rightarrow> pcb \<Rightarrow> 'a screen_state_scheme \<Rightarrow> 'a screen_state_scheme option" where
  "print_files stack [] b s = printk ''%d}\<newline>'' [of_int (bitmap b 7)] stack s"
| "print_files stack (i # is) b s = do { s \<leftarrow> printk ''%d, '' [of_int (bitmap b i)] stack s; print_files stack is b s }"

definition print_bitmap :: "memory \<Rightarrow> pcb \<Rightarrow> 'a screen_state_scheme \<Rightarrow> 'a screen_state_scheme option" where
  "print_bitmap stack b s = print_files stack [0..<7] b (print_lit ''available files: {'' s)"

definition print_open_file_test :: "(string \<Rightarrow> u32) \<Rightarrow> layout \<Rightarrow> memory \<Rightarrow> 'a sys_state_scheme \<Rightarrow> (int \<times> 'a sys_state_scheme) option" where
  "print_open_file_test lit L stack s =
     do { s \<leftarrow> TEST_HEADER ''print_open_file_test'' 544 stack s;
          s \<leftarrow> print_bitmap stack (pcbs s 0) (print_lit ''pcb_shell struct before open:\<newline>'' s);
          s \<leftarrow> printk ''pid: %d\<newline>\<newline>'' [of_int (pcb_pid (pcbs s 0))] stack s;
          let (fd, s) = sys_open L (lit ''shell'') s;
          s \<leftarrow> printk ''open(shell) returned: %d\<newline>\<newline>'' [of_int fd] stack s;
          s \<leftarrow> print_bitmap stack (pcbs s 0) (print_lit ''pcb_shell struct after open:\<newline>'' s);
          s \<leftarrow> printk ''pid: %d\<newline>'' [of_int (pcb_pid (pcbs s 0))] stack s;
          Some (1, s) }"

definition open_then_close_test :: "(string \<Rightarrow> u32) \<Rightarrow> layout \<Rightarrow> memory \<Rightarrow> 'a sys_state_scheme \<Rightarrow> (int \<times> 'a sys_state_scheme) option" where
  "open_then_close_test lit L stack s =
     do { s \<leftarrow> TEST_HEADER ''open_then_close_test'' 588 stack s;
          let (fd, s) = sys_open L (lit ''shell'') s;
          s \<leftarrow> printk ''open(shell) returned: %d\<newline>\<newline>'' [of_int fd] stack s;
          s \<leftarrow> print_bitmap stack (pcbs s 0) (print_lit ''pcb_shell struct after open:\<newline>'' s);
          s \<leftarrow> printk ''pid: %d\<newline>\<newline>'' [of_int (pcb_pid (pcbs s 0))] stack s;
          let (close_output, s) = sys_close fd s;
          s \<leftarrow> printk ''close(fd) returned: %d\<newline>\<newline>'' [of_int close_output] stack s;
          s \<leftarrow> print_bitmap stack (pcbs s 0) (print_lit ''pcb_shell struct after close:\<newline>'' s);
          s \<leftarrow> printk ''pid: %d\<newline>\<newline>'' [of_int (pcb_pid (pcbs s 0))] stack s;
          Some (1, s) }"

definition open_open_close_test :: "(string \<Rightarrow> u32) \<Rightarrow> layout \<Rightarrow> memory \<Rightarrow> 'a sys_state_scheme \<Rightarrow> (int \<times> 'a sys_state_scheme) option" where
  "open_open_close_test lit L stack s =
     do { s \<leftarrow> TEST_HEADER ''open_open_close_test'' 637 stack s;
          let (fd1, s) = sys_open L (lit ''shell'') s;
          s \<leftarrow> printk ''open(shell) returned: %d\<newline>'' [of_int fd1] stack s;
          let (fd2, s) = sys_open L (lit ''fish'') s;
          s \<leftarrow> printk ''open(fish) returned: %d\<newline>\<newline>'' [of_int fd2] stack s;
          s \<leftarrow> print_bitmap stack (pcbs s 0) (print_lit ''pcb_shell struct after two opens:\<newline>'' s);
          s \<leftarrow> printk ''pid: %d\<newline>\<newline>'' [of_int (pcb_pid (pcbs s 0))] stack s;
          let (close_output, s) = sys_close fd1 s;
          s \<leftarrow> printk ''close(fd1) (fd1 = shell's fd) returned: %d\<newline>\<newline>'' [of_int close_output] stack s;
          s \<leftarrow> print_bitmap stack (pcbs s 0) (print_lit ''pcb_shell struct after close:\<newline>'' s);
          s \<leftarrow> printk ''pid: %d\<newline>\<newline>'' [of_int (pcb_pid (pcbs s 0))] stack s;
          Some (1, s) }"

definition open_file_max_test :: "(string \<Rightarrow> u32) \<Rightarrow> layout \<Rightarrow> memory \<Rightarrow> 'a sys_state_scheme \<Rightarrow> (int \<times> 'a sys_state_scheme) option" where
  "open_file_max_test lit L stack s =
     do { s \<leftarrow> TEST_HEADER ''open_file_max_test'' 691 stack s;
          let s = fold (\<lambda>i s. snd (sys_open L (lit ''shell'') s)) [0..<8] s;
          s \<leftarrow> print_bitmap stack (pcbs s 0) (print_lit ''pcb_shell struct after six opens:\<newline>'' s);
          let (output, s) = sys_open L (lit ''shell'') s;
          Some (if output = -1 then 1 else 0, s) }"

section \<open>The tests of getargs\<close>

text \<open>\<open>out\<close> is the address of \<open>outputBuf\<close> on the kernel stack, which is not initialised.\<close>

definition parse_and_get ::
  "layout \<Rightarrow> memory \<Rightarrow> string \<Rightarrow> u32 \<Rightarrow> int \<Rightarrow> 'a sys_state_scheme \<Rightarrow> (int \<times> 'a sys_state_scheme) option" where
  "parse_and_get L stack cmd out nbytes s = do { (v, s) \<leftarrow> verify_file (lit_mem cmd) 1 stack s; getargs L out nbytes s }"

definition one_letter_arg_test :: "layout \<Rightarrow> memory \<Rightarrow> u32 \<Rightarrow> 'a sys_state_scheme \<Rightarrow> (int \<times> 'a sys_state_scheme) option" where
  "one_letter_arg_test L stack out s =
     do { s \<leftarrow> TEST_HEADER ''one_letter_arg_test'' 743 stack s;
          (argOut, s) \<leftarrow> parse_and_get L stack ''shell a '' out 1 s;
          Some (if argOut = -1 \<or> view L s out \<noteq> of_char CHR ''a'' then 0 else 1, s) }"

definition word_arg_test :: "layout \<Rightarrow> memory \<Rightarrow> u32 \<Rightarrow> 'a sys_state_scheme \<Rightarrow> (int \<times> 'a sys_state_scheme) option" where
  "word_arg_test L stack out s =
     do { s \<leftarrow> TEST_HEADER ''word_arg_test'' 770 stack s;
          (argOut, s) \<leftarrow> parse_and_get L stack ''shell test'' out 4 s;
          Some (if argOut = -1 then 0 else if \<exists>i\<in>set [0..<4]. view L s (out + of_nat i) \<noteq> chars ''test'' ! i then 0 else 1, s) }"

definition multi_word_arg_test :: "layout \<Rightarrow> memory \<Rightarrow> u32 \<Rightarrow> 'a sys_state_scheme \<Rightarrow> (int \<times> 'a sys_state_scheme) option" where
  "multi_word_arg_test L stack out s =
     do { s \<leftarrow> TEST_HEADER ''multi_word_arg_test'' 801 stack s;
          (argOut, s) \<leftarrow> parse_and_get L stack ''shell red green blue'' out 12 s;
          Some (if argOut = -1 then 0
                else if \<exists>i\<in>set [0..<12]. view L s (out + of_nat i) \<noteq> chars ''redgreenblue'' ! i then 0 else 1, s) }"

definition some_args_test :: "layout \<Rightarrow> memory \<Rightarrow> u32 \<Rightarrow> 'a sys_state_scheme \<Rightarrow> (int \<times> 'a sys_state_scheme) option" where
  "some_args_test L stack out s =
     do { s \<leftarrow> TEST_HEADER ''some_args_test'' 834 stack s;
          (argOut, s) \<leftarrow> parse_and_get L stack ''shell red green blue'' out 8 s;
          Some (if argOut = -1 then 0
                else if \<exists>i\<in>set [0..<8]. view L s (out + of_nat i) \<noteq> chars ''redgreen'' ! i then 0 else 1, s) }"

definition insufficient_bytes_test :: "layout \<Rightarrow> memory \<Rightarrow> u32 \<Rightarrow> 'a sys_state_scheme \<Rightarrow> (int \<times> 'a sys_state_scheme) option" where
  "insufficient_bytes_test L stack out s =
     do { s \<leftarrow> TEST_HEADER ''insufficient_bytes_test'' 865 stack s;
          (argOut, s) \<leftarrow> parse_and_get L stack ''shell test'' out 100 s;
          Some (if argOut = -1 then 1 else 0, s) }"

definition no_args_test :: "layout \<Rightarrow> memory \<Rightarrow> u32 \<Rightarrow> 'a sys_state_scheme \<Rightarrow> (int \<times> 'a sys_state_scheme) option" where
  "no_args_test L stack out s =
     do { s \<leftarrow> TEST_HEADER ''no_args_test'' 891 stack s;
          (argOut, s) \<leftarrow> parse_and_get L stack ''shell'' out 0 s;
          Some (if argOut = -1 then 1 else 0, s) }"

section \<open>The tests of the file system\<close>

primrec print_dentries :: "memory \<Rightarrow> nat list \<Rightarrow> 'a fs_state_scheme \<Rightarrow> 'a fs_state_scheme option" where
  "print_dentries stack [] s = Some s"
| "print_dentries stack (i # is) s =
     do { s \<leftarrow> printk ''dentry NO.%d: '' [of_nat i] stack s;
          let s = fold putc (fname (dentry_at s i)) s;
          s \<leftarrow> printk ''length: %d'' [load32 (fs_mem s) (inode_addr s (inode (dentry_at s i)))] stack s;
          print_dentries stack is (putc 10 s) }"

definition print_allfile_test :: "memory \<Rightarrow> 'a fs_state_scheme \<Rightarrow> (int \<times> 'a fs_state_scheme) option" where
  "print_allfile_test stack s =
     do { let s = print_lit ''***print_file_test***: \<newline>'' (clear s);
          s \<leftarrow> printk ''num_dentry: %d, num_inodes: %d, num_dataBlocks: %d\<newline>''
                [of_int (num_dentry s), of_int (num_inodes s), of_int (num_dataBlocks s)] stack s;
          s \<leftarrow> print_dentries stack [0..<nat (num_dentry s)] s;
          Some (1, s) }"

text \<open>
  The name is a string in \<open>nm\<close> at \<open>a\<close>; \<open>d0\<close> is what the uninitialised entry holds and \<open>stack\<close> what lies
  behind it. \<open>None\<close> also stands for an access behind the end of the 38000 bytes of \<open>buf\<close>.
\<close>

definition dentry_mem :: "memory \<Rightarrow> dentry \<Rightarrow> memory" where
  "dentry_mem stack d = write_bytes stack 0 (fname d @ le_bytes (ftype d) @ le_bytes (inode d) @ reserved d)"

definition read_file_test :: "memory \<Rightarrow> u32 \<Rightarrow> dentry \<Rightarrow> memory \<Rightarrow> 'a fs_state_scheme \<Rightarrow> (int \<times> 'a fs_state_scheme) option" where
  "read_file_test nm a d0 stack s =
     do { let s = clear s;
          let d = (case read_dentry_by_name nm a s of Some d \<Rightarrow> d | None \<Rightarrow> d0);
          let s = print_lit ''***read_file_test***: \<newline>'' s;
          (_, s) \<leftarrow> puts (Some (dentry_mem stack d)) 0 (print_lit ''d.fname: '' s);
          s \<leftarrow> printk ''d.inode: %d \<newline>'' [inode d] stack (print_lit '' \<newline>'' s);
          let len = inode_length s (inode d);
          s \<leftarrow> printk ''length in B: %d\<newline>'' [of_nat len] stack s;
          s \<leftarrow> printk ''1st data block #: %d\<newline>'' [data_block s (inode d) 0] stack s;
          s \<leftarrow> printk ''2nd data block #: %d\<newline>'' [data_block s (inode d) 1] stack s;
          s \<leftarrow> printk ''3rd data block #: %d\<newline>'' [data_block s (inode d) 2] stack s;
          let bs = snd (read_data (inode d) 0 1 0x400000 s);
          if length bs > 38000 \<or> len > 38000 then None
          else Some (1, putc 10 (fold (\<lambda>i. putc (if i < length bs then bs ! i else 0)) [0..<len] s)) }"

section \<open>Printing\<close>

lemma fold_putc_clock [simp]: "RTC_ctr (fold putc cs s) = RTC_ctr s" "RTC_flag (fold putc cs s) = RTC_flag s" "RTC_ctr (clear s) = RTC_ctr s"
proof -
  have p: "RTC_ctr (putc c s) = RTC_ctr s" "RTC_flag (putc c s) = RTC_flag s" for c and s :: "'a screen_state_scheme"
    by (simp_all add: putc_def Let_def)
  show "RTC_ctr (fold putc cs s) = RTC_ctr s" "RTC_flag (fold putc cs s) = RTC_flag s" by (induction cs arbitrary: s) (simp_all add: p)
  show "RTC_ctr (clear s) = RTC_ctr s" by (simp add: clear_def update_cursor_def set_x_def set_y_def outb_def Let_def)
qed

text \<open>A format with one number in it.\<close>

lemma format_one:
  assumes "37 \<notin> set xs" "37 \<notin> set ys" "d \<in> {100, 117, 120}"
  shows "format_text (xs @ 37 # d # ys) [v] = Some (xs @ numeral_text d False v @ ys)"
proof -
  have plain: "format_text zs args = Some zs" if "37 \<notin> set zs" for zs args
    using that by (induction zs) (simp_all add: format_text.simps)
  show ?thesis using assms plain [OF assms(2)] by (induction xs) (auto simp: format_text.simps)
qed

lemma printk_one:
  assumes "chars fmt = xs @ 37 # d # ys" "37 \<notin> set xs" "37 \<notin> set ys" "d \<in> {100, 117, 120}" "0 \<notin> set (xs @ ys)" "length fmt < 4294967295"
  shows "printk fmt [v] stack s = Some (fold putc (xs @ numeral_text d False v @ ys) s)"
proof -
  have z: "0 \<notin> set (chars fmt)" using assms(1,4,5) by auto
  have f: "format_text (chars fmt) [v] = Some (xs @ numeral_text d False v @ ys)" unfolding assms(1) by (rule format_one [OF assms(2-4)])
  show ?thesis by (rule printk_text [OF f z assms(6)])
qed

text \<open>The formats of the tests that print one number.\<close>

definition one_number :: "string \<Rightarrow> bool" where
  "one_number fmt \<longleftrightarrow> 0 \<notin> set (chars fmt) \<and> length fmt < 1000
     \<and> (case dropWhile (\<lambda>c. c \<noteq> 37) (chars fmt) of p # d # ys \<Rightarrow> d \<in> {100, 117, 120} \<and> 37 \<notin> set ys | _ \<Rightarrow> False)"

lemma printk_number:
  assumes "one_number fmt"
  shows "\<exists>out. printk fmt [v] stack s = Some (fold putc out s)"
proof -
  obtain p d ys where d: "dropWhile (\<lambda>c. c \<noteq> 37) (chars fmt) = p # d # ys" "d \<in> {100, 117, 120}" "37 \<notin> set ys"
    using assms by (auto simp: one_number_def split: list.splits)
  have "p = 37" using hd_dropWhile [of "\<lambda>c. c \<noteq> 37" "chars fmt"] d(1) by auto
  then have c: "chars fmt = takeWhile (\<lambda>c. c \<noteq> 37) (chars fmt) @ 37 # d # ys" using takeWhile_dropWhile_id [of "\<lambda>c. c \<noteq> 37" "chars fmt"] d(1) by simp
  have z: "0 \<notin> set (chars fmt)" "length fmt < 4294967295" using assms by (simp_all add: one_number_def)
  have "37 \<notin> set (takeWhile (\<lambda>c. c \<noteq> 37) (chars fmt))" by (auto dest: set_takeWhileD)
  moreover have "0 \<notin> set (takeWhile (\<lambda>c. c \<noteq> 37) (chars fmt) @ ys)" using z(1) by (subst (asm) c) auto
  ultimately show ?thesis using printk_one [OF c _ d(3,2) _ z(2)] by blast
qed

definition number_formats :: "string list" where
  "number_formats =
     [''%d\<newline>'', ''Interrupting at 2Hz. Interrupt number: %d\<newline>'', ''Interrupt at 16Hz due to write(): %d\<newline>'',
      ''Interrupt at 64Hz due to write(): %d\<newline>'', ''Interrupt at 512Hz due to write(): %d\<newline>'',
      ''Interrupt at 1024Hz due to write(): %d\<newline>'', ''Interrupting back to 2 Hz after open(): %d\<newline>'', ''starting v_addr: %x\<newline>'',
      ''read_test() interrupt count: %d\<newline>'', ''%d, '', ''%d}\<newline>'']"

lemma printk_test:
  assumes "fmt \<in> set number_formats"
  shows "\<exists>out. printk fmt [v] stack s = Some (fold putc out s)"
proof -
  have "\<forall>fmt\<in>set number_formats. one_number fmt" by code_simp
  then show ?thesis using printk_number assms by blast
qed

lemma TEST_HEADER_text: "\<exists>out. TEST_HEADER fn line stack s = Some (fold putc out s) \<and> length out < 2 * length fn + 100"
proof -
  let ?h = "''[TEST '' @ fn @ ''] Running '' @ fn @ '' at tests.c:''"
  have "printk ''%d\<newline>'' [line] stack (print_lit ?h s) = Some (fold putc ([] @ numeral_text 100 False line @ [10]) (print_lit ?h s))"
    by (rule printk_one) (simp_all add: chars_def)
  then have "TEST_HEADER fn line stack s = Some (fold putc (chars ?h @ numeral_text 100 False line @ [10]) s)"
    unfolding TEST_HEADER_def print_lit_def by (simp only: fold_append comp_apply append_Nil)
  moreover have "length (digits 10 (nat (- sint line))) \<le> 10" if "sint line < 0"
    using numeral_lengths(1) [of "- line"] unat_neg_sint [OF that] by simp
  then have "length (numeral_text 100 False line) \<le> 11" using numeral_lengths(1) [of line] by (auto simp: numeral_text_def)
  ultimately show ?thesis by (intro exI [of _ "chars ?h @ numeral_text 100 False line @ [10]"]) (simp add: chars_def)
qed

lemma after_header: "(\<And>out. length out < 2 * length fn + 100 \<Longrightarrow> P (f (fold putc out s))) \<Longrightarrow> P (TEST_HEADER fn line stack s \<bind> f)"
  using TEST_HEADER_text [of fn line stack s] by auto

text \<open>
  A line end moves the row without a bound, so that the text behind it may leave the screen; it
  stays below the kernel's page when there is not too much of it.
\<close>

lemma putc_below_kernel:
  fixes s :: "'a screen_state_scheme"
  assumes "0 \<le> screen_x s" "screen_x s < 80" "0 \<le> screen_y s" "screen_y s + int (length cs) < 20000" "0x400000 \<le> unat a"
  shows "ram (fold putc cs s) a = ram s a"
  using assms(1-4)
proof (induction cs arbitrary: s)
  case (Cons c cs)
  have y: "0 \<le> screen_y (putc c s)" "screen_y (putc c s) \<le> screen_y s + 1" "0 \<le> screen_x (putc c s)" "screen_x (putc c s) < 80"
    using Cons.prems zmod_le_nonneg_dividend [of "screen_y s + (screen_x s + 1) mod 80 div 80" 25] by (auto simp: putc_def Let_def)
  define k where "k = 80 * screen_y s + screen_x s"
  have k: "0 \<le> k" "k < 1600080" using Cons.prems by (simp_all add: k_def)
  have u: "unat (cell_addr video_mem (screen_x s) (screen_y s)) = 0xB8000 + nat (2 * k)"
  proof -
    have "cell_addr video_mem (screen_x s) (screen_y s) = of_nat (0xB8000 + nat (2 * k))"
      using k by (simp add: cell_addr_def video_mem_def k_def algebra_simps)
    moreover have "0xB8000 + nat (2 * k) < 4294967296" using k by simp
    ultimately show ?thesis by (simp only: unat_of_nat32)
  qed
  moreover have "unat (cell_addr video_mem (screen_x s) (screen_y s) + 1) = 0xB8000 + nat (2 * k) + 1" using u k by (simp add: unat_word_ariths)
  ultimately have "a \<noteq> cell_addr video_mem (screen_x s) (screen_y s)" "a \<noteq> cell_addr video_mem (screen_x s) (screen_y s) + 1"
    using assms(5) k by auto
  then have "ram (putc c s) a = ram s a" by (simp add: putc_def Let_def put_cell_def)
  then show ?case using Cons.IH [of "putc c s"] y Cons.prems(4) by simp
qed simp

section \<open>The clock\<close>

lemma rtc_write_local:
  "rtc_write dev (local_word v) 4 4 s =
     (if convert_freq v = -1 then (-1, sti (cli s)) else (4, sti (set_rate dev (ucast (convert_freq v)) (cli s))))"
  by (simp add: rtc_write_def local_word_def Let_def)

text \<open>
  The tests of \<open>write\<close> on the clock pass, on every device and in every state: the size 4 is
  accepted, the size 5 and a null buffer are refused, and of the powers of two up to 1024 only 1
  (and 0) is.
\<close>

theorem clock_tests_pass:
  "(\<exists>t. RTC_valid_size_test dev stack s = Some (1, t)) \<and> (\<exists>t. RTC_invalid_size_test dev stack s = Some (1, t))
   \<and> (\<exists>t. RTC_empty_buf_test dev m stack s = Some (1, t)) \<and> (\<exists>t. RTC_base_2_test dev stack s = Some (1, t))"
proof (intro conjI)
  show "\<exists>t. RTC_valid_size_test dev stack s = Some (1, t)"
    unfolding RTC_valid_size_test_def by (rule after_header) (simp add: rtc_write_local convert_freq_def)
  show "\<exists>t. RTC_invalid_size_test dev stack s = Some (1, t)"
    unfolding RTC_invalid_size_test_def by (rule after_header) (simp add: rtc_write_def Let_def)
  show "\<exists>t. RTC_empty_buf_test dev m stack s = Some (1, t)"
    unfolding RTC_empty_buf_test_def by (rule after_header) (simp add: rtc_write_def Let_def)
  show "\<exists>t. RTC_base_2_test dev stack s = Some (1, t)"
    unfolding RTC_base_2_test_def by (rule after_header) (simp add: rtc_write_local convert_freq_def Let_def)
qed

text \<open>Loops that wait for the counter: \<open>m\<close> interrupts of the clock are still to come, \<open>c\<close> is what it will count to.\<close>

definition ticks :: "device \<Rightarrow> int \<Rightarrow> ('a screen_state_scheme \<Rightarrow> 'a screen_state_scheme) list \<Rightarrow> 'a screen_state_scheme \<Rightarrow> bool" where
  "ticks dev c hs s \<longleftrightarrow> (\<exists>m. hs = replicate m (rtc_int_handler dev) \<and> sint (RTC_ctr s) + int m = c \<and> 0 \<le> sint (RTC_ctr s))"

lemma tick_count:
  assumes "sint (RTC_ctr s) < 2147483647"
  shows "sint (RTC_ctr (rtc_int_handler dev s)) = sint (RTC_ctr s) + 1"
proof -
  have "RTC_ctr (rtc_int_handler dev s) = RTC_ctr s + 1" by (simp add: rtc_int_handler_def Let_def case_prod_beta)
  also have "\<dots> = of_int (sint (RTC_ctr s) + 1)" by simp
  finally show ?thesis using assms sint_ge [of "RTC_ctr s"] by (intro trans [OF arg_cong [of _ _ sint] sint_of_int32]) simp_all
qed

lemma tick_loop_ends:
  assumes "ticks dev c hs s" "bound \<le> c" "c < 2147483647" and body: "\<And>s. \<exists>s'. body s = Some s' \<and> RTC_ctr s' = RTC_ctr s"
  shows "\<exists>hs' s'. tick_loop bound body hs s = Some (hs', s') \<and> ticks dev c hs' s'"
  using assms(1)
proof (induction hs arbitrary: s)
  case Nil
  then show ?case using assms(2) by (auto simp: ticks_def)
next
  case (Cons h hs)
  show ?case
  proof (cases "sint (RTC_ctr s) < bound")
    case True
    obtain m where m: "h # hs = replicate m (rtc_int_handler dev)" "sint (RTC_ctr s) + int m = c" "0 \<le> sint (RTC_ctr s)"
      using Cons.prems by (auto simp: ticks_def)
    then obtain k where k: "m = Suc k" "h = rtc_int_handler dev" "hs = replicate k (rtc_int_handler dev)" by (cases m) auto
    obtain s1 where s1: "body s = Some s1" "RTC_ctr s1 = RTC_ctr s" using body by blast
    have "sint (RTC_ctr (h s1)) = sint (RTC_ctr s) + 1" using tick_count [of s1 dev] True assms(2,3) by (simp add: k(2) s1(2))
    then have "ticks dev c hs (h s1)" using m(2,3) k by (auto simp: ticks_def)
    from Cons.IH [OF this] show ?thesis using True s1(1) by simp
  qed (use Cons.prems in simp)
qed

lemma ticks_same: "ticks dev c hs s \<Longrightarrow> RTC_ctr s' = RTC_ctr s \<Longrightarrow> ticks dev c hs s'"
  by (simp add: ticks_def)

lemma rtc_write_clock [simp]: "RTC_ctr (snd (rtc_write dev m a n s)) = RTC_ctr s" "RTC_ctr (snd (rtc_open dev s)) = RTC_ctr s"
  by (simp_all add: rtc_write_def rtc_open_def Let_def)

text \<open>A phase of the frequency test: the loop ends, and the test goes on in a state with a cleared screen and a new rate.\<close>

lemma phase:
  assumes "ticks dev c hs s" "bound \<le> c" "c < 2147483647" "\<And>s. \<exists>s'. body s = Some s' \<and> RTC_ctr s' = RTC_ctr s"
    and "\<And>hs s. ticks dev c hs s \<Longrightarrow> \<exists>t. g hs s = Some (1, t)"
  shows "\<exists>t. (tick_loop bound body hs s \<bind> (\<lambda>(hs, s). g hs s)) = Some (1 :: int, t)"
  using tick_loop_ends [OF assms(1-4)] assms(5) by fastforce

lemma body_ends: "fmt \<in> set number_formats \<Longrightarrow> \<exists>s'. printk fmt [v] stack s = Some s' \<and> RTC_ctr s' = RTC_ctr s"
  using printk_test [of fmt v stack s] by auto

text \<open>
  The frequency test of the clock ends. When enough interrupts of the clock arrive, one
  between any two turns of a loop, the test goes through its seven loops, each at the rate it has
  programmed, and passes.
\<close>

theorem frequency_test_ends:
  assumes "hs = replicate m (rtc_int_handler chip)" and "0 \<le> sint (RTC_ctr s)" and "4010 \<le> sint (RTC_ctr s) + int m" and "sint (RTC_ctr s) + int m < 2147483647"
  shows "\<exists>t. RTC_freq_test dev stack hs s = Some (1, t)"
proof -
  define c where "c = sint (RTC_ctr s) + int m"
  have c: "4010 \<le> c" "c < 2147483647" using assms(3,4) by (simp_all add: c_def)
  have start: "ticks chip c hs s" using assms(1,2) by (auto simp: ticks_def c_def)
  show ?thesis
    unfolding RTC_freq_test_def Let_def
    apply (rule phase [OF start _ c(2)], use c in simp, simp)
    apply (rule phase [OF ticks_same _ c(2)], assumption, simp, use c in simp, rule body_ends, simp add: number_formats_def)+
    by (rule after_header) simp
qed

theorem frequency_test_ends_witness:
  "\<exists>t. RTC_freq_test (\<lambda>_ _. 0) (\<lambda>_. 0) (replicate 4010 (rtc_int_handler (\<lambda>_ _. 0))) (elf_demo\<lparr>RTC_ctr := 0\<rparr>) = Some (1, t)"
  by (rule frequency_test_ends [OF refl]) simp_all

section \<open>Arguments in a buffer of the kernel\<close>

text \<open>The \<open>n\<close> bytes at \<open>a\<close> lie at \<open>ph\<close> in physical memory.\<close>

definition maps_to :: "layout \<Rightarrow> 'a paging_state_scheme \<Rightarrow> u32 \<Rightarrow> nat \<Rightarrow> u32 \<Rightarrow> bool" where
  "maps_to L s a n ph \<longleftrightarrow> (\<forall>i<n. \<exists>m. translate L s (a + of_nat i) = Some m \<and> frame_addr m = ph + of_nat i)"

lemma maps_to_ram [simp]: "maps_to L (s\<lparr>ram := m\<rparr>) a n ph = maps_to L s a n ph"
  by (simp add: maps_to_def)

lemma maps_to_less: "maps_to L s a n ph \<Longrightarrow> k \<le> n \<Longrightarrow> maps_to L s a k ph"
  by (simp add: maps_to_def)

lemma maps_to_Suc:
  assumes "maps_to L s a (Suc n) ph"
  shows "\<exists>m. translate L s a = Some m \<and> frame_addr m = ph" "maps_to L s (a + 1) n (ph + 1)"
proof -
  show "\<exists>m. translate L s a = Some m \<and> frame_addr m = ph" using assms by (auto simp: maps_to_def dest: spec [of _ 0])
  have "\<exists>m. translate L s (a + of_nat (Suc i)) = Some m \<and> frame_addr m = ph + of_nat (Suc i)" if "i < n" for i
    using assms that unfolding maps_to_def by blast
  then show "maps_to L s (a + 1) n (ph + 1)" by (simp add: maps_to_def add.assoc)
qed

lemma store_bytes_maps:
  "maps_to L s a (length bs) ph \<Longrightarrow> store_bytes L a bs s = Some (s\<lparr>ram := write_bytes (ram s) ph bs\<rparr>)"
proof (induction bs arbitrary: a ph s)
  case (Cons b bs)
  then have m: "maps_to L s a (Suc (length bs)) ph" by simp
  obtain i where "translate L s a = Some i" "frame_addr i = ph" using maps_to_Suc(1) [OF m] by blast
  then show ?case
    using Cons.IH [of "s\<lparr>ram := (ram s)(ph := b)\<rparr>" "a + 1" "ph + 1"] maps_to_Suc(2) [OF m] by (simp add: store_byte_def fun_upd_def)
qed simp

lemma bytes_at_view_maps: "maps_to L s a n ph \<Longrightarrow> bytes_at (view L s) a n = bytes_at (ram s) ph n"
  by (auto simp: bytes_at_def maps_to_def view_def)

lemma getargs_stores:
  assumes "maps_to L s buf (Suc (max (length old) (length ys))) ph" "cstr_at (view L s) buf old" "buf \<noteq> 0" "argSize s \<noteq> 0"
    and "cstr_at (\<lambda>x. argBuf s (unat x)) 0 ys" "map (argBuf s) [0..<length ys] = ys" "length ys < 129" "length old < 4194304"
  shows "\<exists>m. getargs L buf n s = Some (0, s\<lparr>ram := m\<rparr>) \<and> bytes_at (view L (s\<lparr>ram := m\<rparr>)) buf (length ys) = ys"
proof -
  let ?m1 = "write_bytes (ram s) ph (replicate (length old) 0)"
  let ?m2 = "write_bytes ?m1 ph ys"
  let ?m3 = "?m2(ph + of_nat (length ys) := 0)"
  have maps: "maps_to L s buf (length old) ph" "maps_to L s buf (length ys) ph" using maps_to_less [OF assms(1)] by simp_all
  have n: "strlen (view L s) buf = Some (of_nat (length old))" by (rule strlen_cstr [OF assms(2)])
  have k: "strlen (\<lambda>x. argBuf s (unat x)) 0 = Some (of_nat (length ys))" by (rule strlen_cstr [OF assms(5)])
  have u: "unat (of_nat (length old) :: u32) = length old" "unat (of_nat (length ys) :: u32) = length ys" using assms(7,8) by simp_all
  obtain i where i: "translate L s (buf + of_nat (length ys)) = Some i" "frame_addr i = ph + of_nat (length ys)"
    using assms(1) unfolding maps_to_def by (metis less_Suc_eq_le max.cobounded2)
  have s1: "store_bytes L buf (replicate (length old) 0) s = Some (s\<lparr>ram := ?m1\<rparr>)" using store_bytes_maps [of L s buf "replicate (length old) 0" ph] maps(1) by simp
  have s2: "store_bytes L buf ys (s\<lparr>ram := ?m1\<rparr>) = Some (s\<lparr>ram := ?m2\<rparr>)" using store_bytes_maps [of L "s\<lparr>ram := ?m1\<rparr>" buf ys ph] maps(2) by simp
  have "getargs L buf n s = Some (0, s\<lparr>ram := ?m3\<rparr>)"
    using assms(3,4,6) n k i s1 s2 by (simp add: getargs_def u store_byte_def)
  moreover have "ph + of_nat (length ys) \<notin> region ph (length ys)" using assms(7) by (simp add: in_region_offset)
  then have "bytes_at ?m3 ph (length ys) = bytes_at ?m2 ph (length ys)" using assms(7) by (intro bytes_at_cong) auto
  then have "bytes_at (view L (s\<lparr>ram := ?m3\<rparr>)) buf (length ys) = ys"
    using bytes_at_view_maps [of L "s\<lparr>ram := ?m3\<rparr>" buf "length ys" ph] maps(2) assms(7) by simp
  ultimately show ?thesis by blast
qed

text \<open>The buffer of a test: 130 bytes in the page of the kernel with some string in them, and a cursor that is not far off the screen.\<close>

definition kernel_buffer :: "layout \<Rightarrow> u32 \<Rightarrow> 'a paging_state_scheme \<Rightarrow> bool" where
  "kernel_buffer L out s \<longleftrightarrow> layout_ok L \<and> (\<exists>A. address_space L s A) \<and> 0x400000 \<le> unat out \<and> unat out + 130 \<le> 0x800000
     \<and> (\<exists>old. cstr_at (view L s) out old \<and> length old < 130)"

definition printing_ok :: "'a screen_state_scheme \<Rightarrow> bool" where
  "printing_ok s \<longleftrightarrow> 0 \<le> screen_x s \<and> screen_x s < 80 \<and> 0 \<le> screen_y s \<and> screen_y s < 1000"

lemma print_more [simp]: "screen_state.more (fold putc cs s) = screen_state.more s"
  by (induction cs arbitrary: s) (simp_all add: putc_def Let_def)

lemma print_paging:
  "page_directory (fold putc cs s) = page_directory s" "page_table (fold putc cs s) = page_table s" "vidMem_table (fold putc cs s) = vidMem_table s"
  using paging_of_screen_more [OF print_more] by blast+

lemma print_translate: "translate L (fold putc cs s) = translate L s"
proof -
  have "table_at L (fold putc cs s) = table_at L s" by (intro ext) (simp add: table_at_def print_paging)
  then show ?thesis by (intro ext) (simp add: translate_def print_paging Let_def)
qed

lemma kernel_buffer_maps:
  assumes "kernel_buffer L out s"
  shows "maps_to L s out 130 out"
proof -
  obtain A where A: "layout_ok L" "address_space L s A" "0x400000 \<le> unat out" "unat out + 130 \<le> 0x800000"
    using assms by (auto simp: kernel_buffer_def)
  have "translate L s (out + of_nat i) = Some \<lparr>frame_addr = out + of_nat i, user_ok = False, writable = True\<rparr>" if "i < 130" for i
  proof -
    have "unat (out + of_nat i) = unat out + i" using A(3,4) that by (simp add: unat_word_ariths)
    then show ?thesis using address_space_translate [OF A(1,2)] A(3,4) that by (simp add: as_translate_def)
  qed
  then show ?thesis by (simp add: maps_to_def)
qed

lemma print_view:
  assumes "layout_ok L" "address_space L s A" "printing_ok s" "length cs < 1000" "0x400000 \<le> unat x" "unat x < 0x800000"
  shows "view L (fold putc cs s) x = view L s x"
proof -
  have t: "translate L s x = Some \<lparr>frame_addr = x, user_ok = False, writable = True\<rparr>"
    using address_space_translate [OF assms(1,2)] assms(5,6) by (simp add: as_translate_def)
  have "ram (fold putc cs s) x = ram s x" using assms(3-5) by (intro putc_below_kernel) (simp_all add: printing_ok_def)
  then show ?thesis using t by (simp add: view_def print_translate)
qed

lemma print_cstr:
  assumes "layout_ok L" "address_space L s A" "printing_ok s" "length cs < 1000" "0x400000 \<le> unat a" "unat a + length xs < 0x800000"
  shows "cstr_at (view L (fold putc cs s)) a xs = cstr_at (view L s) a xs"
proof (rule cstr_at_cong)
  fix x assume x: "x \<in> region a (Suc (length xs))"
  obtain i where i: "x = a + of_nat i" "i < Suc (length xs)" using x by (rule region_obtain)
  have "unat x = unat a + i" using i assms(6) by (simp add: unat_word_ariths unat_of_nat)
  then show "view L (fold putc cs s) x = view L s x" using print_view [OF assms(1-4)] assms(5,6) i(2) by simp
qed

lemma kernel_buffer_print:
  assumes "kernel_buffer L out s" "printing_ok s" "length cs < 1000"
  shows "kernel_buffer L out (fold putc cs s)"
proof -
  obtain old A where old: "cstr_at (view L s) out old" "length old < 130" and o: "0x400000 \<le> unat out" "unat out + 130 \<le> 0x800000"
    and A: "layout_ok L" "address_space L s A" using assms(1) by (auto simp: kernel_buffer_def)
  have "cstr_at (view L (fold putc cs s)) out old" using print_cstr [OF A assms(2,3) o(1), of old] old o(2) by simp
  moreover have "address_space L (fold putc cs s) A" using A(2) by (simp add: address_space_def print_paging)
  ultimately show ?thesis using A(1) o old(2) unfolding kernel_buffer_def by blast
qed

lemma parse_and_get_spec:
  assumes "kernel_buffer L out s" "0 \<notin> set (chars cmd)" "length (name_of (chars cmd)) \<le> 128" "length (args_of (chars cmd)) \<le> 128" "length cmd < 4294967295"
  shows "\<exists>t. parse_and_get L stack cmd out n s = Some (if args_of (chars cmd) = [] then -1 else 0, t)
    \<and> bytes_at (view L t) out (length (args_of (chars cmd))) = args_of (chars cmd)"
proof -
  let ?ys = "args_of (chars cmd)" and ?s = "parsed (chars cmd) s"
  have v: "verify_file (lit_mem cmd) 1 stack s = Some (check_file (arr (name_of (chars cmd))) stack ?s, ?s)"
    using verify_file_spec [OF lit_string [OF assms(2,5)], of stack s] assms(3,4) by simp
  have b: "argSize ?s = of_nat (length ?ys)" "argBuf ?s j = arr ?ys j" if "j < 129" for j using that by (simp_all add: parsed_def)
  show ?thesis
  proof (cases "?ys = []")
    case True
    then show ?thesis using v b(1) [of 0] by (simp add: parse_and_get_def getargs_def)
  next
    case False
    have tr: "translate L ?s = translate L s" by (intro ext) (simp add: parsed_def translate_def table_at_def Let_def)
    have vw: "view L ?s = view L s" by (rule view_cong) (simp_all add: parsed_def)
    obtain old where old: "cstr_at (view L ?s) out old" "length old < 130" using assms(1) vw by (auto simp: kernel_buffer_def)
    have "maps_to L ?s out 130 out" using kernel_buffer_maps [OF assms(1)] unfolding maps_to_def tr .
    then have maps: "maps_to L ?s out (Suc (max (length old) (length ?ys))) out" by (rule maps_to_less) (use old(2) assms(4) in simp)
    have out: "out \<noteq> 0" using assms(1) by (auto simp: kernel_buffer_def)
    have size: "argSize ?s \<noteq> 0"
    proof
      assume "argSize ?s = 0"
      then have "unat (of_nat (length ?ys) :: u32) = 0" using b(1) [of 0] by simp
      then show False using False assms(4) by (simp add: unat_of_nat32)
    qed
    have ys: "0 \<notin> set ?ys" using assms(2) by (auto simp: args_of_def dest: set_dropWhileD)
    have "bytes_at (\<lambda>x. argBuf ?s (unat x)) 0 (length ?ys) = ?ys"
      using assms(4) by (intro nth_equalityI) (simp_all add: b(2) arr_def)
    moreover have "argBuf ?s (length ?ys) = 0" using b(2) [of "length ?ys"] assms(4) by (simp add: arr_def)
    ultimately have c: "cstr_at (\<lambda>x. argBuf ?s (unat x)) 0 ?ys" using ys assms(4) by (simp add: cstr_at_def)
    have m: "map (argBuf ?s) [0..<length ?ys] = ?ys" using assms(4) by (intro nth_equalityI) (simp_all add: b(2) arr_def)
    obtain m' where "getargs L out n ?s = Some (0, ?s\<lparr>ram := m'\<rparr>)" "bytes_at (view L (?s\<lparr>ram := m'\<rparr>)) out (length ?ys) = ?ys"
      using getargs_stores [OF maps old(1) out size c m, of n] old(2) assms(4) by auto
    then show ?thesis using v False by (simp add: parse_and_get_def)
  qed
qed

text \<open>
  C29: the tests of \<open>getargs\<close>. Whatever string the buffer on the kernel stack happens to hold, one
  argument, several (delivered as one word without the spaces), a part of them and none at all give
  the results the tests expect; but the test that asks for more bytes than there are fails,
  because \<open>getargs\<close> does not look at the number of bytes.
\<close>

theorem getargs_tests_verdicts:
  assumes "kernel_buffer L out s" and "printing_ok s"
  shows "(\<exists>t. one_letter_arg_test L stack out s = Some (1, t)) \<and> (\<exists>t. word_arg_test L stack out s = Some (1, t))
    \<and> (\<exists>t. multi_word_arg_test L stack out s = Some (1, t)) \<and> (\<exists>t. some_args_test L stack out s = Some (1, t))
    \<and> (\<exists>t. no_args_test L stack out s = Some (1, t)) \<and> (\<exists>t. insufficient_bytes_test L stack out s = Some (0, t))"
proof -
  have run: "\<exists>t. parse_and_get L stack cmd out n (fold putc cs s) = Some (if ys = [] then -1 else 0, t) \<and> bytes_at (view L t) out (length ys) = ys"
    if "length cs < 1000" "ys = args_of (chars cmd)" "0 \<notin> set (chars cmd)" "length cmd < 129" for cs cmd n ys
  proof -
    have "length (args_of (chars cmd)) \<le> length (chars cmd)" "length (name_of (chars cmd)) \<le> length (chars cmd)"
      unfolding args_of_def name_of_def by (auto intro: order_trans [OF length_filter_le] length_dropWhile_le length_takeWhile_le)
    then show ?thesis
      using parse_and_get_spec [OF kernel_buffer_print [OF assms that(1)] that(3), of stack n] that by (simp add: chars_def)
  qed
  have at: "view L t (out + of_nat i) = ys ! i" if "bytes_at (view L t) out (length ys) = ys" "i < length ys" for t :: "'a sys_state_scheme" and ys i
    using that nth_bytes_at by metis
  have a: "args_of (chars ''shell a '') = chars ''a''" "args_of (chars ''shell test'') = chars ''test''"
      "args_of (chars ''shell red green blue'') = chars ''redgreenblue''" "args_of (chars ''shell'') = []" by code_simp+
  note test_defs = one_letter_arg_test_def word_arg_test_def multi_word_arg_test_def some_args_test_def no_args_test_def insufficient_bytes_test_def
  have "\<exists>t. one_letter_arg_test L stack out s = Some (1, t)"
  proof (unfold test_defs, rule after_header, goal_cases)
    case (1 cs)
    then obtain t where t: "parse_and_get L stack ''shell a '' out 1 (fold putc cs s) = Some (0, t)" "bytes_at (view L t) out (length (chars ''a'')) = chars ''a''"
      using run [of cs "chars ''a''" "''shell a ''" 1] a(1) by (auto simp: chars_def)
    then show ?case using at [OF t(2), of 0] by (simp add: chars_def)
  qed
  moreover have "\<exists>t. word_arg_test L stack out s = Some (1, t)"
  proof (unfold test_defs, rule after_header, goal_cases)
    case (1 cs)
    then obtain t where t: "parse_and_get L stack ''shell test'' out 4 (fold putc cs s) = Some (0, t)" "bytes_at (view L t) out (length (chars ''test'')) = chars ''test''"
      using run [of cs "chars ''test''" "''shell test''" 4] a(2) by (auto simp: chars_def)
    then show ?case using at [OF t(2)] by (simp add: length_chars)
  qed
  moreover have "\<exists>t. multi_word_arg_test L stack out s = Some (1, t)"
  proof (unfold test_defs, rule after_header, goal_cases)
    case (1 cs)
    then obtain t where t: "parse_and_get L stack ''shell red green blue'' out 12 (fold putc cs s) = Some (0, t)"
        "bytes_at (view L t) out (length (chars ''redgreenblue'')) = chars ''redgreenblue''"
      using run [of cs "chars ''redgreenblue''" "''shell red green blue''" 12] a(3) by (auto simp: chars_def)
    then show ?case using at [OF t(2)] by (simp add: length_chars)
  qed
  moreover have "\<exists>t. some_args_test L stack out s = Some (1, t)"
  proof (unfold test_defs, rule after_header, goal_cases)
    case (1 cs)
    then obtain t where t: "parse_and_get L stack ''shell red green blue'' out 8 (fold putc cs s) = Some (0, t)"
        "bytes_at (view L t) out (length (chars ''redgreenblue'')) = chars ''redgreenblue''"
      using run [of cs "chars ''redgreenblue''" "''shell red green blue''" 8] a(3) by (auto simp: chars_def)
    have "chars ''redgreenblue'' = chars ''redgreen'' @ chars ''blue''" by (simp add: chars_def)
    then have "chars ''redgreenblue'' ! i = chars ''redgreen'' ! i" if "i < 8" for i using that by (simp add: nth_append length_chars)
    then show ?case using t(1) at [OF t(2)] by (simp add: length_chars)
  qed
  moreover have "\<exists>t. no_args_test L stack out s = Some (1, t)"
  proof (unfold test_defs, rule after_header, goal_cases)
    case (1 cs)
    then obtain t where "parse_and_get L stack ''shell'' out 0 (fold putc cs s) = Some (-1, t)"
      using run [of cs "[]" "''shell''" 0] a(4) by (auto simp: chars_def)
    then show ?case by simp
  qed
  moreover have "\<exists>t. insufficient_bytes_test L stack out s = Some (0, t)"
  proof (unfold test_defs, rule after_header, goal_cases)
    case (1 cs)
    then obtain t where "parse_and_get L stack ''shell test'' out 100 (fold putc cs s) = Some (0, t)"
      using run [of cs "chars ''test''" "''shell test''" 100] a(2) by (auto simp: chars_def)
    then show ?case by simp
  qed
  ultimately show ?thesis by blast
qed

theorem getargs_tests_verdicts_witness:
  "\<exists>t. insufficient_bytes_test boot_layout (\<lambda>_. 0) 0x700000 (elf_demo\<lparr>screen_x := 0, screen_y := 0\<rparr>) = Some (0, t)"
proof -
  let ?s = "elf_demo\<lparr>screen_x := 0, screen_y := 0\<rparr>"
  obtain A where "address_space boot_layout elf_demo A" using elf_demo_space by blast
  then have A: "address_space boot_layout ?s A" by (simp add: address_space_def)
  have "translate boot_layout ?s 0x700000 = Some \<lparr>frame_addr = 0x700000, user_ok = False, writable = True\<rparr>"
    using address_space_translate [OF elf_demo_space(2) A] by (simp add: as_translate_def)
  then have "cstr_at (view boot_layout ?s) 0x700000 []" by (simp add: view_def) (simp add: elf_demo_def sys_demo_fields)
  then have "kernel_buffer boot_layout 0x700000 ?s" using A elf_demo_space(2) by (auto simp: kernel_buffer_def intro!: exI [of _ "[]"])
  moreover have "printing_ok ?s" by (simp add: printing_ok_def)
  ultimately show ?thesis using getargs_tests_verdicts [of boot_layout "0x700000" ?s "\<lambda>_. 0"] by blast
qed

section \<open>Interrupts and paging\<close>

lemma print_idt [simp]: "idt (fold putc cs s) = idt s"
  by (induction cs arbitrary: s) (simp_all add: putc_def Let_def)

text \<open>The table of gates after \<open>idt_init\<close>, with the routines of the exceptions at different addresses other than 0.\<close>

definition gates_set :: "(handler \<Rightarrow> u32) \<Rightarrow> 'a idt_state_scheme \<Rightarrow> bool" where
  "gates_set addr s \<longleftrightarrow> (\<exists>u :: 'a idt_state_scheme. idt s = idt (idt_init addr u)) \<and> inj_on addr (set exceptions) \<and> 0 \<notin> addr ` set exceptions"

lemma gates_set_print [simp]: "gates_set addr (fold putc cs s) = gates_set addr s"
  by (simp add: gates_set_def)

lemma gates_offset:
  fixes s :: "'a idt_state_scheme"
  assumes "gates_set addr s" "n < 20"
  shows "g_offset (decode (idt s n)) = addr (exceptions ! n)" "g_offset (decode (idt s n)) \<noteq> 0"
proof -
  obtain u :: "'a idt_state_scheme" where "idt s = idt (idt_init addr u)" using assms(1) by (auto simp: gates_set_def)
  then show o: "g_offset (decode (idt s n)) = addr (exceptions ! n)"
    using assms(2) idt_gates [of n addr u] by (simp add: vector_handler_def)
  have "exceptions ! n \<in> set exceptions" using assms(2) by (intro nth_mem) (simp add: exceptions_def)
  then show "g_offset (decode (idt s n)) \<noteq> 0" using assms(1) o by (auto simp: gates_set_def)
qed

lemma raise_exception_spins:
  assumes "gates_set addr s" "n < 20"
  shows "raise_exception addr n s = Some (Spins ((exception_handlers ! n) s))"
proof -
  have l: "length exceptions = 20" "distinct exceptions" by (simp_all add: exceptions_def)
  have first: "\<forall>n\<in>set [0..<20]. find (\<lambda>i. i = n) [0..<20] = Some n" by code_simp
  have "addr (exceptions ! i) = g_offset (decode (idt s n)) \<longleftrightarrow> i = n" if "i < 20" for i
    using assms that l gates_offset(1) [OF assms] nth_eq_iff_index_eq [OF l(2), of i n] unfolding gates_set_def by (metis inj_on_eq_iff nth_mem)
  then have "find (\<lambda>i. addr (exceptions ! i) = g_offset (decode (idt s n))) [0..<20] = find (\<lambda>i. i = n) [0..<20]"
    by (intro find_cong) (auto simp del: upt_rec_numeral)
  also have "\<dots> = Some n" using assms(2) first by simp
  finally show ?thesis by (simp add: raise_exception_def del: upt_rec_numeral)
qed

text \<open>
  The tests of the interrupt table and of paging. After \<open>idt_init\<close> and with paging set up, the
  first ten gates are not null and the access to video memory is no fault, so that these tests
  pass; the division by zero and the access to address 0 end in the routines of the divide error
  and of the page fault.
\<close>

theorem interrupt_tests_verdicts:
  assumes "gates_set addr s" and "layout_ok L" and "address_space L s A"
  shows "(\<exists>t. idt_test addr stack s = Some (Finished 1 t)) \<and> (\<exists>u. exception_de_test addr stack s = Some (Spins (exception_0_de u)))
    \<and> (\<exists>t. page_nofault_test addr L stack s = Some (Finished 1 t)) \<and> (\<exists>u. page_fault_test addr L stack s = Some (Spins (exception_14_pf u)))"
proof -
  have e: "exception_handlers ! 0 = (exception_0_de :: 'a idt_state_scheme \<Rightarrow> _)" "exception_handlers ! 14 = (exception_14_pf :: 'a idt_state_scheme \<Rightarrow> _)"
    by (simp_all add: exception_handlers_def)
  have g: "gates_set addr (fold putc cs s)" for cs using assms(1) by simp
  have tr: "translate L (fold putc cs s) a = as_translate A a" for cs a
    using address_space_translate [OF assms(2,3)] by (simp add: print_translate)
  have "\<exists>t. idt_test addr stack s = Some (Finished 1 t)"
  proof (unfold idt_test_def, rule after_header, goal_cases)
    case (1 cs)
    have "\<not> (get_field offset_15_00 (val0 (idt s i)) = 0 \<and> get_field offset_31_16 (val1 (idt s i)) = 0)" if "i < 10" for i
    proof
      assume z: "get_field offset_15_00 (val0 (idt s i)) = 0 \<and> get_field offset_31_16 (val1 (idt s i)) = 0"
      have "drop_bit 16 (val1 (idt s i)) = take_bit 16 (drop_bit 16 (val1 (idt s i)))" by (rule bit_word_eqI) (auto simp: bit_simps dest: bit_imp_le_length)
      then have "g_offset (decode (idt s i)) = 0" using z by (simp add: decode_def get_field_def offset_15_00_def offset_31_16_def)
      then show False using gates_offset(2) [OF assms(1), of i] that by simp
    qed
    then show ?case by (auto simp del: upt_rec_numeral)
  qed
  moreover have "\<exists>u. exception_de_test addr stack s = Some (Spins (exception_0_de u))"
    unfolding exception_de_test_def by (rule after_header) (auto simp: raise_exception_spins [OF g] e)
  moreover have "\<exists>t. page_nofault_test addr L stack s = Some (Finished 1 t)"
  proof (unfold page_nofault_test_def, rule after_header, goal_cases)
    case (1 cs)
    have "[0..<4] = [0, 1, 2, 3 :: nat]" by code_simp
    then obtain v where "deref L (fold putc cs s) 0xB8000 = Some v" by (simp add: deref_def tr as_translate_def)
    then show ?case using printk_test [of "''%d\<newline>''" v stack "fold putc cs s"] by (auto simp: number_formats_def)
  qed
  moreover have "\<exists>u. page_fault_test addr L stack s = Some (Spins (exception_14_pf u))"
  proof (unfold page_fault_test_def, rule after_header, goal_cases)
    case (1 cs)
    have "deref L (fold putc cs s) 0 = None" by (auto simp: deref_def tr as_translate_def intro!: exI [of _ 0])
    then show ?case by (auto simp: raise_exception_spins [OF g] e)
  qed
  ultimately show ?thesis by blast
qed

text \<open>The routines one after the other in the kernel's page.\<close>

definition spaced_addr :: "handler \<Rightarrow> u32" where
  "spaced_addr h = 0x401000 + 16 * of_nat (length (takeWhile (\<lambda>g. g \<noteq> h) exceptions))"

definition table_demo :: "unit idt_state_scheme" where
  "table_demo = idt_init spaced_addr (sys_state.extend elf_demo (idt_state.fields (\<lambda>_. \<lparr>val0 = 7, val1 = 9\<rparr>)))"

theorem interrupt_tests_verdicts_witness:
  "\<exists>u. page_fault_test spaced_addr boot_layout (\<lambda>_. 0) table_demo = Some (Spins (exception_14_pf u))"
proof -
  have "distinct (map spaced_addr exceptions)" "0 \<notin> set (map spaced_addr exceptions)" by code_simp+
  then have "gates_set spaced_addr table_demo" by (auto simp: gates_set_def distinct_map table_demo_def)
  moreover obtain A where "address_space boot_layout elf_demo A" using elf_demo_space by blast
  then have "address_space boot_layout table_demo A" by (simp add: address_space_def table_demo_def idt_init_def sys_state.defs)
  ultimately show ?thesis using interrupt_tests_verdicts elf_demo_space(2) by blast
qed

lemma address_space_more: "screen_state.more s' = screen_state.more s \<Longrightarrow> address_space L s' A = address_space L s A"
  using paging_of_screen_more [of s' s] by (simp add: address_space_def)

lemma clear_more [simp]: "screen_state.more (clear s) = screen_state.more s"
  by (simp add: clear_def update_cursor_def set_x_def set_y_def outb_def Let_def)

lemma deref_mapped: "(\<And>i. i < 4 \<Longrightarrow> translate L s (a + of_nat i) \<noteq> None) \<Longrightarrow> deref L s a = Some (load32 (view L s) a)"
  unfolding deref_def by (intro if_P ballI) (simp del: upt_rec_numeral)

text \<open>A word stored for process \<open>p\<close>, at the entry address of programs.\<close>

lemma store_for_process:
  assumes "layout_ok L" "address_space L s A" "0 \<le> p" "p < 6"
  shows "store_bytes L 0x8048000 (le_bytes v) (pid_page_map p s)
      = Some ((pid_page_map p s)\<lparr>ram := write_bytes (ram s) (user_phys p 0x8048000) (le_bytes v)\<rparr>)"
    and "user_mapped L p (pid_page_map p s)" "\<exists>A. address_space L (pid_page_map p s) A"
proof -
  have A: "address_space L (pid_page_map p s) (A\<lparr>user := Some p\<rparr>)" using pid_page_map_address_space [OF assms(2-4)] .
  then show u: "user_mapped L p (pid_page_map p s)" "\<exists>A. address_space L (pid_page_map p s) A" using assms(1) by (auto simp: user_mapped_def)
  have "ram (pid_page_map p s) = ram s" by (simp add: pid_page_map_def set_pde_def flush_tlb_def load_cr3_def)
  then show "store_bytes L 0x8048000 (le_bytes v) (pid_page_map p s)
      = Some ((pid_page_map p s)\<lparr>ram := write_bytes (ram s) (user_phys p 0x8048000) (le_bytes v)\<rparr>)"
    using store_bytes_user [OF u(1), of "0x8048000" "le_bytes v"] by (simp add: in_window_def le_bytes_def)
qed

text \<open>
  The paging test. Process 0 stores 5 and process 1 then stores 6 at the same address; when
  the page of process 0 is mapped again, the test reads and prints the 5 of process 0, and the 6
  is in the frame of process 1.
\<close>

theorem paging_test_separates_processes:
  assumes "layout_ok L" and "address_space L s A"
  shows "\<exists>u. page_nofault_test_b5 L stack s = Some (1, fold putc [53, 10] u) \<and> user_mapped L 0 u
    \<and> load32 (view L u) 0x8048000 = 5 \<and> load32 (ram u) (user_phys 1 0x8048000) = 6"
proof (unfold page_nofault_test_b5_def, rule after_header, goal_cases)
  case (1 cs)
  let ?s = "clear (fold putc cs s)" and ?p = "\<lambda>p. user_phys p 0x8048000"
  let ?s1 = "(pid_page_map 0 ?s)\<lparr>ram := write_bytes (ram ?s) (?p 0) (le_bytes 5)\<rparr>"
  let ?s2 = "(pid_page_map 1 ?s1)\<lparr>ram := write_bytes (ram ?s1) (?p 1) (le_bytes 6)\<rparr>"
  let ?u = "pid_page_map 0 ?s2"
  have A: "address_space L ?s A" using assms(2) address_space_more [of ?s s L A] by simp
  obtain A1 where A1: "address_space L ?s1 A1" using store_for_process(3) [OF assms(1) A, of 0] by (auto simp: address_space_def)
  obtain A2 where A2: "address_space L ?s2 A2" using store_for_process(3) [OF assms(1) A1, of 1] by (auto simp: address_space_def)
  have st1: "store_bytes L 0x8048000 (le_bytes 5) (pid_page_map 0 ?s) = Some ?s1" by (rule store_for_process(1) [OF assms(1) A]) simp_all
  have st2: "store_bytes L 0x8048000 (le_bytes 6) (pid_page_map 1 ?s1) = Some ?s2" by (rule store_for_process(1) [OF assms(1) A1]) simp_all
  have bytes: "le_bytes 5 = [5, 0, 0, 0]" "le_bytes 6 = [6, 0, 0, 0]" by code_simp+
  have w: "in_window (0x8048000 + of_nat i) (Suc 0)" if "i < 4" for i using in_window_offset [of "0x8048000" 4 i] that by (simp add: in_window_def)
  have um: "user_mapped L 0 ?u" by (rule store_for_process(2) [OF assms(1) A2]) simp_all
  have v: "view L ?u (0x8048000 + of_nat i) = ram ?u (0x848000 + of_nat i)" if "i < 4" for i
    using view_user [OF um w [OF that]] by (simp add: user_phys_def)
  have v5: "load32 (view L ?u) 0x8048000 = 5"
    using v [of 0] v [of 1] v [of 2] v [of 3] by (simp add: load32_def bytes user_phys_def)
  have v6: "load32 (ram ?u) (?p 1) = 6" by (simp add: load32_def bytes user_phys_def)
  have "translate L ?u (0x8048000 + of_nat i) \<noteq> None" if "i < 4" for i using user_mapped_translate [OF um w [OF that]] by simp
  then have "deref L ?u 0x8048000 = Some (load32 (view L ?u) 0x8048000)" by (rule deref_mapped)
  then have d: "deref L ?u 0x8048000 = Some 5" unfolding v5 .
  have "numeral_text 100 False 5 = [53]" by code_simp
  then have p: "printk ''%d\<newline>'' [5] stack ?u = Some (fold putc [53, 10] ?u)"
    using printk_one [of "''%d\<newline>''" "[]" 100 "[10]" 5 stack ?u] by (simp add: chars_def)
  show ?case unfolding Let_def st1 bind.bind_lunit st2 d p using um v5 v6 by blast
qed

theorem paging_test_separates_processes_witness:
  "\<exists>u. page_nofault_test_b5 boot_layout (\<lambda>_. 0) elf_demo = Some (1, fold putc [53, 10] u) \<and> load32 (view boot_layout u) 0x8048000 = 5"
  using paging_test_separates_processes [OF elf_demo_space(2)] elf_demo_space(1) by blast

section \<open>Execute and open\<close>

text \<open>A file of the directory that \<open>execute\<close> accepts.\<close>

definition executable :: "'a sys_state_scheme \<Rightarrow> string \<Rightarrow> bool" where
  "executable s f \<longleftrightarrow> (\<exists>d. read_dentry_by_name (array_mem (arr (chars f))) 0 s = Some d \<and> valid_inode s (inode d) \<and> 28 \<le> inode_length s (inode d)
     \<and> inode_length s (inode d) < 2147483648 \<and> take 4 (file_contents s (inode d)) = elf_magic)"

lemma executable_cong: "fs_core s' = fs_core s \<Longrightarrow> executable s' f = executable s f"
  unfolding executable_def by (simp only: fs_core_lookup [of s' s] fs_core_file [of s' s])

lemma executable_verified:
  assumes "executable s f" "32 \<notin> set (chars f)" "0 \<notin> set (chars f)" "length f < 129"
  shows "\<exists>eip t. verify_file (lit_mem f) 1 stack s = Some (Some (arr (chars f), eip), t) \<and> fs_core t = fs_core s"
proof -
  have "\<forall>c\<in>set (chars f). c \<noteq> 32" using assms(2) by auto
  then have n: "name_of (chars f) = chars f" "args_of (chars f) = []" by (simp_all add: name_of_def args_of_def dropWhile_eq_Nil_conv [THEN iffD2])
  have fs: "fs_core (parsed (chars f) s) = fs_core s" by (simp add: parsed_def fs_core_def)
  obtain d where d: "read_dentry_by_name (array_mem (arr (chars f))) 0 (parsed (chars f) s) = Some d" "valid_inode (parsed (chars f) s) (inode d)"
      "28 \<le> inode_length (parsed (chars f) s) (inode d)" "inode_length (parsed (chars f) s) (inode d) < 2147483648"
      "take 4 (file_contents (parsed (chars f) s) (inode d)) = elf_magic"
    using assms(1) executable_cong [OF fs] unfolding executable_def by blast
  obtain eip where "check_file (arr (chars f)) stack (parsed (chars f) s) = Some (arr (chars f), eip)"
    using check_file_spec [OF d(1-4), of stack] d(5) by auto
  then have "verify_file (lit_mem f) 1 stack s = Some (Some (arr (chars f), eip), parsed (chars f) s)"
    using verify_file_spec [OF lit_string [OF assms(3)], of stack s] n assms(4) by (simp add: length_chars)
  then show ?thesis using fs by blast
qed

text \<open>The descriptors that are free, and opening a file of the directory again and again.\<close>

definition free_count :: "'a sys_state_scheme \<Rightarrow> nat" where
  "free_count s = card {i \<in> {2..<8}. bitmap (pcbs s (curr s)) i = 0}"

lemma free_count_0: "free_count s = 0 \<longleftrightarrow> free_desc (bitmap (pcbs s (curr s))) = -1"
proof -
  have "finite {i \<in> {2..<8 :: nat}. bitmap (pcbs s (curr s)) i = 0}" by simp
  then have "free_count s = 0 \<longleftrightarrow> (\<forall>i. 2 \<le> i \<longrightarrow> i < 8 \<longrightarrow> bitmap (pcbs s (curr s)) i \<noteq> 0)" by (auto simp: free_count_def)
  then show ?thesis using desc.alloc_full by blast
qed

lemma sys_open_counts:
  assumes "a \<noteq> 0" "read_dentry_by_name (view L s) a s = Some d"
  shows "free_count (snd (sys_open L a s)) = free_count s - 1" "read_dentry_by_name (view L (snd (sys_open L a s))) a (snd (sys_open L a s)) = Some d"
proof -
  let ?t = "snd (sys_open L a s)"
  have frame: "ram ?t = ram s \<and> page_directory ?t = page_directory s \<and> page_table ?t = page_table s \<and> vidMem_table ?t = vidMem_table s
      \<and> fs_core ?t = fs_core s \<and> curr ?t = curr s"
    using assms by (simp add: sys_open_def Let_def open_dir_def set_pcb_def fs_core_def)
  then show "read_dentry_by_name (view L ?t) a ?t = Some d"
    using assms(2) view_cong [of ?t s L] fs_core_lookup [of ?t s] by simp
  show "free_count ?t = free_count s - 1"
  proof (cases "free_desc (bitmap (pcbs s (curr s))) = -1")
    case True
    then have "?t = s" using assms by (simp add: sys_open_def Let_def)
    moreover have "free_count s = 0" using True by (simp add: free_count_0)
    ultimately show ?thesis by simp
  next
    case False
    obtain i where i: "free_desc (bitmap (pcbs s (curr s))) = int i" "2 \<le> i" "i < 8" "bitmap (pcbs s (curr s)) i = 0"
      using desc.alloc_lowest [OF False] by auto
    have "bitmap (pcbs ?t (curr ?t)) = (bitmap (pcbs s (curr s)))(i := 1)"
      using frame sys_open_pcb [OF assms i(1)] by (simp add: set_fd_def set_bitmap_def)
    then have "{j \<in> {2..<8}. bitmap (pcbs ?t (curr ?t)) j = 0} = {j \<in> {2..<8}. bitmap (pcbs s (curr s)) j = 0} - {i}" by auto
    then show ?thesis using i(2-4) by (simp add: free_count_def)
  qed
qed

lemma opens_fill:
  assumes "a \<noteq> 0" "read_dentry_by_name (view L s) a s = Some d"
  shows "free_count (fold (\<lambda>i s. snd (sys_open L a s)) (is :: nat list) s) = free_count s - length is"
  using assms(2)
proof (induction "is" arbitrary: s)
  case (Cons i "is")
  then show ?case using sys_open_counts [OF assms(1) Cons.prems] by simp
qed simp

lemma free_count_le: "free_count s \<le> 6"
proof -
  have "card {i \<in> {2..<8 :: nat}. bitmap (pcbs s (curr s)) i = 0} \<le> card {2..<8 :: nat}" by (rule card_mono) auto
  then show ?thesis by (simp add: free_count_def)
qed

lemma print_bitmap_text: "\<exists>out. print_bitmap stack b s = Some (fold putc out s)"
proof -
  have "\<exists>out. print_files stack is b s = Some (fold putc out s)" for "is" and s :: "'a screen_state_scheme"
  proof (induction "is" arbitrary: s)
    case Nil
    then show ?case using printk_test [of "''%d}\<newline>''" "of_int (bitmap b 7)" stack s] by (simp add: number_formats_def)
  next
    case (Cons i "is")
    obtain o1 where o1: "printk ''%d, '' [of_int (bitmap b i)] stack s = Some (fold putc o1 s)"
      using printk_test [of "''%d, ''" "of_int (bitmap b i)" stack s] by (auto simp: number_formats_def)
    obtain o2 where o2: "print_files stack is b (fold putc o1 s) = Some (fold putc o2 (fold putc o1 s))" using Cons.IH by blast
    then show ?case using o1 by (intro exI [of _ "o1 @ o2"]) simp
  qed
  then obtain out where "print_files stack [0..<7] b (print_lit ''available files: {'' s) = Some (fold putc out (print_lit ''available files: {'' s))" by blast
  then show ?thesis unfolding print_bitmap_def print_lit_def by (intro exI [of _ "chars ''available files: {'' @ out"]) simp
qed

lemma print_fs [simp]: "fs_core (fold putc cs s) = fs_core s" "pcbs (fold putc cs s) = pcbs s" "curr (fold putc cs s) = curr s"
proof -
  have "fs_core (putc c s) = fs_core s \<and> pcbs (putc c s) = pcbs s \<and> curr (putc c s) = curr s" for c and s :: "'a sys_state_scheme"
    by (simp add: putc_def Let_def fs_core_def)
  then show "fs_core (fold putc cs s) = fs_core s" "pcbs (fold putc cs s) = pcbs s" "curr (fold putc cs s) = curr s"
    by (induction cs arbitrary: s; simp)+
qed

lemma array_string:
  assumes "0 \<notin> set (chars f)" "length f < 129"
  shows "cstr_at (array_mem (arr (chars f))) 0 (chars f)"
proof -
  have "bytes_at (array_mem (arr (chars f))) 0 (length f) = chars f"
    using assms(2) by (intro nth_equalityI) (simp_all add: array_mem_def arr_def length_chars unat_of_nat)
  moreover have "array_mem (arr (chars f)) (of_nat (length f)) = 0" using assms(2) by (simp add: array_mem_def arr_def length_chars unat_of_nat)
  ultimately show ?thesis using assms by (simp add: cstr_at_def length_chars)
qed

lemma lookup_string:
  assumes "cstr_at m a (chars f)" "0 \<notin> set (chars f)" "length f < 129"
  shows "read_dentry_by_name m a s = read_dentry_by_name (array_mem (arr (chars f))) 0 s"
proof -
  have "field_string m a k = field_string (array_mem (arr (chars f))) 0 k" for k
    using field_string_cstr [OF assms(1)] field_string_cstr [OF array_string [OF assms(2,3)]] by simp
  then show ?thesis by (simp add: read_dentry_by_name_def strncmp.cmp_zero)
qed

lemma valid_file_loop_passes:
  assumes "\<forall>f\<in>set fs. executable s f \<and> 32 \<notin> set (chars f) \<and> 0 \<notin> set (chars f) \<and> length f < 129"
  shows "\<exists>v t. valid_file_loop stack fs s = Some (Some v, t)"
  using assms
proof (induction fs arbitrary: stack s)
  case (Cons f fs)
  obtain eip t where t: "verify_file (lit_mem f) 1 stack s = Some (Some (arr (chars f), eip), t)" "fs_core t = fs_core s"
    using executable_verified [of s f stack] Cons.prems by auto
  have f: "0 \<notin> set (chars f)" "length f < 129" using Cons.prems by simp_all
  have "cstr_at (array_mem (arr (chars f))) 0 (chars f)" by (rule array_string) (use f in simp_all)
  then have "field_string (array_mem (arr (chars f))) 0 4 = field_string (lit_mem f) 1 4"
    using field_string_cstr lit_string [OF f(1)] f(2) by simp
  then have "strncmp (array_mem (arr (chars f))) 0 (lit_mem f) 1 4 = 0" by (simp add: strncmp.cmp_zero)
  moreover have "\<forall>f\<in>set fs. executable t f \<and> 32 \<notin> set (chars f) \<and> 0 \<notin> set (chars f) \<and> length f < 129"
    using Cons.prems executable_cong [OF t(2)] by simp
  then obtain v u where "valid_file_loop (write_bytes stack 4 (le_bytes eip)) fs t = Some (Some v, u)" using Cons.IH by blast
  ultimately show ?case using t(1) by simp
qed simp

lemma exec_valid_passes:
  assumes "executable s ''shell''" and "executable s ''testprint''"
  shows "\<exists>t. exec_valid_file_test stack s = Some (1, t)"
proof (unfold exec_valid_file_test_def, rule after_header, goal_cases)
  case (1 cs)
  have ok: "\<forall>f\<in>set [''shell'', ''testprint'']. 32 \<notin> set (chars f) \<and> 0 \<notin> set (chars f) \<and> length f < 129" by code_simp
  have "executable (fold putc cs s) f = executable s f" for f by (rule executable_cong) simp
  then have "\<forall>f\<in>set [''shell'', ''testprint'']. executable (fold putc cs s) f" using assms by simp
  then obtain v t where v: "valid_file_loop stack [''shell'', ''testprint''] (fold putc cs s) = Some (Some v, t)"
    using valid_file_loop_passes [of "[''shell'', ''testprint'']" "fold putc cs s" stack] ok by blast
  obtain out where "printk ''starting v_addr: %x\<newline>'' [v] stack t = Some (fold putc out t)"
    using printk_test [of "''starting v_addr: %x\<newline>''" v stack t] by (auto simp: number_formats_def)
  then show ?case using v by simp
qed

lemma exec_invalid_passes:
  assumes "read_dentry_by_name (array_mem (arr (chars ''114514OS''))) 0 s = None"
  shows "\<exists>t. exec_invalid_file_test stack s = Some (1, t)"
proof (unfold exec_invalid_file_test_def, rule after_header, goal_cases)
  case (1 cs)
  let ?c = "chars ''114514OS''" and ?s = "fold putc cs s"
  have c: "0 \<notin> set ?c" "name_of ?c = ?c" "args_of ?c = []" "length ?c = 8" by code_simp+
  have l: "length ''114514OS'' < 4294967295" by simp
  have "fs_core (parsed ?c ?s) = fs_core ?s" by (simp add: parsed_def fs_core_def)
  then have "check_file (arr ?c) stack (parsed ?c ?s) = None"
    using assms fs_core_lookup [of "parsed ?c ?s" s] by (simp add: check_file_def)
  then have v: "verify_file (lit_mem ''114514OS'') 1 stack ?s = Some (None, parsed ?c ?s)"
    using verify_file_spec [OF lit_string [OF c(1) l], of stack ?s] by (simp only: c(2-4)) simp
  obtain out where "printk ''starting v_addr: %x\<newline>'' [load32 stack 4] stack (parsed ?c ?s) = Some (fold putc out (parsed ?c ?s))"
    using printk_test [of "''starting v_addr: %x\<newline>''"] by (fastforce simp: number_formats_def)
  then show ?case using v by simp
qed

lemma exec_null_passes: "\<exists>t. exec_null_file_test m stack s = Some (1, t)"
proof (unfold exec_null_file_test_def, rule after_header, goal_cases)
  case (1 cs)
  obtain out where "printk ''starting v_addr: %x\<newline>'' [load32 stack 4] stack (fold putc cs s) = Some (fold putc out (fold putc cs s))"
    using printk_test [of "''starting v_addr: %x\<newline>''"] by (fastforce simp: number_formats_def)
  then show ?case by (simp add: verify_file_def)
qed

lemma open_max_passes:
  assumes "layout_ok L" "address_space L s A" "printing_ok s" "0x400000 \<le> unat (lit ''shell'')" "unat (lit ''shell'') + 5 < 0x800000"
    and "cstr_at (view L s) (lit ''shell'') (chars ''shell'')" "read_dentry_by_name (array_mem (arr (chars ''shell''))) 0 s = Some d"
  shows "\<exists>t. open_file_max_test lit L stack s = Some (1, t)"
proof (unfold open_file_max_test_def, rule after_header, goal_cases)
  case (1 cs)
  let ?a = "lit ''shell''" and ?s = "fold putc cs s"
  let ?t = "fold (\<lambda>i s. snd (sys_open L ?a s)) [0..<8] ?s"
  have shell: "0 \<notin> set (chars ''shell'')" "length (chars ''shell'') = 5" "length ''shell'' < 129" by code_simp+
  have "length cs < 1000" using 1 by simp
  then have "cstr_at (view L ?s) ?a (chars ''shell'')" using print_cstr [OF assms(1-3) _ assms(4), of cs "chars ''shell''"] assms(5,6) shell(2) by simp
  then have "read_dentry_by_name (view L ?s) ?a ?s = read_dentry_by_name (array_mem (arr (chars ''shell''))) 0 ?s" by (rule lookup_string) (use shell in simp_all)
  then have "read_dentry_by_name (view L ?s) ?a ?s = Some d" using assms(7) fs_core_lookup [of ?s s] by simp
  moreover have nz: "?a \<noteq> 0" using assms(4) by auto
  ultimately have "free_count ?t = free_count ?s - 8" using opens_fill [of ?a L ?s d "[0..<8]"] by simp
  then have "free_count ?t = 0" using free_count_le [of ?s] by simp
  then have full: "free_desc (bitmap (pcbs ?t (curr ?t))) = -1" by (simp add: free_count_0)
  define u where "u = ?t"
  obtain out where p: "print_bitmap stack (pcbs u 0) (print_lit ''pcb_shell struct after six opens:\<newline>'' u) = Some (fold putc out (print_lit ''pcb_shell struct after six opens:\<newline>'' u))"
    using print_bitmap_text by blast
  have "free_desc (bitmap (pcbs u (curr u))) = -1" using full by (simp only: u_def)
  then have "sys_open L ?a (fold putc out (print_lit ''pcb_shell struct after six opens:\<newline>'' u)) = (-1, fold putc out (print_lit ''pcb_shell struct after six opens:\<newline>'' u))"
    by (simp add: sys_open_def print_lit_def Let_def split: option.splits)
  then show ?case using p by (simp only: u_def [symmetric] Let_def) simp
qed

end
