(* ===== verification/Spec2Isabelle.thy ===== *)
theory Spec2Isabelle
  imports Boot Descriptors User_Clock Fish Linux_Calls Self_Tests
begin

text \<open>
  A verification library for the teaching kernel of this repository (\<open>student-distrib\<close>), a
  single-processor protected-mode kernel with three text terminals, six processes, a read-only
  file system in memory and the system calls \<open>halt\<close>, \<open>execute\<close>, \<open>read\<close>, \<open>write\<close>, \<open>open\<close>,
  \<open>close\<close>, \<open>getargs\<close> and \<open>vidmap\<close>, and for its user programs and the library they are linked with
  (\<open>syscalls\<close>, \<open>fish\<close>).

  \<^bold>\<open>The program and its parts.\<close> The boot loader starts \<open>boot.S\<close>, which calls
  \<open>entry\<close>. \<open>entry\<close> (\<open>kernel.c\<close>) prints what the boot loader reports,
  sets up the descriptors, initialises the interrupt controller, the file system, paging, the interrupt
  descriptor table, the keyboard, the timer and the clock, and executes the first shell. From then on the
  kernel runs only when it is called: by a system call of the running program (\<open>syscall_asm\<close>), by
  the timer (\<open>pit_int_handler\<close>, which passes the processor to the next terminal that runs a
  program), by the keyboard (\<open>keyboard_handler\<close>, which edits the line of the displayed terminal
  and obeys the hot keys) and by the clock. All parts share one state.

  \<^bold>\<open>State.\<close> One record per component extends that of the components it calls, so that the
  state of the whole kernel is a single record and an operation of a component is a function on
  every extension of its own record: \<open>machine\<close> (the interrupt flag and the trace of port
  accesses), \<open>pic_state\<close>, \<open>rtc_state\<close>, \<open>screen_state\<close> (physical memory \<open>ram\<close> and the cursors),
  \<open>paging_state\<close>, \<open>kbd_state\<close>, \<open>fs_state\<close>, \<open>sys_state\<close> (process table, process blocks, task state
  segment), \<open>idt_state\<close>, \<open>kernel_state\<close>. C integers of a fixed width are words, or \<open>int\<close> and \<open>nat\<close>
  where the source keeps them in a small range. A program sees memory through the page
  tables: \<open>view L s\<close> is what it reads and \<open>store_bytes L\<close> what it writes, \<open>None\<close> being a fault.

  \<^bold>\<open>Theories.\<close>
  \<^item> \<open>Prelude\<close>: words, memories, byte strings, ports, waiting loops, and the collections of rules.
  \<^item> \<open>Lib_Memory\<close>, \<open>Lib_String\<close> (\<open>lib.c\<close>): the memory routines at the level of their inline assembly
    and the string routines; each equals a one-line specification, and the conversion of numbers
    gives the one numeral without leading zeros that denotes the number.
  \<^item> \<open>Pic\<close> (\<open>i8259.c\<close>), \<open>Rtc\<close> (\<open>rtc.c\<close>): the masks refine a set of enabled lines; the clock's read
    returns at the next interrupt, or at once when one has come before.
  \<^item> \<open>Screen\<close>, \<open>Printf\<close>, \<open>Terminal\<close> (\<open>lib.c\<close>): the three text pages refine abstract terminals with
    rows, a cursor and scrolling; typing on one does not touch the others; switching the displayed
    terminal keeps what each of them shows.
  \<^item> \<open>Format\<close> (\<open>lib.c\<close>): what \<open>printf\<close> prints, as a function on lists of characters to which its loop
    over the format is equivalent.
  \<^item> \<open>Bitfield\<close>, \<open>Paging\<close> (\<open>paging.c\<close>, \<open>paging.h\<close>): directory and tables as bit fields, the translation
    the processor makes from them, and the address space they refine; user pages are disjoint.
  \<^item> \<open>Keyboard\<close>, \<open>Keyboard_Handler\<close> (\<open>keyboard.c\<close>, \<open>scan_code.c\<close>): line editing refines a bounded
    list; the handler takes the codes that the controller has (in one interrupt or in several, whatever
    came before), and what is typed up to Enter is what a waiting read gets.
  \<^item> \<open>Filesys\<close> (\<open>filesys_read.c\<close>): lookup, data blocks, directory listing.
  \<^item> \<open>Files\<close>, \<open>Process\<close>, \<open>Loader\<close> (\<open>syscall.c\<close>): descriptors, processes, the loading of programs,
    arguments; \<open>Process\<close> has the dispatcher of \<open>interrupt_service_wrapper.S\<close>.
  \<^item> \<open>Scheduler\<close> (\<open>timer.c\<close>): the context switch, and how many ticks a terminal can be from its turn.
  \<^item> \<open>Idt\<close> (\<open>idt.c\<close>), \<open>Kernel\<close> (\<open>kernel.c\<close>): gates, exceptions, descriptors and \<open>entry\<close>.
  \<^item> \<open>Boot_Image\<close>: the machine of the examples as the boot loader leaves it, with the file system as a
    module in the Multiboot structure.
  \<^item> \<open>Boot\<close> (\<open>boot.S\<close>, \<open>x86_desc.S\<close>, the end of \<open>execute_with_terminal_num\<close>): the global descriptor table, which
    makes segmentation the identity, the switch to user mode with \<open>iret\<close>, and the way from the boot loader
    to the first shell in user mode.
  \<^item> \<open>System\<close>: the configurations reachable from the boot by interrupts, system calls and stores, as an
    inductive relation, with the invariant of all of them, what user mode can get at, and the
    fairness of the scheduler. A configuration is the kernel's state with the reads that wait.
  \<^item> \<open>Descriptors\<close>: file descriptors as typed references: a typing environment that only \<open>open\<close> and
    \<open>close\<close> change, and the operation that a well-typed read or write runs.
  \<^item> \<open>User_Support\<close> (\<open>syscalls/ece391support.c\<close>): the string library of the user programs computes
    what the kernel's does.
  \<^item> \<open>User_Calls\<close> (\<open>syscalls/ece391syscall.S\<close>): the system call wrappers, and the kernel as a
    program sees it: its memory, the text on its terminal, its descriptors, the directory, its
    arguments (\<open>prog_view\<close>), with a rule for what each call does to this view.
  \<^item> \<open>User_Programs\<close>, \<open>User_Grep\<close>, \<open>User_Tests\<close> (\<open>syscalls\<close>): \<open>cat\<close>, \<open>ls\<close>, \<open>hello\<close>, \<open>counter\<close>,
    \<open>testprint\<close>, \<open>grep\<close>, the shell and the error tests \<open>syserr\<close>, whole programs over the model of the kernel, and what a
    user sees of them; \<open>User_Demo\<close> has the machine of the examples.
  \<^item> \<open>User_Clock\<close> (\<open>syscalls\<close>): \<open>pingpong\<close>, which runs for ever at the pace of the clock, and \<open>sigtest\<close>,
    which faults because the kernel has no signals.
  \<^item> \<open>Fish_Blink\<close> (\<open>fish/blink.S\<close>, \<open>fish/fish.c\<close>): blinking characters, a list linked through an array that
    refines a list; \<open>Fish\<close> has the program that animates two frames of text with it.
  \<^item> \<open>Linux_Calls\<close> (\<open>syscalls/ece391emulate.c\<close>): the system calls of the programs when they run on Linux; a
    command line passes through \<open>execute\<close> and \<open>getargs\<close> unchanged, and the directory is read entry by entry.
  \<^item> \<open>Self_Tests\<close> (\<open>tests.c\<close>, the end of \<open>filesys_read.c\<close>): the kernel's own tests over the model of what
    they test, and which of them pass, fail, or end in an exception. \<open>launch_tests\<close> calls none of them.

  \<^bold>\<open>Interfaces.\<close> The locales state what a client relies on and are interpreted on the definitions
  of the model: allocation of the first free slot (\<open>first_free\<close>, for descriptors and process
  numbers), comparison of strings and conversion of numbers (\<open>string_compare\<close>, \<open>int_to_ascii\<close>, for
  both libraries), the terminals, the page tables, and invariants of
  transition systems (\<open>transition_invariant\<close>, for the running system and for typed descriptors).

  \<^bold>\<open>Loops and waiting.\<close> A loop that can run for ever is a \<open>partial_function (option)\<close>; the properties
  say for which inputs it returns, and for the endless loop of \<open>pingpong\<close> that it does not while
  any number of its rounds is completed (\<open>pp_rounds\<close>, with the number as fuel). A loop that waits
  for an interrupt (\<open>spin_until\<close>) takes the list of handlers that run while it waits and is \<open>None\<close> when none of them ends the wait; so does a
  loop that works until the clock has counted far enough (\<open>tick_loop\<close>, one handler between turns). In
  \<open>System\<close> a read that blocks is two steps, its start and its end, with any interrupts and any
  work of other processes between them (\<open>waiting_read_splits\<close> says that this is the same). Every other
  system call is one step there, although the code leaves interrupts enabled in it (vector 0x80 is a trap gate)
  except where it disables them. The kernel stacks are not followed: a tick goes on with a process where it was
  interrupted, which the code does only for processes that were switched away from by a tick. Every other function is total, with a termination proof where the recursion is not structural.

  \<^bold>\<open>Parameters.\<close> Hardware is a parameter: \<open>device\<close> answers the port reads. So
  are the addresses the linker chooses (\<open>layout\<close>, \<open>symbols\<close>, with
  \<open>layout_ok\<close> saying that they are apart), what uninitialised stack memory holds
  (\<open>stack\<close>), the saved registers and the structure the boot loader passes. What surrounds a user
  program is a parameter too (\<open>prog_env\<close>): the handlers that run while a call of it waits, the
  addresses of its literals and, for the shell, what a program it executes does until \<open>execute\<close>
  returns; between its calls a program runs alone. The emulated calls have a state of their own
  (\<open>emu_state\<close>), and Linux and its C library are a parameter of them (\<open>linux\<close>). Kernel variables and process blocks are objects of their own, apart from
  \<open>ram\<close>, which holds the user pages and the video pages: calls whose buffers overlap kernel
  objects are not described. The code checks no pointer of a program but for null (and \<open>0x400000\<close> in \<open>vidmap\<close>),
  so \<open>System\<close> restricts the programs to those that pass pointers into their own page to the
  calls that store through them (\<open>user_args\<close>).

  \<^bold>\<open>Not modelled.\<close> The primitives of \<open>lib.h\<close> that nothing calls (the port accesses of two and four bytes,
  \<open>cli_and_save\<close>, \<open>restore_flags\<close>, \<open>io_wait\<close>), the debugging macros, the signal handlers of \<open>sigtest\<close>, which are
  never called, the images in \<open>fsdir\<close> and the tools that build them. \<open>fish\<close> comes with copies of the string library
  and of the emulated calls of \<open>syscalls\<close>; the model is that of \<open>syscalls\<close>.
\<close>

end
